(* ===== verification/Prelude.thy ===== *)
theory Prelude
  imports Main
begin

text \<open>
  Shared material of the development: insertion-ordered maps (the JavaScript \<open>Map\<close> and the
  own properties of a plain object), the interface such a map offers to its clients as a locale,
  rounding up of integer quotients, and generic facts on lists and options.
\<close>

section \<open>Collections of facts\<close>

named_theorems omap_simps \<open>laws of insertion-ordered maps\<close>
named_theorems js_simps \<open>unfolding rules for JavaScript library functions\<close>

section \<open>Insertion-ordered maps\<close>

text \<open>
  A JavaScript \<open>Map\<close> iterates its keys in insertion order; setting an existing key keeps its
  position, deleting and setting again moves it to the end. It is an association list whose keys
  are distinct.
\<close>

type_synonym ('k, 'v) omap = "('k \<times> 'v) list"

definition om_get :: "('k, 'v) omap \<Rightarrow> 'k \<Rightarrow> 'v option" where
  "om_get m k = map_of m k"

fun om_set :: "'k \<Rightarrow> 'v \<Rightarrow> ('k, 'v) omap \<Rightarrow> ('k, 'v) omap" where
  "om_set k v [] = [(k, v)]"
| "om_set k v ((k', v') # m) = (if k' = k then (k, v) # m else (k', v') # om_set k v m)"

definition om_delete :: "'k \<Rightarrow> ('k, 'v) omap \<Rightarrow> ('k, 'v) omap" where
  "om_delete k m = filter (\<lambda>p. fst p \<noteq> k) m"

definition om_has :: "('k, 'v) omap \<Rightarrow> 'k \<Rightarrow> bool" where
  "om_has m k = (k \<in> set (map fst m))"

abbreviation om_keys :: "('k, 'v) omap \<Rightarrow> 'k list" where
  "om_keys m \<equiv> map fst m"

definition om_inv :: "('k, 'v) omap \<Rightarrow> bool" where
  "om_inv m = distinct (om_keys m)"

text \<open>
  What a client of a map relies on: lookups after an update or a deletion, and the bookkeeping
  of its size. The clients' lemmas are proved from these laws alone.
\<close>

locale js_map =
  fixes get :: "'m \<Rightarrow> 'k \<Rightarrow> 'v option"
    and put :: "'k \<Rightarrow> 'v \<Rightarrow> 'm \<Rightarrow> 'm"
    and del :: "'k \<Rightarrow> 'm \<Rightarrow> 'm"
    and size_of :: "'m \<Rightarrow> nat"
    and inv :: "'m \<Rightarrow> bool"
  assumes get_put: "get (put k v m) k' = (if k' = k then Some v else get m k')"
    and get_del: "get (del k m) k' = (if k' = k then None else get m k')"
    and size_put: "size_of (put k v m) = (if get m k = None then Suc (size_of m) else size_of m)"
    and size_del: "inv m \<Longrightarrow> size_of (del k m) = (if get m k = None then size_of m else size_of m - 1)"
    and size_pos: "get m k \<noteq> None \<Longrightarrow> 0 < size_of m"
    and inv_put: "inv m \<Longrightarrow> inv (put k v m)"
    and inv_del: "inv m \<Longrightarrow> inv (del k m)"
begin

lemma put_after_del: "get (put k v (del k m)) = get (put k v m)"
  by (rule ext) (simp add: get_put get_del)

lemma size_del_le: "inv m \<Longrightarrow> size_of (del k m) \<le> size_of m"
  by (simp add: size_del)

lemma size_del_put: "inv m \<Longrightarrow> get m k \<noteq> None \<Longrightarrow> size_of (put k' v (del k m)) \<le> size_of m"
  using size_pos [of m k] by (auto simp: size_put size_del get_del)

end

lemma om_get_set: "om_get (om_set k v m) k' = (if k' = k then Some v else om_get m k')"
  by (induction m) (auto simp: om_get_def)

lemma om_get_delete: "om_get (om_delete k m) k' = (if k' = k then None else om_get m k')"
  by (induction m) (auto simp: om_get_def om_delete_def)

lemma om_get_None_iff: "om_get m k = None \<longleftrightarrow> k \<notin> set (om_keys m)"
  by (simp add: om_get_def map_of_eq_None_iff image_iff)

lemma om_has_get: "om_has m k \<longleftrightarrow> om_get m k \<noteq> None"
  unfolding om_has_def using om_get_None_iff [of m k] by auto

lemma om_length_set:
  "length (om_set k v m) = (if om_get m k = None then Suc (length m) else length m)"
  by (induction m) (auto simp: om_get_def)

lemma om_keys_set:
  "om_keys (om_set k v m) = (if k \<in> set (om_keys m) then om_keys m else om_keys m @ [k])"
  by (induction m) (force split: if_splits)+

lemma om_keys_delete: "om_keys (om_delete k m) = filter (\<lambda>k'. k' \<noteq> k) (om_keys m)"
  by (induction m) (auto simp: om_delete_def)

lemma om_inv_set: "om_inv m \<Longrightarrow> om_inv (om_set k v m)"
  by (auto simp: om_inv_def om_keys_set simp del: set_map)

lemma om_inv_delete: "om_inv m \<Longrightarrow> om_inv (om_delete k m)"
  by (auto simp: om_inv_def om_keys_delete)

lemma om_delete_absent: "k \<notin> set (om_keys m) \<Longrightarrow> om_delete k m = m"
  by (induction m) (auto simp: om_delete_def)

lemma om_length_delete:
  "om_inv m \<Longrightarrow> length (om_delete k m) = (if om_get m k = None then length m else length m - 1)"
proof (induction m)
  case Nil
  then show ?case by (simp add: om_delete_def om_get_def)
next
  case (Cons p m)
  obtain k' v' where p: "p = (k', v')" by (cases p)
  have inv: "om_inv m" and k': "k' \<notin> set (om_keys m)"
    using Cons.prems by (auto simp: om_inv_def p)
  show ?case
  proof (cases "k' = k")
    case True
    with k' have "om_delete k m = m" by (simp add: om_delete_absent)
    with True p show ?thesis by (simp add: om_delete_def om_get_def)
  next
    case False
    have "om_get m k \<noteq> None \<Longrightarrow> length m \<noteq> 0" by (auto simp: om_get_def)
    with False p Cons.IH [OF inv] show ?thesis by (auto simp: om_delete_def om_get_def)
  qed
qed

lemma om_length_pos: "om_get m k \<noteq> None \<Longrightarrow> 0 < length m"
  by (cases m) (auto simp: om_get_def)

lemma om_inv_Nil [simp]: "om_inv []"
  by (simp add: om_inv_def)

lemma om_get_Nil [simp]: "om_get [] k = None"
  by (simp add: om_get_def)

interpretation om: js_map om_get om_set om_delete length om_inv
  by unfold_locales
    (simp_all only: om_get_set om_get_delete om_length_set om_length_delete om_length_pos
      om_inv_set om_inv_delete)

declare om_get_set [omap_simps] om_get_delete [omap_simps] om_length_set [omap_simps]
  om_length_delete [omap_simps] om_inv_set [omap_simps, intro] om_inv_delete [omap_simps, intro]
  om_keys_set [omap_simps] om_keys_delete [omap_simps]

lemma om_set_values: "p \<in> set (om_set k v m) \<Longrightarrow> p = (k, v) \<or> p \<in> set m"
  by (induction m) (auto split: if_splits)

lemma om_delete_values: "p \<in> set (om_delete k m) \<Longrightarrow> p \<in> set m"
  by (simp add: om_delete_def)

lemma om_get_in_set: "om_get m k = Some v \<Longrightarrow> (k, v) \<in> set m"
  by (simp add: om_get_def map_of_SomeD)

section \<open>Rounding up\<close>

text \<open>\<open>Math.ceil(a / b)\<close> for integers and a positive divisor.\<close>

definition ceil_div :: "int \<Rightarrow> int \<Rightarrow> int" where
  "ceil_div a b = - ((- a) div b)"

lemma ceil_div_pos: "0 < b \<Longrightarrow> 0 < a \<Longrightarrow> 1 \<le> ceil_div a b"
  unfolding ceil_div_def using div_neg_pos_less0 [of "- a" b] by simp

lemma ceil_div_mono: "0 < b \<Longrightarrow> a \<le> a' \<Longrightarrow> ceil_div a b \<le> ceil_div a' b"
  unfolding ceil_div_def by (simp add: zdiv_mono1)

lemma ceil_div_upper: "0 < b \<Longrightarrow> a \<le> b * ceil_div a b"
proof -
  assume b: "0 < b"
  have "b * ((- a) div b) \<le> - a"
    using b by (metis add.commute le_add_same_cancel1 mult_div_mod_eq pos_mod_sign)
  then show ?thesis unfolding ceil_div_def by simp
qed

section \<open>Lists\<close>

text \<open>\<open>Math.max(...xs)\<close> of a non-empty list of integers.\<close>

definition max_list :: "int list \<Rightarrow> int" where
  "max_list xs = foldr max (tl xs) (hd xs)"

lemma max_list_in: "xs \<noteq> [] \<Longrightarrow> max_list xs \<in> set xs"
proof -
  have "foldr max ys x \<in> insert x (set ys)" for ys and x :: int
    by (induction ys) (auto simp: max_def)
  then show "xs \<noteq> [] \<Longrightarrow> max_list xs \<in> set xs"
    unfolding max_list_def by (cases xs) force+
qed

lemma max_list_ge: "x \<in> set xs \<Longrightarrow> x \<le> max_list xs"
proof -
  have "y \<in> insert x (set ys) \<Longrightarrow> y \<le> foldr max ys x" for ys and x y :: int
    by (induction ys) auto
  then show "x \<in> set xs \<Longrightarrow> x \<le> max_list xs"
    unfolding max_list_def by (cases xs) force+
qed

lemma list_ex_find: "find P xs \<noteq> None \<longleftrightarrow> (\<exists>x \<in> set xs. P x)"
  by (induction xs) auto

lemma find_in_set: "find P xs = Some x \<Longrightarrow> x \<in> set xs \<and> P x"
  by (induction xs) (auto split: if_splits)

end
