(* ===== verification/Js.thy ===== *)
theory Js
  imports Complex_Main Prelude
begin

text \<open>
  The part of the JavaScript value model and standard library the console uses: numbers with
  \<open>NaN\<close> and the infinities, dynamic values, truthiness, \<open>Number(x)\<close>, \<open>String(x)\<close>, and the
  string operations \<open>trim\<close>, \<open>toLowerCase\<close>, \<open>startsWith\<close>, \<open>indexOf\<close>, \<open>lastIndexOf\<close>,
  \<open>split\<close> and \<open>join\<close>. A string is a list of code units below 256; a finite number is an exact
  rational, so rounding of doubles is not modelled (the console's numbers are integers far below
  \<open>2^53\<close>, durations and small fractions). \<open>-0\<close> is not distinguished from \<open>0\<close>.
\<close>

section \<open>Numbers\<close>

datatype jsnum = NaN | PosInf | NegInf | Num rat

definition num_of_int :: "int \<Rightarrow> jsnum" where
  "num_of_int i = Num (of_int i)"

fun is_finite :: "jsnum \<Rightarrow> bool" where
  "is_finite (Num q) = True"
| "is_finite _ = False"

definition rat_is_int :: "rat \<Rightarrow> bool" where
  "rat_is_int q = (of_int (floor q) = q)"

fun is_integer :: "jsnum \<Rightarrow> bool" where
  "is_integer (Num q) = rat_is_int q"
| "is_integer _ = False"

fun js_floor :: "jsnum \<Rightarrow> jsnum" where
  "js_floor (Num q) = Num (of_int (floor q))"
| "js_floor x = x"

text \<open>\<open>Math.round\<close>: halves are rounded up.\<close>

definition js_round :: "rat \<Rightarrow> int" where
  "js_round q = floor (q + 1/2)"

fun num_lt :: "jsnum \<Rightarrow> jsnum \<Rightarrow> bool" where
  "num_lt NaN _ = False"
| "num_lt _ NaN = False"
| "num_lt (Num a) (Num b) = (a < b)"
| "num_lt NegInf NegInf = False"
| "num_lt NegInf _ = True"
| "num_lt _ NegInf = False"
| "num_lt _ PosInf = True"
| "num_lt PosInf _ = False"

fun num_truthy :: "jsnum \<Rightarrow> bool" where
  "num_truthy NaN = False"
| "num_truthy (Num q) = (q \<noteq> 0)"
| "num_truthy _ = True"

text \<open>The integer a finite number denotes after \<open>Math.floor\<close>; 0 for the others.\<close>

fun num_int :: "jsnum \<Rightarrow> int" where
  "num_int (Num q) = floor q"
| "num_int _ = 0"

section \<open>Strings\<close>

definition code :: "char \<Rightarrow> nat" where
  "code c = of_char c"

definition is_ws :: "char \<Rightarrow> bool" where
  "is_ws c = (code c \<in> {9, 10, 11, 12, 13, 32, 160})"

definition is_digit :: "char \<Rightarrow> bool" where
  "is_digit c = (48 \<le> code c \<and> code c \<le> 57)"

definition is_lower_hex :: "char \<Rightarrow> bool" where
  "is_lower_hex c = (is_digit c \<or> (97 \<le> code c \<and> code c \<le> 102))"

definition is_word_char :: "char \<Rightarrow> bool" where
  "is_word_char c = (is_digit c \<or> (65 \<le> code c \<and> code c \<le> 90)
     \<or> (97 \<le> code c \<and> code c \<le> 122) \<or> code c = 95)"

definition lower_char :: "char \<Rightarrow> char" where
  "lower_char c = (if (65 \<le> code c \<and> code c \<le> 90)
      \<or> (192 \<le> code c \<and> code c \<le> 222 \<and> code c \<noteq> 215)
    then char_of (code c + 32) else c)"

definition js_lower :: "string \<Rightarrow> string" where
  "js_lower s = map lower_char s"

definition trim_left :: "string \<Rightarrow> string" where
  "trim_left s = dropWhile is_ws s"

definition js_trim :: "string \<Rightarrow> string" where
  "js_trim s = rev (trim_left (rev (trim_left s)))"

definition starts_with :: "string \<Rightarrow> string \<Rightarrow> bool" where
  "starts_with s p = (take (length p) s = p)"

definition ends_with :: "string \<Rightarrow> string \<Rightarrow> bool" where
  "ends_with s p = (length p \<le> length s \<and> drop (length s - length p) s = p)"

text \<open>\<open>s.indexOf(c)\<close> and \<open>s.lastIndexOf(c)\<close> for one character; \<open>None\<close> stands for \<open>-1\<close>.\<close>

fun index_of :: "char \<Rightarrow> string \<Rightarrow> nat option" where
  "index_of c [] = None"
| "index_of c (x # xs) = (if x = c then Some 0 else map_option Suc (index_of c xs))"

definition last_index_of :: "char \<Rightarrow> string \<Rightarrow> nat option" where
  "last_index_of c s = map_option (\<lambda>i. length s - 1 - i) (index_of c (rev s))"

text \<open>Splitting at every character that satisfies a predicate, and joining with a separator.\<close>

fun split_at :: "(char \<Rightarrow> bool) \<Rightarrow> string \<Rightarrow> string list" where
  "split_at p [] = [[]]"
| "split_at p (c # cs) =
     (if p c then [] # split_at p cs
      else (case split_at p cs of [] \<Rightarrow> [[c]] | w # ws \<Rightarrow> (c # w) # ws))"

fun join_with :: "string \<Rightarrow> string list \<Rightarrow> string" where
  "join_with sep [] = []"
| "join_with sep [x] = x"
| "join_with sep (x # y # xs) = x @ sep @ join_with sep (y # xs)"

subsection \<open>Decimal numerals\<close>

definition digit_char :: "nat \<Rightarrow> char" where
  "digit_char d = char_of (48 + d)"

definition digit_val :: "char \<Rightarrow> nat" where
  "digit_val c = code c - 48"

fun show_nat :: "nat \<Rightarrow> string" where
  "show_nat n = (if n < 10 then [digit_char n] else show_nat (n div 10) @ [digit_char (n mod 10)])"

declare show_nat.simps [simp del]

definition show_int :: "int \<Rightarrow> string" where
  "show_int i = (if i < 0 then ''-'' @ show_nat (nat (- i)) else show_nat (nat i))"

definition digits_val :: "string \<Rightarrow> nat" where
  "digits_val s = foldl (\<lambda>n c. 10 * n + digit_val c) 0 s"

text \<open>The fractional digits of a rational in \<open>[0, 1)\<close>, at most the given number of them.\<close>

fun frac_digits :: "nat \<Rightarrow> rat \<Rightarrow> string" where
  "frac_digits 0 q = []"
| "frac_digits (Suc k) q =
     (if q = 0 then [] else digit_char (nat (floor (10 * q))) # frac_digits k (10 * q - of_int (floor (10 * q))))"

definition show_rat :: "rat \<Rightarrow> string" where
  "show_rat q = (if rat_is_int q then show_int (floor q)
     else (if q < 0 then ''-'' else []) @ show_nat (nat (floor (abs q))) @ ''.''
       @ frac_digits 20 (abs q - of_int (floor (abs q))))"

fun show_num :: "jsnum \<Rightarrow> string" where
  "show_num NaN = ''NaN''"
| "show_num PosInf = ''Infinity''"
| "show_num NegInf = ''-Infinity''"
| "show_num (Num q) = show_rat q"

subsection \<open>\<open>Number(s)\<close> of a string\<close>

text \<open>
  The numeric literals of a string: surrounding white space is ignored, the empty string is 0,
  \<open>Infinity\<close> with an optional sign, the prefixes \<open>0x\<close>, \<open>0o\<close> and \<open>0b\<close>, and decimal literals
  with an optional sign, fraction and exponent. Everything else is \<open>NaN\<close>.
\<close>

definition pow10 :: "int \<Rightarrow> rat" where
  "pow10 e = (if 0 \<le> e then 10 ^ nat e else 1 / 10 ^ nat (- e))"

definition radix_digit :: "char \<Rightarrow> nat" where
  "radix_digit c = (let k = code (lower_char c) in
     if is_digit c then k - 48 else if 97 \<le> k \<and> k \<le> 122 then k - 87 else 99)"

definition parse_radix :: "nat \<Rightarrow> string \<Rightarrow> jsnum" where
  "parse_radix r ds = (if ds \<noteq> [] \<and> list_all (\<lambda>c. radix_digit c < r) ds
     then Num (of_nat (foldl (\<lambda>n c. r * n + radix_digit c) 0 ds)) else NaN)"

text \<open>The exponent part: empty, or \<open>e\<close> with an optional sign and at least one digit.\<close>

fun parse_exponent :: "string \<Rightarrow> int option" where
  "parse_exponent [] = Some 0"
| "parse_exponent (c # cs) =
     (if c \<noteq> CHR ''e'' \<and> c \<noteq> CHR ''E'' then None
      else let neg = (cs \<noteq> [] \<and> hd cs = CHR ''-'');
               ds = (if cs \<noteq> [] \<and> (hd cs = CHR ''-'' \<or> hd cs = CHR ''+'') then tl cs else cs)
           in if ds \<noteq> [] \<and> list_all is_digit ds
              then Some (if neg then - int (digits_val ds) else int (digits_val ds)) else None)"

definition parse_unsigned :: "string \<Rightarrow> jsnum" where
  "parse_unsigned s =
     (if s = ''Infinity'' then PosInf
      else let ip = takeWhile is_digit s;
               r1 = dropWhile is_digit s;
               dot = (r1 \<noteq> [] \<and> hd r1 = CHR ''.'');
               r2 = (if dot then tl r1 else r1);
               fp = (if dot then takeWhile is_digit r2 else []);
               r3 = (if dot then dropWhile is_digit r2 else r1)
           in if ip = [] \<and> fp = [] then NaN
              else case parse_exponent r3 of
                None \<Rightarrow> NaN
              | Some e \<Rightarrow> Num ((of_nat (digits_val (ip @ fp)) / 10 ^ length fp) * pow10 e))"

fun num_neg :: "jsnum \<Rightarrow> jsnum" where
  "num_neg (Num q) = Num (- q)"
| "num_neg PosInf = NegInf"
| "num_neg NegInf = PosInf"
| "num_neg NaN = NaN"

definition string_to_num :: "string \<Rightarrow> jsnum" where
  "string_to_num s0 = (let s = js_trim s0 in
     if s = [] then Num 0
     else if hd s = CHR ''-'' then num_neg (parse_unsigned (tl s))
     else if hd s = CHR ''+'' then parse_unsigned (tl s)
     else if js_lower (take 2 s) = ''0x'' then parse_radix 16 (drop 2 s)
     else if js_lower (take 2 s) = ''0o'' then parse_radix 8 (drop 2 s)
     else if js_lower (take 2 s) = ''0b'' then parse_radix 2 (drop 2 s)
     else parse_unsigned s)"

section \<open>Values\<close>

datatype jsval =
    Undef
  | Null
  | Bool bool
  | Number jsnum
  | Str string
  | Arr "jsval list"
  | Obj "(string \<times> jsval) list"

fun truthy :: "jsval \<Rightarrow> bool" where
  "truthy Undef = False"
| "truthy Null = False"
| "truthy (Bool b) = b"
| "truthy (Number n) = num_truthy n"
| "truthy (Str s) = (s \<noteq> [])"
| "truthy (Arr _) = True"
| "truthy (Obj _) = True"

fun is_nullish :: "jsval \<Rightarrow> bool" where
  "is_nullish Undef = True"
| "is_nullish Null = True"
| "is_nullish _ = False"

text \<open>\<open>typeof v === "object"\<close>, which also holds of \<open>null\<close> and of arrays.\<close>

fun is_object :: "jsval \<Rightarrow> bool" where
  "is_object Null = True"
| "is_object (Arr _) = True"
| "is_object (Obj _) = True"
| "is_object _ = False"

fun is_array :: "jsval \<Rightarrow> bool" where
  "is_array (Arr _) = True"
| "is_array _ = False"

fun is_str :: "jsval \<Rightarrow> bool" where
  "is_str (Str _) = True"
| "is_str _ = False"

text \<open>Reading an own property; a missing one, and one of a value without properties, is \<open>undefined\<close>.\<close>

fun getp :: "jsval \<Rightarrow> string \<Rightarrow> jsval" where
  "getp (Obj ps) k = (case map_of ps k of None \<Rightarrow> Undef | Some v \<Rightarrow> v)"
| "getp _ k = Undef"

fun to_str :: "jsval \<Rightarrow> string" where
  "to_str Undef = ''undefined''"
| "to_str Null = ''null''"
| "to_str (Bool b) = (if b then ''true'' else ''false'')"
| "to_str (Number n) = show_num n"
| "to_str (Str s) = s"
| "to_str (Arr vs) = join_with '','' (map (\<lambda>v. if is_nullish v then [] else to_str v) vs)"
| "to_str (Obj _) = ''[object Object]''"

fun to_num :: "jsval \<Rightarrow> jsnum" where
  "to_num Undef = NaN"
| "to_num Null = Num 0"
| "to_num (Bool b) = Num (if b then 1 else 0)"
| "to_num (Number n) = n"
| "to_num (Str s) = string_to_num s"
| "to_num (Arr vs) = string_to_num (to_str (Arr vs))"
| "to_num (Obj _) = NaN"

text \<open>\<open>a || b\<close> and \<open>a ?? b\<close>.\<close>

definition js_or :: "jsval \<Rightarrow> jsval \<Rightarrow> jsval" where
  "js_or a b = (if truthy a then a else b)"

definition js_nullish :: "jsval \<Rightarrow> jsval \<Rightarrow> jsval" where
  "js_nullish a b = (if is_nullish a then b else a)"

section \<open>Facts\<close>

lemma is_integer_num_of_int [simp]: "is_integer (num_of_int i)"
  by (simp add: num_of_int_def rat_is_int_def)

lemma is_finite_floor [simp]: "is_finite (js_floor x) = is_finite x"
  by (cases x) auto

lemma num_int_floor [simp]: "num_int (js_floor x) = num_int x"
  by (cases x) auto

lemma num_int_of_int [simp]: "num_int (num_of_int i) = i"
  by (simp add: num_of_int_def)

lemma starts_with_iff: "starts_with s p \<longleftrightarrow> (\<exists>r. s = p @ r)"
  unfolding starts_with_def by (metis append_eq_conv_conj append_take_drop_id)

lemma ends_with_iff: "ends_with s p \<longleftrightarrow> (\<exists>r. s = r @ p)"
  unfolding ends_with_def by (metis append_eq_conv_conj append_take_drop_id diff_add_inverse2
    length_append le_add2)

lemma index_of_append: "index_of c (p @ c # r) = Some (length p)" if "c \<notin> set p"
  using that by (induction p) auto

lemma index_of_Some: "index_of c s = Some i \<Longrightarrow> i < length s \<and> s ! i = c \<and> c \<notin> set (take i s)"
  by (induction s arbitrary: i) (auto split: if_splits)

lemma index_of_None: "index_of c s = None \<longleftrightarrow> c \<notin> set s"
  by (induction s) auto

lemma trim_left_idem: "trim_left (trim_left s) = trim_left s"
  by (induction s) (auto simp: trim_left_def)

lemma dropWhile_last: "dropWhile P xs \<noteq> [] \<Longrightarrow> last (dropWhile P xs) = last xs"
  by (induction xs) auto

lemma js_trim_hd: "js_trim s \<noteq> [] \<Longrightarrow> \<not> is_ws (hd (js_trim s))"
proof -
  assume ne: "js_trim s \<noteq> []"
  let ?t = "trim_left s"
  have eq: "js_trim s = rev (dropWhile is_ws (rev ?t))" by (simp add: js_trim_def trim_left_def)
  with ne have "last (dropWhile is_ws (rev ?t)) = last (rev ?t)" by (intro dropWhile_last) auto
  moreover have "?t \<noteq> []" using ne eq by auto
  ultimately have "hd (js_trim s) = hd ?t" using eq ne by (simp add: hd_rev last_rev)
  moreover have "\<not> is_ws (hd ?t)" using \<open>?t \<noteq> []\<close> unfolding trim_left_def by (rule hd_dropWhile)
  ultimately show ?thesis by simp
qed

lemma js_trim_last: "js_trim s \<noteq> [] \<Longrightarrow> \<not> is_ws (last (js_trim s))"
  unfolding js_trim_def trim_left_def by (metis hd_dropWhile last_rev rev_is_Nil_conv)

lemma trim_left_id: "s = [] \<or> \<not> is_ws (hd s) \<Longrightarrow> trim_left s = s"
  by (cases s) (auto simp: trim_left_def)

lemma js_trim_idem [simp]: "js_trim (js_trim s) = js_trim s"
proof (cases "js_trim s = []")
  case True
  then show ?thesis by (simp only: True) (simp add: js_trim_def trim_left_def)
next
  case False
  let ?t = "js_trim s"
  have "trim_left ?t = ?t" using js_trim_hd [OF False] by (simp add: trim_left_id)
  moreover have "trim_left (rev ?t) = rev ?t"
    using js_trim_last [OF False] False by (simp add: trim_left_id hd_rev)
  ultimately show ?thesis unfolding js_trim_def [of ?t] by simp
qed

text \<open>
  \<open>toUpperCase\<close>: the sharp s becomes two letters; the code units 181 and 255, whose capitals lie
  beyond 255, are kept (no use of the console tells them from their capitals).
\<close>

definition upper_char :: "char \<Rightarrow> string" where
  "upper_char c = (if code c = 223 then ''SS''
    else if (97 \<le> code c \<and> code c \<le> 122) \<or> (224 \<le> code c \<and> code c \<le> 254 \<and> code c \<noteq> 247)
    then [char_of (code c - 32)] else [c])"

definition js_upper :: "string \<Rightarrow> string" where
  "js_upper s = concat (map upper_char s)"

lemma split_at_nonempty: "split_at p s \<noteq> []"
  by (induction s) (auto split: list.splits)

lemma split_at_no_sep: "\<forall>w \<in> set (split_at p s). \<forall>c \<in> set w. \<not> p c"
  by (induction s) (auto split: list.splits if_splits)

text \<open>Splitting at one character and joining with it again gives the string back.\<close>

lemma join_split: "join_with [c] (split_at (\<lambda>x. x = c) s) = s"
proof (induction s)
  case Nil
  then show ?case by simp
next
  case (Cons x xs)
  obtain w ws where w: "split_at (\<lambda>x. x = c) xs = w # ws"
    using split_at_nonempty [of "\<lambda>x. x = c" xs] by (cases "split_at (\<lambda>x. x = c) xs") auto
  then have "join_with [c] (w # ws) = xs" using Cons.IH by simp
  then show ?case by (cases ws) (auto simp: w)
qed

lemma split_at_word: "\<forall>c \<in> set w. \<not> p c \<Longrightarrow> split_at p w = [w]"
  by (induction w) auto

lemma split_at_append:
  "\<forall>c \<in> set w. \<not> p c \<Longrightarrow> p s \<Longrightarrow> split_at p (w @ s # r) = w # split_at p r"
  by (induction w) auto

text \<open>Stripping at most a suffix: a prefix of a string is a prefix of its continuation.\<close>

lemma starts_with_append [simp]: "starts_with (p @ r) p"
  by (simp add: starts_with_def)

lemma ends_with_append [simp]: "ends_with (r @ p) p"
  by (simp add: ends_with_def)

end
