(* ===== verification/Actions.thy ===== *)
theory Actions
  imports Js
begin

text \<open>
  The action catalog of \<open>console/api/src/actions.js\<close>: the tables that map a route to the one
  action it requires, entry by entry in the source's order, and their resolution
  \<open>actionForRoute\<close>. A route pattern of the source is a regular expression over whole path
  segments, \<open>/^\/api\/x\/[^/]+\/y$/\<close>; it is modelled as its list of segments.
\<close>

section \<open>Path patterns\<close>

datatype seg =
    Lit string    \<comment> \<open>a literal segment\<close>
  | AnySeg        \<comment> \<open>\<open>[^/]+\<close>\<close>
  | Digits        \<comment> \<open>\<open>\d+\<close>\<close>
  | OptSeg        \<comment> \<open>\<open>(?:\/[^/]+)?\<close>, last in its pattern\<close>

fun match_segs :: "seg list \<Rightarrow> string list \<Rightarrow> bool" where
  "match_segs [] ss = (ss = [])"
| "match_segs (OptSeg # ps) [] = match_segs ps []"
| "match_segs (OptSeg # ps) (s # ss) = (s \<noteq> [] \<and> match_segs ps ss)"
| "match_segs (Lit l # ps) (s # ss) = (s = l \<and> match_segs ps ss)"
| "match_segs (AnySeg # ps) (s # ss) = (s \<noteq> [] \<and> match_segs ps ss)"
| "match_segs (Digits # ps) (s # ss) = (s \<noteq> [] \<and> list_all is_digit s \<and> match_segs ps ss)"
| "match_segs _ [] = False"

definition path_segments :: "string \<Rightarrow> string list" where
  "path_segments path = split_at (\<lambda>c. c = CHR ''/'') path"

definition pattern_test :: "seg list \<Rightarrow> string \<Rightarrow> bool" where
  "pattern_test pat path = match_segs pat (path_segments path)"

section \<open>The tables\<close>

definition NAMESPACES :: "string list" where
  "NAMESPACES = [''community'', ''setup'', ''server'', ''logs'', ''backups'', ''database'', ''updates'', ''settings'', ''players'', ''guilds'', ''bases'', ''maps'', ''sietches'', ''deepdesert'', ''admin'', ''landsraad'', ''addons'', ''carepackage'', ''storage'', ''blueprints'', ''vehicles'', ''exchange'', ''realtime'']"

definition ROUTE_ACTIONS_1 :: "(string \<times> string) list" where
  "ROUTE_ACTIONS_1 = [
    (''GET /api/setup/state'', ''setup:read''),
    (''GET /api/setup/tasks'', ''setup:read''),
    (''POST /api/setup/preflight'', ''setup:write''),
    (''POST /api/setup/write-config'', ''setup:write''),
    (''POST /api/setup/write-oauth-config'', ''setup:write''),
    (''POST /api/setup/save-oauth-secret'', ''setup:write''),
    (''POST /api/setup/save-token'', ''setup:write''),
    (''POST /api/setup/init'', ''setup:write''),
    (''GET /api/public-directory/status'', ''setup:read''),
    (''GET /api/server/status'', ''server:read''),
    (''GET /api/server/performance'', ''server:read''),
    (''GET /api/server/restart-history'', ''server:read''),
    (''GET /api/server/readiness'', ''server:read''),
    (''GET /api/server/ports'', ''server:read''),
    (''GET /api/server/services'', ''server:read''),
    (''GET /api/server/doctor'', ''server:read''),
    (''GET /api/server/funcom-token/check'', ''server:read''),
    (''GET /api/server/restart-schedule'', ''server:read''),
    (''GET /api/server/ip-change-restart'', ''server:read''),
    (''GET /api/server/shutdown-protection'', ''server:read'')]"

definition ROUTE_ACTIONS_2 :: "(string \<times> string) list" where
  "ROUTE_ACTIONS_2 = [
    (''GET /api/server/restart-queue'', ''server:read''),
    (''POST /api/server/start'', ''server:start''),
    (''POST /api/server/stop'', ''server:stop''),
    (''POST /api/server/restart'', ''server:restart''),
    (''POST /api/server/restart-service'', ''server:restart-service''),
    (''POST /api/server/restart-queue/cancel'', ''server:restart''),
    (''POST /api/server/restart-queue/restart-now'', ''server:restart''),
    (''POST /api/server/network-bind/fix'', ''server:network-fix''),
    (''POST /api/server/storage/cleanup-images'', ''server:storage-cleanup''),
    (''POST /api/server/storage/cleanup-build-cache'', ''server:storage-cleanup''),
    (''POST /api/server/funcom-token'', ''server:write-config''),
    (''POST /api/server/title'', ''server:write-config''),
    (''POST /api/server/config'', ''server:write-config''),
    (''POST /api/server/restart-schedule'', ''server:write-config''),
    (''POST /api/server/ip-change-restart'', ''server:write-config''),
    (''POST /api/server/ip-change-restart/check'', ''server:write-config''),
    (''POST /api/server/shutdown-protection'', ''server:write-config''),
    (''POST /api/server/shutdown-protection/remove'', ''server:write-config''),
    (''POST /api/server/restart-queue'', ''server:write-config''),
    (''GET /api/logs/services'', ''logs:read'')]"

definition ROUTE_ACTIONS_3 :: "(string \<times> string) list" where
  "ROUTE_ACTIONS_3 = [
    (''GET /api/backups'', ''backups:read''),
    (''GET /api/backups/auto'', ''backups:read''),
    (''POST /api/backups/create'', ''backups:create''),
    (''POST /api/backups/restore'', ''backups:restore''),
    (''POST /api/backups/auto'', ''backups:write-config''),
    (''POST /api/backups/delete-all'', ''backups:delete''),
    (''POST /api/backups/delete-selected'', ''backups:delete''),
    (''POST /api/backups/import-external'', ''backups:import''),
    (''POST /api/backups/system/import'', ''backups:import-system''),
    (''GET /api/backups/system'', ''backups:read''),
    (''POST /api/backups/system/create'', ''backups:create-system''),
    (''POST /api/backups/system/delete-selected'', ''backups:delete-system''),
    (''POST /api/backups/system/delete-all'', ''backups:delete-system''),
    (''GET /api/database/status'', ''database:read''),
    (''GET /api/database/schemas'', ''database:read''),
    (''GET /api/database/routines'', ''database:read''),
    (''GET /api/database/tables'', ''database:read''),
    (''GET /api/database/search'', ''database:read''),
    (''POST /api/database/query'', ''database:query''),
    (''POST /api/database/export'', ''database:export'')]"

definition ROUTE_ACTIONS_4 :: "(string \<times> string) list" where
  "ROUTE_ACTIONS_4 = [
    (''POST /api/database/password'', ''database:write-config''),
    (''GET /api/updates/auto-game'', ''updates:read''),
    (''POST /api/updates/check-game'', ''updates:check''),
    (''POST /api/updates/apply-game'', ''updates:apply''),
    (''POST /api/updates/fix-steamcmd'', ''updates:fix''),
    (''POST /api/updates/install-assets'', ''updates:install-assets''),
    (''POST /api/console/reload'', ''server:console-reload''),
    (''POST /api/updates/check-stack'', ''updates:self-check''),
    (''POST /api/updates/apply-stack'', ''updates:apply''),
    (''GET /api/updates/qa/status'', ''updates:read''),
    (''POST /api/updates/qa/login'', ''updates:apply''),
    (''POST /api/updates/qa/logout'', ''updates:apply''),
    (''GET /api/updates/qa/build'', ''updates:read''),
    (''POST /api/updates/qa/apply'', ''updates:apply''),
    (''POST /api/updates/qa/reinstall-release'', ''updates:apply''),
    (''GET /api/updates/stack-progress'', ''updates:read''),
    (''POST /api/updates/auto-game'', ''updates:write-config''),
    (''POST /api/updates/repair-runtime'', ''updates:repair''),
    (''GET /api/settings'', ''settings:read''),
    (''POST /api/settings'', ''settings:write'')]"

definition ROUTE_ACTIONS_5 :: "(string \<times> string) list" where
  "ROUTE_ACTIONS_5 = [
    (''POST /api/settings/admin-password'', ''settings:change-password''),
    (''POST /api/settings/web-port'', ''settings:change-port''),
    (''GET /api/settings/iam/policies'', ''settings:read''),
    (''PUT /api/settings/iam/policy'', ''settings:write''),
    (''POST /api/settings/iam/policy/test'', ''settings:read''),
    (''POST /api/auth/2fa/recovery-codes/regenerate'', ''settings:regenerate-recovery-codes''),
    (''GET /api/settings/api-keys'', ''settings:read''),
    (''GET /api/settings/api-keys/catalog'', ''settings:read''),
    (''POST /api/settings/api-keys'', ''settings:write''),
    (''GET /api/realtime/healthz'', ''realtime:read''),
    (''GET /api/realtime/objects'', ''realtime:read''),
    (''GET /api/realtime/stream'', ''realtime:read''),
    (''GET /api/settings/realtime-agent'', ''settings:read''),
    (''POST /api/settings/realtime-agent'', ''settings:write''),
    (''GET /api/settings/encrypted-api'', ''settings:read''),
    (''POST /api/settings/encrypted-api'', ''settings:write''),
    (''POST /api/settings/console-access/confirm'', ''settings:write''),
    (''POST /api/settings/public-directory'', ''settings:write''),
    (''POST /api/settings/public-directory/claim'', ''settings:write''),
    (''GET /api/settings/discord-bot'', ''updates:read'')]"

definition ROUTE_ACTIONS_6 :: "(string \<times> string) list" where
  "ROUTE_ACTIONS_6 = [
    (''POST /api/settings/discord-bot/choice'', ''updates:apply''),
    (''POST /api/settings/discord-bot/enable'', ''updates:apply''),
    (''POST /api/settings/discord-bot/role-ids'', ''updates:apply''),
    (''POST /api/settings/discord-bot/regenerate-token'', ''settings:discord-bot-regenerate-token''),
    (''POST /api/settings/discord-bot/restart'', ''updates:apply''),
    (''POST /api/settings/discord-bot/disable'', ''settings:discord-bot-disable''),
    (''POST /api/settings/discord-bot/oauth-config'', ''settings:discord-bot-oauth-config''),
    (''POST /api/settings/discord-bot/oauth-secret'', ''settings:discord-bot-oauth-secret''),
    (''GET /api/integrations/discord/hosted-bot/oauth/start'', ''settings:discord-bot-hosted-oauth''),
    (''GET /api/integrations/discord/hosted-bot/oauth/callback'', ''settings:discord-bot-hosted-oauth''),
    (''POST /api/integrations/discord/hosted-bot/register'', ''settings:discord-bot-hosted-register''),
    (''POST /api/integrations/discord/hosted-bot/auto-invite/start'', ''settings:discord-bot-hosted-oauth''),
    (''GET /api/integrations/discord/hosted-bot/auto-invite/complete'', ''settings:discord-bot-hosted-oauth''),
    (''GET /api/integrations/discord/hosted-bot/auto-invite/confirmation-status'', ''settings:discord-bot-hosted-oauth''),
    (''GET /api/integrations/discord/hosted-bot/roles'', ''updates:read''),
    (''POST /api/integrations/discord/hosted-bot/roles'', ''updates:apply''),
    (''POST /api/settings/server-startup'', ''settings:write''),
    (''GET /api/settings/experimental-tanks'', ''settings:read''),
    (''POST /api/settings/experimental-tanks'', ''settings:write''),
    (''POST /api/i18n/translate'', ''settings:write'')]"

definition ROUTE_ACTIONS_7 :: "(string \<times> string) list" where
  "ROUTE_ACTIONS_7 = [
    (''POST /api/i18n/key'', ''settings:write''),
    (''DELETE /api/i18n/key'', ''settings:write''),
    (''POST /api/i18n/settings'', ''settings:write''),
    (''POST /api/i18n/sync-all'', ''settings:write''),
    (''POST /api/i18n/suggestions'', ''community:suggest-translation''),
    (''GET /api/players'', ''players:read''),
    (''GET /api/players/list-settings'', ''players:read''),
    (''GET /api/players/combat'', ''players:read''),
    (''GET /api/players/online'', ''players:read''),
    (''GET /api/players/search'', ''players:read''),
    (''GET /api/players/deleted-characters'', ''players:read''),
    (''POST /api/players/list-settings'', ''players:configure-list''),
    (''GET /api/vehicles'', ''vehicles:read''),
    (''GET /api/vehicles/permission-candidates'', ''vehicles:read''),
    (''GET /api/vehicles/pending-deletes'', ''vehicles:read''),
    (''GET /api/exchange/items'', ''exchange:read''),
    (''GET /api/exchange/listings'', ''exchange:read''),
    (''GET /api/exchange/stats'', ''exchange:read''),
    (''GET /api/exchange/transactions'', ''exchange:read''),
    (''GET /api/exchange/config'', ''exchange:read'')]"

definition ROUTE_ACTIONS_8 :: "(string \<times> string) list" where
  "ROUTE_ACTIONS_8 = [
    (''POST /api/exchange/config'', ''exchange:write-config''),
    (''GET /api/exchange/market'', ''exchange:market''),
    (''GET /api/exchange/market/exchanges'', ''exchange:market''),
    (''GET /api/exchange/market/buyback/log'', ''exchange:market''),
    (''POST /api/exchange/market/buyback/probe'', ''exchange:market''),
    (''POST /api/exchange/market/buyback/log'', ''exchange:market-write''),
    (''POST /api/exchange/market/buyback/log/clear'', ''exchange:market-write''),
    (''POST /api/exchange/market/buyback/schedule'', ''exchange:market-write''),
    (''POST /api/exchange/market/seed/schedule'', ''exchange:market-write''),
    (''POST /api/exchange/market/buyback/run'', ''exchange:market-write''),
    (''POST /api/exchange/market/seed/run'', ''exchange:market-write''),
    (''POST /api/exchange/market/seed/clear'', ''exchange:market-write''),
    (''POST /api/exchange/market/settings'', ''exchange:market-write''),
    (''GET /api/exchange/market/plans/csv'', ''exchange:market''),
    (''POST /api/exchange/market/plans/csv'', ''exchange:market-write''),
    (''POST /api/exchange/market/plans/active'', ''exchange:market-write''),
    (''POST /api/exchange/market/plans/name'', ''exchange:market-write''),
    (''GET /api/exchange/market/items'', ''exchange:market''),
    (''GET /api/exchange/market/items/catalog'', ''exchange:market''),
    (''POST /api/exchange/market/items'', ''exchange:market-write'')]"

definition ROUTE_ACTIONS_9 :: "(string \<times> string) list" where
  "ROUTE_ACTIONS_9 = [
    (''POST /api/players/kick-all-online'', ''players:kick-all''),
    (''GET /api/guilds'', ''guilds:read''),
    (''GET /api/bases'', ''bases:read''),
    (''GET /api/bases/pending-refills'', ''bases:read''),
    (''GET /api/bases/auto-refill'', ''bases:read''),
    (''GET /api/bases/auto-refill/settings'', ''bases:read''),
    (''GET /api/bases/pending-water-refills'', ''bases:read''),
    (''GET /api/bases/auto-refill-water'', ''bases:read''),
    (''GET /api/bases/permission-candidates'', ''bases:read''),
    (''GET /api/bases/pending-deletes'', ''bases:read''),
    (''GET /api/bases/pending-child-access'', ''bases:read''),
    (''POST /api/bases/auto-refill/settings'', ''bases:write-config''),
    (''GET /api/base-backups'', ''bases:read''),
    (''POST /api/base-backups/import'', ''bases:import-backup''),
    (''GET /api/storage'', ''storage:read''),
    (''GET /api/blueprints'', ''blueprints:read''),
    (''GET /api/blueprints/community'', ''blueprints:read''),
    (''POST /api/blueprints/export'', ''blueprints:export''),
    (''POST /api/blueprints/import'', ''blueprints:import''),
    (''GET /api/admin/items/catalog'', ''admin:items:read'')]"

definition ROUTE_ACTIONS_10 :: "(string \<times> string) list" where
  "ROUTE_ACTIONS_10 = [
    (''GET /api/admin/items/search'', ''admin:items:read''),
    (''GET /api/admin/items'', ''admin:items:read''),
    (''GET /api/admin/vehicles/structured'', ''admin:vehicles:read''),
    (''GET /api/admin/vehicles'', ''admin:vehicles:read''),
    (''GET /api/admin/skill-modules'', ''admin:skills:read''),
    (''GET /api/admin/history'', ''admin:history:read''),
    (''GET /api/admin/character-transfer-settings'', ''admin:transfer-settings:read''),
    (''GET /api/admin/message-of-the-day'', ''admin:motd:read''),
    (''GET /api/admin/player-announcements'', ''admin:announcements:read''),
    (''GET /api/admin/map-chat-schedules'', ''admin:map-chat''),
    (''POST /api/admin/history/clear'', ''admin:history:clear''),
    (''POST /api/admin/character-transfer-settings'', ''admin:transfer-settings:write''),
    (''POST /api/admin/message-of-the-day'', ''admin:motd:write''),
    (''POST /api/admin/player-announcements'', ''admin:announcements:write''),
    (''POST /api/admin/broadcast'', ''admin:broadcast''),
    (''POST /api/admin/map-chat'', ''admin:map-chat''),
    (''POST /api/admin/map-chat-schedules'', ''admin:map-chat''),
    (''POST /api/admin/broadcast-shutdown'', ''admin:broadcast-shutdown''),
    (''GET /api/admin/landsraad'', ''landsraad:read''),
    (''POST /api/admin/landsraad'', ''landsraad:write'')]"

definition ROUTE_ACTIONS_11 :: "(string \<times> string) list" where
  "ROUTE_ACTIONS_11 = [
    (''POST /api/admin/landsraad/task-goal'', ''landsraad:write''),
    (''POST /api/admin/landsraad/term-task-goals'', ''landsraad:write''),
    (''GET /api/admin/landsraad/milestone-preset'', ''landsraad:read''),
    (''POST /api/admin/landsraad/milestone-preset'', ''landsraad:write''),
    (''POST /api/admin/landsraad/reward-tier'', ''landsraad:write''),
    (''POST /api/admin/landsraad/player-contribution'', ''landsraad:write''),
    (''GET /api/addons/community'', ''addons:read''),
    (''GET /api/addons/installed'', ''addons:read''),
    (''POST /api/addons/community/install'', ''addons:install''),
    (''POST /api/addons/community/update'', ''addons:update''),
    (''GET /api/care-package/capabilities'', ''carepackage:read''),
    (''GET /api/care-package/config'', ''carepackage:read''),
    (''GET /api/care-package/grants'', ''carepackage:read''),
    (''GET /api/care-package/history'', ''carepackage:read''),
    (''GET /api/care-package/eligible'', ''carepackage:read''),
    (''POST /api/care-package/config'', ''carepackage:write-config''),
    (''POST /api/care-package/history/clear'', ''carepackage:clear-history''),
    (''POST /api/care-package/grant-eligible'', ''carepackage:grant-all''),
    (''POST /api/care-package/run'', ''carepackage:scan''),
    (''POST /api/care-package/enable'', ''carepackage:write-config'')]"

definition ROUTE_ACTIONS_12 :: "(string \<times> string) list" where
  "ROUTE_ACTIONS_12 = [
    (''POST /api/care-package/disable'', ''carepackage:write-config''),
    (''GET /api/map/status'', ''maps:read''),
    (''GET /api/map/capabilities'', ''maps:read''),
    (''GET /api/map/partitions'', ''maps:read''),
    (''GET /api/map/markers'', ''maps:read''),
    (''GET /api/map/players'', ''maps:read''),
    (''GET /api/map/bases'', ''maps:read''),
    (''GET /api/map/storage'', ''maps:read''),
    (''GET /api/map/services'', ''maps:read''),
    (''GET /api/map/spice'', ''maps:read''),
    (''GET /api/map/poi'', ''maps:read''),
    (''GET /api/map/overlays'', ''maps:read''),
    (''POST /api/map/teleport-player'', ''maps:teleport''),
    (''GET /api/maps'', ''maps:read''),
    (''GET /api/maps/mode'', ''maps:read''),
    (''GET /api/maps/runtime-settings'', ''maps:read''),
    (''GET /api/maps/autoscaler'', ''maps:read''),
    (''GET /api/maps/memory'', ''maps:read''),
    (''GET /api/maps/memory/live'', ''maps:read''),
    (''GET /api/maps/memory/swap'', ''maps:read'')]"

definition ROUTE_ACTIONS_13 :: "(string \<times> string) list" where
  "ROUTE_ACTIONS_13 = [
    (''GET /api/maps/memory/balancer'', ''maps:read''),
    (''GET /api/maps/spicefields'', ''maps:read''),
    (''GET /api/maps/combat-state'', ''maps:read''),
    (''GET /api/maps/choam-terminals'', ''maps:read''),
    (''GET /api/maps/choam-terminals/capture'', ''players:read''),
    (''GET /api/maps/user-settings/schema'', ''maps:read''),
    (''GET /api/maps/user-settings/restart-pending'', ''maps:read''),
    (''GET /api/maps/user-settings/deferred-pending'', ''maps:read''),
    (''GET /api/maps/user-settings/values'', ''maps:read''),
    (''GET /api/maps/user-settings/raw'', ''maps:read''),
    (''GET /api/maps/userengine'', ''maps:read''),
    (''GET /api/maps/usergame'', ''maps:read''),
    (''POST /api/maps/spawn'', ''maps:spawn''),
    (''POST /api/maps/despawn'', ''maps:despawn''),
    (''POST /api/maps/respawn'', ''maps:restart''),
    (''POST /api/maps/settings'', ''maps:write-config''),
    (''POST /api/maps/mode'', ''maps:write-config''),
    (''POST /api/maps/runtime-settings'', ''maps:write-config''),
    (''POST /api/maps/memory'', ''maps:write-config''),
    (''POST /api/maps/memory/swap'', ''maps:write-config'')]"

definition ROUTE_ACTIONS_14 :: "(string \<times> string) list" where
  "ROUTE_ACTIONS_14 = [
    (''POST /api/maps/memory/balancer'', ''maps:write-config''),
    (''POST /api/maps/autoscaler'', ''maps:write-config''),
    (''POST /api/maps/reconcile'', ''maps:reconcile''),
    (''POST /api/maps/user-settings/save'', ''maps:write-config''),
    (''POST /api/maps/user-settings/reset'', ''maps:write-config''),
    (''POST /api/maps/user-settings/raw'', ''maps:write-config''),
    (''POST /api/maps/user-settings/materialize'', ''maps:write-config''),
    (''POST /api/maps/choam-terminals'', ''maps:write-config''),
    (''DELETE /api/maps/choam-terminals'', ''maps:write-config''),
    (''POST /api/maps/choam-terminals/position'', ''maps:write-config''),
    (''DELETE /api/maps/choam-terminals/position'', ''maps:write-config''),
    (''GET /api/sietches'', ''sietches:read''),
    (''GET /api/sietches/dimensions'', ''sietches:read''),
    (''POST /api/sietches/update'', ''sietches:write''),
    (''GET /api/deepdesert'', ''deepdesert:read''),
    (''POST /api/deepdesert/update'', ''deepdesert:write'')]"

definition ROUTE_ACTIONS :: "(string \<times> string) list" where
  "ROUTE_ACTIONS = ROUTE_ACTIONS_1 @ ROUTE_ACTIONS_2 @ ROUTE_ACTIONS_3 @ ROUTE_ACTIONS_4 @ ROUTE_ACTIONS_5 @ ROUTE_ACTIONS_6 @
     ROUTE_ACTIONS_7 @ ROUTE_ACTIONS_8 @ ROUTE_ACTIONS_9 @ ROUTE_ACTIONS_10 @ ROUTE_ACTIONS_11 @ ROUTE_ACTIONS_12 @
     ROUTE_ACTIONS_13 @ ROUTE_ACTIONS_14"

definition REGEX_ACTIONS :: "(string \<times> string) list" where
  "REGEX_ACTIONS = [
    (''/api/setup/tasks/'', ''setup:read''),
    (''/api/logs/'', ''logs:read''),
    (''/api/database/routines/'', ''database:read''),
    (''/api/database/tables/'', ''database:read''),
    (''/api/database/table/'', ''database:read''),
    (''/api/backups/'', ''backups:read''),
    (''/api/players/'', ''players:read''),
    (''/api/guilds/'', ''guilds:read''),
    (''/api/bases/'', ''bases:read''),
    (''/api/vehicles/'', ''vehicles:read''),
    (''/api/storage/'', ''storage:read''),
    (''/api/blueprints/'', ''blueprints:read''),
    (''/api/addons/installed/'', ''addons:read''),
    (''/api/care-package/grant/'', ''carepackage:grant''),
    (''/api/care-package/retry/'', ''carepackage:grant''),
    (''/api/maps/spicefields/'', ''maps:read'')]"

definition REGEX_ACTIONS_BY_METHOD :: "(string \<times> string) list" where
  "REGEX_ACTIONS_BY_METHOD = [
    (''PUT /api/settings/api-keys/'', ''settings:write''),
    (''DELETE /api/settings/api-keys/'', ''settings:write''),
    (''POST /api/players/'', ''players:unclassified''),
    (''DELETE /api/players/'', ''players:unclassified''),
    (''PATCH /api/players/'', ''players:unclassified''),
    (''POST /api/guilds/'', ''guilds:unclassified''),
    (''DELETE /api/guilds/'', ''guilds:unclassified''),
    (''POST /api/bases/'', ''bases:mutate''),
    (''DELETE /api/bases/'', ''bases:mutate''),
    (''PUT /api/bases/'', ''bases:mutate''),
    (''PUT /api/vehicles/'', ''vehicles:mutate''),
    (''POST /api/storage/'', ''storage:mutate''),
    (''POST /api/addons/'', ''addons:unclassified''),
    (''DELETE /api/addons/'', ''addons:unclassified''),
    (''PATCH /api/maps/spicefields/'', ''maps:write-config''),
    (''DELETE /api/backups/'', ''backups:delete''),
    (''POST /api/blueprints/'', ''blueprints:unclassified''),
    (''DELETE /api/blueprints/'', ''blueprints:unclassified''),
    (''PATCH /api/database/tables/'', ''database:mutate'')]"

definition REGEX_ACTIONS_BY_METHOD_PATTERN_1 :: "(string \<times> seg list \<times> string) list" where
  "REGEX_ACTIONS_BY_METHOD_PATTERN_1 = [
    (''GET'', [Lit '''', Lit ''api'', Lit ''base-backups'', AnySeg, Lit ''export''], ''bases:export-backup''),
    (''GET'', [Lit '''', Lit ''api'', Lit ''bases'', AnySeg, Lit ''export-backup''], ''bases:export-backup''),
    (''PUT'', [Lit '''', Lit ''api'', Lit ''base-backups'', Digits], ''bases:edit-backup''),
    (''DELETE'', [Lit '''', Lit ''api'', Lit ''base-backups'', Digits], ''bases:delete-backup''),
    (''POST'', [Lit '''', Lit ''api'', Lit ''blueprints'', Lit ''community'', AnySeg, Lit ''install''], ''blueprints:import''),
    (''DELETE'', [Lit '''', Lit ''api'', Lit ''bases'', AnySeg], ''bases:delete''),
    (''GET'', [Lit '''', Lit ''api'', Lit ''backups'', Lit ''system'', AnySeg, Lit ''download''], ''backups:download-system''),
    (''DELETE'', [Lit '''', Lit ''api'', Lit ''backups'', Lit ''system'', OptSeg], ''backups:delete-system''),
    (''POST'', [Lit '''', Lit ''api'', Lit ''backups'', Lit ''system'', AnySeg, Lit ''restore''], ''backups:restore-system''),
    (''DELETE'', [Lit '''', Lit ''api'', Lit ''bases'', AnySeg, Lit ''containers'', AnySeg, Lit ''items'', AnySeg], ''bases:delete-item''),
    (''POST'', [Lit '''', Lit ''api'', Lit ''bases'', AnySeg, Lit ''containers'', AnySeg, Lit ''items''], ''bases:add-item''),
    (''DELETE'', [Lit '''', Lit ''api'', Lit ''bases'', AnySeg, Lit ''containers'', AnySeg, Lit ''items''], ''bases:bulk-delete-items''),
    (''DELETE'', [Lit '''', Lit ''api'', Lit ''bases'', AnySeg, Lit ''containers'', AnySeg, Lit ''all-items''], ''bases:bulk-delete-items''),
    (''POST'', [Lit '''', Lit ''api'', Lit ''bases'', AnySeg, Lit ''containers'', AnySeg, Lit ''give-item''], ''bases:give-item''),
    (''POST'', [Lit '''', Lit ''api'', Lit ''bases'', AnySeg, Lit ''containers'', AnySeg, Lit ''give-items''], ''bases:give-item''),
    (''POST'', [Lit '''', Lit ''api'', Lit ''bases'', AnySeg, Lit ''containers'', AnySeg, Lit ''fill-item''], ''bases:fill-item''),
    (''POST'', [Lit '''', Lit ''api'', Lit ''vehicles'', AnySeg, Lit ''system-custodian''], ''vehicles:mutate''),
    (''DELETE'', [Lit '''', Lit ''api'', Lit ''vehicles'', AnySeg], ''vehicles:delete'')]"

definition REGEX_ACTIONS_BY_METHOD_PATTERN_2 :: "(string \<times> seg list \<times> string) list" where
  "REGEX_ACTIONS_BY_METHOD_PATTERN_2 = [
    (''DELETE'', [Lit '''', Lit ''api'', Lit ''vehicles'', AnySeg, Lit ''stored''], ''vehicles:stored-delete''),
    (''DELETE'', [Lit '''', Lit ''api'', Lit ''vehicles'', AnySeg, Lit ''queued-delete''], ''vehicles:mutate''),
    (''DELETE'', [Lit '''', Lit ''api'', Lit ''vehicles'', AnySeg, Lit ''storage'', Lit ''items'', AnySeg], ''vehicles:delete-item''),
    (''DELETE'', [Lit '''', Lit ''api'', Lit ''vehicles'', AnySeg, Lit ''storage'', Lit ''items''], ''vehicles:bulk-delete-items''),
    (''DELETE'', [Lit '''', Lit ''api'', Lit ''vehicles'', AnySeg, Lit ''storage'', Lit ''all-items''], ''vehicles:bulk-delete-items''),
    (''POST'', [Lit '''', Lit ''api'', Lit ''players'', AnySeg, Lit ''kick''], ''players:moderate''),
    (''POST'', [Lit '''', Lit ''api'', Lit ''players'', AnySeg, Lit ''ban''], ''players:moderate''),
    (''DELETE'', [Lit '''', Lit ''api'', Lit ''players'', AnySeg, Lit ''ban''], ''players:moderate''),
    (''POST'', [Lit '''', Lit ''api'', Lit ''players'', AnySeg, Lit ''teleport''], ''players:teleport''),
    (''POST'', [Lit '''', Lit ''api'', Lit ''players'', AnySeg, Lit ''give-item''], ''players:give-item''),
    (''POST'', [Lit '''', Lit ''api'', Lit ''players'', AnySeg, Lit ''give-item-id''], ''players:give-item''),
    (''POST'', [Lit '''', Lit ''api'', Lit ''players'', AnySeg, Lit ''give-items''], ''players:give-item''),
    (''POST'', [Lit '''', Lit ''api'', Lit ''players'', AnySeg, Lit ''augment-item''], ''players:give-item''),
    (''POST'', [Lit '''', Lit ''api'', Lit ''players'', AnySeg, Lit ''spawn-vehicle''], ''players:give-item''),
    (''POST'', [Lit '''', Lit ''api'', Lit ''players'', AnySeg, Lit ''add-currency''], ''players:grant''),
    (''POST'', [Lit '''', Lit ''api'', Lit ''players'', AnySeg, Lit ''add-xp''], ''players:grant''),
    (''POST'', [Lit '''', Lit ''api'', Lit ''players'', AnySeg, Lit ''add-intel''], ''players:grant''),
    (''POST'', [Lit '''', Lit ''api'', Lit ''players'', AnySeg, Lit ''add-faction-reputation''], ''players:grant'')]"

definition REGEX_ACTIONS_BY_METHOD_PATTERN_3 :: "(string \<times> seg list \<times> string) list" where
  "REGEX_ACTIONS_BY_METHOD_PATTERN_3 = [
    (''POST'', [Lit '''', Lit ''api'', Lit ''players'', AnySeg, Lit ''faction''], ''players:grant''),
    (''POST'', [Lit '''', Lit ''api'', Lit ''players'', AnySeg, Lit ''set-skill-points''], ''players:grant''),
    (''POST'', [Lit '''', Lit ''api'', Lit ''players'', AnySeg, Lit ''set-skill-module''], ''players:grant''),
    (''POST'', [Lit '''', Lit ''api'', Lit ''players'', AnySeg, Lit ''building-unlocks'', Lit ''grant''], ''players:grant''),
    (''POST'', [Lit '''', Lit ''api'', Lit ''players'', AnySeg, Lit ''building-unlocks'', Lit ''grant-all''], ''players:grant''),
    (''POST'', [Lit '''', Lit ''api'', Lit ''players'', AnySeg, Lit ''customizations'', Lit ''grant''], ''players:grant''),
    (''POST'', [Lit '''', Lit ''api'', Lit ''players'', AnySeg, Lit ''crafting-recipes'', Lit ''unlock''], ''players:grant''),
    (''POST'', [Lit '''', Lit ''api'', Lit ''players'', AnySeg, Lit ''research-items'', Lit ''unlock''], ''players:grant''),
    (''POST'', [Lit '''', Lit ''api'', Lit ''players'', AnySeg, Lit ''research-items'', Lit ''unlock-all''], ''players:grant''),
    (''POST'', [Lit '''', Lit ''api'', Lit ''players'', AnySeg, Lit ''crafting-recipes'', Lit ''unlock-all''], ''players:grant''),
    (''POST'', [Lit '''', Lit ''api'', Lit ''players'', AnySeg, Lit ''specializations'', Lit ''add-xp''], ''players:grant''),
    (''POST'', [Lit '''', Lit ''api'', Lit ''players'', AnySeg, Lit ''specializations'', Lit ''grant-max''], ''players:grant''),
    (''POST'', [Lit '''', Lit ''api'', Lit ''players'', AnySeg, Lit ''specializations'', Lit ''keystones'', Lit ''grant-all''], ''players:grant''),
    (''POST'', [Lit '''', Lit ''api'', Lit ''players'', AnySeg, Lit ''journey'', Lit ''complete''], ''players:grant''),
    (''POST'', [Lit '''', Lit ''api'', Lit ''players'', AnySeg, Lit ''tutorials'', Lit ''complete''], ''players:grant''),
    (''POST'', [Lit '''', Lit ''api'', Lit ''players'', AnySeg, Lit ''reset-progression''], ''players:reset''),
    (''POST'', [Lit '''', Lit ''api'', Lit ''players'', AnySeg, Lit ''clean-inventory''], ''players:reset''),
    (''POST'', [Lit '''', Lit ''api'', Lit ''players'', AnySeg, Lit ''journey'', Lit ''reset''], ''players:reset'')]"

definition REGEX_ACTIONS_BY_METHOD_PATTERN_4 :: "(string \<times> seg list \<times> string) list" where
  "REGEX_ACTIONS_BY_METHOD_PATTERN_4 = [
    (''POST'', [Lit '''', Lit ''api'', Lit ''players'', AnySeg, Lit ''tutorials'', Lit ''reset''], ''players:reset''),
    (''POST'', [Lit '''', Lit ''api'', Lit ''players'', AnySeg, Lit ''specializations'', Lit ''reset''], ''players:reset''),
    (''POST'', [Lit '''', Lit ''api'', Lit ''players'', AnySeg, Lit ''specializations'', Lit ''keystones'', Lit ''reset-all''], ''players:reset''),
    (''DELETE'', [Lit '''', Lit ''api'', Lit ''players'', AnySeg, Lit ''inventory'', AnySeg], ''players:delete-item''),
    (''PATCH'', [Lit '''', Lit ''api'', Lit ''players'', AnySeg, Lit ''inventory'', AnySeg], ''players:edit-item''),
    (''POST'', [Lit '''', Lit ''api'', Lit ''players'', AnySeg, Lit ''repair-gear''], ''players:repair''),
    (''POST'', [Lit '''', Lit ''api'', Lit ''players'', AnySeg, Lit ''repair-faction-reputation''], ''players:repair''),
    (''POST'', [Lit '''', Lit ''api'', Lit ''players'', AnySeg, Lit ''repair-landsraad-quests''], ''players:repair''),
    (''POST'', [Lit '''', Lit ''api'', Lit ''players'', AnySeg, Lit ''repair-login-queue''], ''players:repair''),
    (''POST'', [Lit '''', Lit ''api'', Lit ''players'', AnySeg, Lit ''repair-vehicle-decay''], ''players:repair''),
    (''POST'', [Lit '''', Lit ''api'', Lit ''players'', AnySeg, Lit ''refuel-vehicle''], ''players:repair''),
    (''POST'', [Lit '''', Lit ''api'', Lit ''players'', AnySeg, Lit ''refill-water''], ''players:repair''),
    (''POST'', [Lit '''', Lit ''api'', Lit ''players'', AnySeg, Lit ''character-recovery''], ''players:recover''),
    (''DELETE'', [Lit '''', Lit ''api'', Lit ''guilds'', AnySeg, Lit ''members'', AnySeg], ''guilds:membership''),
    (''POST'', [Lit '''', Lit ''api'', Lit ''guilds'', AnySeg, Lit ''members''], ''guilds:membership''),
    (''POST'', [Lit '''', Lit ''api'', Lit ''guilds'', AnySeg, Lit ''members'', AnySeg, Lit ''promote''], ''guilds:rank''),
    (''POST'', [Lit '''', Lit ''api'', Lit ''guilds'', AnySeg, Lit ''members'', AnySeg, Lit ''demote''], ''guilds:rank''),
    (''DELETE'', [Lit '''', Lit ''api'', Lit ''guilds'', AnySeg], ''guilds:disband'')]"

definition REGEX_ACTIONS_BY_METHOD_PATTERN_5 :: "(string \<times> seg list \<times> string) list" where
  "REGEX_ACTIONS_BY_METHOD_PATTERN_5 = [
    (''DELETE'', [Lit '''', Lit ''api'', Lit ''blueprints'', AnySeg], ''blueprints:delete''),
    (''DELETE'', [Lit '''', Lit ''api'', Lit ''addons'', Lit ''installed'', AnySeg], ''addons:remove''),
    (''POST'', [Lit '''', Lit ''api'', Lit ''addons'', Lit ''installed'', AnySeg, Lit ''bridge''], ''addons:bridge''),
    (''POST'', [Lit '''', Lit ''api'', Lit ''addons'', Lit ''installed'', AnySeg, Lit ''enable''], ''addons:toggle''),
    (''POST'', [Lit '''', Lit ''api'', Lit ''addons'', Lit ''installed'', AnySeg, Lit ''disable''], ''addons:toggle'')]"

definition REGEX_ACTIONS_BY_METHOD_PATTERN :: "(string \<times> seg list \<times> string) list" where
  "REGEX_ACTIONS_BY_METHOD_PATTERN = REGEX_ACTIONS_BY_METHOD_PATTERN_1 @
    REGEX_ACTIONS_BY_METHOD_PATTERN_2 @
    REGEX_ACTIONS_BY_METHOD_PATTERN_3 @
    REGEX_ACTIONS_BY_METHOD_PATTERN_4 @
    REGEX_ACTIONS_BY_METHOD_PATTERN_5"

definition CONTENT_CONDITIONAL_ACTIONS :: "string list" where
  "CONTENT_CONDITIONAL_ACTIONS = [''database:execute'']"

definition REMOVED_ACTION_ALIASES :: "(string \<times> string list) list" where
  "REMOVED_ACTION_ALIASES = [
    (''players:mutate'', [''players:moderate'', ''players:teleport'', ''players:give-item'', ''players:grant'', ''players:reset'', ''players:delete-item'', ''players:edit-item'', ''players:repair'', ''players:recover'', ''players:unclassified'']),
    (''guilds:mutate'', [''guilds:disband'', ''guilds:membership'', ''guilds:rank'', ''guilds:unclassified'']),
    (''blueprints:mutate'', [''blueprints:export'', ''blueprints:import'', ''blueprints:delete'', ''blueprints:unclassified'']),
    (''addons:mutate'', [''addons:remove'', ''addons:toggle'', ''addons:bridge'', ''addons:unclassified''])]"

section \<open>Resolution\<close>

text \<open>\<open>key.split(" ", 2)\<close> of a table key: the method and the path prefix.\<close>

definition key_parts :: "string \<Rightarrow> string \<times> string" where
  "key_parts key = (let ws = split_at (\<lambda>c. c = CHR '' '') key in
     (hd ws, case tl ws of [] \<Rightarrow> [] | w # _ \<Rightarrow> w))"

text \<open>The first entry of each tier that matches; \<open>None\<close> is the \<open>null\<close> of a route nobody listed.\<close>

definition pattern_tier :: "string \<Rightarrow> string \<Rightarrow> string option" where
  "pattern_tier routeMethod path = map_option (snd \<circ> snd)
     (find (\<lambda>(m, pat, action). routeMethod = m \<and> pattern_test pat path) REGEX_ACTIONS_BY_METHOD_PATTERN)"

definition method_tier :: "string \<Rightarrow> string \<Rightarrow> string option" where
  "method_tier routeMethod path = map_option snd
     (find (\<lambda>(key, action). routeMethod = fst (key_parts key) \<and> starts_with path (snd (key_parts key)))
        REGEX_ACTIONS_BY_METHOD)"

definition prefix_tier :: "string \<Rightarrow> string option" where
  "prefix_tier path = map_option snd (find (\<lambda>(prefix, action). starts_with path prefix) REGEX_ACTIONS)"

fun first_some :: "'a option list \<Rightarrow> 'a option" where
  "first_some [] = None"
| "first_some (None # xs) = first_some xs"
| "first_some (Some x # xs) = Some x"

definition actionForRoute :: "string \<Rightarrow> string \<Rightarrow> string option" where
  "actionForRoute path method =
     (if path = [] \<or> method = [] then None
      else let routeMethod = js_upper method
           in first_some [map_of ROUTE_ACTIONS (routeMethod @ '' '' @ path),
                pattern_tier routeMethod path, method_tier routeMethod path, prefix_tier path])"

section \<open>Facts on the tables\<close>

lemmas route_chunks = ROUTE_ACTIONS_1_def ROUTE_ACTIONS_2_def ROUTE_ACTIONS_3_def ROUTE_ACTIONS_4_def ROUTE_ACTIONS_5_def ROUTE_ACTIONS_6_def ROUTE_ACTIONS_7_def ROUTE_ACTIONS_8_def ROUTE_ACTIONS_9_def ROUTE_ACTIONS_10_def ROUTE_ACTIONS_11_def ROUTE_ACTIONS_12_def ROUTE_ACTIONS_13_def ROUTE_ACTIONS_14_def

lemmas pattern_chunks = REGEX_ACTIONS_BY_METHOD_PATTERN_1_def REGEX_ACTIONS_BY_METHOD_PATTERN_2_def REGEX_ACTIONS_BY_METHOD_PATTERN_3_def REGEX_ACTIONS_BY_METHOD_PATTERN_4_def REGEX_ACTIONS_BY_METHOD_PATTERN_5_def

text \<open>A statement on the whole table, part by part.\<close>

lemma list_all_routes: "list_all P ROUTE_ACTIONS \<longleftrightarrow> list_all P ROUTE_ACTIONS_1 \<and> list_all P ROUTE_ACTIONS_2 \<and> list_all P ROUTE_ACTIONS_3 \<and> list_all P ROUTE_ACTIONS_4 \<and> list_all P ROUTE_ACTIONS_5 \<and>
     list_all P ROUTE_ACTIONS_6 \<and> list_all P ROUTE_ACTIONS_7 \<and> list_all P ROUTE_ACTIONS_8 \<and> list_all P ROUTE_ACTIONS_9 \<and> list_all P ROUTE_ACTIONS_10 \<and>
     list_all P ROUTE_ACTIONS_11 \<and> list_all P ROUTE_ACTIONS_12 \<and> list_all P ROUTE_ACTIONS_13 \<and> list_all P ROUTE_ACTIONS_14"
  by (simp add: ROUTE_ACTIONS_def)

lemma list_all_patterns: "list_all P REGEX_ACTIONS_BY_METHOD_PATTERN \<longleftrightarrow> list_all P REGEX_ACTIONS_BY_METHOD_PATTERN_1 \<and>
    list_all P REGEX_ACTIONS_BY_METHOD_PATTERN_2 \<and>
    list_all P REGEX_ACTIONS_BY_METHOD_PATTERN_3 \<and>
    list_all P REGEX_ACTIONS_BY_METHOD_PATTERN_4 \<and>
    list_all P REGEX_ACTIONS_BY_METHOD_PATTERN_5"
  by (simp add: REGEX_ACTIONS_BY_METHOD_PATTERN_def)

text \<open>
  Evaluation of the tables by \<open>simp\<close>. A comparison of texts stops at the first difference, and the
  congruence rules keep the simplifier out of the entries it has not come to.
\<close>

fun same_text :: "string \<Rightarrow> string \<Rightarrow> bool" where
  "same_text [] [] = True"
| "same_text [] (d # t) = False"
| "same_text (c # s) [] = False"
| "same_text (c # s) (d # t) = (if c = d then same_text s t else False)"

lemma same_text_iff: "same_text s t \<longleftrightarrow> s = t"
  by (induction s t rule: same_text.induct) auto

fun lookup_text :: "string \<Rightarrow> (string \<times> 'a) list \<Rightarrow> 'a option" where
  "lookup_text k [] = None"
| "lookup_text k ((k', a) # xs) = (if same_text k' k then Some a else lookup_text k xs)"

lemma lookup_text: "map_of xs k = lookup_text k xs"
  by (induction xs) (auto simp: same_text_iff)

lemma lookup_append: "lookup_text k (xs @ ys) = (case lookup_text k xs of None \<Rightarrow> lookup_text k ys | Some a \<Rightarrow> Some a)"
  by (induction xs) (auto split: option.splits)

fun pick_pattern :: "string \<Rightarrow> string list \<Rightarrow> (string \<times> seg list \<times> string) list \<Rightarrow> string option" where
  "pick_pattern m ss [] = None"
| "pick_pattern m ss ((m', pat, a) # xs) = (if same_text m m' then if match_segs pat ss then Some a else pick_pattern m ss xs
     else pick_pattern m ss xs)"

lemma pick_append: "pick_pattern m ss (xs @ ys) = (case pick_pattern m ss xs of None \<Rightarrow> pick_pattern m ss ys | Some a \<Rightarrow> Some a)"
  by (induction m ss xs rule: pick_pattern.induct) simp_all

lemma pick_find: "map_option (snd \<circ> snd) (find (\<lambda>(m', pat, action). m = m' \<and> match_segs pat ss) xs) = pick_pattern m ss xs"
  by (induction m ss xs rule: pick_pattern.induct) (simp_all add: same_text_iff)

lemma pattern_tier_pick: "pattern_tier m path = pick_pattern m (path_segments path) REGEX_ACTIONS_BY_METHOD_PATTERN"
  by (simp only: pattern_tier_def pattern_test_def pick_find)

lemma match_lit: "match_segs (Lit l # ps) (s # ss) = (if same_text s l then match_segs ps ss else False)"
  by (simp add: same_text_iff)

lemma each_entry: "list_all P (x # xs) = (if P x then list_all P xs else False)"
  by simp

lemma starts_with_step:
  "starts_with s [] = True" "starts_with [] (d # p) = False"
  "starts_with (c # s) (d # p) = (if c = d then starts_with s p else False)"
  by (simp_all add: starts_with_def)

lemma frozen:
  "lookup_text k xs = lookup_text k xs" "pick_pattern m ss ps = pick_pattern m ss ps" "match_segs pat ss = match_segs pat ss"
  "list_all P ys = list_all P ys" "same_text s t = same_text s t" "starts_with s t = starts_with s t"
  by (rule refl)+

lemmas chunk_lookups = route_chunks [THEN arg_cong [where f = "lookup_text k" for k]]

lemmas chunk_all = route_chunks [THEN arg_cong [where f = "list_all P" for P]]

lemmas chunk_picks = pattern_chunks [THEN arg_cong [where f = "pick_pattern m ss" for m ss]]

text \<open>Bundles for a lookup of a route, a search of the patterns and a statement on all routes.\<close>

lemma route_text: "map_of ROUTE_ACTIONS k = lookup_text k ROUTE_ACTIONS"
  by (rule lookup_text)

lemmas route_lookup = route_text ROUTE_ACTIONS_def [THEN arg_cong [where f = "lookup_text k" for k]] lookup_append chunk_lookups

lemmas pattern_search = pick_append chunk_picks match_lit REGEX_ACTIONS_BY_METHOD_PATTERN_def [THEN arg_cong [where f = "pick_pattern m ss" for m ss]]

lemmas route_scan = each_entry starts_with_step

lemma first_some_Some:
  "first_some xs = Some a \<Longrightarrow> Some a \<in> set xs"
  by (induction xs rule: first_some.induct) auto

lemma first_some_not_None: "Some a \<in> set xs \<Longrightarrow> first_some xs \<noteq> None"
  by (induction xs rule: first_some.induct) auto

text \<open>The keys of the method tier are a method, a space and a prefix without spaces.\<close>

lemma method_keys:
  "list_all (\<lambda>(key, a). key = fst (key_parts key) @ '' '' @ snd (key_parts key)
      \<and> fst (key_parts key) \<noteq> ''GET'' \<and> \<not> ends_with a '':read'') REGEX_ACTIONS_BY_METHOD"
  by code_simp

lemma ends_with_rev: "ends_with s p = starts_with (rev s) (rev p)"
  by (simp add: ends_with_iff starts_with_iff) (metis rev_append rev_rev_ident)

lemma method_keys_not_get: "list_all (\<lambda>(key, a). \<not> starts_with key ''GET'' \<and> 3 < length key) REGEX_ACTIONS_BY_METHOD"
  by (simp add: REGEX_ACTIONS_BY_METHOD_def starts_with_step)

lemma exact_reads_not_get:
  "list_all (\<lambda>(k, a). if starts_with k ''GET'' then True else if starts_with (rev a) ''daer:'' then
      list_all (\<lambda>(key, _). \<not> starts_with k key) REGEX_ACTIONS_BY_METHOD else True) ROUTE_ACTIONS"
  unfolding list_all_routes chunk_all
  by (simp add: route_scan cong: frozen(4)) (simp add: REGEX_ACTIONS_BY_METHOD_def starts_with_step)

lemma exact_under_method_keys:
  assumes "(k, a) \<in> set ROUTE_ACTIONS" and "ends_with a '':read''" and "(key, b) \<in> set REGEX_ACTIONS_BY_METHOD"
  shows "\<not> starts_with k key"
proof
  assume s: "starts_with k key"
  have key: "\<not> starts_with key ''GET''" "3 < length key" using bspec [OF method_keys_not_get [unfolded list_all_iff] assms(3)] by auto
  have "\<not> starts_with k ''GET''"
  proof
    assume "starts_with k ''GET''"
    then have "take 3 k = ''GET''" by (simp add: starts_with_def numeral_3_eq_3)
    moreover have "take 3 key = take 3 k" using s key(2) by (auto simp: starts_with_iff)
    ultimately show False using key(1) by (simp add: starts_with_def numeral_3_eq_3)
  qed
  moreover have "starts_with (rev a) ''daer:''" using assms(2) by (simp add: ends_with_rev)
  ultimately have "list_all (\<lambda>(key, _). \<not> starts_with k key) REGEX_ACTIONS_BY_METHOD"
    using bspec [OF exact_reads_not_get [unfolded list_all_iff] assms(1)] by (simp add: list_all_iff)
  then show False using s assms(3) by (auto simp: list_all_iff)
qed

lemma pattern_actions:
  "list_all (\<lambda>(m, pat, a). m \<noteq> ''GET'' \<longrightarrow> \<not> ends_with a '':read'') REGEX_ACTIONS_BY_METHOD_PATTERN"
  unfolding list_all_patterns by (intro conjI; code_simp)

lemma map_of_in: "map_of xs k = Some v \<Longrightarrow> (k, v) \<in> set xs"
  by (rule map_of_SomeD)

lemma find_mapped: "map_option f (find P xs) = Some y \<Longrightarrow> \<exists>x \<in> set xs. P x \<and> y = f x"
  by (auto dest: find_in_set)

text \<open>
  Every mutating request below a listed prefix (players, guilds, bases, vehicles, storage,
  addons, map spice fields, backups, blueprints, database tables, API keys) resolves to some action,
  whatever the rest of its path, and never to a \<open>:read\<close> one: a route added to the server but
  forgotten in the catalog cannot be reached with a read-only grant.
\<close>

theorem mutating_route_never_read:
  assumes entry: "(key, act) \<in> set REGEX_ACTIONS_BY_METHOD"
    and meth: "js_upper method = fst (key_parts key)"
    and pre: "starts_with path (snd (key_parts key))" and ne: "path \<noteq> []" "method \<noteq> []"
  shows "\<exists>a. actionForRoute path method = Some a \<and> \<not> ends_with a '':read''"
proof -
  let ?M = "js_upper method"
  have key: "key = ?M @ '' '' @ snd (key_parts key)" "?M \<noteq> ''GET''"
    using method_keys entry meth by (auto simp: list_all_iff)
  have m_some: "method_tier ?M path \<noteq> None"
  proof -
    have "\<exists>x \<in> set REGEX_ACTIONS_BY_METHOD. (\<lambda>(key, action). ?M = fst (key_parts key)
        \<and> starts_with path (snd (key_parts key))) x"
      using entry meth pre by (intro bexI [of _ "(key, act)"]) auto
    then show ?thesis unfolding method_tier_def by (simp only: list_ex_find [symmetric] option.map_disc_iff not_False_eq_True)
  qed
  then obtain b where b: "method_tier ?M path = Some b" by auto
  have b_read: "\<not> ends_with b '':read''"
    using method_keys find_mapped [OF b [unfolded method_tier_def]] by (auto simp: list_all_iff)
  have exact: "\<not> ends_with a '':read''" if "map_of ROUTE_ACTIONS (?M @ '' '' @ path) = Some a" for a
  proof -
    from pre obtain r where "path = snd (key_parts key) @ r" by (auto simp: starts_with_iff)
    then have "?M @ '' '' @ path = key @ r" by (subst key(1)) simp
    then have "starts_with (?M @ '' '' @ path) key" by (simp add: starts_with_iff)
    with map_of_in [OF that] entry exact_under_method_keys show ?thesis by blast
  qed
  have pat: "\<not> ends_with a '':read''" if "pattern_tier ?M path = Some a" for a
    using find_mapped [OF that [unfolded pattern_tier_def]] pattern_actions key(2)
    by (auto simp: list_all_iff)
  show ?thesis
    using exact pat b b_read ne
    by (cases "map_of ROUTE_ACTIONS (?M @ '' '' @ path)"; cases "pattern_tier ?M path")
      (auto simp: actionForRoute_def Let_def)
qed

theorem mutating_route_never_read_witness:
  "\<exists>a. actionForRoute ''/api/players/7/unlisted'' ''post'' = Some a \<and> \<not> ends_with a '':read''"
  by (rule mutating_route_never_read [of "''POST /api/players/''" "''players:unclassified''"])
    (simp add: REGEX_ACTIONS_BY_METHOD_def, code_simp+)

text \<open>
  The three routes that read or write a whole-host archive, for every archive name: they need
  their own actions, not the \<open>/api/backups/\<close> read bucket.
\<close>

lemma no_exact_system_route:
  "list_all (\<lambda>(k, _). \<not> (starts_with k ''GET /api/backups/system/'' \<or> starts_with k ''POST /api/backups/system/''
      \<and> ends_with k ''/restore'')) ROUTE_ACTIONS"
proof -
  have "list_all (\<lambda>(k, _). if starts_with k ''GET /api/backups/system/'' then False
      else if starts_with k ''POST /api/backups/system/'' then \<not> starts_with (rev k) (rev ''/restore'') else True) ROUTE_ACTIONS"
    unfolding list_all_routes chunk_all by (simp add: route_scan cong: frozen) (simp add: starts_with_step)
  then show ?thesis by (auto simp: list_all_iff ends_with_rev split: if_splits)
qed

lemma path_segments_cons: "CHR ''/'' \<notin> set w \<Longrightarrow> path_segments (w @ CHR ''/'' # r) = w # path_segments r"
  unfolding path_segments_def by (rule split_at_append) auto

lemma path_segments_word: "CHR ''/'' \<notin> set w \<Longrightarrow> path_segments w = [w]"
  unfolding path_segments_def by (rule split_at_word) auto

lemma system_segments:
  assumes "CHR ''/'' \<notin> set name" and "CHR ''/'' \<notin> set verb"
  shows "path_segments (''/api/backups/system/'' @ name @ ''/'' @ verb)
    = [[], ''api'', ''backups'', ''system'', name, verb]"
proof -
  have "''/api/backups/system/'' @ name @ ''/'' @ verb
      = [] @ CHR ''/'' # ''api'' @ CHR ''/'' # ''backups'' @ CHR ''/'' # ''system'' @ CHR ''/'' # name @ CHR ''/'' # verb"
    by simp
  then show ?thesis
    using assms path_segments_cons [of "[]"] path_segments_cons [of "''api''"]
      path_segments_cons [of "''backups''"] path_segments_cons [of "''system''"]
    by (simp add: path_segments_cons path_segments_word)
qed

lemma system_exact_None:
  assumes "m = ''GET'' \<and> verb = ''download'' \<or> m = ''POST'' \<and> verb = ''restore''"
  shows "map_of ROUTE_ACTIONS (m @ '' '' @ ''/api/backups/system/'' @ name @ ''/'' @ verb) = None"
proof (rule ccontr)
  let ?k = "m @ '' '' @ ''/api/backups/system/'' @ name @ ''/'' @ verb"
  assume "map_of ROUTE_ACTIONS ?k \<noteq> None"
  then obtain a where "(?k, a) \<in> set ROUTE_ACTIONS" by (auto dest: map_of_SomeD)
  moreover have "starts_with ?k (m @ '' /api/backups/system/'')"
    by (simp add: starts_with_iff)
  moreover have "ends_with ?k (''/'' @ verb)"
    unfolding ends_with_iff by (intro exI [of _ "m @ '' /api/backups/system/'' @ name"]) simp
  ultimately show False using assms no_exact_system_route by (auto simp: list_all_iff)
qed

text \<open>
  Downloading or restoring a whole-host system archive resolves to its own action for every
  archive name, never to the \<open>backups:read\<close> bucket of the path above it.
\<close>

theorem system_archive_routes:
  assumes "name \<noteq> []" and "CHR ''/'' \<notin> set name"
  shows "actionForRoute (''/api/backups/system/'' @ name @ ''/download'') ''GET'' = Some ''backups:download-system''
    \<and> actionForRoute (''/api/backups/system/'' @ name @ ''/restore'') ''POST'' = Some ''backups:restore-system''"
proof -
  have up: "js_upper ''GET'' = ''GET''" "js_upper ''POST'' = ''POST''" by code_simp+
  have "pattern_tier ''GET'' (''/api/backups/system/'' @ name @ ''/download'') = Some ''backups:download-system''"
    unfolding pattern_tier_pick append_Cons append_Nil system_segments [OF assms(2), of "''download''", simplified]
    using assms(1) by (simp add: pattern_search cong: frozen)
  moreover have "pattern_tier ''POST'' (''/api/backups/system/'' @ name @ ''/restore'') = Some ''backups:restore-system''"
    unfolding pattern_tier_pick append_Cons append_Nil system_segments [OF assms(2), of "''restore''", simplified]
    using assms(1) by (simp add: pattern_search cong: frozen)
  ultimately show ?thesis
    using system_exact_None [of "''GET''" "''download''" name] system_exact_None [of "''POST''" "''restore''" name]
    by (simp add: actionForRoute_def Let_def up)
qed

theorem system_archive_routes_witness:
  "actionForRoute (''/api/backups/system/'' @ ''a.tar'' @ ''/restore'') ''POST'' = Some ''backups:restore-system''"
  using system_archive_routes [of "''a.tar''"] by simp

end
