(* ===== verification/PlayerTierGate.thy ===== *)
theory PlayerTierGate
  imports Actions
begin

text \<open>
  The ownership gate of the strict \<open>player\<close> tier, \<open>console/api/src/playerTierGate.js\<close>: the
  actions the tier may ever hold, and the classification of a request below \<open>/api/players\<close> and
  \<open>/api/guilds\<close>. The regular expressions of the source range over whole path segments and are
  written over \<open>path_segments\<close>.
\<close>

section \<open>Classification\<close>

definition PLAYER_TIER_ACTIONS :: "string list" where
  "PLAYER_TIER_ACTIONS = [''players:read'', ''guilds:read'', ''server:read'', ''bases:read'',
     ''vehicles:read'', ''storage:read'', ''community:suggest-translation'']"

definition PLAYER_OWN_SUBRESOURCES :: "string list" where
  "PLAYER_OWN_SUBRESOURCES = [''inventory'', ''vehicles'', ''bases'', ''currency'', ''solaris-coin'']"

definition LIST_PATHS :: "string list" where
  "LIST_PATHS = [''/api/players'', ''/api/players/online'', ''/api/players/search'', ''/api/guilds'']"

definition GLOBAL_READ_PATHS :: "string list" where
  "GLOBAL_READ_PATHS = [''/api/players/list-settings'']"

text \<open>\<open>/^[1-9][0-9]{0,17}$/\<close>\<close>

definition canonical_id :: "string \<Rightarrow> bool" where
  "canonical_id s = (case s of [] \<Rightarrow> False
     | c # r \<Rightarrow> is_digit c \<and> c \<noteq> CHR ''0'' \<and> length r \<le> 17 \<and> list_all is_digit r)"

text \<open>\<open>OWN_GUILD_MEMBERS_RE\<close> and \<open>OWN_PLAYER_RE\<close> with their first group.\<close>

definition own_guild_members :: "string \<Rightarrow> string option" where
  "own_guild_members path = (case path_segments path of
       [s, a, g, i, m] \<Rightarrow>
         if s = [] \<and> a = ''api'' \<and> g = ''guilds'' \<and> i \<noteq> [] \<and> m = ''members'' then Some i else None
     | _ \<Rightarrow> None)"

definition own_player :: "string \<Rightarrow> string option" where
  "own_player path = (case path_segments path of
       [s, a, p, i] \<Rightarrow> if s = [] \<and> a = ''api'' \<and> p = ''players'' \<and> i \<noteq> [] then Some i else None
     | [s, a, p, i, r] \<Rightarrow>
         if s = [] \<and> a = ''api'' \<and> p = ''players'' \<and> i \<noteq> [] \<and> r \<in> set PLAYER_OWN_SUBRESOURCES
         then Some i else None
     | _ \<Rightarrow> None)"

datatype player_route =
    RouteOpen
  | ScopedList
  | GlobalRead
  | OwnPlayer string
  | OwnGuild string
  | RouteDeny

definition guarded_path :: "string \<Rightarrow> bool" where
  "guarded_path path = (path = ''/api/players'' \<or> path = ''/api/guilds''
     \<or> starts_with path ''/api/players/'' \<or> starts_with path ''/api/guilds/'')"

definition classifyPlayerTierRequest :: "string \<Rightarrow> string \<Rightarrow> player_route" where
  "classifyPlayerTierRequest path method =
     (if \<not> guarded_path path then RouteOpen
      else if method \<noteq> ''GET'' then RouteDeny
      else if path \<in> set LIST_PATHS then ScopedList
      else if path \<in> set GLOBAL_READ_PATHS then GlobalRead
      else case own_guild_members path of
          Some i \<Rightarrow> if canonical_id i then OwnGuild i else RouteDeny
        | None \<Rightarrow> (case own_player path of
              Some i \<Rightarrow> if canonical_id i then OwnPlayer i else RouteDeny
            | None \<Rightarrow> RouteDeny))"

section \<open>Paths and their segments\<close>

lemma path_of_segments: "join_with ''/'' (path_segments path) = path"
  unfolding path_segments_def using join_split [of "CHR ''/''" path] by simp

lemma canonical_digits: "canonical_id i \<Longrightarrow> list_all is_digit i \<and> i \<noteq> []"
  by (auto simp: canonical_id_def split: list.splits)

lemma canonical_no_slash: "canonical_id i \<Longrightarrow> CHR ''/'' \<notin> set i"
  using canonical_digits [of i] by (auto simp: list_all_iff is_digit_def code_def)

text \<open>The paths the two expressions accept.\<close>

definition own_player_path :: "string \<Rightarrow> string \<Rightarrow> bool" where
  "own_player_path i path = (path = ''/api/players/'' @ i
     \<or> (\<exists>r \<in> set PLAYER_OWN_SUBRESOURCES. path = ''/api/players/'' @ i @ ''/'' @ r))"

definition own_guild_path :: "string \<Rightarrow> string \<Rightarrow> bool" where
  "own_guild_path i path = (path = ''/api/guilds/'' @ i @ ''/members'')"

lemma seg_api: "CHR ''/'' \<notin> set w \<Longrightarrow> path_segments (''/api/'' @ w @ ''/'' @ r) = [] # ''api'' # w # path_segments r"
  using path_segments_cons [of "[]"] path_segments_cons [of "''api''"] path_segments_cons [of w r]
  by simp

lemma own_player_iff:
  assumes "CHR ''/'' \<notin> set i" and "i \<noteq> []"
  shows "own_player path = Some i \<longleftrightarrow> own_player_path i path"
proof
  assume "own_player path = Some i"
  then consider "path_segments path = [[], ''api'', ''players'', i]"
    | r where "path_segments path = [[], ''api'', ''players'', i, r]" "r \<in> set PLAYER_OWN_SUBRESOURCES"
    by (auto simp: own_player_def split: list.splits if_splits)
  then show "own_player_path i path"
    using path_of_segments [of path] by cases (auto simp: own_player_path_def)
next
  have noslash: "r \<in> set PLAYER_OWN_SUBRESOURCES \<Longrightarrow> CHR ''/'' \<notin> set r" for r
    by (auto simp: PLAYER_OWN_SUBRESOURCES_def)
  assume "own_player_path i path"
  then consider "path = ''/api/'' @ ''players'' @ ''/'' @ i"
    | r where "r \<in> set PLAYER_OWN_SUBRESOURCES" "path = ''/api/'' @ ''players'' @ ''/'' @ i @ ''/'' @ r"
    by (auto simp: own_player_path_def)
  then show "own_player path = Some i"
  proof cases
    case 1
    have "path_segments path = [[], ''api'', ''players'', i]"
      using assms seg_api [of "''players''" i] by (simp add: 1 path_segments_word)
    then show ?thesis using assms by (simp add: own_player_def)
  next
    case 2
    have "path_segments path = [[], ''api'', ''players'', i, r]"
      using assms noslash [OF 2(1)] seg_api [of "''players''" "i @ ''/'' @ r"]
      by (simp add: 2(2) path_segments_word path_segments_cons)
    then show ?thesis using 2(1) assms by (simp add: own_player_def)
  qed
qed

lemma own_guild_iff:
  assumes "CHR ''/'' \<notin> set i" and "i \<noteq> []"
  shows "own_guild_members path = Some i \<longleftrightarrow> own_guild_path i path"
proof
  assume "own_guild_members path = Some i"
  then have "path_segments path = [[], ''api'', ''guilds'', i, ''members'']"
    by (auto simp: own_guild_members_def split: list.splits if_splits)
  then show "own_guild_path i path"
    using path_of_segments [of path] by (simp add: own_guild_path_def)
next
  assume "own_guild_path i path"
  then have "path_segments path = [[], ''api'', ''guilds'', i, ''members'']"
    using assms seg_api [of "''guilds''" "i @ ''/members''"]
    by (simp add: own_guild_path_def path_segments_word path_segments_cons)
  then show "own_guild_members path = Some i" using assms by (simp add: own_guild_members_def)
qed

lemma listed_not_own:
  "list_all (\<lambda>p. case own_player p of None \<Rightarrow> True | Some i \<Rightarrow> \<not> canonical_id i)
     (LIST_PATHS @ GLOBAL_READ_PATHS)"
  by code_simp

lemma listed_not_guild:
  "list_all (\<lambda>p. own_guild_members p = None) (LIST_PATHS @ GLOBAL_READ_PATHS)"
  by code_simp

lemma own_player_not_guild: "own_player path = Some i \<Longrightarrow> own_guild_members path = None"
  by (auto simp: own_player_def own_guild_members_def split: list.splits if_splits)

section \<open>What the gate lets through\<close>

text \<open>
  A request is treated as a read of one character exactly when it is a \<open>GET\<close>, the id is a plain
  positive integer of at most 18 digits, and the path is that character's own page or one of the
  five listed sub-resources; the same for the member list of a guild.
\<close>

lemma own_player_exact:
  "classifyPlayerTierRequest path method = OwnPlayer i \<longleftrightarrow>
     method = ''GET'' \<and> canonical_id i \<and> own_player_path i path"
proof
  assume c: "classifyPlayerTierRequest path method = OwnPlayer i"
  then have "method = ''GET''" "canonical_id i" "own_player path = Some i"
    by (auto simp: classifyPlayerTierRequest_def split: if_splits option.splits)
  then show "method = ''GET'' \<and> canonical_id i \<and> own_player_path i path"
    using own_player_iff [of i path] canonical_no_slash [of i] canonical_digits [of i] by auto
next
  assume h: "method = ''GET'' \<and> canonical_id i \<and> own_player_path i path"
  then have own: "own_player path = Some i"
    using own_player_iff [of i path] canonical_no_slash [of i] canonical_digits [of i] by auto
  have "path \<notin> set (LIST_PATHS @ GLOBAL_READ_PATHS)"
    using bspec [OF listed_not_own [unfolded list_all_iff], of path] own h by auto
  moreover have "guarded_path path"
    using h by (auto simp: guarded_path_def own_player_path_def starts_with_def)
  ultimately show "classifyPlayerTierRequest path method = OwnPlayer i"
    using own h own_player_not_guild [OF own] by (simp add: classifyPlayerTierRequest_def)
qed

lemma own_guild_exact:
  "classifyPlayerTierRequest path method = OwnGuild i \<longleftrightarrow>
     method = ''GET'' \<and> canonical_id i \<and> own_guild_path i path"
proof
  assume c: "classifyPlayerTierRequest path method = OwnGuild i"
  then have "method = ''GET''" "canonical_id i" "own_guild_members path = Some i"
    by (auto simp: classifyPlayerTierRequest_def split: if_splits option.splits)
  then show "method = ''GET'' \<and> canonical_id i \<and> own_guild_path i path"
    using own_guild_iff [of i path] canonical_no_slash [of i] canonical_digits [of i] by auto
next
  assume h: "method = ''GET'' \<and> canonical_id i \<and> own_guild_path i path"
  then have own: "own_guild_members path = Some i"
    using own_guild_iff [of i path] canonical_no_slash [of i] canonical_digits [of i] by auto
  have "path \<notin> set (LIST_PATHS @ GLOBAL_READ_PATHS)"
    using bspec [OF listed_not_guild [unfolded list_all_iff], of path] own by auto
  moreover have "guarded_path path"
    using h by (auto simp: guarded_path_def own_guild_path_def starts_with_def)
  ultimately show "classifyPlayerTierRequest path method = OwnGuild i"
    using own h by (simp add: classifyPlayerTierRequest_def)
qed

text \<open>
  Below the two guarded prefixes the gate denies by default: what is not a \<open>GET\<close> of a listed
  path, of one of the caller's characters or of the member list of a guild named by a canonical
  id is refused, and a guild request is recognised exactly then.
\<close>

theorem player_gate_default_deny:
  "classifyPlayerTierRequest path method =
     (if \<not> guarded_path path then RouteOpen
      else if method = ''GET'' \<and> path \<in> set LIST_PATHS then ScopedList
      else if method = ''GET'' \<and> path \<in> set GLOBAL_READ_PATHS then GlobalRead
      else if method = ''GET'' \<and> (\<exists>i. canonical_id i \<and> own_guild_path i path)
        then OwnGuild (path_segments path ! 3)
      else if method = ''GET'' \<and> (\<exists>i. canonical_id i \<and> own_player_path i path)
        then OwnPlayer (path_segments path ! 3)
      else RouteDeny)"
proof -
  have g: "own_guild_members path = Some i \<Longrightarrow> path_segments path ! 3 = i" for i
    by (auto simp: own_guild_members_def split: list.splits if_splits)
  have p: "own_player path = Some i \<Longrightarrow> path_segments path ! 3 = i" for i
    by (auto simp: own_player_def split: list.splits if_splits)
  have iff: "canonical_id i \<Longrightarrow> own_guild_path i path = (own_guild_members path = Some i)"
    "canonical_id i \<Longrightarrow> own_player_path i path = (own_player path = Some i)" for i
    using own_guild_iff [of i path] own_player_iff [of i path] canonical_no_slash [of i]
      canonical_digits [of i] by auto
  have iffs: "(\<exists>i. canonical_id i \<and> own_guild_path i path) = (\<exists>i. canonical_id i \<and> own_guild_members path = Some i)"
    "(\<exists>i. canonical_id i \<and> own_player_path i path) = (\<exists>i. canonical_id i \<and> own_player path = Some i)"
    using iff by auto
  show ?thesis
    unfolding classifyPlayerTierRequest_def iffs
    by (cases "own_guild_members path"; cases "own_player path")
      (auto simp: g p dest: own_player_not_guild)
qed

end
