(* ===== verification/PolicyEngine.thy ===== *)
theory PolicyEngine
  imports PlayerTierGate
begin

text \<open>
  The evaluation half of \<open>console/api/src/policy.js\<close>: wildcard matching of action patterns, the
  resolution of a session to its tier, the shipped default documents, and \<open>evaluate\<close>. A policy
  store is the JSON object it is in the source. Pattern names that are members of
  \<open>Object.prototype\<close> (such as \<open>constructor\<close>), for which the alias lookup of the source throws, are
  outside the model; \<open>wildcardRegex\<close>'s cache is not visible and not modelled.
\<close>

section \<open>Matching\<close>

text \<open>
  \<open>wildcardRegex\<close> escapes every metacharacter but \<open>*\<close>, so the compiled expression is literal text
  with \<open>.*\<close> for each star; a dot does not match a line terminator.
\<close>

definition is_newline :: "char \<Rightarrow> bool" where
  "is_newline c = (code c = 10 \<or> code c = 13)"

fun wildcard_test :: "string \<Rightarrow> string \<Rightarrow> bool" where
  "wildcard_test [] s = (s = [])"
| "wildcard_test (p # ps) [] = (p = CHR ''*'' \<and> wildcard_test ps [])"
| "wildcard_test (p # ps) (c # cs) =
     (if p = CHR ''*'' then wildcard_test ps (c # cs) \<or> (\<not> is_newline c \<and> wildcard_test (p # ps) cs)
      else c = p \<and> wildcard_test ps cs)"

definition matchAction :: "string \<Rightarrow> string \<Rightarrow> bool" where
  "matchAction pattern action =
     (if pattern = ''*'' then True
      else if ends_with pattern '':*''
      then (let ns = take (length pattern - 2) pattern in action = ns \<or> starts_with action (ns @ '':''))
      else if ends_with pattern ''-*'' then starts_with action (butlast pattern)
      else if pattern = action then True
      else if CHR ''*'' \<in> set pattern then wildcard_test pattern action
      else case map_of REMOVED_ACTION_ALIASES pattern of
          Some successors \<Rightarrow> action \<in> set successors
        | None \<Rightarrow> False)"

text \<open>A pattern of a document; anything but a string is refused by \<open>validPolicyStore\<close>.\<close>

definition match_val :: "jsval \<Rightarrow> string \<Rightarrow> bool" where
  "match_val v action = (case v of Str p \<Rightarrow> matchAction p action | _ \<Rightarrow> False)"

section \<open>Documents\<close>

definition arr_items :: "jsval \<Rightarrow> jsval list" where
  "arr_items v = (case v of Arr xs \<Rightarrow> xs | _ \<Rightarrow> [])"

text \<open>\<open>Array.isArray(stmt.Action) ? stmt.Action : [stmt.Action]\<close>\<close>

definition patternsOf :: "jsval \<Rightarrow> jsval list" where
  "patternsOf stmt = (case getp stmt ''Action'' of Arr xs \<Rightarrow> xs | v \<Rightarrow> [v])"

definition statementsOf :: "jsval \<Rightarrow> jsval list" where
  "statementsOf doc = arr_items (getp doc ''statements'')"

section \<open>The shipped documents\<close>

definition default_owner :: jsval where
  "default_owner = Obj [(''version'', Number (Num 1)), (''tier'', Str ''owner''),
    (''statements'', Arr [
      Obj [(''Effect'', Str ''Allow''), (''Action'', Str ''*'')]])]"

definition default_admin :: jsval where
  "default_admin = Obj [(''version'', Number (Num 1)), (''tier'', Str ''admin''),
    (''statements'', Arr [
      Obj [(''Effect'', Str ''Allow''), (''Action'', Str ''community:suggest-translation'')],
      Obj [(''Effect'', Str ''Allow''), (''Action'', Arr [
        Str ''setup:*'',
        Str ''server:*'',
        Str ''logs:*'',
        Str ''backups:*'',
        Str ''database:read'',
        Str ''database:query'',
        Str ''database:export'',
        Str ''updates:*'',
        Str ''players:*'',
        Str ''guilds:*'',
        Str ''bases:*'',
        Str ''storage:*'',
        Str ''blueprints:*'',
        Str ''vehicles:*'',
        Str ''exchange:*'',
        Str ''maps:*'',
        Str ''sietches:*'',
        Str ''deepdesert:*'',
        Str ''admin:*'',
        Str ''landsraad:*'',
        Str ''addons:*'',
        Str ''carepackage:*'',
        Str ''realtime:*''])],
      Obj [(''Effect'', Str ''Deny''), (''Action'', Arr [
        Str ''settings:*'',
        Str ''database:write-config'',
        Str ''database:mutate'',
        Str ''server:restart'',
        Str ''carepackage:clear-history'',
        Str ''admin:history:clear'',
        Str ''carepackage:grant-all'',
        Str ''database:execute'',
        Str ''backups:download-system'',
        Str ''backups:import-system'',
        Str ''backups:restore-system''])]])]"

definition default_moderator :: jsval where
  "default_moderator = Obj [(''version'', Number (Num 1)), (''tier'', Str ''moderator''),
    (''statements'', Arr [
      Obj [(''Effect'', Str ''Allow''), (''Action'', Str ''community:suggest-translation'')],
      Obj [(''Effect'', Str ''Allow''), (''Action'', Arr [
        Str ''server:read'',
        Str ''maps:read'',
        Str ''sietches:read'',
        Str ''deepdesert:read'',
        Str ''players:read'',
        Str ''players:kick-all'',
        Str ''guilds:read'',
        Str ''bases:read'',
        Str ''storage:read'',
        Str ''blueprints:read'',
        Str ''vehicles:read'',
        Str ''exchange:read'',
        Str ''logs:*'',
        Str ''landsraad:read'',
        Str ''admin:broadcast'',
        Str ''admin:map-chat''])]])]"

definition default_player :: jsval where
  "default_player = Obj [(''version'', Number (Num 1)), (''tier'', Str ''player''),
    (''statements'', Arr [
      Obj [(''Effect'', Str ''Allow''), (''Action'', Arr [
        Str ''server:read'',
        Str ''players:read'',
        Str ''guilds:read'',
        Str ''bases:read'',
        Str ''vehicles:read'',
        Str ''storage:read''])],
      Obj [(''Effect'', Str ''Allow''), (''Action'', Str ''community:suggest-translation'')]])]"

definition DEFAULT_POLICIES :: jsval where
  "DEFAULT_POLICIES = Obj [(''owner'', default_owner), (''admin'', default_admin),
     (''moderator'', default_moderator), (''player'', default_player)]"

section \<open>Sessions and tiers\<close>

definition normalizeTier :: "string \<Rightarrow> string" where
  "normalizeTier tier = (if tier = ''observer'' then ''player'' else tier)"

definition VALID_TIERS :: "string list" where
  "VALID_TIERS = [''owner'', ''admin'', ''moderator'', ''player'']"

definition resolveSessionTier :: "jsval \<Rightarrow> string" where
  "resolveSessionTier session =
     (if \<not> truthy session then []
      else let tier = (case getp session ''tier'' of Str t \<Rightarrow> normalizeTier t | _ \<Rightarrow> [])
           in if tier \<in> set VALID_TIERS then tier else [])"

section \<open>Evaluation\<close>

text \<open>\<open>getPolicy\<close> in a store that is given; \<open>undefined\<close> and \<open>null\<close> of the source are both falsy.\<close>

definition getPolicy :: "string \<Rightarrow> jsval \<Rightarrow> jsval" where
  "getPolicy tier store = js_or (getp store tier) Null"

text \<open>
  The two nested loops: \<open>None\<close> is the early \<open>return false\<close> of a matching Deny, \<open>Some allowed\<close> the
  accumulated verdict.
\<close>

fun eval_patterns :: "jsval \<Rightarrow> string \<Rightarrow> jsval list \<Rightarrow> bool \<Rightarrow> bool option" where
  "eval_patterns effect action [] allowed = Some allowed"
| "eval_patterns effect action (p # ps) allowed =
     (if match_val p action
      then (if effect = Str ''Deny'' then None
            else eval_patterns effect action ps (if effect = Str ''Allow'' then True else allowed))
      else eval_patterns effect action ps allowed)"

fun eval_statements :: "string \<Rightarrow> jsval list \<Rightarrow> bool \<Rightarrow> bool" where
  "eval_statements action [] allowed = allowed"
| "eval_statements action (stmt # stmts) allowed =
     (case eval_patterns (getp stmt ''Effect'') action (patternsOf stmt) allowed of
        None \<Rightarrow> False
      | Some allowed' \<Rightarrow> eval_statements action stmts allowed')"

definition evaluate :: "jsval \<Rightarrow> string \<Rightarrow> jsval \<Rightarrow> bool" where
  "evaluate session action store =
     (if action = [] then True
      else let tier = resolveSessionTier session in
        if tier = [] then False
        else let policy = getPolicy tier store in
          if \<not> truthy policy then False else eval_statements action (statementsOf policy) False)"

definition mockSession :: "string \<Rightarrow> jsval" where
  "mockSession tier = Obj [(''tier'', Str tier)]"

section \<open>The catalog\<close>

text \<open>The insertion order of a JavaScript \<open>Set\<close>: the first occurrences.\<close>

definition set_order :: "'a list \<Rightarrow> 'a list" where
  "set_order xs = rev (remdups (rev xs))"

definition allKnownActions :: "string list" where
  "allKnownActions = set_order (map snd ROUTE_ACTIONS @ map snd REGEX_ACTIONS
     @ map snd REGEX_ACTIONS_BY_METHOD @ map (snd \<circ> snd) REGEX_ACTIONS_BY_METHOD_PATTERN
     @ CONTENT_CONDITIONAL_ACTIONS)"

lemma set_set_order [simp]: "set (set_order xs) = set xs"
  by (simp add: set_order_def)

lemma distinct_set_order [simp]: "distinct (set_order xs)"
  by (simp add: set_order_def)

section \<open>What evaluation means\<close>

text \<open>A statement of a given effect that matches an action.\<close>

definition stmt_matches :: "string \<Rightarrow> jsval \<Rightarrow> string \<Rightarrow> bool" where
  "stmt_matches effect stmt action =
     (getp stmt ''Effect'' = Str effect \<and> (\<exists>p \<in> set (patternsOf stmt). match_val p action))"

definition doc_matches :: "string \<Rightarrow> jsval \<Rightarrow> string \<Rightarrow> bool" where
  "doc_matches effect doc action = (\<exists>s \<in> set (statementsOf doc). stmt_matches effect s action)"

lemma eval_patterns_eq:
  "eval_patterns e action ps allowed =
     (if e = Str ''Deny'' \<and> (\<exists>p \<in> set ps. match_val p action) then None
      else Some (allowed \<or> (e = Str ''Allow'' \<and> (\<exists>p \<in> set ps. match_val p action))))"
proof (cases "e = Str ''Deny''")
  case True
  have "eval_patterns (Str ''Deny'') action ps allowed =
      (if \<exists>p \<in> set ps. match_val p action then None else Some allowed)"
    by (induction ps arbitrary: allowed) simp_all
  with True show ?thesis by simp
next
  case False
  then show ?thesis by (induction ps arbitrary: allowed) auto
qed

lemma eval_statements_eq:
  "eval_statements action ss allowed =
     ((allowed \<or> (\<exists>s \<in> set ss. stmt_matches ''Allow'' s action))
      \<and> \<not> (\<exists>s \<in> set ss. stmt_matches ''Deny'' s action))"
  by (induction ss arbitrary: allowed) (auto simp: eval_patterns_eq stmt_matches_def)

lemma tier_valid_iff: "resolveSessionTier session \<noteq> [] \<longleftrightarrow> resolveSessionTier session \<in> set VALID_TIERS"
  by (auto simp: resolveSessionTier_def VALID_TIERS_def Let_def)

lemma evaluate_iff:
  "action \<noteq> [] \<Longrightarrow> evaluate session action store \<longleftrightarrow>
     (let tier = resolveSessionTier session; doc = getPolicy tier store
      in tier \<in> set VALID_TIERS \<and> truthy doc \<and> doc_matches ''Allow'' doc action
        \<and> \<not> doc_matches ''Deny'' doc action)"
proof (cases "resolveSessionTier session = []")
  case True
  moreover assume "action \<noteq> []"
  ultimately show ?thesis
    using tier_valid_iff [of session] by (simp add: evaluate_def)
next
  case False
  moreover assume "action \<noteq> []"
  ultimately show ?thesis
    using tier_valid_iff [of session]
    by (simp add: evaluate_def eval_statements_eq doc_matches_def Let_def)
qed

text \<open>
  C30. The loop over ordered statements decides what the policy language promises: a non-empty action
  is allowed exactly when the session has a known tier with a document, some Allow matches it and no
  Deny does. The order of statements and patterns does not matter, and a Deny always wins. The empty
  action, that of a route which needs no permission, is always allowed.
\<close>

theorem evaluate_deny_overrides:
  "evaluate session action store \<longleftrightarrow> action = [] \<or>
     (resolveSessionTier session \<in> set VALID_TIERS
      \<and> truthy (getPolicy (resolveSessionTier session) store)
      \<and> doc_matches ''Allow'' (getPolicy (resolveSessionTier session) store) action
      \<and> \<not> doc_matches ''Deny'' (getPolicy (resolveSessionTier session) store) action)"
proof (cases "action = []")
  case True
  then show ?thesis by (simp add: evaluate_def)
next
  case False
  then show ?thesis by (simp add: evaluate_iff Let_def)
qed

section \<open>What a pattern matches\<close>

lemma wildcard_prefix:
  "CHR ''*'' \<notin> set a \<Longrightarrow> wildcard_test (a @ p) s \<longleftrightarrow> (\<exists>r. s = a @ r \<and> wildcard_test p r)"
proof (induction a arbitrary: s)
  case Nil
  then show ?case by simp
next
  case (Cons c a)
  then show ?case by (cases s) auto
qed

lemma wildcard_literal: "CHR ''*'' \<notin> set p \<Longrightarrow> wildcard_test p s \<longleftrightarrow> s = p"
  using wildcard_prefix [of p "[]" s] by simp

lemma wildcard_star:
  "\<forall>c \<in> set s. \<not> is_newline c \<Longrightarrow>
   wildcard_test (CHR ''*'' # p) s \<longleftrightarrow> (\<exists>u r. s = u @ r \<and> wildcard_test p r)"
proof (induction s)
  case Nil
  then show ?case by simp
next
  case (Cons c s)
  have "(\<exists>u r. c # s = u @ r \<and> wildcard_test p r) \<longleftrightarrow>
      wildcard_test p (c # s) \<or> (\<exists>u r. s = u @ r \<and> wildcard_test p r)"
    by (auto simp: Cons_eq_append_conv)
  with Cons show ?case by simp
qed

text \<open>
  An operator's pattern with one star means exactly its literal text around any text: nothing
  else in it, in particular no regular expression metacharacter, acts as a wildcard.
\<close>

theorem wildcard_meaning:
  assumes "CHR ''*'' \<notin> set a" and "CHR ''*'' \<notin> set b" and "\<forall>c \<in> set action. \<not> is_newline c"
  shows "wildcard_test (a @ CHR ''*'' # b) action \<longleftrightarrow> (\<exists>m. action = a @ m @ b)"
proof -
  have "wildcard_test (a @ CHR ''*'' # b) action \<longleftrightarrow>
      (\<exists>r. action = a @ r \<and> wildcard_test (CHR ''*'' # b) r)"
    using assms(1) by (rule wildcard_prefix)
  also have "\<dots> \<longleftrightarrow> (\<exists>r. action = a @ r \<and> (\<exists>u v. r = u @ v \<and> v = b))"
    using assms(2,3) by (auto simp: wildcard_star wildcard_literal)
  finally show ?thesis by auto
qed

theorem wildcard_meaning_witness:
  "wildcard_test (''players.'' @ CHR ''*'' # []) ''players:read'' \<longleftrightarrow> (\<exists>m. ''players:read'' = ''players.'' @ m @ [])"
  by (rule wildcard_meaning) (simp_all add: is_newline_def code_def)

lemma ends_star: "ends_with p '':*'' \<or> ends_with p ''-*'' \<Longrightarrow> CHR ''*'' \<in> set p"
  by (auto simp: ends_with_iff)

text \<open>A pattern without a star that is no removed name matches itself only.\<close>

lemma matchAction_exact:
  assumes "CHR ''*'' \<notin> set p" and "map_of REMOVED_ACTION_ALIASES p = None"
  shows "matchAction p a \<longleftrightarrow> a = p"
  using assms ends_star [of p] by (auto simp: matchAction_def)

lemma matchAction_removed:
  assumes "CHR ''*'' \<notin> set p" and "map_of REMOVED_ACTION_ALIASES p = Some ss"
  shows "matchAction p a \<longleftrightarrow> a = p \<or> a \<in> set ss"
  using assms ends_star [of p] by (auto simp: matchAction_def)

section \<open>The shipped ladder\<close>

text \<open>
  Whatever the player tier asks for, the shipped policy allows it nothing outside the actions
  the player gate caps the tier at.
\<close>

theorem default_player_within_cap:
  assumes "resolveSessionTier session = ''player''" and "evaluate session action DEFAULT_POLICIES"
    and "action \<noteq> []"
  shows "action \<in> set PLAYER_TIER_ACTIONS"
proof -
  have pol: "getPolicy ''player'' DEFAULT_POLICIES = default_player"
    by (simp add: getPolicy_def DEFAULT_POLICIES_def default_player_def js_or_def)
  have "doc_matches ''Allow'' default_player action"
    using assms pol by (simp add: evaluate_iff)
  moreover have "list_all (\<lambda>s. list_all (\<lambda>v. case v of Str p \<Rightarrow> CHR ''*'' \<notin> set p
      \<and> map_of REMOVED_ACTION_ALIASES p = None \<and> p \<in> set PLAYER_TIER_ACTIONS | _ \<Rightarrow> False) (patternsOf s))
      (statementsOf default_player)"
    by code_simp
  moreover obtain s v where s: "s \<in> set (statementsOf default_player)" and v: "v \<in> set (patternsOf s)"
    and m: "match_val v action"
    using calculation(1) by (auto simp: doc_matches_def stmt_matches_def)
  ultimately have "case v of Str p \<Rightarrow> CHR ''*'' \<notin> set p
      \<and> map_of REMOVED_ACTION_ALIASES p = None \<and> p \<in> set PLAYER_TIER_ACTIONS | _ \<Rightarrow> False"
    unfolding list_all_iff by blast
  with m show ?thesis
    by (cases v) (auto simp: match_val_def matchAction_exact)
qed

theorem default_player_within_cap_witness:
  "evaluate (mockSession ''observer'') ''bases:read'' DEFAULT_POLICIES \<and> ''bases:read'' \<in> set PLAYER_TIER_ACTIONS"
proof -
  have e: "evaluate (mockSession ''observer'') ''bases:read'' DEFAULT_POLICIES" by code_simp
  have t: "resolveSessionTier (mockSession ''observer'') = ''player''" by code_simp
  show ?thesis using e default_player_within_cap [OF t e] by simp
qed

text \<open>
  The admin tier is withheld every destructive or credential-bearing action its shipped document
  names, whichever wildcard of the same document would grant it.
\<close>

theorem default_admin_denied:
  "\<not> list_ex (\<lambda>a. evaluate (mockSession ''admin'') a DEFAULT_POLICIES)
     [''settings:write'', ''settings:read'', ''database:write-config'', ''database:mutate'', ''database:execute'',
      ''server:restart'', ''carepackage:clear-history'', ''carepackage:grant-all'', ''admin:history:clear'',
      ''backups:download-system'', ''backups:import-system'', ''backups:restore-system'']"
  by code_simp

end
