(* ===== verification/PolicyStore.thy ===== *)
theory PolicyStore
  imports PolicyEngine "HOL-Library.List_Lexorder" "HOL-Library.Char_ord"
begin

text \<open>
  The policy store of \<open>console/api/src/policy.js\<close>: validation and clean-up of documents, the
  shipped Denies added to a saved store, its revision, and the load and save operations with the
  module state they write. \<open>sha\<close> is \<open>createHash("sha256")\<close> of the text in hexadecimal (Node's
  crypto module). The messages of refusals are not modelled, the data they carry is. The path of the
  file and the clock play no part.
\<close>

section \<open>Clean-up and validation\<close>

definition obj_keys :: "jsval \<Rightarrow> string list" where
  "obj_keys v = (case v of Obj ps \<Rightarrow> map fst ps | _ \<Rightarrow> [])"

definition obj_set :: "string \<Rightarrow> jsval \<Rightarrow> jsval \<Rightarrow> jsval" where
  "obj_set k x v = (case v of Obj ps \<Rightarrow> Obj (om_set k x ps) | _ \<Rightarrow> v)"

text \<open>\<open>!value || typeof value !== "object" || Array.isArray(value)\<close>, negated.\<close>

definition is_plain :: "jsval \<Rightarrow> bool" where
  "is_plain v = (case v of Obj _ \<Rightarrow> True | _ \<Rightarrow> False)"

definition sanitizePolicyStore :: "jsval \<Rightarrow> jsval" where
  "sanitizePolicyStore value = (case value of
       Obj ps \<Rightarrow>
         if \<not> om_has ps ''observer'' then value
         else let rest = om_delete ''observer'' ps
              in if om_has rest ''player'' then Obj rest
                 else Obj (om_set ''player'' default_player rest)
     | _ \<Rightarrow> value)"

definition valid_pattern :: "jsval \<Rightarrow> bool" where
  "valid_pattern v = (case v of Str s \<Rightarrow> js_trim s \<noteq> [] | _ \<Rightarrow> False)"

definition valid_statement :: "jsval \<Rightarrow> bool" where
  "valid_statement stmt =
     (truthy stmt \<and> getp stmt ''Effect'' \<in> {Str ''Allow'', Str ''Deny''}
      \<and> patternsOf stmt \<noteq> [] \<and> list_all valid_pattern (patternsOf stmt))"

definition valid_document :: "string \<Rightarrow> jsval \<Rightarrow> bool" where
  "valid_document tier doc =
     (truthy doc \<and> getp doc ''tier'' = Str tier \<and> is_array (getp doc ''statements'')
      \<and> list_all valid_statement (statementsOf doc))"

definition validPolicyStore :: "jsval \<Rightarrow> bool" where
  "validPolicyStore value =
     (is_plain value \<and> obj_keys value \<noteq> [] \<and> list_all (\<lambda>t. t \<in> set VALID_TIERS) (obj_keys value)
      \<and> list_all (\<lambda>t. valid_document t (getp value t)) (obj_keys value))"

section \<open>The shipped Denies\<close>

definition SHIPPED_DEFAULT_DENIES :: "(string \<times> string list) list" where
  "SHIPPED_DEFAULT_DENIES =
     [(''admin'', [''backups:download-system'', ''backups:import-system'', ''backups:restore-system''])]"

definition denied_in :: "jsval \<Rightarrow> string \<Rightarrow> bool" where
  "denied_in document action =
     list_ex (\<lambda>s. getp s ''Effect'' = Str ''Deny'' \<and> list_ex (\<lambda>p. match_val p action) (patternsOf s))
       (statementsOf document)"

definition namedInAllow :: "jsval \<Rightarrow> string \<Rightarrow> bool" where
  "namedInAllow document action =
     list_ex (\<lambda>s. getp s ''Effect'' = Str ''Allow'' \<and> Str action \<in> set (patternsOf s)) (statementsOf document)"

definition deny_statement :: "string list \<Rightarrow> jsval" where
  "deny_statement actions = Obj [(''Effect'', Str ''Deny''), (''Action'', Arr (map Str actions))]"

record reconciled =
  r_store :: jsval
  r_added :: "(string \<times> string) list"
  r_kept :: "(string \<times> string) list"

definition reconcile_tier :: "jsval \<Rightarrow> reconciled \<Rightarrow> string \<times> string list \<Rightarrow> reconciled" where
  "reconcile_tier store r entry = (case entry of (tier, actions) \<Rightarrow>
     let document = getp store tier in
     if \<not> truthy document then r
     else let kept = filter (\<lambda>a. \<not> denied_in document a \<and> namedInAllow document a) actions;
              missing = filter (\<lambda>a. \<not> denied_in document a \<and> \<not> namedInAllow document a) actions;
              r' = r\<lparr>r_kept := r_kept r @ map (Pair tier) kept\<rparr>
          in if missing = [] then r'
             else r'\<lparr>r_store := obj_set tier
                        (obj_set ''statements'' (Arr (statementsOf document @ [deny_statement missing])) document)
                        (r_store r'),
                     r_added := r_added r' @ map (Pair tier) missing\<rparr>)"

definition reconcileShippedDenies :: "jsval \<Rightarrow> reconciled" where
  "reconcileShippedDenies store =
     foldl (reconcile_tier store) \<lparr>r_store = store, r_added = [], r_kept = []\<rparr> SHIPPED_DEFAULT_DENIES"

section \<open>Reports on a store\<close>

text \<open>Every pattern of every statement of every document, with its tier, in the source's order.\<close>

definition store_patterns :: "jsval \<Rightarrow> (string \<times> string) list" where
  "store_patterns docs = concat (map (\<lambda>t. concat (map (\<lambda>stmt.
       concat (map (\<lambda>p. case p of Str s \<Rightarrow> [(t, s)] | _ \<Rightarrow> []) (patternsOf stmt)))
       (statementsOf (getp docs t)))) (obj_keys docs))"

definition deprecatedActions :: "jsval \<Rightarrow> (string \<times> string \<times> string list) list" where
  "deprecatedActions docs = concat (map (\<lambda>(t, p). case map_of REMOVED_ACTION_ALIASES p of
       Some successors \<Rightarrow> [(t, p, successors)] | None \<Rightarrow> []) (store_patterns docs))"

definition unknownActions :: "jsval \<Rightarrow> (string \<times> string) list" where
  "unknownActions docs = filter (\<lambda>(t, p). \<not> list_ex (matchAction p) allKnownActions) (store_patterns docs)"

definition playerCappedActions :: "jsval \<Rightarrow> string list" where
  "playerCappedActions docs =
     (if \<not> truthy (getp docs ''player'') then []
      else filter (\<lambda>a. a \<notin> set PLAYER_TIER_ACTIONS \<and> evaluate (mockSession ''player'') a docs) allKnownActions)"

section \<open>The revision\<close>

definition hex_char :: "nat \<Rightarrow> char" where
  "hex_char d = (if d < 10 then digit_char d else char_of (87 + d))"

text \<open>\<open>JSON.stringify\<close> of a string and of a primitive value.\<close>

definition json_escape :: "char \<Rightarrow> string" where
  "json_escape c = (let k = code c in
     if c = CHR 0x22 then [CHR 0x5C, CHR 0x22]
     else if c = CHR 0x5C then [CHR 0x5C, CHR 0x5C]
     else if k = 8 then [CHR 0x5C, CHR ''b''] else if k = 12 then [CHR 0x5C, CHR ''f'']
     else if k = 10 then [CHR 0x5C, CHR ''n''] else if k = 13 then [CHR 0x5C, CHR ''r'']
     else if k = 9 then [CHR 0x5C, CHR ''t'']
     else if k < 32 then [CHR 0x5C] @ ''u00'' @ [hex_char (k div 16), hex_char (k mod 16)]
     else [c])"

definition json_quote :: "string \<Rightarrow> string" where
  "json_quote s = [CHR 0x22] @ concat (map json_escape s) @ [CHR 0x22]"

lemma size_in_list: "x \<in> set vs \<Longrightarrow> size x \<le> size_list size vs"
  by (induction vs) auto

lemma size_in_pairs: "(a, b) \<in> set ps \<Longrightarrow> size b \<le> size_list (size_prod (\<lambda>x. 0) size) ps"
  by (induction ps) auto

function canonicalJson :: "jsval \<Rightarrow> string" where
  "canonicalJson (Arr vs) = ''['' @ join_with '','' (map canonicalJson vs) @ '']''"
| "canonicalJson (Obj ps) = ''{'' @ join_with '','' (map (\<lambda>(k, s). json_quote k @ '':'' @ s)
     (sort_key fst (map (\<lambda>p. (fst p, canonicalJson (snd p))) (filter (\<lambda>p. snd p \<noteq> Undef) ps)))) @ ''}''"
| "canonicalJson (Str s) = json_quote s"
| "canonicalJson (Number n) = (if is_finite n then show_num n else ''null'')"
| "canonicalJson (Bool b) = (if b then ''true'' else ''false'')"
| "canonicalJson Null = ''null''"
| "canonicalJson Undef = ''null''"
  by pat_completeness auto
termination
  by (relation "measure size") (auto simp: less_Suc_eq_le size_in_list size_in_pairs)

section \<open>The module state\<close>

text \<open>
  \<open>_policies\<close> (\<open>Null\<close> before the first load), \<open>_allowedActions\<close> and \<open>_notices\<close> of the module, and
  the saved file.
\<close>

record notices =
  addedDefaultDenies :: "(string \<times> string) list"
  keptExactAllows :: "(string \<times> string) list"

datatype policy_file = Missing | Unreadable | Parsed jsval

record policy_state =
  policies :: jsval
  allowedActions :: "(string, string list) omap"
  notices :: notices
  saved_file :: policy_file

definition emptyNotices :: notices where
  "emptyNotices = \<lparr>addedDefaultDenies = [], keptExactAllows = []\<rparr>"

definition initial_state :: "policy_file \<Rightarrow> policy_state" where
  "initial_state file = \<lparr>policies = Null, allowedActions = [], notices = emptyNotices, saved_file = file\<rparr>"

definition current_store :: "policy_state \<Rightarrow> jsval" where
  "current_store st = js_or (policies st) DEFAULT_POLICIES"

text \<open>\<open>getAllPolicies\<close> copies the object in force; \<open>policyRevision\<close> identifies it.\<close>

definition getAllPolicies :: "policy_state \<Rightarrow> jsval" where
  "getAllPolicies st = current_store st"

definition policyRevision :: "(string \<Rightarrow> string) \<Rightarrow> policy_state \<Rightarrow> string" where
  "policyRevision sha st = sha (canonicalJson (getAllPolicies st))"

section \<open>Loading\<close>

record load_report =
  l_unknown :: "(string \<times> string) list"
  l_deprecated :: "(string \<times> string \<times> string list) list"
  l_capped :: "string list"
  l_added :: "(string \<times> string) list"
  l_kept :: "(string \<times> string) list"

datatype load_result =
    LoadedFile load_report
  | DefaultsInvalid
  | DefaultsOwnerLocked
  | DefaultsNoFile

definition loadPolicies :: "policy_state \<Rightarrow> load_result \<times> policy_state" where
  "loadPolicies st0 =
     (let st = st0\<lparr>allowedActions := [], notices := emptyNotices\<rparr> in
      case saved_file st of
        Missing \<Rightarrow> (DefaultsNoFile, st\<lparr>policies := DEFAULT_POLICIES\<rparr>)
      | Unreadable \<Rightarrow> (DefaultsInvalid, st\<lparr>policies := DEFAULT_POLICIES\<rparr>)
      | Parsed raw \<Rightarrow>
         (let parsed = sanitizePolicyStore raw in
          if validPolicyStore parsed
          then (let r = reconcileShippedDenies parsed in
                if \<not> evaluate (mockSession ''owner'') ''settings:write'' (r_store r)
                then (DefaultsOwnerLocked, st\<lparr>policies := DEFAULT_POLICIES\<rparr>)
                else (LoadedFile \<lparr>l_unknown = unknownActions parsed, l_deprecated = deprecatedActions parsed,
                        l_capped = playerCappedActions (r_store r), l_added = r_added r, l_kept = r_kept r\<rparr>,
                      st\<lparr>policies := r_store r,
                         notices := \<lparr>addedDefaultDenies = r_added r, keptExactAllows = r_kept r\<rparr>\<rparr>))
          else (DefaultsInvalid, st\<lparr>policies := DEFAULT_POLICIES\<rparr>)))"

section \<open>Saving\<close>

datatype save_result =
    Conflict jsval notices string
  | InvalidStore
  | OwnerLocked
  | DeprecatedActions "(string \<times> string \<times> string list) list"
  | UnknownActions "(string \<times> string) list"
  | PersistFailed
  | Saved jsval "string list" "(string \<times> string) list" notices string

text \<open>
  \<open>repo\<close> says whether a repository root was given, so that the store is written to disk;
  \<open>write_ok\<close> whether \<open>writeJsonAtomic\<close> succeeds.
\<close>

definition setPolicies ::
  "(string \<Rightarrow> string) \<Rightarrow> policy_state \<Rightarrow> jsval \<Rightarrow> bool \<Rightarrow> bool \<Rightarrow> jsval \<Rightarrow> save_result \<times> policy_state" where
  "setPolicies sha st inputDocs repo write_ok baseRevision =
     (let currentRevision = policyRevision sha st in
      if \<not> is_nullish baseRevision \<and> baseRevision \<noteq> Str currentRevision
      then (Conflict (getAllPolicies st) (notices st) currentRevision, st)
      else let docs = sanitizePolicyStore inputDocs in
      if \<not> validPolicyStore docs then (InvalidStore, st)
      else if \<not> evaluate (mockSession ''owner'') ''settings:write'' docs then (OwnerLocked, st)
      else if deprecatedActions docs \<noteq> [] then (DeprecatedActions (deprecatedActions docs), st)
      else if unknownActions docs \<noteq> [] then (UnknownActions (unknownActions docs), st)
      else let r = reconcileShippedDenies docs in
      if repo \<and> \<not> write_ok then (PersistFailed, st)
      else let st' = st\<lparr>policies := r_store r, allowedActions := [],
                        notices := \<lparr>addedDefaultDenies = [], keptExactAllows = r_kept r\<rparr>,
                        saved_file := (if repo then Parsed (r_store r) else saved_file st)\<rparr>
           in (Saved (getAllPolicies st') (playerCappedActions (r_store r)) (r_added r) (notices st')
                 (policyRevision sha st'), st'))"

section \<open>The allowed actions of a tier\<close>

definition resolveAllowedActions :: "policy_state \<Rightarrow> string \<Rightarrow> string list \<times> policy_state" where
  "resolveAllowedActions st tier =
     (if tier = [] then ([], st)
      else case om_get (allowedActions st) tier of
          Some as \<Rightarrow> (as, st)
        | None \<Rightarrow>
           (let allowed = filter (\<lambda>a. evaluate (mockSession tier) a (current_store st)) allKnownActions
            in (allowed, st\<lparr>allowedActions := om_set tier allowed (allowedActions st)\<rparr>)))"

section \<open>Objects and documents\<close>

lemma is_plain_obj_set [simp]: "is_plain (obj_set k x v) = is_plain v"
  by (simp add: is_plain_def obj_set_def split: jsval.splits)

lemma getp_obj_set: "is_plain v \<Longrightarrow> getp (obj_set k x v) k' = (if k' = k then x else getp v k')"
  using om_get_set [of k x _ k']
  by (auto simp: is_plain_def obj_set_def om_get_def split: jsval.splits)

lemma obj_keys_set:
  "is_plain v \<Longrightarrow> k \<in> set (obj_keys v) \<Longrightarrow> obj_keys (obj_set k x v) = obj_keys v"
  by (auto simp: is_plain_def obj_set_def obj_keys_def om_keys_set split: jsval.splits)

lemma getp_truthy_key: "truthy (getp v k) \<Longrightarrow> k \<in> set (obj_keys v)"
  by (cases v) (force simp: obj_keys_def dest: map_of_SomeD split: option.splits)+

lemma valid_document_plain: "valid_document t doc \<Longrightarrow> is_plain doc"
  by (cases doc) (auto simp: valid_document_def is_plain_def)

lemma truthy_plain: "is_plain v \<Longrightarrow> truthy v"
  by (cases v) (auto simp: is_plain_def)

lemma valid_store_document:
  "validPolicyStore s \<Longrightarrow> truthy (getp s t) \<Longrightarrow> valid_document t (getp s t)"
  using getp_truthy_key [of s t] by (auto simp: validPolicyStore_def list_all_iff)

lemma denied_in_iff: "denied_in doc a \<longleftrightarrow> doc_matches ''Deny'' doc a"
  by (auto simp: denied_in_def doc_matches_def stmt_matches_def list_ex_iff)

lemma statementsOf_set: "is_plain doc \<Longrightarrow> statementsOf (obj_set ''statements'' (Arr ss) doc) = ss"
  by (simp add: statementsOf_def getp_obj_set arr_items_def)

lemma matchAction_refl: "matchAction a a"
proof -
  have skip: "wildcard_test p s \<Longrightarrow> wildcard_test (CHR ''*'' # p) s" for p s
    by (cases s) auto
  have "wildcard_test p p" for p
    using skip by (induction p) (auto simp: is_newline_def code_def)
  moreover have "starts_with a (butlast a)"
    by (cases a rule: rev_cases) (auto simp: starts_with_iff)
  moreover have "ends_with a '':*'' \<Longrightarrow> starts_with a (take (length a - 2) a @ '':'')"
    by (auto simp: ends_with_iff starts_with_iff)
  ultimately show ?thesis by (simp add: matchAction_def Let_def)
qed

lemma deny_statement_matches: "stmt_matches ''Deny'' (deny_statement as) a \<longleftrightarrow> (\<exists>p \<in> set as. matchAction p a)"
  by (auto simp: stmt_matches_def deny_statement_def patternsOf_def match_val_def)

lemma named_matches: "namedInAllow doc a \<Longrightarrow> doc_matches ''Allow'' doc a"
proof -
  have "match_val (Str a) a" by (simp add: match_val_def matchAction_refl)
  then show "namedInAllow doc a \<Longrightarrow> doc_matches ''Allow'' doc a"
    unfolding namedInAllow_def doc_matches_def stmt_matches_def list_ex_iff by blast
qed

section \<open>The reconciled store\<close>

definition shipped :: "string list" where
  "shipped = [''backups:download-system'', ''backups:import-system'', ''backups:restore-system'']"

lemma SHIPPED_eq: "SHIPPED_DEFAULT_DENIES = [(''admin'', shipped)]"
  by (simp add: SHIPPED_DEFAULT_DENIES_def shipped_def)

definition missing_denies :: "jsval \<Rightarrow> string list" where
  "missing_denies store = (let d = getp store ''admin'' in
     if \<not> truthy d then [] else filter (\<lambda>a. \<not> denied_in d a \<and> \<not> namedInAllow d a) shipped)"

definition kept_allows :: "jsval \<Rightarrow> string list" where
  "kept_allows store = (let d = getp store ''admin'' in
     if \<not> truthy d then [] else filter (\<lambda>a. \<not> denied_in d a \<and> namedInAllow d a) shipped)"

lemma reconcile_eq:
  "reconcileShippedDenies store =
     \<lparr>r_store = (if missing_denies store = [] then store
        else obj_set ''admin'' (obj_set ''statements'' (Arr (statementsOf (getp store ''admin'')
               @ [deny_statement (missing_denies store)])) (getp store ''admin'')) store),
      r_added = map (Pair ''admin'') (missing_denies store),
      r_kept = map (Pair ''admin'') (kept_allows store)\<rparr>"
  by (simp add: reconcileShippedDenies_def SHIPPED_eq reconcile_tier_def
      missing_denies_def kept_allows_def Let_def)

lemma reconcile_other: "validPolicyStore store \<Longrightarrow> t \<noteq> ''admin'' \<Longrightarrow>
    getp (r_store (reconcileShippedDenies store)) t = getp store t"
  by (simp add: reconcile_eq getp_obj_set validPolicyStore_def)

lemma reconcile_admin:
  assumes "validPolicyStore store" and "missing_denies store \<noteq> []"
  shows "getp (r_store (reconcileShippedDenies store)) ''admin'' =
      obj_set ''statements'' (Arr (statementsOf (getp store ''admin'') @ [deny_statement (missing_denies store)]))
        (getp store ''admin'')"
  using assms by (simp add: reconcile_eq getp_obj_set validPolicyStore_def)

lemma missing_truthy: "missing_denies store \<noteq> [] \<Longrightarrow> truthy (getp store ''admin'')"
  by (auto simp: missing_denies_def Let_def split: if_splits)

text \<open>After reconciliation every shipped Deny of the tier is there, or its exact Allow was kept.\<close>

lemma reconcile_denies:
  assumes valid: "validPolicyStore store" and doc: "truthy (getp store ''admin'')" and a: "a \<in> set shipped"
  shows "doc_matches ''Deny'' (getp (r_store (reconcileShippedDenies store)) ''admin'') a
    \<or> a \<in> set (kept_allows store)"
proof (cases "a \<in> set (missing_denies store)")
  case True
  then have ne: "missing_denies store \<noteq> []" by auto
  have plain: "is_plain (getp store ''admin'')"
    using valid_store_document [OF valid doc] by (rule valid_document_plain)
  have "stmt_matches ''Deny'' (deny_statement (missing_denies store)) a"
    using True matchAction_refl by (auto simp: deny_statement_matches)
  then show ?thesis
    by (simp add: reconcile_admin [OF valid ne] doc_matches_def statementsOf_set [OF plain])
next
  case False
  then have h: "denied_in (getp store ''admin'') a \<or> a \<in> set (kept_allows store)"
    using doc a by (auto simp: missing_denies_def kept_allows_def Let_def)
  have "doc_matches ''Deny'' (getp store ''admin'') a \<Longrightarrow>
      doc_matches ''Deny'' (getp (r_store (reconcileShippedDenies store)) ''admin'') a"
  proof (cases "missing_denies store = []")
    case True
    then show "doc_matches ''Deny'' (getp store ''admin'') a \<Longrightarrow> ?thesis" by (simp add: reconcile_eq)
  next
    case False
    have plain: "is_plain (getp store ''admin'')"
      using valid_store_document [OF valid doc] by (rule valid_document_plain)
    show "doc_matches ''Deny'' (getp store ''admin'') a \<Longrightarrow> ?thesis"
      by (auto simp: reconcile_admin [OF valid False] doc_matches_def statementsOf_set [OF plain])
  qed
  with h show ?thesis unfolding denied_in_iff by blast
qed

lemma valid_deny_statement: "as \<noteq> [] \<Longrightarrow> set as \<subseteq> set shipped \<Longrightarrow> valid_statement (deny_statement as)"
proof -
  assume as: "as \<noteq> []" "set as \<subseteq> set shipped"
  have "\<forall>a \<in> set shipped. js_trim a \<noteq> []"
    by (simp add: shipped_def js_trim_def trim_left_def is_ws_def code_def)
  with as show "valid_statement (deny_statement as)"
    by (auto simp: valid_statement_def deny_statement_def patternsOf_def valid_pattern_def list_all_iff)
qed

lemma missing_subset: "set (missing_denies store) \<subseteq> set shipped"
  by (auto simp: missing_denies_def Let_def)

lemma reconcile_valid:
  assumes valid: "validPolicyStore store"
  shows "validPolicyStore (r_store (reconcileShippedDenies store))"
proof (cases "missing_denies store = []")
  case True
  with valid show ?thesis by (simp add: reconcile_eq)
next
  case False
  let ?d = "getp store ''admin''"
  let ?d' = "obj_set ''statements'' (Arr (statementsOf ?d @ [deny_statement (missing_denies store)])) ?d"
  have d: "truthy ?d" by (rule missing_truthy [OF False])
  have vd: "valid_document ''admin'' ?d" by (rule valid_store_document [OF valid d])
  have pd: "is_plain ?d" by (rule valid_document_plain [OF vd])
  have ps: "is_plain store" using valid by (simp add: validPolicyStore_def)
  have vd': "valid_document ''admin'' ?d'"
    using vd pd valid_deny_statement [OF False missing_subset]
    by (simp add: valid_document_def getp_obj_set [OF pd] statementsOf_set [OF pd] truthy_plain pd)
  have keys: "obj_keys (obj_set ''admin'' ?d' store) = obj_keys store"
    using getp_truthy_key [OF d] by (rule obj_keys_set [OF ps])
  have "valid_document t (getp (obj_set ''admin'' ?d' store) t)" if "t \<in> set (obj_keys store)" for t
    using that valid vd' by (auto simp: getp_obj_set [OF ps] validPolicyStore_def list_all_iff)
  then show ?thesis
    using valid False unfolding reconcile_eq validPolicyStore_def list_all_iff
    by (simp add: keys [simplified])
qed

lemma reconcile_fixed:
  assumes valid: "validPolicyStore store"
  shows "missing_denies (r_store (reconcileShippedDenies store)) = []"
proof (cases "missing_denies store = []")
  case True
  then show ?thesis by (simp add: reconcile_eq)
next
  case False
  let ?s = "r_store (reconcileShippedDenies store)"
  have d: "truthy (getp store ''admin'')" by (rule missing_truthy [OF False])
  have pd: "is_plain (getp store ''admin'')" by (rule valid_document_plain [OF valid_store_document [OF valid d]])
  have mono: "namedInAllow (getp store ''admin'') a \<Longrightarrow> namedInAllow (getp ?s ''admin'') a" for a
    by (simp add: reconcile_admin [OF valid False] namedInAllow_def statementsOf_set [OF pd])
  have "denied_in (getp ?s ''admin'') a \<or> namedInAllow (getp ?s ''admin'') a" if "a \<in> set shipped" for a
    using reconcile_denies [OF valid d that] mono [of a] d
    by (auto simp: denied_in_iff kept_allows_def Let_def)
  then show ?thesis by (auto simp: missing_denies_def Let_def)
qed

text \<open>
  Adding the shipped Denies is idempotent: a store that was reconciled once is left alone by
  the next load or save, so statements never pile up across restarts.
\<close>

theorem reconcile_idempotent:
  assumes "validPolicyStore store"
  shows "reconcileShippedDenies (r_store (reconcileShippedDenies store)) =
    \<lparr>r_store = r_store (reconcileShippedDenies store), r_added = [],
     r_kept = r_kept (reconcileShippedDenies (r_store (reconcileShippedDenies store)))\<rparr>"
  using reconcile_fixed [OF assms] by (simp add: reconcile_eq [of "r_store (reconcileShippedDenies store)"])

lemma valid_default: "validPolicyStore DEFAULT_POLICIES"
  by code_simp

theorem reconcile_idempotent_witness:
  "r_added (reconcileShippedDenies (r_store (reconcileShippedDenies DEFAULT_POLICIES))) = []"
  by (subst reconcile_idempotent [OF valid_default]) simp

section \<open>Runs\<close>

text \<open>
  What happens to the module: a load at startup, a save from the settings page (with any input,
  disk outcome and base revision), a look at a tier's actions, and an edit of the file by hand.
\<close>

inductive policy_step :: "(string \<Rightarrow> string) \<Rightarrow> policy_state \<Rightarrow> policy_state \<Rightarrow> bool" for sha where
  step_load: "policy_step sha st (snd (loadPolicies st))"
| step_save: "policy_step sha st (snd (setPolicies sha st docs repo write_ok base))"
| step_resolve: "policy_step sha st (snd (resolveAllowedActions st tier))"
| step_edit: "policy_step sha st (st\<lparr>saved_file := file\<rparr>)"

inductive policy_reachable :: "(string \<Rightarrow> string) \<Rightarrow> policy_state \<Rightarrow> bool" for sha where
  reach_init: "policy_reachable sha (initial_state file)"
| reach_step: "policy_reachable sha st \<Longrightarrow> policy_step sha st st' \<Longrightarrow> policy_reachable sha st'"

inductive_cases policy_stepE: "policy_step sha st st'"

definition fresh_allowed :: "jsval \<Rightarrow> string \<Rightarrow> string list" where
  "fresh_allowed store tier = filter (\<lambda>a. evaluate (mockSession tier) a store) allKnownActions"

text \<open>The invariant: what is enforced is reconciled, keeps the owner in, and the cache agrees with it.\<close>

definition store_inv :: "jsval \<Rightarrow> (string \<times> string) list \<Rightarrow> bool" where
  "store_inv store kept =
     (validPolicyStore store \<and> evaluate (mockSession ''owner'') ''settings:write'' store
      \<and> (\<forall>a \<in> set shipped. evaluate (mockSession ''admin'') a store \<longrightarrow> (''admin'', a) \<in> set kept))"

definition policy_inv :: "policy_state \<Rightarrow> bool" where
  "policy_inv st =
     (store_inv (current_store st) (keptExactAllows (notices st))
      \<and> (\<forall>t as. om_get (allowedActions st) t = Some as \<longrightarrow> as = fresh_allowed (current_store st) t))"

lemma tier_of_mock: "t \<in> set VALID_TIERS \<Longrightarrow> resolveSessionTier (mockSession t) = t"
  by (auto simp: resolveSessionTier_def mockSession_def VALID_TIERS_def normalizeTier_def)

lemma default_store_inv: "store_inv DEFAULT_POLICIES kept"
proof -
  have "evaluate (mockSession ''owner'') ''settings:write'' DEFAULT_POLICIES" by code_simp
  moreover have "list_all (\<lambda>a. \<not> evaluate (mockSession ''admin'') a DEFAULT_POLICIES) shipped" by code_simp
  ultimately show ?thesis unfolding store_inv_def list_all_iff using valid_default by blast
qed

lemma owner_reconciled:
  assumes "validPolicyStore store"
  shows "evaluate (mockSession ''owner'') a (r_store (reconcileShippedDenies store))
    = evaluate (mockSession ''owner'') a store"
proof -
  have t: "resolveSessionTier (mockSession ''owner'') = ''owner''" by (rule tier_of_mock) (simp add: VALID_TIERS_def)
  have "getp (r_store (reconcileShippedDenies store)) ''owner'' = getp store ''owner''"
    by (rule reconcile_other [OF assms]) simp
  then show ?thesis by (simp add: evaluate_def t getPolicy_def Let_def)
qed

lemma reconciled_store_inv:
  assumes valid: "validPolicyStore store"
    and owner: "evaluate (mockSession ''owner'') ''settings:write'' store"
  shows "store_inv (r_store (reconcileShippedDenies store)) (r_kept (reconcileShippedDenies store))"
proof -
  let ?s = "r_store (reconcileShippedDenies store)"
  have t: "resolveSessionTier (mockSession ''admin'') = ''admin''" by (rule tier_of_mock) (simp add: VALID_TIERS_def)
  have "(''admin'', a) \<in> set (r_kept (reconcileShippedDenies store))"
    if a: "a \<in> set shipped" and ev: "evaluate (mockSession ''admin'') a ?s" for a
  proof -
    have "a \<noteq> []" using a by (auto simp: shipped_def)
    with ev t have pol: "truthy (getPolicy ''admin'' ?s)" "\<not> doc_matches ''Deny'' (getPolicy ''admin'' ?s) a"
      by (simp_all add: evaluate_iff Let_def)
    then have eq: "getPolicy ''admin'' ?s = getp ?s ''admin''" "truthy (getp ?s ''admin'')"
      by (auto simp: getPolicy_def js_or_def split: if_splits)
    have "truthy (getp store ''admin'')"
      using eq(2) missing_truthy [of store] by (cases "missing_denies store = []") (simp_all add: reconcile_eq)
    from reconcile_denies [OF valid this a] pol(2) show ?thesis
      unfolding eq by (auto simp: reconcile_eq [of store])
  qed
  then show ?thesis
    unfolding store_inv_def using reconcile_valid [OF valid] owner owner_reconciled [OF valid] by blast
qed

section \<open>Every reachable state\<close>

lemma current_store_set:
  "is_plain s \<Longrightarrow> current_store (st\<lparr>policies := s, allowedActions := as, notices := ns, saved_file := f\<rparr>) = s"
  by (simp add: current_store_def js_or_def truthy_plain)

lemma valid_plain: "validPolicyStore s \<Longrightarrow> is_plain s"
  by (simp add: validPolicyStore_def)

lemma load_inv: "policy_inv (snd (loadPolicies st))"
proof -
  have def: "policy_inv (st\<lparr>allowedActions := [], notices := emptyNotices, policies := DEFAULT_POLICIES\<rparr>)"
    using default_store_inv valid_plain [OF valid_default]
    by (simp add: policy_inv_def current_store_def js_or_def truthy_plain)
  show ?thesis
  proof (cases "saved_file st")
    case (Parsed raw)
    let ?p = "sanitizePolicyStore raw"
    let ?r = "reconcileShippedDenies ?p"
    show ?thesis
    proof (cases "validPolicyStore ?p \<and> evaluate (mockSession ''owner'') ''settings:write'' (r_store ?r)")
      case True
      then have inv: "store_inv (r_store ?r) (r_kept ?r)" and plain: "is_plain (r_store ?r)"
        using reconciled_store_inv [of ?p] owner_reconciled [of ?p] valid_plain [OF reconcile_valid, of ?p] by auto
      then show ?thesis
        using True Parsed
        by (simp add: loadPolicies_def Let_def policy_inv_def current_store_def js_or_def truthy_plain)
    next
      case False
      then show ?thesis using def Parsed by (auto simp: loadPolicies_def Let_def)
    qed
  qed (use def in \<open>simp_all add: loadPolicies_def Let_def\<close>)
qed

text \<open>The conditions under which a save takes effect.\<close>

definition accepts :: "(string \<Rightarrow> string) \<Rightarrow> policy_state \<Rightarrow> jsval \<Rightarrow> bool \<Rightarrow> bool \<Rightarrow> jsval \<Rightarrow> bool" where
  "accepts sha st docs repo write_ok base =
     (let d = sanitizePolicyStore docs in
      (is_nullish base \<or> base = Str (policyRevision sha st)) \<and> validPolicyStore d
      \<and> evaluate (mockSession ''owner'') ''settings:write'' d
      \<and> deprecatedActions d = [] \<and> unknownActions d = [] \<and> (repo \<longrightarrow> write_ok))"

lemma save_accepted:
  assumes "accepts sha st docs repo write_ok base"
  defines "r \<equiv> reconcileShippedDenies (sanitizePolicyStore docs)"
  shows "snd (setPolicies sha st docs repo write_ok base) =
      st\<lparr>policies := r_store r, allowedActions := [],
         notices := \<lparr>addedDefaultDenies = [], keptExactAllows = r_kept r\<rparr>,
         saved_file := (if repo then Parsed (r_store r) else saved_file st)\<rparr>"
  using assms(1) by (auto simp: setPolicies_def accepts_def r_def Let_def)

lemma save_refused:
  assumes "\<not> accepts sha st docs repo write_ok base"
  shows "snd (setPolicies sha st docs repo write_ok base) = st"
  using assms by (auto simp: setPolicies_def accepts_def Let_def)

lemma save_inv:
  assumes "policy_inv st"
  shows "policy_inv (snd (setPolicies sha st docs repo write_ok base))"
proof (cases "accepts sha st docs repo write_ok base")
  case False
  with assms show ?thesis by (simp add: save_refused)
next
  case True
  let ?d = "sanitizePolicyStore docs"
  have valid: "validPolicyStore ?d" and own: "evaluate (mockSession ''owner'') ''settings:write'' ?d"
    using True by (auto simp: accepts_def Let_def)
  show ?thesis
    using reconciled_store_inv [OF valid own] valid_plain [OF reconcile_valid [OF valid]]
    unfolding save_accepted [OF True] policy_inv_def by (simp add: current_store_set)
qed

lemma resolve_inv:
  assumes "policy_inv st"
  shows "policy_inv (snd (resolveAllowedActions st tier))"
    and "tier \<noteq> [] \<longrightarrow> fst (resolveAllowedActions st tier) = fresh_allowed (current_store st) tier"
  using assms
  by (auto simp: policy_inv_def resolveAllowedActions_def fresh_allowed_def current_store_def om_get_set
      Let_def split: option.splits if_splits)

lemma edit_inv: "policy_inv st \<Longrightarrow> policy_inv (st\<lparr>saved_file := file\<rparr>)"
  by (simp add: policy_inv_def current_store_def)

lemma policy_reachable_inv: "policy_reachable sha st \<Longrightarrow> policy_inv st"
proof (induction rule: policy_reachable.induct)
  case (reach_init f)
  show ?case
    using default_store_inv by (simp add: policy_inv_def initial_state_def current_store_def js_or_def)
next
  case (reach_step st st')
  from reach_step(2,3) show ?case
    by (auto elim!: policy_stepE intro: load_inv save_inv resolve_inv(1) edit_inv)
qed

text \<open>
  No sequence of loads, saves, hand edits of the file and lookups ever leaves a policy in force
  that does not let the owner write settings, so the policy editor can always be opened again.
\<close>

theorem owner_never_locked_out:
  assumes "policy_reachable sha st"
  shows "evaluate (mockSession ''owner'') ''settings:write'' (current_store st)"
  using policy_reachable_inv [OF assms] by (simp add: policy_inv_def store_inv_def)

theorem owner_never_locked_out_witness:
  "evaluate (mockSession ''owner'') ''settings:write''
     (current_store (snd (loadPolicies (initial_state (Parsed (Obj []))))))"
  by (rule owner_never_locked_out [of "\<lambda>s. s"], rule reach_step, rule reach_init, rule step_load)

text \<open>
  C29. In every reachable state the admin tier reaches one of the three whole-host archive actions
  only if its document names that action in an Allow, and then the action is among the notices the
  settings page shows: the access is never silent.
\<close>

theorem system_archives_never_silent:
  assumes "policy_reachable sha st" and "a \<in> set shipped"
    and "evaluate (mockSession ''admin'') a (current_store st)"
  shows "(''admin'', a) \<in> set (keptExactAllows (notices st))"
  using policy_reachable_inv [OF assms(1)] assms(2,3) by (auto simp: policy_inv_def store_inv_def)

definition exact_allow_store :: jsval where
  "exact_allow_store = Obj [(''owner'', default_owner), (''admin'', Obj [(''tier'', Str ''admin''),
     (''statements'', Arr [Obj [(''Effect'', Str ''Allow''), (''Action'', Str ''backups:restore-system'')]])])]"

lemma load_exact_allow:
  "current_store (snd (loadPolicies (initial_state (Parsed exact_allow_store))))
    = r_store (reconcileShippedDenies exact_allow_store)"
proof -
  have facts: "validPolicyStore exact_allow_store" "sanitizePolicyStore exact_allow_store = exact_allow_store"
    "evaluate (mockSession ''owner'') ''settings:write'' (r_store (reconcileShippedDenies exact_allow_store))"
    by code_simp+
  then show ?thesis
    by (simp add: loadPolicies_def initial_state_def Let_def current_store_def js_or_def
        truthy_plain valid_plain [OF reconcile_valid])
qed

theorem system_archives_never_silent_witness:
  "(''admin'', ''backups:restore-system'') \<in>
     set (keptExactAllows (notices (snd (loadPolicies (initial_state (Parsed exact_allow_store))))))"
proof (rule system_archives_never_silent [of "\<lambda>s. s"])
  show "policy_reachable (\<lambda>s. s) (snd (loadPolicies (initial_state (Parsed exact_allow_store))))"
    by (rule reach_step, rule reach_init, rule step_load)
  show "''backups:restore-system'' \<in> set shipped" by (simp add: shipped_def)
  show "evaluate (mockSession ''admin'') ''backups:restore-system''
      (current_store (snd (loadPolicies (initial_state (Parsed exact_allow_store)))))"
    unfolding load_exact_allow by code_simp
qed

text \<open>
  The cached list of a tier's allowed actions is never stale: in every reachable state it is
  what evaluating each known action under the policy in force gives.
\<close>

theorem allowed_actions_current:
  assumes "policy_reachable sha st" and "tier \<noteq> []"
  shows "fst (resolveAllowedActions st tier)
    = filter (\<lambda>a. evaluate (mockSession tier) a (current_store st)) allKnownActions"
  using resolve_inv(2) [OF policy_reachable_inv [OF assms(1)]] assms(2) by (simp add: fresh_allowed_def)

theorem allowed_actions_current_witness:
  "fst (resolveAllowedActions (initial_state Missing) ''owner'')
    = filter (\<lambda>a. evaluate (mockSession ''owner'') a (current_store (initial_state Missing))) allKnownActions"
  by (rule allowed_actions_current [of "\<lambda>s. s", OF reach_init]) simp

section \<open>A save and the next start\<close>

lemma sanitize_no_observer: "\<not> om_has ps ''observer'' \<Longrightarrow> sanitizePolicyStore (Obj ps) = Obj ps"
  by (simp add: sanitizePolicyStore_def)

lemma sanitized_keys: "''observer'' \<notin> set (obj_keys v) \<Longrightarrow> sanitizePolicyStore v = v"
  by (cases v) (simp_all add: sanitizePolicyStore_def om_has_def obj_keys_def)

lemma valid_sanitized: "validPolicyStore v \<Longrightarrow> sanitizePolicyStore v = v"
proof (rule sanitized_keys)
  have "''observer'' \<notin> set VALID_TIERS" by code_simp
  then show "validPolicyStore v \<Longrightarrow> ''observer'' \<notin> set (obj_keys v)"
    unfolding validPolicyStore_def list_all_iff by blast
qed

lemma restart_after_save:
  assumes "accepts sha st docs True write_ok base"
  defines "st' \<equiv> snd (setPolicies sha st docs True write_ok base)"
  shows "current_store (snd (loadPolicies (initial_state (saved_file st')))) = current_store st'"
proof -
  let ?d = "sanitizePolicyStore docs"
  let ?s = "r_store (reconcileShippedDenies ?d)"
  have valid: "validPolicyStore ?d" and own: "evaluate (mockSession ''owner'') ''settings:write'' ?d"
    using assms by (auto simp: accepts_def Let_def)
  have vs: "validPolicyStore ?s" by (rule reconcile_valid [OF valid])
  have fixed: "r_store (reconcileShippedDenies ?s) = ?s"
    using reconcile_fixed [OF valid] by (simp add: reconcile_eq [of ?s])
  have st': "saved_file st' = Parsed ?s" "policies st' = ?s"
    using save_accepted [OF assms(1)] by (simp_all add: st'_def)
  have own': "evaluate (mockSession ''owner'') ''settings:write'' ?s"
    using own owner_reconciled [OF valid] by simp
  have "current_store (snd (loadPolicies (initial_state (Parsed ?s)))) = ?s"
    using vs fixed own' valid_sanitized [OF vs] valid_plain [OF vs]
    by (simp add: loadPolicies_def initial_state_def Let_def current_store_def js_or_def truthy_plain)
  then show ?thesis using st' valid_plain [OF vs] by (simp add: current_store_def js_or_def truthy_plain)
qed

lemma saved_iff_accepts:
  "(\<exists>d c a n v. fst (setPolicies sha st docs repo write_ok base) = Saved d c a n v)
    \<longleftrightarrow> accepts sha st docs repo write_ok base"
  by (auto simp: setPolicies_def accepts_def Let_def)

text \<open>
  A save answered with success survives a restart: a fresh process that loads the file enforces
  exactly the store that was enforced after the save, and reports that very store to the editor. A
  save answered with anything else leaves the module and the file as they were.
\<close>

theorem save_survives_restart:
  "(case setPolicies sha st docs True write_ok base of
      (Saved shown capped added kept revision, st') \<Rightarrow>
        current_store (snd (loadPolicies (initial_state (saved_file st')))) = current_store st'
        \<and> shown = current_store st'
    | (_, st') \<Rightarrow> st' = st)"
proof (cases "accepts sha st docs True write_ok base")
  case True
  obtain d c a n v st' where eq: "setPolicies sha st docs True write_ok base = (Saved d c a n v, st')"
    using True saved_iff_accepts [of sha st docs True write_ok base]
    by (cases "setPolicies sha st docs True write_ok base") auto
  have "d = current_store st'"
    using eq by (auto simp: setPolicies_def Let_def getAllPolicies_def current_store_def split: if_splits)
  with restart_after_save [OF True] eq show ?thesis by simp
next
  case False
  then show ?thesis
    using save_refused [OF False] saved_iff_accepts [of sha st docs True write_ok base]
    by (auto split: prod.splits save_result.splits)
qed

end
