(* ===== verification/Auth.thy ===== *)
theory Auth
  imports PolicyStore
begin

text \<open>
  Browser sessions, \<open>console/api/src/auth.js\<close>: cookies, the session table with its persistence, and
  \<open>requireAuth\<close>. Arguments of the model: \<open>sign\<close> (the HMAC under the session secret), \<open>mac\<close> (the
  HMAC, under the key derived from the admin credential, of the JSON text of a list), the random id
  and token of a new session, the readings of the clock, and whether a write of the session file
  succeeds. Compression of responses and the security headers are not modelled.
\<close>

section \<open>Cookies\<close>

definition is_hex :: "char \<Rightarrow> bool" where
  "is_hex c = (is_lower_hex (lower_char c))"

definition hex_val :: "char \<Rightarrow> nat" where
  "hex_val c = radix_digit c"

text \<open>
  \<open>decodeURIComponent\<close>; \<open>None\<close> is the \<open>URIError\<close>. Escapes of characters beyond code unit 255 have
  no counterpart in the model's strings and count as malformed.
\<close>

fun decodeURIComponent :: "string \<Rightarrow> string option" where
  "decodeURIComponent [] = Some []"
| "decodeURIComponent (c # cs) =
     (if c \<noteq> CHR ''%'' then map_option (Cons c) (decodeURIComponent cs)
      else case cs of
        a # b # r \<Rightarrow>
          (if \<not> is_hex a \<or> \<not> is_hex b then None
           else let v = 16 * hex_val a + hex_val b in
             if v < 128 then map_option (Cons (char_of v)) (decodeURIComponent r)
             else if v = 194 \<or> v = 195 then
               (case r of
                  p # a2 # b2 # r2 \<Rightarrow>
                    (let w = 16 * hex_val a2 + hex_val b2 in
                     if p = CHR ''%'' \<and> is_hex a2 \<and> is_hex b2 \<and> 128 \<le> w \<and> w < 192
                     then map_option (Cons (char_of ((v - 192) * 64 + (w - 128)))) (decodeURIComponent r2)
                     else None)
                | _ \<Rightarrow> None)
             else None)
      | _ \<Rightarrow> None)"

fun parse_cookie_parts :: "string list \<Rightarrow> (string, string) omap \<Rightarrow> (string, string) omap option" where
  "parse_cookie_parts [] cookies = Some cookies"
| "parse_cookie_parts (part # parts) cookies =
     (case index_of CHR ''='' part of
        None \<Rightarrow> parse_cookie_parts parts cookies
      | Some i \<Rightarrow>
          (if i = 0 then parse_cookie_parts parts cookies
           else case decodeURIComponent (js_trim (drop (i + 1) part)) of
               None \<Rightarrow> None
             | Some v \<Rightarrow> parse_cookie_parts parts (om_set (js_trim (take i part)) v cookies)))"

definition parseCookies :: "string \<Rightarrow> (string, string) omap option" where
  "parseCookies header = parse_cookie_parts (split_at (\<lambda>c. c = CHR '';'') header) []"

section \<open>State\<close>

definition SESSION_TTL_MS :: int where "SESSION_TTL_MS = 12 * 60 * 60 * 1000"
definition SESSION_PERSIST_MIN_INTERVAL_MS :: int where "SESSION_PERSIST_MIN_INTERVAL_MS = 30 * 1000"

record session =
  s_id :: string
  s_csrf :: string
  s_expires :: rat
  s_tier :: jsval
  s_user :: jsval
  s_name :: jsval
  s_guild :: jsval
  s_scope :: jsval
  s_renewable :: bool

text \<open>\<open>authDisabled\<close>, \<open>adminPasswordEnvManaged\<close>, \<open>consoleTotpEnabled\<close>, and whether a session file is configured.\<close>

record auth_config =
  auth_disabled :: bool
  env_managed :: bool
  totp_enabled :: bool
  has_store :: bool

text \<open>The session file: \<open>None\<close> when it is missing or unreadable.\<close>

record auth_state =
  sessions :: "(string, session) omap"
  last_persist :: int
  session_file :: "jsval option"

type_synonym mac_fun = "jsval list \<Rightarrow> string"

definition constantTimeStringEqual :: "string \<Rightarrow> string \<Rightarrow> bool" where
  "constantTimeStringEqual a b = (0 < length a \<and> length a = length b \<and> a = b)"

text \<open>The list a session's integrity tag covers, from the fields of an entry.\<close>

definition mac_payload :: "auth_config \<Rightarrow> (string \<Rightarrow> jsval) \<Rightarrow> jsval list" where
  "mac_payload cfg field =
     [field ''id'', field ''csrf'', field ''expiresAt'', js_or (field ''tier'') (Str ''owner''),
      js_or (field ''userId'') (Str []), js_or (field ''username'') (Str []), js_or (field ''guildId'') (Str []),
      Bool (env_managed cfg)]
     @ (if totp_enabled cfg then [Str ''second-factor''] else [])
     @ (if truthy (field ''scope'') \<or> field ''renewable'' = Bool False
        then [js_or (field ''scope'') Null, Bool (field ''renewable'' \<noteq> Bool False)] else [])"

definition sessionMac :: "mac_fun \<Rightarrow> auth_config \<Rightarrow> jsval \<Rightarrow> string" where
  "sessionMac mac cfg entry = mac (mac_payload cfg (getp entry))"

section \<open>Loading and persisting\<close>

definition session_of_entry :: "jsval \<Rightarrow> rat \<Rightarrow> session" where
  "session_of_entry entry expiresAt =
     \<lparr>s_id = to_str (getp entry ''id''), s_csrf = to_str (getp entry ''csrf''), s_expires = expiresAt,
      s_tier = js_or (getp entry ''tier'') (Str ''owner''), s_user = js_or (getp entry ''userId'') (Str []),
      s_name = js_or (getp entry ''username'') (Str []), s_guild = js_or (getp entry ''guildId'') (Str []),
      s_scope = js_or (getp entry ''scope'') Null, s_renewable = (getp entry ''renewable'' \<noteq> Bool False)\<rparr>"

definition load_entry :: "mac_fun \<Rightarrow> auth_config \<Rightarrow> int \<Rightarrow> jsval \<Rightarrow> session option" where
  "load_entry mac cfg currentNow entry =
     (if \<not> truthy entry \<or> \<not> is_str (getp entry ''id'') \<or> \<not> is_str (getp entry ''csrf'') then None
      else case to_num (getp entry ''expiresAt'') of
        Num expiresAt \<Rightarrow>
          (if expiresAt < of_int currentNow then None
           else if \<not> truthy (getp entry ''mac'')
             \<or> \<not> constantTimeStringEqual (sessionMac mac cfg entry) (to_str (getp entry ''mac'')) then None
           else Some (session_of_entry entry expiresAt))
      | _ \<Rightarrow> None)"

definition load_step ::
  "mac_fun \<Rightarrow> auth_config \<Rightarrow> int \<Rightarrow> (string, session) omap \<Rightarrow> jsval \<Rightarrow> (string, session) omap" where
  "load_step mac cfg currentNow tab entry =
     (case load_entry mac cfg currentNow entry of None \<Rightarrow> tab | Some s \<Rightarrow> om_set (s_id s) s tab)"

definition loadPersistedSessions ::
  "mac_fun \<Rightarrow> auth_config \<Rightarrow> int \<Rightarrow> jsval option \<Rightarrow> (string, session) omap" where
  "loadPersistedSessions mac cfg currentNow file =
     (if \<not> has_store cfg then []
      else case file of
        None \<Rightarrow> []
      | Some parsed \<Rightarrow>
          (if getp parsed ''version'' \<noteq> Number (Num 2) then []
           else foldl (load_step mac cfg currentNow) [] (arr_items (getp parsed ''sessions''))))"

definition entry_fields :: "session \<Rightarrow> (string \<times> jsval) list" where
  "entry_fields s = [(''id'', Str (s_id s)), (''csrf'', Str (s_csrf s)), (''expiresAt'', Number (Num (s_expires s))),
     (''tier'', js_or (s_tier s) (Str ''owner'')), (''userId'', js_or (s_user s) (Str [])),
     (''username'', js_or (s_name s) (Str [])), (''guildId'', js_or (s_guild s) (Str [])),
     (''scope'', js_or (s_scope s) Null), (''renewable'', Bool (s_renewable s))]"

text \<open>The session in memory has the same fields, so its tag is taken over them.\<close>

definition session_entry :: "mac_fun \<Rightarrow> auth_config \<Rightarrow> session \<Rightarrow> jsval" where
  "session_entry mac cfg s =
     Obj (entry_fields s @ [(''mac'', Str (sessionMac mac cfg (Obj (entry_fields s))))])"

definition is_live :: "int \<Rightarrow> session \<Rightarrow> bool" where
  "is_live currentNow s = (\<not> s_expires s < of_int currentNow)"

definition persistSessions ::
  "mac_fun \<Rightarrow> auth_config \<Rightarrow> bool \<Rightarrow> int \<Rightarrow> bool \<Rightarrow> auth_state \<Rightarrow> auth_state" where
  "persistSessions mac cfg force currentNow write_done st =
     (if \<not> has_store cfg then st
      else if \<not> force \<and> currentNow - last_persist st < SESSION_PERSIST_MIN_INTERVAL_MS then st
      else let kept = filter (\<lambda>p. is_live currentNow (snd p)) (sessions st);
               st1 = st\<lparr>last_persist := currentNow, sessions := kept\<rparr>
           in if write_done
              then st1\<lparr>session_file := Some (Obj [(''version'', Number (Num 2)),
                     (''sessions'', Arr (map (\<lambda>p. session_entry mac cfg (snd p)) kept))])\<rparr>
              else st1)"

definition createAuth :: "mac_fun \<Rightarrow> auth_config \<Rightarrow> int \<Rightarrow> jsval option \<Rightarrow> auth_state" where
  "createAuth mac cfg currentNow file =
     \<lparr>sessions = loadPersistedSessions mac cfg currentNow file, last_persist = 0, session_file = file\<rparr>"

section \<open>Operations\<close>

record session_args =
  a_tier :: jsval
  a_user :: jsval
  a_name :: jsval
  a_guild :: jsval
  a_scope :: jsval
  a_ttl :: int
  a_renewable :: bool

definition default_session_args :: session_args where
  "default_session_args = \<lparr>a_tier = Str ''owner'', a_user = Str [], a_name = Str [], a_guild = Str [],
     a_scope = Null, a_ttl = SESSION_TTL_MS, a_renewable = True\<rparr>"

definition makeSession ::
  "mac_fun \<Rightarrow> (string \<Rightarrow> string) \<Rightarrow> auth_config \<Rightarrow> session_args \<Rightarrow> string \<Rightarrow> string \<Rightarrow> int \<Rightarrow> bool
   \<Rightarrow> auth_state \<Rightarrow> (session \<times> string) \<times> auth_state" where
  "makeSession mac sign cfg args i token tm write_done st =
     (let s = \<lparr>s_id = i, s_csrf = token, s_expires = of_int (tm + a_ttl args), s_tier = a_tier args,
               s_user = a_user args, s_name = a_name args, s_guild = a_guild args, s_scope = a_scope args,
               s_renewable = a_renewable args\<rparr>;
          st1 = persistSessions mac cfg True tm write_done (st\<lparr>sessions := om_set i s (sessions st)\<rparr>)
      in ((s, i @ ''.'' @ sign i), st1))"

definition dev_session :: session where
  "dev_session = \<lparr>s_id = ''dev'', s_csrf = ''dev'', s_expires = 9007199254740991, s_tier = Str ''owner'',
     s_user = Undef, s_name = Undef, s_guild = Undef, s_scope = Null, s_renewable = True\<rparr>"

text \<open>The id a cookie header names, when its signature is right; \<open>None\<close> within is a missing or bad cookie.\<close>

definition cookie_id :: "(string \<Rightarrow> string) \<Rightarrow> string \<Rightarrow> string option option" where
  "cookie_id sign header = (case parseCookies header of
     None \<Rightarrow> None
   | Some cookies \<Rightarrow> Some (case om_get cookies ''asc_session'' of
       None \<Rightarrow> None
     | Some raw \<Rightarrow>
         (if raw = [] then None
          else case split_at (\<lambda>c. c = CHR ''.'') raw of
            i # sig # rest \<Rightarrow>
              (if i = [] \<or> sig = [] \<or> \<not> constantTimeStringEqual (sign i) sig then None else Some i)
          | _ \<Rightarrow> None)))"

text \<open>\<open>readSession\<close>; \<open>None\<close> is the exception of a malformed cookie header.\<close>

definition readSession ::
  "mac_fun \<Rightarrow> (string \<Rightarrow> string) \<Rightarrow> auth_config \<Rightarrow> string \<Rightarrow> int \<Rightarrow> bool \<Rightarrow> auth_state
   \<Rightarrow> (session option \<times> auth_state) option" where
  "readSession mac sign cfg header tm write_done st =
     (if auth_disabled cfg then Some (Some dev_session, st)
      else case cookie_id sign header of
        None \<Rightarrow> None
      | Some None \<Rightarrow> Some (None, st)
      | Some (Some i) \<Rightarrow> Some
          (case om_get (sessions st) i of
             None \<Rightarrow> (None, st)
           | Some s \<Rightarrow>
               (if \<not> is_live tm s
                then (None, persistSessions mac cfg True tm write_done (st\<lparr>sessions := om_delete i (sessions st)\<rparr>))
                else if s_renewable s
                then (let s' = s\<lparr>s_expires := of_int (tm + SESSION_TTL_MS)\<rparr>
                      in (Some s', persistSessions mac cfg False tm write_done
                                     (st\<lparr>sessions := om_set i s' (sessions st)\<rparr>)))
                else (Some s, st))))"

definition invalidateSession ::
  "mac_fun \<Rightarrow> auth_config \<Rightarrow> string \<Rightarrow> int \<Rightarrow> bool \<Rightarrow> auth_state \<Rightarrow> bool \<times> auth_state" where
  "invalidateSession mac cfg i tm write_done st =
     (if om_has (sessions st) i
      then (True, persistSessions mac cfg True tm write_done (st\<lparr>sessions := om_delete i (sessions st)\<rparr>))
      else (False, st))"

definition revokeSession ::
  "mac_fun \<Rightarrow> (string \<Rightarrow> string) \<Rightarrow> auth_config \<Rightarrow> string \<Rightarrow> int \<Rightarrow> bool \<Rightarrow> auth_state \<Rightarrow> auth_state option" where
  "revokeSession mac sign cfg header tm write_done st =
     (case cookie_id sign header of
        None \<Rightarrow> None
      | Some None \<Rightarrow> Some st
      | Some (Some i) \<Rightarrow> Some (snd (invalidateSession mac cfg i tm write_done st)))"

text \<open>Every other session without a user id is of the password tier.\<close>

definition invalidatePasswordSessions ::
  "mac_fun \<Rightarrow> auth_config \<Rightarrow> string \<Rightarrow> int \<Rightarrow> bool \<Rightarrow> auth_state \<Rightarrow> nat \<times> auth_state" where
  "invalidatePasswordSessions mac cfg exceptId tm write_done st =
     (let spared = \<lambda>p. fst p = exceptId \<or> truthy (s_user (snd p));
          count = length (filter (\<lambda>p. \<not> spared p) (sessions st));
          st1 = st\<lparr>sessions := filter spared (sessions st)\<rparr>
      in (count, if 0 < count then persistSessions mac cfg True tm write_done st1 else st1))"

definition peekSession ::
  "(string \<Rightarrow> string) \<Rightarrow> auth_config \<Rightarrow> string \<Rightarrow> int \<Rightarrow> auth_state \<Rightarrow> session option option" where
  "peekSession sign cfg header tm st =
     (if auth_disabled cfg then Some (Some dev_session)
      else case cookie_id sign header of
        None \<Rightarrow> None
      | Some None \<Rightarrow> Some None
      | Some (Some i) \<Rightarrow> Some (case om_get (sessions st) i of
            None \<Rightarrow> None | Some s \<Rightarrow> if is_live tm s then Some s else None))"

text \<open>\<open>csrf\<close> is the \<open>x-csrf-token\<close> header, \<open>None\<close> when absent; the answer of a refusal is its status.\<close>

definition requireAuth ::
  "mac_fun \<Rightarrow> (string \<Rightarrow> string) \<Rightarrow> auth_config \<Rightarrow> string \<Rightarrow> string \<Rightarrow> string option \<Rightarrow> int \<Rightarrow> bool \<Rightarrow> auth_state
   \<Rightarrow> ((nat + session) \<times> auth_state) option" where
  "requireAuth mac sign cfg header meth csrf tm write_done st =
     (case readSession mac sign cfg header tm write_done st of
        None \<Rightarrow> None
      | Some (None, st') \<Rightarrow> Some (Inl 401, st')
      | Some (Some s, st') \<Rightarrow>
          (if meth \<notin> {''GET'', ''HEAD'', ''OPTIONS''}
              \<and> \<not> auth_disabled cfg \<and> csrf \<noteq> Some (s_csrf s)
           then Some (Inl 403, st')
           else Some (Inr s, st')))"

section \<open>Runs\<close>

datatype auth_op =
    OpMake session_args string string int bool
  | OpRead string int bool
  | OpInvalidate string int bool
  | OpRevokeCookie string int bool
  | OpRotate string int bool

fun run_auth :: "mac_fun \<Rightarrow> (string \<Rightarrow> string) \<Rightarrow> auth_config \<Rightarrow> auth_op \<Rightarrow> auth_state \<Rightarrow> auth_state" where
  "run_auth mac sign cfg (OpMake args i token tm w) st = snd (makeSession mac sign cfg args i token tm w st)"
| "run_auth mac sign cfg (OpRead header tm w) st =
     (case readSession mac sign cfg header tm w st of None \<Rightarrow> st | Some (_, st') \<Rightarrow> st')"
| "run_auth mac sign cfg (OpInvalidate i tm w) st = snd (invalidateSession mac cfg i tm w st)"
| "run_auth mac sign cfg (OpRevokeCookie header tm w) st =
     (case revokeSession mac sign cfg header tm w st of None \<Rightarrow> st | Some st' \<Rightarrow> st')"
| "run_auth mac sign cfg (OpRotate i tm w) st = snd (invalidatePasswordSessions mac cfg i tm w st)"

definition run_auths ::
  "mac_fun \<Rightarrow> (string \<Rightarrow> string) \<Rightarrow> auth_config \<Rightarrow> auth_op list \<Rightarrow> auth_state \<Rightarrow> auth_state" where
  "run_auths mac sign cfg ops st = foldl (\<lambda>st op. run_auth mac sign cfg op st) st ops"

text \<open>The id an operation issues.\<close>

fun issued_id :: "auth_op \<Rightarrow> string option" where
  "issued_id (OpMake args i token tm w) = Some i"
| "issued_id _ = None"

lemma om_get_filter_value:
  "om_inv m \<Longrightarrow> om_get (filter (\<lambda>p. P (snd p)) m) k
     = (case om_get m k of None \<Rightarrow> None | Some v \<Rightarrow> if P v then Some v else None)"
proof (induction m)
  case (Cons p m)
  then show ?case
    by (cases p) (auto simp: om_inv_def om_get_def map_of_eq_None_iff split: option.splits)
qed simp

lemma om_inv_filter: "om_inv m \<Longrightarrow> om_inv (filter P m)"
  by (simp add: om_inv_def distinct_map_filter)

lemma om_get_filter: "om_inv m \<Longrightarrow> om_get (filter P m) k
     = (case om_get m k of None \<Rightarrow> None | Some v \<Rightarrow> if P (k, v) then Some v else None)"
proof (induction m)
  case (Cons p m)
  then show ?case
    by (cases p) (auto simp: om_inv_def om_get_def map_of_eq_None_iff split: option.splits)
qed simp

lemma persist_sessions:
  "sessions (persistSessions mac cfg force tm w st) = sessions st
   \<or> sessions (persistSessions mac cfg force tm w st) = filter (\<lambda>p. is_live tm (snd p)) (sessions st)"
  by (simp add: persistSessions_def Let_def)

lemma persist_inv: "om_inv (sessions st) \<Longrightarrow> om_inv (sessions (persistSessions mac cfg force tm w st))"
  using persist_sessions [of mac cfg force tm w st] by (auto simp: om_inv_filter)

lemma persist_get:
  "om_inv (sessions st) \<Longrightarrow> om_get (sessions (persistSessions mac cfg force tm w st)) i = Some s
    \<Longrightarrow> om_get (sessions st) i = Some s"
  using persist_sessions [of mac cfg force tm w st]
  by (auto simp: om_get_filter_value split: option.splits if_splits)

text \<open>
  What one operation does to the entry of an id it does not issue: it disappears, stays, or, when it
  is renewable, gets a new expiry.
\<close>

definition renewed :: "session \<Rightarrow> session \<Rightarrow> bool" where
  "renewed s s' = (s' = s \<or> s_renewable s \<and> (\<exists>e. s' = s\<lparr>s_expires := e\<rparr>))"

lemma run_auth_step:
  assumes "om_inv (sessions st)"
  shows "om_inv (sessions (run_auth mac sign cfg op st))
    \<and> (issued_id op \<noteq> Some i \<longrightarrow> om_get (sessions (run_auth mac sign cfg op st)) i = Some s' \<longrightarrow>
        (\<exists>s. om_get (sessions st) i = Some s \<and> renewed s s'))"
proof (cases op)
  case (OpMake args j token tm w)
  then show ?thesis
    using assms persist_get [of "st\<lparr>sessions := om_set j _ (sessions st)\<rparr>" mac cfg True tm w i]
    by (auto simp: makeSession_def Let_def om_inv_set om_get_set renewed_def intro!: persist_inv)
next
  case (OpRead header tm w)
  show ?thesis
  proof (cases "auth_disabled cfg \<or> (\<forall>j. cookie_id sign header \<noteq> Some (Some j))")
    case True
    then show ?thesis
      using assms by (auto simp: OpRead readSession_def renewed_def split: option.splits)
  next
    case False
    then obtain j where j: "cookie_id sign header = Some (Some j)" and on: "\<not> auth_disabled cfg" by auto
    show ?thesis
    proof (cases "om_get (sessions st) j")
      case None
      then show ?thesis using assms j on by (auto simp: OpRead readSession_def renewed_def)
    next
      case (Some s)
      let ?s = "s\<lparr>s_expires := of_int (tm + SESSION_TTL_MS)\<rparr>"
      have del: "om_get (sessions (persistSessions mac cfg True tm w (st\<lparr>sessions := om_delete j (sessions st)\<rparr>))) i = Some s'
          \<Longrightarrow> om_get (om_delete j (sessions st)) i = Some s'"
        using persist_get [of "st\<lparr>sessions := om_delete j (sessions st)\<rparr>"] assms by (simp add: om_inv_delete)
      have ren: "om_get (sessions (persistSessions mac cfg False tm w (st\<lparr>sessions := om_set j ?s (sessions st)\<rparr>))) i = Some s'
          \<Longrightarrow> om_get (om_set j ?s (sessions st)) i = Some s'"
        using persist_get [of "st\<lparr>sessions := om_set j ?s (sessions st)\<rparr>"] assms by (simp add: om_inv_set)
      show ?thesis
        using Some j on assms del ren
        by (auto simp: OpRead readSession_def Let_def renewed_def om_get_set om_get_delete om_inv_set om_inv_delete
            intro!: persist_inv split: if_splits)
    qed
  qed
next
  case (OpInvalidate j tm w)
  have "om_get (sessions (persistSessions mac cfg True tm w (st\<lparr>sessions := om_delete j (sessions st)\<rparr>))) i = Some s'
      \<Longrightarrow> om_get (om_delete j (sessions st)) i = Some s'"
    using persist_get [of "st\<lparr>sessions := om_delete j (sessions st)\<rparr>"] assms by (simp add: om_inv_delete)
  then show ?thesis
    using assms by (auto simp: OpInvalidate invalidateSession_def renewed_def om_get_delete om_inv_delete
        intro!: persist_inv split: if_splits)
next
  case (OpRevokeCookie header tm w)
  have del: "om_get (sessions (persistSessions mac cfg True tm w (st\<lparr>sessions := om_delete j (sessions st)\<rparr>))) i = Some s'
      \<Longrightarrow> om_get (sessions st) i = Some s'" for j
    using persist_get [of "st\<lparr>sessions := om_delete j (sessions st)\<rparr>" mac cfg True tm w i s'] assms
    by (auto simp: om_inv_delete om_get_delete split: if_splits)
  show ?thesis
    using assms del
    by (auto simp: OpRevokeCookie revokeSession_def invalidateSession_def renewed_def om_get_delete om_inv_delete
        intro!: persist_inv split: if_splits option.splits)
next
  case (OpRotate j tm w)
  let ?m = "filter (\<lambda>p. fst p = j \<or> truthy (s_user (snd p))) (sessions st)"
  have "om_get (sessions (persistSessions mac cfg True tm w (st\<lparr>sessions := ?m\<rparr>))) i = Some s' \<Longrightarrow> om_get ?m i = Some s'"
    using persist_get [of "st\<lparr>sessions := ?m\<rparr>"] assms by (simp add: om_inv_filter)
  then show ?thesis
    using assms by (auto simp: OpRotate invalidatePasswordSessions_def Let_def renewed_def om_get_filter om_inv_filter
        intro!: persist_inv split: if_splits option.splits)
qed

lemma run_auths_step:
  assumes "om_inv (sessions st)" and "\<forall>op \<in> set ops. issued_id op \<noteq> Some i"
    and "om_get (sessions (run_auths mac sign cfg ops st)) i = Some s'"
  shows "\<exists>s. om_get (sessions st) i = Some s \<and> renewed s s'"
  using assms
proof (induction ops arbitrary: st)
  case Nil
  then show ?case by (auto simp: run_auths_def renewed_def)
next
  case (Cons op ops)
  let ?st = "run_auth mac sign cfg op st"
  have step: "om_inv (sessions ?st)" "\<And>s'. om_get (sessions ?st) i = Some s' \<Longrightarrow>
      \<exists>s. om_get (sessions st) i = Some s \<and> renewed s s'"
    using run_auth_step [OF Cons.prems(1), of mac sign cfg op i] Cons.prems(2) by auto
  obtain s1 where s1: "om_get (sessions ?st) i = Some s1" "renewed s1 s'"
    using Cons.IH [of ?st] step(1) Cons.prems(2,3) by (auto simp: run_auths_def)
  then obtain s where "om_get (sessions st) i = Some s" "renewed s s1" using step(2) by blast
  moreover have "renewed s s1 \<Longrightarrow> renewed s1 s' \<Longrightarrow> renewed s s'" for s s1
    by (auto simp: renewed_def)
  ultimately show ?case using s1(2) by blast
qed

lemma run_auths_inv: "om_inv (sessions st) \<Longrightarrow> om_inv (sessions (run_auths mac sign cfg ops st))"
  unfolding run_auths_def
  by (induction ops arbitrary: st) (use run_auth_step in auto)

lemma make_entry:
  assumes "makeSession mac sign cfg args i token tm w st = ((s, cookie), st1)" and "om_inv (sessions st)"
  shows "om_inv (sessions st1) \<and> s_expires s = of_int (tm + a_ttl args) \<and> s_renewable s = a_renewable args
    \<and> s_scope s = a_scope args \<and> s_tier s = a_tier args
    \<and> (\<forall>s'. om_get (sessions st1) i = Some s' \<longrightarrow> s' = s)"
proof -
  let ?s = "\<lparr>s_id = i, s_csrf = token, s_expires = of_int (tm + a_ttl args), s_tier = a_tier args,
       s_user = a_user args, s_name = a_name args, s_guild = a_guild args, s_scope = a_scope args,
       s_renewable = a_renewable args\<rparr>"
  have eq: "s = ?s" "st1 = persistSessions mac cfg True tm w (st\<lparr>sessions := om_set i ?s (sessions st)\<rparr>)"
    using assms(1) by (auto simp: makeSession_def Let_def)
  have inv: "om_inv (sessions (st\<lparr>sessions := om_set i ?s (sessions st)\<rparr>))" using assms(2) by (simp add: om_inv_set)
  show ?thesis
    using persist_get [OF inv, of mac cfg True tm w i] persist_inv [OF inv, of mac cfg True tm w]
    by (auto simp: eq om_get_set)
qed

section \<open>Accepting a request\<close>

lemma read_session_some:
  assumes "readSession mac sign cfg header tm w st = Some (Some s, st')"
  shows "auth_disabled cfg \<and> s = dev_session
    \<or> (\<exists>i s0. cookie_id sign header = Some (Some i) \<and> om_get (sessions st) i = Some s0 \<and> is_live tm s0 \<and> renewed s0 s)"
proof (cases "auth_disabled cfg")
  case True
  then show ?thesis using assms by (simp add: readSession_def)
next
  case False
  then obtain i where i: "cookie_id sign header = Some (Some i)"
    using assms by (cases "cookie_id sign header") (auto simp: readSession_def split: option.splits)
  then obtain s0 where "om_get (sessions st) i = Some s0"
    using assms False by (cases "om_get (sessions st) i") (simp_all add: readSession_def)
  with assms False i show ?thesis
    by (auto simp: readSession_def renewed_def Let_def split: if_splits)
qed

text \<open>
  With authentication on, a request gets past \<open>requireAuth\<close> only with a cookie that carries the
  console's own signature over the id of a session that is in the table and not expired; and a
  request that is no \<open>GET\<close>, \<open>HEAD\<close> or \<open>OPTIONS\<close> only with the token of that very session in its
  header.
\<close>

theorem require_auth_accepts:
  assumes "requireAuth mac sign cfg header meth csrf tm w st = Some (Inr s, st')" and "\<not> auth_disabled cfg"
  shows "\<exists>i s0. cookie_id sign header = Some (Some i) \<and> om_get (sessions st) i = Some s0
    \<and> of_int tm \<le> s_expires s0 \<and> s_csrf s = s_csrf s0 \<and> s_tier s = s_tier s0 \<and> s_scope s = s_scope s0
    \<and> (meth \<in> {''GET'', ''HEAD'', ''OPTIONS''} \<or> csrf = Some (s_csrf s0))"
proof -
  have r: "readSession mac sign cfg header tm w st = Some (Some s, st')"
    and c: "meth \<in> {''GET'', ''HEAD'', ''OPTIONS''} \<or> csrf = Some (s_csrf s)"
    using assms by (auto simp: requireAuth_def split: option.splits prod.splits if_splits)
  from read_session_some [OF r] assms(2) c show ?thesis
    by (fastforce simp: renewed_def is_live_def)
qed

text \<open>
  C18. A setup session cannot be stretched. Whatever requests follow, with any interleaving of reads,
  renewals, other sign-ins, revocations and rotations, a session made not renewable is refused once
  its lifetime is over.
\<close>

theorem fixed_session_expires:
  assumes "makeSession mac sign cfg args i token tm w st = ((s, cookie), st1)" and "\<not> a_renewable args"
    and "om_inv (sessions st)" and "\<forall>op \<in> set ops. issued_id op \<noteq> Some i"
    and "\<not> auth_disabled cfg" and "cookie_id sign header = Some (Some i)" and "tm + a_ttl args < now_ms"
  shows "\<exists>st2. requireAuth mac sign cfg header meth csrf now_ms w2 (run_auths mac sign cfg ops st1) = Some (Inl 401, st2)"
proof -
  let ?st = "run_auths mac sign cfg ops st1"
  note made = make_entry [OF assms(1,3)]
  have "\<not> is_live now_ms s'" if e: "om_get (sessions ?st) i = Some s'" for s'
  proof -
    obtain s0 where "om_get (sessions st1) i = Some s0" "renewed s0 s'"
      using run_auths_step [OF _ assms(4) e] made by blast
    then have "s' = s" using made assms(2) by (auto simp: renewed_def)
    moreover have "s_expires s < of_int now_ms" using made assms(7) by (simp only: of_int_less_iff)
    ultimately show ?thesis by (simp add: is_live_def)
  qed
  then show ?thesis
    using assms(5,6) by (cases "om_get (sessions ?st) i") (auto simp: requireAuth_def readSession_def)
qed

section \<open>Restarts\<close>

text \<open>A session as the console issues it: no field that is falsy but not its default.\<close>

definition plain_session :: "session \<Rightarrow> bool" where
  "plain_session s = (truthy (s_tier s) \<and> js_or (s_user s) (Str []) = s_user s
     \<and> js_or (s_name s) (Str []) = s_name s \<and> js_or (s_guild s) (Str []) = s_guild s
     \<and> js_or (s_scope s) Null = s_scope s)"

definition auth_inv :: "auth_state \<Rightarrow> bool" where
  "auth_inv st = (om_inv (sessions st) \<and> (\<forall>p \<in> set (sessions st). s_id (snd p) = fst p \<and> plain_session (snd p)))"

lemma getp_append_other: "k \<noteq> k' \<Longrightarrow> getp (Obj (ps @ [(k', v)])) k = getp (Obj ps) k"
  by (simp add: map_add_def split: option.splits)

lemma entry_get:
  "getp (session_entry mac cfg s) ''id'' = Str (s_id s)"
  "getp (session_entry mac cfg s) ''csrf'' = Str (s_csrf s)"
  "getp (session_entry mac cfg s) ''expiresAt'' = Number (Num (s_expires s))"
  "getp (session_entry mac cfg s) ''tier'' = js_or (s_tier s) (Str ''owner'')"
  "getp (session_entry mac cfg s) ''userId'' = js_or (s_user s) (Str [])"
  "getp (session_entry mac cfg s) ''username'' = js_or (s_name s) (Str [])"
  "getp (session_entry mac cfg s) ''guildId'' = js_or (s_guild s) (Str [])"
  "getp (session_entry mac cfg s) ''scope'' = js_or (s_scope s) Null"
  "getp (session_entry mac cfg s) ''renewable'' = Bool (s_renewable s)"
  "getp (session_entry mac cfg s) ''mac'' = Str (sessionMac mac cfg (Obj (entry_fields s)))"
  by (simp_all add: session_entry_def entry_fields_def)

lemma entry_payload: "mac_payload cfg' (getp (session_entry mac cfg s)) = mac_payload cfg' (getp (Obj (entry_fields s)))"
proof -
  have "getp (session_entry mac cfg s) k = getp (Obj (entry_fields s)) k" if "k \<noteq> ''mac''" for k
    unfolding session_entry_def using that by (rule getp_append_other)
  then show ?thesis by (simp add: mac_payload_def)
qed

lemma payload_length:
  "length (mac_payload cfg f) = 8 + (if totp_enabled cfg then 1 else 0)
     + (if truthy (f ''scope'') \<or> f ''renewable'' = Bool False then 2 else 0)"
  by (simp add: mac_payload_def)

lemma truthy_entry [simp]: "truthy (session_entry mac cfg s)"
  by (simp add: session_entry_def)

lemma load_own_entry:
  assumes "plain_session s" and "is_live tm s" and "\<forall>p. mac p \<noteq> []"
  shows "load_entry mac cfg tm (session_entry mac cfg s) = Some s"
proof -
  have m: "sessionMac mac cfg (session_entry mac cfg s) = sessionMac mac cfg (Obj (entry_fields s))"
    unfolding sessionMac_def entry_payload ..
  have "0 < length (sessionMac mac cfg (Obj (entry_fields s)))"
    using assms(3) unfolding sessionMac_def by blast
  then have c: "constantTimeStringEqual (sessionMac mac cfg (Obj (entry_fields s))) (sessionMac mac cfg (Obj (entry_fields s)))"
    by (simp add: constantTimeStringEqual_def)
  have s: "session_of_entry (session_entry mac cfg s) (s_expires s) = s"
    using assms(1) by (simp add: session_of_entry_def entry_get plain_session_def js_or_def)
  show ?thesis
    using assms(2) c s by (auto simp: load_entry_def entry_get m is_live_def constantTimeStringEqual_def)
qed

lemma load_expired_entry: "\<not> is_live tm s \<Longrightarrow> load_entry mac cfg tm (session_entry mac cfg s) = None"
  by (simp add: load_entry_def entry_get is_live_def)

lemma om_set_new: "k \<notin> set (om_keys m) \<Longrightarrow> om_set k v m = m @ [(k, v)]"
  by (induction m) auto

lemma load_all:
  assumes "om_inv (acc @ ps)" and "\<forall>p \<in> set ps. s_id (snd p) = fst p \<and> plain_session (snd p)" and "\<forall>p. mac p \<noteq> []"
  shows "foldl (load_step mac cfg tm) acc (map (\<lambda>p. session_entry mac cfg (snd p)) ps)
    = acc @ filter (\<lambda>p. is_live tm (snd p)) ps"
  using assms(1,2)
proof (induction ps arbitrary: acc)
  case (Cons p ps)
  obtain i s where p: "p = (i, s)" by (cases p)
  then have i: "s_id s = i" "plain_session s" using Cons.prems(2) by auto
  have new: "i \<notin> set (om_keys acc)" using Cons.prems(1) by (auto simp: p om_inv_def)
  show ?case
  proof (cases "is_live tm s")
    case True
    have "om_inv ((acc @ [(i, s)]) @ ps)" using Cons.prems(1) by (simp add: p)
    from Cons.IH [OF this] Cons.prems(2) show ?thesis
      using True load_own_entry [OF i(2) True assms(3), of cfg] om_set_new [OF new]
      by (simp add: p load_step_def i(1))
  next
    case False
    have "om_inv (acc @ ps)" using Cons.prems(1) by (auto simp: p om_inv_def)
    from Cons.IH [OF this] Cons.prems(2) show ?thesis
      using False by (simp add: p load_step_def load_expired_entry)
  qed
qed simp

section \<open>Every reachable table is of that shape\<close>

definition plain_args :: "session_args \<Rightarrow> bool" where
  "plain_args args = (truthy (a_tier args) \<and> js_or (a_user args) (Str []) = a_user args
     \<and> js_or (a_name args) (Str []) = a_name args \<and> js_or (a_guild args) (Str []) = a_guild args
     \<and> js_or (a_scope args) Null = a_scope args)"

fun plain_op :: "auth_op \<Rightarrow> bool" where
  "plain_op (OpMake args i token tm w) = plain_args args"
| "plain_op _ = True"

inductive auth_reachable :: "mac_fun \<Rightarrow> (string \<Rightarrow> string) \<Rightarrow> auth_config \<Rightarrow> auth_state \<Rightarrow> bool" for mac sign cfg where
  auth_start: "auth_reachable mac sign cfg (createAuth mac cfg tm file)"
| auth_step: "auth_reachable mac sign cfg st \<Longrightarrow> plain_op op \<Longrightarrow> auth_reachable mac sign cfg (run_auth mac sign cfg op st)"

lemma js_or_idem [simp]: "js_or (js_or a b) b = js_or a b"
  by (simp add: js_or_def)

definition table_ok :: "(string, session) omap \<Rightarrow> bool" where
  "table_ok m = (om_inv m \<and> (\<forall>p \<in> set m. s_id (snd p) = fst p \<and> plain_session (snd p)))"

lemma auth_inv_table: "auth_inv st = table_ok (sessions st)"
  by (simp add: auth_inv_def table_ok_def)

lemma table_filter: "table_ok m \<Longrightarrow> table_ok (filter P m)"
  by (simp add: table_ok_def om_inv_filter)

lemma table_delete: "table_ok m \<Longrightarrow> table_ok (om_delete i m)"
  by (simp add: table_ok_def om_inv_delete) (simp add: om_delete_def)

lemma table_set: "table_ok m \<Longrightarrow> s_id s = i \<Longrightarrow> plain_session s \<Longrightarrow> table_ok (om_set i s m)"
  by (auto simp: table_ok_def om_inv_set dest!: om_set_values)

lemma table_get: "table_ok m \<Longrightarrow> om_get m i = Some s \<Longrightarrow> s_id s = i \<and> plain_session s"
  using om_get_in_set [of m i s] by (auto simp: table_ok_def)

lemma table_persist: "table_ok (sessions st) \<Longrightarrow> table_ok (sessions (persistSessions mac cfg force tm w st))"
  using persist_sessions [of mac cfg force tm w st] by (auto simp: table_filter)

lemma table_renew: "table_ok m \<Longrightarrow> om_get m i = Some s \<Longrightarrow> table_ok (om_set i (s\<lparr>s_expires := e\<rparr>) m)"
  using table_get [of m i s] by (intro table_set) (simp_all add: plain_session_def)

lemma js_or_truthy: "truthy b \<Longrightarrow> truthy (js_or a b)"
  by (simp add: js_or_def)

lemma loaded_plain: "plain_session (session_of_entry e x)"
  unfolding plain_session_def session_of_entry_def session.simps js_or_idem
  by (simp add: js_or_truthy)

lemma load_step_table: "table_ok acc \<Longrightarrow> table_ok (load_step mac cfg tm acc e)"
proof (cases "load_entry mac cfg tm e")
  case (Some s)
  then obtain x where "s = session_of_entry e x"
    by (auto simp: load_entry_def split: jsnum.splits if_splits)
  then show "table_ok acc \<Longrightarrow> table_ok (load_step mac cfg tm acc e)"
    using Some loaded_plain by (simp add: load_step_def table_set)
qed (simp add: load_step_def)

lemma load_table: "table_ok acc \<Longrightarrow> table_ok (foldl (load_step mac cfg tm) acc es)"
  by (induction es arbitrary: acc) (simp_all add: load_step_table)

lemma auth_step_inv: "auth_inv st \<Longrightarrow> plain_op op \<Longrightarrow> auth_inv (run_auth mac sign cfg op st)"
  unfolding auth_inv_table
  by (cases op)
    (auto simp: makeSession_def readSession_def invalidateSession_def revokeSession_def
      invalidatePasswordSessions_def Let_def table_filter table_delete
      intro!: table_persist table_renew table_set
      simp: plain_args_def plain_session_def split: option.splits)

lemma auth_reachable_inv: "auth_reachable mac sign cfg st \<Longrightarrow> auth_inv st"
proof (induction rule: auth_reachable.induct)
  case (auth_start tm f)
  have "table_ok []" by (simp add: table_ok_def)
  then show ?case
    by (simp add: auth_inv_table createAuth_def loadPersistedSessions_def load_table split: option.splits)
qed (rule auth_step_inv)

text \<open>
  Sessions survive a restart exactly: after a write of the session file, a process that starts at
  any later time with the same configuration has the sessions of the old one that are not yet
  expired, each with its restrictions, and no other.
\<close>

theorem sessions_survive_restart:
  assumes "auth_reachable mac sign cfg st" and "has_store cfg" and "\<forall>p. mac p \<noteq> []"
  shows "sessions (createAuth mac cfg later (session_file (persistSessions mac cfg True tm True st)))
    = filter (\<lambda>p. is_live later (snd p)) (filter (\<lambda>p. is_live tm (snd p)) (sessions st))"
proof -
  let ?kept = "filter (\<lambda>p. is_live tm (snd p)) (sessions st)"
  have inv: "om_inv ([] @ ?kept)" and own: "\<forall>p \<in> set ?kept. s_id (snd p) = fst p \<and> plain_session (snd p)"
    using auth_reachable_inv [OF assms(1)] by (simp_all add: auth_inv_def om_inv_filter)
  have "foldl (load_step mac cfg later) [] (map (\<lambda>p. session_entry mac cfg (snd p)) ?kept)
      = filter (\<lambda>p. is_live later (snd p)) ?kept"
    using load_all [OF inv own assms(3), of cfg later] by (simp only: append_Nil)
  then show ?thesis
    using assms(2) by (simp add: createAuth_def loadPersistedSessions_def persistSessions_def Let_def arr_items_def)
qed

text \<open>
  Turning the second factor on (or off) ends every stored session at the restart: provided the
  integrity tags of lists of different lengths differ, no entry written under the other setting is taken over, so a
  session signed in with the password alone does not outlive the switch.
\<close>

theorem second_factor_switch_ends_sessions:
  assumes "\<forall>p q. mac p = mac q \<longrightarrow> length p = length q" and "totp_enabled cfg' \<noteq> totp_enabled cfg" and "has_store cfg"
  shows "sessions (createAuth mac cfg' later (session_file (persistSessions mac cfg True tm True st))) = []"
proof -
  have "load_entry mac cfg' later (session_entry mac cfg s) = None" for s
  proof -
    have "length (mac_payload cfg' (getp (Obj (entry_fields s)))) \<noteq> length (mac_payload cfg (getp (Obj (entry_fields s))))"
      using payload_length [of cfg' "getp (Obj (entry_fields s))"] payload_length [of cfg "getp (Obj (entry_fields s))"]
        assms(2) by (auto split: if_splits)
    then have "sessionMac mac cfg' (session_entry mac cfg s) \<noteq> sessionMac mac cfg (Obj (entry_fields s))"
      unfolding sessionMac_def entry_payload using assms(1) by blast
    then show ?thesis by (simp add: load_entry_def entry_get constantTimeStringEqual_def)
  qed
  then have "foldl (load_step mac cfg' later) [] (map (\<lambda>p. session_entry mac cfg (snd p)) ps) = []"
    for ps :: "(string \<times> session) list"
    by (induction ps) (simp_all add: load_step_def)
  then show ?thesis
    using assms(3)
    by (simp add: createAuth_def loadPersistedSessions_def persistSessions_def Let_def arr_items_def)
qed

section \<open>Examples\<close>

definition cfg_example :: auth_config where
  "cfg_example = \<lparr>auth_disabled = False, env_managed = False, totp_enabled = True, has_store = True\<rparr>"

definition mac_example :: mac_fun where
  "mac_example p = replicate (length p + 1) CHR ''m''"

definition setup_args :: session_args where
  "setup_args = default_session_args\<lparr>a_tier := Str ''enroll'', a_scope := Str ''enroll'', a_ttl := 600000, a_renewable := False\<rparr>"

definition auth_example :: auth_state where
  "auth_example = run_auth mac_example (\<lambda>s. ''sig'') cfg_example (OpMake setup_args ''a'' ''tok'' 1000 True)
     (createAuth mac_example cfg_example 0 None)"

lemma auth_example_reachable: "auth_reachable mac_example (\<lambda>s. ''sig'') cfg_example auth_example"
  unfolding auth_example_def
  by (rule auth_step, rule auth_start) (simp add: plain_args_def setup_args_def default_session_args_def js_or_def)

lemma cookie_example: "cookie_id (\<lambda>s. ''sig'') ''asc_session=a.sig'' = Some (Some ''a'')"
  by code_simp

lemma auth_example_sessions: "sessions auth_example = [(''a'', \<lparr>s_id = ''a'', s_csrf = ''tok'', s_expires = 601000,
    s_tier = Str ''enroll'', s_user = Str [], s_name = Str [], s_guild = Str [], s_scope = Str ''enroll'', s_renewable = False\<rparr>)]"
  by (simp add: auth_example_def makeSession_def Let_def persistSessions_def cfg_example_def createAuth_def
      loadPersistedSessions_def setup_args_def default_session_args_def is_live_def)

theorem require_auth_accepts_witness:
  "\<exists>s st'. requireAuth mac_example (\<lambda>s. ''sig'') cfg_example ''asc_session=a.sig'' ''POST'' (Some ''tok'') 2000 True
       auth_example = Some (Inr s, st')
     \<and> (\<exists>i s0. om_get (sessions auth_example) i = Some s0 \<and> s_tier s = s_tier s0)"
proof -
  have off: "\<not> auth_disabled cfg_example" by (simp add: cfg_example_def)
  obtain s st' where r: "requireAuth mac_example (\<lambda>s. ''sig'') cfg_example ''asc_session=a.sig'' ''POST'' (Some ''tok'')
      2000 True auth_example = Some (Inr s, st')"
    by (simp add: requireAuth_def readSession_def off cookie_example auth_example_sessions om_get_def is_live_def)
  from require_auth_accepts [OF r off] r show ?thesis by blast
qed

theorem fixed_session_expires_witness:
  "\<exists>st2. requireAuth mac_example (\<lambda>s. ''sig'') cfg_example ''asc_session=a.sig'' ''GET'' None 700000 True
     (run_auths mac_example (\<lambda>s. ''sig'') cfg_example [OpRead ''asc_session=a.sig'' 500000 True] auth_example)
     = Some (Inl 401, st2)"
proof -
  obtain s cookie st1 where m: "makeSession mac_example (\<lambda>s. ''sig'') cfg_example setup_args ''a'' ''tok'' 1000 True
      (createAuth mac_example cfg_example 0 None) = ((s, cookie), st1)"
    by (metis prod.exhaust)
  then have st1: "st1 = auth_example" by (simp add: auth_example_def)
  show ?thesis
    using fixed_session_expires [OF m _ _ _ _ cookie_example, of "[OpRead ''asc_session=a.sig'' 500000 True]" 700000]
    by (simp add: st1 setup_args_def cfg_example_def createAuth_def loadPersistedSessions_def)
qed

theorem sessions_survive_restart_witness:
  "sessions (createAuth mac_example cfg_example 5000 (session_file (persistSessions mac_example cfg_example True 2000 True auth_example)))
    = sessions auth_example"
proof -
  have "has_store cfg_example" "\<forall>p. mac_example p \<noteq> []" by (simp_all add: cfg_example_def mac_example_def)
  from sessions_survive_restart [OF auth_example_reachable this] show ?thesis
    by (simp add: auth_example_sessions is_live_def)
qed

theorem second_factor_switch_ends_sessions_witness:
  "sessions (createAuth mac_example (cfg_example\<lparr>totp_enabled := False\<rparr>) 5000
     (session_file (persistSessions mac_example cfg_example True 2000 True auth_example))) = []"
  by (rule second_factor_switch_ends_sessions) (simp_all add: cfg_example_def mac_example_def)

end
