(* ===== verification/Totp.thy ===== *)
theory Totp
  imports Js "HOL-Library.Word"
begin

text \<open>
  One-time codes, \<open>console/api/src/auth/totp.js\<close>: base32, HOTP and TOTP with its window. Bytes are
  \<open>8 word\<close>, the accumulators of the bit loops the 32-bit integers of JavaScript's shift operators.
  \<open>hmac\<close> is HMAC-SHA1 of Node's crypto module, an argument. The QR code and the provisioning URI
  are not modelled.
\<close>

unbundle bit_operations_syntax

section \<open>Base32\<close>

definition BASE32_ALPHABET :: string where
  "BASE32_ALPHABET = ''ABCDEFGHIJKLMNOPQRSTUVWXYZ234567''"

definition TOTP_DIGITS :: nat where "TOTP_DIGITS = 6"
definition TOTP_PERIOD_SECONDS :: int where "TOTP_PERIOD_SECONDS = 30"
definition TOTP_SECRET_BYTES :: nat where "TOTP_SECRET_BYTES = 20"
definition TOTP_DEFAULT_WINDOW :: nat where "TOTP_DEFAULT_WINDOW = 1"

type_synonym byte = "8 word"
type_synonym int32 = "32 word"

definition alpha_char :: "int32 \<Rightarrow> char" where
  "alpha_char d = BASE32_ALPHABET ! unat d"

text \<open>The inner \<open>while (bits >= 5)\<close>: the digits it emits, and the number of bits left.\<close>

fun emit_digits :: "nat \<Rightarrow> int32 \<Rightarrow> string \<times> nat" where
  "emit_digits bits value =
     (if bits < 5 then ([], bits)
      else case emit_digits (bits - 5) value of (ds, bits') \<Rightarrow>
        (alpha_char (drop_bit (bits - 5) value AND 31) # ds, bits'))"

declare emit_digits.simps [simp del]

fun encode_loop :: "byte list \<Rightarrow> nat \<Rightarrow> int32 \<Rightarrow> string" where
  "encode_loop [] bits value =
     (if 0 < bits then [alpha_char (push_bit (5 - bits) value AND 31)] else [])"
| "encode_loop (b # bs) bits value =
     (let value' = push_bit 8 value OR ucast b in
      case emit_digits (bits + 8) value' of (ds, bits') \<Rightarrow> ds @ encode_loop bs bits' value')"

definition base32Encode :: "byte list \<Rightarrow> string" where
  "base32Encode bytes = encode_loop bytes 0 0"

fun decode_loop :: "string \<Rightarrow> nat \<Rightarrow> int32 \<Rightarrow> byte list" where
  "decode_loop [] bits value = []"
| "decode_loop (c # cs) bits value =
     (let value' = push_bit 5 value OR of_nat (the (index_of c BASE32_ALPHABET));
          bits' = bits + 5
      in if 8 \<le> bits'
         then ucast (drop_bit (bits' - 8) value' AND 0xff) # decode_loop cs (bits' - 8) value'
         else decode_loop cs bits' value')"

definition clean_base32 :: "string \<Rightarrow> string" where
  "clean_base32 s = js_upper (filter (\<lambda>c. \<not> (is_ws c \<or> c = CHR ''='' \<or> c = CHR ''-'')) s)"

definition base32Decode :: "jsval \<Rightarrow> byte list option" where
  "base32Decode input = (case input of
       Str s \<Rightarrow>
         (let cleaned = clean_base32 s in
          if cleaned = [] \<or> \<not> list_all (\<lambda>c. c \<in> set BASE32_ALPHABET) cleaned then None
          else Some (decode_loop cleaned 0 0))
     | _ \<Rightarrow> None)"

section \<open>HOTP and TOTP\<close>

text \<open>The two \<open>writeUInt32BE\<close>.\<close>

definition be32 :: "int \<Rightarrow> byte list" where
  "be32 n = map (\<lambda>k. word_of_int (n div 2 ^ k)) [24, 16, 8, 0]"

definition counter_bytes :: "int \<Rightarrow> byte list" where
  "counter_bytes counter = be32 (counter div 2 ^ 32) @ be32 (counter mod 2 ^ 32)"

definition pad_start :: "nat \<Rightarrow> string \<Rightarrow> string" where
  "pad_start n s = replicate (n - length s) CHR ''0'' @ s"

definition truncate :: "byte list \<Rightarrow> int32" where
  "truncate h =
     (let offset = unat (last h AND 0x0f) in
      push_bit 24 (ucast (h ! offset) AND 0x7f) OR push_bit 16 (ucast (h ! (offset + 1)) AND 0xff)
      OR push_bit 8 (ucast (h ! (offset + 2)) AND 0xff) OR (ucast (h ! (offset + 3)) AND 0xff))"

text \<open>\<open>None\<close> is the \<open>RangeError\<close> of a negative counter.\<close>

definition hotp :: "(byte list \<Rightarrow> byte list \<Rightarrow> byte list) \<Rightarrow> byte list \<Rightarrow> int \<Rightarrow> nat \<Rightarrow> string option" where
  "hotp hmac secretBytes counter digits =
     (if counter < 0 then None
      else Some (pad_start digits
        (show_nat (unat (truncate (hmac secretBytes (counter_bytes counter))) mod 10 ^ digits))))"

definition counterForTime :: "int \<Rightarrow> int \<Rightarrow> int" where
  "counterForTime timeSeconds period = timeSeconds div period"

definition totpCode :: "(byte list \<Rightarrow> byte list \<Rightarrow> byte list) \<Rightarrow> byte list \<Rightarrow> int \<Rightarrow> string option" where
  "totpCode hmac secretBytes timeSeconds =
     hotp hmac secretBytes (counterForTime timeSeconds TOTP_PERIOD_SECONDS) TOTP_DIGITS"

text \<open>The loop over the window does not stop at a match: the last matching step is returned.\<close>

fun match_steps ::
  "(byte list \<Rightarrow> byte list \<Rightarrow> byte list) \<Rightarrow> byte list \<Rightarrow> nat \<Rightarrow> string \<Rightarrow> int list \<Rightarrow> int option \<Rightarrow> int option" where
  "match_steps hmac secretBytes digits candidate [] matched = matched"
| "match_steps hmac secretBytes digits candidate (step # steps) matched =
     match_steps hmac secretBytes digits candidate steps
       (if 0 \<le> step \<and> hotp hmac secretBytes step digits = Some candidate then Some step else matched)"

definition verifyTotpMatch ::
  "(byte list \<Rightarrow> byte list \<Rightarrow> byte list) \<Rightarrow> byte list \<Rightarrow> jsval \<Rightarrow> int \<Rightarrow> int option" where
  "verifyTotpMatch hmac secretBytes token timeSeconds = (case token of
       Str s \<Rightarrow>
         (let candidate = filter (\<lambda>c. \<not> is_ws c) s in
          if \<not> (length candidate = TOTP_DIGITS \<and> list_all is_digit candidate) then None
          else let center = counterForTime timeSeconds TOTP_PERIOD_SECONDS;
                   window = int TOTP_DEFAULT_WINDOW
               in match_steps hmac secretBytes TOTP_DIGITS candidate [center - window .. center + window] None)
     | _ \<Rightarrow> None)"

definition verifyTotp ::
  "(byte list \<Rightarrow> byte list \<Rightarrow> byte list) \<Rightarrow> byte list \<Rightarrow> jsval \<Rightarrow> int \<Rightarrow> bool" where
  "verifyTotp hmac secretBytes token timeSeconds = (verifyTotpMatch hmac secretBytes token timeSeconds \<noteq> None)"

section \<open>Bits\<close>

text \<open>The lowest bits of a word, the highest of them first.\<close>

definition low :: "nat \<Rightarrow> int32 \<Rightarrow> bool list" where
  "low n v = map (bit v) (rev [0..<n])"

lemma low_length [simp]: "length (low n v) = n"
  by (simp add: low_def)

lemma low_eq_iff: "low n v = low n w \<longleftrightarrow> (\<forall>k < n. bit v k = bit w k)"
  by (auto simp: low_def)

lemma low_split: "n \<le> m \<Longrightarrow> low m v = map (bit v) (rev [n..<m]) @ low n v"
proof -
  assume "n \<le> m"
  then have "[0..<m] = [0..<n] @ [n..<m]" using upt_add_eq_append [of 0 n "m - n"] by simp
  then show ?thesis by (simp add: low_def)
qed

lemma low_nth: "k < n \<Longrightarrow> low n v ! k = bit v (n - 1 - k)"
  by (simp add: low_def rev_nth)

lemma low_shift_or:
  fixes v :: int32 and w :: int32
  assumes "n + k \<le> 32" and "\<forall>j \<ge> k. \<not> bit w j"
  shows "low (n + k) (push_bit k v OR w) = low n v @ low k w"
proof (rule nth_equalityI)
  fix i assume "i < length (low (n + k) (push_bit k v OR w))"
  then have i: "i < n + k" by simp
  show "low (n + k) (push_bit k v OR w) ! i = (low n v @ low k w) ! i"
  proof (cases "i < n")
    case True
    then have "k \<le> n + k - 1 - i" and "n + k - 1 - i - k = n - 1 - i" and "n + k - 1 - i < 32"
      using assms(1) by linarith+
    then show ?thesis
      using True i assms(2) by (simp add: low_nth nth_append bit_simps)
  next
    case False
    then have "n + k - 1 - i < k" and "n + k - 1 - i = k - 1 - (i - n)" using i by linarith+
    then show ?thesis using False i by (simp add: low_nth nth_append bit_simps)
  qed
qed simp

lemma masks: "(31 :: int32) = mask 5" "(0xff :: int32) = mask 8"
  by (simp_all add: mask_eq_exp_minus_1)

lemma low_digit:
  fixes v :: int32
  assumes "5 \<le> n" and "n \<le> 32"
  shows "low 5 (drop_bit (n - 5) v AND 31) @ low (n - 5) v = low n v"
proof -
  have "low 5 (drop_bit (n - 5) v AND 31) = map (bit v) (rev [n - 5..<n])"
  proof (rule nth_equalityI)
    fix i assume "i < length (low 5 (drop_bit (n - 5) v AND 31))"
    then have i: "i < 5" by simp
    have [simp]: "4 - i < 5" "4 - i < 32" by linarith+
    then show "low 5 (drop_bit (n - 5) v AND 31) ! i = map (bit v) (rev [n - 5..<n]) ! i"
      using i assms by (simp add: low_nth rev_nth masks bit_simps)
  qed (use assms in simp)
  then show ?thesis using low_split [of "n - 5" n v] by simp
qed


section \<open>Characters and their five bits\<close>

definition digit_of :: "char \<Rightarrow> int32" where
  "digit_of c = of_nat (the (index_of c BASE32_ALPHABET))"

definition char_bits :: "char \<Rightarrow> bool list" where
  "char_bits c = low 5 (digit_of c)"

definition byte_bits :: "byte \<Rightarrow> bool list" where
  "byte_bits b = low 8 (ucast b)"

lemma char_bits_length [simp]: "length (char_bits c) = 5"
  by (simp add: char_bits_def)

lemma byte_bits_length [simp]: "length (byte_bits b) = 8"
  by (simp add: byte_bits_def)

lemma alphabet_index: "i < 32 \<Longrightarrow> index_of (BASE32_ALPHABET ! i) BASE32_ALPHABET = Some i"
proof -
  have "list_all (\<lambda>i. index_of (BASE32_ALPHABET ! i) BASE32_ALPHABET = Some i) [0..<32]" by code_simp
  then show "i < 32 \<Longrightarrow> ?thesis" by (simp add: list_all_iff)
qed

lemma unat_and_31: "unat (v AND 31 :: int32) < 32"
  using and_mask_less' [of 5 v] by (simp add: masks word_less_nat_alt)

lemma alpha_char_bits: "char_bits (alpha_char (v AND 31)) = low 5 (v AND 31)"
  using alphabet_index [OF unat_and_31 [of v]] by (simp add: char_bits_def digit_of_def alpha_char_def)

lemma alpha_char_in: "alpha_char (v AND 31) \<in> set BASE32_ALPHABET"
proof -
  have "length BASE32_ALPHABET = 32" by (simp add: BASE32_ALPHABET_def)
  then show ?thesis using unat_and_31 [of v] by (simp add: alpha_char_def)
qed

lemma digit_of_high: "c \<in> set BASE32_ALPHABET \<Longrightarrow> 5 \<le> j \<Longrightarrow> \<not> bit (digit_of c) j"
proof -
  assume c: "c \<in> set BASE32_ALPHABET" and j: "5 \<le> j"
  have "list_all (\<lambda>c. digit_of c AND 31 = digit_of c) BASE32_ALPHABET" by code_simp
  with c have "digit_of c AND mask 5 = digit_of c" by (simp add: list_all_iff masks)
  with j show ?thesis by (metis bit_and_iff bit_mask_iff not_le)
qed

lemma emit_bits:
  "n \<le> 32 \<Longrightarrow> emit_digits n v = (ds, n') \<Longrightarrow>
     low n v = concat (map char_bits ds) @ low n' v \<and> n' < 5 \<and> set ds \<subseteq> set BASE32_ALPHABET"
proof (induction n v arbitrary: ds rule: emit_digits.induct)
  case (1 n v)
  show ?case
  proof (cases "n < 5")
    case True
    then show ?thesis using "1.prems" by (simp add: emit_digits.simps [of n])
  next
    case False
    obtain ds' m where r: "emit_digits (n - 5) v = (ds', m)" by fastforce
    then have "ds = alpha_char (drop_bit (n - 5) v AND 31) # ds'" "m = n'"
      using "1.prems"(2) False by (simp_all add: emit_digits.simps [of n])
    then show ?thesis
      using "1.IH" [OF False] "1.prems"(1) r low_digit [of n v] False
      by (simp add: alpha_char_bits alpha_char_in)
  qed
qed

lemma final_bits:
  fixes v :: int32
  assumes "n < 5"
  shows "low 5 (push_bit (5 - n) v AND 31) = low n v @ replicate (5 - n) False"
proof (rule nth_equalityI)
  fix i assume "i < length (low 5 (push_bit (5 - n) v AND 31))"
  then show "low 5 (push_bit (5 - n) v AND 31) ! i = (low n v @ replicate (5 - n) False) ! i"
    using assms by (auto simp: low_nth nth_append masks bit_simps)
qed (use assms in simp)

lemma encode_bits:
  "n < 5 \<Longrightarrow> \<exists>pad < 5. concat (map char_bits (encode_loop bs n v)) = low n v @ concat (map byte_bits bs) @ replicate pad False
     \<and> set (encode_loop bs n v) \<subseteq> set BASE32_ALPHABET"
proof (induction bs arbitrary: n v)
  case Nil
  show ?case
  proof (cases "n = 0")
    case True
    then show ?thesis by (intro exI [of _ 0]) (simp add: low_def)
  next
    case False
    then show ?thesis
      using Nil by (intro exI [of _ "5 - n"]) (simp add: alpha_char_bits final_bits alpha_char_in)
  qed
next
  case (Cons b bs)
  let ?v = "push_bit 8 v OR ucast b"
  obtain ds n' where e: "emit_digits (n + 8) ?v = (ds, n')" by fastforce
  have "low (n + 8) ?v = low n v @ byte_bits b"
    unfolding byte_bits_def using Cons.prems by (intro low_shift_or) (auto simp: bit_simps dest: bit_imp_le_length)
  then have bits: "low n v @ byte_bits b = concat (map char_bits ds) @ low n' ?v" "n' < 5" "set ds \<subseteq> set BASE32_ALPHABET"
    using emit_bits [OF _ e] Cons.prems by simp_all
  obtain pad where "pad < 5" "concat (map char_bits (encode_loop bs n' ?v)) = low n' ?v @ concat (map byte_bits bs) @ replicate pad False"
    "set (encode_loop bs n' ?v) \<subseteq> set BASE32_ALPHABET"
    using Cons.IH [OF bits(2)] by blast
  with bits e show ?case by (intro exI [of _ pad]) simp
qed

lemma decode_bits:
  "set cs \<subseteq> set BASE32_ALPHABET \<Longrightarrow> n < 8 \<Longrightarrow>
   concat (map byte_bits (decode_loop cs n v)) = take (8 * ((n + 5 * length cs) div 8)) (low n v @ concat (map char_bits cs))"
proof (induction cs arbitrary: n v)
  case Nil
  then show ?case by simp
next
  case (Cons c cs)
  let ?v = "push_bit 5 v OR digit_of c"
  have bits: "low (n + 5) ?v = low n v @ char_bits c"
    unfolding char_bits_def using Cons.prems by (intro low_shift_or) (auto simp: digit_of_high)
  show ?case
  proof (cases "8 \<le> n + 5")
    case True
    let ?b = "ucast (drop_bit (n + 5 - 8) ?v AND 0xff) :: byte"
    have "byte_bits ?b @ low (n - 3) ?v = low (n + 5) ?v"
    proof -
      have "byte_bits ?b = map (bit ?v) (rev [n - 3..<n + 5])"
      proof (rule nth_equalityI)
        fix i assume "i < length (byte_bits ?b)"
        moreover have [simp]: "7 - i < 8" "7 - i < 32" by linarith+
        ultimately show "byte_bits ?b ! i = map (bit ?v) (rev [n - 3..<n + 5]) ! i"
          using Cons.prems True by (simp add: byte_bits_def low_nth rev_nth masks bit_simps Suc_diff_Suc)
      qed (use True in simp)
      then show ?thesis using low_split [of "n - 3" "n + 5" ?v] by simp
    qed
    then have split: "(byte_bits ?b @ low (n - 3) ?v) @ concat (map char_bits cs)
        = low n v @ concat (map char_bits (c # cs))"
      using bits by simp
    have ih: "concat (map byte_bits (decode_loop cs (n - 3) ?v))
        = take (8 * ((n - 3 + 5 * length cs) div 8)) (low (n - 3) ?v @ concat (map char_bits cs))"
      using Cons.IH [of "n - 3" ?v] Cons.prems by simp
    have "n + 5 * length (c # cs) = (n - 3 + 5 * length cs) + 8" using True by simp
    then have len: "(n + 5 * length (c # cs)) div 8 = Suc ((n - 3 + 5 * length cs) div 8)"
      by (simp only: div_add_self2)
    have "decode_loop (c # cs) n v = ?b # decode_loop cs (n - 3) ?v"
      using True by (simp add: Let_def digit_of_def)
    then have "concat (map byte_bits (decode_loop (c # cs) n v))
        = byte_bits ?b @ take (8 * ((n - 3 + 5 * length cs) div 8)) (low (n - 3) ?v @ concat (map char_bits cs))"
      by (simp only: list.map concat.simps ih)
    also have "\<dots> = take (8 * Suc ((n - 3 + 5 * length cs) div 8))
        ((byte_bits ?b @ low (n - 3) ?v) @ concat (map char_bits cs))"
      by simp
    finally show ?thesis unfolding split len .
  next
    case False
    then have "concat (map byte_bits (decode_loop cs (n + 5) ?v))
        = take (8 * ((n + 5 + 5 * length cs) div 8)) (low (n + 5) ?v @ concat (map char_bits cs))"
      using Cons.IH [of "n + 5" ?v] Cons.prems by simp
    then show ?thesis
      using False bits by (simp add: Let_def digit_of_def [symmetric] add.assoc)
  qed
qed

lemma low_8_inj: "byte_bits a = byte_bits b \<Longrightarrow> a = b"
proof (rule bit_word_eqI)
  fix k assume e: "byte_bits a = byte_bits b" and "k < LENGTH(8)"
  then have k: "k < 8" by simp
  then have "bit (ucast a :: int32) k = bit (ucast b :: int32) k"
    using e low_eq_iff [of 8 "ucast a" "ucast b"] by (simp add: byte_bits_def)
  then show "bit a k = bit b k" using k by (simp add: bit_simps)
qed

lemma concat_blocks_inj:
  "concat (map byte_bits xs) = concat (map byte_bits ys) \<Longrightarrow> xs = ys"
proof (induction xs arbitrary: ys)
  case Nil
  then show ?case by (cases ys) (auto dest: arg_cong [of _ _ length])
next
  case (Cons x xs)
  then obtain y ys' where ys: "ys = y # ys'"
    by (cases ys) (auto dest: arg_cong [of _ _ length])
  have "byte_bits x = byte_bits y \<and> concat (map byte_bits xs) = concat (map byte_bits ys')"
    using Cons.prems by (simp add: ys append_eq_append_conv)
  then show ?case using Cons.IH low_8_inj by (simp add: ys)
qed

lemma concat_length: "length (concat (map byte_bits bs)) = 8 * length bs"
  by (induction bs) simp_all

lemma concat_char_length: "length (concat (map char_bits cs)) = 5 * length cs"
  by (induction cs) simp_all

lemma alphabet_clean: "set s \<subseteq> set BASE32_ALPHABET \<Longrightarrow> clean_base32 s = s"
proof -
  have "list_all (\<lambda>c. \<not> (is_ws c \<or> c = CHR ''='' \<or> c = CHR ''-'') \<and> upper_char c = [c]) BASE32_ALPHABET"
    by code_simp
  then have "\<And>c. c \<in> set BASE32_ALPHABET \<Longrightarrow> \<not> (is_ws c \<or> c = CHR ''='' \<or> c = CHR ''-'') \<and> upper_char c = [c]"
    by (simp add: list_all_iff)
  then show "set s \<subseteq> set BASE32_ALPHABET \<Longrightarrow> clean_base32 s = s"
    by (induction s) (auto simp: clean_base32_def js_upper_def)
qed

text \<open>
  A secret survives its base32 form: decoding what was encoded gives the bytes back, for every
  non-empty secret, although the accumulators of both loops are 32-bit integers that overflow after a
  few bytes.
\<close>

theorem base32_round_trip:
  assumes "bytes \<noteq> []"
  shows "base32Decode (Str (base32Encode bytes)) = Some bytes"
proof -
  let ?cs = "base32Encode bytes"
  obtain pad where pad: "pad < 5" and bits: "concat (map char_bits ?cs) = concat (map byte_bits bytes) @ replicate pad False"
    and alpha: "set ?cs \<subseteq> set BASE32_ALPHABET"
    using encode_bits [of 0 bytes 0] by (auto simp: base32Encode_def low_def)
  have len: "5 * length ?cs = 8 * length bytes + pad"
    using arg_cong [OF bits, of length] by (simp add: concat_length concat_char_length)
  then have "?cs \<noteq> []" using assms by (cases ?cs) auto
  have "concat (map byte_bits (decode_loop ?cs 0 0)) = take (8 * (5 * length ?cs div 8)) (concat (map char_bits ?cs))"
    using decode_bits [OF alpha, of 0 0] by (simp add: low_def)
  also have "5 * length ?cs div 8 = length bytes" using len pad by simp
  finally have "decode_loop ?cs 0 0 = bytes"
    using concat_blocks_inj by (simp add: bits concat_length)
  then show ?thesis
    using \<open>?cs \<noteq> []\<close> alpha alphabet_clean [OF alpha]
    by (auto simp: base32Decode_def list_all_iff Let_def)
qed

theorem base32_round_trip_witness:
  "base32Decode (Str (base32Encode [0xde, 0xad, 0xbe, 0xef])) = Some [0xde, 0xad, 0xbe, 0xef]"
  by (rule base32_round_trip) simp

section \<open>What verification accepts\<close>

lemma match_steps_eq:
  "match_steps hmac sec d cand steps m =
     (case filter (\<lambda>s. 0 \<le> s \<and> hotp hmac sec s d = Some cand) steps of [] \<Rightarrow> m | x # xs \<Rightarrow> Some (last (x # xs)))"
proof (induction steps arbitrary: m)
  case (Cons s steps)
  then show ?case
    by (cases "filter (\<lambda>s. 0 \<le> s \<and> hotp hmac sec s d = Some cand) steps") auto
qed simp

lemma last_of_three:
  "(case filter P [a, b, c] of [] \<Rightarrow> None | x # xs \<Rightarrow> Some (last (x # xs)))
    = (if P c then Some c else if P b then Some b else if P a then Some a else None)"
  by simp

lemma window_last:
  "(if P (k + 1) then Some (k + 1) else if P k then Some k else if P (k - 1) then Some (k - 1) else None) = Some c
    \<longleftrightarrow> P c \<and> \<bar>c - k\<bar> \<le> 1 \<and> (\<forall>c' > c. c' \<le> k + 1 \<longrightarrow> \<not> P c')" for k c :: int
proof
  assume l: "(if P (k + 1) then Some (k + 1) else if P k then Some k else if P (k - 1) then Some (k - 1) else None) = Some c"
  then have "P c" "\<bar>c - k\<bar> \<le> 1" by (auto split: if_splits)
  moreover have "\<not> P c'" if "c < c'" "c' \<le> k + 1" for c'
  proof -
    have "c' = k + 1 \<or> c' = k \<and> c = k - 1" using that \<open>\<bar>c - k\<bar> \<le> 1\<close> by linarith
    then show ?thesis using l that by (elim disjE) (auto split: if_splits)
  qed
  ultimately show "P c \<and> \<bar>c - k\<bar> \<le> 1 \<and> (\<forall>c' > c. c' \<le> k + 1 \<longrightarrow> \<not> P c')" by blast
next
  assume r: "P c \<and> \<bar>c - k\<bar> \<le> 1 \<and> (\<forall>c' > c. c' \<le> k + 1 \<longrightarrow> \<not> P c')"
  then have "c = k - 1 \<or> c = k \<or> c = k + 1" by linarith
  with r show "(if P (k + 1) then Some (k + 1) else if P k then Some k else if P (k - 1) then Some (k - 1) else None) = Some c"
    by auto
qed

text \<open>
  Verification accepts a token exactly when, blanks aside, it is six digits that are the code of
  one of the three steps around the time; and it reports the latest such step, the one that must be
  recorded against replays.
\<close>

theorem verify_totp_exactly:
  "verifyTotpMatch hmac secretBytes (Str s) t = Some c \<longleftrightarrow>
     (let candidate = filter (\<lambda>c. \<not> is_ws c) s; center = t div 30 in
      length candidate = 6 \<and> list_all is_digit candidate
      \<and> 0 \<le> c \<and> \<bar>c - center\<bar> \<le> 1 \<and> hotp hmac secretBytes c 6 = Some candidate
      \<and> (\<forall>c' > c. c' \<le> center + 1 \<longrightarrow> 0 \<le> c' \<longrightarrow> hotp hmac secretBytes c' 6 \<noteq> Some candidate))"
proof -
  let ?cand = "filter (\<lambda>c. \<not> is_ws c) s"
  let ?c = "t div 30"
  let ?ok = "\<lambda>c. 0 \<le> c \<and> hotp hmac secretBytes c 6 = Some ?cand"
  have steps: "[?c - 1 .. ?c + 1] = [?c - 1, ?c, ?c + 1]"
    by (simp add: upto.simps)
  have "match_steps hmac secretBytes 6 ?cand [?c - 1 .. ?c + 1] None = Some c \<longleftrightarrow>
      ?ok c \<and> \<bar>c - ?c\<bar> \<le> 1 \<and> (\<forall>c' > c. c' \<le> ?c + 1 \<longrightarrow> \<not> ?ok c')"
    unfolding match_steps_eq steps last_of_three by (rule window_last)
  then show ?thesis
    by (auto simp: verifyTotpMatch_def Let_def TOTP_DIGITS_def TOTP_DEFAULT_WINDOW_def counterForTime_def
        TOTP_PERIOD_SECONDS_def)
qed

section \<open>An example\<close>

lemma zero_char: "digit_char 0 = CHR ''0'' \<and> is_digit CHR ''0'' \<and> \<not> is_ws CHR ''0''" by code_simp

lemma show_zero: "show_nat 0 = ''0''" by (simp add: show_nat.simps zero_char)

lemma truncate_zero: "Totp.truncate (replicate 20 0) = 0"
  by (simp add: Totp.truncate_def Let_def)

lemma hotp_example: "0 \<le> n \<Longrightarrow> hotp (\<lambda>k m. replicate 20 0) k n 6 = Some ''000000''"
  unfolding hotp_def truncate_zero by (simp add: pad_start_def show_zero) (simp add: numeral_eq_Suc)

theorem verify_totp_exactly_witness:
  "verifyTotpMatch (\<lambda>k m. replicate 20 0) [] (Str ''000000'') 0 = Some 1"
  unfolding verify_totp_exactly by (simp add: Let_def zero_char hotp_example)

end
