(* ===== verification/RecoveryCodes.thy ===== *)
theory RecoveryCodes
  imports Totp
begin

text \<open>
  Recovery codes, \<open>console/api/src/auth/recoveryCodes.js\<close>: their printed form with its checksum,
  parsing, digests and single use. \<open>sha\<close> is the hexadecimal SHA-256 of a byte string (Node's crypto
  module), the random bytes are an argument. A stored digest is a string; entries of another type are
  refused when the store is loaded.
\<close>

section \<open>Printed form\<close>

definition RECOVERY_CODE_COUNT :: nat where "RECOVERY_CODE_COUNT = 10"
definition RECOVERY_TOKEN_BYTES :: nat where "RECOVERY_TOKEN_BYTES = 16"
definition RECOVERY_DOMAIN_SEPARATOR :: string where
  "RECOVERY_DOMAIN_SEPARATOR = ''dune-console-recovery-v1:''"

definition HEX_DIGITS :: string where "HEX_DIGITS = ''0123456789abcdef''"

definition hex_digit :: "nat \<Rightarrow> char" where
  "hex_digit d = HEX_DIGITS ! d"

text \<open>\<open>Buffer.toString("hex")\<close> and \<open>Buffer.from(s, "hex")\<close> of a string of lowercase hexadecimal digits.\<close>

definition bytes_hex :: "byte list \<Rightarrow> string" where
  "bytes_hex bs = concat (map (\<lambda>b. [hex_digit (unat b div 16), hex_digit (unat b mod 16)]) bs)"

fun hex_bytes :: "string \<Rightarrow> byte list" where
  "hex_bytes (a # b # r) = of_nat (16 * radix_digit a + radix_digit b) # hex_bytes r"
| "hex_bytes _ = []"

definition checksumHex :: "(byte list \<Rightarrow> string) \<Rightarrow> byte list \<Rightarrow> string" where
  "checksumHex sha tokenBytes = take 2 (sha tokenBytes)"

fun groups_of_4 :: "string \<Rightarrow> string list" where
  "groups_of_4 [] = []"
| "groups_of_4 (c # cs) = take 4 (c # cs) # groups_of_4 (drop 3 cs)"

definition groupHex :: "string \<Rightarrow> string" where
  "groupHex hex32 = join_with ''-'' (groups_of_4 hex32)"

definition formatRecoveryCode :: "(byte list \<Rightarrow> string) \<Rightarrow> byte list \<Rightarrow> string" where
  "formatRecoveryCode sha tokenBytes = groupHex (bytes_hex tokenBytes) @ ''-'' @ checksumHex sha tokenBytes"

definition clean_code :: "string \<Rightarrow> string" where
  "clean_code s = js_lower (filter (\<lambda>c. \<not> (is_ws c \<or> c = CHR ''-'')) s)"

definition parseRecoveryCode :: "jsval \<Rightarrow> (string \<times> string) option" where
  "parseRecoveryCode input = (case input of
       Str s \<Rightarrow>
         (if length s > 256 then None
          else let cleaned = clean_code s in
            if \<not> (length cleaned = 34 \<and> list_all is_lower_hex cleaned) then None
            else Some (take 32 cleaned, drop 32 cleaned))
     | _ \<Rightarrow> None)"

definition isChecksumValid :: "(byte list \<Rightarrow> string) \<Rightarrow> jsval \<Rightarrow> bool" where
  "isChecksumValid sha input = (case parseRecoveryCode input of
     None \<Rightarrow> False
   | Some (hex, checksum) \<Rightarrow> checksumHex sha (hex_bytes hex) = checksum)"

section \<open>Digests\<close>

definition string_bytes :: "string \<Rightarrow> byte list" where
  "string_bytes s = map (\<lambda>c. of_nat (code c)) s"

definition hashRecoveryToken :: "(byte list \<Rightarrow> string) \<Rightarrow> byte list \<Rightarrow> string" where
  "hashRecoveryToken sha tokenBytes = sha (string_bytes RECOVERY_DOMAIN_SEPARATOR @ tokenBytes)"

definition digestFromInput :: "(byte list \<Rightarrow> string) \<Rightarrow> jsval \<Rightarrow> string option" where
  "digestFromInput sha input =
     (if \<not> isChecksumValid sha input then None
      else case parseRecoveryCode input of
        None \<Rightarrow> None
      | Some (hex, checksum) \<Rightarrow> Some (hashRecoveryToken sha (hex_bytes hex)))"

text \<open>\<open>DIGEST_HEX_RE\<close>\<close>

definition digest_shaped :: "string \<Rightarrow> bool" where
  "digest_shaped d = (length d = 64 \<and> list_all is_lower_hex d)"

text \<open>The codes and digests of a set of drawn tokens; \<open>None\<close> is the error of a bad count or a short draw.\<close>

definition generateRecoveryCodes ::
  "(byte list \<Rightarrow> string) \<Rightarrow> int \<Rightarrow> (nat \<Rightarrow> byte list) \<Rightarrow> (string list \<times> string list) option" where
  "generateRecoveryCodes sha count draw =
     (if count < 1 \<or> 100 < count then None
      else let tokens = map draw [0..<nat count] in
        if \<not> list_all (\<lambda>t. length t = RECOVERY_TOKEN_BYTES) tokens then None
        else Some (map (formatRecoveryCode sha) tokens, map (hashRecoveryToken sha) tokens))"

text \<open>Both loops compare the decoded bytes, of well-formed digests only.\<close>

definition same_digest :: "string \<Rightarrow> string \<Rightarrow> bool" where
  "same_digest digest entry = (digest_shaped entry \<and> hex_bytes entry = hex_bytes digest)"

definition digestInSet :: "string \<Rightarrow> string list \<Rightarrow> bool" where
  "digestInSet digest digests =
     (if \<not> digest_shaped digest then False
      else foldl (\<lambda>found entry. if same_digest digest entry then True else found) False digests)"

datatype consumed = Malformed | UnknownCode | ConsumedOk "string list"

definition consumeRecoveryCode :: "(byte list \<Rightarrow> string) \<Rightarrow> jsval \<Rightarrow> string list \<Rightarrow> consumed" where
  "consumeRecoveryCode sha input unusedDigests = (case digestFromInput sha input of
     None \<Rightarrow> Malformed
   | Some digest \<Rightarrow>
       (if \<not> digestInSet digest unusedDigests then UnknownCode
        else ConsumedOk (filter (\<lambda>entry. \<not> same_digest digest entry) unusedDigests)))"

section \<open>Hexadecimal\<close>

lemma hex_digits_facts: "c \<in> set HEX_DIGITS \<Longrightarrow> is_lower_hex c \<and> lower_char c = c \<and> \<not> is_ws c \<and> c \<noteq> CHR ''-''"
proof -
  have "list_all (\<lambda>c. is_lower_hex c \<and> lower_char c = c \<and> \<not> is_ws c \<and> c \<noteq> CHR ''-'') HEX_DIGITS" by code_simp
  then show "c \<in> set HEX_DIGITS \<Longrightarrow> ?thesis" unfolding list_all_iff by blast
qed

lemma hex_digits_values: "map radix_digit HEX_DIGITS = [0..<16]"
  by code_simp

lemma hex_digits_length: "length HEX_DIGITS = 16"
  by (simp add: HEX_DIGITS_def)

lemma hex_digit_value: "d < 16 \<Longrightarrow> radix_digit (hex_digit d) = d \<and> hex_digit d \<in> set HEX_DIGITS"
  using arg_cong [OF hex_digits_values, of "\<lambda>xs. xs ! d"]
  by (simp add: hex_digit_def hex_digits_length)

lemma byte_parts: "unat (b :: byte) div 16 < 16"
proof -
  have "unat b < 2 ^ LENGTH(8)" by (rule unsigned_less)
  then show ?thesis by simp
qed

lemma hex_bytes_hex [simp]: "hex_bytes (bytes_hex bs) = bs"
proof (induction bs)
  case (Cons b bs)
  have "(of_nat (16 * (unat b div 16) + unat b mod 16) :: byte) = b"
    by (simp only: mult_div_mod_eq) simp
  with Cons show ?case
    using hex_digit_value [OF byte_parts [of b]] hex_digit_value [of "unat b mod 16"] by (simp add: bytes_hex_def)
qed (simp add: bytes_hex_def)

lemma bytes_hex_length [simp]: "length (bytes_hex bs) = 2 * length bs"
  by (induction bs) (simp_all add: bytes_hex_def)

lemma bytes_hex_chars: "c \<in> set (bytes_hex bs) \<Longrightarrow> is_lower_hex c"
  using hex_digit_value byte_parts hex_digits_facts by (auto simp: bytes_hex_def)

text \<open>A lowercase hexadecimal digit is determined by its value.\<close>

lemma lower_hex_in: "is_lower_hex c \<Longrightarrow> c \<in> set HEX_DIGITS"
proof -
  assume "is_lower_hex c"
  then have h: "48 \<le> code c \<and> code c \<le> 57 \<or> 97 \<le> code c \<and> code c \<le> 102"
    by (auto simp: is_lower_hex_def is_digit_def)
  have "48 \<le> n \<and> n \<le> 57 \<or> 97 \<le> n \<and> n \<le> 102 \<Longrightarrow> n \<in> set (map code HEX_DIGITS)" for n :: nat
    unfolding HEX_DIGITS_def code_def by simp presburger
  from this [OF h] show ?thesis by (auto simp: code_def)
qed

lemma hex_char_back: "is_lower_hex c \<Longrightarrow> hex_digit (radix_digit c) = c \<and> radix_digit c < 16"
proof -
  assume "is_lower_hex c"
  then obtain i where i: "i < 16" "c = HEX_DIGITS ! i"
    using lower_hex_in [of c] by (auto simp: in_set_conv_nth hex_digits_length)
  then have "c = hex_digit i" by (simp add: hex_digit_def)
  then show ?thesis using hex_digit_value [OF i(1)] i(1) by simp
qed

lemma hex_pair_value: "is_lower_hex a \<Longrightarrow> is_lower_hex b \<Longrightarrow>
   unat (of_nat (16 * radix_digit a + radix_digit b) :: byte) = 16 * radix_digit a + radix_digit b"
proof -
  assume "is_lower_hex a" "is_lower_hex b"
  then have "16 * radix_digit a + radix_digit b < 2 ^ LENGTH(8)"
    using hex_char_back [of a] hex_char_back [of b] by simp
  then show ?thesis by (simp only: unsigned_of_nat take_bit_nat_eq_self of_nat_id)
qed

lemma bytes_hex_back:
  "even (length s) \<Longrightarrow> list_all is_lower_hex s \<Longrightarrow> bytes_hex (hex_bytes s) = s"
proof (induction s rule: hex_bytes.induct)
  case (1 a b r)
  then have h: "is_lower_hex a" "is_lower_hex b" and r: "bytes_hex (hex_bytes r) = r" by auto
  have "(16 * radix_digit a + radix_digit b) div 16 = radix_digit a" "(16 * radix_digit a + radix_digit b) mod 16 = radix_digit b"
    using hex_char_back [OF h(2)] by auto
  with r show ?case
    using hex_pair_value [OF h] hex_char_back [OF h(1)] hex_char_back [OF h(2)] by (simp add: bytes_hex_def)
qed (simp_all add: bytes_hex_def)

lemma same_digest_iff: "digest_shaped d \<Longrightarrow> same_digest d e \<longleftrightarrow> e = d"
proof
  assume d: "digest_shaped d" and s: "same_digest d e"
  have dig: "digest_shaped x \<Longrightarrow> bytes_hex (hex_bytes x) = x" for x
    by (rule bytes_hex_back) (simp_all add: digest_shaped_def)
  have "digest_shaped e" and eq: "hex_bytes e = hex_bytes d" using s by (simp_all add: same_digest_def)
  show "e = d"
    using dig [OF d] dig [OF \<open>digest_shaped e\<close>] eq by metis
next
  assume "digest_shaped d" and "e = d"
  then show "same_digest d e" unfolding same_digest_def by blast
qed

lemma foldl_found: "foldl (\<lambda>found e. if P e then True else found) b ds = (b \<or> (\<exists>e \<in> set ds. P e))"
  by (induction ds arbitrary: b) auto

lemma digestInSet_iff: "digestInSet d ds \<longleftrightarrow> digest_shaped d \<and> d \<in> set ds"
  unfolding digestInSet_def foldl_found using same_digest_iff [of d] by auto

section \<open>Codes\<close>

lemma groups_concat [simp]: "concat (groups_of_4 s) = s"
proof (induction s rule: groups_of_4.induct)
  case (2 c cs)
  have "take 4 (c # cs) @ drop 3 cs = c # cs"
    using append_take_drop_id [of 3 cs] by (simp add: numeral_eq_Suc)
  with 2 show ?case by simp
qed simp

lemma filter_join: "\<not> P CHR ''-'' \<Longrightarrow> filter P (join_with ''-'' ws) = concat (map (filter P) ws)"
  by (induction "''-''" ws rule: join_with.induct) auto

lemma join_length: "length (join_with ''-'' ws) \<le> length (concat ws) + length ws"
  by (induction "''-''" ws rule: join_with.induct) auto

lemma groups_length: "length (groups_of_4 s) \<le> length s"
  by (induction s rule: groups_of_4.induct) auto

lemma filter_concat_groups: "concat (map (filter P) (groups_of_4 s)) = filter P s"
  by (simp flip: filter_concat)

lemma clean_hex: "list_all is_lower_hex s \<Longrightarrow> clean_code s = s"
proof -
  assume "list_all is_lower_hex s"
  then have h: "c \<in> set s \<Longrightarrow> lower_char c = c \<and> \<not> (is_ws c \<or> c = CHR ''-'')" for c
    using lower_hex_in hex_digits_facts unfolding list_all_iff by blast
  then have "filter (\<lambda>c. \<not> (is_ws c \<or> c = CHR ''-'')) s = s" by (intro filter_True) blast
  then show ?thesis unfolding clean_code_def js_lower_def using h by (simp add: map_idI)
qed

definition sha_shaped :: "(byte list \<Rightarrow> string) \<Rightarrow> bool" where
  "sha_shaped sha = (\<forall>bs. digest_shaped (sha bs))"

lemma clean_format:
  assumes "sha_shaped sha"
  shows "clean_code (formatRecoveryCode sha t) = bytes_hex t @ checksumHex sha t"
proof -
  let ?P = "\<lambda>c. \<not> (is_ws c \<or> c = CHR ''-'')"
  have hex: "list_all is_lower_hex (bytes_hex t)" using bytes_hex_chars by (auto simp: list_all_iff)
  have chk: "list_all is_lower_hex (checksumHex sha t)"
    using assms by (auto simp: sha_shaped_def digest_shaped_def checksumHex_def list_all_iff dest: in_set_takeD)
  have "filter ?P (formatRecoveryCode sha t) = filter ?P (bytes_hex t) @ filter ?P (checksumHex sha t)"
    by (simp add: formatRecoveryCode_def groupHex_def filter_join filter_concat_groups)
  then have "clean_code (formatRecoveryCode sha t) = clean_code (bytes_hex t) @ clean_code (checksumHex sha t)"
    by (simp add: clean_code_def js_lower_def)
  then show ?thesis by (simp add: clean_hex [OF hex] clean_hex [OF chk])
qed

lemma parse_clean:
  assumes "sha_shaped sha" and "length t = 16" and "length s \<le> 256"
    and "clean_code s = clean_code (formatRecoveryCode sha t)"
  shows "parseRecoveryCode (Str s) = Some (bytes_hex t, checksumHex sha t)"
proof -
  have chk: "length (checksumHex sha t) = 2" "list_all is_lower_hex (checksumHex sha t)"
    using assms(1) by (auto simp: sha_shaped_def digest_shaped_def checksumHex_def list_all_iff dest: in_set_takeD)
  moreover have "list_all is_lower_hex (bytes_hex t)" using bytes_hex_chars by (auto simp: list_all_iff)
  moreover have "clean_code s = bytes_hex t @ checksumHex sha t"
    unfolding assms(4) by (rule clean_format [OF assms(1)])
  ultimately show ?thesis
    using assms(2,3) by (simp add: parseRecoveryCode_def Let_def)
qed

text \<open>
  A printed recovery code is accepted however it is typed: any string that equals it up to case,
  dashes and blanks has the digest that was stored for its token.
\<close>

theorem recovery_code_round_trip:
  assumes "sha_shaped sha" and "length t = 16" and "length s \<le> 256"
    and "clean_code s = clean_code (formatRecoveryCode sha t)"
  shows "digestFromInput sha (Str s) = Some (hashRecoveryToken sha t)"
  using parse_clean [OF assms] by (simp add: digestFromInput_def isChecksumValid_def)

lemma printed_digest:
  assumes "sha_shaped sha" and "length t = 16"
  shows "digestFromInput sha (Str (formatRecoveryCode sha t)) = Some (hashRecoveryToken sha t)"
proof -
  have "length (groupHex (bytes_hex t)) \<le> 64"
    using join_length [of "groups_of_4 (bytes_hex t)"] groups_length [of "bytes_hex t"] assms(2)
    by (simp add: groupHex_def)
  moreover have "length (checksumHex sha t) \<le> 2" by (simp add: checksumHex_def)
  ultimately have "length (formatRecoveryCode sha t) \<le> 256" by (simp add: formatRecoveryCode_def)
  from parse_clean [OF assms this refl] show ?thesis by (simp add: digestFromInput_def isChecksumValid_def)
qed

definition sha_example :: "byte list \<Rightarrow> string" where
  "sha_example bs = replicate 64 CHR ''a''"

lemma sha_example_shaped: "sha_shaped sha_example"
proof -
  have "is_lower_hex CHR ''a''" by code_simp
  then show ?thesis by (simp add: sha_shaped_def digest_shaped_def sha_example_def list_all_iff)
qed

theorem recovery_code_round_trip_witness:
  "digestFromInput sha_example (Str ''0000 0000 0000 0000 0000 0000 0000 0000 AA'')
    = Some (hashRecoveryToken sha_example (replicate 16 0))"
proof (rule recovery_code_round_trip [OF sha_example_shaped])
  show "clean_code ''0000 0000 0000 0000 0000 0000 0000 0000 AA'' = clean_code (formatRecoveryCode sha_example (replicate 16 0))"
    unfolding clean_format [OF sha_example_shaped] by code_simp
qed simp_all

section \<open>Consumption\<close>

lemma digest_shaped_hash: "sha_shaped sha \<Longrightarrow> digestFromInput sha v = Some d \<Longrightarrow> digest_shaped d"
  by (auto simp: digestFromInput_def hashRecoveryToken_def sha_shaped_def split: option.splits if_splits)

text \<open>What consuming does to the list: exactly the digest of the input goes.\<close>

lemma consume_cases:
  assumes "sha_shaped sha"
  shows "consumeRecoveryCode sha v ds = (case digestFromInput sha v of
      None \<Rightarrow> Malformed
    | Some d \<Rightarrow> if d \<in> set ds then ConsumedOk (filter (\<lambda>e. e \<noteq> d) ds) else UnknownCode)"
proof (cases "digestFromInput sha v")
  case (Some d)
  have d: "digest_shaped d" by (rule digest_shaped_hash [OF assms Some])
  show ?thesis
    by (simp add: consumeRecoveryCode_def Some digestInSet_iff same_digest_iff [OF d] d)
qed (simp add: consumeRecoveryCode_def)

end
