(* ===== verification/SecondFactor.thy ===== *)
theory SecondFactor
  imports RecoveryCodes
begin

text \<open>
  The second-factor store, \<open>console/api/src/auth/secondFactorStore.js\<close>: the state file and its
  watermark, loading with its validation, and every operation. Operations run one after the other,
  as the queue of the source makes them. \<open>b64\<close> and \<open>unb64\<close> are Node's base64 of a buffer, \<open>draw\<close>
  the random tokens, \<open>write_done\<close> and \<open>mark_done\<close> the outcome of the two atomic writes (a failed
  write leaves the file as it was). Properties of the file the store does not know are not kept in
  the model. The registry of open paths and \<open>close\<close> are not modelled.
\<close>

section \<open>Files and state\<close>

definition SECOND_FACTOR_VERSION :: int where "SECOND_FACTOR_VERSION = 1"
definition NO_COUNTER :: int where "NO_COUNTER = - 1"

datatype sf_error = SfCorrupt | SfVersion | SfPersist | SfBadSecret | SfBadCount | SfBadCounter

text \<open>The main file: absent, not readable, not JSON, or a value.\<close>

datatype sf_file = SfMissing | SfUnreadable | SfNotJson | SfJson jsval

record sf_state =
  sf_secret :: string
  sf_last :: int
  sf_codes :: "string list"
  sf_epoch :: int

text \<open>The watermark: \<open>None\<close> when it is missing or not JSON.\<close>

record sf_world =
  main_file :: sf_file
  mark_file :: "jsval option"

definition int_of :: "jsval \<Rightarrow> int option" where
  "int_of v = (case v of Number n \<Rightarrow> if is_integer n then Some (num_int n) else None | _ \<Rightarrow> None)"

definition loadWatermarkEpoch :: "sf_world \<Rightarrow> int" where
  "loadWatermarkEpoch w = (case mark_file w of
     None \<Rightarrow> 0
   | Some parsed \<Rightarrow> (case int_of (getp parsed ''epoch'') of None \<Rightarrow> 0 | Some e \<Rightarrow> e))"

definition bumpWatermark :: "int \<Rightarrow> bool \<Rightarrow> sf_world \<Rightarrow> sf_world" where
  "bumpWatermark epoch mark_done w =
     (if epoch \<le> loadWatermarkEpoch w then w
      else if mark_done
      then w\<lparr>mark_file := Some (Obj [(''version'', Number (Num 1)), (''epoch'', Number (num_of_int epoch))])\<rparr>
      else w)"

type_synonym b64_pair = "(byte list \<Rightarrow> string) \<times> (string \<Rightarrow> byte list)"

text \<open>The secret is base64 of 10 to 64 bytes, in canonical form.\<close>

definition secret_ok :: "b64_pair \<Rightarrow> string \<Rightarrow> bool" where
  "secret_ok b s = (let bytes = snd b s in 10 \<le> length bytes \<and> length bytes \<le> 64 \<and> fst b bytes = s)"

definition strings_only :: "jsval \<Rightarrow> string list option" where
  "strings_only v = (case v of
     Arr vs \<Rightarrow> if list_all is_str vs then Some (map to_str vs) else None | _ \<Rightarrow> None)"

definition loadRaw :: "b64_pair \<Rightarrow> sf_file \<Rightarrow> sf_error + sf_state option" where
  "loadRaw b f = (case f of
       SfMissing \<Rightarrow> Inr None
     | SfUnreadable \<Rightarrow> Inl SfCorrupt
     | SfNotJson \<Rightarrow> Inl SfCorrupt
     | SfJson parsed \<Rightarrow>
         (if \<not> truthy parsed \<or> \<not> is_object parsed then Inl SfCorrupt
          else case int_of (getp parsed ''version'') of
            None \<Rightarrow> Inl SfCorrupt
          | Some version \<Rightarrow>
              (if version > SECOND_FACTOR_VERSION then Inl SfVersion
               else if version \<noteq> SECOND_FACTOR_VERSION then Inl SfCorrupt
               else let totp = getp parsed ''totp'' in
               case (getp totp ''secret'', int_of (getp totp ''lastUsedCounter'')) of
                 (Str secret, Some lastUsed) \<Rightarrow>
                   (if \<not> truthy totp \<or> \<not> secret_ok b secret then Inl SfCorrupt
                    else case strings_only (getp parsed ''recoveryCodes'') of
                      None \<Rightarrow> Inl SfCorrupt
                    | Some digests \<Rightarrow>
                        (if getp parsed ''epoch'' \<noteq> Undef \<and> int_of (getp parsed ''epoch'') = None then Inl SfCorrupt
                         else Inr (Some \<lparr>sf_secret = secret, sf_last = lastUsed, sf_codes = digests,
                                sf_epoch = (case int_of (getp parsed ''epoch'') of None \<Rightarrow> 0 | Some e \<Rightarrow> e)\<rparr>)))
               | _ \<Rightarrow> Inl SfCorrupt)))"

definition state_json :: "sf_state \<Rightarrow> jsval" where
  "state_json st = Obj [(''version'', Number (num_of_int SECOND_FACTOR_VERSION)),
     (''totp'', Obj [(''secret'', Str (sf_secret st)), (''lastUsedCounter'', Number (num_of_int (sf_last st)))]),
     (''recoveryCodes'', Arr (map Str (sf_codes st))),
     (''epoch'', Number (num_of_int (sf_epoch st)))]"

definition makeState :: "b64_pair \<Rightarrow> byte list \<Rightarrow> string list \<Rightarrow> int \<Rightarrow> int \<Rightarrow> sf_error + sf_state" where
  "makeState b secretBytes digests initialCounter epoch =
     (if initialCounter < NO_COUNTER then Inl SfBadCounter
      else Inr \<lparr>sf_secret = fst b secretBytes, sf_last = initialCounter, sf_codes = digests, sf_epoch = epoch\<rparr>)"

definition persist_state :: "sf_state \<Rightarrow> bool \<Rightarrow> sf_world \<Rightarrow> (sf_error + unit) \<times> sf_world" where
  "persist_state st write_done w =
     (if write_done then (Inr (), w\<lparr>main_file := SfJson (state_json st)\<rparr>) else (Inl SfPersist, w))"

definition persistAndBumpWatermark :: "sf_state \<Rightarrow> bool \<Rightarrow> bool \<Rightarrow> sf_world \<Rightarrow> (sf_error + unit) \<times> sf_world" where
  "persistAndBumpWatermark st write_done mark_done w = (case persist_state st write_done w of
     (Inl e, w') \<Rightarrow> (Inl e, w')
   | (Inr u, w') \<Rightarrow> (Inr (), bumpWatermark (sf_epoch st) mark_done w'))"

section \<open>Operations\<close>

definition isConfigured :: "b64_pair \<Rightarrow> sf_world \<Rightarrow> sf_error + bool" where
  "isConfigured b w = (case loadRaw b (main_file w) of Inl e \<Rightarrow> Inl e | Inr st \<Rightarrow> Inr (st \<noteq> None))"

definition checkForRollback :: "b64_pair \<Rightarrow> sf_world \<Rightarrow> bool" where
  "checkForRollback b w = (case loadRaw b (main_file w) of
     Inr (Some st) \<Rightarrow> sf_epoch st < loadWatermarkEpoch w | _ \<Rightarrow> False)"

text \<open>\<open>count ? generateRecoveryCodes(count) : generateRecoveryCodes()\<close>; 0 stands for no count.\<close>

definition new_codes ::
  "(byte list \<Rightarrow> string) \<Rightarrow> int \<Rightarrow> (nat \<Rightarrow> byte list) \<Rightarrow> sf_error + string list \<times> string list" where
  "new_codes sha count draw =
     (case generateRecoveryCodes sha (if count = 0 then int RECOVERY_CODE_COUNT else count) draw of
        None \<Rightarrow> Inl SfBadCount | Some r \<Rightarrow> Inr r)"

datatype sf_codes_result = AlreadyConfigured | NotConfigured | Codes "string list" bool

definition store_new ::
  "(byte list \<Rightarrow> string) \<Rightarrow> b64_pair \<Rightarrow> byte list \<Rightarrow> int \<Rightarrow> (nat \<Rightarrow> byte list) \<Rightarrow> int \<Rightarrow> int \<Rightarrow> bool \<Rightarrow> bool
   \<Rightarrow> sf_world \<Rightarrow> (sf_error + sf_codes_result) \<times> sf_world" where
  "store_new sha b secretBytes count draw initialCounter epoch write_done mark_done w =
     (case new_codes sha count draw of
        Inl e \<Rightarrow> (Inl e, w)
      | Inr (codes, digests) \<Rightarrow>
          (case makeState b secretBytes digests initialCounter epoch of
             Inl e \<Rightarrow> (Inl e, w)
           | Inr st \<Rightarrow>
               (case persistAndBumpWatermark st write_done mark_done w of
                  (Inl e, w') \<Rightarrow> (Inl e, w')
                | (Inr u, w') \<Rightarrow> (Inr (Codes codes False), w'))))"

definition enroll ::
  "(byte list \<Rightarrow> string) \<Rightarrow> b64_pair \<Rightarrow> byte list \<Rightarrow> int \<Rightarrow> (nat \<Rightarrow> byte list) \<Rightarrow> int \<Rightarrow> bool \<Rightarrow> bool
   \<Rightarrow> sf_world \<Rightarrow> (sf_error + sf_codes_result) \<times> sf_world" where
  "enroll sha b secretBytes count draw initialCounter write_done mark_done w =
     (if length secretBytes \<noteq> TOTP_SECRET_BYTES then (Inl SfBadSecret, w)
      else case loadRaw b (main_file w) of
        Inl e \<Rightarrow> (Inl e, w)
      | Inr (Some st) \<Rightarrow> (Inr AlreadyConfigured, w)
      | Inr None \<Rightarrow> store_new sha b secretBytes count draw initialCounter 0 write_done mark_done w)"

definition commit ::
  "(byte list \<Rightarrow> string) \<Rightarrow> b64_pair \<Rightarrow> byte list \<Rightarrow> int \<Rightarrow> (nat \<Rightarrow> byte list) \<Rightarrow> int \<Rightarrow> bool \<Rightarrow> bool
   \<Rightarrow> sf_world \<Rightarrow> (sf_error + sf_codes_result) \<times> sf_world" where
  "commit sha b secretBytes count draw initialCounter write_done mark_done w =
     (if length secretBytes \<noteq> TOTP_SECRET_BYTES then (Inl SfBadSecret, w)
      else let previous = (case loadRaw b (main_file w) of Inr (Some st) \<Rightarrow> sf_epoch st | _ \<Rightarrow> - 1)
           in store_new sha b secretBytes count draw initialCounter (previous + 1) write_done mark_done w)"

datatype totp_verdict = TotpNotConfigured | TotpInvalid | TotpReplay | TotpOk

definition verifyTotpToken ::
  "(byte list \<Rightarrow> byte list \<Rightarrow> byte list) \<Rightarrow> b64_pair \<Rightarrow> jsval \<Rightarrow> int \<Rightarrow> bool \<Rightarrow> sf_world
   \<Rightarrow> (sf_error + totp_verdict) \<times> sf_world" where
  "verifyTotpToken hmac b token timeSeconds write_done w =
     (case loadRaw b (main_file w) of
        Inl e \<Rightarrow> (Inl e, w)
      | Inr None \<Rightarrow> (Inr TotpNotConfigured, w)
      | Inr (Some st) \<Rightarrow>
          (case verifyTotpMatch hmac (snd b (sf_secret st)) token timeSeconds of
             None \<Rightarrow> (Inr TotpInvalid, w)
           | Some counter \<Rightarrow>
               (if counter \<le> sf_last st then (Inr TotpReplay, w)
                else case persist_state (st\<lparr>sf_last := counter\<rparr>) write_done w of
                    (Inl e, w') \<Rightarrow> (Inl e, w')
                  | (Inr u, w') \<Rightarrow> (Inr TotpOk, w'))))"

datatype code_verdict = CodeNotConfigured | CodeResetDetected | CodeMalformed | CodeUnknown | CodeOk nat

definition consume_code ::
  "(byte list \<Rightarrow> string) \<Rightarrow> b64_pair \<Rightarrow> jsval \<Rightarrow> bool \<Rightarrow> bool \<Rightarrow> sf_world \<Rightarrow> (sf_error + code_verdict) \<times> sf_world" where
  "consume_code sha b input write_done mark_done w =
     (case loadRaw b (main_file w) of
        Inl e \<Rightarrow> (Inl e, w)
      | Inr None \<Rightarrow> (Inr CodeNotConfigured, w)
      | Inr (Some st) \<Rightarrow>
          (if sf_epoch st < loadWatermarkEpoch w
           then (case persistAndBumpWatermark (st\<lparr>sf_codes := [], sf_epoch := loadWatermarkEpoch w + 1\<rparr>)
                        write_done mark_done w of
                   (Inl e, w') \<Rightarrow> (Inl e, w')
                 | (Inr u, w') \<Rightarrow> (Inr CodeResetDetected, w'))
           else case consumeRecoveryCode sha input (sf_codes st) of
               Malformed \<Rightarrow> (Inr CodeMalformed, w)
             | UnknownCode \<Rightarrow> (Inr CodeUnknown, w)
             | ConsumedOk remaining \<Rightarrow>
                 (case persistAndBumpWatermark (st\<lparr>sf_codes := remaining, sf_epoch := sf_epoch st + 1\<rparr>)
                         write_done mark_done w of
                    (Inl e, w') \<Rightarrow> (Inl e, w')
                  | (Inr u, w') \<Rightarrow> (Inr (CodeOk (length remaining)), w'))))"

definition regenerateRecoveryCodes ::
  "(byte list \<Rightarrow> string) \<Rightarrow> b64_pair \<Rightarrow> int \<Rightarrow> (nat \<Rightarrow> byte list) \<Rightarrow> bool \<Rightarrow> bool \<Rightarrow> sf_world
   \<Rightarrow> (sf_error + sf_codes_result) \<times> sf_world" where
  "regenerateRecoveryCodes sha b count draw write_done mark_done w =
     (case loadRaw b (main_file w) of
        Inl e \<Rightarrow> (Inl e, w)
      | Inr None \<Rightarrow> (Inr NotConfigured, w)
      | Inr (Some st) \<Rightarrow>
          (let watermarkEpoch = loadWatermarkEpoch w;
               healedRollback = (sf_epoch st < watermarkEpoch)
           in case new_codes sha count draw of
                Inl e \<Rightarrow> (Inl e, w)
              | Inr (codes, digests) \<Rightarrow>
                  (case persistAndBumpWatermark
                          (st\<lparr>sf_codes := digests, sf_epoch := max (sf_epoch st) watermarkEpoch + 1\<rparr>)
                          write_done mark_done w of
                     (Inl e, w') \<Rightarrow> (Inl e, w')
                   | (Inr u, w') \<Rightarrow> (Inr (Codes codes healedRollback), w'))))"

definition remainingRecoveryCodes :: "b64_pair \<Rightarrow> sf_world \<Rightarrow> sf_error + nat" where
  "remainingRecoveryCodes b w = (case loadRaw b (main_file w) of
     Inl e \<Rightarrow> Inl e | Inr None \<Rightarrow> Inr 0 | Inr (Some st) \<Rightarrow> Inr (length (sf_codes st)))"

definition clear_factor :: "sf_world \<Rightarrow> sf_world" where
  "clear_factor w = \<lparr>main_file = SfMissing, mark_file = None\<rparr>"

section \<open>Reading back what was written\<close>

definition valid_state :: "b64_pair \<Rightarrow> sf_state \<Rightarrow> bool" where
  "valid_state b st = secret_ok b (sf_secret st)"

lemma int_of_number [simp]: "int_of (Number (num_of_int i)) = Some i"
  by (simp add: int_of_def)

lemma strings_only_map [simp]: "strings_only (Arr (map Str ss)) = Some ss"
  by (simp add: strings_only_def list_all_iff comp_def)

lemma load_state_json: "valid_state b st \<Longrightarrow> loadRaw b (SfJson (state_json st)) = Inr (Some st)"
  by (simp add: loadRaw_def state_json_def valid_state_def Let_def SECOND_FACTOR_VERSION_def)

lemma load_valid: "loadRaw b f = Inr (Some st) \<Longrightarrow> valid_state b st"
  by (auto simp: loadRaw_def valid_state_def Let_def
      split: sf_file.splits if_splits option.splits jsval.splits)

lemma watermark_bump: "loadWatermarkEpoch (bumpWatermark e True w) = max (loadWatermarkEpoch w) e"
  by (simp add: bumpWatermark_def loadWatermarkEpoch_def max_def)

lemma watermark_bump_mono: "loadWatermarkEpoch w \<le> loadWatermarkEpoch (bumpWatermark e m w)"
  by (simp add: bumpWatermark_def loadWatermarkEpoch_def)

lemma bump_main [simp]: "main_file (bumpWatermark e m w) = main_file w"
  by (simp add: bumpWatermark_def)

lemma mark_main [simp]: "loadWatermarkEpoch (w\<lparr>main_file := f\<rparr>) = loadWatermarkEpoch w"
  by (simp add: loadWatermarkEpoch_def)

section \<open>Runs\<close>

text \<open>
  The operations of a console that is not reset, and the restoration of the main file, alone, from any
  copy of it that existed before. The history holds every version of the main file.
\<close>

datatype sf_op =
    SfVerify jsval int bool
  | SfConsume jsval bool bool
  | SfRegenerate int "nat \<Rightarrow> byte list" bool bool
  | SfCommit "byte list" int "nat \<Rightarrow> byte list" int bool bool
  | SfEnroll "byte list" int "nat \<Rightarrow> byte list" int bool bool
  | SfRestore nat

record crypto =
  c_hmac :: "byte list \<Rightarrow> byte list \<Rightarrow> byte list"
  c_sha :: "byte list \<Rightarrow> string"
  c_b64 :: b64_pair

fun sf_effect :: "crypto \<Rightarrow> sf_op \<Rightarrow> sf_file list \<Rightarrow> sf_world \<Rightarrow> sf_world" where
  "sf_effect c (SfVerify token t wd) hist w = snd (verifyTotpToken (c_hmac c) (c_b64 c) token t wd w)"
| "sf_effect c (SfConsume input wd md) hist w = snd (consume_code (c_sha c) (c_b64 c) input wd md w)"
| "sf_effect c (SfRegenerate count draw wd md) hist w =
     snd (regenerateRecoveryCodes (c_sha c) (c_b64 c) count draw wd md w)"
| "sf_effect c (SfCommit secret count draw ctr wd md) hist w =
     snd (commit (c_sha c) (c_b64 c) secret count draw ctr wd md w)"
| "sf_effect c (SfEnroll secret count draw ctr wd md) hist w =
     snd (enroll (c_sha c) (c_b64 c) secret count draw ctr wd md w)"
| "sf_effect c (SfRestore n) hist w = (if n < length hist then w\<lparr>main_file := hist ! n\<rparr> else w)"

definition sf_run_step :: "crypto \<Rightarrow> sf_op \<Rightarrow> sf_world \<times> sf_file list \<Rightarrow> sf_world \<times> sf_file list" where
  "sf_run_step c op s = (case s of (w, hist) \<Rightarrow> let w' = sf_effect c op hist w in (w', main_file w' # hist))"

fun marks :: "sf_op \<Rightarrow> bool" where
  "marks (SfConsume input wd md) = md"
| "marks (SfRegenerate count draw wd md) = md"
| "marks (SfCommit secret count draw ctr wd md) = md"
| "marks (SfEnroll secret count draw ctr wd md) = md"
| "marks _ = True"

fun drawn :: "sf_op \<Rightarrow> byte list set" where
  "drawn (SfRegenerate count draw wd md) = range draw"
| "drawn (SfCommit secret count draw ctr wd md) = range draw"
| "drawn (SfEnroll secret count draw ctr wd md) = range draw"
| "drawn _ = {}"

text \<open>The digests an operation may put into the file.\<close>

definition new_digests :: "crypto \<Rightarrow> sf_op \<Rightarrow> string set" where
  "new_digests c op = hashRecoveryToken (c_sha c) ` drawn op"

definition crypto_ok :: "crypto \<Rightarrow> bool" where
  "crypto_ok c = (sha_shaped (c_sha c) \<and> (\<forall>bs. snd (c_b64 c) (fst (c_b64 c) bs) = bs))"

text \<open>
  What any operation can do to the main file: leave it, write the loaded state with the same codes
  and epoch, write codes that are new (or none), or, when the loaded state is not behind the
  watermark, some of its codes.
\<close>

definition writes_state :: "crypto \<Rightarrow> string set \<Rightarrow> bool \<Rightarrow> sf_world \<Rightarrow> sf_world \<Rightarrow> sf_state \<Rightarrow> bool" where
  "writes_state c new md w w' st' =
     (valid_state (c_b64 c) st' \<and> main_file w' = SfJson (state_json st')
      \<and> ((\<exists>st. loadRaw (c_b64 c) (main_file w) = Inr (Some st) \<and> sf_codes st' = sf_codes st \<and> sf_epoch st' = sf_epoch st)
         \<or> (md \<longrightarrow> sf_epoch st' \<le> loadWatermarkEpoch w')
           \<and> (set (sf_codes st') \<subseteq> new
              \<or> (\<exists>st. loadRaw (c_b64 c) (main_file w) = Inr (Some st) \<and> loadWatermarkEpoch w \<le> sf_epoch st
                   \<and> set (sf_codes st') \<subseteq> set (sf_codes st)))))"

definition effect_ok :: "crypto \<Rightarrow> string set \<Rightarrow> bool \<Rightarrow> sf_world \<Rightarrow> sf_world \<Rightarrow> bool" where
  "effect_ok c new md w w' =
     (loadWatermarkEpoch w \<le> loadWatermarkEpoch w'
      \<and> (main_file w' = main_file w \<or> (\<exists>st'. writes_state c new md w w' st')))"

lemma effect_refl [simp]: "effect_ok c new md w w"
  by (simp add: effect_ok_def)

lemma persist_bump:
  assumes "persistAndBumpWatermark st' wd md w = (r, w')"
  shows "w' = w \<and> r = Inl SfPersist \<or> r = Inr () \<and> main_file w' = SfJson (state_json st')
    \<and> loadWatermarkEpoch w \<le> loadWatermarkEpoch w' \<and> (md \<longrightarrow> loadWatermarkEpoch w' = max (loadWatermarkEpoch w) (sf_epoch st'))"
  using assms watermark_bump_mono [of "w\<lparr>main_file := SfJson (state_json st')\<rparr>" "sf_epoch st'" md]
    watermark_bump [of "sf_epoch st'" "w\<lparr>main_file := SfJson (state_json st')\<rparr>"]
  by (auto simp: persistAndBumpWatermark_def persist_state_def split: if_splits)

lemma new_codes_fresh:
  "new_codes sha count draw = Inr (codes, digests) \<Longrightarrow> set digests \<subseteq> range (\<lambda>n. hashRecoveryToken sha (draw n))"
  by (auto simp: new_codes_def generateRecoveryCodes_def Let_def split: option.splits if_splits)

text \<open>Writing a valid state with new codes, or with some of the codes of a state that is not behind.\<close>

lemma bump_effect:
  assumes "valid_state (c_b64 c) st'"
    and "set (sf_codes st') \<subseteq> new \<or> (\<exists>st. loadRaw (c_b64 c) (main_file w) = Inr (Some st)
           \<and> loadWatermarkEpoch w \<le> sf_epoch st \<and> set (sf_codes st') \<subseteq> set (sf_codes st))"
    and "persistAndBumpWatermark st' wd md w = (r, w')"
  shows "effect_ok c new md w w'"
  using persist_bump [OF assms(3)]
proof (elim disjE)
  assume h: "r = Inr () \<and> main_file w' = SfJson (state_json st') \<and> loadWatermarkEpoch w \<le> loadWatermarkEpoch w'
    \<and> (md \<longrightarrow> loadWatermarkEpoch w' = max (loadWatermarkEpoch w) (sf_epoch st'))"
  then have "writes_state c new md w w' st'"
    unfolding writes_state_def using assms(1,2) by simp
  then show ?thesis using h unfolding effect_ok_def by blast
qed simp

lemma store_new_effect:
  assumes "crypto_ok c" and "length secret = TOTP_SECRET_BYTES"
  shows "effect_ok c (range (\<lambda>n. hashRecoveryToken (c_sha c) (draw n))) md w
    (snd (store_new (c_sha c) (c_b64 c) secret count draw ctr epoch wd md w))"
proof (cases "new_codes (c_sha c) count draw")
  case (Inr r)
  obtain codes digests where r: "r = (codes, digests)" by (cases r)
  show ?thesis
  proof (cases "makeState (c_b64 c) secret digests ctr epoch")
    case makes: (Inr st)
    have st: "st = \<lparr>sf_secret = fst (c_b64 c) secret, sf_last = ctr, sf_codes = digests, sf_epoch = epoch\<rparr>"
      using makes by (simp add: makeState_def split: if_splits)
    have v: "valid_state (c_b64 c) st"
      using assms by (simp add: st valid_state_def secret_ok_def crypto_ok_def TOTP_SECRET_BYTES_def Let_def)
    obtain res w' where p: "persistAndBumpWatermark st wd md w = (res, w')" by fastforce
    have "set (sf_codes st) \<subseteq> range (\<lambda>n. hashRecoveryToken (c_sha c) (draw n))"
      using new_codes_fresh Inr r st by simp
    then have "effect_ok c (range (\<lambda>n. hashRecoveryToken (c_sha c) (draw n))) md w w'"
      using bump_effect [OF v _ p] by blast
    then show ?thesis using Inr r makes p by (cases res) (simp_all add: store_new_def)
  qed (simp add: store_new_def Inr r)
qed (simp add: store_new_def)

lemma consume_effect:
  "effect_ok c new md w (snd (consume_code (c_sha c) (c_b64 c) input wd md w))"
proof (cases "loadRaw (c_b64 c) (main_file w)")
  case (Inr o')
  show ?thesis
  proof (cases o')
    case (Some st)
    have l: "loadRaw (c_b64 c) (main_file w) = Inr (Some st)" using Inr Some by simp
    have v: "valid_state (c_b64 c) (st\<lparr>sf_codes := ds, sf_epoch := e\<rparr>)" for ds e
      using load_valid [OF l] by (simp add: valid_state_def)
    show ?thesis
    proof (cases "sf_epoch st < loadWatermarkEpoch w")
      case True
      obtain res w' where p: "persistAndBumpWatermark (st\<lparr>sf_codes := [], sf_epoch := loadWatermarkEpoch w + 1\<rparr>) wd md w
          = (res, w')" by fastforce
      have "effect_ok c new md w w'" by (rule bump_effect [OF v _ p]) simp
      then show ?thesis using l True p by (cases res) (simp_all add: consume_code_def)
    next
      case False
      show ?thesis
      proof (cases "consumeRecoveryCode (c_sha c) input (sf_codes st)")
        case (ConsumedOk remaining)
        obtain res w' where p: "persistAndBumpWatermark (st\<lparr>sf_codes := remaining, sf_epoch := sf_epoch st + 1\<rparr>) wd md w
            = (res, w')" by fastforce
        have "set remaining \<subseteq> set (sf_codes st)"
          using ConsumedOk by (auto simp: consumeRecoveryCode_def split: option.splits if_splits)
        then have "effect_ok c new md w w'" using bump_effect [OF v _ p] l False by simp
        then show ?thesis using l False ConsumedOk p by (cases res) (simp_all add: consume_code_def)
      qed (use l False in \<open>simp_all add: consume_code_def\<close>)
    qed
  qed (simp add: consume_code_def Inr)
qed (simp add: consume_code_def)

lemma regenerate_effect:
  "effect_ok c (range (\<lambda>n. hashRecoveryToken (c_sha c) (draw n))) md w
     (snd (regenerateRecoveryCodes (c_sha c) (c_b64 c) count draw wd md w))"
proof (cases "loadRaw (c_b64 c) (main_file w)")
  case (Inr o')
  show ?thesis
  proof (cases o')
    case (Some st)
    have l: "loadRaw (c_b64 c) (main_file w) = Inr (Some st)" using Inr Some by simp
    show ?thesis
    proof (cases "new_codes (c_sha c) count draw")
      case new: (Inr r)
      obtain codes digests where r: "r = (codes, digests)" by (cases r)
      let ?e = "max (sf_epoch st) (loadWatermarkEpoch w) + 1"
      obtain res w' where p: "persistAndBumpWatermark (st\<lparr>sf_codes := digests, sf_epoch := ?e\<rparr>) wd md w = (res, w')"
        by fastforce
      have v: "valid_state (c_b64 c) (st\<lparr>sf_codes := digests, sf_epoch := ?e\<rparr>)"
        using load_valid [OF l] by (simp add: valid_state_def)
      have "set digests \<subseteq> range (\<lambda>n. hashRecoveryToken (c_sha c) (draw n))"
        using new_codes_fresh new r by simp
      then have "effect_ok c (range (\<lambda>n. hashRecoveryToken (c_sha c) (draw n))) md w w'"
        by (intro bump_effect [OF v _ p]) simp
      then show ?thesis using l new r p by (cases res) (simp_all add: regenerateRecoveryCodes_def Let_def)
    qed (simp add: regenerateRecoveryCodes_def l Let_def)
  qed (simp add: regenerateRecoveryCodes_def Inr)
qed (simp add: regenerateRecoveryCodes_def)

lemma verify_effect:
  "effect_ok c new md w (snd (verifyTotpToken (c_hmac c) (c_b64 c) token t wd w))"
proof (cases "loadRaw (c_b64 c) (main_file w)")
  case (Inr o')
  show ?thesis
  proof (cases o')
    case (Some st)
    have l: "loadRaw (c_b64 c) (main_file w) = Inr (Some st)" using Inr Some by simp
    have "writes_state c new md w (w\<lparr>main_file := SfJson (state_json (st\<lparr>sf_last := n\<rparr>))\<rparr>) (st\<lparr>sf_last := n\<rparr>)" for n
      using load_valid [OF l] l unfolding writes_state_def by (simp add: valid_state_def)
    then have "effect_ok c new md w (w\<lparr>main_file := SfJson (state_json (st\<lparr>sf_last := n\<rparr>))\<rparr>)" for n
      unfolding effect_ok_def by auto
    then show ?thesis
      by (auto simp: verifyTotpToken_def l persist_state_def split: option.splits)
  qed (simp add: verifyTotpToken_def Inr)
qed (simp add: verifyTotpToken_def)

lemma op_effect:
  assumes "crypto_ok c" and "\<forall>n. op \<noteq> SfRestore n"
  shows "effect_ok c (new_digests c op) (marks op) w (sf_effect c op hist w)"
proof (cases op)
  case (SfCommit secret count draw ctr wd md)
  then show ?thesis
    using store_new_effect [OF assms(1), of secret draw md w count ctr _ wd]
    by (simp add: commit_def Let_def new_digests_def image_image)
next
  case (SfEnroll secret count draw ctr wd md)
  then show ?thesis
    using store_new_effect [OF assms(1), of secret draw md w count ctr 0 wd]
    by (simp add: enroll_def new_digests_def image_image split: sum.splits option.splits)
qed (use assms in \<open>simp_all add: verify_effect consume_effect regenerate_effect new_digests_def image_image\<close>)

fun sf_run :: "crypto \<Rightarrow> sf_op list \<Rightarrow> sf_world \<times> sf_file list \<Rightarrow> sf_world \<times> sf_file list" where
  "sf_run c [] s = s"
| "sf_run c (op # ops) s = sf_run c ops (sf_run_step c op s)"

text \<open>
  Every copy of the main file has an epoch the watermark has seen; and copies that hold a digest are
  all behind the watermark.
\<close>

definition copies_marked :: "crypto \<Rightarrow> sf_world \<times> sf_file list \<Rightarrow> bool" where
  "copies_marked c s = (case s of (w, hist) \<Rightarrow> main_file w \<in> set hist
     \<and> (\<forall>f st. f \<in> set hist \<longrightarrow> loadRaw (c_b64 c) f = Inr (Some st) \<longrightarrow> sf_epoch st \<le> loadWatermarkEpoch w))"

definition spent :: "crypto \<Rightarrow> string \<Rightarrow> sf_world \<times> sf_file list \<Rightarrow> bool" where
  "spent c d s = (case s of (w, hist) \<Rightarrow> main_file w \<in> set hist
     \<and> (\<forall>f st. f \<in> set hist \<longrightarrow> loadRaw (c_b64 c) f = Inr (Some st) \<longrightarrow> d \<in> set (sf_codes st)
          \<longrightarrow> sf_epoch st < loadWatermarkEpoch w))"

lemma marked_step:
  assumes "crypto_ok c" and "marks op" and "copies_marked c (w, hist)"
  shows "copies_marked c (sf_run_step c op (w, hist))"
proof (cases "\<exists>n. op = SfRestore n")
  case True
  then show ?thesis using assms(3)
    by (auto simp: sf_run_step_def copies_marked_def Let_def split: if_splits) (meson nth_mem)
next
  case False
  let ?w = "sf_effect c op hist w"
  have e: "effect_ok c (new_digests c op) True w ?w" using op_effect [of c op w hist] assms False by auto
  have old: "sf_epoch st \<le> loadWatermarkEpoch ?w" if "f \<in> set hist" "loadRaw (c_b64 c) f = Inr (Some st)" for f st
    using assms(3) that e unfolding copies_marked_def effect_ok_def by fastforce
  have "sf_epoch st \<le> loadWatermarkEpoch ?w" if l: "loadRaw (c_b64 c) (main_file ?w) = Inr (Some st)" for st
  proof (cases "main_file ?w = main_file w")
    case True
    then show ?thesis using old [of "main_file w"] l assms(3) by (simp add: copies_marked_def)
  next
    case False
    then obtain st' where s: "writes_state c (new_digests c op) True w ?w st'"
      using e by (auto simp: effect_ok_def)
    then have "st' = st" using l load_state_json [of "c_b64 c" st'] by (simp add: writes_state_def)
    then show ?thesis using s old [of "main_file w"] assms(3)
      by (auto simp: writes_state_def copies_marked_def)
  qed
  with old show ?thesis by (auto simp: sf_run_step_def copies_marked_def Let_def)
qed

lemma spent_step:
  assumes "crypto_ok c" and "d \<notin> new_digests c op" and "spent c d (w, hist)"
  shows "spent c d (sf_run_step c op (w, hist))"
proof (cases "\<exists>n. op = SfRestore n")
  case True
  then show ?thesis using assms(3)
    by (auto simp: sf_run_step_def spent_def Let_def split: if_splits) (meson nth_mem)
next
  case False
  let ?w = "sf_effect c op hist w"
  have e: "effect_ok c (new_digests c op) (marks op) w ?w" using op_effect [of c op w hist] assms(1) False by auto
  have old: "sf_epoch st < loadWatermarkEpoch ?w"
    if "f \<in> set hist" "loadRaw (c_b64 c) f = Inr (Some st)" "d \<in> set (sf_codes st)" for f st
    using assms(3) that e unfolding spent_def effect_ok_def by fastforce
  have "sf_epoch st < loadWatermarkEpoch ?w"
    if l: "loadRaw (c_b64 c) (main_file ?w) = Inr (Some st)" and d: "d \<in> set (sf_codes st)" for st
  proof (cases "main_file ?w = main_file w")
    case True
    then show ?thesis using old [of "main_file w"] l d assms(3) by (simp add: spent_def)
  next
    case False
    then obtain st' where s: "writes_state c (new_digests c op) (marks op) w ?w st'"
      using e by (auto simp: effect_ok_def)
    then have st: "st' = st" using l load_state_json [of "c_b64 c" st'] by (simp add: writes_state_def)
    have main: "main_file w \<in> set hist" using assms(3) by (simp add: spent_def)
    have behind: "sf_epoch old < loadWatermarkEpoch w" if "loadRaw (c_b64 c) (main_file w) = Inr (Some old)"
        "d \<in> set (sf_codes old)" for old
      using assms(3) that main by (auto simp: spent_def)
    show ?thesis using s old [OF main] behind d assms(2) unfolding writes_state_def st by fastforce
  qed
  with old show ?thesis by (auto simp: sf_run_step_def spent_def Let_def)
qed


lemma marked_run:
  assumes "crypto_ok c"
  shows "list_all marks ops \<Longrightarrow> copies_marked c s \<Longrightarrow> copies_marked c (sf_run c ops s)"
proof (induction ops arbitrary: s)
  case (Cons op ops)
  then show ?case using marked_step [OF assms, of op "fst s" "snd s"] by simp
qed simp

lemma spent_run:
  assumes "crypto_ok c"
  shows "\<forall>op\<in>set ops. d \<notin> new_digests c op \<Longrightarrow> spent c d s \<Longrightarrow> spent c d (sf_run c ops s)"
proof (induction ops arbitrary: s)
  case (Cons op ops)
  then show ?case using spent_step [OF assms, of d op "fst s" "snd s"] by simp
qed simp

text \<open>A code that is accepted is spent.\<close>

lemma consume_ok_cases:
  assumes "consume_code sha b input wd md w = (Inr (CodeOk n), w')"
  obtains st d remaining where "loadRaw b (main_file w) = Inr (Some st)" "loadWatermarkEpoch w \<le> sf_epoch st"
    "consumeRecoveryCode sha input (sf_codes st) = ConsumedOk remaining" "n = length remaining" "wd"
    "w' = bumpWatermark (sf_epoch st + 1) md
       (w\<lparr>main_file := SfJson (state_json (st\<lparr>sf_codes := remaining, sf_epoch := sf_epoch st + 1\<rparr>))\<rparr>)"
  using assms
  by (auto simp: consume_code_def persistAndBumpWatermark_def persist_state_def
      split: sum.splits option.splits if_splits consumed.splits)

lemma spent_after_consume:
  assumes "crypto_ok c" and "copies_marked c (w, hist)"
    and "consume_code (c_sha c) (c_b64 c) input wd True w = (Inr (CodeOk n), w')"
    and "digestFromInput (c_sha c) input = Some d"
  shows "spent c d (w', main_file w' # hist)"
proof -
  obtain st remaining where l: "loadRaw (c_b64 c) (main_file w) = Inr (Some st)" "loadWatermarkEpoch w \<le> sf_epoch st"
      and r: "consumeRecoveryCode (c_sha c) input (sf_codes st) = ConsumedOk remaining"
      and w': "w' = bumpWatermark (sf_epoch st + 1) True
       (w\<lparr>main_file := SfJson (state_json (st\<lparr>sf_codes := remaining, sf_epoch := sf_epoch st + 1\<rparr>))\<rparr>)"
    using consume_ok_cases [OF assms(3)] by metis
  let ?st = "st\<lparr>sf_codes := remaining, sf_epoch := sf_epoch st + 1\<rparr>"
  have mark: "loadWatermarkEpoch w' = sf_epoch st + 1"
    using l(2) by (simp add: w' watermark_bump)
  have "sf_epoch st' < loadWatermarkEpoch w'" if "f \<in> set hist" "loadRaw (c_b64 c) f = Inr (Some st')" for f st'
    using assms(2) that l(2) unfolding mark copies_marked_def by fastforce
  moreover have "valid_state (c_b64 c) ?st" using load_valid [OF l(1)] by (simp add: valid_state_def)
  then have "loadRaw (c_b64 c) (main_file w') = Inr (Some ?st)"
    using load_state_json by (simp add: w')
  moreover have "d \<notin> set remaining"
    using r assms(1,4) by (auto simp: consume_cases crypto_ok_def split: if_splits)
  ultimately show ?thesis by (auto simp: spent_def)
qed

definition fresh_world :: sf_world where
  "fresh_world = \<lparr>main_file = SfMissing, mark_file = None\<rparr>"

lemma fresh_marked: "copies_marked c (fresh_world, [SfMissing])"
  by (simp add: copies_marked_def fresh_world_def loadRaw_def)

text \<open>
  C5. Single use survives a restored backup. From a fresh console whose watermark writes succeed, run
  any operations, accept a recovery code, and run any operations again, restorations of the main file
  from every earlier copy of it included. As long as nobody resets the factor and no new random token
  has the digest of that code, the code is not accepted again, in whatever form it is typed and however
  the writes fail.
\<close>

theorem spent_code_never_accepted_again:
  assumes "crypto_ok c" and "list_all marks ops"
    and "sf_run c ops (fresh_world, [SfMissing]) = (w, hist)"
    and "consume_code (c_sha c) (c_b64 c) input wd True w = (Inr (CodeOk n), w')"
    and "digestFromInput (c_sha c) input = Some d"
    and "\<forall>op\<in>set ops'. d \<notin> new_digests c op"
    and "sf_run c ops' (w', main_file w' # hist) = (w2, hist2)"
    and "digestFromInput (c_sha c) input' = Some d"
  shows "fst (consume_code (c_sha c) (c_b64 c) input' wd' md' w2) \<noteq> Inr (CodeOk m)"
proof
  assume "fst (consume_code (c_sha c) (c_b64 c) input' wd' md' w2) = Inr (CodeOk m)"
  then have ok: "consume_code (c_sha c) (c_b64 c) input' wd' md' w2
      = (Inr (CodeOk m), snd (consume_code (c_sha c) (c_b64 c) input' wd' md' w2))" by (metis prod.collapse)
  have "copies_marked c (w, hist)" using marked_run [OF assms(1,2) fresh_marked] assms(3) by simp
  from spent_run [OF assms(1,6) spent_after_consume [OF assms(1) this assms(4,5)]]
  have s: "spent c d (w2, hist2)" unfolding assms(7) .
  from consume_ok_cases [OF ok] obtain st remaining where
      l: "loadRaw (c_b64 c) (main_file w2) = Inr (Some st)" "loadWatermarkEpoch w2 \<le> sf_epoch st"
      and r: "consumeRecoveryCode (c_sha c) input' (sf_codes st) = ConsumedOk remaining" by metis
  have "d \<in> set (sf_codes st)"
    using r assms(1,8) by (auto simp: consume_cases crypto_ok_def split: if_splits)
  with s l show False by (auto simp: spent_def)
qed

section \<open>Examples\<close>

definition crypto_example :: crypto where
  "crypto_example = \<lparr>c_hmac = (\<lambda>k m. replicate 20 0), c_sha = sha_example, c_b64 = (bytes_hex, hex_bytes)\<rparr>"

lemma crypto_example_sel [simp]:
  "c_hmac crypto_example = (\<lambda>k m. replicate 20 0)" "c_sha crypto_example = sha_example"
  "c_b64 crypto_example = (bytes_hex, hex_bytes)"
  by (simp_all add: crypto_example_def)

lemma crypto_example_ok: "crypto_ok crypto_example"
  by (simp add: crypto_ok_def sha_example_shaped)

definition token_example :: "byte list" where "token_example = replicate 16 0"
definition code_example :: string where "code_example = formatRecoveryCode sha_example token_example"
definition digest_example :: string where "digest_example = replicate 64 CHR ''a''"
definition secret_example :: "byte list" where "secret_example = replicate 20 1"

definition enrolled_state :: "string list \<Rightarrow> int \<Rightarrow> sf_state" where
  "enrolled_state ds e = \<lparr>sf_secret = bytes_hex secret_example, sf_last = 0, sf_codes = ds, sf_epoch = e\<rparr>"

definition world_at :: "string list \<Rightarrow> int \<Rightarrow> int \<Rightarrow> sf_world" where
  "world_at ds e m = \<lparr>main_file = SfJson (state_json (enrolled_state ds e)),
     mark_file = (if m = 0 then None else Some (Obj [(''version'', Number (Num 1)), (''epoch'', Number (num_of_int m))]))\<rparr>"

lemma example_digest: "digestFromInput sha_example (Str code_example) = Some digest_example"
  using printed_digest [OF sha_example_shaped, of token_example]
  by (simp add: code_example_def token_example_def hashRecoveryToken_def sha_example_def digest_example_def)

lemma world_at_sel [simp]:
  "loadRaw (bytes_hex, hex_bytes) (main_file (world_at ds e m)) = Inr (Some (enrolled_state ds e))"
  "loadWatermarkEpoch (world_at ds e m) = m"
  using load_state_json [of "(bytes_hex, hex_bytes)" "enrolled_state ds e"]
  by (simp_all add: world_at_def loadWatermarkEpoch_def valid_state_def secret_ok_def enrolled_state_def
      secret_example_def Let_def)

lemma example_new: "new_codes sha_example 1 (\<lambda>n. token_example) = Inr ([code_example], [digest_example])"
  by (simp add: new_codes_def generateRecoveryCodes_def Let_def code_example_def token_example_def
      RECOVERY_TOKEN_BYTES_def hashRecoveryToken_def sha_example_def digest_example_def)

lemma enroll_example:
  "enroll sha_example (bytes_hex, hex_bytes) secret_example 1 (\<lambda>n. token_example) 0 True True fresh_world
     = (Inr (Codes [code_example] False), world_at [digest_example] 0 0)"
  by (simp add: enroll_def secret_example_def TOTP_SECRET_BYTES_def fresh_world_def loadRaw_def store_new_def example_new
      makeState_def NO_COUNTER_def persistAndBumpWatermark_def persist_state_def bumpWatermark_def loadWatermarkEpoch_def
      world_at_def enrolled_state_def)

lemma consume_example:
  "consume_code sha_example (bytes_hex, hex_bytes) (Str code_example) True True (world_at [digest_example] 0 0)
     = (Inr (CodeOk 0), world_at [] 1 1)"
  by (simp add: consume_code_def consume_cases [OF sha_example_shaped] example_digest persistAndBumpWatermark_def
      persist_state_def) (simp add: world_at_def enrolled_state_def bumpWatermark_def loadWatermarkEpoch_def)

lemma spent_code_example:
  "sf_run crypto_example [SfEnroll secret_example 1 (\<lambda>n. token_example) 0 True True] (fresh_world, [SfMissing])
     = (world_at [digest_example] 0 0, [main_file (world_at [digest_example] 0 0), SfMissing])"
  by (simp add: sf_run_step_def enroll_example Let_def)

theorem spent_code_never_accepted_again_witness:
  "fst (consume_code (c_sha crypto_example) (c_b64 crypto_example) (Str code_example) True True
     (fst (sf_run crypto_example [SfRestore 1]
       (world_at [] 1 1, main_file (world_at [] 1 1) # [main_file (world_at [digest_example] 0 0), SfMissing]))))
   \<noteq> Inr (CodeOk 0)"
proof (rule spent_code_never_accepted_again [OF crypto_example_ok _ spent_code_example _ _ _ prod.collapse [symmetric]])
  show "consume_code (c_sha crypto_example) (c_b64 crypto_example) (Str code_example) True True (world_at [digest_example] 0 0)
     = (Inr (CodeOk 0), world_at [] 1 1)"
    by (simp add: consume_example)
  show "digestFromInput (c_sha crypto_example) (Str code_example) = Some digest_example"
    by (simp add: example_digest)
  show "digestFromInput (c_sha crypto_example) (Str code_example) = Some digest_example"
    by (simp add: example_digest)
qed (simp_all add: new_digests_def)

section \<open>Time-based codes\<close>

lemma verify_ok_cases:
  assumes "verifyTotpToken hmac b token t wd w = (Inr TotpOk, w')"
  obtains st n where "loadRaw b (main_file w) = Inr (Some st)" "verifyTotpMatch hmac (snd b (sf_secret st)) token t = Some n"
    "sf_last st < n" "w' = w\<lparr>main_file := SfJson (state_json (st\<lparr>sf_last := n\<rparr>))\<rparr>"
  using assms by (auto simp: verifyTotpToken_def persist_state_def split: sum.splits option.splits if_splits)

text \<open>The operations of a running console on an enrolled factor; enrolling again is refused.\<close>

fun routine :: "sf_op \<Rightarrow> bool" where
  "routine (SfCommit secret count draw ctr wd md) = False"
| "routine (SfRestore n) = False"
| "routine _ = True"

definition last_at_least :: "crypto \<Rightarrow> string \<Rightarrow> int \<Rightarrow> sf_world \<Rightarrow> bool" where
  "last_at_least c secret n w = (\<exists>st. loadRaw (c_b64 c) (main_file w) = Inr (Some st)
     \<and> sf_secret st = secret \<and> n \<le> sf_last st)"

lemma last_written:
  assumes "secret_ok (c_b64 c) secret" and "n \<le> sf_last st" and "sf_secret st = secret"
    and "main_file w' = SfJson (state_json st)"
  shows "last_at_least c secret n w'"
  using assms load_state_json [of "c_b64 c" st] by (simp add: last_at_least_def valid_state_def)

lemma bump_last:
  assumes "persistAndBumpWatermark st' wd md w = (r, w')" and "last_at_least c secret n w"
    and "sf_secret st' = secret" and "n \<le> sf_last st'" and "secret_ok (c_b64 c) secret"
  shows "last_at_least c secret n w'"
  using persist_bump [OF assms(1)] last_written [OF assms(5,4,3)] assms(2) by auto

lemma persist_snd:
  "snd (case p of (Inl e, w') \<Rightarrow> (Inl e, w') | (Inr u, w') \<Rightarrow> (Inr x, w')) = snd p"
  by (cases p; cases "fst p") auto

lemma routine_step:
  assumes "routine op" and "last_at_least c secret n w"
  shows "last_at_least c secret n (sf_effect c op hist w)"
proof -
  obtain st where l: "loadRaw (c_b64 c) (main_file w) = Inr (Some st)" and s: "sf_secret st = secret" "n \<le> sf_last st"
    using assms(2) by (auto simp: last_at_least_def)
  have ok: "secret_ok (c_b64 c) secret" using load_valid [OF l] s by (simp add: valid_state_def)
  have bump: "last_at_least c secret n (snd (persistAndBumpWatermark st' wd md w))"
    if "sf_secret st' = secret" "n \<le> sf_last st'" for st' wd md
    using bump_last [OF prod.collapse [symmetric] assms(2) that ok] .
  show ?thesis
  proof (cases op)
    case (SfVerify token t wd)
    have "last_at_least c secret n (w\<lparr>main_file := SfJson (state_json (st\<lparr>sf_last := m\<rparr>))\<rparr>)" if "n \<le> m" for m
      by (rule last_written [OF ok]) (use that s in simp_all)
    with SfVerify show ?thesis using assms(2) s
      by (auto simp: verifyTotpToken_def l persist_state_def split: option.splits)
  next
    case (SfConsume input wd md)
    then show ?thesis using assms(2) s
      by (cases "consumeRecoveryCode (c_sha c) input (sf_codes st)") (simp_all add: consume_code_def l persist_snd bump)
  next
    case (SfRegenerate count draw wd md)
    then show ?thesis using assms(2) s
      by (cases "new_codes (c_sha c) count draw") (simp_all add: regenerateRecoveryCodes_def l Let_def persist_snd bump split: prod.split)
  next
    case (SfEnroll secret' count draw ctr wd md)
    then show ?thesis using assms(2) by (simp add: enroll_def l)
  qed (use assms(1) in simp_all)
qed

lemma routine_run:
  "list_all routine ops \<Longrightarrow> last_at_least c secret n (fst s) \<Longrightarrow> last_at_least c secret n (fst (sf_run c ops s))"
proof (induction ops arbitrary: s)
  case (Cons op ops)
  then show ?case using routine_step [of op c secret n "fst s" "snd s"]
    by (simp add: sf_run_step_def Let_def split_beta)
qed simp

text \<open>
  No time-based code is accepted twice: between any two codes that one factor accepts, whatever
  else the console did meanwhile, the matched time step strictly increases.
\<close>

theorem accepted_steps_increase:
  assumes "verifyTotpToken (c_hmac c) (c_b64 c) token t wd w = (Inr TotpOk, w1)"
    and "list_all routine ops" and "sf_run c ops (w1, hist) = (w2, hist2)"
    and "verifyTotpToken (c_hmac c) (c_b64 c) token' t' wd' w2 = (Inr TotpOk, w3)"
  shows "\<exists>secret n n'. verifyTotpMatch (c_hmac c) secret token t = Some n
    \<and> verifyTotpMatch (c_hmac c) secret token' t' = Some n' \<and> n < n'"
proof -
  obtain st n where l: "loadRaw (c_b64 c) (main_file w) = Inr (Some st)"
      and m: "verifyTotpMatch (c_hmac c) (snd (c_b64 c) (sf_secret st)) token t = Some n"
      and w1: "w1 = w\<lparr>main_file := SfJson (state_json (st\<lparr>sf_last := n\<rparr>))\<rparr>"
    using verify_ok_cases [OF assms(1)] by metis
  have "last_at_least c (sf_secret st) n w1"
    using last_written [of c "sf_secret st" n "st\<lparr>sf_last := n\<rparr>" w1] load_valid [OF l] w1 by (simp add: valid_state_def)
  then have "last_at_least c (sf_secret st) n w2"
    using routine_run [OF assms(2), of c "sf_secret st" n "(w1, hist)"] assms(3) by simp
  then obtain st2 where l2: "loadRaw (c_b64 c) (main_file w2) = Inr (Some st2)" "sf_secret st2 = sf_secret st" "n \<le> sf_last st2"
    by (auto simp: last_at_least_def)
  from verify_ok_cases [OF assms(4)] obtain n' where
    "verifyTotpMatch (c_hmac c) (snd (c_b64 c) (sf_secret st)) token' t' = Some n'" "sf_last st2 < n'"
    using l2 by (metis Inr_inject option.inject)
  then show ?thesis using m l2(3) by (meson le_less_trans)
qed

lemma example_match:
  "verifyTotpMatch (\<lambda>k m. replicate 20 0) k (Str ''000000'') 0 = Some 1"
  "verifyTotpMatch (\<lambda>k m. replicate 20 0) k (Str ''000000'') 30 = Some 2"
  by (simp_all add: verifyTotpMatch_def Let_def TOTP_DIGITS_def TOTP_DEFAULT_WINDOW_def counterForTime_def
        TOTP_PERIOD_SECONDS_def upto.simps zero_char hotp_example)

lemma example_verify:
  "verifyTotpToken (\<lambda>k m. replicate 20 0) (bytes_hex, hex_bytes) (Str ''000000'') 0 True (world_at ds 0 0)
     = (Inr TotpOk, (world_at ds 0 0)\<lparr>main_file := SfJson (state_json ((enrolled_state ds 0)\<lparr>sf_last := 1\<rparr>))\<rparr>)"
  by (simp add: verifyTotpToken_def example_match persist_state_def) (simp add: enrolled_state_def)

definition after_first :: sf_world where
  "after_first = (world_at [] 0 0)\<lparr>main_file := SfJson (state_json ((enrolled_state [] 0)\<lparr>sf_last := 1\<rparr>))\<rparr>"

lemma after_first_load:
  "loadRaw (bytes_hex, hex_bytes) (main_file after_first) = Inr (Some ((enrolled_state [] 0)\<lparr>sf_last := 1\<rparr>))"
  using load_state_json [of "(bytes_hex, hex_bytes)" "(enrolled_state [] 0)\<lparr>sf_last := 1\<rparr>"]
  by (simp add: after_first_def valid_state_def secret_ok_def enrolled_state_def secret_example_def Let_def)

theorem accepted_steps_increase_witness:
  "\<exists>secret n n'. verifyTotpMatch (c_hmac crypto_example) secret (Str ''000000'') 0 = Some n
    \<and> verifyTotpMatch (c_hmac crypto_example) secret (Str ''000000'') 30 = Some n' \<and> n < n'"
proof (rule accepted_steps_increase)
  show "verifyTotpToken (c_hmac crypto_example) (c_b64 crypto_example) (Str ''000000'') 0 True (world_at [] 0 0)
      = (Inr TotpOk, after_first)"
    by (simp add: example_verify after_first_def)
  show "sf_run crypto_example [] (after_first, []) = (after_first, [])" by simp
  show "verifyTotpToken (c_hmac crypto_example) (c_b64 crypto_example) (Str ''000000'') 30 True after_first
      = (Inr TotpOk, after_first\<lparr>main_file := SfJson (state_json ((enrolled_state [] 0)\<lparr>sf_last := 2\<rparr>))\<rparr>)"
    by (simp add: verifyTotpToken_def after_first_load example_match persist_state_def enrolled_state_def)
qed simp

section \<open>Recovery codes that are issued\<close>

lemma issued_digests:
  assumes "sha_shaped sha" and "new_codes sha count draw = Inr (codes, digests)" and "printed \<in> set codes"
  shows "\<exists>d \<in> set digests. digestFromInput sha (Str printed) = Some d"
proof -
  let ?n = "nat (if count = 0 then int RECOVERY_CODE_COUNT else count)"
  have sixteen: "\<forall>t \<in> set (map draw [0..<?n]). length t = 16"
    and codes: "codes = map (formatRecoveryCode sha) (map draw [0..<?n])"
    and digests: "digests = map (hashRecoveryToken sha) (map draw [0..<?n])"
    using assms(2) by (auto simp: new_codes_def generateRecoveryCodes_def Let_def RECOVERY_TOKEN_BYTES_def list_all_iff
        split: option.splits if_splits)
  from assms(3) obtain t where "t \<in> set (map draw [0..<?n])" "printed = formatRecoveryCode sha t"
    unfolding codes by (metis imageE list.set_map)
  then show ?thesis unfolding digests using sixteen printed_digest [OF assms(1), of t] by auto
qed

lemma regenerate_cases:
  assumes "regenerateRecoveryCodes sha b count draw wd md w = (Inr (Codes codes healed), w')"
  obtains st digests where "loadRaw b (main_file w) = Inr (Some st)" "new_codes sha count draw = Inr (codes, digests)"
    "healed = (sf_epoch st < loadWatermarkEpoch w)"
    "w' = bumpWatermark (max (sf_epoch st) (loadWatermarkEpoch w) + 1) md (w\<lparr>main_file := SfJson (state_json
       (st\<lparr>sf_codes := digests, sf_epoch := max (sf_epoch st) (loadWatermarkEpoch w) + 1\<rparr>))\<rparr>)"
  using assms
  by (auto simp: regenerateRecoveryCodes_def persistAndBumpWatermark_def persist_state_def Let_def
      split: sum.splits option.splits if_splits prod.splits)

lemma bump_cases: "loadWatermarkEpoch (bumpWatermark e md w) \<le> max (loadWatermarkEpoch w) e"
  using watermark_bump [of e w] by (cases md) (auto simp: bumpWatermark_def)

text \<open>
  Regeneration heals: whatever copy of the file was restored before it, every code that
  regeneration prints is accepted by the next login with a recovery code.
\<close>

theorem regenerated_codes_work:
  assumes "crypto_ok c"
    and "regenerateRecoveryCodes (c_sha c) (c_b64 c) count draw wd md w = (Inr (Codes codes healed), w')"
    and "printed \<in> set codes"
  shows "(\<exists>n. fst (consume_code (c_sha c) (c_b64 c) (Str printed) True md' w') = Inr (CodeOk n))
    \<and> healed = checkForRollback (c_b64 c) w \<and> \<not> checkForRollback (c_b64 c) w'"
proof -
  obtain st digests where l: "loadRaw (c_b64 c) (main_file w) = Inr (Some st)"
      and new: "new_codes (c_sha c) count draw = Inr (codes, digests)"
      and healed: "healed = (sf_epoch st < loadWatermarkEpoch w)"
      and w': "w' = bumpWatermark (max (sf_epoch st) (loadWatermarkEpoch w) + 1) md (w\<lparr>main_file := SfJson (state_json
        (st\<lparr>sf_codes := digests, sf_epoch := max (sf_epoch st) (loadWatermarkEpoch w) + 1\<rparr>))\<rparr>)"
    using regenerate_cases [OF assms(2)] by metis
  let ?e = "max (sf_epoch st) (loadWatermarkEpoch w) + 1"
  have sha: "sha_shaped (c_sha c)" using assms(1) by (simp add: crypto_ok_def)
  have l': "loadRaw (c_b64 c) (main_file w') = Inr (Some (st\<lparr>sf_codes := digests, sf_epoch := ?e\<rparr>))"
    using load_state_json [of "c_b64 c" "st\<lparr>sf_codes := digests, sf_epoch := ?e\<rparr>"] load_valid [OF l]
    by (simp add: w' valid_state_def)
  have behind: "loadWatermarkEpoch w' \<le> ?e"
    using bump_cases [of ?e md "w\<lparr>main_file := SfJson (state_json (st\<lparr>sf_codes := digests, sf_epoch := ?e\<rparr>))\<rparr>"]
    by (simp add: w')
  obtain d where d: "d \<in> set digests" "digestFromInput (c_sha c) (Str printed) = Some d"
    using issued_digests [OF sha new assms(3)] by blast
  have "\<exists>n. fst (consume_code (c_sha c) (c_b64 c) (Str printed) True md' w') = Inr (CodeOk n)"
    using l' behind d by (simp add: consume_code_def consume_cases [OF sha] persistAndBumpWatermark_def persist_state_def)
  then show ?thesis using l l' behind healed by (simp add: checkForRollback_def)
qed

definition rolled_back :: sf_world where
  "rolled_back = world_at [digest_example] 0 5"

lemma regenerate_example:
  "regenerateRecoveryCodes sha_example (bytes_hex, hex_bytes) 1 (\<lambda>n. token_example) True True rolled_back
     = (Inr (Codes [code_example] True), world_at [digest_example] 6 6)"
  by (simp add: regenerateRecoveryCodes_def rolled_back_def Let_def example_new persistAndBumpWatermark_def
      persist_state_def) (simp add: world_at_def enrolled_state_def bumpWatermark_def loadWatermarkEpoch_def)

theorem regenerated_codes_work_witness:
  "(\<exists>n. fst (consume_code (c_sha crypto_example) (c_b64 crypto_example) (Str code_example) True True
       (world_at [digest_example] 6 6)) = Inr (CodeOk n))
   \<and> True = checkForRollback (c_b64 crypto_example) rolled_back
   \<and> \<not> checkForRollback (c_b64 crypto_example) (world_at [digest_example] 6 6)"
proof (rule regenerated_codes_work [OF crypto_example_ok])
  show "regenerateRecoveryCodes (c_sha crypto_example) (c_b64 crypto_example) 1 (\<lambda>n. token_example) True True rolled_back
     = (Inr (Codes [code_example] True), world_at [digest_example] 6 6)"
    by (simp add: regenerate_example)
qed simp

lemma issue_cases:
  assumes "store_new sha b secret count draw ctr epoch wd md w = (Inr (Codes codes healed), w')"
  obtains st where "sf_epoch st = epoch" "sf_secret st = fst b secret"
    "w' = bumpWatermark epoch md (w\<lparr>main_file := SfJson (state_json st)\<rparr>)"
proof -
  obtain digests where "w' = bumpWatermark epoch md (w\<lparr>main_file := SfJson (state_json
      \<lparr>sf_secret = fst b secret, sf_last = ctr, sf_codes = digests, sf_epoch = epoch\<rparr>)\<rparr>)"
    using assms by (auto simp: store_new_def makeState_def persistAndBumpWatermark_def persist_state_def
      split: sum.splits if_splits prod.splits)
  then show thesis by (intro that) simp_all
qed

lemma behind_wiped:
  assumes "loadRaw b (main_file w) = Inr (Some st)" and "sf_epoch st < loadWatermarkEpoch w"
    and "consume_code sha b input True md w = (r, w')"
  shows "r = Inr CodeResetDetected \<and> remainingRecoveryCodes b w' = Inr 0"
proof -
  let ?st = "st\<lparr>sf_codes := [], sf_epoch := loadWatermarkEpoch w + 1\<rparr>"
  have "w' = bumpWatermark (loadWatermarkEpoch w + 1) md (w\<lparr>main_file := SfJson (state_json ?st)\<rparr>)" "r = Inr CodeResetDetected"
    using assms by (simp_all add: consume_code_def persistAndBumpWatermark_def persist_state_def)
  moreover have "loadRaw b (SfJson (state_json ?st)) = Inr (Some ?st)"
    using load_state_json [of b ?st] load_valid [OF assms(1)] by (simp add: valid_state_def)
  ultimately show ?thesis by (simp add: remainingRecoveryCodes_def)
qed

text \<open>
  C35. Codes that cannot work. When only the main file was removed, as the sign-in page advises for an
  unreadable store, enrolling again starts at epoch 0 below the watermark that stayed: the recovery
  codes it prints are all refused, the first one that is tried deletes them. The same holds of a
  rotation over a file that is more than one epoch behind.
\<close>

theorem reissued_codes_refused:
  assumes "crypto_ok c" and "0 < loadWatermarkEpoch w"
    and "main_file w = SfMissing \<and> issue = enroll \<or> issue = commit \<and> (\<exists>st. loadRaw (c_b64 c) (main_file w) = Inr (Some st)
           \<and> sf_epoch st + 1 < loadWatermarkEpoch w)"
    and "issue (c_sha c) (c_b64 c) secret count draw ctr True True w = (Inr (Codes codes healed), w1)"
    and "consume_code (c_sha c) (c_b64 c) input True md w1 = (r, w2)"
  shows "r = Inr CodeResetDetected \<and> remainingRecoveryCodes (c_b64 c) w2 = Inr 0"
proof -
  obtain epoch where e: "epoch < loadWatermarkEpoch w" and len: "length secret = TOTP_SECRET_BYTES"
      and s: "store_new (c_sha c) (c_b64 c) secret count draw ctr epoch True True w = (Inr (Codes codes healed), w1)"
    using assms(2-4) by (auto simp: enroll_def commit_def loadRaw_def Let_def split: if_splits)
  from s obtain st where st: "sf_epoch st = epoch" "sf_secret st = fst (c_b64 c) secret"
      and w1: "w1 = bumpWatermark epoch True (w\<lparr>main_file := SfJson (state_json st)\<rparr>)" by (rule issue_cases)
  have "valid_state (c_b64 c) st"
    using assms(1) len st by (simp add: valid_state_def secret_ok_def crypto_ok_def TOTP_SECRET_BYTES_def Let_def)
  then have "loadRaw (c_b64 c) (main_file w1) = Inr (Some st)" by (simp add: w1 load_state_json)
  moreover have "sf_epoch st < loadWatermarkEpoch w1"
    using e st(1) watermark_bump [of epoch "w\<lparr>main_file := SfJson (state_json st)\<rparr>"] by (simp add: w1)
  ultimately show ?thesis using behind_wiped assms(5) by blast
qed

definition main_removed :: sf_world where
  "main_removed = (world_at [] 1 1)\<lparr>main_file := SfMissing\<rparr>"

lemma enroll_again_example:
  "enroll sha_example (bytes_hex, hex_bytes) secret_example 1 (\<lambda>n. token_example) 0 True True main_removed
     = (Inr (Codes [code_example] False), world_at [digest_example] 0 1)"
  by (simp add: enroll_def secret_example_def TOTP_SECRET_BYTES_def main_removed_def loadRaw_def store_new_def example_new
      makeState_def NO_COUNTER_def persistAndBumpWatermark_def persist_state_def bumpWatermark_def)
    (simp add: world_at_def enrolled_state_def secret_example_def)

theorem reissued_codes_refused_witness:
  "fst (consume_code (c_sha crypto_example) (c_b64 crypto_example) (Str code_example) True True (world_at [digest_example] 0 1))
      = Inr CodeResetDetected
   \<and> remainingRecoveryCodes (c_b64 crypto_example) (snd (consume_code (c_sha crypto_example) (c_b64 crypto_example)
        (Str code_example) True True (world_at [digest_example] 0 1))) = Inr 0"
proof (rule reissued_codes_refused [where issue = enroll, OF crypto_example_ok])
  show "enroll (c_sha crypto_example) (c_b64 crypto_example) secret_example 1 (\<lambda>n. token_example) 0 True True main_removed
     = (Inr (Codes [code_example] False), world_at [digest_example] 0 1)"
    by (simp add: enroll_again_example)
  show "0 < loadWatermarkEpoch main_removed" by (simp add: main_removed_def)
qed (simp_all add: main_removed_def)

section \<open>What the store promises\<close>

text \<open>
  The abstract second factor: none, or a secret with the last time step used and the set of unspent
  digests. An operation whose write fails does nothing.
\<close>

datatype factor = NoFactor | Factor string int "string set"

definition issue :: "crypto \<Rightarrow> byte list \<Rightarrow> int \<Rightarrow> (nat \<Rightarrow> byte list) \<Rightarrow> int \<Rightarrow> factor \<Rightarrow> bool \<times> factor" where
  "issue c secret count draw ctr f = (case new_codes (c_sha c) count draw of
     Inl e \<Rightarrow> (False, f)
   | Inr (codes, digests) \<Rightarrow>
       (if length secret = TOTP_SECRET_BYTES \<and> NO_COUNTER \<le> ctr
        then (True, Factor (fst (c_b64 c) secret) ctr (set digests)) else (False, f)))"

fun factor_step :: "crypto \<Rightarrow> sf_op \<Rightarrow> factor \<Rightarrow> bool \<times> factor" where
  "factor_step c (SfVerify token t wd) (Factor secret used ds) =
     (case verifyTotpMatch (c_hmac c) (snd (c_b64 c) secret) token t of
        None \<Rightarrow> (False, Factor secret used ds)
      | Some n \<Rightarrow> if used < n \<and> wd then (True, Factor secret n ds) else (False, Factor secret used ds))"
| "factor_step c (SfConsume input wd md) (Factor secret used ds) =
     (case digestFromInput (c_sha c) input of
        None \<Rightarrow> (False, Factor secret used ds)
      | Some d \<Rightarrow> if d \<in> ds \<and> wd then (True, Factor secret used (ds - {d})) else (False, Factor secret used ds))"
| "factor_step c (SfRegenerate count draw wd md) (Factor secret used ds) =
     (case new_codes (c_sha c) count draw of
        Inl e \<Rightarrow> (False, Factor secret used ds)
      | Inr (codes, digests) \<Rightarrow> if wd then (True, Factor secret used (set digests)) else (False, Factor secret used ds))"
| "factor_step c (SfEnroll secret count draw ctr wd md) NoFactor =
     (if wd then issue c secret count draw ctr NoFactor else (False, NoFactor))"
| "factor_step c (SfCommit secret count draw ctr wd md) f =
     (if wd then issue c secret count draw ctr f else (False, f))"
| "factor_step c _ f = (False, f)"

fun sf_accepts :: "crypto \<Rightarrow> sf_op \<Rightarrow> sf_world \<Rightarrow> bool" where
  "sf_accepts c (SfVerify token t wd) w = (fst (verifyTotpToken (c_hmac c) (c_b64 c) token t wd w) = Inr TotpOk)"
| "sf_accepts c (SfConsume input wd md) w =
     (case fst (consume_code (c_sha c) (c_b64 c) input wd md w) of Inr (CodeOk n) \<Rightarrow> True | _ \<Rightarrow> False)"
| "sf_accepts c (SfRegenerate count draw wd md) w =
     (case fst (regenerateRecoveryCodes (c_sha c) (c_b64 c) count draw wd md w) of Inr (Codes cs h) \<Rightarrow> True | _ \<Rightarrow> False)"
| "sf_accepts c (SfCommit secret count draw ctr wd md) w =
     (case fst (commit (c_sha c) (c_b64 c) secret count draw ctr wd md w) of Inr (Codes cs h) \<Rightarrow> True | _ \<Rightarrow> False)"
| "sf_accepts c (SfEnroll secret count draw ctr wd md) w =
     (case fst (enroll (c_sha c) (c_b64 c) secret count draw ctr wd md w) of Inr (Codes cs h) \<Rightarrow> True | _ \<Rightarrow> False)"
| "sf_accepts c (SfRestore n) w = False"

text \<open>The world has a readable file that is not behind its watermark; its abstract factor.\<close>

definition current :: "crypto \<Rightarrow> sf_world \<Rightarrow> bool" where
  "current c w = (case loadRaw (c_b64 c) (main_file w) of
     Inl e \<Rightarrow> False | Inr None \<Rightarrow> loadWatermarkEpoch w \<le> 0 | Inr (Some st) \<Rightarrow> loadWatermarkEpoch w \<le> sf_epoch st)"

definition factor_of :: "crypto \<Rightarrow> sf_world \<Rightarrow> factor" where
  "factor_of c w = (case loadRaw (c_b64 c) (main_file w) of
     Inr (Some st) \<Rightarrow> Factor (sf_secret st) (sf_last st) (set (sf_codes st)) | _ \<Rightarrow> NoFactor)"

lemma written_current:
  assumes "valid_state (c_b64 c) st" and "main_file w' = SfJson (state_json st)" and "loadWatermarkEpoch w' \<le> sf_epoch st"
  shows "current c w' \<and> factor_of c w' = Factor (sf_secret st) (sf_last st) (set (sf_codes st))"
  using assms by (simp add: current_def factor_of_def load_state_json)

lemma persist_current:
  assumes "valid_state (c_b64 c) st" and "loadWatermarkEpoch w \<le> sf_epoch st"
  obtains (kept) "persistAndBumpWatermark st wd md w = (Inl SfPersist, w)" "\<not> wd"
  | (written) w' where "persistAndBumpWatermark st wd md w = (Inr (), w')" "wd" "current c w'"
      "factor_of c w' = Factor (sf_secret st) (sf_last st) (set (sf_codes st))"
proof (cases wd)
  case True
  let ?w = "w\<lparr>main_file := SfJson (state_json st)\<rparr>"
  have "loadWatermarkEpoch (bumpWatermark (sf_epoch st) md ?w) \<le> sf_epoch st"
    using bump_cases [of "sf_epoch st" md ?w] assms(2) by simp
  then have "current c (bumpWatermark (sf_epoch st) md ?w)
      \<and> factor_of c (bumpWatermark (sf_epoch st) md ?w) = Factor (sf_secret st) (sf_last st) (set (sf_codes st))"
    by (intro written_current [OF assms(1)]) simp_all
  then show thesis using True by (intro written [of "bumpWatermark (sf_epoch st) md ?w"]) (simp_all add: persistAndBumpWatermark_def persist_state_def)
next
  case False
  then show thesis by (intro kept) (simp_all add: persistAndBumpWatermark_def persist_state_def)
qed

lemma issue_refines:
  assumes "crypto_ok c" and "current c w" and "length secret = TOTP_SECRET_BYTES" and "loadWatermarkEpoch w \<le> epoch"
  shows "(case fst (store_new (c_sha c) (c_b64 c) secret count draw ctr epoch wd md w) of
            Inr (Codes cs h) \<Rightarrow> True | _ \<Rightarrow> False,
          factor_of c (snd (store_new (c_sha c) (c_b64 c) secret count draw ctr epoch wd md w)))
       = (if wd then issue c secret count draw ctr (factor_of c w) else (False, factor_of c w))
     \<and> current c (snd (store_new (c_sha c) (c_b64 c) secret count draw ctr epoch wd md w))"
proof (cases "new_codes (c_sha c) count draw")
  case (Inr r)
  obtain codes digests where r: "r = (codes, digests)" by (cases r)
  let ?st = "\<lparr>sf_secret = fst (c_b64 c) secret, sf_last = ctr, sf_codes = digests, sf_epoch = epoch\<rparr>"
  have v: "valid_state (c_b64 c) ?st"
    using assms(1,3) by (simp add: valid_state_def secret_ok_def crypto_ok_def TOTP_SECRET_BYTES_def Let_def)
  have e: "loadWatermarkEpoch w \<le> sf_epoch ?st" using assms(4) by simp
  show ?thesis
  proof (cases "ctr < NO_COUNTER")
    case False
    show ?thesis
      by (rule persist_current [OF v e, of wd md])
        (use False Inr r assms(2,3) in \<open>simp_all add: store_new_def makeState_def issue_def\<close>)
  qed (use Inr r assms(2) in \<open>simp_all add: store_new_def makeState_def issue_def\<close>)
qed (use assms(2) in \<open>simp_all add: store_new_def issue_def\<close>)

lemma verify_refines:
  assumes "current c w"
  shows "(sf_accepts c (SfVerify token t wd) w, factor_of c (sf_effect c (SfVerify token t wd) hist w))
      = factor_step c (SfVerify token t wd) (factor_of c w) \<and> current c (sf_effect c (SfVerify token t wd) hist w)"
proof (cases "loadRaw (c_b64 c) (main_file w)")
  case (Inr o')
  show ?thesis
  proof (cases o')
    case (Some st)
    have l: "loadRaw (c_b64 c) (main_file w) = Inr (Some st)" using Inr Some by simp
    have e: "loadWatermarkEpoch w \<le> sf_epoch st" using assms by (simp add: current_def l)
    have "current c (w\<lparr>main_file := SfJson (state_json (st\<lparr>sf_last := n\<rparr>))\<rparr>)
        \<and> factor_of c (w\<lparr>main_file := SfJson (state_json (st\<lparr>sf_last := n\<rparr>))\<rparr>) = Factor (sf_secret st) n (set (sf_codes st))" for n
      using written_current [of c "st\<lparr>sf_last := n\<rparr>"] load_valid [OF l] e by (simp add: valid_state_def)
    then show ?thesis using assms
      by (auto simp: verifyTotpToken_def l persist_state_def factor_of_def split: option.splits)
  qed (use assms Inr in \<open>simp add: verifyTotpToken_def factor_of_def\<close>)
qed (use assms in \<open>simp add: current_def\<close>)

lemma consume_refines:
  assumes "crypto_ok c" and "current c w"
  shows "(sf_accepts c (SfConsume input wd md) w, factor_of c (sf_effect c (SfConsume input wd md) hist w))
      = factor_step c (SfConsume input wd md) (factor_of c w) \<and> current c (sf_effect c (SfConsume input wd md) hist w)"
proof (cases "loadRaw (c_b64 c) (main_file w)")
  case (Inr o')
  show ?thesis
  proof (cases o')
    case (Some st)
    have l: "loadRaw (c_b64 c) (main_file w) = Inr (Some st)" using Inr Some by simp
    have e: "loadWatermarkEpoch w \<le> sf_epoch st" using assms(2) by (simp add: current_def l)
    have sha: "sha_shaped (c_sha c)" using assms(1) by (simp add: crypto_ok_def)
    have f: "factor_of c w = Factor (sf_secret st) (sf_last st) (set (sf_codes st))" by (simp add: factor_of_def l)
    show ?thesis
    proof (cases "digestFromInput (c_sha c) input")
      case (Some d)
      let ?st = "st\<lparr>sf_codes := filter (\<lambda>e. e \<noteq> d) (sf_codes st), sf_epoch := sf_epoch st + 1\<rparr>"
      have v: "valid_state (c_b64 c) ?st" using load_valid [OF l] by (simp add: valid_state_def)
      have e': "loadWatermarkEpoch w \<le> sf_epoch ?st" using e by simp
      have rest: "set (sf_codes st) - {d} = {x \<in> set (sf_codes st). x \<noteq> d}" by auto
      show ?thesis
        by (rule persist_current [OF v e', of wd md])
          (use e Some assms(2) in \<open>simp_all add: consume_code_def l consume_cases [OF sha] f rest\<close>)
    qed (use e assms(2) in \<open>simp add: consume_code_def l consume_cases [OF sha] f\<close>)
  qed (use assms(2) Inr in \<open>simp add: consume_code_def factor_of_def\<close>)
qed (use assms(2) in \<open>simp add: current_def\<close>)

lemma regenerate_refines:
  assumes "current c w"
  shows "(sf_accepts c (SfRegenerate count draw wd md) w, factor_of c (sf_effect c (SfRegenerate count draw wd md) hist w))
      = factor_step c (SfRegenerate count draw wd md) (factor_of c w)
     \<and> current c (sf_effect c (SfRegenerate count draw wd md) hist w)"
proof (cases "loadRaw (c_b64 c) (main_file w)")
  case (Inr o')
  show ?thesis
  proof (cases o')
    case (Some st)
    have l: "loadRaw (c_b64 c) (main_file w) = Inr (Some st)" using Inr Some by simp
    have f: "factor_of c w = Factor (sf_secret st) (sf_last st) (set (sf_codes st))" by (simp add: factor_of_def l)
    show ?thesis
    proof (cases "new_codes (c_sha c) count draw")
      case new: (Inr r)
      obtain codes digests where r: "r = (codes, digests)" by (cases r)
      let ?st = "st\<lparr>sf_codes := digests, sf_epoch := max (sf_epoch st) (loadWatermarkEpoch w) + 1\<rparr>"
      have v: "valid_state (c_b64 c) ?st" using load_valid [OF l] by (simp add: valid_state_def)
      have e: "loadWatermarkEpoch w \<le> sf_epoch ?st" by simp
      show ?thesis
        by (rule persist_current [OF v e, of wd md])
          (use new r assms in \<open>simp_all add: regenerateRecoveryCodes_def l Let_def f\<close>)
    qed (use assms in \<open>simp add: regenerateRecoveryCodes_def l Let_def f\<close>)
  qed (use assms Inr in \<open>simp add: regenerateRecoveryCodes_def factor_of_def\<close>)
qed (use assms in \<open>simp add: current_def\<close>)

lemma commit_refines:
  assumes "crypto_ok c" and "current c w"
  shows "(sf_accepts c (SfCommit secret count draw ctr wd md) w, factor_of c (sf_effect c (SfCommit secret count draw ctr wd md) hist w))
      = factor_step c (SfCommit secret count draw ctr wd md) (factor_of c w)
     \<and> current c (sf_effect c (SfCommit secret count draw ctr wd md) hist w)"
proof (cases "length secret = TOTP_SECRET_BYTES")
  case True
  let ?epoch = "(case loadRaw (c_b64 c) (main_file w) of Inr (Some st) \<Rightarrow> sf_epoch st | _ \<Rightarrow> - 1) + 1"
  have "loadWatermarkEpoch w \<le> ?epoch" using assms(2) by (auto simp: current_def split: sum.splits option.splits)
  from issue_refines [OF assms True this, of count draw ctr wd md] show ?thesis
    using True by (simp add: commit_def Let_def)
next
  case False
  then show ?thesis using assms(2) by (simp add: commit_def issue_def split: sum.split prod.split)
qed

lemma enroll_refines:
  assumes "crypto_ok c" and "current c w"
  shows "(sf_accepts c (SfEnroll secret count draw ctr wd md) w, factor_of c (sf_effect c (SfEnroll secret count draw ctr wd md) hist w))
      = factor_step c (SfEnroll secret count draw ctr wd md) (factor_of c w)
     \<and> current c (sf_effect c (SfEnroll secret count draw ctr wd md) hist w)"
proof (cases "loadRaw (c_b64 c) (main_file w)")
  case (Inr o')
  show ?thesis
  proof (cases o')
    case None
    then have f: "factor_of c w = NoFactor" and e: "loadWatermarkEpoch w \<le> 0"
      using Inr assms(2) by (simp_all add: factor_of_def current_def)
    show ?thesis
    proof (cases "length secret = TOTP_SECRET_BYTES")
      case True
      from issue_refines [OF assms True e, of count draw ctr wd md] show ?thesis
        using True Inr None f by (simp add: enroll_def)
    next
      case False
      then show ?thesis using assms(2) f by (simp add: enroll_def issue_def split: sum.split prod.split)
    qed
  qed (use assms(2) Inr in \<open>simp add: enroll_def factor_of_def\<close>)
qed (use assms(2) in \<open>simp add: current_def\<close>)

lemma second_factor_step:
  assumes "crypto_ok c" and "current c w" and "\<forall>n. op \<noteq> SfRestore n"
  shows "(sf_accepts c op w, factor_of c (sf_effect c op hist w)) = factor_step c op (factor_of c w)"
    and "current c (sf_effect c op hist w)"
proof -
  have "(sf_accepts c op w, factor_of c (sf_effect c op hist w)) = factor_step c op (factor_of c w) \<and> current c (sf_effect c op hist w)"
  proof (cases op)
    case (SfVerify token t wd) then show ?thesis using verify_refines [OF assms(2)] by blast
  next
    case (SfConsume input wd md) then show ?thesis using consume_refines [OF assms(1,2)] by blast
  next
    case (SfRegenerate count draw wd md) then show ?thesis using regenerate_refines [OF assms(2)] by blast
  next
    case (SfCommit secret count draw ctr wd md) then show ?thesis using commit_refines [OF assms(1,2)] by blast
  next
    case (SfEnroll secret count draw ctr wd md) then show ?thesis using enroll_refines [OF assms(1,2)] by blast
  qed (use assms(3) in simp)
  then show "(sf_accepts c op w, factor_of c (sf_effect c op hist w)) = factor_step c op (factor_of c w)"
    and "current c (sf_effect c op hist w)" by blast+
qed

fun sf_answers :: "crypto \<Rightarrow> sf_op list \<Rightarrow> sf_world \<times> sf_file list \<Rightarrow> bool list" where
  "sf_answers c [] s = []"
| "sf_answers c (op # ops) s = sf_accepts c op (fst s) # sf_answers c ops (sf_run_step c op s)"

fun factor_run :: "crypto \<Rightarrow> sf_op list \<Rightarrow> factor \<Rightarrow> bool list \<times> factor" where
  "factor_run c [] f = ([], f)"
| "factor_run c (op # ops) f =
     (let (ok, f') = factor_step c op f; (oks, f'') = factor_run c ops f' in (ok # oks, f''))"

definition not_restore :: "sf_op \<Rightarrow> bool" where
  "not_restore op = (case op of SfRestore n \<Rightarrow> False | _ \<Rightarrow> True)"

text \<open>
  C10. The store implements the abstract second factor: over any sequence of operations from a file
  that was not moved back, its answers and its contents are those of a factor that keeps one secret,
  the last time step used, and a set of unspent digests, whatever epochs and watermarks do underneath.
\<close>

theorem second_factor_refines:
  assumes "crypto_ok c" and "list_all not_restore ops" and "current c w"
  shows "(sf_answers c ops (w, hist), factor_of c (fst (sf_run c ops (w, hist)))) = factor_run c ops (factor_of c w)"
  using assms(2,3)
proof (induction ops arbitrary: w hist)
  case (Cons op ops)
  then have nr: "\<forall>n. op \<noteq> SfRestore n" by (auto simp: not_restore_def)
  note step = second_factor_step [OF assms(1) Cons.prems(2) nr]
  have r: "sf_run_step c op (w, hist) = (sf_effect c op hist w, main_file (sf_effect c op hist w) # hist)"
    by (simp add: sf_run_step_def Let_def)
  show ?case
    using Cons.IH [of "sf_effect c op hist w" "main_file (sf_effect c op hist w) # hist", OF _ step(2), symmetric] step(1) [of hist, symmetric] Cons.prems(1)
    by (simp add: r split_beta)
qed simp

theorem second_factor_refines_witness:
  "(sf_answers crypto_example
      [SfEnroll secret_example 1 (\<lambda>n. token_example) 0 True True, SfConsume (Str code_example) True True,
       SfConsume (Str code_example) True True] (fresh_world, []),
    factor_of crypto_example (fst (sf_run crypto_example
      [SfEnroll secret_example 1 (\<lambda>n. token_example) 0 True True, SfConsume (Str code_example) True True,
       SfConsume (Str code_example) True True] (fresh_world, []))))
   = ([True, True, False], Factor (bytes_hex secret_example) 0 {})"
  by (subst second_factor_refines [OF crypto_example_ok])
    (simp_all add: not_restore_def current_def factor_of_def fresh_world_def loadRaw_def loadWatermarkEpoch_def
      issue_def example_new example_digest NO_COUNTER_def TOTP_SECRET_BYTES_def secret_example_def Let_def)

end
