(* ===== verification/RateLimit.thy ===== *)
theory RateLimit
  imports Js
begin

text \<open>
  The in-memory rate limiters of \<open>console/api/src/rateLimit.js\<close>: the client address they are
  keyed by, the bounded maps they count in, and the login, mutation and API key limiters. Every
  operation takes the limiter's map and the clock readings it makes, in their order, and returns
  its verdict with the map it leaves. \<open>NaN\<close> never reaches the arithmetic: times and counts are
  integers.
\<close>

section \<open>The client address\<close>

definition normalizeIp :: "string option \<Rightarrow> string" where
  "normalizeIp ip = (case ip of None \<Rightarrow> []
     | Some s \<Rightarrow> if starts_with s ''::ffff:'' then drop (length ''::ffff:'') s else s)"

text \<open>
  \<open>sock\<close> is \<open>req.socket?.remoteAddress\<close>, \<open>header\<close> the \<open>x-forwarded-for\<close> header.
\<close>

definition resolveClientIp :: "string option \<Rightarrow> string option \<Rightarrow> string list \<Rightarrow> string" where
  "resolveClientIp sock header trustedProxyIps =
     (let socketIp = normalizeIp sock in
      if trustedProxyIps = [] \<or> socketIp = [] \<or> socketIp \<notin> set trustedProxyIps
      then (if socketIp = [] then ''unknown'' else socketIp)
      else (case header of
          None \<Rightarrow> socketIp
        | Some h \<Rightarrow>
            if h = [] then socketIp
            else let forwarded = normalizeIp (Some (js_trim (hd (split_at (\<lambda>c. c = CHR '','') h))))
                 in if forwarded = [] then socketIp else forwarded))"

section \<open>Bounded maps\<close>

definition evictOldestIfFull :: "(string, 'v) omap \<Rightarrow> nat \<Rightarrow> string \<Rightarrow> (string, 'v) omap" where
  "evictOldestIfFull m maxEntries protectedKey =
     (if length m < maxEntries then m
      else case find (\<lambda>k. k \<noteq> protectedKey) (om_keys m) of
        None \<Rightarrow> m
      | Some k \<Rightarrow> om_delete k m)"

definition trackedEntryLimit :: "jsval \<Rightarrow> nat" where
  "trackedEntryLimit value =
     (let limit = js_floor (to_num value)
      in if is_finite limit \<and> 2 \<le> num_int limit then nat (num_int limit) else 5000)"

record verdict =
  allowed :: bool
  retryAfterSeconds :: int

section \<open>The login limiter\<close>

record attempt =
  a_count :: int
  firstAttemptAt :: int
  blockedUntil :: int

record login_options =
  maxAttempts :: int
  globalMaxAttempts :: int
  l_windowMs :: int
  blockMs :: int
  l_maxTrackedKeys :: jsval

definition default_login_options :: login_options where
  "default_login_options = \<lparr>maxAttempts = 8, globalMaxAttempts = 32, l_windowMs = 15 * 60 * 1000,
     blockMs = 15 * 60 * 1000, l_maxTrackedKeys = Number (Num 5000)\<rparr>"

definition login_globalKey :: string where
  "login_globalKey = ''__global__''"

type_synonym attempts = "(string, attempt) omap"

definition login_activeAttempt ::
  "login_options \<Rightarrow> attempts \<Rightarrow> string \<Rightarrow> int \<Rightarrow> attempt option \<times> attempts" where
  "login_activeAttempt opt m key timestamp = (case om_get m key of
       None \<Rightarrow> (None, m)
     | Some current \<Rightarrow>
         if blockedUntil current \<noteq> 0 \<and> blockedUntil current > timestamp then (Some current, m)
         else if firstAttemptAt current + l_windowMs opt \<le> timestamp then (None, om_delete key m)
         else (Some current, m))"

definition login_blocked :: "attempt option \<Rightarrow> int \<Rightarrow> int list" where
  "login_blocked a timestamp = (case a of
       None \<Rightarrow> []
     | Some current \<Rightarrow> if blockedUntil current \<noteq> 0 \<and> blockedUntil current > timestamp
                       then [ceil_div (blockedUntil current - timestamp) 1000] else [])"

definition login_check :: "login_options \<Rightarrow> attempts \<Rightarrow> string \<Rightarrow> int \<Rightarrow> verdict \<times> attempts" where
  "login_check opt m key timestamp =
     (let (a, m1) = login_activeAttempt opt m key timestamp;
          (g, m2) = login_activeAttempt opt m1 login_globalKey timestamp;
          blocked = login_blocked a timestamp @ login_blocked g timestamp
      in if blocked \<noteq> [] then (\<lparr>allowed = False, retryAfterSeconds = max_list blocked\<rparr>, m2)
         else (\<lparr>allowed = True, retryAfterSeconds = 0\<rparr>, m2))"

definition login_next :: "login_options \<Rightarrow> attempt option \<Rightarrow> int \<Rightarrow> attempt" where
  "login_next opt current timestamp = (case current of
       None \<Rightarrow> \<lparr>a_count = 1, firstAttemptAt = timestamp, blockedUntil = 0\<rparr>
     | Some c \<Rightarrow>
         if firstAttemptAt c + l_windowMs opt \<le> timestamp
         then \<lparr>a_count = 1, firstAttemptAt = timestamp, blockedUntil = 0\<rparr>
         else c\<lparr>a_count := a_count c + 1\<rparr>)"

definition login_increment :: "login_options \<Rightarrow> attempts \<Rightarrow> string \<Rightarrow> int \<Rightarrow> int \<Rightarrow> attempts" where
  "login_increment opt m key limit timestamp =
     (let (current, m1) = login_activeAttempt opt m key timestamp;
          n0 = login_next opt current timestamp;
          n1 = (if a_count n0 \<ge> limit then n0\<lparr>blockedUntil := timestamp + blockMs opt\<rparr> else n0);
          m2 = (if om_has m1 key then m1
                else evictOldestIfFull m1 (trackedEntryLimit (l_maxTrackedKeys opt)) login_globalKey)
      in om_set key n1 m2)"

text \<open>\<open>recordFailure\<close> reads the clock once for the two increments, \<open>check\<close> reads it again.\<close>

definition login_recordFailure ::
  "login_options \<Rightarrow> attempts \<Rightarrow> string \<Rightarrow> int \<Rightarrow> int \<Rightarrow> verdict \<times> attempts" where
  "login_recordFailure opt m key timestamp timestamp' =
     (let m1 = login_increment opt m key (maxAttempts opt) timestamp;
          m2 = login_increment opt m1 login_globalKey (globalMaxAttempts opt) timestamp
      in login_check opt m2 key timestamp')"

definition login_recordSuccess :: "attempts \<Rightarrow> string \<Rightarrow> attempts" where
  "login_recordSuccess m key = om_delete key m"

section \<open>Fixed windows of requests\<close>

text \<open>The mutation and the API key limiter count in the same way, in maps of their own.\<close>

record request =
  r_count :: int
  firstRequestAt :: int

type_synonym requests = "(string, request) omap"

definition activeRequest :: "int \<Rightarrow> requests \<Rightarrow> string \<Rightarrow> int \<Rightarrow> request option \<times> requests" where
  "activeRequest windowMs m key timestamp = (case om_get m key of
       None \<Rightarrow> (None, m)
     | Some current \<Rightarrow>
         if firstRequestAt current + windowMs \<le> timestamp then (None, om_delete key m)
         else (Some current, m))"

definition retryAfter :: "int \<Rightarrow> request \<Rightarrow> int \<Rightarrow> int \<Rightarrow> int" where
  "retryAfter windowMs current timestamp fallback =
     (let s = ceil_div (firstRequestAt current + windowMs - timestamp) 1000
      in max 1 (if s = 0 then fallback else s))"

definition request_increment :: "int \<Rightarrow> nat \<Rightarrow> string \<Rightarrow> requests \<Rightarrow> string \<Rightarrow> int \<Rightarrow> requests" where
  "request_increment windowMs entryLimit globalKey m key timestamp =
     (let (current, m1) = activeRequest windowMs m key timestamp
      in case current of
          Some c \<Rightarrow> om_set key (c\<lparr>r_count := r_count c + 1\<rparr>) m1
        | None \<Rightarrow> om_set key \<lparr>r_count = 1, firstRequestAt = timestamp\<rparr>
                    (evictOldestIfFull m1 entryLimit globalKey))"

section \<open>The mutation limiter\<close>

record mutation_options =
  maxRequests :: int
  globalMaxRequests :: int
  m_windowMs :: int
  m_maxTrackedKeys :: jsval

definition default_mutation_options :: mutation_options where
  "default_mutation_options = \<lparr>maxRequests = 20, globalMaxRequests = 200, m_windowMs = 60 * 1000,
     m_maxTrackedKeys = Number (Num 5000)\<rparr>"

definition mutation_globalKey :: string where
  "mutation_globalKey = ''__global_mutations__''"

text \<open>The verdict on the two active windows: the key's own limit first, then the shared one.\<close>

definition window_verdict ::
  "int \<Rightarrow> int \<Rightarrow> int \<Rightarrow> request option \<Rightarrow> request option \<Rightarrow> int \<Rightarrow> verdict" where
  "window_verdict windowMs limit globalLimit current global timestamp =
     (let fallback = ceil_div windowMs 1000 in
      case current of
        Some c \<Rightarrow>
          if r_count c \<ge> limit
          then \<lparr>allowed = False, retryAfterSeconds = retryAfter windowMs c timestamp fallback\<rparr>
          else (case global of
              Some g \<Rightarrow> if r_count g \<ge> globalLimit
                then \<lparr>allowed = False, retryAfterSeconds = retryAfter windowMs g timestamp fallback\<rparr>
                else \<lparr>allowed = True, retryAfterSeconds = 0\<rparr>
            | None \<Rightarrow> \<lparr>allowed = True, retryAfterSeconds = 0\<rparr>)
      | None \<Rightarrow> (case global of
              Some g \<Rightarrow> if r_count g \<ge> globalLimit
                then \<lparr>allowed = False, retryAfterSeconds = retryAfter windowMs g timestamp fallback\<rparr>
                else \<lparr>allowed = True, retryAfterSeconds = 0\<rparr>
            | None \<Rightarrow> \<lparr>allowed = True, retryAfterSeconds = 0\<rparr>))"

definition mutation_check :: "mutation_options \<Rightarrow> requests \<Rightarrow> string \<Rightarrow> int \<Rightarrow> verdict \<times> requests" where
  "mutation_check opt m key timestamp =
     (let (current, m1) = activeRequest (m_windowMs opt) m key timestamp;
          (global, m2) = activeRequest (m_windowMs opt) m1 mutation_globalKey timestamp
      in (window_verdict (m_windowMs opt) (maxRequests opt) (globalMaxRequests opt) current global timestamp, m2))"

definition mutation_increment :: "mutation_options \<Rightarrow> requests \<Rightarrow> string \<Rightarrow> int \<Rightarrow> requests" where
  "mutation_increment opt =
     request_increment (m_windowMs opt) (trackedEntryLimit (m_maxTrackedKeys opt)) mutation_globalKey"

definition mutation_record ::
  "mutation_options \<Rightarrow> requests \<Rightarrow> string \<Rightarrow> int \<Rightarrow> int \<Rightarrow> verdict \<times> requests" where
  "mutation_record opt m key timestamp timestamp' =
     (let m1 = mutation_increment opt m key timestamp;
          m2 = mutation_increment opt m1 mutation_globalKey timestamp
      in mutation_check opt m2 key timestamp')"

text \<open>
  \<open>applyMutationRateLimit\<close> of \<open>server.js\<close>: the key it builds, the check, and only when that
  allows the request, the record, whose own verdict is ignored. \<open>session\<close> is
  \<open>req.authSession?.id\<close> and \<open>remote\<close> is \<open>req.socket?.remoteAddress\<close>; the three clock
  readings are those of the two calls.
\<close>

definition mutation_key :: "string \<Rightarrow> string option \<Rightarrow> string option \<Rightarrow> string" where
  "mutation_key scope session remote =
     (let sessionId = (case session of None \<Rightarrow> ''anonymous'' | Some a \<Rightarrow> if a = [] then ''anonymous'' else a);
          addr = (case remote of None \<Rightarrow> ''unknown'' | Some a \<Rightarrow> if a = [] then ''unknown'' else a)
      in scope @ '':'' @ sessionId @ '':'' @ normalizeIp (Some addr))"

definition applyMutationRateLimit ::
  "mutation_options \<Rightarrow> requests \<Rightarrow> string \<Rightarrow> int \<Rightarrow> int \<Rightarrow> int \<Rightarrow> verdict \<times> requests" where
  "applyMutationRateLimit opt m key t1 t2 t3 =
     (let (limit, m1) = mutation_check opt m key t1 in
      if \<not> allowed limit then (limit, m1)
      else (limit, snd (mutation_record opt m1 key t2 t3)))"

section \<open>The API key limiter\<close>

record apikey_options =
  k_globalMaxRequests :: int
  fallbackMaxRequests :: int
  k_windowMs :: int
  k_maxTrackedKeys :: jsval

definition default_apikey_options :: apikey_options where
  "default_apikey_options = \<lparr>k_globalMaxRequests = 20000, fallbackMaxRequests = 60,
     k_windowMs = 60 * 1000, k_maxTrackedKeys = Number (Num 5000)\<rparr>"

definition apiKey_globalKey :: string where
  "apiKey_globalKey = ''__global_api_keys__''"

definition resolveLimit :: "apikey_options \<Rightarrow> jsval \<Rightarrow> int" where
  "resolveLimit opt maxReq =
     (let limit = js_floor (to_num maxReq)
      in if is_finite limit \<and> 0 < num_int limit then num_int limit else fallbackMaxRequests opt)"

text \<open>The shared window is looked at only when the key's own limit does not refuse.\<close>

definition apiKey_check :: "apikey_options \<Rightarrow> requests \<Rightarrow> string \<Rightarrow> jsval \<Rightarrow> int \<Rightarrow> verdict \<times> requests" where
  "apiKey_check opt m key maxReq timestamp =
     (let limit = resolveLimit opt maxReq;
          fallback = ceil_div (k_windowMs opt) 1000;
          (current, m1) = activeRequest (k_windowMs opt) m key timestamp;
          refused = (case current of None \<Rightarrow> None
            | Some c \<Rightarrow> if r_count c \<ge> limit then Some c else None)
      in case refused of
          Some c \<Rightarrow> (\<lparr>allowed = False, retryAfterSeconds = retryAfter (k_windowMs opt) c timestamp fallback\<rparr>, m1)
        | None \<Rightarrow>
           (let (global, m2) = activeRequest (k_windowMs opt) m1 apiKey_globalKey timestamp;
                over = (case global of None \<Rightarrow> None
                  | Some g \<Rightarrow> if r_count g \<ge> k_globalMaxRequests opt then Some g else None)
            in case over of
                Some g \<Rightarrow> (\<lparr>allowed = False, retryAfterSeconds = retryAfter (k_windowMs opt) g timestamp fallback\<rparr>, m2)
              | None \<Rightarrow> (\<lparr>allowed = True, retryAfterSeconds = 0\<rparr>, m2)))"

definition apiKey_increment :: "apikey_options \<Rightarrow> requests \<Rightarrow> string \<Rightarrow> int \<Rightarrow> requests" where
  "apiKey_increment opt =
     request_increment (k_windowMs opt) (trackedEntryLimit (k_maxTrackedKeys opt)) apiKey_globalKey"

definition apiKey_record ::
  "apikey_options \<Rightarrow> requests \<Rightarrow> string \<Rightarrow> jsval \<Rightarrow> int \<Rightarrow> int \<Rightarrow> verdict \<times> requests" where
  "apiKey_record opt m key maxReq t t' =
     (let (v, m1) = apiKey_check opt m key maxReq t in
      if \<not> allowed v then (v, m1)
      else (v, apiKey_increment opt (apiKey_increment opt m1 key t') apiKey_globalKey t'))"

section \<open>Eviction\<close>

lemma evict_inv [intro]: "om_inv m \<Longrightarrow> om_inv (evictOldestIfFull m n p)"
  by (auto simp: evictOldestIfFull_def split: option.splits)

lemma evict_get_protected: "om_get (evictOldestIfFull m n p) p = om_get m p"
  by (auto simp: evictOldestIfFull_def om_get_delete split: option.splits dest: find_in_set)

lemma evict_get_None: "om_get m k = None \<Longrightarrow> om_get (evictOldestIfFull m n p) k = None"
  by (auto simp: evictOldestIfFull_def om_get_delete split: option.splits)

lemma evict_length_le: "om_inv m \<Longrightarrow> length (evictOldestIfFull m n p) \<le> length m"
  by (auto simp: evictOldestIfFull_def om.size_del_le split: option.splits)

text \<open>A full map holds a key other than the protected one, so a slot is always freed.\<close>

lemma distinct_other: "distinct xs \<Longrightarrow> 2 \<le> length xs \<Longrightarrow> \<exists>x \<in> set xs. x \<noteq> p"
  by (cases xs; cases "tl xs") auto

lemma evict_length:
  assumes inv: "om_inv m" and n: "2 \<le> n" and full: "length m \<le> n"
  shows "length (evictOldestIfFull m n p) < n"
proof (cases "length m < n")
  case True
  then show ?thesis by (simp add: evictOldestIfFull_def)
next
  case False
  with full n have len: "length m = n" "2 \<le> length (om_keys m)" by auto
  have "\<exists>x \<in> set (om_keys m). x \<noteq> p"
    by (rule distinct_other) (use inv len in \<open>auto simp: om_inv_def\<close>)
  then have "find (\<lambda>k. k \<noteq> p) (om_keys m) \<noteq> None"
    by (simp only: list_ex_find)
  then obtain k where k: "find (\<lambda>k. k \<noteq> p) (om_keys m) = Some k" by auto
  then have "k \<in> set (om_keys m)" by (blast dest: find_in_set)
  then have "om_get m k \<noteq> None" using om_get_None_iff [of m k] by simp
  with k len False n inv show ?thesis by (simp add: evictOldestIfFull_def om_length_delete)
qed

lemma trackedEntryLimit_ge: "2 \<le> trackedEntryLimit v"
  by (auto simp: trackedEntryLimit_def Let_def)

section \<open>The maps stay bounded\<close>

definition bounded_map :: "nat \<Rightarrow> (string, 'v) omap \<Rightarrow> bool" where
  "bounded_map n m = (om_inv m \<and> length m \<le> n)"

lemma bounded_Nil [simp]: "bounded_map n []"
  by (simp add: bounded_map_def)

lemma bounded_delete: "bounded_map n m \<Longrightarrow> bounded_map n (om_delete k m)"
  by (auto simp: bounded_map_def intro: order_trans [OF om.size_del_le])

lemma bounded_set_present: "bounded_map n m \<Longrightarrow> om_get m k \<noteq> None \<Longrightarrow> bounded_map n (om_set k v m)"
  by (auto simp: bounded_map_def om_length_set)

lemma bounded_set_evict:
  "2 \<le> n \<Longrightarrow> bounded_map n m \<Longrightarrow> bounded_map n (om_set k v (evictOldestIfFull m n p))"
  using evict_length [of m n p] by (auto simp: bounded_map_def om_length_set)

lemma login_active_bounded:
  "bounded_map n m \<Longrightarrow> bounded_map n (snd (login_activeAttempt opt m k t))"
  by (auto simp: login_activeAttempt_def bounded_delete split: option.splits)

lemma activeRequest_bounded:
  "bounded_map n m \<Longrightarrow> bounded_map n (snd (activeRequest w m k t))"
  by (auto simp: activeRequest_def bounded_delete split: option.splits)

lemma login_check_map:
  "snd (login_check opt m k t) =
     snd (login_activeAttempt opt (snd (login_activeAttempt opt m k t)) login_globalKey t)"
  by (simp add: login_check_def Let_def split_def)

lemma login_check_bounded: "bounded_map n m \<Longrightarrow> bounded_map n (snd (login_check opt m k t))"
  by (simp add: login_check_map login_active_bounded)

lemma login_increment_bounded:
  assumes "bounded_map (trackedEntryLimit (l_maxTrackedKeys opt)) m"
  shows "bounded_map (trackedEntryLimit (l_maxTrackedKeys opt)) (login_increment opt m k lm t)"
proof -
  let ?n = "trackedEntryLimit (l_maxTrackedKeys opt)"
  let ?m1 = "snd (login_activeAttempt opt m k t)"
  have m1: "bounded_map ?n ?m1" using assms by (rule login_active_bounded)
  show ?thesis
  proof (cases "om_has ?m1 k")
    case True
    then show ?thesis
      using m1 by (simp add: login_increment_def Let_def split_def om_has_get bounded_set_present)
  next
    case False
    then show ?thesis
      using m1 trackedEntryLimit_ge
      by (simp add: login_increment_def Let_def split_def bounded_set_evict)
  qed
qed

lemma request_increment_bounded:
  assumes "2 \<le> n" and "bounded_map n m"
  shows "bounded_map n (request_increment w n g m k t)"
proof (cases "fst (activeRequest w m k t)")
  case None
  then show ?thesis
    using assms activeRequest_bounded [OF assms(2), of w k t]
    by (simp add: request_increment_def split_def bounded_set_evict)
next
  case (Some c)
  then have "om_get (snd (activeRequest w m k t)) k \<noteq> None"
    by (auto simp: activeRequest_def split: option.splits if_splits)
  with Some show ?thesis
    using activeRequest_bounded [OF assms(2), of w k t]
    by (simp add: request_increment_def split_def bounded_set_present)
qed

text \<open>The operations of a login limiter, as its clients may interleave them.\<close>

datatype login_op = LCheck string int | LFailure string int int | LSuccess string

fun login_step :: "login_options \<Rightarrow> attempts \<Rightarrow> login_op \<Rightarrow> attempts" where
  "login_step opt m (LCheck k t) = snd (login_check opt m k t)"
| "login_step opt m (LFailure k t t') = snd (login_recordFailure opt m k t t')"
| "login_step opt m (LSuccess k) = login_recordSuccess m k"

lemma login_step_bounded:
  "bounded_map (trackedEntryLimit (l_maxTrackedKeys opt)) m \<Longrightarrow>
   bounded_map (trackedEntryLimit (l_maxTrackedKeys opt)) (login_step opt m p)"
  by (cases p)
    (simp_all add: login_check_bounded login_increment_bounded login_recordFailure_def
      login_recordSuccess_def bounded_delete Let_def)

datatype key_op = KCheck string jsval int | KRecord string jsval int int

fun apiKey_step :: "apikey_options \<Rightarrow> requests \<Rightarrow> key_op \<Rightarrow> requests" where
  "apiKey_step opt m (KCheck k l t) = snd (apiKey_check opt m k l t)"
| "apiKey_step opt m (KRecord k l t t') = snd (apiKey_record opt m k l t t')"

lemma apiKey_check_bounded: "bounded_map n m \<Longrightarrow> bounded_map n (snd (apiKey_check opt m k l t))"
  by (auto simp: apiKey_check_def Let_def split_def activeRequest_bounded split: option.splits)

lemma apiKey_step_bounded:
  "bounded_map (trackedEntryLimit (k_maxTrackedKeys opt)) m \<Longrightarrow>
   bounded_map (trackedEntryLimit (k_maxTrackedKeys opt)) (apiKey_step opt m p)"
  by (cases p)
    (auto simp: apiKey_check_bounded apiKey_record_def apiKey_increment_def Let_def split_def
      intro!: request_increment_bounded trackedEntryLimit_ge)

text \<open>
  However its operations are interleaved, a login limiter never tracks more keys than its
  configured limit, so a flood of distinct addresses cannot grow its map without bound.
\<close>

theorem login_map_bounded:
  "length (foldl (login_step opt) [] ops) \<le> trackedEntryLimit (l_maxTrackedKeys opt)"
proof -
  have "bounded_map (trackedEntryLimit (l_maxTrackedKeys opt)) m \<Longrightarrow>
    bounded_map (trackedEntryLimit (l_maxTrackedKeys opt)) (foldl (login_step opt) m ops)" for m
    by (induction ops arbitrary: m) (simp_all add: login_step_bounded)
  from this [of "[]"] show ?thesis by (simp add: bounded_map_def)
qed

section \<open>The verdict of the login limiter\<close>

text \<open>What \<open>activeAttempt\<close> finds under a key, as a function of the entry alone.\<close>

definition live_attempt :: "login_options \<Rightarrow> attempt option \<Rightarrow> int \<Rightarrow> attempt option" where
  "live_attempt opt a t = (case a of None \<Rightarrow> None
     | Some c \<Rightarrow> if (blockedUntil c \<noteq> 0 \<and> blockedUntil c > t) \<or> t < firstAttemptAt c + l_windowMs opt
                 then Some c else None)"

lemma login_active_fst: "fst (login_activeAttempt opt m k t) = live_attempt opt (om_get m k) t"
  by (auto simp: login_activeAttempt_def live_attempt_def split: option.splits)

lemma login_active_get:
  "om_get (snd (login_activeAttempt opt m k t)) k' =
     (if k' = k then live_attempt opt (om_get m k) t else om_get m k')"
  by (auto simp: login_activeAttempt_def live_attempt_def om_get_delete split: option.splits)

lemma live_attempt_idem: "live_attempt opt (live_attempt opt a t) t = live_attempt opt a t"
  by (auto simp: live_attempt_def split: option.splits)

lemma login_check_fst:
  "fst (login_check opt m k t) =
     (let bs = login_blocked (live_attempt opt (om_get m k) t) t
             @ login_blocked (live_attempt opt (om_get m login_globalKey) t) t
      in if bs \<noteq> [] then \<lparr>allowed = False, retryAfterSeconds = max_list bs\<rparr>
         else \<lparr>allowed = True, retryAfterSeconds = 0\<rparr>)"
  by (simp add: login_check_def Let_def split_def login_active_fst login_active_get live_attempt_idem)

lemma login_check_get:
  "om_get (snd (login_check opt m k t)) k' =
     (if k' = k \<or> k' = login_globalKey then live_attempt opt (om_get m k') t else om_get m k')"
  by (simp add: login_check_map login_active_get live_attempt_idem)

lemma login_increment_get_same:
  "om_get (login_increment opt m k l t) k =
     (let n = login_next opt (live_attempt opt (om_get m k) t) t
      in Some (if a_count n \<ge> l then n\<lparr>blockedUntil := t + blockMs opt\<rparr> else n))"
  by (simp add: login_increment_def Let_def split_def om_get_set login_active_fst)

lemma login_increment_get_global:
  "k \<noteq> login_globalKey \<Longrightarrow>
   om_get (login_increment opt m k l t) login_globalKey = om_get m login_globalKey"
  by (simp add: login_increment_def Let_def split_def om_get_set evict_get_protected login_active_get)

lemma login_increment_global_other:
  "om_get m k = Some a \<Longrightarrow> k \<noteq> login_globalKey \<Longrightarrow> om_get m login_globalKey \<noteq> None \<Longrightarrow>
   live_attempt opt (om_get m login_globalKey) t \<noteq> None \<Longrightarrow>
   om_get (login_increment opt m login_globalKey l t) k = Some a"
  by (auto simp: login_increment_def Let_def split_def om_get_set login_active_get om_has_get)

text \<open>
  Signing in successfully clears only that client's own failures: for every other key the
  verdict of \<open>check\<close> is what it was, so a block, the shared one included, is not lifted.
\<close>

theorem login_success_isolated:
  assumes "key \<noteq> login_globalKey" and "key \<noteq> other"
  shows "fst (login_check opt (login_recordSuccess m key) other t) = fst (login_check opt m other t)"
  using assms by (simp add: login_check_fst login_recordSuccess_def om_get_delete)

theorem login_success_isolated_witness:
  "fst (login_check default_login_options (login_recordSuccess
       [(''a'', \<lparr>a_count = 1, firstAttemptAt = 5, blockedUntil = 0\<rparr>),
        (''b'', \<lparr>a_count = 8, firstAttemptAt = 5, blockedUntil = 900\<rparr>)] ''a'') ''b'' 10)
   = fst (login_check default_login_options
       [(''a'', \<lparr>a_count = 1, firstAttemptAt = 5, blockedUntil = 0\<rparr>),
        (''b'', \<lparr>a_count = 8, firstAttemptAt = 5, blockedUntil = 900\<rparr>)] ''b'' 10)"
  by (rule login_success_isolated) (simp_all add: login_globalKey_def)

section \<open>Lockout\<close>

text \<open>
  A client's consecutive failures, each recorded and checked at one clock reading. Failures of
  other clients may have filled the map before.
\<close>

definition login_fail :: "login_options \<Rightarrow> attempts \<Rightarrow> string \<Rightarrow> int \<Rightarrow> attempts" where
  "login_fail opt m k t = snd (login_recordFailure opt m k t t)"

lemma login_fail_get:
  assumes k: "k \<noteq> login_globalKey" and a: "om_get (login_increment opt m k (maxAttempts opt) t) k = Some a"
    and live: "live_attempt opt (Some a) t = Some a"
    and glob: "om_get m login_globalKey \<noteq> None"
      "live_attempt opt (om_get m login_globalKey) t \<noteq> None"
  shows "om_get (login_fail opt m k t) k = Some a"
proof -
  let ?m1 = "login_increment opt m k (maxAttempts opt) t"
  let ?m2 = "login_increment opt ?m1 login_globalKey (globalMaxAttempts opt) t"
  have "om_get ?m1 login_globalKey = om_get m login_globalKey"
    using k by (rule login_increment_get_global)
  then have "om_get ?m2 k = Some a"
    using a k glob by (intro login_increment_global_other) simp_all
  then show ?thesis
    using live by (simp add: login_fail_def login_recordFailure_def login_check_get)
qed

lemma login_check_blocked:
  assumes "om_get m k = Some a" and "0 < blockedUntil a" and "t < blockedUntil a"
  shows "\<not> allowed (fst (login_check opt m k t))"
    and "ceil_div (blockedUntil a - t) 1000 \<le> retryAfterSeconds (fst (login_check opt m k t))"
  using assms by (auto simp: login_check_fst live_attempt_def login_blocked_def Let_def intro!: max_list_ge)

text \<open>
  When a client's failure reaches the limit inside its window, every later check of that
  client before the block ends is refused, and the wait it is told is at least the time left.
\<close>

theorem login_lockout:
  assumes key: "key \<noteq> login_globalKey"
    and entry: "om_get m key = Some a" "t < firstAttemptAt a + l_windowMs opt"
    and reach: "maxAttempts opt \<le> a_count a + 1"
    and glob: "om_get m login_globalKey = Some g" "t < firstAttemptAt g + l_windowMs opt"
    and block: "0 \<le> t" "t \<le> t'" "t' < t + blockMs opt"
  shows "\<not> allowed (fst (login_check opt (login_fail opt m key t) key t')) \<and>
    t + blockMs opt - t' \<le> 1000 * retryAfterSeconds (fst (login_check opt (login_fail opt m key t) key t'))"
proof -
  let ?b = "a\<lparr>a_count := a_count a + 1, blockedUntil := t + blockMs opt\<rparr>"
  have next_b: "om_get (login_increment opt m key (maxAttempts opt) t) key = Some ?b"
    using entry reach by (simp add: login_increment_get_same live_attempt_def login_next_def Let_def)
  have get: "om_get (login_fail opt m key t) key = Some ?b"
    using glob block entry
    by (intro login_fail_get [OF key next_b]) (auto simp: live_attempt_def)
  have b: "0 < blockedUntil ?b" "t' < blockedUntil ?b" using block by auto
  note blocked = login_check_blocked [OF get b]
  have "blockedUntil ?b - t' \<le> 1000 * ceil_div (blockedUntil ?b - t') 1000"
    by (rule ceil_div_upper) simp
  with blocked(1) [of opt] blocked(2) [of opt] show ?thesis by simp
qed

theorem login_lockout_witness:
  "\<not> allowed (fst (login_check default_login_options
      (login_fail default_login_options
        [(''__global__'', \<lparr>a_count = 7, firstAttemptAt = 1000, blockedUntil = 0\<rparr>),
         (''a'', \<lparr>a_count = 7, firstAttemptAt = 1000, blockedUntil = 0\<rparr>)] ''a'' 2000) ''a'' 3000))"
  using login_lockout [of "''a''"
      "[(''__global__'', \<lparr>a_count = 7, firstAttemptAt = 1000, blockedUntil = 0\<rparr>),
        (''a'', \<lparr>a_count = 7, firstAttemptAt = 1000, blockedUntil = 0\<rparr>)]"
      "\<lparr>a_count = 7, firstAttemptAt = 1000, blockedUntil = 0\<rparr>" 2000 default_login_options
      "\<lparr>a_count = 7, firstAttemptAt = 1000, blockedUntil = 0\<rparr>" 3000]
  by (simp add: login_globalKey_def default_login_options_def om_get_def)

section \<open>Forwarded addresses\<close>

text \<open>
  The \<open>X-Forwarded-For\<close> header decides the rate-limit key only when the TCP peer is one
  of the operator's trusted proxies: from any other peer, no header changes it.
\<close>

theorem resolveClientIp_untrusted:
  assumes "normalizeIp sock \<notin> set trusted"
  shows "resolveClientIp sock h trusted = resolveClientIp sock h' trusted"
  using assms by (auto simp: resolveClientIp_def Let_def)

theorem resolveClientIp_untrusted_witness:
  "resolveClientIp (Some ''::ffff:9.9.9.9'') (Some ''1.2.3.4'') [''10.0.0.1'']
   = resolveClientIp (Some ''::ffff:9.9.9.9'') None [''10.0.0.1'']"
  by (rule resolveClientIp_untrusted)
    (simp add: normalizeIp_def starts_with_def)

section \<open>Admission in one window\<close>

text \<open>
  What a fixed-window limiter promises for one client: \<open>win\<close> is the client's window (its count
  and start), \<open>admit\<close> one request at a time, \<open>ok\<close> the limiter's invariant.
\<close>

locale window_admission =
  fixes admit :: "'s \<Rightarrow> int \<Rightarrow> bool \<times> 's"
    and win :: "'s \<Rightarrow> (int \<times> int) option"
    and ok :: "'s \<Rightarrow> bool"
    and W :: int
    and limit :: int
  assumes ok_admit: "ok s \<Longrightarrow> ok (snd (admit s t))"
    and admit_fresh: "ok s \<Longrightarrow> win s = None \<Longrightarrow>
          fst (admit s t) \<and> win (snd (admit s t)) = Some (1, t)"
    and admit_under: "ok s \<Longrightarrow> win s = Some (c, t0) \<Longrightarrow> t < t0 + W \<Longrightarrow> c < limit \<Longrightarrow>
          fst (admit s t) \<and> win (snd (admit s t)) = Some (c + 1, t0)"
    and admit_over: "ok s \<Longrightarrow> win s = Some (c, t0) \<Longrightarrow> t < t0 + W \<Longrightarrow> limit \<le> c \<Longrightarrow>
          \<not> fst (admit s t) \<and> win (snd (admit s t)) = Some (c, t0)"
begin

fun admit_all :: "'s \<Rightarrow> int list \<Rightarrow> bool list" where
  "admit_all s [] = []"
| "admit_all s (t # ts) = fst (admit s t) # admit_all (snd (admit s t)) ts"

lemma admit_all_live:
  "ok s \<Longrightarrow> win s = Some (c, t0) \<Longrightarrow> \<forall>t \<in> set ts. t < t0 + W \<Longrightarrow>
   admit_all s ts = map (\<lambda>i. c + int i < limit) [0..<length ts]"
proof (induction ts arbitrary: s c)
  case Nil
  then show ?case by simp
next
  case (Cons t ts)
  let ?s = "snd (admit s t)"
  let ?c = "if c < limit then c + 1 else c"
  have t: "t < t0 + W" using Cons.prems(3) by simp
  have win: "win ?s = Some (?c, t0)" and fst: "fst (admit s t) = (c < limit)"
    using admit_under [OF Cons.prems(1,2) t] admit_over [OF Cons.prems(1,2) t]
    by (cases "c < limit"; simp)+
  have "admit_all ?s ts = map (\<lambda>i. ?c + int i < limit) [0..<length ts]"
    using Cons.prems(3) by (intro Cons.IH ok_admit Cons.prems(1) win) simp
  moreover have "map (\<lambda>i. ?c + int i < limit) [0..<length ts]
      = map (\<lambda>i. c + int (Suc i) < limit) [0..<length ts]"
    by (cases "c < limit") auto
  ultimately show ?case
    using fst by (simp add: upt_conv_Cons del: upt_Suc map_eq_conv)
      (simp add: map_Suc_upt [symmetric] comp_def del: upt_Suc)
qed

text \<open>Inside one window exactly the first \<open>limit\<close> requests are admitted.\<close>

lemma admits_exactly:
  assumes "ok s" "win s = None" "0 < limit" "\<forall>t \<in> set ts. t < t0 + W"
  shows "admit_all s (t0 # ts) = map (\<lambda>i. int i < limit) [0..<Suc (length ts)]"
proof -
  have "win (snd (admit s t0)) = Some (1, t0)" "fst (admit s t0)"
    using admit_fresh [OF assms(1,2), of t0] by auto
  moreover have "admit_all (snd (admit s t0)) ts = map (\<lambda>i. 1 + int i < limit) [0..<length ts]"
    using assms calculation by (intro admit_all_live ok_admit) auto
  ultimately show ?thesis
    using assms(3) by (simp add: upt_conv_Cons del: upt_Suc)
      (simp add: map_Suc_upt [symmetric] comp_def del: upt_Suc)
qed

end

text \<open>
  The state of a request limiter that serves one client \<open>k\<close>: it tracks that client and the
  shared window \<open>g\<close> only, and both count the same requests.
\<close>

definition key_window :: "string \<Rightarrow> requests \<Rightarrow> (int \<times> int) option" where
  "key_window k m = map_option (\<lambda>r. (r_count r, firstRequestAt r)) (om_get m k)"

definition alone :: "string \<Rightarrow> string \<Rightarrow> requests \<Rightarrow> bool" where
  "alone g k m = (k \<noteq> g \<and> om_inv m \<and> set (om_keys m) \<subseteq> {k, g} \<and> om_get m g = om_get m k)"

lemma activeRequest_fst:
  "fst (activeRequest w m k t) =
     (case om_get m k of None \<Rightarrow> None | Some c \<Rightarrow> if t < firstRequestAt c + w then Some c else None)"
  by (auto simp: activeRequest_def split: option.splits)

lemma activeRequest_get:
  "om_get (snd (activeRequest w m k t)) k' =
     (if k' = k then fst (activeRequest w m k t) else om_get m k')"
  by (auto simp: activeRequest_def om_get_delete split: option.splits)

lemma activeRequest_id: "fst (activeRequest w m k t) = om_get m k \<Longrightarrow> om_inv m \<Longrightarrow> snd (activeRequest w m k t) = m"
  by (auto simp: activeRequest_def split: option.splits if_splits)

lemma request_increment_same:
  "om_get (request_increment w n g m k t) k =
     Some (case fst (activeRequest w m k t) of
        None \<Rightarrow> \<lparr>r_count = 1, firstRequestAt = t\<rparr> | Some c \<Rightarrow> c\<lparr>r_count := r_count c + 1\<rparr>)"
  by (simp add: request_increment_def split_def om_get_set split: option.splits)

lemma request_increment_protected:
  "k \<noteq> g \<Longrightarrow> om_get (request_increment w n g m k t) g = om_get m g"
  by (auto simp: request_increment_def split_def Let_def om_get_set evict_get_protected
      activeRequest_get split: option.splits)

lemma request_increment_live_other:
  "k \<noteq> g \<Longrightarrow> fst (activeRequest w m g t) \<noteq> None \<Longrightarrow>
   om_get (request_increment w n g m g t) k = om_get m k"
  by (auto simp: request_increment_def split_def Let_def om_get_set activeRequest_get
      split: option.splits)

lemma single_length: "om_inv m \<Longrightarrow> set (om_keys m) \<subseteq> {x} \<Longrightarrow> length m < 2"
proof -
  assume m: "om_inv m" "set (om_keys m) \<subseteq> {x}"
  have "length (om_keys m) = card (set (om_keys m))"
    using m(1) by (simp only: om_inv_def distinct_card)
  also have "\<dots> \<le> card {x}" by (rule card_mono) (use m(2) in auto)
  finally show "length m < 2" by simp
qed

text \<open>Where the map has room, counting a request sets the entry of its key and nothing else.\<close>

definition next_request :: "int \<Rightarrow> request option \<Rightarrow> int \<Rightarrow> request" where
  "next_request w r t = (case r of
      Some c \<Rightarrow> if t < firstRequestAt c + w then c\<lparr>r_count := r_count c + 1\<rparr>
                else \<lparr>r_count = 1, firstRequestAt = t\<rparr>
    | None \<Rightarrow> \<lparr>r_count = 1, firstRequestAt = t\<rparr>)"

lemma evict_room: "length m < n \<Longrightarrow> evictOldestIfFull m n p = m"
  by (simp add: evictOldestIfFull_def)

lemma request_increment_room:
  assumes inv: "om_inv m" and keys: "set (om_keys m) \<subseteq> {x, k}" and n: "2 \<le> n"
  shows "om_get (request_increment w n g m k t) k' =
      (if k' = k then Some (next_request w (om_get m k) t) else om_get m k')"
    and "om_inv (request_increment w n g m k t)"
    and "set (om_keys (request_increment w n g m k t)) \<subseteq> {x, k}"
proof -
  have drop: "length (om_delete k m) < n"
  proof -
    have "length (om_delete k m) < 2"
      by (rule single_length [of _ x]) (use inv keys in \<open>auto simp: om_keys_delete simp del: set_map\<close>)
    with n show ?thesis by simp
  qed
  have room: "om_get m k = None \<Longrightarrow> length m < n"
    using drop om_get_None_iff [of m k] by (simp add: om_delete_absent)
  show "om_get (request_increment w n g m k t) k' =
      (if k' = k then Some (next_request w (om_get m k) t) else om_get m k')"
    using drop room
    by (auto simp: request_increment_def activeRequest_def next_request_def evict_room om_get_set
        om_get_delete Let_def split: option.splits)
  show "om_inv (request_increment w n g m k t)"
    using inv by (auto simp: request_increment_def activeRequest_def split: option.splits)
  show "set (om_keys (request_increment w n g m k t)) \<subseteq> {x, k}"
    using keys drop room
    by (auto simp: request_increment_def activeRequest_def evict_room om_keys_set om_keys_delete
        simp del: set_map split: option.splits if_splits)
qed

lemma alone_pair:
  fixes w t :: int
  assumes "alone g k m" and n: "2 \<le> n"
  defines "m' \<equiv> request_increment w n g (request_increment w n g m k t) g t"
  shows "alone g k m'" and "om_get m' k = Some (next_request w (om_get m k) t)"
    and "om_get m' g = Some (next_request w (om_get m k) t)"
proof -
  let ?m1 = "request_increment w n g m k t"
  have k: "k \<noteq> g" and m: "om_inv m" "set (om_keys m) \<subseteq> {g, k}" "om_get m g = om_get m k"
    using assms(1) by (auto simp: alone_def)
  note one = request_increment_room [OF m(1,2) n, of w g t]
  have keys1: "set (om_keys ?m1) \<subseteq> {k, g}" using one(3) by blast
  note two = request_increment_room [OF one(2) keys1 n, of w g t]
  show "om_get m' k = Some (next_request w (om_get m k) t)"
    and "om_get m' g = Some (next_request w (om_get m k) t)"
    using k m(3) by (simp_all add: m'_def one(1) two(1))
  then show "alone g k m'"
    unfolding alone_def using k two(2,3) by (simp add: m'_def)
qed

lemma alone_active:
  fixes w t :: int
  assumes "alone g k m"
  defines "m1 \<equiv> snd (activeRequest w m k t)"
  defines "m2 \<equiv> snd (activeRequest w m1 g t)"
  shows "alone g k m2" and "om_get m2 k = fst (activeRequest w m k t)"
    and "fst (activeRequest w m1 g t) = fst (activeRequest w m k t)"
proof -
  have k: "k \<noteq> g" "om_inv m" "set (om_keys m) \<subseteq> {k, g}" "om_get m g = om_get m k"
    using assms(1) by (auto simp: alone_def)
  show fst: "fst (activeRequest w m1 g t) = fst (activeRequest w m k t)"
    using k by (simp add: m1_def activeRequest_fst activeRequest_get)
  have g2: "om_get m2 g = fst (activeRequest w m1 g t)" unfolding m2_def by (simp add: activeRequest_get)
  show k2: "om_get m2 k = fst (activeRequest w m k t)"
    using k(1) by (simp add: m1_def m2_def activeRequest_get)
  have "om_inv m2" "set (om_keys m2) \<subseteq> {k, g}"
    using k(2,3) by (auto simp: m1_def m2_def activeRequest_def om_keys_delete simp del: set_map
        split: option.splits)
  then show "alone g k m2" using k(1) g2 k2 fst by (simp add: alone_def)
qed

lemma alone_Nil: "k \<noteq> g \<Longrightarrow> alone g k []"
  by (simp add: alone_def)

section \<open>The two request limiters admit exactly their limit\<close>

definition mutation_admit :: "mutation_options \<Rightarrow> string \<Rightarrow> requests \<Rightarrow> int \<Rightarrow> bool \<times> requests" where
  "mutation_admit opt k m t = map_prod allowed id (applyMutationRateLimit opt m k t t t)"

definition mutation_ok :: "mutation_options \<Rightarrow> string \<Rightarrow> requests \<Rightarrow> bool" where
  "mutation_ok opt k m = (alone mutation_globalKey k m \<and> 0 < m_windowMs opt
     \<and> 0 < maxRequests opt \<and> maxRequests opt \<le> globalMaxRequests opt)"

definition apiKey_admit :: "apikey_options \<Rightarrow> string \<Rightarrow> jsval \<Rightarrow> requests \<Rightarrow> int \<Rightarrow> bool \<times> requests" where
  "apiKey_admit opt k l m t = map_prod allowed id (apiKey_record opt m k l t t)"

definition apiKey_ok :: "apikey_options \<Rightarrow> string \<Rightarrow> jsval \<Rightarrow> requests \<Rightarrow> bool" where
  "apiKey_ok opt k l m = (alone apiKey_globalKey k m \<and> 0 < k_windowMs opt
     \<and> 0 < resolveLimit opt l \<and> resolveLimit opt l \<le> k_globalMaxRequests opt)"

abbreviation active_in :: "int \<Rightarrow> string \<Rightarrow> requests \<Rightarrow> int \<Rightarrow> request option" where
  "active_in w k m t \<equiv> fst (activeRequest w m k t)"

lemma next_request_active: "next_request w (active_in w k m t) t = next_request w (om_get m k) t"
  by (auto simp: next_request_def activeRequest_fst split: option.splits)

lemma window_verdict_same:
  assumes "limit \<le> globalLimit"
  shows "allowed (window_verdict w limit globalLimit r r t) = (case r of None \<Rightarrow> True | Some c \<Rightarrow> r_count c < limit)"
  using assms by (auto simp: window_verdict_def Let_def split: option.splits)

lemma mutation_check_alone:
  assumes "mutation_ok opt k m"
  shows "allowed (fst (mutation_check opt m k t)) =
      (case active_in (m_windowMs opt) k m t of None \<Rightarrow> True | Some c \<Rightarrow> r_count c < maxRequests opt)"
    and "mutation_ok opt k (snd (mutation_check opt m k t))"
    and "om_get (snd (mutation_check opt m k t)) k = active_in (m_windowMs opt) k m t"
  using assms alone_active [of mutation_globalKey k m "m_windowMs opt" t]
  by (simp_all add: mutation_ok_def mutation_check_def split_def Let_def window_verdict_same)

lemma mutation_record_alone:
  assumes "mutation_ok opt k m"
  shows "mutation_ok opt k (snd (mutation_record opt m k t t))"
    and "om_get (snd (mutation_record opt m k t t)) k = Some (next_request (m_windowMs opt) (om_get m k) t)"
proof -
  let ?n = "trackedEntryLimit (m_maxTrackedKeys opt)" and ?w = "m_windowMs opt"
  let ?m = "request_increment ?w ?n mutation_globalKey
      (request_increment ?w ?n mutation_globalKey m k t) mutation_globalKey t"
  have al: "alone mutation_globalKey k m" and w: "0 < ?w" using assms by (auto simp: mutation_ok_def)
  note pair = alone_pair [OF al trackedEntryLimit_ge,
      where w = ?w and t = t and v1 = "m_maxTrackedKeys opt"]
  have ok: "mutation_ok opt k ?m" using assms pair(1) by (simp add: mutation_ok_def)
  have eq: "snd (mutation_record opt m k t t) = snd (mutation_check opt ?m k t)"
    by (simp add: mutation_record_def mutation_increment_def)
  have live: "active_in ?w k ?m t = Some (next_request ?w (om_get m k) t)"
    using w pair(2) by (auto simp: activeRequest_fst next_request_def split: option.splits)
  show "mutation_ok opt k (snd (mutation_record opt m k t t))"
    using mutation_check_alone(2) [OF ok] by (simp add: eq)
  show "om_get (snd (mutation_record opt m k t t)) k = Some (next_request ?w (om_get m k) t)"
    using mutation_check_alone(3) [OF ok] live by (simp add: eq)
qed

lemma mutation_admit_alone:
  assumes "mutation_ok opt k m"
  shows "mutation_ok opt k (snd (mutation_admit opt k m t))"
    and "fst (mutation_admit opt k m t) =
      (case active_in (m_windowMs opt) k m t of None \<Rightarrow> True | Some c \<Rightarrow> r_count c < maxRequests opt)"
    and "om_get (snd (mutation_admit opt k m t)) k =
      (if fst (mutation_admit opt k m t) then Some (next_request (m_windowMs opt) (om_get m k) t)
       else active_in (m_windowMs opt) k m t)"
  using mutation_check_alone [OF assms, of t] mutation_record_alone [OF mutation_check_alone(2) [OF assms], of t t]
  by (simp_all add: mutation_admit_def applyMutationRateLimit_def split_def Let_def next_request_active)

lemma apiKey_admit_alone:
  assumes "apiKey_ok opt k l m"
  shows "apiKey_ok opt k l (snd (apiKey_admit opt k l m t))"
    and "fst (apiKey_admit opt k l m t) =
      (case active_in (k_windowMs opt) k m t of None \<Rightarrow> True | Some c \<Rightarrow> r_count c < resolveLimit opt l)"
    and "om_get (snd (apiKey_admit opt k l m t)) k =
      (if fst (apiKey_admit opt k l m t) then Some (next_request (k_windowMs opt) (om_get m k) t)
       else active_in (k_windowMs opt) k m t)"
proof -
  let ?w = "k_windowMs opt" and ?n = "trackedEntryLimit (k_maxTrackedKeys opt)"
  let ?m1 = "snd (activeRequest ?w m k t)"
  let ?m2 = "snd (activeRequest ?w ?m1 apiKey_globalKey t)"
  let ?r = "active_in ?w k m t"
  have al: "alone apiKey_globalKey k m" and lim: "resolveLimit opt l \<le> k_globalMaxRequests opt"
    using assms by (auto simp: apiKey_ok_def)
  note act = alone_active [OF al, of ?w t]
  note pair = alone_pair [OF act(1) trackedEntryLimit_ge,
      where w = ?w and t = t and v1 = "k_maxTrackedKeys opt"]
  have full: "?r = Some c \<Longrightarrow> ?m1 = m" for c
    by (auto simp: activeRequest_def split: option.splits if_splits)
  have over: "?r = Some c \<Longrightarrow> resolveLimit opt l \<le> r_count c \<Longrightarrow>
      apiKey_admit opt k l m t = (False, m)" for c
    using full by (simp add: apiKey_admit_def apiKey_record_def apiKey_check_def split_def Let_def)
  have under: "(\<And>c. ?r = Some c \<Longrightarrow> r_count c < resolveLimit opt l) \<Longrightarrow>
      apiKey_admit opt k l m t = (True, request_increment ?w ?n apiKey_globalKey
        (request_increment ?w ?n apiKey_globalKey ?m2 k t) apiKey_globalKey t)"
    using act(3) lim
    by (cases ?r) (auto simp: apiKey_admit_def apiKey_record_def apiKey_check_def apiKey_increment_def
        split_def Let_def)
  have mk: "?r = Some c \<Longrightarrow> om_get m k = Some c" for c
    by (auto simp: activeRequest_fst split: option.splits if_splits)
  show "apiKey_ok opt k l (snd (apiKey_admit opt k l m t))"
    using assms over under pair(1) by (cases ?r) (force simp: apiKey_ok_def not_less)+
  show "fst (apiKey_admit opt k l m t) =
      (case ?r of None \<Rightarrow> True | Some c \<Rightarrow> r_count c < resolveLimit opt l)"
    using over under by (cases ?r) (force simp: not_less)+
  show "om_get (snd (apiKey_admit opt k l m t)) k =
      (if fst (apiKey_admit opt k l m t) then Some (next_request ?w (om_get m k) t) else ?r)"
    using over under pair(2) act(2) mk next_request_active [where w = ?w and k = k and m = m and t = t]
    by (cases ?r) (force simp: not_less)+
qed

interpretation mut: window_admission "mutation_admit opt k" "key_window k" "mutation_ok opt k"
    "m_windowMs opt" "maxRequests opt" for opt k
proof
  fix s t c t0
  assume ok: "mutation_ok opt k s"
  note adm = mutation_admit_alone [OF ok]
  show "mutation_ok opt k (snd (mutation_admit opt k s t))" by (rule adm)
  show "key_window k s = None \<Longrightarrow>
      fst (mutation_admit opt k s t) \<and> key_window k (snd (mutation_admit opt k s t)) = Some (1, t)"
    by (auto simp: adm(2,3) key_window_def activeRequest_fst next_request_def)
  show "key_window k s = Some (c, t0) \<Longrightarrow> t < t0 + m_windowMs opt \<Longrightarrow> c < maxRequests opt \<Longrightarrow>
      fst (mutation_admit opt k s t) \<and> key_window k (snd (mutation_admit opt k s t)) = Some (c + 1, t0)"
    by (auto simp: adm(2,3) key_window_def activeRequest_fst next_request_def)
  show "key_window k s = Some (c, t0) \<Longrightarrow> t < t0 + m_windowMs opt \<Longrightarrow> maxRequests opt \<le> c \<Longrightarrow>
      \<not> fst (mutation_admit opt k s t) \<and> key_window k (snd (mutation_admit opt k s t)) = Some (c, t0)"
    by (auto simp: adm(2,3) key_window_def activeRequest_fst)
qed

interpretation api: window_admission "apiKey_admit opt k l" "key_window k" "apiKey_ok opt k l"
    "k_windowMs opt" "resolveLimit opt l" for opt k l
proof
  fix s t c t0
  assume ok: "apiKey_ok opt k l s"
  note adm = apiKey_admit_alone [OF ok]
  show "apiKey_ok opt k l (snd (apiKey_admit opt k l s t))" by (rule adm)
  show "key_window k s = None \<Longrightarrow>
      fst (apiKey_admit opt k l s t) \<and> key_window k (snd (apiKey_admit opt k l s t)) = Some (1, t)"
    by (auto simp: adm(2,3) key_window_def activeRequest_fst next_request_def)
  show "key_window k s = Some (c, t0) \<Longrightarrow> t < t0 + k_windowMs opt \<Longrightarrow> c < resolveLimit opt l \<Longrightarrow>
      fst (apiKey_admit opt k l s t) \<and> key_window k (snd (apiKey_admit opt k l s t)) = Some (c + 1, t0)"
    by (auto simp: adm(2,3) key_window_def activeRequest_fst next_request_def)
  show "key_window k s = Some (c, t0) \<Longrightarrow> t < t0 + k_windowMs opt \<Longrightarrow> resolveLimit opt l \<le> c \<Longrightarrow>
      \<not> fst (apiKey_admit opt k l s t) \<and> key_window k (snd (apiKey_admit opt k l s t)) = Some (c, t0)"
    by (auto simp: adm(2,3) key_window_def activeRequest_fst)
qed

text \<open>The verdicts of a sequence of requests of one client, one clock reading each.\<close>

fun mutation_run :: "mutation_options \<Rightarrow> string \<Rightarrow> requests \<Rightarrow> int list \<Rightarrow> bool list" where
  "mutation_run opt k m [] = []"
| "mutation_run opt k m (t # ts) =
     allowed (fst (applyMutationRateLimit opt m k t t t))
       # mutation_run opt k (snd (applyMutationRateLimit opt m k t t t)) ts"

fun apiKey_run :: "apikey_options \<Rightarrow> string \<Rightarrow> jsval \<Rightarrow> requests \<Rightarrow> int list \<Rightarrow> bool list" where
  "apiKey_run opt k l m [] = []"
| "apiKey_run opt k l m (t # ts) =
     allowed (fst (apiKey_record opt m k l t t)) # apiKey_run opt k l (snd (apiKey_record opt m k l t t)) ts"

lemma mutation_run_eq: "mutation_run opt k m ts = mut.admit_all opt k m ts"
  by (induction ts arbitrary: m) (simp_all add: mutation_admit_def)

lemma apiKey_run_eq: "apiKey_run opt k l m ts = api.admit_all opt k l m ts"
  by (induction ts arbitrary: m) (simp_all add: apiKey_admit_def)

text \<open>
  An API key configured for \<open>N\<close> requests a minute gets exactly \<open>N\<close>: of a client's requests
  inside one window the first \<open>N\<close> are admitted and all later ones are refused.
\<close>

theorem apiKey_admits_exactly:
  assumes "k \<noteq> apiKey_globalKey" and "0 < k_windowMs opt"
    and "0 < resolveLimit opt l" and "resolveLimit opt l \<le> k_globalMaxRequests opt"
    and "\<forall>t \<in> set ts. t < t0 + k_windowMs opt"
  shows "apiKey_run opt k l [] (t0 # ts) = map (\<lambda>i. int i < resolveLimit opt l) [0..<Suc (length ts)]"
  using assms alone_Nil [of k]
  by (subst apiKey_run_eq) (rule api.admits_exactly, simp_all add: apiKey_ok_def key_window_def)

theorem apiKey_admits_exactly_witness:
  "apiKey_run default_apikey_options ''k'' (Number (Num 2)) [] [5, 6, 7, 60004] = [True, True, False, False]"
proof -
  have l: "resolveLimit default_apikey_options (Number (Num 2)) = 2"
    by (simp add: resolveLimit_def Let_def)
  show ?thesis
    using apiKey_admits_exactly [of "''k''" default_apikey_options "Number (Num 2)" "[6, 7, 60004]" 5]
    unfolding l
    by (simp add: apiKey_globalKey_def default_apikey_options_def upt_rec del: apiKey_run.simps)
qed

text \<open>
  A route guarded by \<open>applyMutationRateLimit\<close> admits exactly \<open>maxRequests\<close> changes of one
  session and address in a window, and refuses the rest.
\<close>

theorem mutation_admits_exactly:
  assumes "k \<noteq> mutation_globalKey" and "0 < m_windowMs opt"
    and "0 < maxRequests opt" and "maxRequests opt \<le> globalMaxRequests opt"
    and "\<forall>t \<in> set ts. t < t0 + m_windowMs opt"
  shows "mutation_run opt k [] (t0 # ts) = map (\<lambda>i. int i < maxRequests opt) [0..<Suc (length ts)]"
  using assms alone_Nil [of k]
  by (subst mutation_run_eq) (rule mut.admits_exactly, simp_all add: mutation_ok_def key_window_def)

theorem mutation_admits_exactly_witness:
  "mutation_run \<lparr>maxRequests = 2, globalMaxRequests = 3, m_windowMs = 100, m_maxTrackedKeys = Undef\<rparr>
     ''k'' [] [5, 6, 7] = [True, True, False]"
  using mutation_admits_exactly [of "''k''"
      "\<lparr>maxRequests = 2, globalMaxRequests = 3, m_windowMs = 100, m_maxTrackedKeys = Undef\<rparr>" "[6, 7]" 5]
  by (simp add: mutation_globalKey_def upt_rec del: mutation_run.simps)

text \<open>
  A request an API key is refused leaves no trace in the counts: neither the key's window nor
  the shared one grows, so a refused client cannot exhaust the shared budget.
\<close>

theorem apiKey_refusal_free:
  assumes "\<not> allowed (fst (apiKey_record opt m key l t t'))"
  shows "om_get (snd (apiKey_record opt m key l t t')) k \<in> {None, om_get m k}"
  using assms
  by (auto simp: apiKey_record_def apiKey_check_def Let_def split_def activeRequest_get
      activeRequest_fst split: option.splits if_splits)

theorem apiKey_refusal_free_witness:
  "om_get (snd (apiKey_record default_apikey_options [(''k'', \<lparr>r_count = 1, firstRequestAt = 5\<rparr>)]
      ''k'' (Number (Num 1)) 6 6)) ''k'' \<in> {None, om_get [(''k'', \<lparr>r_count = 1, firstRequestAt = 5\<rparr>)] ''k''}"
  by (rule apiKey_refusal_free)
    (simp add: apiKey_record_def apiKey_check_def activeRequest_def om_get_def resolveLimit_def
      default_apikey_options_def Let_def)

end
