(* ===== verification/Login.thy ===== *)
theory Login
  imports Auth SecondFactor RateLimit PolicyEngine
begin

text \<open>
  Signing in: \<open>console/api/src/passwordHash.js\<close> and the authentication routes of
  \<open>console/api/src/server.js\<close> (login, the guard of setup sessions, two-factor setup and confirmation,
  fresh proof of the credential, password change, regeneration of recovery codes, Discord token
  exchange). They compose the limiters, the password check, the second-factor store and the session
  table. A route is one step here, with nothing else in between; \<open>LoginSteps\<close> has the login route await by await. \<open>scrypt\<close> is the key derivation of Node's crypto. One clock reading stands for all readings of
  one request. Audit lines, QR images, cookies' attributes and the text of answers are not modelled.
\<close>

section \<open>Passwords\<close>

text \<open>The two groups of \<open>/^scrypt\\$([a-f0-9]{32})\\$([a-f0-9]{128})$/\<close> in a string with the prefix \<open>scrypt$\<close>.\<close>

definition parse_scrypt :: "string \<Rightarrow> (string \<times> string) option" where
  "parse_scrypt stored =
     (let rest = drop (length ''scrypt$'') stored; salt = take 32 rest; tail = drop 32 rest; hash = drop 1 tail in
      if length salt = 32 \<and> list_all is_lower_hex salt \<and> take 1 tail = ''$''
         \<and> length hash = 128 \<and> list_all is_lower_hex hash
      then Some (salt, hash) else None)"

definition verifyPassword :: "(string \<Rightarrow> string \<Rightarrow> byte list) \<Rightarrow> jsval \<Rightarrow> string \<Rightarrow> bool" where
  "verifyPassword scrypt password stored =
     (let given = to_str (js_or password (Str [])) in
      if starts_with stored ''scrypt$''
      then (case parse_scrypt stored of
              None \<Rightarrow> False
            | Some (salt, hash) \<Rightarrow> scrypt given salt = hex_bytes hash)
      else 0 < length given \<and> length given = length stored \<and> given = stored)"

definition passwordMatches :: "(string \<Rightarrow> string \<Rightarrow> byte list) \<Rightarrow> auth_config \<Rightarrow> string \<Rightarrow> jsval \<Rightarrow> bool" where
  "passwordMatches scrypt cfg adminPassword value =
     (if env_managed cfg then constantTimeStringEqual (to_str (js_or value (Str []))) adminPassword
      else verifyPassword scrypt value adminPassword)"

definition is_lower_letter :: "char \<Rightarrow> bool" where "is_lower_letter c = (97 \<le> code c \<and> code c \<le> 122)"
definition is_upper_letter :: "char \<Rightarrow> bool" where "is_upper_letter c = (65 \<le> code c \<and> code c \<le> 90)"

text \<open>\<open>None\<close> is the error with status 400.\<close>

definition validateAdminPassword :: "jsval \<Rightarrow> string option" where
  "validateAdminPassword value =
     (let password = to_str (js_or value (Str [])) in
      if \<not> (13 \<le> length password \<and> list_ex is_lower_letter password \<and> list_ex is_upper_letter password
             \<and> list_ex is_digit password
             \<and> list_ex (\<lambda>c. \<not> (is_lower_letter c \<or> is_upper_letter c \<or> is_digit c)) password) then None
      else if 256 < length password \<or> list_ex (\<lambda>c. code c \<in> {13, 10, 0}) password then None
      else Some password)"

text \<open>The password a console starts with, when the password file exists.\<close>

definition getOrCreateSecret :: "string \<Rightarrow> string" where
  "getOrCreateSecret content = js_trim content"

section \<open>State of the console\<close>

record console_env =
  v_crypto :: crypto
  v_mac :: mac_fun
  v_sign :: "string \<Rightarrow> string"
  v_scrypt :: "string \<Rightarrow> string \<Rightarrow> byte list"
  v_cfg :: auth_config
  v_limits :: login_options
  v_setup_ttl :: int

text \<open>The two limiters, the sessions, the second factor, the secrets shown to setup sessions, the password.\<close>

record console_state =
  cs_login :: attempts
  cs_proof :: attempts
  cs_auth :: auth_state
  cs_factor :: sf_world
  cs_pending :: "(string, byte list) omap"
  cs_password :: string
  cs_password_file :: string

text \<open>
  What one request gets from outside: the time in milliseconds, fresh random values, and the
  outcomes of the writes.
\<close>

record request_io =
  io_time :: int
  io_id :: string
  io_csrf :: string
  io_tokens :: "nat \<Rightarrow> byte list"
  io_secret :: "byte list"
  io_factor_write :: bool
  io_mark_write :: bool
  io_session_write :: bool
  io_password_write :: bool

datatype auth_answer =
    SignedIn session string
  | EnrollmentRequired session string
  | ResetupRequired session string
  | Refused nat string
  | TooMany int
  | FactorDown sf_error
  | Failed500
  | ShowSecret string
  | ShowCodes "string list"
  | Done nat

definition nowSeconds :: "request_io \<Rightarrow> int" where
  "nowSeconds io = io_time io div 1000"

definition issue_session ::
  "console_env \<Rightarrow> request_io \<Rightarrow> session_args \<Rightarrow> console_state \<Rightarrow> (session \<times> string) \<times> console_state" where
  "issue_session env io args st =
     (case makeSession (v_mac env) (v_sign env) (v_cfg env) args (io_id io) (io_csrf io) (io_time io)
             (io_session_write io) (cs_auth st) of
        (r, a) \<Rightarrow> (r, st\<lparr>cs_auth := a, cs_pending := om_delete (io_id io) (cs_pending st)\<rparr>))"

definition end_session :: "console_env \<Rightarrow> request_io \<Rightarrow> string \<Rightarrow> console_state \<Rightarrow> console_state" where
  "end_session env io i st =
     st\<lparr>cs_auth := snd (invalidateSession (v_mac env) (v_cfg env) i (io_time io) (io_session_write io) (cs_auth st)),
        cs_pending := om_delete i (cs_pending st)\<rparr>"

definition setup_args :: "console_env \<Rightarrow> string \<Rightarrow> session_args" where
  "setup_args env scope = default_session_args\<lparr>a_tier := Str ''enroll'', a_scope := Str scope,
     a_ttl := v_setup_ttl env, a_renewable := False\<rparr>"

definition login_failed :: "console_env \<Rightarrow> request_io \<Rightarrow> string \<Rightarrow> console_state \<Rightarrow> console_state" where
  "login_failed env io key st =
     st\<lparr>cs_login := snd (login_recordFailure (v_limits env) (cs_login st) key (io_time io) (io_time io))\<rparr>"

definition login_passed :: "string \<Rightarrow> console_state \<Rightarrow> console_state" where
  "login_passed key st = st\<lparr>cs_login := login_recordSuccess (cs_login st) key\<rparr>"

definition body_code :: "jsval \<Rightarrow> string \<Rightarrow> string" where
  "body_code body field = js_trim (to_str (js_or (getp body field) (Str [])))"

section \<open>The login route\<close>

text \<open>
  One login, from its headers to its answer, with nothing of another request between its awaits; \<open>LoginSteps\<close>
  has the same route as steps that other logins interleave with.
\<close>

definition login_recovery ::
  "console_env \<Rightarrow> request_io \<Rightarrow> string \<Rightarrow> string \<Rightarrow> console_state \<Rightarrow> auth_answer \<times> console_state" where
  "login_recovery env io key recovery_text st =
     (case consume_code (c_sha (v_crypto env)) (c_b64 (v_crypto env)) (Str recovery_text)
             (io_factor_write io) (io_mark_write io) (cs_factor st) of
        (Inl e, w) \<Rightarrow> (FactorDown e, login_failed env io key (st\<lparr>cs_factor := w\<rparr>))
      | (Inr (CodeOk n), w) \<Rightarrow>
          (case issue_session env io (setup_args env ''resetup'') (login_passed key (st\<lparr>cs_factor := w\<rparr>)) of
             ((s, cookie), st') \<Rightarrow> (ResetupRequired s cookie, st'))
      | (Inr v, w) \<Rightarrow> (Refused 401 ''recovery'', login_failed env io key (st\<lparr>cs_factor := w\<rparr>)))"

definition login_totp ::
  "console_env \<Rightarrow> request_io \<Rightarrow> string \<Rightarrow> string \<Rightarrow> console_state \<Rightarrow> auth_answer \<times> console_state" where
  "login_totp env io key totp_text st =
     (case verifyTotpToken (c_hmac (v_crypto env)) (c_b64 (v_crypto env)) (Str totp_text) (nowSeconds io)
             (io_factor_write io) (cs_factor st) of
        (Inl e, w) \<Rightarrow> (FactorDown e, login_failed env io key (st\<lparr>cs_factor := w\<rparr>))
      | (Inr TotpOk, w) \<Rightarrow>
          (case issue_session env io default_session_args (login_passed key (st\<lparr>cs_factor := w\<rparr>)) of
             ((s, cookie), st') \<Rightarrow> (SignedIn s cookie, st'))
      | (Inr v, w) \<Rightarrow> (Refused 401 ''totp'', login_failed env io key (st\<lparr>cs_factor := w\<rparr>)))"

definition login_second_factor ::
  "console_env \<Rightarrow> request_io \<Rightarrow> string \<Rightarrow> jsval \<Rightarrow> console_state \<Rightarrow> auth_answer \<times> console_state" where
  "login_second_factor env io key body st =
     (case isConfigured (c_b64 (v_crypto env)) (cs_factor st) of
        Inl e \<Rightarrow> (FactorDown e, login_failed env io key st)
      | Inr False \<Rightarrow>
          (case issue_session env io (setup_args env ''enroll'') (login_passed key st) of
             ((s, cookie), st') \<Rightarrow> (EnrollmentRequired s cookie, st'))
      | Inr True \<Rightarrow>
          (let totp_text = body_code body ''totpCode''; recovery_text = body_code body ''recoveryCode'' in
           if totp_text = [] \<and> recovery_text = [] then (Refused 401 ''totp_missing'', login_failed env io key st)
           else if recovery_text \<noteq> [] \<and> totp_text = [] then login_recovery env io key recovery_text st
           else login_totp env io key totp_text st))"

definition login_route ::
  "console_env \<Rightarrow> request_io \<Rightarrow> string \<Rightarrow> jsval \<Rightarrow> console_state \<Rightarrow> auth_answer \<times> console_state" where
  "login_route env io key body st =
     (case login_check (v_limits env) (cs_login st) key (io_time io) of
        (rate, m) \<Rightarrow>
          (let st0 = st\<lparr>cs_login := m\<rparr> in
           if \<not> allowed rate then (TooMany (retryAfterSeconds rate), st0)
           else if \<not> auth_disabled (v_cfg env)
                   \<and> \<not> passwordMatches (v_scrypt env) (v_cfg env) (cs_password st) (getp body ''password'')
           then (Refused 401 ''password'', login_failed env io key st0)
           else if auth_disabled (v_cfg env) \<or> \<not> totp_enabled (v_cfg env)
           then (case issue_session env io default_session_args (login_passed key st0) of
                   ((s, cookie), st') \<Rightarrow> (SignedIn s cookie, st'))
           else login_second_factor env io key body st0))"

section \<open>Setup sessions\<close>

definition SETUP_SCOPES :: "string list" where "SETUP_SCOPES = [''enroll'', ''resetup'']"

definition ENROLL_ALLOWED :: "string list" where
  "ENROLL_ALLOWED = [''/api/auth/2fa/setup'', ''/api/auth/2fa/confirm'', ''/api/auth/logout'', ''/api/auth/me'']"

definition has_setup_scope :: "session \<Rightarrow> bool" where
  "has_setup_scope s = (\<exists>scope \<in> set SETUP_SCOPES. s_scope s = Str scope)"

definition read_session ::
  "console_env \<Rightarrow> request_io \<Rightarrow> string \<Rightarrow> console_state \<Rightarrow> (session option \<times> console_state) option" where
  "read_session env io header st =
     (case readSession (v_mac env) (v_sign env) (v_cfg env) header (io_time io) (io_session_write io) (cs_auth st) of
        None \<Rightarrow> None | Some (s, a) \<Rightarrow> Some (s, st\<lparr>cs_auth := a\<rparr>))"

text \<open>The guard above every authenticated route: \<open>Inl\<close> is its answer, \<open>Inr\<close> lets the request on.\<close>

definition setup_guard ::
  "console_env \<Rightarrow> request_io \<Rightarrow> string \<Rightarrow> string \<Rightarrow> console_state \<Rightarrow> (auth_answer + unit) \<times> console_state" where
  "setup_guard env io header path st =
     (if \<not> totp_enabled (v_cfg env) then (Inr (), st)
      else case read_session env io header st of
        None \<Rightarrow> (Inl Failed500, st)
      | Some (enrollSession, st') \<Rightarrow>
          (case enrollSession of
             None \<Rightarrow> (Inr (), st')
           | Some s \<Rightarrow>
               (if has_setup_scope s \<and> path \<notin> set ENROLL_ALLOWED then (Inl (Refused 403 ''setup''), st')
                else (Inr (), st'))))"

definition requireEnrollmentSession ::
  "console_env \<Rightarrow> request_io \<Rightarrow> string \<Rightarrow> string option \<Rightarrow> console_state
   \<Rightarrow> (auth_answer + session) \<times> console_state" where
  "requireEnrollmentSession env io header csrf st =
     (case read_session env io header st of
        None \<Rightarrow> (Inl Failed500, st)
      | Some (None, st') \<Rightarrow> (Inl (Refused 403 ''scope''), st')
      | Some (Some s, st') \<Rightarrow>
          (if \<not> has_setup_scope s then (Inl (Refused 403 ''scope''), st')
           else if \<not> auth_disabled (v_cfg env) \<and> csrf \<noteq> Some (s_csrf s) then (Inl (Refused 403 ''csrf''), st')
           else (Inr s, st')))"

definition setup_route ::
  "console_env \<Rightarrow> request_io \<Rightarrow> string \<Rightarrow> string option \<Rightarrow> console_state \<Rightarrow> auth_answer \<times> console_state" where
  "setup_route env io header csrf st =
     (case requireEnrollmentSession env io header csrf st of
        (Inl a, st') \<Rightarrow> (a, st')
      | (Inr s, st') \<Rightarrow>
          (ShowSecret (base32Encode (io_secret io)),
           st'\<lparr>cs_pending := om_set (s_id s) (io_secret io) (cs_pending st')\<rparr>))"

definition confirm_with ::
  "console_env \<Rightarrow> request_io \<Rightarrow> session \<Rightarrow> byte list \<Rightarrow> int \<Rightarrow> console_state \<Rightarrow> auth_answer \<times> console_state" where
  "confirm_with env io s secret counter st =
     (case (if s_scope s = Str ''resetup'' then commit else enroll) (c_sha (v_crypto env)) (c_b64 (v_crypto env)) secret 0
             (io_tokens io) counter (io_factor_write io) (io_mark_write io) (cs_factor st) of
        (Inl e, w) \<Rightarrow> (Failed500, st\<lparr>cs_factor := w\<rparr>)
      | (Inr (Codes codes healed), w) \<Rightarrow> (ShowCodes codes, end_session env io (s_id s) (st\<lparr>cs_factor := w\<rparr>))
      | (Inr v, w) \<Rightarrow> (Refused 409 ''already_configured'', end_session env io (s_id s) (st\<lparr>cs_factor := w\<rparr>)))"

definition confirm_route ::
  "console_env \<Rightarrow> request_io \<Rightarrow> string \<Rightarrow> string option \<Rightarrow> jsval \<Rightarrow> console_state \<Rightarrow> auth_answer \<times> console_state" where
  "confirm_route env io header csrf body st =
     (case requireEnrollmentSession env io header csrf st of
        (Inl a, st') \<Rightarrow> (a, st')
      | (Inr s, st') \<Rightarrow>
          (case om_get (cs_pending st') (s_id s) of
             None \<Rightarrow> (Refused 400 ''setup_first'', st')
           | Some secret \<Rightarrow>
               (case verifyTotpMatch (c_hmac (v_crypto env)) secret (Str (body_code body ''code'')) (nowSeconds io) of
                  None \<Rightarrow> (Refused 401 ''invalid_code'', st')
                | Some counter \<Rightarrow> confirm_with env io s secret counter st')))"

section \<open>Fresh proof of the credential\<close>

definition proof_failed :: "console_env \<Rightarrow> request_io \<Rightarrow> string \<Rightarrow> console_state \<Rightarrow> console_state" where
  "proof_failed env io key st =
     st\<lparr>cs_proof := snd (login_recordFailure (v_limits env) (cs_proof st) key (io_time io) (io_time io))\<rparr>"

definition proof_passed :: "string \<Rightarrow> console_state \<Rightarrow> console_state" where
  "proof_passed key st = st\<lparr>cs_proof := login_recordSuccess (cs_proof st) key\<rparr>"

definition proof_totp ::
  "console_env \<Rightarrow> request_io \<Rightarrow> string \<Rightarrow> jsval \<Rightarrow> console_state \<Rightarrow> (auth_answer + unit) \<times> console_state" where
  "proof_totp env io key body st =
     (let totp_text = js_trim (to_str (js_nullish (getp body ''totpCode'') (Str []))) in
      if totp_text = [] then (Inl (Refused 400 ''totp_missing''), proof_failed env io key st)
      else case verifyTotpToken (c_hmac (v_crypto env)) (c_b64 (v_crypto env)) (Str totp_text) (nowSeconds io)
             (io_factor_write io) (cs_factor st) of
        (Inl e, w) \<Rightarrow> (Inl (FactorDown e), proof_failed env io key (st\<lparr>cs_factor := w\<rparr>))
      | (Inr TotpOk, w) \<Rightarrow> (Inr (), proof_passed key (st\<lparr>cs_factor := w\<rparr>))
      | (Inr v, w) \<Rightarrow> (Inl (Refused 400 ''totp''), proof_failed env io key (st\<lparr>cs_factor := w\<rparr>)))"

definition requireFreshTier3Proof ::
  "console_env \<Rightarrow> request_io \<Rightarrow> string \<Rightarrow> jsval \<Rightarrow> bool \<Rightarrow> console_state \<Rightarrow> (auth_answer + unit) \<times> console_state" where
  "requireFreshTier3Proof env io key body requireEnrolled st =
     (case login_check (v_limits env) (cs_proof st) key (io_time io) of
        (rate, m) \<Rightarrow>
          (let st0 = st\<lparr>cs_proof := m\<rparr> in
           if \<not> allowed rate then (Inl (TooMany (retryAfterSeconds rate)), st0)
           else if \<not> passwordMatches (v_scrypt env) (v_cfg env) (cs_password st) (getp body ''currentPassword'')
           then (Inl (Refused 400 ''bad_password''), proof_failed env io key st0)
           else if \<not> totp_enabled (v_cfg env) then (Inr (), proof_passed key st0)
           else case isConfigured (c_b64 (v_crypto env)) (cs_factor st0) of
               Inl e \<Rightarrow> (Inl (FactorDown e), proof_failed env io key st0)
             | Inr False \<Rightarrow>
                 (if \<not> requireEnrolled then (Inr (), proof_passed key st0)
                  else (Inl (Refused 400 ''not_configured''), proof_passed key st0))
             | Inr True \<Rightarrow> proof_totp env io key body st0))"

text \<open>A request body that is an object with at least one property.\<close>

definition nonempty_object :: "jsval \<Rightarrow> bool" where
  "nonempty_object body = (case body of Obj ps \<Rightarrow> ps \<noteq> [] | _ \<Rightarrow> False)"

text \<open>The limiter key, the acting session's id, the body.\<close>

definition newline :: string where "newline = [char_of (10 :: nat)]"

definition adminPasswordRoute ::
  "console_env \<Rightarrow> request_io \<Rightarrow> string \<Rightarrow> string \<Rightarrow> jsval \<Rightarrow> console_state \<Rightarrow> auth_answer \<times> console_state" where
  "adminPasswordRoute env io key actor body st =
     (if \<not> nonempty_object body then (Refused 400 ''malformed_body'', st)
      else if auth_disabled (v_cfg env) then (Refused 400 ''auth_disabled'', st)
      else if env_managed (v_cfg env) then (Refused 400 ''env_managed'', st)
      else case requireFreshTier3Proof env io key body False st of
        (Inl a, st') \<Rightarrow> (a, st')
      | (Inr u, st') \<Rightarrow>
          (case validateAdminPassword (getp body ''newPassword'') of
             None \<Rightarrow> (Refused 400 ''bad_new_password'', st')
           | Some password \<Rightarrow>
               (if \<not> io_password_write io then (Failed500, st')
                else case invalidatePasswordSessions (v_mac env) (v_cfg env) actor (io_time io) (io_session_write io)
                             (cs_auth st') of
                   (sessionsRevoked, a) \<Rightarrow>
                     (Done sessionsRevoked, st'\<lparr>cs_password := password, cs_password_file := password @ newline, cs_auth := a\<rparr>))))"

definition require_auth ::
  "console_env \<Rightarrow> request_io \<Rightarrow> string \<Rightarrow> string \<Rightarrow> string option \<Rightarrow> console_state
   \<Rightarrow> (auth_answer + session) \<times> console_state" where
  "require_auth env io header verb csrf st =
     (case requireAuth (v_mac env) (v_sign env) (v_cfg env) header verb csrf (io_time io) (io_session_write io) (cs_auth st) of
        None \<Rightarrow> (Inl Failed500, st)
      | Some (Inl status, a) \<Rightarrow> (Inl (Refused status ''session''), st\<lparr>cs_auth := a\<rparr>)
      | Some (Inr s, a) \<Rightarrow> (Inr s, st\<lparr>cs_auth := a\<rparr>))"

definition recoveryCodesRegenerateRoute ::
  "console_env \<Rightarrow> request_io \<Rightarrow> string \<Rightarrow> string \<Rightarrow> string option \<Rightarrow> jsval \<Rightarrow> console_state
   \<Rightarrow> auth_answer \<times> console_state" where
  "recoveryCodesRegenerateRoute env io key header csrf body st =
     (case require_auth env io header ''POST'' csrf st of
        (Inl a, st') \<Rightarrow> (a, st')
      | (Inr s, st') \<Rightarrow>
          (if auth_disabled (v_cfg env) then (Refused 400 ''auth_disabled'', st')
           else if \<not> totp_enabled (v_cfg env) then (Refused 400 ''totp_disabled'', st')
           else if \<not> nonempty_object body then (Refused 400 ''malformed_body'', st')
           else case requireFreshTier3Proof env io key body True st' of
             (Inl a, st2) \<Rightarrow> (a, st2)
           | (Inr u, st2) \<Rightarrow>
               (case regenerateRecoveryCodes (c_sha (v_crypto env)) (c_b64 (v_crypto env)) 0 (io_tokens io)
                       (io_factor_write io) (io_mark_write io) (cs_factor st2) of
                  (Inl e, w) \<Rightarrow>
                    (if e = SfCorrupt \<or> e = SfVersion then FactorDown e else Failed500, st2\<lparr>cs_factor := w\<rparr>)
                | (Inr (Codes codes healed), w) \<Rightarrow> (ShowCodes codes, st2\<lparr>cs_factor := w\<rparr>)
                | (Inr v, w) \<Rightarrow> (Refused 409 ''not_configured'', st2\<lparr>cs_factor := w\<rparr>))))"

definition logout_route ::
  "console_env \<Rightarrow> request_io \<Rightarrow> string \<Rightarrow> string option \<Rightarrow> console_state \<Rightarrow> auth_answer \<times> console_state" where
  "logout_route env io header csrf st =
     (case require_auth env io header ''POST'' csrf st of
        (Inl a, st') \<Rightarrow> (a, st')
      | (Inr s, st') \<Rightarrow> (Done 0, end_session env io (s_id s) st'))"

section \<open>What a sign-in grants\<close>

text \<open>The session as the policy engine sees it.\<close>

definition session_object :: "session \<Rightarrow> jsval" where
  "session_object s = Obj [(''id'', Str (s_id s)), (''csrf'', Str (s_csrf s)),
     (''expiresAt'', Number (Num (s_expires s))), (''tier'', s_tier s), (''userId'', s_user s),
     (''username'', s_name s), (''guildId'', s_guild s), (''scope'', s_scope s), (''renewable'', Bool (s_renewable s))]"

lemma no_empty_code: "verifyTotpMatch hmac secret (Str []) t = None"
  by (simp add: verifyTotpMatch_def Let_def TOTP_DIGITS_def)

lemma issue_session_fields:
  assumes "issue_session env io args st = ((s, cookie), st')"
  shows "s_id s = io_id io" "s_tier s = a_tier args" "s_scope s = a_scope args" "s_renewable s = a_renewable args"
    "s_expires s = of_int (io_time io + a_ttl args)" "cs_factor st' = cs_factor st" "cs_login st' = cs_login st"
    "cs_password st' = cs_password st"
  using assms by (auto simp: issue_session_def makeSession_def Let_def split: prod.splits)

lemma totp_signed_in:
  "(\<exists>s cookie. fst (login_totp env io key totp_text st) = SignedIn s cookie) \<longleftrightarrow>
     (\<exists>w. verifyTotpToken (c_hmac (v_crypto env)) (c_b64 (v_crypto env)) (Str totp_text) (nowSeconds io)
             (io_factor_write io) (cs_factor st) = (Inr TotpOk, w))"
  by (auto simp: login_totp_def split: prod.splits sum.splits totp_verdict.splits)

lemma recovery_not_signed_in: "fst (login_recovery env io key r st) \<noteq> SignedIn s cookie"
  by (auto simp: login_recovery_def split: prod.splits sum.splits code_verdict.splits)

lemma verify_ok_iff:
  "(\<exists>w'. verifyTotpToken hmac b token t wd w = (Inr TotpOk, w')) \<longleftrightarrow>
     wd \<and> (\<exists>st n. loadRaw b (main_file w) = Inr (Some st)
       \<and> verifyTotpMatch hmac (snd b (sf_secret st)) token t = Some n \<and> sf_last st < n)"
  by (auto simp: verifyTotpToken_def persist_state_def split: sum.splits option.splits)

lemma configured_iff: "isConfigured b w = Inr c \<longleftrightarrow> (\<exists>o'. loadRaw b (main_file w) = Inr o' \<and> c = (o' \<noteq> None))"
  by (auto simp: isConfigured_def split: sum.splits)

lemma second_factor_signed_in:
  "(\<exists>s cookie. fst (login_second_factor env io key body st) = SignedIn s cookie) \<longleftrightarrow>
     io_factor_write io \<and> (\<exists>fs n. loadRaw (c_b64 (v_crypto env)) (main_file (cs_factor st)) = Inr (Some fs)
       \<and> verifyTotpMatch (c_hmac (v_crypto env)) (snd (c_b64 (v_crypto env)) (sf_secret fs))
            (Str (body_code body ''totpCode'')) (nowSeconds io) = Some n \<and> sf_last fs < n)"
proof (cases "isConfigured (c_b64 (v_crypto env)) (cs_factor st)")
  case (Inl e)
  then show ?thesis by (auto simp: login_second_factor_def isConfigured_def split: sum.splits)
next
  case (Inr c)
  show ?thesis
  proof (cases c)
    case False
    then have "loadRaw (c_b64 (v_crypto env)) (main_file (cs_factor st)) = Inr None" using Inr by (simp add: configured_iff)
    then show ?thesis by (auto simp: login_second_factor_def isConfigured_def split: prod.splits)
  next
    case True
    consider "body_code body ''totpCode'' = []" | "body_code body ''totpCode'' \<noteq> []" by blast
    then show ?thesis
    proof cases
      case 1
      then show ?thesis using Inr True
        by (auto simp: login_second_factor_def Let_def recovery_not_signed_in no_empty_code)
    next
      case 2
      then have "fst (login_second_factor env io key body st) = fst (login_totp env io key (body_code body ''totpCode'') st)"
        using Inr True by (simp add: login_second_factor_def Let_def)
      then show ?thesis using totp_signed_in verify_ok_iff by simp
    qed
  qed
qed

text \<open>
  C4. With the second factor switched on, a login request gets a full session exactly when it passes
  the limiter, carries the password, and its authenticator code matches a time step of the enrolled
  secret that was not used before (and the new step could be written). A recovery code, a missing or an
  unreadable factor never gets one.
\<close>

theorem full_session_needs_both_factors:
  assumes "\<not> auth_disabled (v_cfg env)" and "totp_enabled (v_cfg env)"
  shows "(\<exists>s cookie. fst (login_route env io key body st) = SignedIn s cookie) \<longleftrightarrow>
     allowed (fst (login_check (v_limits env) (cs_login st) key (io_time io)))
     \<and> passwordMatches (v_scrypt env) (v_cfg env) (cs_password st) (getp body ''password'')
     \<and> io_factor_write io \<and> (\<exists>fs n. loadRaw (c_b64 (v_crypto env)) (main_file (cs_factor st)) = Inr (Some fs)
       \<and> verifyTotpMatch (c_hmac (v_crypto env)) (snd (c_b64 (v_crypto env)) (sf_secret fs))
            (Str (body_code body ''totpCode'')) (nowSeconds io) = Some n \<and> sf_last fs < n)"
  using assms second_factor_signed_in [of env io key body "st\<lparr>cs_login := snd (login_check (v_limits env) (cs_login st) key (io_time io))\<rparr>"]
  by (simp add: login_route_def Let_def split_beta)

definition no_session :: "auth_answer \<Rightarrow> bool" where
  "no_session a = (case a of SignedIn s c \<Rightarrow> False | EnrollmentRequired s c \<Rightarrow> False | ResetupRequired s c \<Rightarrow> False | _ \<Rightarrow> True)"

text \<open>
  Fail closed: while the second-factor file is unreadable, corrupt or from a newer console, a login
  request gets no session of any kind, not even one for enrolling, and changes nothing but the limiter.
\<close>

theorem broken_factor_fails_closed:
  assumes "\<not> auth_disabled (v_cfg env)" and "totp_enabled (v_cfg env)"
    and "loadRaw (c_b64 (v_crypto env)) (main_file (cs_factor st)) = Inl e"
    and "login_route env io key body st = (a, st')"
  shows "no_session a \<and> st'\<lparr>cs_login := cs_login st\<rparr> = st"
  using assms
  by (auto simp: login_route_def login_second_factor_def isConfigured_def Let_def no_session_def login_failed_def
      split: prod.splits if_splits)

definition env_example :: console_env where
  "env_example = \<lparr>v_crypto = crypto_example, v_mac = (\<lambda>p. ''m''), v_sign = (\<lambda>i. i), v_scrypt = (\<lambda>p salt. []),
     v_cfg = \<lparr>auth_disabled = False, env_managed = False, totp_enabled = True, has_store = False\<rparr>,
     v_limits = default_login_options, v_setup_ttl = 600000\<rparr>"

definition io_example :: "int \<Rightarrow> request_io" where
  "io_example t = \<lparr>io_time = t, io_id = ''i'', io_csrf = ''c'', io_tokens = (\<lambda>n. token_example), io_secret = secret_example,
     io_factor_write = True, io_mark_write = True, io_session_write = True, io_password_write = True\<rparr>"

definition state_at :: "sf_world \<Rightarrow> console_state" where
  "state_at w = \<lparr>cs_login = [], cs_proof = [], cs_auth = \<lparr>sessions = [], last_persist = 0, session_file = None\<rparr>,
     cs_factor = w, cs_pending = [], cs_password = ''pw'', cs_password_file = ''pw''\<rparr>"

lemma env_example_sel [simp]:
  "v_crypto env_example = crypto_example" "v_sign env_example = (\<lambda>i. i)"
  "v_limits env_example = default_login_options" "v_setup_ttl env_example = 600000"
  "auth_disabled (v_cfg env_example) = False" "totp_enabled (v_cfg env_example) = True"
  "env_managed (v_cfg env_example) = False" "has_store (v_cfg env_example) = False"
  by (simp_all add: env_example_def)

lemma io_example_sel [simp]:
  "io_time (io_example t) = t" "io_id (io_example t) = ''i''" "io_csrf (io_example t) = ''c''"
  "io_factor_write (io_example t)" "io_mark_write (io_example t)" "nowSeconds (io_example t) = t div 1000"
  by (simp_all add: io_example_def nowSeconds_def)

lemma state_at_sel [simp]:
  "cs_login (state_at w) = []" "cs_factor (state_at w) = w" "cs_password (state_at w) = ''pw''"
  "sessions (cs_auth (state_at w)) = []"
  by (simp_all add: state_at_def)

definition body_example :: jsval where
  "body_example = Obj [(''password'', Str ''pw''), (''totpCode'', Str ''000000'')]"

lemma body_example_code: "body_code body_example ''totpCode'' = ''000000''"
  by (simp add: body_code_def body_example_def js_or_def js_trim_def trim_left_def zero_char)

lemma example_password: "passwordMatches (v_scrypt env_example) (v_cfg env_example) ''pw'' (Str ''pw'')"
  by (simp add: passwordMatches_def verifyPassword_def Let_def starts_with_def js_or_def)

lemma example_allowed: "allowed (fst (login_check default_login_options [] key t))"
  by (simp add: login_check_def login_activeAttempt_def login_blocked_def om_get_def Let_def)

theorem full_session_needs_both_factors_witness:
  "\<exists>s cookie. fst (login_route env_example (io_example 0) ''a'' body_example (state_at (world_at [] 0 0))) = SignedIn s cookie"
  by (subst full_session_needs_both_factors)
    (simp_all add: example_allowed example_password body_example_code example_match enrolled_state_def,
      simp add: body_example_def example_password [simplified])

definition unreadable_world :: sf_world where
  "unreadable_world = \<lparr>main_file = SfUnreadable, mark_file = None\<rparr>"

theorem broken_factor_fails_closed_witness:
  "no_session (fst (login_route env_example (io_example 0) ''a'' body_example (state_at unreadable_world)))
   \<and> (snd (login_route env_example (io_example 0) ''a'' body_example (state_at unreadable_world)))
        \<lparr>cs_login := cs_login (state_at unreadable_world)\<rparr> = state_at unreadable_world"
  by (rule broken_factor_fails_closed [of env_example _ SfCorrupt])
    (simp_all add: unreadable_world_def loadRaw_def)

section \<open>Setup sessions are contained\<close>

lemma enroll_denied: "s_tier s = Str ''enroll'' \<Longrightarrow> action \<noteq> [] \<Longrightarrow> \<not> evaluate (session_object s) action store"
  by (simp add: evaluate_def resolveSessionTier_def session_object_def normalizeTier_def VALID_TIERS_def Let_def)

lemma require_auth_missing:
  assumes "\<not> auth_disabled (v_cfg env)" and "cookie_id (v_sign env) header = Some (Some i)"
    and "om_get (sessions (cs_auth st)) i = None"
  shows "fst (require_auth env io header verb csrf st) = Inl (Refused 401 ''session'')"
  using assms by (simp add: require_auth_def requireAuth_def readSession_def)

lemma guard_deletes:
  assumes "\<not> auth_disabled (v_cfg env)" and "cookie_id (v_sign env) header = Some (Some i)"
    and "om_inv (sessions (cs_auth st))" and "om_get (sessions (cs_auth st)) i = Some s" and "\<not> is_live (io_time io) s"
    and "read_session env io header st = Some (r, st')"
  shows "om_get (sessions (cs_auth st')) i = None"
proof -
  let ?a = "(cs_auth st)\<lparr>sessions := om_delete i (sessions (cs_auth st))\<rparr>"
  have "cs_auth st' = persistSessions (v_mac env) (v_cfg env) True (io_time io) (io_session_write io) ?a"
    using assms by (auto simp: read_session_def readSession_def)
  moreover have "om_get (sessions ?a) i = None" using assms(3) by (simp add: om_get_delete)
  moreover have "om_inv (sessions ?a)" using assms(3) by (simp add: om_inv_delete)
  ultimately show ?thesis using persist_get [of ?a "v_mac env" "v_cfg env" True "io_time io" "io_session_write io" i]
    by (cases "om_get (sessions (cs_auth st')) i") auto
qed

text \<open>
  C17. What a recovery code, or a password before enrolment, buys: a session that is not renewed, ends
  after the setup time, is denied every action under every policy, and whose cookie authenticates no
  route outside the four setup routes, at any later time.
\<close>

theorem setup_session_contained:
  assumes "\<not> auth_disabled (v_cfg env)" and "totp_enabled (v_cfg env)"
    and "login_route env io key body st = (ResetupRequired s cookie, st') \<or> login_route env io key body st = (EnrollmentRequired s cookie, st')"
  shows "s_renewable s = False \<and> s_expires s = of_int (io_time io + v_setup_ttl env)
     \<and> (\<forall>action store. action \<noteq> [] \<longrightarrow> \<not> evaluate (session_object s) action store)
     \<and> (\<forall>st1 io1 header path st2 io2 verb csrf. om_inv (sessions (cs_auth st1)) \<longrightarrow> om_get (sessions (cs_auth st1)) (s_id s) = Some s
         \<longrightarrow> cookie_id (v_sign env) header = Some (Some (s_id s)) \<longrightarrow> path \<notin> set ENROLL_ALLOWED
         \<longrightarrow> setup_guard env io1 header path st1 = (Inr (), st2)
         \<longrightarrow> fst (require_auth env io2 header verb csrf st2) = Inl (Refused 401 ''session''))"
proof -
  obtain scope st0 where scope: "scope \<in> set SETUP_SCOPES" and made: "issue_session env io (setup_args env scope) st0 = ((s, cookie), st')"
    using assms(3)
    by (auto simp: login_route_def login_second_factor_def login_recovery_def login_totp_def Let_def SETUP_SCOPES_def
        split: prod.splits if_splits sum.splits code_verdict.splits totp_verdict.splits bool.splits)
  note f = issue_session_fields [OF made]
  have scoped: "has_setup_scope s" using f(3) scope by (auto simp: has_setup_scope_def setup_args_def)
  have guard: "fst (require_auth env io2 header verb csrf st2) = Inl (Refused 401 ''session'')"
    if h: "om_inv (sessions (cs_auth st1))" "om_get (sessions (cs_auth st1)) (s_id s) = Some s"
      "cookie_id (v_sign env) header = Some (Some (s_id s))" "path \<notin> set ENROLL_ALLOWED"
      and g: "setup_guard env io1 header path st1 = (Inr (), st2)" for st1 io1 header path st2 io2 verb csrf
  proof (cases "is_live (io_time io1) s")
    case True
    then have "\<exists>s1 a. read_session env io1 header st1 = Some (Some s1, a) \<and> s_scope s1 = s_scope s"
      using assms(1) h by (auto simp: read_session_def readSession_def Let_def)
    then show ?thesis using g assms(2) h(4) scoped by (auto simp: setup_guard_def has_setup_scope_def)
  next
    case False
    then obtain r where r: "read_session env io1 header st1 = Some (r, st2)"
      using g assms(2) by (auto simp: setup_guard_def split: option.splits prod.splits if_splits)
    show ?thesis
      using require_auth_missing [OF assms(1) h(3) guard_deletes [OF assms(1) h(3,1,2) False r]] .
  qed
  show ?thesis
    using f(2,4,5) guard enroll_denied by (auto simp: setup_args_def)
qed

definition enroll_session :: session where
  "enroll_session = fst (fst (issue_session env_example (io_example 0) (setup_args env_example ''enroll'')
     (login_passed ''a'' (state_at fresh_world))))"

lemma enroll_example_answer:
  "\<exists>cookie st'. login_route env_example (io_example 0) ''a'' body_example (state_at fresh_world)
     = (EnrollmentRequired enroll_session cookie, st')"
proof -
  have lim: "snd (login_check default_login_options [] key t) = []" for key t
    by (simp add: login_check_def login_activeAttempt_def login_blocked_def om_get_def Let_def)
  have st: "(state_at fresh_world)\<lparr>cs_login := []\<rparr> = state_at fresh_world" by (simp add: state_at_def)
  have pw: "passwordMatches (v_scrypt env_example) (v_cfg env_example) ''pw'' (getp body_example ''password'')"
    using example_password by (simp add: body_example_def)
  show ?thesis
    using pw example_allowed [of "''a''" 0]
    by (simp add: login_route_def login_second_factor_def split_beta lim st enroll_session_def)
      (simp add: isConfigured_def fresh_world_def loadRaw_def split_beta Let_def)
qed

theorem setup_session_contained_witness:
  "s_renewable enroll_session = False \<and> s_expires enroll_session = 600000
   \<and> \<not> evaluate (session_object enroll_session) ''players:read'' Null"
proof -
  obtain cookie st' where "login_route env_example (io_example 0) ''a'' body_example (state_at fresh_world)
     = (EnrollmentRequired enroll_session cookie, st')" using enroll_example_answer by blast
  then show ?thesis
    using setup_session_contained [of env_example "io_example 0" "''a''" body_example "state_at fresh_world"] by simp
qed

section \<open>Guessing\<close>

text \<open>An association list whose keys are distinct and all among a given set.\<close>

definition keys_in :: "string set \<Rightarrow> (string, 'v) omap \<Rightarrow> bool" where
  "keys_in K m = (om_inv m \<and> fst ` set m \<subseteq> K)"

lemma keys_in_delete: "keys_in K m \<Longrightarrow> keys_in K (om_delete k m)"
  using om_inv_delete [of m k] by (auto simp: keys_in_def om_delete_def)

lemma set_om_set: "fst ` set (om_set k v m) \<subseteq> insert k (fst ` set m)"
  by (induction k v m rule: om_set.induct) auto

lemma keys_in_set: "keys_in K m \<Longrightarrow> k \<in> K \<Longrightarrow> keys_in K (om_set k v m)"
  using set_om_set [of k v m] by (auto simp: keys_in_def om_inv_set)

lemma keys_in_active: "keys_in K m \<Longrightarrow> keys_in K (snd (login_activeAttempt opt m k t))"
  by (auto simp: login_activeAttempt_def keys_in_delete split: option.splits)

lemma keys_in_check: "keys_in K m \<Longrightarrow> keys_in K (snd (login_check opt m k t))"
  by (simp add: login_check_map keys_in_active)

text \<open>While the keys fit, a new key evicts nothing.\<close>

lemma no_eviction:
  assumes "keys_in K m" and "finite K" and "card K \<le> n" and "k \<in> K" and "\<not> om_has m k"
  shows "evictOldestIfFull m n p = m"
proof -
  have "fst ` set m \<subseteq> K - {k}" using assms(1,5) by (auto simp: keys_in_def om_has_get om_get_def map_of_eq_None_iff)
  then have "card (fst ` set m) \<le> card (K - {k})" using assms(2) by (intro card_mono) auto
  moreover have "card (fst ` set m) = length m"
    using assms(1) distinct_card [of "map fst m"] by (simp add: keys_in_def om_inv_def)
  moreover have "card (K - {k}) < card K" using assms(2,4) by (intro psubset_card_mono) auto
  ultimately show ?thesis using assms(3) by (simp add: evictOldestIfFull_def)
qed

lemma increment_fits:
  assumes "keys_in K m" and "finite K" and "card K \<le> trackedEntryLimit (l_maxTrackedKeys opt)" and "k \<in> K"
  shows "login_increment opt m k l t = om_set k
      (let n = login_next opt (live_attempt opt (om_get m k) t) t in
       if a_count n \<ge> l then n\<lparr>blockedUntil := t + blockMs opt\<rparr> else n) (snd (login_activeAttempt opt m k t))"
  using no_eviction [OF keys_in_active [OF assms(1)] assms(2,3,4)]
  by (simp add: login_increment_def Let_def split_beta login_active_fst)

lemma fail_fits:
  assumes "keys_in K m" and "finite K" and "card K \<le> trackedEntryLimit (l_maxTrackedKeys opt)"
    and "k \<in> K" and "login_globalKey \<in> K" and "k \<noteq> login_globalKey"
    and "n = (let n = login_next opt (live_attempt opt (om_get m k) t) t in
       if a_count n \<ge> maxAttempts opt then n\<lparr>blockedUntil := t + blockMs opt\<rparr> else n)"
    and "live_attempt opt (Some n) t = Some n"
  shows "om_get (login_fail opt m k t) k = Some n \<and> keys_in K (login_fail opt m k t)"
proof -
  let ?m1 = "login_increment opt m k (maxAttempts opt) t"
  let ?m2 = "login_increment opt ?m1 login_globalKey (globalMaxAttempts opt) t"
  have m1: "?m1 = om_set k n (snd (login_activeAttempt opt m k t))"
    using increment_fits [OF assms(1-4), of "maxAttempts opt" t] assms(7) by simp
  have k1: "keys_in K ?m1" unfolding m1 using assms(1,4) by (intro keys_in_set keys_in_active)
  have m2: "om_get ?m2 k = om_get ?m1 k"
    using increment_fits [OF k1 assms(2,3,5), of "globalMaxAttempts opt" t] assms(6)
    by (simp add: om_get_set login_active_get)
  have "keys_in K ?m2"
    using increment_fits [OF k1 assms(2,3,5), of "globalMaxAttempts opt" t] k1 assms(5)
    by (simp add: keys_in_set keys_in_active)
  then show ?thesis
    using m2 m1 assms(6,8) by (simp add: login_fail_def login_recordFailure_def Let_def login_check_get keys_in_check om_get_set)
qed

fun login_answers :: "console_env \<Rightarrow> string \<Rightarrow> (request_io \<times> jsval) list \<Rightarrow> console_state \<Rightarrow> auth_answer list" where
  "login_answers env key [] st = []"
| "login_answers env key ((io, body) # reqs) st =
     fst (login_route env io key body st) # login_answers env key reqs (snd (login_route env io key body st))"

definition looked_at :: "auth_answer \<Rightarrow> bool" where
  "looked_at a = (case a of TooMany n \<Rightarrow> False | _ \<Rightarrow> True)"

lemma route_login_map:
  assumes "login_route env io key body st = (a, st')" and "no_session a"
  shows "cs_login st' = (let m = snd (login_check (v_limits env) (cs_login st) key (io_time io)) in
     if looked_at a then login_fail (v_limits env) m key (io_time io) else m)
   \<and> (looked_at a \<longrightarrow> allowed (fst (login_check (v_limits env) (cs_login st) key (io_time io))))"
  using assms
  by (auto simp: login_route_def login_second_factor_def login_recovery_def login_totp_def Let_def looked_at_def
      no_session_def login_failed_def login_fail_def
      split: prod.splits if_splits sum.splits code_verdict.splits totp_verdict.splits bool.splits auth_answer.splits)

text \<open>
  The bucket of a client after some of its attempts were looked at: their number, and a block once it
  reached the limit. The first one was looked at in the window that started at \<open>t0\<close>.
\<close>

definition bucket :: "login_options \<Rightarrow> int \<Rightarrow> nat \<Rightarrow> attempt option \<Rightarrow> bool" where
  "bucket opt t0 n a =
     (n \<le> nat (maxAttempts opt) \<and> (case a of None \<Rightarrow> n = 0
      | Some c \<Rightarrow> 0 < n \<and> a_count c = int n \<and> t0 \<le> firstAttemptAt c
          \<and> (int n < maxAttempts opt \<longrightarrow> blockedUntil c = 0)
          \<and> (int n = maxAttempts opt \<longrightarrow> t0 + blockMs opt \<le> blockedUntil c)))"

lemma bucket_step:
  assumes b: "bucket opt t0 n (om_get m key)" and t: "t0 \<le> t" "t < t0 + l_windowMs opt" "0 \<le> t0"
    and opt: "0 < maxAttempts opt" "l_windowMs opt \<le> blockMs opt"
    and K: "keys_in K m" "finite K" "card K \<le> trackedEntryLimit (l_maxTrackedKeys opt)"
      "key \<in> K" "login_globalKey \<in> K" "key \<noteq> login_globalKey"
    and m': "m' = snd (login_check opt m key t)"
  shows "om_get m' key = om_get m key \<and> keys_in K m'
    \<and> (allowed (fst (login_check opt m key t)) \<longrightarrow> n < nat (maxAttempts opt)
        \<and> bucket opt t0 (Suc n) (om_get (login_fail opt m' key t) key) \<and> keys_in K (login_fail opt m' key t))"
proof -
  have live: "live_attempt opt (om_get m key) t = om_get m key"
    using b t by (auto simp: bucket_def live_attempt_def split: option.splits)
  have get: "om_get m' key = om_get m key" by (simp add: m' login_check_get live)
  have k': "keys_in K m'" using keys_in_check [OF K(1)] m' by simp
  have "n < nat (maxAttempts opt) \<and> bucket opt t0 (Suc n) (om_get (login_fail opt m' key t) key) \<and> keys_in K (login_fail opt m' key t)"
    if a: "allowed (fst (login_check opt m key t))"
  proof -
    have less: "n < nat (maxAttempts opt)"
    proof (rule ccontr)
      assume "\<not> n < nat (maxAttempts opt)"
      then have n: "int n = maxAttempts opt" using b opt(1) by (auto simp: bucket_def)
      then obtain c where c: "om_get m key = Some c" "t0 + blockMs opt \<le> blockedUntil c"
        using b opt by (auto simp: bucket_def split: option.splits)
      then show False using login_check_blocked(1) [OF c(1), of t opt] t opt a by simp
    qed
    let ?n = "let n = login_next opt (live_attempt opt (om_get m' key) t) t in
       if a_count n \<ge> maxAttempts opt then n\<lparr>blockedUntil := t + blockMs opt\<rparr> else n"
    have nw: "bucket opt t0 (Suc n) (Some ?n) \<and> live_attempt opt (Some ?n) t = Some ?n"
      using b less t opt get live
      by (auto simp: bucket_def login_next_def Let_def live_attempt_def split: option.splits)
    from fail_fits [OF k' K(2-6) refl nw [THEN conjunct2]] show ?thesis using nw less by simp
  qed
  with get k' show ?thesis by blast
qed

lemma guesses:
  assumes "0 < maxAttempts (v_limits env)" "l_windowMs (v_limits env) \<le> blockMs (v_limits env)" "0 \<le> t0"
    and K: "finite K" "card K \<le> trackedEntryLimit (l_maxTrackedKeys (v_limits env))" "key \<in> K" "login_globalKey \<in> K"
      "key \<noteq> login_globalKey"
  shows "\<forall>(io, body) \<in> set reqs. t0 \<le> io_time io \<and> io_time io < t0 + l_windowMs (v_limits env) \<Longrightarrow>
    list_all no_session (login_answers env key reqs st) \<Longrightarrow> bucket (v_limits env) t0 n (om_get (cs_login st) key)
    \<Longrightarrow> keys_in K (cs_login st)
    \<Longrightarrow> n + length (filter looked_at (login_answers env key reqs st)) \<le> nat (maxAttempts (v_limits env))"
proof (induction reqs arbitrary: st n)
  case Nil
  then show ?case by (simp add: bucket_def)
next
  case (Cons r reqs)
  obtain io body where r: "r = (io, body)" by (cases r)
  obtain a st' where route: "login_route env io key body st = (a, st')" by fastforce
  have a: "no_session a" using Cons.prems(2) by (simp add: r route)
  let ?m = "snd (login_check (v_limits env) (cs_login st) key (io_time io))"
  have tm: "t0 \<le> io_time io" "io_time io < t0 + l_windowMs (v_limits env)" using Cons.prems(1) by (auto simp: r)
  note step = bucket_step [OF Cons.prems(3) tm assms(3,1,2) Cons.prems(4) K refl]
  note cs = route_login_map [OF route a]
  show ?case
  proof (cases "looked_at a")
    case True
    then have "bucket (v_limits env) t0 (Suc n) (om_get (cs_login st') key) \<and> keys_in K (cs_login st')"
      using cs step by (simp add: Let_def)
    from Cons.IH [of st' "Suc n"] this show ?thesis using Cons.prems(1,2) True by (simp add: r route)
  next
    case False
    then have "bucket (v_limits env) t0 n (om_get (cs_login st') key) \<and> keys_in K (cs_login st')"
      using cs step Cons.prems(3) by (simp add: Let_def)
    from Cons.IH [of st' n] this show ?thesis using Cons.prems(1,2) False by (simp add: r route)
  qed
qed

text \<open>
  One client that sends its logins one after the other, each answered before the next: in the fifteen minutes after
  its first attempt, at most eight of the attempts it makes without getting a session are looked at, whether they
  guess the password, an authenticator code or a recovery code; the others are answered 429. The console has no
  bucket for the client at the start and keeps the buckets of no more than 4998 others. \<open>LoginSteps\<close> shows that
  the bound is lost when the logins overlap.
\<close>

theorem login_guesses_bounded:
  assumes "v_limits env = default_login_options" and "0 \<le> t0"
    and "\<forall>(io, body) \<in> set reqs. t0 \<le> io_time io \<and> io_time io < t0 + 15 * 60 * 1000"
    and "list_all no_session (login_answers env key reqs st)"
    and "key \<noteq> login_globalKey" and "om_get (cs_login st) key = None" and "om_inv (cs_login st)"
    and "length (cs_login st) + 2 \<le> 5000"
  shows "length (filter looked_at (login_answers env key reqs st)) \<le> 8"
proof -
  let ?K = "{key, login_globalKey} \<union> fst ` set (cs_login st)"
  have "card ?K \<le> card {key, login_globalKey} + card (fst ` set (cs_login st))" by (rule card_Un_le)
  also have "\<dots> \<le> 2 + length (cs_login st)"
    using card_image_le [of "set (cs_login st)" fst] card_length [of "cs_login st"] by (simp add: card_insert_if)
  finally have card: "card ?K \<le> trackedEntryLimit (l_maxTrackedKeys (v_limits env))"
    using assms(1,8) by (simp add: default_login_options_def trackedEntryLimit_def)
  have "0 + length (filter looked_at (login_answers env key reqs st)) \<le> nat (maxAttempts (v_limits env))"
    by (rule guesses [OF _ _ assms(2) _ card])
      (use assms in \<open>auto simp: default_login_options_def bucket_def keys_in_def\<close>)
  then show ?thesis using assms(1) by (simp add: default_login_options_def)
qed

lemma no_password_answers:
  "cs_password st = ''pw'' \<Longrightarrow>
   list_all no_session (login_answers env_example key (replicate n (io, Null)) st)"
proof (induction n arbitrary: st)
  case (Suc n)
  have w: "\<not> passwordMatches (v_scrypt env_example) (v_cfg env_example) ''pw'' Undef"
    by (simp add: passwordMatches_def verifyPassword_def Let_def starts_with_def js_or_def)
  have "no_session (fst (login_route env_example io key Null st)) \<and> cs_password (snd (login_route env_example io key Null st)) = ''pw''"
    using w Suc.prems by (auto simp: login_route_def Let_def no_session_def login_failed_def split_beta)
  then show ?case using Suc.IH by simp
qed simp

theorem login_guesses_bounded_witness:
  "length (filter looked_at (login_answers env_example ''a'' (replicate 20 (io_example 5, Null)) (state_at fresh_world))) \<le> 8"
proof (rule login_guesses_bounded [of env_example 5])
  show "list_all no_session (login_answers env_example ''a'' (replicate 20 (io_example 5, Null)) (state_at fresh_world))"
    by (rule no_password_answers) simp
qed (simp_all add: login_globalKey_def om_get_def om_inv_def)

section \<open>Enrolling\<close>

lemma store_new_last:
  assumes "crypto_ok c" and "length secret = TOTP_SECRET_BYTES"
    and "store_new (c_sha c) (c_b64 c) secret count draw ctr epoch wd md w = (Inr (Codes codes h), w')"
  shows "last_at_least c (fst (c_b64 c) secret) ctr w'"
proof -
  obtain digests where w': "main_file w' = SfJson (state_json
      \<lparr>sf_secret = fst (c_b64 c) secret, sf_last = ctr, sf_codes = digests, sf_epoch = epoch\<rparr>)"
    using assms(3) by (auto simp: store_new_def makeState_def persistAndBumpWatermark_def persist_state_def
      split: sum.splits if_splits prod.splits)
  show ?thesis
    by (rule last_written [OF _ _ _ w'])
      (use assms(1,2) in \<open>simp_all add: secret_ok_def crypto_ok_def TOTP_SECRET_BYTES_def Let_def\<close>)
qed

lemma confirmed_last:
  assumes "crypto_ok (v_crypto env)" and "confirm_with env io s secret counter st = (ShowCodes codes, st')"
  shows "last_at_least (v_crypto env) (fst (c_b64 (v_crypto env)) secret) counter (cs_factor st')"
proof -
  obtain w h where w: "(if s_scope s = Str ''resetup'' then commit else enroll) (c_sha (v_crypto env)) (c_b64 (v_crypto env)) secret 0
             (io_tokens io) counter (io_factor_write io) (io_mark_write io) (cs_factor st) = (Inr (Codes codes h), w)"
    and st': "cs_factor st' = w"
    using assms(2) by (auto simp: confirm_with_def end_session_def split: prod.splits sum.splits sf_codes_result.splits)
  from w obtain epoch where "length secret = TOTP_SECRET_BYTES"
    "store_new (c_sha (v_crypto env)) (c_b64 (v_crypto env)) secret 0 (io_tokens io) counter epoch (io_factor_write io)
       (io_mark_write io) (cs_factor st) = (Inr (Codes codes h), w)"
    by (auto simp: commit_def enroll_def Let_def split: if_splits sum.splits option.splits)
  from store_new_last [OF assms(1) this] show ?thesis by (simp add: st')
qed

lemma enrollment_session_pending:
  assumes "confirm_route env io header csrf body st = (ShowCodes codes, st')"
  obtains s secret counter st1 where "requireEnrollmentSession env io header csrf st = (Inr s, st1)"
    "om_get (cs_pending st1) (s_id s) = Some secret"
    "verifyTotpMatch (c_hmac (v_crypto env)) secret (Str (body_code body ''code'')) (nowSeconds io) = Some counter"
    "confirm_with env io s secret counter st1 = (ShowCodes codes, st')"
proof -
  have scoped: "requireEnrollmentSession env io header csrf st \<noteq> (Inl (ShowCodes codes), st')"
    by (auto simp: requireEnrollmentSession_def split: option.splits prod.splits if_splits)
  obtain r st1 where r: "requireEnrollmentSession env io header csrf st = (r, st1)" by fastforce
  show thesis
  proof (cases r)
    case (Inl a)
    then show ?thesis using assms r scoped by (simp add: confirm_route_def)
  next
    case (Inr s)
    then show ?thesis using assms r that by (auto simp: confirm_route_def split: option.splits)
  qed
qed

text \<open>
  After two-factor setup the factor that was confirmed is in force: through whatever the console
  does with it until the next setup, a login gets a full session only with a code of a time step after
  the one that confirmed it. The code that confirmed the setup is not accepted as the first login.
\<close>

theorem confirmed_factor_in_force:
  assumes "crypto_ok (v_crypto env)" and "\<not> auth_disabled (v_cfg env)" and "totp_enabled (v_cfg env)"
    and "confirm_route env io header csrf body st = (ShowCodes codes, st1)"
    and "list_all routine ops" and "cs_factor st2 = fst (sf_run (v_crypto env) ops (cs_factor st1, hist))"
    and "login_route env io' key body' st2 = (SignedIn s cookie, st3)"
  shows "\<exists>secret n n'. verifyTotpMatch (c_hmac (v_crypto env)) secret (Str (body_code body ''code'')) (nowSeconds io) = Some n
    \<and> verifyTotpMatch (c_hmac (v_crypto env)) secret (Str (body_code body' ''totpCode'')) (nowSeconds io') = Some n' \<and> n < n'"
proof -
  obtain u secret counter stc where m: "verifyTotpMatch (c_hmac (v_crypto env)) secret (Str (body_code body ''code'')) (nowSeconds io) = Some counter"
      and c: "confirm_with env io u secret counter stc = (ShowCodes codes, st1)"
    using enrollment_session_pending [OF assms(4)] by metis
  have "last_at_least (v_crypto env) (fst (c_b64 (v_crypto env)) secret) counter (cs_factor st2)"
    using routine_run [OF assms(5), of "v_crypto env" _ counter "(cs_factor st1, hist)"] confirmed_last [OF assms(1) c] assms(6) by simp
  then obtain fs where fs: "loadRaw (c_b64 (v_crypto env)) (main_file (cs_factor st2)) = Inr (Some fs)"
      "sf_secret fs = fst (c_b64 (v_crypto env)) secret" "counter \<le> sf_last fs"
    by (auto simp: last_at_least_def)
  have decoded: "snd (c_b64 (v_crypto env)) (sf_secret fs) = secret" using assms(1) fs(2) by (simp add: crypto_ok_def)
  have "fst (login_route env io' key body' st2) = SignedIn s cookie" using assms(7) by simp
  moreover have "login_route env io' key body' st2
      = (SignedIn s cookie, st3) \<Longrightarrow> \<exists>n. verifyTotpMatch (c_hmac (v_crypto env)) secret (Str (body_code body' ''totpCode'')) (nowSeconds io') = Some n
        \<and> sf_last fs < n"
    using second_factor_signed_in [of env io' key body' "st2\<lparr>cs_login := snd (login_check (v_limits env) (cs_login st2) key (io_time io'))\<rparr>"]
      assms(2,3) fs(1) decoded
    by (auto simp: login_route_def Let_def split: prod.splits if_splits)
  ultimately show ?thesis using m fs(3) assms(7) by (meson le_less_trans)
qed

definition pending_session :: session where
  "pending_session = \<lparr>s_id = ''i'', s_csrf = ''c'', s_expires = 600000, s_tier = Str ''enroll'', s_user = Str [],
     s_name = Str [], s_guild = Str [], s_scope = Str ''enroll'', s_renewable = False\<rparr>"

definition state_pending :: console_state where
  "state_pending = (state_at fresh_world)\<lparr>cs_auth := \<lparr>sessions = [(''i'', pending_session)], last_persist = 0, session_file = None\<rparr>,
     cs_pending := [(''i'', secret_example)]\<rparr>"

definition confirm_body :: jsval where
  "confirm_body = Obj [(''code'', Str ''000000'')]"

definition confirmed_state :: console_state where
  "confirmed_state = snd (confirm_route env_example (io_example 0) ''asc_session=i.i'' (Some ''c'') confirm_body state_pending)"

lemma example_cookie: "cookie_id (\<lambda>i. i) ''asc_session=i.i'' = Some (Some ''i'')"
  by code_simp

lemma example_pending:
  "requireEnrollmentSession env_example (io_example 0) ''asc_session=i.i'' (Some ''c'') state_pending = (Inr pending_session, state_pending)"
  by (simp add: requireEnrollmentSession_def read_session_def readSession_def example_cookie state_pending_def
      pending_session_def om_get_def is_live_def has_setup_scope_def SETUP_SCOPES_def)

lemma confirm_body_code: "body_code confirm_body ''code'' = ''000000''"
  by (simp add: body_code_def confirm_body_def js_or_def js_trim_def trim_left_def zero_char)

definition enrolled_first :: sf_state where
  "enrolled_first = \<lparr>sf_secret = bytes_hex secret_example, sf_last = 1, sf_codes = replicate 10 digest_example, sf_epoch = 0\<rparr>"

lemma example_ten: "new_codes sha_example 0 (\<lambda>n. token_example) = Inr (replicate 10 code_example, replicate 10 digest_example)"
  by (simp add: new_codes_def generateRecoveryCodes_def Let_def RECOVERY_CODE_COUNT_def RECOVERY_TOKEN_BYTES_def
      code_example_def token_example_def hashRecoveryToken_def sha_example_def digest_example_def map_replicate_const list_all_iff)

lemma enroll_ten:
  "enroll sha_example (bytes_hex, hex_bytes) secret_example 0 (\<lambda>n. token_example) 1 True True fresh_world
     = (Inr (Codes (replicate 10 code_example) False), fresh_world\<lparr>main_file := SfJson (state_json enrolled_first)\<rparr>)"
  by (simp add: enroll_def secret_example_def TOTP_SECRET_BYTES_def fresh_world_def loadRaw_def store_new_def example_ten
      makeState_def NO_COUNTER_def persistAndBumpWatermark_def persist_state_def bumpWatermark_def loadWatermarkEpoch_def
      enrolled_first_def)

lemma example_confirmed:
  "confirm_route env_example (io_example 0) ''asc_session=i.i'' (Some ''c'') confirm_body state_pending
     = (ShowCodes (replicate 10 code_example), confirmed_state)"
  "cs_factor confirmed_state = fresh_world\<lparr>main_file := SfJson (state_json enrolled_first)\<rparr>"
  "cs_password confirmed_state = ''pw''" "cs_login confirmed_state = []"
proof -
  have p: "om_get (cs_pending state_pending) ''i'' = Some secret_example" "s_scope pending_session = Str ''enroll''"
      "s_id pending_session = ''i''" "cs_factor state_pending = fresh_world" "io_tokens (io_example 0) = (\<lambda>n. token_example)"
      "cs_password state_pending = ''pw''" "cs_login state_pending = []"
    by (simp_all add: state_pending_def pending_session_def om_get_def io_example_def)
  have "confirm_route env_example (io_example 0) ''asc_session=i.i'' (Some ''c'') confirm_body state_pending
      = (ShowCodes (replicate 10 code_example), end_session env_example (io_example 0) ''i''
          (state_pending\<lparr>cs_factor := fresh_world\<lparr>main_file := SfJson (state_json enrolled_first)\<rparr>\<rparr>))"
    by (simp add: confirm_route_def example_pending p confirm_body_code example_match confirm_with_def enroll_ten)
  then show "confirm_route env_example (io_example 0) ''asc_session=i.i'' (Some ''c'') confirm_body state_pending
     = (ShowCodes (replicate 10 code_example), confirmed_state)"
    and "cs_factor confirmed_state = fresh_world\<lparr>main_file := SfJson (state_json enrolled_first)\<rparr>"
    and "cs_password confirmed_state = ''pw''" and "cs_login confirmed_state = []"
    using p by (simp_all add: confirmed_state_def end_session_def)
qed

lemma example_login:
  "\<exists>s cookie. fst (login_route env_example (io_example 30000) ''a'' body_example confirmed_state) = SignedIn s cookie"
proof -
  let ?st = "confirmed_state\<lparr>cs_login := snd (login_check default_login_options [] ''a'' 30000)\<rparr>"
  have "loadRaw (bytes_hex, hex_bytes) (SfJson (state_json enrolled_first)) = Inr (Some enrolled_first)"
    by (rule load_state_json) (simp add: valid_state_def secret_ok_def enrolled_first_def secret_example_def Let_def)
  then have "\<exists>s cookie. fst (login_second_factor env_example (io_example 30000) ''a'' body_example ?st) = SignedIn s cookie"
    unfolding second_factor_signed_in
    by (simp add: example_confirmed body_example_code example_match) (simp add: enrolled_first_def)
  then show ?thesis
    using example_allowed [of "''a''" 30000] example_password
    by (simp add: login_route_def split_beta Let_def example_confirmed) (simp add: body_example_def)
qed

theorem confirmed_factor_in_force_witness:
  "\<exists>secret n n'. verifyTotpMatch (c_hmac (v_crypto env_example)) secret (Str (body_code confirm_body ''code'')) 0 = Some n
    \<and> verifyTotpMatch (c_hmac (v_crypto env_example)) secret (Str (body_code body_example ''totpCode'')) 30 = Some n' \<and> n < n'"
proof -
  obtain s cookie st3 where l: "login_route env_example (io_example 30000) ''a'' body_example confirmed_state = (SignedIn s cookie, st3)"
    using example_login by (metis prod.collapse)
  have c: "crypto_ok (v_crypto env_example)" using crypto_example_ok by simp
  have r: "cs_factor confirmed_state = fst (sf_run (v_crypto env_example) [] (cs_factor confirmed_state, []))" by simp
  from confirmed_factor_in_force [OF c _ _ example_confirmed(1) _ r l] show ?thesis by simp
qed

section \<open>Changing the password\<close>

lemma proof_password:
  assumes "requireFreshTier3Proof env io key body req st = (Inr (), st')"
  shows "cs_auth st' = cs_auth st \<and> cs_password st' = cs_password st \<and> cs_password_file st' = cs_password_file st
    \<and> passwordMatches (v_scrypt env) (v_cfg env) (cs_password st) (getp body ''currentPassword'')"
  using assms
  by (auto simp: requireFreshTier3Proof_def proof_totp_def proof_passed_def proof_failed_def Let_def
      split: prod.splits if_splits sum.splits bool.splits totp_verdict.splits)

lemma proof_not_done: "requireFreshTier3Proof env io key body req st \<noteq> (Inl (Done n), st')"
  by (auto simp: requireFreshTier3Proof_def proof_totp_def Let_def
      split: prod.splits if_splits sum.splits bool.splits totp_verdict.splits)

lemma trimmed_left: "js_trim p = p \<Longrightarrow> trim_left p = p"
proof -
  assume h: "js_trim p = p"
  have "length (js_trim p) \<le> length (trim_left p)"
    by (metis js_trim_def length_dropWhile_le length_rev trim_left_def)
  then have "length (trim_left p) = length p"
    using h length_dropWhile_le [of is_ws p] by (simp add: trim_left_def)
  then show ?thesis
    unfolding trim_left_def by (metis append_eq_append_conv append_self_conv2 takeWhile_dropWhile_id)
qed

lemma newline_ws: "is_ws (char_of (10 :: nat))"
  by code_simp

lemma trim_newline: "js_trim p = p \<Longrightarrow> p \<noteq> [] \<Longrightarrow> js_trim (p @ newline) = p"
proof -
  assume h: "js_trim p = p" and ne: "p \<noteq> []"
  note l = trimmed_left [OF h]
  then have hd: "\<not> is_ws (hd p)" using ne hd_dropWhile [of is_ws p] by (auto simp: trim_left_def)
  have front: "trim_left (p @ newline) = p @ newline"
    using hd ne by (cases p) (simp_all add: trim_left_def)
  have "trim_left (rev p) = rev p" using h l by (metis js_trim_def rev_rev_ident)
  then have "trim_left (rev (p @ newline)) = rev p"
    using newline_ws by (simp add: newline_def trim_left_def)
  then show ?thesis unfolding js_trim_def front by simp
qed

lemma verify_plain:
  "\<not> starts_with p ''scrypt$'' \<Longrightarrow> p \<noteq> [] \<Longrightarrow> verifyPassword scrypt (Str q) p \<longleftrightarrow> q = p"
  by (auto simp: verifyPassword_def js_or_def Let_def)

lemma validated_nonempty: "validateAdminPassword v = Some p \<Longrightarrow> p \<noteq> []"
  by (auto simp: validateAdminPassword_def Let_def split: if_splits)

text \<open>
  Changing the password: a change that is accepted was proved with the current password, ends every
  other password session, and from then on, and after a restart, exactly the new password signs in,
  provided it is not written with blanks at its ends and does not begin with \<open>scrypt$\<close>.
\<close>

theorem changed_password_works:
  assumes "adminPasswordRoute env io key actor body st = (Done n, st')"
    and "js_trim (cs_password st') = cs_password st'" and "\<not> starts_with (cs_password st') ''scrypt$''"
  shows "passwordMatches (v_scrypt env) (v_cfg env) (cs_password st) (getp body ''currentPassword'')
    \<and> validateAdminPassword (getp body ''newPassword'') = Some (cs_password st')
    \<and> (\<forall>q. passwordMatches (v_scrypt env) (v_cfg env) (cs_password st') (Str q) \<longleftrightarrow> q = cs_password st')
    \<and> (\<forall>q. passwordMatches (v_scrypt env) (v_cfg env) (getOrCreateSecret (cs_password_file st')) (Str q) \<longleftrightarrow> q = cs_password st')
    \<and> (\<forall>p \<in> set (sessions (cs_auth st')). fst p = actor \<or> truthy (s_user (snd p)))"
proof -
  obtain st1 p where pr: "requireFreshTier3Proof env io key body False st = (Inr (), st1)"
      and v: "validateAdminPassword (getp body ''newPassword'') = Some p" and env: "\<not> env_managed (v_cfg env)"
      and st': "st' = st1\<lparr>cs_password := p, cs_password_file := p @ newline, cs_auth := snd (invalidatePasswordSessions (v_mac env)
          (v_cfg env) actor (io_time io) (io_session_write io) (cs_auth st1))\<rparr>"
    using assms(1) by (auto simp: adminPasswordRoute_def proof_not_done split: if_splits prod.splits sum.splits option.splits)
  note cur = proof_password [OF pr]
  have ne: "p \<noteq> []" using validated_nonempty [OF v] .
  have t: "js_trim (p @ newline) = p" using trim_newline [OF _ ne] assms(2) st' by simp
  have plain: "passwordMatches (v_scrypt env) (v_cfg env) p (Str q) \<longleftrightarrow> q = p" for q
    using verify_plain [OF _ ne] assms(3) env st' by (simp add: passwordMatches_def)
  let ?spared = "\<lambda>p. fst p = actor \<or> truthy (s_user (snd p))"
  have "\<forall>p \<in> set (sessions (snd (invalidatePasswordSessions (v_mac env) (v_cfg env) actor (io_time io) (io_session_write io) (cs_auth st1)))). ?spared p"
    using persist_sessions [of "v_mac env" "v_cfg env" True "io_time io" "io_session_write io"
        "(cs_auth st1)\<lparr>sessions := filter ?spared (sessions (cs_auth st1))\<rparr>"]
    by (auto simp: invalidatePasswordSessions_def Let_def)
  then show ?thesis using cur v plain t st' by (simp add: getOrCreateSecret_def)
qed

definition signed_session :: session where
  "signed_session = pending_session\<lparr>s_tier := Str ''owner'', s_scope := Null, s_renewable := True\<rparr>"

definition env_single :: console_env where
  "env_single = env_example\<lparr>v_cfg := \<lparr>auth_disabled = False, env_managed = False, totp_enabled = False, has_store = False\<rparr>\<rparr>"

definition state_signed :: console_state where
  "state_signed = (state_at fresh_world)\<lparr>cs_auth := \<lparr>sessions = [(''i'', signed_session), (''j'', signed_session)],
     last_persist = 0, session_file = None\<rparr>\<rparr>"

definition change_body :: jsval where
  "change_body = Obj [(''currentPassword'', Str ''pw''), (''newPassword'', Str ''Abcdefghij12!'')]"

lemma validated_example: "validateAdminPassword (Str ''Abcdefghij12!'') = Some ''Abcdefghij12!''"
  by code_simp

lemma trimmed_example: "js_trim ''Abcdefghij12!'' = ''Abcdefghij12!'' \<and> \<not> starts_with ''Abcdefghij12!'' ''scrypt$''"
  by code_simp

lemma change_example:
  "adminPasswordRoute env_single (io_example 0) ''a'' ''i'' change_body state_signed
     = (Done 1, snd (adminPasswordRoute env_single (io_example 0) ''a'' ''i'' change_body state_signed))
   \<and> cs_password (snd (adminPasswordRoute env_single (io_example 0) ''a'' ''i'' change_body state_signed)) = ''Abcdefghij12!''"
proof -
  have env: "v_limits env_single = default_login_options" "\<not> auth_disabled (v_cfg env_single)" "\<not> env_managed (v_cfg env_single)"
      "\<not> totp_enabled (v_cfg env_single)"
    by (simp_all add: env_single_def)
  have body: "nonempty_object change_body" "getp change_body ''currentPassword'' = Str ''pw''"
      "getp change_body ''newPassword'' = Str ''Abcdefghij12!''"
    by (simp_all add: change_body_def nonempty_object_def)
  have pw: "passwordMatches (v_scrypt env_single) (v_cfg env_single) ''pw'' (Str ''pw'')"
    by (simp add: passwordMatches_def env verifyPassword_def Let_def starts_with_def js_or_def)
  have st: "cs_proof state_signed = []" "cs_password state_signed = ''pw''" "io_password_write (io_example 0)"
      "sessions (cs_auth state_signed) = [(''i'', signed_session), (''j'', signed_session)]"
    by (simp_all add: state_signed_def state_at_def io_example_def)
  have u: "\<not> truthy (s_user signed_session)" by (simp add: signed_session_def pending_session_def)
  show ?thesis
    using pw example_allowed [of "''a''" 0]
    by (simp add: adminPasswordRoute_def body env st requireFreshTier3Proof_def split_beta Let_def validated_example
        invalidatePasswordSessions_def proof_passed_def u)
qed

theorem changed_password_works_witness:
  "\<forall>q. passwordMatches (v_scrypt env_single) (v_cfg env_single)
      (getOrCreateSecret (cs_password_file (snd (adminPasswordRoute env_single (io_example 0) ''a'' ''i'' change_body state_signed)))) (Str q)
    \<longleftrightarrow> q = ''Abcdefghij12!''"
  using changed_password_works [OF change_example [THEN conjunct1]] change_example trimmed_example by simp

text \<open>
  C36. Some passwords that the change accepts lock the operator out at the next start: one that begins
  with \<open>scrypt$\<close> is read as a hash and matches nothing, one written with blanks at an end is trimmed
  when the file is read back, and the password that was set is refused.
\<close>

theorem accepted_password_locks_out:
  assumes "validateAdminPassword v = Some p" and "\<not> env_managed cfg"
    and "starts_with p ''scrypt$'' \<and> js_trim p = p \<and> parse_scrypt p = None
       \<or> js_trim p \<noteq> p \<and> \<not> starts_with (getOrCreateSecret (p @ newline)) ''scrypt$''"
  shows "\<not> passwordMatches scrypt cfg (getOrCreateSecret (p @ newline)) (Str p)"
  using assms(3)
proof
  assume h: "starts_with p ''scrypt$'' \<and> js_trim p = p \<and> parse_scrypt p = None"
  then have "getOrCreateSecret (p @ newline) = p"
    using trim_newline [OF _ validated_nonempty [OF assms(1)]] by (simp add: getOrCreateSecret_def)
  then show ?thesis using h assms(2) by (simp add: passwordMatches_def verifyPassword_def Let_def)
next
  assume h: "js_trim p \<noteq> p \<and> \<not> starts_with (getOrCreateSecret (p @ newline)) ''scrypt$''"
  then have "getOrCreateSecret (p @ newline) \<noteq> p" using js_trim_idem [of "p @ newline"] by (metis getOrCreateSecret_def)
  then show ?thesis using h assms(2) by (auto simp: passwordMatches_def verifyPassword_def js_or_def Let_def)
qed

theorem accepted_password_locks_out_witness:
  "\<not> passwordMatches (v_scrypt env_single) (v_cfg env_single) (getOrCreateSecret ('' Abcdefghij12!'' @ newline)) (Str '' Abcdefghij12!'')"
proof (rule accepted_password_locks_out)
  show "validateAdminPassword (Str '' Abcdefghij12!'') = Some '' Abcdefghij12!''" by code_simp
  have "js_trim '' Abcdefghij12!'' \<noteq> '' Abcdefghij12!''" by code_simp
  moreover have "\<not> starts_with (getOrCreateSecret ('' Abcdefghij12!'' @ newline)) ''scrypt$''" by code_simp
  ultimately show "starts_with '' Abcdefghij12!'' ''scrypt$'' \<and> js_trim '' Abcdefghij12!'' = '' Abcdefghij12!'' \<and> parse_scrypt '' Abcdefghij12!'' = None
       \<or> js_trim '' Abcdefghij12!'' \<noteq> '' Abcdefghij12!'' \<and> \<not> starts_with (getOrCreateSecret ('' Abcdefghij12!'' @ newline)) ''scrypt$''"
    by blast
qed (simp add: env_single_def)

end
