(* ===== verification/LoginSteps.thy ===== *)
theory LoginSteps
  imports Login
begin

text \<open>
  The login route of \<open>console/api/src/server.js\<close> between its awaits. \<open>Login\<close> describes one login that nothing
  interrupts; here each of its awaits (the body, the hash of the password, the state of the second factor, the check
  of the code) is a place where other logins go on. A run of one login alone is the route of \<open>Login\<close>.
\<close>

section \<open>Steps\<close>

text \<open>
  What a login waits for. The password is compared with the one in force when the comparison starts, so its result
  is known to the model before the login learns it.
\<close>

datatype login_wait =
    AwaitBody string
  | AwaitHash string jsval bool
  | AwaitConfigured string jsval
  | AwaitFactor string jsval

datatype login_note = LoginCompared nat bool | LoginAnswered nat auth_answer

record login_world =
  lw_state :: console_state
  lw_open :: "(nat, login_wait) omap"
  lw_log :: "login_note list"

definition login_wait_for :: "nat \<Rightarrow> login_wait \<Rightarrow> login_world \<Rightarrow> login_world" where
  "login_wait_for i a w = w\<lparr>lw_open := om_set i a (lw_open w)\<rparr>"

definition login_answer :: "nat \<Rightarrow> auth_answer \<times> console_state \<Rightarrow> login_world \<Rightarrow> login_world" where
  "login_answer i r w = w\<lparr>lw_state := snd r, lw_open := om_delete i (lw_open w), lw_log := lw_log w @ [LoginAnswered i (fst r)]\<rparr>"

definition login_begin :: "console_env \<Rightarrow> nat \<Rightarrow> string \<Rightarrow> int \<Rightarrow> login_world \<Rightarrow> login_world option" where
  "login_begin env i key tm w =
     (if om_get (lw_open w) i \<noteq> None then None
      else Some (case login_check (v_limits env) (cs_login (lw_state w)) key tm of
        (rate, m) \<Rightarrow> (let st = (lw_state w)\<lparr>cs_login := m\<rparr> in
          if \<not> allowed rate then login_answer i (TooMany (retryAfterSeconds rate), st) w
          else login_wait_for i (AwaitBody key) (w\<lparr>lw_state := st\<rparr>))))"

definition login_body :: "console_env \<Rightarrow> nat \<Rightarrow> jsval \<Rightarrow> login_world \<Rightarrow> login_world option" where
  "login_body env i body w = (case om_get (lw_open w) i of
     Some (AwaitBody key) \<Rightarrow>
       (let ok = (auth_disabled (v_cfg env)
              \<or> passwordMatches (v_scrypt env) (v_cfg env) (cs_password (lw_state w)) (getp body ''password''))
        in Some (login_wait_for i (AwaitHash key body ok) (w\<lparr>lw_log := lw_log w @ [LoginCompared i ok]\<rparr>)))
   | _ \<Rightarrow> None)"

definition login_hashed :: "console_env \<Rightarrow> nat \<Rightarrow> request_io \<Rightarrow> login_world \<Rightarrow> login_world option" where
  "login_hashed env i io w = (case om_get (lw_open w) i of
     Some (AwaitHash key body ok) \<Rightarrow> Some (let st = lw_state w in
       if \<not> ok then login_answer i (Refused 401 ''password'', login_failed env io key st) w
       else if auth_disabled (v_cfg env) \<or> \<not> totp_enabled (v_cfg env)
       then (case issue_session env io default_session_args (login_passed key st) of
               ((s, cookie), st') \<Rightarrow> login_answer i (SignedIn s cookie, st') w)
       else login_wait_for i (AwaitConfigured key body) w)
   | _ \<Rightarrow> None)"

definition login_configured :: "console_env \<Rightarrow> nat \<Rightarrow> request_io \<Rightarrow> login_world \<Rightarrow> login_world option" where
  "login_configured env i io w = (case om_get (lw_open w) i of
     Some (AwaitConfigured key body) \<Rightarrow> Some (let st = lw_state w in
       case isConfigured (c_b64 (v_crypto env)) (cs_factor st) of
         Inl e \<Rightarrow> login_answer i (FactorDown e, login_failed env io key st) w
       | Inr False \<Rightarrow>
           (case issue_session env io (setup_args env ''enroll'') (login_passed key st) of
              ((s, cookie), st') \<Rightarrow> login_answer i (EnrollmentRequired s cookie, st') w)
       | Inr True \<Rightarrow>
           if body_code body ''totpCode'' = [] \<and> body_code body ''recoveryCode'' = []
           then login_answer i (Refused 401 ''totp_missing'', login_failed env io key st) w
           else login_wait_for i (AwaitFactor key body) w)
   | _ \<Rightarrow> None)"

definition login_factor :: "console_env \<Rightarrow> nat \<Rightarrow> request_io \<Rightarrow> login_world \<Rightarrow> login_world option" where
  "login_factor env i io w = (case om_get (lw_open w) i of
     Some (AwaitFactor key body) \<Rightarrow> Some (login_answer i
       (if body_code body ''recoveryCode'' \<noteq> [] \<and> body_code body ''totpCode'' = []
        then login_recovery env io key (body_code body ''recoveryCode'') (lw_state w)
        else login_totp env io key (body_code body ''totpCode'') (lw_state w)) w)
   | _ \<Rightarrow> None)"

datatype login_event =
    LoginBegin nat string int
  | LoginBody nat jsval
  | LoginHashed nat request_io
  | LoginConfigured nat request_io
  | LoginFactor nat request_io

fun signin_step :: "console_env \<Rightarrow> login_event \<Rightarrow> login_world \<Rightarrow> login_world option" where
  "signin_step env (LoginBegin i key tm) w = login_begin env i key tm w"
| "signin_step env (LoginBody i body) w = login_body env i body w"
| "signin_step env (LoginHashed i io) w = login_hashed env i io w"
| "signin_step env (LoginConfigured i io) w = login_configured env i io w"
| "signin_step env (LoginFactor i io) w = login_factor env i io w"

fun signin_run :: "console_env \<Rightarrow> login_event list \<Rightarrow> login_world \<Rightarrow> login_world option" where
  "signin_run env [] w = Some w"
| "signin_run env (e # es) w = (case signin_step env e w of None \<Rightarrow> None | Some v \<Rightarrow> signin_run env es v)"

definition login_idle :: "console_state \<Rightarrow> login_world" where
  "login_idle st = \<lparr>lw_state = st, lw_open = [], lw_log = []\<rparr>"

lemma signin_run_append:
  "signin_run env (xs @ ys) w = (case signin_run env xs w of None \<Rightarrow> None | Some v \<Rightarrow> signin_run env ys v)"
  by (induction xs arbitrary: w) (auto split: option.splits)

section \<open>One login alone\<close>

text \<open>The steps a login can take, one after the other; a step it cannot take is left out.\<close>

fun login_alone :: "console_env \<Rightarrow> login_event list \<Rightarrow> login_world \<Rightarrow> login_world" where
  "login_alone env [] w = w"
| "login_alone env (e # es) w = login_alone env es (case signin_step env e w of None \<Rightarrow> w | Some v \<Rightarrow> v)"

lemmas login_stage_defs = login_begin_def login_body_def login_hashed_def login_configured_def login_factor_def
  login_wait_for_def login_answer_def login_idle_def


text \<open>
  A login that nothing interrupts is the login route of \<open>Login\<close>: the same answer, the same state. The steps
  after its answer are steps it cannot take.
\<close>

definition login_stages :: "nat \<Rightarrow> string \<Rightarrow> request_io \<Rightarrow> jsval \<Rightarrow> login_event list" where
  "login_stages i key io body =
     [LoginBegin i key (io_time io), LoginBody i body, LoginHashed i io, LoginConfigured i io, LoginFactor i io]"

lemma login_alone_is_route:
  "let w = login_alone env (login_stages i key io body) (login_idle st)
   in lw_state w = snd (login_route env io key body st) \<and> lw_open w = []
     \<and> LoginAnswered i (fst (login_route env io key body st)) \<in> set (lw_log w)"
proof -
  obtain rate m where check: "login_check (v_limits env) (cs_login st) key (io_time io) = (rate, m)" by fastforce
  let ?st = "st\<lparr>cs_login := m\<rparr>"
  have one: "om_get [(i, a)] i = Some a" "om_set i b [(i, a)] = [(i, b)]" "om_delete i [(i, a)] = []" "om_delete i [] = []"
    for a b :: login_wait by (simp_all add: om_get_def om_delete_def)
  note d = login_stages_def login_stage_defs check one Let_def
  consider (over) "\<not> allowed rate"
    | (wrong) "allowed rate" "\<not> auth_disabled (v_cfg env)" "\<not> passwordMatches (v_scrypt env) (v_cfg env) (cs_password st) (getp body ''password'')"
    | (single) "allowed rate" "auth_disabled (v_cfg env) \<or> passwordMatches (v_scrypt env) (v_cfg env) (cs_password st) (getp body ''password'')"
        "auth_disabled (v_cfg env) \<or> \<not> totp_enabled (v_cfg env)"
    | (double) "allowed rate" "passwordMatches (v_scrypt env) (v_cfg env) (cs_password st) (getp body ''password'')"
        "\<not> auth_disabled (v_cfg env)" "totp_enabled (v_cfg env)"
    by blast
  then show ?thesis
  proof cases
    case over
    then show ?thesis by (simp add: d login_route_def)
  next
    case wrong
    then show ?thesis by (simp add: d login_route_def)
  next
    case single
    obtain s cookie st' where r: "issue_session env io default_session_args (login_passed key ?st) = ((s, cookie), st')"
      by (metis prod.collapse)
    show ?thesis using single by (simp add: d login_route_def r disj_commute)
  next
    case double
    have two: "login_route env io key body st = login_second_factor env io key body ?st"
      using double by (simp add: login_route_def check)
    obtain s cookie st' where r: "issue_session env io (setup_args env ''enroll'') (login_passed key ?st) = ((s, cookie), st')"
      by (metis prod.collapse)
    show ?thesis
    proof (cases "isConfigured (c_b64 (v_crypto env)) (cs_factor ?st)")
      case (Inl e)
      then show ?thesis using double unfolding two by (simp add: d login_second_factor_def)
    next
      case (Inr c)
      then show ?thesis using double unfolding two
        by (cases c; simp add: d login_second_factor_def r)
    qed
  qed
qed

text \<open>The comparison of the password a login's body gives with the one in force.\<close>

definition password_ok :: "console_env \<Rightarrow> console_state \<Rightarrow> jsval \<Rightarrow> bool" where
  "password_ok env st body = passwordMatches (v_scrypt env) (v_cfg env) (cs_password st) (getp body ''password'')"

section \<open>No session without the password\<close>

text \<open>Answers that carry a session, of any scope.\<close>

definition gives_session :: "auth_answer \<Rightarrow> bool" where
  "gives_session a = (case a of SignedIn s c \<Rightarrow> True | EnrollmentRequired s c \<Rightarrow> True | ResetupRequired s c \<Rightarrow> True | _ \<Rightarrow> False)"

text \<open>A login past the comparison, or answered with a session, is one whose password was right.\<close>

definition waits_proved :: "login_note list \<Rightarrow> nat \<Rightarrow> login_wait \<Rightarrow> bool" where
  "waits_proved notes i a = (case a of AwaitBody k \<Rightarrow> True | AwaitHash k b ok \<Rightarrow> ok \<longrightarrow> LoginCompared i True \<in> set notes
     | _ \<Rightarrow> LoginCompared i True \<in> set notes)"

definition logins_proved :: "login_world \<Rightarrow> bool" where
  "logins_proved w = ((\<forall>i a. om_get (lw_open w) i = Some a \<longrightarrow> waits_proved (lw_log w) i a)
     \<and> (\<forall>i a. LoginAnswered i a \<in> set (lw_log w) \<longrightarrow> gives_session a \<longrightarrow> LoginCompared i True \<in> set (lw_log w)))"

lemma proved_open: "logins_proved w \<Longrightarrow> om_get (lw_open w) i = Some a \<Longrightarrow> waits_proved (lw_log w) i a"
  by (simp add: logins_proved_def)

lemma waits_grow: "waits_proved notes i a \<Longrightarrow> waits_proved (notes @ added) i a"
  by (auto simp: waits_proved_def split: login_wait.splits)

lemma proved_wait:
  assumes "logins_proved w" and "waits_proved (lw_log w @ ns) i a" and "\<forall>j b. LoginAnswered j b \<notin> set ns"
    and "v = login_wait_for i a u" and "lw_open u = lw_open w" and "lw_log u = lw_log w @ ns"
  shows "logins_proved v"
  unfolding logins_proved_def
proof (intro conjI allI impI)
  fix j b assume "om_get (lw_open v) j = Some b"
  then have "j = i \<and> b = a \<or> om_get (lw_open w) j = Some b"
    using assms(4,5) by (auto simp: login_wait_for_def om_get_set split: if_splits)
  then show "waits_proved (lw_log v) j b"
    using assms waits_grow by (auto simp: login_wait_for_def logins_proved_def)
next
  fix j b assume "LoginAnswered j b \<in> set (lw_log v)" "gives_session b"
  then show "LoginCompared j True \<in> set (lw_log v)"
    using assms by (auto simp: login_wait_for_def logins_proved_def)
qed

lemma proved_answer:
  assumes "logins_proved w" and "gives_session (fst r) \<Longrightarrow> LoginCompared i True \<in> set (lw_log w)"
  shows "logins_proved (login_answer i r w)"
  unfolding logins_proved_def
proof (intro conjI allI impI)
  fix j b assume "om_get (lw_open (login_answer i r w)) j = Some b"
  then have "om_get (lw_open w) j = Some b" by (simp add: login_answer_def om_get_delete split: if_splits)
  then show "waits_proved (lw_log (login_answer i r w)) j b"
    using assms(1) waits_grow by (simp add: login_answer_def logins_proved_def)
next
  fix j b assume "LoginAnswered j b \<in> set (lw_log (login_answer i r w))" "gives_session b"
  then show "LoginCompared j True \<in> set (lw_log (login_answer i r w))"
    using assms by (auto simp: login_answer_def logins_proved_def)
qed

lemma proved_step:
  assumes on: "\<not> auth_disabled (v_cfg env)" and w: "logins_proved w" and s: "signin_step env e w = Some v"
  shows "logins_proved v"
proof (cases e)
  case (LoginBegin i key tm)
  let ?st = "(lw_state w)\<lparr>cs_login := snd (login_check (v_limits env) (cs_login (lw_state w)) key tm)\<rparr>"
  have "logins_proved (login_wait_for i (AwaitBody key) (w\<lparr>lw_state := ?st\<rparr>))"
    by (rule proved_wait [OF w _ _ refl, of "[]"]) (simp_all add: waits_proved_def)
  moreover have "logins_proved (login_answer i (TooMany n, ?st) w)" for n
    by (rule proved_answer [OF w]) (simp add: gives_session_def)
  ultimately show ?thesis
    using s LoginBegin by (auto simp: login_begin_def split_beta Let_def split: if_splits)
next
  case (LoginBody i body)
  then obtain key where a: "om_get (lw_open w) i = Some (AwaitBody key)"
    using s by (auto simp: login_body_def split: option.splits login_wait.splits)
  let ?n = "[LoginCompared i (password_ok env (lw_state w) body)]"
  have "v = login_wait_for i (AwaitHash key body (password_ok env (lw_state w) body)) (w\<lparr>lw_log := lw_log w @ ?n\<rparr>)"
    using s LoginBody on by (simp add: login_body_def a password_ok_def Let_def)
  from proved_wait [OF w _ _ this, of ?n] show ?thesis by (simp add: waits_proved_def)
next
  case (LoginHashed i io)
  then obtain key body ok where a: "om_get (lw_open w) i = Some (AwaitHash key body ok)"
    using s by (auto simp: login_hashed_def split: option.splits login_wait.splits)
  have ok: "ok \<Longrightarrow> LoginCompared i True \<in> set (lw_log w)" using proved_open [OF w a] by (simp add: waits_proved_def)
  have "ok \<Longrightarrow> logins_proved (login_wait_for i (AwaitConfigured key body) w)"
    by (rule proved_wait [OF w _ _ refl, of "[]"]) (simp_all add: waits_proved_def ok)
  then show ?thesis
    using s LoginHashed ok
    by (auto simp: login_hashed_def a Let_def gives_session_def split_beta split: if_splits intro!: proved_answer [OF w])
next
  case (LoginConfigured i io)
  then obtain key body where a: "om_get (lw_open w) i = Some (AwaitConfigured key body)"
    using s by (auto simp: login_configured_def split: option.splits login_wait.splits)
  have ok: "LoginCompared i True \<in> set (lw_log w)" using proved_open [OF w a] by (simp add: waits_proved_def)
  have "logins_proved (login_wait_for i (AwaitFactor key body) w)"
    by (rule proved_wait [OF w _ _ refl, of "[]"]) (simp_all add: waits_proved_def ok)
  then show ?thesis
    using s LoginConfigured ok
    by (auto simp: login_configured_def a Let_def split_beta split: if_splits sum.splits bool.splits intro!: proved_answer [OF w])
next
  case (LoginFactor i io)
  then obtain key body where a: "om_get (lw_open w) i = Some (AwaitFactor key body)"
    using s by (auto simp: login_factor_def split: option.splits login_wait.splits)
  have ok: "LoginCompared i True \<in> set (lw_log w)" using proved_open [OF w a] by (simp add: waits_proved_def)
  show ?thesis using s LoginFactor ok by (auto simp: login_factor_def a intro!: proved_answer [OF w])
qed

text \<open>
  However the steps of several logins interleave, a login that is answered with a session of any kind is one whose
  password was compared and found right.
\<close>

theorem interleaved_session_needs_password:
  assumes "\<not> auth_disabled (v_cfg env)" and "signin_run env es (login_idle st) = Some w"
    and "LoginAnswered i a \<in> set (lw_log w)" and "gives_session a"
  shows "LoginCompared i True \<in> set (lw_log w)"
proof -
  have "signin_run env es v = Some w \<Longrightarrow> logins_proved v \<Longrightarrow> logins_proved w" for v
    by (induction es arbitrary: v) (auto split: option.splits dest: proved_step [OF assms(1)])
  moreover have "logins_proved (login_idle st)" by (simp add: logins_proved_def login_idle_def)
  ultimately show ?thesis using assms(2-4) by (auto simp: logins_proved_def)
qed

section \<open>Logins at the same time\<close>

text \<open>The steps that begin some logins, that read their bodies, and that learn the result of the comparison.\<close>

definition begins :: "string \<Rightarrow> int \<Rightarrow> (nat \<times> jsval) list \<Rightarrow> login_event list" where
  "begins key tm guesses = map (\<lambda>g. LoginBegin (fst g) key tm) guesses"

definition compares :: "(nat \<times> jsval) list \<Rightarrow> login_event list" where
  "compares guesses = map (\<lambda>g. LoginBody (fst g) (snd g)) guesses"

definition learns :: "request_io \<Rightarrow> (nat \<times> jsval) list \<Rightarrow> login_event list" where
  "learns io guesses = map (\<lambda>g. LoginHashed (fst g) io) guesses"

lemma first_apart: "distinct (map fst (g # gs)) \<Longrightarrow> h \<in> set gs \<Longrightarrow> fst h \<noteq> fst g"
  by (metis image_eqI list.map(2) distinct.simps(2) set_map)

lemma check_again: "fst (login_check opt (snd (login_check opt m key tm)) key tm) = fst (login_check opt m key tm)"
  by (simp add: login_check_fst login_check_get live_attempt_idem)

lemma begins_run:
  assumes "allowed (fst (login_check (v_limits env) (cs_login (lw_state w)) key tm))" and "distinct (map fst guesses)"
    and "\<forall>g \<in> set guesses. om_get (lw_open w) (fst g) = None"
  shows "\<exists>v. signin_run env (begins key tm guesses) w = Some v \<and> lw_log v = lw_log w
    \<and> cs_password (lw_state v) = cs_password (lw_state w)
    \<and> (\<forall>i. om_get (lw_open v) i = (if i \<in> fst ` set guesses then Some (AwaitBody key) else om_get (lw_open w) i))"
  using assms
proof (induction guesses arbitrary: w)
  case Nil
  then show ?case by (simp add: begins_def)
next
  case (Cons g gs)
  let ?m = "snd (login_check (v_limits env) (cs_login (lw_state w)) key tm)"
  let ?u = "w\<lparr>lw_state := (lw_state w)\<lparr>cs_login := ?m\<rparr>, lw_open := om_set (fst g) (AwaitBody key) (lw_open w)\<rparr>"
  have st: "signin_step env (LoginBegin (fst g) key tm) w = Some ?u"
    using Cons.prems by (simp add: login_begin_def login_wait_for_def split_beta Let_def)
  have ok: "allowed (fst (login_check (v_limits env) (cs_login (lw_state ?u)) key tm))" and d: "distinct (map fst gs)"
    using Cons.prems by (simp_all add: check_again)
  have fresh: "\<forall>h \<in> set gs. om_get (lw_open ?u) (fst h) = None"
  proof
    fix h assume h: "h \<in> set gs"
    then have "fst h \<noteq> fst g" using first_apart [OF Cons.prems(2)] by simp
    then show "om_get (lw_open ?u) (fst h) = None" using Cons.prems(3) h by (simp add: om_get_set)
  qed
  obtain v where v: "signin_run env (begins key tm gs) ?u = Some v" "lw_log v = lw_log w"
      "cs_password (lw_state v) = cs_password (lw_state w)"
      "\<forall>i. om_get (lw_open v) i = (if i \<in> fst ` set gs then Some (AwaitBody key) else om_get (lw_open ?u) i)"
    using Cons.IH [OF ok d fresh] by auto
  show ?case using v st by (auto simp: begins_def om_get_set)
qed

lemma compares_run:
  assumes "distinct (map fst guesses)" and "\<forall>g \<in> set guesses. om_get (lw_open w) (fst g) = Some (AwaitBody key)"
    and "\<not> auth_disabled (v_cfg env)"
  shows "\<exists>v. signin_run env (compares guesses) w = Some v \<and> lw_state v = lw_state w
    \<and> lw_log v = lw_log w @ map (\<lambda>g. LoginCompared (fst g) (password_ok env (lw_state w) (snd g))) guesses
    \<and> (\<forall>g \<in> set guesses. om_get (lw_open v) (fst g) = Some (AwaitHash key (snd g) (password_ok env (lw_state w) (snd g))))
    \<and> (\<forall>i. i \<notin> fst ` set guesses \<longrightarrow> om_get (lw_open v) i = om_get (lw_open w) i)"
  using assms(1,2)
proof (induction guesses arbitrary: w)
  case Nil
  then show ?case by (simp add: compares_def)
next
  case (Cons g gs)
  let ?ok = "password_ok env (lw_state w) (snd g)"
  let ?u = "w\<lparr>lw_open := om_set (fst g) (AwaitHash key (snd g) ?ok) (lw_open w), lw_log := lw_log w @ [LoginCompared (fst g) ?ok]\<rparr>"
  have st: "signin_step env (LoginBody (fst g) (snd g)) w = Some ?u"
    using Cons.prems assms(3) by (simp add: login_body_def login_wait_for_def password_ok_def Let_def)
  have "\<forall>h \<in> set gs. om_get (lw_open ?u) (fst h) = Some (AwaitBody key)"
    using Cons.prems(2) first_apart [OF Cons.prems(1)] by (simp add: om_get_set)
  from Cons.IH [OF _ this] Cons.prems(1) obtain v where v: "signin_run env (compares gs) ?u = Some v" "lw_state v = lw_state w"
      "lw_log v = lw_log ?u @ map (\<lambda>g. LoginCompared (fst g) (password_ok env (lw_state w) (snd g))) gs"
      "\<forall>g \<in> set gs. om_get (lw_open v) (fst g) = Some (AwaitHash key (snd g) (password_ok env (lw_state w) (snd g)))"
      "\<forall>i. i \<notin> fst ` set gs \<longrightarrow> om_get (lw_open v) i = om_get (lw_open ?u) i"
    by auto
  have "fst g \<notin> fst ` set gs" using Cons.prems(1) by simp
  then have "om_get (lw_open v) (fst g) = Some (AwaitHash key (snd g) ?ok)" using v(5) by (simp add: om_get_set)
  then show ?case using v st by (auto simp: compares_def om_get_set)
qed

lemma learns_run:
  assumes "distinct (map fst guesses)" and "\<forall>g \<in> set guesses. om_get (lw_open w) (fst g) = Some (AwaitHash key (snd g) False)"
  shows "\<exists>v. signin_run env (learns io guesses) w = Some v
    \<and> lw_log v = lw_log w @ map (\<lambda>g. LoginAnswered (fst g) (Refused 401 ''password'')) guesses"
  using assms
proof (induction guesses arbitrary: w)
  case Nil
  then show ?case by (simp add: learns_def)
next
  case (Cons g gs)
  let ?u = "login_answer (fst g) (Refused 401 ''password'', login_failed env io key (lw_state w)) w"
  have st: "signin_step env (LoginHashed (fst g) io) w = Some ?u"
    using Cons.prems by (simp add: login_hashed_def Let_def)
  have "\<forall>h \<in> set gs. om_get (lw_open ?u) (fst h) = Some (AwaitHash key (snd h) False)"
    using Cons.prems(2) first_apart [OF Cons.prems(1)] by (simp add: login_answer_def om_get_delete)
  from Cons.IH [OF _ this] Cons.prems(1) obtain v where "signin_run env (learns io gs) ?u = Some v"
      "lw_log v = lw_log ?u @ map (\<lambda>g. LoginAnswered (fst g) (Refused 401 ''password'')) gs" by auto
  then show ?case using st by (simp add: learns_def login_answer_def)
qed

text \<open>
  C32. The limit on password guesses does not hold for logins sent at the same time. The limiter is asked when the
  headers of a login arrive, and a failure is recorded only after its body was read and its password hashed. So a
  client that may sign in at all may begin any number of logins first, in one instant and under one key: every
  one of them is compared with the password in force, and every wrong one is answered as a wrong password, none as
  one attempt too many. (One after the other, at most eight are looked at.)
\<close>

theorem concurrent_logins_evade_limit:
  assumes "allowed (fst (login_check (v_limits env) (cs_login (lw_state w)) key tm))" and "\<not> auth_disabled (v_cfg env)"
    and "distinct (map fst guesses)" and "\<forall>g \<in> set guesses. om_get (lw_open w) (fst g) = None"
    and "wrong = filter (\<lambda>g. \<not> password_ok env (lw_state w) (snd g)) guesses"
  shows "\<exists>v. signin_run env (begins key tm guesses @ compares guesses @ learns io wrong) w = Some v
    \<and> lw_log v = lw_log w
        @ map (\<lambda>g. LoginCompared (fst g) (password_ok env (lw_state w) (snd g))) guesses
        @ map (\<lambda>g. LoginAnswered (fst g) (Refused 401 ''password'')) wrong"
proof -
  obtain u where u: "signin_run env (begins key tm guesses) w = Some u" "lw_log u = lw_log w"
      "cs_password (lw_state u) = cs_password (lw_state w)"
      "\<forall>i. om_get (lw_open u) i = (if i \<in> fst ` set guesses then Some (AwaitBody key) else om_get (lw_open w) i)"
    using begins_run [OF assms(1,3,4)] by blast
  have ok: "password_ok env (lw_state u) = password_ok env (lw_state w)" using u(3) by (simp add: password_ok_def fun_eq_iff)
  have "\<forall>g \<in> set guesses. om_get (lw_open u) (fst g) = Some (AwaitBody key)" using u(4) by simp
  from compares_run [OF assms(3) this assms(2)] obtain t where t: "signin_run env (compares guesses) u = Some t"
      "lw_log t = lw_log u @ map (\<lambda>g. LoginCompared (fst g) (password_ok env (lw_state w) (snd g))) guesses"
      "\<forall>g \<in> set guesses. om_get (lw_open t) (fst g) = Some (AwaitHash key (snd g) (password_ok env (lw_state w) (snd g)))"
    unfolding ok by blast
  have "distinct (map fst wrong)" unfolding assms(5) using assms(3) by (rule distinct_map_filter)
  moreover have "\<forall>g \<in> set wrong. om_get (lw_open t) (fst g) = Some (AwaitHash key (snd g) False)"
    using t(3) by (auto simp: assms(5))
  ultimately obtain v where "signin_run env (learns io wrong) t = Some v"
      "lw_log v = lw_log t @ map (\<lambda>g. LoginAnswered (fst g) (Refused 401 ''password'')) wrong"
    using learns_run by blast
  then show ?thesis using u t by (simp add: signin_run_append)
qed

theorem concurrent_logins_evade_limit_witness:
  "\<exists>v. signin_run env_example (begins ''a'' 5 (map (\<lambda>i. (i, Null)) [0..<100]) @ compares (map (\<lambda>i. (i, Null)) [0..<100])
        @ learns (io_example 5) (map (\<lambda>i. (i, Null)) [0..<100])) (login_idle (state_at fresh_world)) = Some v
    \<and> length (filter (\<lambda>n. case n of LoginAnswered i a \<Rightarrow> looked_at a | _ \<Rightarrow> False) (lw_log v)) = 100"
proof -
  let ?w = "login_idle (state_at fresh_world)"
  let ?gs = "map (\<lambda>i. (i, Null)) [0..<100] :: (nat \<times> jsval) list"
  have no: "\<not> password_ok env_example (lw_state ?w) Null"
    by (simp add: password_ok_def login_idle_def passwordMatches_def verifyPassword_def Let_def starts_with_def js_or_def)
  have all: "?gs = filter (\<lambda>g. \<not> password_ok env_example (lw_state ?w) (snd g)) ?gs"
    by (simp add: filter_map comp_def no)
  have ok: "allowed (fst (login_check (v_limits env_example) (cs_login (lw_state ?w)) ''a'' 5))"
    using example_allowed [of "''a''" 5] by (simp add: login_idle_def)
  have "\<not> auth_disabled (v_cfg env_example)" "distinct (map fst ?gs)" "\<forall>g \<in> set ?gs. om_get (lw_open ?w) (fst g) = None"
    by (simp_all add: comp_def login_idle_def)
  from concurrent_logins_evade_limit [OF ok this all, of "io_example 5"] obtain v where
    v: "signin_run env_example (begins ''a'' 5 ?gs @ compares ?gs @ learns (io_example 5) ?gs) ?w = Some v"
      "lw_log v = lw_log ?w @ map (\<lambda>g. LoginCompared (fst g) (password_ok env_example (lw_state ?w) (snd g))) ?gs
        @ map (\<lambda>g. LoginAnswered (fst g) (Refused 401 ''password'')) ?gs"
    by blast
  have "length (filter (\<lambda>n. case n of LoginAnswered i a \<Rightarrow> looked_at a | _ \<Rightarrow> False) (lw_log v)) = 100"
    unfolding v(2) by (simp add: filter_map comp_def login_idle_def looked_at_def)
  with v(1) show ?thesis by blast
qed

end
