(* ===== verification/BridgeRateLimit.thy ===== *)
theory BridgeRateLimit
  imports RateLimit
begin

text \<open>
  The sliding-window limiter of the addon bridge, \<open>console/api/src/bridgeRateLimit.js\<close>, and the
  way the bridge route of \<open>server.js\<close> uses it: a check, and a record when the check allows. The
  time stamps of every admitted request are kept, oldest first, per key and for all keys.
\<close>

section \<open>The limiter\<close>

definition WINDOW_MS :: int where "WINDOW_MS = 60 * 1000"
definition PER_KEY_MAX :: nat where "PER_KEY_MAX = 60"
definition GLOBAL_MAX :: nat where "GLOBAL_MAX = 300"

record bridge_state =
  b_requests :: "(string, int list) omap"
  globalRequests :: "int list"

definition empty_bridge :: bridge_state where
  "empty_bridge = \<lparr>b_requests = [], globalRequests = []\<rparr>"

definition prune :: "int \<Rightarrow> int list \<Rightarrow> int list" where
  "prune now ts = dropWhile (\<lambda>t. t \<le> now - WINDOW_MS) ts"

definition pruneGlobal :: "bridge_state \<Rightarrow> int \<Rightarrow> bridge_state" where
  "pruneGlobal s now = s\<lparr>globalRequests := prune now (globalRequests s)\<rparr>"

definition pruneKey :: "bridge_state \<Rightarrow> string \<Rightarrow> int \<Rightarrow> bridge_state" where
  "pruneKey s key now = (case om_get (b_requests s) key of
       None \<Rightarrow> s
     | Some entries \<Rightarrow>
         (let left = prune now entries in
          if left = [] then s\<lparr>b_requests := om_delete key (b_requests s)\<rparr>
          else s\<lparr>b_requests := om_set key left (b_requests s)\<rparr>))"

definition key_entries :: "bridge_state \<Rightarrow> string \<Rightarrow> int list" where
  "key_entries s key = (case om_get (b_requests s) key of None \<Rightarrow> [] | Some e \<Rightarrow> e)"

definition bridge_check :: "bridge_state \<Rightarrow> string \<Rightarrow> int \<Rightarrow> verdict \<times> bridge_state" where
  "bridge_check s0 key now =
     (let s = pruneKey (pruneGlobal s0 now) key now;
          entries = key_entries s key
      in if length entries \<ge> PER_KEY_MAX \<or> length (globalRequests s) \<ge> GLOBAL_MAX
         then (let oldest = (if length entries \<ge> PER_KEY_MAX then hd entries else hd (globalRequests s));
                   retryAfterMs = WINDOW_MS - (now - oldest)
               in (\<lparr>allowed = False, retryAfterSeconds = max 1 (ceil_div retryAfterMs 1000)\<rparr>, s))
         else (\<lparr>allowed = True, retryAfterSeconds = 0\<rparr>, s))"

definition bridge_record :: "bridge_state \<Rightarrow> string \<Rightarrow> int \<Rightarrow> bridge_state" where
  "bridge_record s key now =
     s\<lparr>b_requests := om_set key (key_entries s key @ [now]) (b_requests s),
       globalRequests := globalRequests s @ [now]\<rparr>"

text \<open>The route: the key of the addon and the client address, the check, the record.\<close>

definition bridge_key :: "string \<Rightarrow> string option \<Rightarrow> string" where
  "bridge_key addon remote =
     addon @ '':'' @ normalizeIp (Some (case remote of None \<Rightarrow> ''unknown''
        | Some a \<Rightarrow> if a = [] then ''unknown'' else a))"

definition bridge_request :: "bridge_state \<Rightarrow> string \<Rightarrow> int \<Rightarrow> int \<Rightarrow> verdict \<times> bridge_state" where
  "bridge_request s key now now' =
     (let (limit, s1) = bridge_check s key now
      in if \<not> allowed limit then (limit, s1) else (limit, bridge_record s1 key now'))"

section \<open>Requests in sequence\<close>

text \<open>
  A request is its key and the clock at its check and at its record; the log holds the admitted
  ones with the time they were recorded at.
\<close>

fun bridge_run :: "bridge_state \<Rightarrow> (string \<times> int) list \<Rightarrow> (string \<times> int \<times> int) list
    \<Rightarrow> bridge_state \<times> (string \<times> int) list" where
  "bridge_run s lg [] = (s, lg)"
| "bridge_run s lg ((k, t, t') # rs) =
     (let (v, s') = bridge_request s k t t'
      in bridge_run s' (if allowed v then lg @ [(k, t')] else lg) rs)"

definition key_log :: "string \<Rightarrow> (string \<times> int) list \<Rightarrow> int list" where
  "key_log k lg = map snd (filter (\<lambda>p. fst p = k) lg)"

text \<open>The clock does not go back.\<close>

fun clock_ok :: "int \<Rightarrow> (string \<times> int \<times> int) list \<Rightarrow> bool" where
  "clock_ok now [] = True"
| "clock_ok now ((k, t, t') # rs) = (now \<le> t \<and> t \<le> t' \<and> clock_ok t' rs)"

text \<open>
  \<open>n\<close> admissions fit in a window: of any \<open>n + 1\<close> consecutive ones the last is at least a window
  after the first.
\<close>

definition spaced :: "nat \<Rightarrow> int list \<Rightarrow> bool" where
  "spaced n h = (\<forall>i. i + n < length h \<longrightarrow> h ! i + WINDOW_MS \<le> h ! (i + n))"

text \<open>The entries kept are the log without a prefix that left the window.\<close>

definition kept :: "int \<Rightarrow> int list \<Rightarrow> int list \<Rightarrow> bool" where
  "kept now h es = (\<exists>j \<le> length h. es = drop j h \<and> (\<forall>x \<in> set (take j h). x \<le> now - WINDOW_MS))"

lemma kept_prune: "kept now h es \<Longrightarrow> now \<le> now' \<Longrightarrow> kept now' h (prune now' es)"
proof -
  assume k: "kept now h es" and le: "now \<le> now'"
  obtain j where j: "j \<le> length h" "es = drop j h" "\<forall>x \<in> set (take j h). x \<le> now - WINDOW_MS"
    using k unfolding kept_def by blast
  let ?i = "length (takeWhile (\<lambda>t. t \<le> now' - WINDOW_MS) es)"
  have i: "?i \<le> length h - j" using length_takeWhile_le [of _ es] j(2) by simp
  have "prune now' es = drop (j + ?i) h"
    by (simp add: prune_def dropWhile_eq_drop j(2) add.commute)
  moreover have "take (j + ?i) h = take j h @ takeWhile (\<lambda>t. t \<le> now' - WINDOW_MS) es"
    by (simp add: take_add j(2) takeWhile_eq_take [symmetric])
  ultimately show ?thesis
    unfolding kept_def using i j le
    by (intro exI [of _ "j + ?i"]) (auto dest: set_takeWhileD)
qed

lemma kept_snoc: "kept now h es \<Longrightarrow> kept now (h @ [t]) (es @ [t])"
  unfolding kept_def by (metis append_Nil2 drop_append le_SucI length_append_singleton
      diff_is_0_eq' drop0 take_append take_eq_Nil)

lemma kept_mono: "kept now h es \<Longrightarrow> now \<le> now' \<Longrightarrow> kept now' h es"
  unfolding kept_def by force

lemma kept_Nil: "kept now [] []"
  by (simp add: kept_def)

lemma spaced_snoc:
  assumes sp: "spaced n h" and k: "kept now h es" and few: "length es < n" and t: "now \<le> t"
  shows "spaced n (h @ [t])"
  unfolding spaced_def
proof (intro allI impI)
  fix i
  assume i: "i + n < length (h @ [t])"
  show "(h @ [t]) ! i + WINDOW_MS \<le> (h @ [t]) ! (i + n)"
  proof (cases "i + n < length h")
    case True
    then show ?thesis using sp by (simp add: spaced_def nth_append)
  next
    case False
    obtain j where j: "j \<le> length h" "es = drop j h" "\<forall>x \<in> set (take j h). x \<le> now - WINDOW_MS"
      using k unfolding kept_def by blast
    have eq: "i + n = length h" using i False by simp
    then have ij: "i < j" using few j by simp
    then have "h ! i \<in> set (take j h)" using j(1) by (auto simp: in_set_conv_nth intro!: exI [of _ i])
    with j(3) have "h ! i + WINDOW_MS \<le> now" by auto
    with t ij j(1) eq few show ?thesis by (simp add: nth_append)
  qed
qed

section \<open>The invariant\<close>

definition bridge_inv :: "int \<Rightarrow> bridge_state \<Rightarrow> (string \<times> int) list \<Rightarrow> bool" where
  "bridge_inv now s lg =
     ((\<forall>k. kept now (key_log k lg) (key_entries s k) \<and> spaced PER_KEY_MAX (key_log k lg))
      \<and> kept now (map snd lg) (globalRequests s) \<and> spaced GLOBAL_MAX (map snd lg))"

lemma prune_Nil [simp]: "prune now [] = []"
  by (simp add: prune_def)

lemma key_entries_pruneKey:
  "key_entries (pruneKey s key now) k = (if k = key then prune now (key_entries s key) else key_entries s k)"
  by (auto simp: pruneKey_def key_entries_def om_get_delete om_get_set Let_def split: option.splits)

lemma globalRequests_pruneKey [simp]: "globalRequests (pruneKey s key now) = globalRequests s"
  by (simp add: pruneKey_def Let_def split: option.splits)

lemma key_entries_pruneGlobal [simp]: "key_entries (pruneGlobal s now) k = key_entries s k"
  by (simp add: pruneGlobal_def key_entries_def)

lemma bridge_check_state: "snd (bridge_check s k now) = pruneKey (pruneGlobal s now) k now"
  by (simp add: bridge_check_def Let_def)

lemma bridge_check_allowed:
  "allowed (fst (bridge_check s k now)) \<longleftrightarrow>
     length (prune now (key_entries s k)) < PER_KEY_MAX \<and> length (prune now (globalRequests s)) < GLOBAL_MAX"
  by (auto simp: bridge_check_def Let_def key_entries_pruneKey pruneGlobal_def not_le [symmetric]
      key_entries_pruneGlobal [unfolded pruneGlobal_def])

lemma bridge_check_inv: "bridge_inv now s lg \<Longrightarrow> now \<le> t \<Longrightarrow> bridge_inv t (snd (bridge_check s k t)) lg"
  by (auto simp: bridge_inv_def bridge_check_state key_entries_pruneKey pruneGlobal_def
      key_entries_pruneGlobal [unfolded pruneGlobal_def] intro: kept_prune kept_mono)

lemma key_log_snoc: "key_log k (lg @ [(k', t)]) = (if k = k' then key_log k lg @ [t] else key_log k lg)"
  by (simp add: key_log_def)

lemma bridge_record_inv:
  assumes inv: "bridge_inv now s lg" and t: "now \<le> t"
    and room: "length (key_entries s k) < PER_KEY_MAX" "length (globalRequests s) < GLOBAL_MAX"
  shows "bridge_inv t (bridge_record s k t) (lg @ [(k, t)])"
proof -
  have ent: "key_entries (bridge_record s k t) k' =
      (if k' = k then key_entries s k @ [t] else key_entries s k')" for k'
    by (simp add: bridge_record_def key_entries_def om_get_set)
  have gl: "globalRequests (bridge_record s k t) = globalRequests s @ [t]"
    by (simp add: bridge_record_def)
  have "kept t (key_log k' lg) (key_entries s k')" "kept t (map snd lg) (globalRequests s)" for k'
    using inv t by (auto simp: bridge_inv_def intro: kept_mono)
  moreover have "spaced PER_KEY_MAX (key_log k lg @ [t])" "spaced GLOBAL_MAX (map snd lg @ [t])"
    using inv t room by (auto simp: bridge_inv_def intro: spaced_snoc)
  ultimately show ?thesis
    using inv unfolding bridge_inv_def
    by (auto simp: ent gl key_log_snoc intro: kept_snoc)
qed

lemma bridge_request_inv:
  assumes "bridge_inv now s lg" and "now \<le> t" and "t \<le> t'"
  shows "bridge_inv t' (snd (bridge_request s k t t'))
    (if allowed (fst (bridge_request s k t t')) then lg @ [(k, t')] else lg)"
proof -
  let ?s = "snd (bridge_check s k t)"
  have inv: "bridge_inv t ?s lg" using assms(1,2) by (rule bridge_check_inv)
  show ?thesis
  proof (cases "allowed (fst (bridge_check s k t))")
    case True
    then have "length (key_entries ?s k) < PER_KEY_MAX" "length (globalRequests ?s) < GLOBAL_MAX"
      by (simp_all add: bridge_check_allowed bridge_check_state key_entries_pruneKey pruneGlobal_def
          key_entries_pruneGlobal [unfolded pruneGlobal_def])
    with inv assms(3) have "bridge_inv t' (bridge_record ?s k t') (lg @ [(k, t')])"
      by (rule bridge_record_inv)
    with True show ?thesis by (simp add: bridge_request_def split_def Let_def)
  next
    case False
    with inv assms(3) show ?thesis
      by (auto simp: bridge_request_def split_def Let_def bridge_inv_def intro: kept_mono)
  qed
qed

lemma bridge_run_inv:
  "bridge_inv now s lg \<Longrightarrow> clock_ok now rs \<Longrightarrow>
   \<exists>now'. bridge_inv now' (fst (bridge_run s lg rs)) (snd (bridge_run s lg rs))"
proof (induction rs arbitrary: now s lg)
  case Nil
  then show ?case by auto
next
  case (Cons r rs)
  obtain k t t' where r: "r = (k, t, t')" by (cases r)
  with Cons.prems have "now \<le> t" "t \<le> t'" "clock_ok t' rs" by auto
  with Cons.IH [OF bridge_request_inv [OF Cons.prems(1)]] show ?case
    by (auto simp: r split_def Let_def)
qed

lemma bridge_inv_init: "bridge_inv now empty_bridge []"
  by (simp add: bridge_inv_def empty_bridge_def key_log_def key_entries_def kept_Nil spaced_def)

text \<open>
  C33. Whatever the addons ask and however their requests interleave, the bridge admits at most 60
  requests of one addon and address, and at most 300 in all, within any window of 60 seconds.
\<close>

theorem bridge_window_bound:
  assumes "clock_ok now rs"
  shows "spaced PER_KEY_MAX (key_log k (snd (bridge_run empty_bridge [] rs))) \<and>
    spaced GLOBAL_MAX (map snd (snd (bridge_run empty_bridge [] rs)))"
  using bridge_run_inv [OF bridge_inv_init assms] by (auto simp: bridge_inv_def)

theorem bridge_window_bound_witness:
  "spaced PER_KEY_MAX (key_log ''a:1'' (snd (bridge_run empty_bridge [] [(''a:1'', 5, 6), (''b:1'', 6, 6)])))"
  using bridge_window_bound [of 0 "[(''a:1'', 5, 6), (''b:1'', 6, 6)]" "''a:1''"] by simp

text \<open>
  A refused bridge request is told to wait at least as long as it takes for a slot to free:
  the entry its verdict is about has left the window by then, and the wait is at least a second.
\<close>

theorem bridge_retry_sufficient:
  assumes "\<not> allowed (fst (bridge_check s k now))"
  shows "1 \<le> retryAfterSeconds (fst (bridge_check s k now)) \<and>
    (let entries = prune now (key_entries s k);
         oldest = (if PER_KEY_MAX \<le> length entries then hd entries else hd (prune now (globalRequests s)))
     in oldest + WINDOW_MS \<le> now + 1000 * retryAfterSeconds (fst (bridge_check s k now)))"
proof -
  let ?e = "prune now (key_entries s k)"
  let ?o = "if PER_KEY_MAX \<le> length ?e then hd ?e else hd (prune now (globalRequests s))"
  let ?r = "retryAfterSeconds (fst (bridge_check s k now))"
  have r: "?r = max 1 (ceil_div (WINDOW_MS - (now - ?o)) 1000)"
    using assms unfolding bridge_check_allowed
    by (auto simp: bridge_check_def Let_def key_entries_pruneKey pruneGlobal_def
        key_entries_pruneGlobal [unfolded pruneGlobal_def])
  have "WINDOW_MS - (now - ?o) \<le> 1000 * ceil_div (WINDOW_MS - (now - ?o)) 1000"
    by (rule ceil_div_upper) simp
  with r show ?thesis by (simp add: Let_def)
qed

theorem bridge_retry_sufficient_witness:
  "1 \<le> retryAfterSeconds (fst (bridge_check \<lparr>b_requests = [], globalRequests = replicate 300 7\<rparr> ''a:1'' 8))"
proof -
  have "\<not> allowed (fst (bridge_check \<lparr>b_requests = [], globalRequests = replicate 300 7\<rparr> ''a:1'' 8))"
    by (simp add: bridge_check_allowed prune_def WINDOW_MS_def GLOBAL_MAX_def dropWhile_replicate)
  from bridge_retry_sufficient [OF this] show ?thesis by blast
qed

end
