(* ===== verification/DiscordPolicy.thy ===== *)
theory DiscordPolicy
  imports Js
begin

text \<open>
  The Discord authorisation policy: \<open>console/api/src/integrations/discord/policy.js\<close>. Role tiers,
  capabilities, the normalisation of an actor and the tier its roles give it. An exception is its code
  and its status; messages are not modelled.
\<close>

section \<open>Tiers and capabilities\<close>

definition DISCORD_ROLE_TIERS :: "string list" where
  "DISCORD_ROLE_TIERS = [''public'', ''observer'', ''moderator'', ''admin'', ''owner'']"

definition DISCORD_CAPABILITIES :: "string list" where
  "DISCORD_CAPABILITIES =
     [''status:read'', ''coriolis:read'', ''atlas:read'', ''readiness:read'', ''services:read'', ''population:read'',
      ''logs:read'', ''maps:read'', ''backups:read'', ''inventory:read'', ''storage:read'', ''guild:read'',
      ''ops:activity:read'', ''ops:combat:read'', ''ops:resources:read'', ''ops:economy:read'', ''ops:inventory:read'',
      ''ops:location:read'', ''ops:soc:read'', ''ops:prometheus:read'', ''ops:dashboard:read'', ''player-link:write'',
      ''account-link:write'', ''broadcast:send'', ''cheater-tracking:read'', ''item-audit-log:read'', ''write-bridge:access'']"

definition DISCORD_WRITE_CAPABILITIES :: "string list" where
  "DISCORD_WRITE_CAPABILITIES = [''player-link:write'', ''account-link:write'', ''broadcast:send'', ''write-bridge:access'']"

definition SELF_SCOPED_CAPABILITIES :: "string list" where
  "SELF_SCOPED_CAPABILITIES = [''player-link:write'', ''account-link:write'']"

definition EXPERIMENTAL_READ_ONLY_CAPABILITIES :: "string list" where
  "EXPERIMENTAL_READ_ONLY_CAPABILITIES = filter (\<lambda>c. c \<notin> set DISCORD_WRITE_CAPABILITIES) DISCORD_CAPABILITIES"

definition CAPABILITY_BY_TIER :: "(string \<times> string list) list" where
  "CAPABILITY_BY_TIER =
     [(''public'', [''status:read'', ''coriolis:read'', ''atlas:read'']),
      (''observer'', [''status:read'', ''coriolis:read'', ''atlas:read'', ''readiness:read'', ''services:read'']),
      (''moderator'', [''status:read'', ''coriolis:read'', ''atlas:read'', ''readiness:read'', ''services:read'',
         ''population:read'', ''maps:read'', ''backups:read'', ''inventory:read'', ''storage:read'', ''guild:read'',
         ''item-audit-log:read'', ''write-bridge:access'']),
      (''admin'', filter (\<lambda>c. c \<notin> set SELF_SCOPED_CAPABILITIES) DISCORD_CAPABILITIES),
      (''owner'', filter (\<lambda>c. c \<notin> set SELF_SCOPED_CAPABILITIES) DISCORD_CAPABILITIES)]"

definition tier_capabilities :: "string \<Rightarrow> string list" where
  "tier_capabilities tier = (case map_of CAPABILITY_BY_TIER tier of None \<Rightarrow> [] | Some cs \<Rightarrow> cs)"

section \<open>Actors\<close>

type_synonym policy_error = "string \<times> nat"

record discord_actor =
  a_guildId :: string
  a_channelId :: string
  a_userId :: string
  a_username :: string
  a_roleIds :: "string list"
  a_interactionId :: string
  a_commandName :: string
  a_guildOwnerId :: string
  a_roleSnapshotAt :: jsval

record role_mapping =
  playerRoleIds :: "string list"
  moderatorRoleIds :: "string list"
  adminRoleIds :: "string list"
  ownerRoleIds :: "string list"

text \<open>\<open>String(value ?? "").trim()\<close>\<close>

definition trimmed_text :: "jsval \<Rightarrow> string" where
  "trimmed_text v = js_trim (to_str (js_nullish v (Str [])))"

definition requiredString :: "jsval \<Rightarrow> policy_error + string" where
  "requiredString v = (let text = trimmed_text v in
     if text = [] \<or> 256 < length text then Inl (''invalid_actor'', 400) else Inr text)"

definition optionalString :: "jsval \<Rightarrow> string" where
  "optionalString v = take 256 (trimmed_text v)"

definition normalizeStringList :: "jsval \<Rightarrow> string list" where
  "normalizeStringList v = (case v of
     Arr vs \<Rightarrow> take 100 (filter (\<lambda>s. s \<noteq> []) (map trimmed_text vs))
   | Str s \<Rightarrow> take 100 (filter (\<lambda>s. s \<noteq> []) (map js_trim (split_at (\<lambda>c. c = CHR '','') s)))
   | _ \<Rightarrow> [])"

definition normalizeRoleMapping :: "jsval \<Rightarrow> role_mapping" where
  "normalizeRoleMapping v = \<lparr>playerRoleIds = normalizeStringList (getp v ''playerRoleIds''),
     moderatorRoleIds = normalizeStringList (getp v ''moderatorRoleIds''),
     adminRoleIds = normalizeStringList (getp v ''adminRoleIds''),
     ownerRoleIds = normalizeStringList (getp v ''ownerRoleIds'')\<rparr>"

definition normalizeDiscordActor :: "jsval \<Rightarrow> policy_error + discord_actor" where
  "normalizeDiscordActor v =
     (if \<not> truthy v \<or> \<not> is_object v \<or> is_array v then Inl (''missing_actor'', 400)
      else case requiredString (getp v ''guildId'') of Inl e \<Rightarrow> Inl e | Inr guild \<Rightarrow>
        (case requiredString (getp v ''channelId'') of Inl e \<Rightarrow> Inl e | Inr channel \<Rightarrow>
          (case requiredString (getp v ''userId'') of Inl e \<Rightarrow> Inl e | Inr user \<Rightarrow>
            (case requiredString (getp v ''username'') of Inl e \<Rightarrow> Inl e | Inr name \<Rightarrow>
               Inr \<lparr>a_guildId = guild, a_channelId = channel, a_userId = user, a_username = name,
                    a_roleIds = normalizeStringList (getp v ''roleIds''),
                    a_interactionId = optionalString (getp v ''interactionId''),
                    a_commandName = optionalString (getp v ''commandName''),
                    a_guildOwnerId = optionalString (getp v ''guildOwnerId''),
                    a_roleSnapshotAt = getp v ''roleSnapshotAt''\<rparr>))))"

section \<open>Authorisation\<close>

definition isRealGuildOwner :: "discord_actor \<Rightarrow> bool" where
  "isRealGuildOwner actor = (a_userId actor \<noteq> [] \<and> a_guildOwnerId actor \<noteq> [] \<and> a_userId actor = a_guildOwnerId actor)"

definition holds_role :: "discord_actor \<Rightarrow> string list \<Rightarrow> bool" where
  "holds_role actor ids =
     (let roleIds = normalizeStringList (Arr (map Str (a_roleIds actor))) in list_ex (\<lambda>i. i \<in> set roleIds) ids)"

definition discordActorTier :: "discord_actor \<Rightarrow> jsval \<Rightarrow> string" where
  "discordActorTier actor mapping =
     (if isRealGuildOwner actor then ''owner''
      else let normalized = normalizeRoleMapping mapping in
        if holds_role actor (ownerRoleIds normalized) then ''owner''
        else if holds_role actor (adminRoleIds normalized) then ''admin''
        else if holds_role actor (moderatorRoleIds normalized) then ''moderator''
        else if holds_role actor (playerRoleIds normalized) then ''observer''
        else ''public'')"

definition required_capability :: "string \<Rightarrow> policy_error + string" where
  "required_capability capability = (case requiredString (Str capability) of Inl e \<Rightarrow> Inl e | Inr c \<Rightarrow>
     if c \<notin> set DISCORD_CAPABILITIES then Inl (''invalid_capability'', 400) else Inr c)"

definition discordActorCan :: "discord_actor \<Rightarrow> jsval \<Rightarrow> string \<Rightarrow> policy_error + bool" where
  "discordActorCan actor mapping capability = (case required_capability capability of Inl e \<Rightarrow> Inl e
   | Inr c \<Rightarrow> Inr (c \<in> set (tier_capabilities (discordActorTier actor mapping))))"

definition minTierForCapability :: "string \<Rightarrow> policy_error + string option" where
  "minTierForCapability capability = (case required_capability capability of Inl e \<Rightarrow> Inl e
   | Inr c \<Rightarrow> Inr (find (\<lambda>tier. c \<in> set (tier_capabilities tier)) DISCORD_ROLE_TIERS))"

definition requireExperimentalReadOnlyCapability :: "string \<Rightarrow> policy_error + unit" where
  "requireExperimentalReadOnlyCapability capability = (case requiredString (Str capability) of Inl e \<Rightarrow> Inl e
   | Inr c \<Rightarrow>
       if c \<in> set DISCORD_WRITE_CAPABILITIES \<or> c \<in> set EXPERIMENTAL_READ_ONLY_CAPABILITIES then Inr ()
       else Inl (''not_read_only'', 403))"

definition requireDiscordCapability :: "discord_actor \<Rightarrow> jsval \<Rightarrow> string \<Rightarrow> policy_error + unit" where
  "requireDiscordCapability actor mapping capability =
     (case requireExperimentalReadOnlyCapability capability of Inl e \<Rightarrow> Inl e
      | Inr u \<Rightarrow>
          if capability \<in> set SELF_SCOPED_CAPABILITIES then Inl (''invalid_capability'', 400)
          else (case discordActorCan actor mapping capability of
                  Inl e \<Rightarrow> Inl e
                | Inr can \<Rightarrow> if can then Inr () else Inl (''not_authorized'', 403)))"

definition requireSelfScopedCapability :: "discord_actor \<Rightarrow> jsval \<Rightarrow> string \<Rightarrow> policy_error + unit" where
  "requireSelfScopedCapability actor mapping capability =
     (case requireExperimentalReadOnlyCapability capability of Inl e \<Rightarrow> Inl e
      | Inr u \<Rightarrow>
          if capability \<notin> set SELF_SCOPED_CAPABILITIES then Inl (''invalid_capability'', 400)
          else if discordActorTier actor mapping = ''public'' then Inl (''not_authorized'', 403) else Inr ())"

end
