(* ===== verification/ActorSignature.thy ===== *)
theory ActorSignature
  imports DiscordPolicy PolicyStore
begin

text \<open>
  Actor signatures: \<open>console/api/src/integrations/discord/actorSignature.js\<close>, and the reader of signed
  bodies in \<open>routes.js\<close>. \<open>hmac\<close> is HMAC-SHA256 of a message under a secret in hexadecimal (Node's
  crypto module). Strings have code units below 256.
\<close>

section \<open>Signing\<close>

definition SIGNED_ACTOR_FIELDS :: "string list" where
  "SIGNED_ACTOR_FIELDS = [''userId'', ''guildId'', ''channelId'', ''roleIds'', ''interactionId'']"

definition WRITE_BRIDGE_SIGNED_ACTOR_FIELDS :: "string list" where
  "WRITE_BRIDGE_SIGNED_ACTOR_FIELDS =
     [''userId'', ''username'', ''roleIds'', ''guildId'', ''channelId'', ''roleSnapshotAt'', ''action'', ''params'']"

text \<open>\<open>Number(process.env.X)\<close> when it is an integer in range, otherwise the default.\<close>

definition bounded_env_int :: "jsval \<Rightarrow> int \<Rightarrow> int \<Rightarrow> int \<Rightarrow> int" where
  "bounded_env_int v fallback lo hi =
     (if is_integer (to_num v) \<and> lo \<le> num_int (to_num v) \<and> num_int (to_num v) \<le> hi then num_int (to_num v) else fallback)"

definition boundedMaxSkewSeconds :: "jsval \<Rightarrow> int" where
  "boundedMaxSkewSeconds v = bounded_env_int v 30 5 300"

text \<open>\<open>direct\<close> is the environment variable or the configured secret, \<open>file\<close> the content of the secret file.\<close>

definition actorSignatureSecret :: "string \<Rightarrow> string option \<Rightarrow> string" where
  "actorSignatureSecret direct file =
     (if direct \<noteq> [] then js_trim direct else case file of None \<Rightarrow> [] | Some text \<Rightarrow> js_trim text)"

text \<open>
  The text of a nested value: \<open>canonicalizeValue\<close> inserts the keys in the order of their code units, and
  \<open>JSON.stringify\<close> lists those that are array indices first, in numeric order.
\<close>

definition array_index_key :: "string \<Rightarrow> bool" where
  "array_index_key s = ((s = ''0'' \<or> s \<noteq> [] \<and> hd s \<noteq> CHR ''0'' \<and> list_all is_digit s) \<and> digits_val s < 4294967295)"

definition property_order :: "(string \<times> 'a) list \<Rightarrow> (string \<times> 'a) list" where
  "property_order ps = (let sorted = sort_key fst ps in
     sort_key (digits_val \<circ> fst) (filter (array_index_key \<circ> fst) sorted) @ filter (Not \<circ> array_index_key \<circ> fst) sorted)"

function canonicalizeValue :: "jsval \<Rightarrow> string" where
  "canonicalizeValue (Arr vs) = ''['' @ join_with '','' (map canonicalizeValue vs) @ '']''"
| "canonicalizeValue (Obj ps) = ''{'' @ join_with '','' (map (\<lambda>(k, s). json_quote k @ '':'' @ s)
     (property_order (map (\<lambda>p. (fst p, canonicalizeValue (snd p))) (filter (\<lambda>p. snd p \<noteq> Undef) ps)))) @ ''}''"
| "canonicalizeValue (Str s) = json_quote s"
| "canonicalizeValue (Number n) = (if is_finite n then show_num n else ''null'')"
| "canonicalizeValue (Bool b) = (if b then ''true'' else ''false'')"
| "canonicalizeValue Null = ''null''"
| "canonicalizeValue Undef = ''null''"
  by pat_completeness auto
termination
  by (relation "measure size") (auto simp: less_Suc_eq_le size_in_list size_in_pairs)

text \<open>The value signed for a field, before its text is made.\<close>

definition canonical_field :: "jsval \<Rightarrow> jsval" where
  "canonical_field value = (case value of
     Arr vs \<Rightarrow> Arr (map Str (sort (map to_str vs)))
   | Obj ps \<Rightarrow> Obj ps
   | _ \<Rightarrow> Str (to_str (js_nullish value (Str []))))"

definition field_text :: "jsval \<Rightarrow> string \<Rightarrow> string" where
  "field_text actorPayload key = json_quote key @ '':'' @ canonicalizeValue (canonical_field (getp actorPayload key))"

definition canonicalActorSignaturePayload :: "jsval \<Rightarrow> int \<Rightarrow> string \<Rightarrow> string list \<Rightarrow> string" where
  "canonicalActorSignaturePayload actorPayload timestamp route names =
     show_int timestamp @ ''.'' @ route @ ''.'' @ ''{'' @ join_with '','' (map (field_text actorPayload) names) @ ''}''"

definition signActorPayload ::
  "(string \<Rightarrow> string \<Rightarrow> string) \<Rightarrow> jsval \<Rightarrow> string \<Rightarrow> int \<Rightarrow> string \<Rightarrow> string list \<Rightarrow> string" where
  "signActorPayload hmac actorPayload secret timestamp route names =
     hmac secret (canonicalActorSignaturePayload actorPayload timestamp route names)"

text \<open>\<open>Buffer.from(s, "hex")\<close> reads pairs of digits up to the first that is none.\<close>

definition hex_digit_char :: "char \<Rightarrow> bool" where
  "hex_digit_char c = (radix_digit c < 16)"

fun hex_buffer :: "string \<Rightarrow> nat list" where
  "hex_buffer (a # b # r) = (if hex_digit_char a \<and> hex_digit_char b then (16 * radix_digit a + radix_digit b) # hex_buffer r else [])"
| "hex_buffer _ = []"

definition constantTimeHexEqual :: "string \<Rightarrow> string \<Rightarrow> bool" where
  "constantTimeHexEqual a b = (hex_buffer a \<noteq> [] \<and> hex_buffer a = hex_buffer b)"

section \<open>Verifying\<close>

record sig_env =
  se_hmac :: "string \<Rightarrow> string \<Rightarrow> string"
  se_direct :: string
  se_file :: "string option"
  se_skew :: jsval

record sig_headers =
  h_signature :: jsval
  h_timestamp :: jsval

definition secret_of :: "sig_env \<Rightarrow> string" where
  "secret_of env = actorSignatureSecret (se_direct env) (se_file env)"

definition actorSignatureRequired :: "sig_env \<Rightarrow> bool" where
  "actorSignatureRequired env = (secret_of env \<noteq> [])"

definition header_text :: "jsval \<Rightarrow> string" where
  "header_text v = js_trim (to_str (js_or v (Str [])))"

definition safe_integer :: "jsnum \<Rightarrow> bool" where
  "safe_integer n = (is_integer n \<and> \<bar>num_int n\<bar> \<le> 9007199254740991)"

definition verifyActorSignature ::
  "sig_env \<Rightarrow> jsval \<Rightarrow> sig_headers \<Rightarrow> string \<Rightarrow> bool \<Rightarrow> int \<Rightarrow> string list \<Rightarrow> policy_error + bool" where
  "verifyActorSignature env actorPayload headers route required tm names =
     (let secret = secret_of env in
      if secret = [] then (if required then Inl (''actor_signing_disabled'', 403) else Inr False)
      else let signature = header_text (h_signature headers); timestampRaw = header_text (h_timestamp headers) in
        if signature = [] \<or> timestampRaw = [] then Inl (''missing_actor_signature'', 403)
        else let n = string_to_num timestampRaw; timestamp = num_int n in
          if \<not> safe_integer n \<or> timestamp \<le> 0 then Inl (''invalid_actor_signature'', 403)
          else if boundedMaxSkewSeconds (se_skew env) < \<bar>tm - timestamp\<bar> then Inl (''stale_actor_signature'', 403)
          else if \<not> constantTimeHexEqual signature (signActorPayload (se_hmac env) actorPayload secret timestamp route names)
          then Inl (''invalid_actor_signature'', 403)
          else Inr True)"

text \<open>
  \<open>readJsonWithActorSignature\<close> on the parsed body: the payload is a copy of the actor with the action and
  the parameters of the body, when they are among the names; a configured secret removes the claim of
  guild ownership, which no signature covers.
\<close>

definition own_props :: "jsval \<Rightarrow> (string \<times> jsval) list" where
  "own_props v = (case v of
     Obj ps \<Rightarrow> ps
   | Arr vs \<Rightarrow> zip (map show_nat [0..<length vs]) vs
   | Str s \<Rightarrow> zip (map show_nat [0..<length s]) (map (\<lambda>c. Str [c]) s)
   | _ \<Rightarrow> [])"

definition add_field :: "string list \<Rightarrow> string \<Rightarrow> jsval \<Rightarrow> (string \<times> jsval) list \<Rightarrow> (string \<times> jsval) list" where
  "add_field names key body ps = (if key \<in> set names then om_set key (getp body key) ps else ps)"

definition actor_payload :: "jsval \<Rightarrow> string list \<Rightarrow> jsval" where
  "actor_payload body names = Obj (add_field names ''params'' body (add_field names ''action'' body (own_props (getp body ''actor''))))"

definition without_owner_claim :: "jsval \<Rightarrow> jsval" where
  "without_owner_claim body = (case getp body ''actor'' of
     Obj ps \<Rightarrow> obj_set ''actor'' (Obj (om_delete ''guildOwnerId'' ps)) body | _ \<Rightarrow> body)"

definition readJsonWithActorSignature ::
  "sig_env \<Rightarrow> jsval \<Rightarrow> sig_headers \<Rightarrow> string \<Rightarrow> bool \<Rightarrow> int \<Rightarrow> string list \<Rightarrow> policy_error + jsval" where
  "readJsonWithActorSignature env body headers route required tm names =
     (case verifyActorSignature env (actor_payload body names) headers route required tm names of
        Inl e \<Rightarrow> (if required \<or> actorSignatureRequired env then Inl e else Inr body)
      | Inr verified \<Rightarrow> Inr (if actorSignatureRequired env then without_owner_claim body else body))"

section \<open>The signed text determines what is signed\<close>

lemma hex_char_inj: "i < 16 \<Longrightarrow> j < 16 \<Longrightarrow> hex_char i = hex_char j \<Longrightarrow> i = j"
proof -
  have "list_all (\<lambda>i. list_all (\<lambda>j. hex_char i = hex_char j \<longrightarrow> i = j) [0..<16]) [0..<16]" by code_simp
  then show "i < 16 \<Longrightarrow> j < 16 \<Longrightarrow> hex_char i = hex_char j \<Longrightarrow> i = j" by (auto simp: list_all_iff)
qed

lemma code_inj: "code c = code d \<Longrightarrow> c = d"
  by (simp add: code_def)

lemma escape_cases:
  obtains (plain) "json_escape c = [c]" "c \<noteq> CHR 0x22" "c \<noteq> CHR 0x5C"
  | (short) x where "json_escape c = [CHR 0x5C, x]" "x \<noteq> CHR ''u''"
      "(x, code c) \<in> {(CHR 0x22, 34), (CHR 0x5C, 92), (CHR ''b'', 8), (CHR ''f'', 12), (CHR ''n'', 10), (CHR ''r'', 13), (CHR ''t'', 9)}"
  | (hexed) "json_escape c = [CHR 0x5C, CHR ''u'', CHR ''0'', CHR ''0'', hex_char (code c div 16), hex_char (code c mod 16)]" "code c < 32"
proof -
  have codes: "code (CHR 0x22) = 34" "code (CHR 0x5C) = 92" by code_simp+
  show ?thesis
    by (cases "c = CHR 0x22"; cases "c = CHR 0x5C"; cases "code c < 32"; cases "code c \<in> {8, 12, 10, 13, 9}")
      (use codes plain hexed short in \<open>auto simp: json_escape_def Let_def\<close>)
qed

lemma escape_prefix: "json_escape c @ x = json_escape d @ y \<Longrightarrow> c = d \<and> x = y"
proof (cases c rule: escape_cases)
  case plain
  then show "json_escape c @ x = json_escape d @ y \<Longrightarrow> c = d \<and> x = y" by (cases d rule: escape_cases) auto
next
  case (short a)
  then show "json_escape c @ x = json_escape d @ y \<Longrightarrow> c = d \<and> x = y" by (cases d rule: escape_cases) (auto intro: code_inj)
next
  case hexed
  assume eq: "json_escape c @ x = json_escape d @ y"
  show ?thesis
  proof (cases d rule: escape_cases)
    case h: hexed
    have "hex_char (code c div 16) = hex_char (code d div 16)" "hex_char (code c mod 16) = hex_char (code d mod 16)" "x = y"
      using eq hexed h by auto
    then have "code c div 16 = code d div 16" "code c mod 16 = code d mod 16"
      using hexed h by (auto intro: hex_char_inj)
    then have "code c = code d" by (metis div_mult_mod_eq)
    with \<open>x = y\<close> show ?thesis by (simp add: code_inj)
  qed (use eq hexed in auto)
qed

lemma escape_not_quote: "json_escape c @ x \<noteq> CHR 0x22 # y"
  by (cases c rule: escape_cases) auto

lemma quote_body_prefix:
  "concat (map json_escape s) @ CHR 0x22 # r = concat (map json_escape t) @ CHR 0x22 # r' \<Longrightarrow> s = t \<and> r = r'"
proof (induction s arbitrary: t)
  case Nil
  then show ?case using escape_not_quote by (cases t) (auto, metis)
next
  case (Cons c s)
  then obtain d t' where t: "t = d # t'" using escape_not_quote by (cases t) auto
  then have "c = d \<and> concat (map json_escape s) @ CHR 0x22 # r = concat (map json_escape t') @ CHR 0x22 # r'"
    using Cons.prems escape_prefix by simp
  then show ?case using Cons.IH t by blast
qed

lemma quote_prefix: "json_quote s @ r = json_quote t @ r' \<Longrightarrow> s = t \<and> r = r'"
  using quote_body_prefix [of s r t r'] by (simp add: json_quote_def)


lemma list_cases012:
  obtains (1) "xs = []" | (2) x where "xs = [x]" | (3) x y zs where "xs = x # y # zs"
  by (metis list.exhaust)

lemma quotes_prefix:
  "join_with '','' (map json_quote ss) @ CHR '']'' # r = join_with '','' (map json_quote ts) @ CHR '']'' # r' \<Longrightarrow> ss = ts \<and> r = r'"
proof (induction ss arbitrary: ts rule: induct_list012)
  case 1
  then show ?case by (cases ts rule: list_cases012) (auto simp: json_quote_def)
next
  case (2 s)
  then show ?case
  proof (cases ts rule: list_cases012)
    case (3 t t' ts')
    then have "json_quote s @ CHR '']'' # r = json_quote t @ '','' @ join_with '','' (map json_quote (t' # ts')) @ CHR '']'' # r'"
      using 2 by simp
    from quote_prefix [OF this] show ?thesis by simp
  qed (auto simp: json_quote_def dest: quote_prefix [unfolded json_quote_def, simplified])
next
  case (3 s s' ss)
  show ?case
  proof (cases ts rule: list_cases012)
    case 1
    then show ?thesis using 3(3) by (auto simp: json_quote_def)
  next
    case (2 t)
    then have "json_quote s @ '','' @ join_with '','' (map json_quote (s' # ss)) @ CHR '']'' # r = json_quote t @ CHR '']'' # r'"
      using 3(3) by simp
    from quote_prefix [OF this] show ?thesis by simp
  next
    case t: (3 t t' ts')
    have "json_quote s @ '','' @ join_with '','' (map json_quote (s' # ss)) @ CHR '']'' # r
        = json_quote t @ '','' @ join_with '','' (map json_quote (t' # ts')) @ CHR '']'' # r'"
      using 3(3) t by simp
    from quote_prefix [OF this] show ?thesis using 3(2) [of "t' # ts'"] t by simp
  qed
qed

definition plain_value :: "jsval \<Rightarrow> bool" where
  "plain_value v = ((\<exists>s. v = Str s) \<or> (\<exists>ss. v = Arr (map Str ss)))"

lemma text_of_strings: "canonicalizeValue (Arr (map Str ss)) = ''['' @ join_with '','' (map json_quote ss) @ '']''"
  by (simp add: comp_def)

lemma plain_prefix:
  assumes "plain_value v" and "plain_value w" and "canonicalizeValue v @ r = canonicalizeValue w @ r'"
  shows "v = w \<and> r = r'"
proof -
  have quote_hd: "json_quote s @ x \<noteq> CHR ''['' # y" for s x y by (simp add: json_quote_def)
  consider s t where "v = Str s" "w = Str t" | ss ts where "v = Arr (map Str ss)" "w = Arr (map Str ts)"
    | s ts where "v = Str s" "w = Arr (map Str ts)" | ss t where "v = Arr (map Str ss)" "w = Str t"
    using assms(1,2) by (auto simp: plain_value_def)
  then show ?thesis
  proof cases
    case 1
    then show ?thesis using assms(3) quote_prefix [of s r t r'] by simp
  next
    case 2
    then show ?thesis using assms(3) quotes_prefix [of ss r ts r'] by (simp add: text_of_strings del: canonicalizeValue.simps)
  next
    case 3
    then show ?thesis using assms(3) quote_hd [of s r] by (simp add: text_of_strings del: canonicalizeValue.simps(1,2))
  next
    case 4
    then show ?thesis using assms(3) quote_hd [of t r'] by (simp add: text_of_strings del: canonicalizeValue.simps(1,2)) metis
  qed
qed

text \<open>The fields before the last one carry strings or lists of strings.\<close>

lemma field_texts_determine:
  "join_with '','' (map (field_text p) (ns @ [m])) = join_with '','' (map (field_text q) (ns @ [m]))
   \<Longrightarrow> \<forall>n \<in> set ns. plain_value (canonical_field (getp p n)) \<and> plain_value (canonical_field (getp q n))
   \<Longrightarrow> (\<forall>n \<in> set ns. canonical_field (getp p n) = canonical_field (getp q n))
     \<and> canonicalizeValue (canonical_field (getp p m)) = canonicalizeValue (canonical_field (getp q m))"
proof (induction ns)
  case Nil
  then show ?case by (simp add: field_text_def)
next
  case (Cons n ns)
  let ?rest = "\<lambda>x. '','' @ join_with '','' (map (field_text x) (ns @ [m]))"
  have split: "join_with '','' (map (field_text x) ((n # ns) @ [m])) = field_text x n @ ?rest x" for x
    by (cases "map (field_text x) (ns @ [m])") auto
  have "canonicalizeValue (canonical_field (getp p n)) @ ?rest p = canonicalizeValue (canonical_field (getp q n)) @ ?rest q"
    using Cons.prems(1) unfolding split by (simp add: field_text_def)
  from plain_prefix [OF _ _ this] Cons.prems(2)
  have "canonical_field (getp p n) = canonical_field (getp q n) \<and> ?rest p = ?rest q" by simp
  then show ?case using Cons.IH Cons.prems(2) by simp
qed

definition flat_fields :: "jsval \<Rightarrow> string list \<Rightarrow> bool" where
  "flat_fields p names = list_all (\<lambda>n. case getp p n of Obj ps \<Rightarrow> False | _ \<Rightarrow> True) names"

lemma flat_plain: "flat_fields p names \<Longrightarrow> n \<in> set names \<Longrightarrow> plain_value (canonical_field (getp p n))"
proof -
  assume "flat_fields p names" and "n \<in> set names"
  then have "\<nexists>ps. getp p n = Obj ps" by (auto simp: flat_fields_def list_all_iff)
  then show "plain_value (canonical_field (getp p n))"
    by (cases "getp p n") (simp_all add: plain_value_def canonical_field_def js_nullish_def, blast+)
qed

lemma verified_signature:
  assumes "verifyActorSignature env p h route required tm names = Inr True"
  shows "\<exists>ts. header_text (h_timestamp h) \<noteq> [] \<and> ts = num_int (string_to_num (header_text (h_timestamp h)))
    \<and> \<bar>tm - ts\<bar> \<le> boundedMaxSkewSeconds (se_skew env) \<and> secret_of env \<noteq> []
    \<and> hex_buffer (header_text (h_signature h)) = hex_buffer (signActorPayload (se_hmac env) p (secret_of env) ts route names)"
  using assms by (auto simp: verifyActorSignature_def Let_def constantTimeHexEqual_def split: if_splits)

lemma before_dot: "r @ CHR ''.'' # x = r' @ CHR ''.'' # y \<Longrightarrow> CHR ''.'' \<notin> set r \<Longrightarrow> CHR ''.'' \<notin> set r' \<Longrightarrow> r = r' \<and> x = y"
proof (induction r arbitrary: r')
  case Nil
  then show ?case by (cases r') auto
next
  case (Cons c r)
  then show ?case by (cases r') auto
qed

lemma same_text:
  assumes "canonicalActorSignaturePayload p ts route (ns @ [m]) = canonicalActorSignaturePayload q ts route' (ns @ [m])"
    and "CHR ''.'' \<notin> set route" and "CHR ''.'' \<notin> set route'" and "flat_fields p ns" and "flat_fields q ns"
  shows "route = route' \<and> (\<forall>n \<in> set ns. canonical_field (getp p n) = canonical_field (getp q n))
    \<and> canonicalizeValue (canonical_field (getp p m)) = canonicalizeValue (canonical_field (getp q m))"
proof -
  have "route @ CHR ''.'' # ''{'' @ join_with '','' (map (field_text p) (ns @ [m])) @ ''}''
      = route' @ CHR ''.'' # ''{'' @ join_with '','' (map (field_text q) (ns @ [m])) @ ''}''"
    using assms(1) by (simp add: canonicalActorSignaturePayload_def)
  from before_dot [OF this assms(2,3)]
  have "route = route'" and "join_with '','' (map (field_text p) (ns @ [m])) = join_with '','' (map (field_text q) (ns @ [m]))" by simp_all
  then show ?thesis using field_texts_determine [of p ns m q] flat_plain [OF assms(4)] flat_plain [OF assms(5)] by simp
qed

definition header_timestamp :: "sig_headers \<Rightarrow> int" where
  "header_timestamp h = num_int (string_to_num (header_text (h_timestamp h)))"

definition no_collision :: "sig_env \<Rightarrow> string \<Rightarrow> string \<Rightarrow> bool" where
  "no_collision env x y =
     (hex_buffer (se_hmac env (secret_of env) x) = hex_buffer (se_hmac env (secret_of env) y) \<longrightarrow> x = y)"

lemma skew_bounds: "5 \<le> boundedMaxSkewSeconds v \<and> boundedMaxSkewSeconds v \<le> 300"
  by (simp add: boundedMaxSkewSeconds_def bounded_env_int_def)

lemma write_fields:
  "WRITE_BRIDGE_SIGNED_ACTOR_FIELDS =
     [''userId'', ''username'', ''roleIds'', ''guildId'', ''channelId'', ''roleSnapshotAt'', ''action''] @ [''params'']"
  "butlast WRITE_BRIDGE_SIGNED_ACTOR_FIELDS =
     [''userId'', ''username'', ''roleIds'', ''guildId'', ''channelId'', ''roleSnapshotAt'', ''action'']"
  by (simp_all add: WRITE_BRIDGE_SIGNED_ACTOR_FIELDS_def)

text \<open>
  C15. What a captured pair of signature headers is worth, for the fields the write bridge signs: if the same headers
  are accepted twice, both requests were made to the same route with the same user, name, roles in any order, guild,
  channel, role snapshot and action, each as its text, and with parameters of the same canonical text, and at most twice the allowed
  clock skew, never more than ten minutes, lies between them. This assumes that HMAC does not collide on the two
  signed texts, that the two routes have no dot, which separates the route from the fields in the signed text, and that
  the signed fields other than the parameters are no objects (\<open>flat_fields\<close>). Parameters with one canonical text may
  still differ in the order of their members; the routes of other bridges sign fewer fields.
\<close>

theorem signature_binds:
  assumes "verifyActorSignature env p h route required tm WRITE_BRIDGE_SIGNED_ACTOR_FIELDS = Inr True"
    and "verifyActorSignature env q h route' required' tm' WRITE_BRIDGE_SIGNED_ACTOR_FIELDS = Inr True"
    and "no_collision env (canonicalActorSignaturePayload p (header_timestamp h) route WRITE_BRIDGE_SIGNED_ACTOR_FIELDS)
       (canonicalActorSignaturePayload q (header_timestamp h) route' WRITE_BRIDGE_SIGNED_ACTOR_FIELDS)"
    and "CHR ''.'' \<notin> set route" and "CHR ''.'' \<notin> set route'"
    and "flat_fields p (butlast WRITE_BRIDGE_SIGNED_ACTOR_FIELDS)" and "flat_fields q (butlast WRITE_BRIDGE_SIGNED_ACTOR_FIELDS)"
  shows "route = route' \<and> \<bar>tm - tm'\<bar> \<le> 2 * boundedMaxSkewSeconds (se_skew env) \<and> \<bar>tm - tm'\<bar> \<le> 600
    \<and> (\<forall>n \<in> {''userId'', ''username'', ''roleIds'', ''guildId'', ''channelId'', ''roleSnapshotAt'', ''action''}.
         canonical_field (getp p n) = canonical_field (getp q n))
    \<and> canonicalizeValue (canonical_field (getp p ''params'')) = canonicalizeValue (canonical_field (getp q ''params''))"
proof -
  let ?text = "\<lambda>x r. canonicalActorSignaturePayload x (header_timestamp h) r WRITE_BRIDGE_SIGNED_ACTOR_FIELDS"
  have "hex_buffer (se_hmac env (secret_of env) (?text p route)) = hex_buffer (se_hmac env (secret_of env) (?text q route'))"
    using verified_signature [OF assms(1)] verified_signature [OF assms(2)] by (auto simp: signActorPayload_def header_timestamp_def)
  then have eq: "?text p route = ?text q route'" using assms(3) unfolding no_collision_def by blast
  note f = same_text [OF eq [unfolded write_fields(1)] assms(4,5) assms(6,7) [unfolded write_fields(2)]]
  have "\<bar>tm - tm'\<bar> \<le> 2 * boundedMaxSkewSeconds (se_skew env)"
    using verified_signature [OF assms(1)] verified_signature [OF assms(2)] by auto
  moreover have "\<bar>tm - tm'\<bar> \<le> 600" using calculation skew_bounds [of "se_skew env"] by linarith
  ultimately show ?thesis using f by simp
qed

text \<open>For the witness, a function that keeps the beginning of the message, and one payload in two orders of its roles.\<close>

definition sample_sig_env :: sig_env where
  "sample_sig_env = \<lparr>se_hmac = (\<lambda>secret msg. take 4 msg), se_direct = ''s3cret'', se_file = None, se_skew = Undef\<rparr>"

definition sample_payload :: "jsval list \<Rightarrow> jsval" where
  "sample_payload roles = Obj [(''userId'', Str ''7''), (''username'', Str ''ann''), (''roleIds'', Arr roles),
     (''guildId'', Str ''9''), (''channelId'', Str ''4''), (''roleSnapshotAt'', Str ''990''),
     (''action'', Str ''player.kick''), (''params'', Obj [(''playerId'', Str ''A'')])]"

definition sample_headers :: sig_headers where
  "sample_headers = \<lparr>h_signature = Str ''1000'', h_timestamp = Str ''1000''\<rparr>"

lemma show_1000: "show_int 1000 = ''1000''"
proof -
  have "digit_char 0 = CHR ''0''" "digit_char 1 = CHR ''1''" by code_simp+
  then show ?thesis by (simp add: show_int_def show_nat.simps)
qed

lemma sample_timestamp: "header_timestamp sample_headers = 1000" "safe_integer (string_to_num ''1000'')"
    "header_text (Str ''1000'') = ''1000''"
  by code_simp+

lemma sample_signature:
  "signActorPayload (\<lambda>secret msg. take 4 msg) p s 1000 route names = ''1000''"
  by (simp add: signActorPayload_def canonicalActorSignaturePayload_def show_1000)

lemma sample_verified: "tm \<in> {995, 1020} \<Longrightarrow> verifyActorSignature sample_sig_env p sample_headers route True tm names = Inr True"
proof -
  have "secret_of sample_sig_env = ''s3cret''" "boundedMaxSkewSeconds Undef = 30" "constantTimeHexEqual ''1000'' ''1000''" by code_simp+
  then show "tm \<in> {995, 1020} \<Longrightarrow> verifyActorSignature sample_sig_env p sample_headers route True tm names = Inr True"
    using sample_timestamp by (auto simp: verifyActorSignature_def Let_def sample_headers_def header_timestamp_def sample_sig_env_def sample_signature)
qed

theorem signature_binds_witness:
  "\<exists>p q. p \<noteq> q \<and> verifyActorSignature sample_sig_env p sample_headers ''/w'' True 995 WRITE_BRIDGE_SIGNED_ACTOR_FIELDS = Inr True
     \<and> verifyActorSignature sample_sig_env q sample_headers ''/w'' True 1020 WRITE_BRIDGE_SIGNED_ACTOR_FIELDS = Inr True
     \<and> canonical_field (getp p ''roleIds'') = canonical_field (getp q ''roleIds'')"
proof -
  let ?p = "sample_payload [Str ''2'', Str ''1'']" and ?q = "sample_payload [Str ''1'', Str ''2'']"
  have "canonical_field (getp ?p n) = canonical_field (getp ?q n)" for n
    by (simp add: sample_payload_def canonical_field_def)
  then have "field_text ?p = field_text ?q" by (auto simp: field_text_def fun_eq_iff)
  then have "no_collision sample_sig_env
      (canonicalActorSignaturePayload ?p (header_timestamp sample_headers) ''/w'' WRITE_BRIDGE_SIGNED_ACTOR_FIELDS)
      (canonicalActorSignaturePayload ?q (header_timestamp sample_headers) ''/w'' WRITE_BRIDGE_SIGNED_ACTOR_FIELDS)"
    by (simp add: no_collision_def canonicalActorSignaturePayload_def)
  moreover have "flat_fields ?p (butlast WRITE_BRIDGE_SIGNED_ACTOR_FIELDS)" "flat_fields ?q (butlast WRITE_BRIDGE_SIGNED_ACTOR_FIELDS)"
    by code_simp+
  ultimately have "canonical_field (getp ?p ''roleIds'') = canonical_field (getp ?q ''roleIds'')"
    using signature_binds [of sample_sig_env ?p sample_headers "''/w''" True 995 ?q "''/w''" True 1020] sample_verified by simp
  then show ?thesis using sample_verified [of 995] sample_verified [of 1020]
    by (intro exI [of _ ?p] exI [of _ ?q]) (simp add: sample_payload_def)
qed

end
