(* ===== verification/WriteRoutes.thy ===== *)
theory WriteRoutes
  imports Actions DiscordPolicy
begin

text \<open>
  The table of write actions of the Discord bridge and the tiers they need:
  \<open>console/api/src/integrations/discord/writeActionRoutes.js\<close> and \<open>writeActionMinTier.js\<close>. A path
  template of the source is modelled as the list of its pieces, from which both the path and, as in the
  source, the pattern that recognises it are made. The override for tests and the check of confirmation
  phrases against the care-package module are not modelled. Exceptions are \<open>None\<close> or \<open>Inl\<close>.
\<close>

section \<open>Path templates\<close>

datatype path_part = PathText string | PlayerSeg | BaseSeg | GuildSeg

definition is_alnum :: "char \<Rightarrow> bool" where
  "is_alnum c = (is_digit c \<or> 65 \<le> code c \<and> code c \<le> 90 \<or> 97 \<le> code c \<and> code c \<le> 122)"

definition player_id_char :: "char \<Rightarrow> bool" where
  "player_id_char c = (is_alnum c \<or> c \<in> set ''#_:-'')"

definition validatePlayerId :: "jsval \<Rightarrow> string option" where
  "validatePlayerId v = (case v of
     Str s \<Rightarrow> if s \<noteq> [] \<and> length s \<le> 128 \<and> list_all player_id_char s then Some s else None | _ \<Rightarrow> None)"

definition numeric_id :: "string \<Rightarrow> bool" where
  "numeric_id s = (s \<noteq> [] \<and> hd s \<noteq> CHR ''0'' \<and> list_all is_digit s)"

definition validateBaseId :: "jsval \<Rightarrow> string option" where
  "validateBaseId v = (case v of Str s \<Rightarrow> if numeric_id s then Some s else None | _ \<Rightarrow> None)"

definition validateGuildId :: "jsval \<Rightarrow> string option" where
  "validateGuildId v = (case v of
     Str s \<Rightarrow> if s \<noteq> [] \<and> length s \<le> 128 \<and> list_all is_alnum s then Some s else None | _ \<Rightarrow> None)"

definition upper_hex :: "nat \<Rightarrow> char" where
  "upper_hex n = (if n < 10 then char_of (48 + n) else char_of (55 + n))"

definition percent :: "nat \<Rightarrow> string" where
  "percent n = [CHR ''%'', upper_hex (n div 16), upper_hex (n mod 16)]"

text \<open>One code unit of \<open>encodeURIComponent\<close>, over its UTF-8 bytes.\<close>

definition encode_char :: "char \<Rightarrow> string" where
  "encode_char c = (let k = code c in
     if is_alnum c \<or> k \<in> {45, 95, 46, 33, 126, 42, 39, 40, 41} then [c]
     else if k < 128 then percent k else percent (192 + k div 64) @ percent (128 + k mod 64))"

definition encodeURIComponent :: "string \<Rightarrow> string" where
  "encodeURIComponent s = concat (map encode_char s)"

fun part_text :: "jsval \<Rightarrow> path_part \<Rightarrow> string option" where
  "part_text p (PathText s) = Some s"
| "part_text p PlayerSeg = map_option encodeURIComponent (validatePlayerId (getp p ''playerId''))"
| "part_text p BaseSeg = map_option encodeURIComponent (validateBaseId (getp p ''baseId''))"
| "part_text p GuildSeg = map_option encodeURIComponent (validateGuildId (getp p ''guildId''))"

fun build_path :: "path_part list \<Rightarrow> jsval \<Rightarrow> string option" where
  "build_path [] p = Some []"
| "build_path (part # parts) p = (case part_text p part of None \<Rightarrow> None
     | Some s \<Rightarrow> map_option (\<lambda>r. s @ r) (build_path parts p))"

section \<open>The table\<close>

record write_entry =
  e_method :: string
  e_path :: "path_part list"
  e_confirmPhrase :: "string option"
  e_policyAction :: string
  e_auditAction :: "string option"
  e_dual :: bool

type_synonym write_table = "(string \<times> write_entry) list"

definition write_route ::
  "string \<Rightarrow> path_part list \<Rightarrow> string option \<Rightarrow> string \<Rightarrow> string option \<Rightarrow> write_entry" where
  "write_route m path phrase action auditAction = \<lparr>e_method = m, e_path = path, e_confirmPhrase = phrase,
     e_policyAction = action, e_auditAction = auditAction, e_dual = False\<rparr>"

definition WRITE_ACTION_ROUTES :: write_table where
  "WRITE_ACTION_ROUTES = [
    (''player.kick'', write_route ''POST'' [PathText ''/api/players/'', PlayerSeg, PathText ''/kick''] None ''players:moderate'' (Some ''task.adminKick'')),
    (''player.ban'', write_route ''POST'' [PathText ''/api/players/'', PlayerSeg, PathText ''/ban''] (Some ''BAN PLAYER'') ''players:moderate'' (Some ''players.ban'')),
    (''player.unban'', write_route ''DELETE'' [PathText ''/api/players/'', PlayerSeg, PathText ''/ban''] None ''players:moderate'' (Some ''players.unban'')),
    (''player.warn'', write_route ''POST'' [PathText ''/api/admin/map-chat''] None ''admin:map-chat'' (Some ''admin.map-chat'')),
    (''player.give-item'', write_route ''POST'' [PathText ''/api/players/'', PlayerSeg, PathText ''/give-item''] None ''players:give-item'' None),
    (''player.clear-backpack'', write_route ''POST'' [PathText ''/api/players/'', PlayerSeg, PathText ''/clean-inventory''] (Some ''CLEAN INVENTORY'') ''players:reset'' (Some ''task.adminCleanInventory'')),
    (''player.fill-water'', write_route ''POST'' [PathText ''/api/players/'', PlayerSeg, PathText ''/refill-water''] None ''players:repair'' (Some ''task.adminRefillWater'')),
    (''base.refill-generators'', write_route ''POST'' [PathText ''/api/bases/'', BaseSeg, PathText ''/refill-generators''] None ''bases:mutate'' (Some ''bases.refill-generators'')),
    (''base.refill-water'', write_route ''POST'' [PathText ''/api/bases/'', BaseSeg, PathText ''/refill-water''] None ''bases:mutate'' (Some ''bases.refill-water'')),
    (''server.restart'', write_route ''POST'' [PathText ''/api/server/restart''] None ''server:restart'' None),
    (''server.stop'', write_route ''POST'' [PathText ''/api/server/stop''] (Some ''STOP SERVER'') ''server:stop'' (Some ''task.stop'')),
    (''server.start'', write_route ''POST'' [PathText ''/api/server/start''] None ''server:start'' (Some ''task.start'')),
    (''server.restart-service'', write_route ''POST'' [PathText ''/api/server/restart-service''] None ''server:restart-service'' None),
    (''map.spawn'', write_route ''POST'' [PathText ''/api/maps/spawn''] (Some ''SPAWN MAP'') ''maps:spawn'' (Some ''task.mapsSpawn'')),
    (''map.despawn'', write_route ''POST'' [PathText ''/api/maps/despawn''] (Some ''DESPAWN MAP'') ''maps:despawn'' (Some ''task.mapsDespawn'')),
    (''map.respawn'', write_route ''POST'' [PathText ''/api/maps/respawn''] (Some ''RESTART MAP'') ''maps:restart'' None),
    (''map.teleport'', write_route ''POST'' [PathText ''/api/map/teleport-player''] None ''maps:teleport'' None),
    (''carepackage.grant'', write_route ''POST'' [PathText ''/api/care-package/grant/'', PlayerSeg] (Some ''GRANT CARE PACKAGE'') ''carepackage:grant'' (Some ''care-package.grant'')),
    (''carepackage.grant-all'', write_route ''POST'' [PathText ''/api/care-package/grant-eligible''] (Some ''GRANT CARE PACKAGE TO ELIGIBLE PLAYERS'') ''carepackage:grant-all'' (Some ''care-package.grant-eligible'')),
    (''carepackage.enable'', write_route ''POST'' [PathText ''/api/care-package/enable''] (Some ''ENABLE CARE PACKAGE'') ''carepackage:write-config'' (Some ''care-package.enable'')),
    (''carepackage.disable'', write_route ''POST'' [PathText ''/api/care-package/disable''] (Some ''DISABLE CARE PACKAGE'') ''carepackage:write-config'' (Some ''care-package.disable'')),
    (''carepackage.scan'', write_route ''POST'' [PathText ''/api/care-package/run''] (Some ''RUN CARE PACKAGE SCAN'') ''carepackage:scan'' (Some ''care-package.run'')),
    (''carepackage.history-clear'', write_route ''POST'' [PathText ''/api/care-package/history/clear''] (Some ''CLEAR GRANT HISTORY'') ''carepackage:clear-history'' (Some ''care-package.history-clear'')),
    (''guild.add'', write_route ''POST'' [PathText ''/api/guilds/'', GuildSeg, PathText ''/members''] None ''guilds:membership'' (Some ''guilds.add-member'')),
    (''guild.remove'', write_route ''DELETE'' [PathText ''/api/guilds/'', GuildSeg, PathText ''/members/'', PlayerSeg] None ''guilds:membership'' (Some ''guilds.remove-member'')),
    (''backup.create'', write_route ''POST'' [PathText ''/api/backups/create''] None ''backups:create'' (Some ''task.backupCreate'')),
    (''updates.apply-game'', write_route ''POST'' [PathText ''/api/updates/apply-game''] None ''updates:apply'' (Some ''task.updateApply'')),
    (''updates.fix-steamcmd'', write_route ''POST'' [PathText ''/api/updates/fix-steamcmd''] None ''updates:fix'' (Some ''task.updateFixSteamcmd''))]"

definition WRITE_ACTION_MIN_TIER :: "(string \<times> string) list" where
  "WRITE_ACTION_MIN_TIER = [
    (''player.kick'', ''admin''),
    (''player.ban'', ''admin''),
    (''player.unban'', ''admin''),
    (''player.warn'', ''moderator''),
    (''player.give-item'', ''owner''),
    (''player.clear-backpack'', ''owner''),
    (''player.fill-water'', ''admin''),
    (''base.refill-generators'', ''admin''),
    (''base.refill-water'', ''admin''),
    (''server.restart'', ''owner''),
    (''server.stop'', ''owner''),
    (''server.start'', ''admin''),
    (''server.restart-service'', ''admin''),
    (''map.spawn'', ''admin''),
    (''map.despawn'', ''admin''),
    (''map.respawn'', ''admin''),
    (''map.teleport'', ''admin''),
    (''carepackage.grant'', ''admin''),
    (''carepackage.grant-all'', ''owner''),
    (''carepackage.enable'', ''admin''),
    (''carepackage.disable'', ''admin''),
    (''carepackage.scan'', ''admin''),
    (''carepackage.history-clear'', ''owner''),
    (''guild.add'', ''admin''),
    (''guild.remove'', ''admin''),
    (''backup.create'', ''owner''),
    (''updates.apply-game'', ''owner''),
    (''updates.fix-steamcmd'', ''owner'')]"

section \<open>Resolution and tiers\<close>

record resolved_route =
  v_method :: string
  v_path :: string
  v_confirmPhrase :: "string option"
  v_policyAction :: string
  v_dual :: bool

text \<open>\<open>Inl ()\<close> is an exception of a path template, \<open>Inr None\<close> an unknown action.\<close>

definition resolveWriteActionRoute :: "write_table \<Rightarrow> string \<Rightarrow> jsval \<Rightarrow> unit + resolved_route option" where
  "resolveWriteActionRoute table action params = (case map_of table action of
     None \<Rightarrow> Inr None
   | Some entry \<Rightarrow> (case build_path (e_path entry) (js_or params (Obj [])) of
       None \<Rightarrow> Inl ()
     | Some path \<Rightarrow> Inr (Some \<lparr>v_method = e_method entry, v_path = path, v_confirmPhrase = e_confirmPhrase entry,
         v_policyAction = e_policyAction entry, v_dual = e_dual entry\<rparr>)))"

definition WRITE_BRIDGE_TIER_ORDER :: "string list" where
  "WRITE_BRIDGE_TIER_ORDER = dropWhile (\<lambda>t. t \<noteq> ''moderator'') DISCORD_ROLE_TIERS"

definition TIER_RANK :: "(string \<times> nat) list" where
  "TIER_RANK = zip WRITE_BRIDGE_TIER_ORDER [0..<length WRITE_BRIDGE_TIER_ORDER]"

text \<open>\<open>None\<close> is an exception; a comparison with \<open>undefined\<close> is false.\<close>

definition meetsMinTier :: "string \<Rightarrow> string \<Rightarrow> bool option" where
  "meetsMinTier actorTier action = (case map_of WRITE_ACTION_MIN_TIER action of
     None \<Rightarrow> None
   | Some least \<Rightarrow> Some (case (map_of TIER_RANK actorTier, map_of TIER_RANK least) of
       (Some a, Some b) \<Rightarrow> b \<le> a | _ \<Rightarrow> False))"

section \<open>Recognising a target\<close>

text \<open>The regular expressions made from the templates: \<open>[^/]+\<close> for player and guild ids, \<open>[1-9][0-9]*\<close> for bases.\<close>

fun part_ok :: "path_part \<Rightarrow> string \<Rightarrow> bool" where
  "part_ok (PathText t) s = (s = t)"
| "part_ok PlayerSeg s = (s \<noteq> [] \<and> CHR ''/'' \<notin> set s)"
| "part_ok GuildSeg s = (s \<noteq> [] \<and> CHR ''/'' \<notin> set s)"
| "part_ok BaseSeg s = numeric_id s"

fun pattern_matches :: "path_part list \<Rightarrow> string \<Rightarrow> bool" where
  "pattern_matches [] s = (s = [])"
| "pattern_matches (part # parts) s =
     list_ex (\<lambda>n. part_ok part (take n s) \<and> pattern_matches parts (drop n s)) [0..<length s + 1]"

fun contains_text :: "string \<Rightarrow> string \<Rightarrow> bool" where
  "contains_text t [] = (t = [])"
| "contains_text t (c # s) = (starts_with (c # s) t \<or> contains_text t s)"

definition matchesWriteActionTarget :: "write_table \<Rightarrow> string \<Rightarrow> string \<Rightarrow> string \<Rightarrow> bool" where
  "matchesWriteActionTarget table action meth path =
     (\<not> contains_text ''..'' path \<and> (case map_of table action of None \<Rightarrow> False
        | Some entry \<Rightarrow> meth = e_method entry \<and> pattern_matches (e_path entry) path))"

section \<open>The check at startup\<close>

definition REPRESENTATIVE_PARAMS :: jsval where
  "REPRESENTATIVE_PARAMS = Obj [(''playerId'', Str ''Server#4242''), (''baseId'', Str ''1''), (''guildId'', Str ''1'')]"

datatype route_problem = NoMinTier | PathThrew | NoRealRoute | WrongAction

definition check_route :: "string \<times> write_entry \<Rightarrow> route_problem list" where
  "check_route ae = (case ae of (action, entry) \<Rightarrow>
     (if map_of WRITE_ACTION_MIN_TIER action = None then [NoMinTier] else [])
     @ (case build_path (e_path entry) REPRESENTATIVE_PARAMS of
          None \<Rightarrow> [PathThrew]
        | Some path \<Rightarrow> (case actionForRoute path (e_method entry) of
            None \<Rightarrow> [NoRealRoute]
          | Some found \<Rightarrow> (if e_policyAction entry \<noteq> [] \<and> found \<noteq> e_policyAction entry then [WrongAction] else []))))"

definition selfCheckWriteActionRoutes :: "write_table \<Rightarrow> route_problem list" where
  "selfCheckWriteActionRoutes table = concat (map check_route table)"

section \<open>Every template leads to a listed route\<close>

lemma exact_None:
  assumes "list_all (\<lambda>(k, _). \<not> (starts_with k pre \<and> ends_with k suf)) ROUTE_ACTIONS"
  shows "map_of ROUTE_ACTIONS (pre @ w @ suf) = None"
proof (rule ccontr)
  assume "map_of ROUTE_ACTIONS (pre @ w @ suf) \<noteq> None"
  then obtain a where "(pre @ w @ suf, a) \<in> set ROUTE_ACTIONS" by (auto dest: map_of_SomeD)
  moreover have "starts_with (pre @ w @ suf) pre" by (simp add: starts_with_iff)
  moreover have "ends_with (pre @ w @ suf) suf" unfolding ends_with_iff by (intro exI [of _ "pre @ w"]) simp
  ultimately show False using assms by (auto simp: list_all_iff)
qed

lemma segments3:
  assumes "CHR ''/'' \<notin> set a" and "CHR ''/'' \<notin> set w" and "CHR ''/'' \<notin> set b"
  shows "path_segments (''/api/'' @ a @ ''/'' @ w @ ''/'' @ b) = [[], ''api'', a, w, b]"
proof -
  have "''/api/'' @ a @ ''/'' @ w @ ''/'' @ b
      = [] @ CHR ''/'' # ''api'' @ CHR ''/'' # a @ CHR ''/'' # w @ CHR ''/'' # b" by simp
  then show ?thesis
    using assms path_segments_cons [of "[]"] path_segments_cons [of "''api''"] by (simp add: path_segments_cons path_segments_word)
qed

lemma segments4:
  assumes "CHR ''/'' \<notin> set a" and "CHR ''/'' \<notin> set w" and "CHR ''/'' \<notin> set b" and "CHR ''/'' \<notin> set v"
  shows "path_segments (''/api/'' @ a @ ''/'' @ w @ ''/'' @ b @ ''/'' @ v) = [[], ''api'', a, w, b, v]"
proof -
  have "''/api/'' @ a @ ''/'' @ w @ ''/'' @ b @ ''/'' @ v
      = [] @ CHR ''/'' # ''api'' @ CHR ''/'' # a @ CHR ''/'' # w @ CHR ''/'' # b @ CHR ''/'' # v" by simp
  then show ?thesis
    using assms path_segments_cons [of "[]"] path_segments_cons [of "''api''"] by (simp add: path_segments_cons path_segments_word)
qed

text \<open>The first pattern that fits the segments of a path, by evaluation except for the id.\<close>

definition first_pattern :: "string \<Rightarrow> string list \<Rightarrow> string option" where
  "first_pattern m ss = map_option (snd \<circ> snd)
     (find (\<lambda>(m', pat, action). m = m' \<and> match_segs pat ss) REGEX_ACTIONS_BY_METHOD_PATTERN)"

lemma first_pattern_pick: "first_pattern m ss = pick_pattern m ss REGEX_ACTIONS_BY_METHOD_PATTERN"
  by (simp only: first_pattern_def pick_find)

lemma pattern_tier_segments: "path_segments path = ss \<Longrightarrow> pattern_tier m path = first_pattern m ss"
  by (simp add: pattern_tier_def pattern_test_def first_pattern_def)

lemma id_patterns:
  assumes "w \<noteq> []"
  shows "first_pattern ''POST'' [[], ''api'', ''players'', w, ''kick''] = Some ''players:moderate''"
    "first_pattern ''POST'' [[], ''api'', ''players'', w, ''ban''] = Some ''players:moderate''"
    "first_pattern ''DELETE'' [[], ''api'', ''players'', w, ''ban''] = Some ''players:moderate''"
    "first_pattern ''POST'' [[], ''api'', ''players'', w, ''give-item''] = Some ''players:give-item''"
    "first_pattern ''POST'' [[], ''api'', ''players'', w, ''clean-inventory''] = Some ''players:reset''"
    "first_pattern ''POST'' [[], ''api'', ''players'', w, ''refill-water''] = Some ''players:repair''"
    "first_pattern ''POST'' [[], ''api'', ''care-package'', ''grant'', w] = None"
  using assms by (simp_all add: first_pattern_pick pattern_search cong: frozen)

lemma more_id_patterns:
  assumes "w \<noteq> []" and "v \<noteq> []"
  shows "first_pattern ''POST'' [[], ''api'', ''guilds'', w, ''members''] = Some ''guilds:membership''"
    "first_pattern ''DELETE'' [[], ''api'', ''guilds'', w, ''members'', v] = Some ''guilds:membership''"
    "first_pattern ''POST'' [[], ''api'', ''bases'', w, ''refill-generators''] = None"
    "first_pattern ''POST'' [[], ''api'', ''bases'', w, ''refill-water''] = None"
  using assms by (simp_all add: first_pattern_pick pattern_search cong: frozen)

lemma upper_methods: "js_upper ''POST'' = ''POST''" "js_upper ''DELETE'' = ''DELETE''"
  by code_simp+

lemma route_by_pattern:
  assumes "m = ''POST'' \<or> m = ''DELETE''" and "path \<noteq> []" and "map_of ROUTE_ACTIONS (m @ '' '' @ path) = None"
    and "path_segments path = ss" and "first_pattern m ss = Some a"
  shows "actionForRoute path m = Some a"
  using assms upper_methods by (auto simp: actionForRoute_def Let_def pattern_tier_segments [OF assms(4)])

lemma route_by_later_tier:
  assumes "path \<noteq> []" and "map_of ROUTE_ACTIONS (''POST '' @ path) = None" and "path_segments path = ss" and "first_pattern ''POST'' ss = None"
  shows "actionForRoute path ''POST'' = first_some [method_tier ''POST'' path, prefix_tier path]"
  using assms upper_methods by (simp add: actionForRoute_def Let_def pattern_tier_segments [OF assms(3)])

text \<open>No listed route of these shapes is found before the pattern.\<close>

definition shapes :: "(string \<times> string) list" where
  "shapes = [(''POST /api/players/'', ''/kick''), (''POST /api/players/'', ''/ban''), (''DELETE /api/players/'', ''/ban''),
     (''POST /api/players/'', ''/give-item''), (''POST /api/players/'', ''/clean-inventory''), (''POST /api/players/'', ''/refill-water''),
     (''POST /api/bases/'', ''/refill-generators''), (''POST /api/bases/'', ''/refill-water''), (''POST /api/care-package/grant/'', ''''),
     (''POST /api/guilds/'', ''/members''), (''DELETE /api/guilds/'', '''')]"

lemma no_exact_players:
  "list_all (\<lambda>(k, _). if starts_with k ''POST /api/players/'' then k \<in> set [''POST /api/players/list-settings'',
      ''POST /api/players/kick-all-online''] else True) ROUTE_ACTIONS"
  unfolding list_all_routes chunk_all by (simp add: route_scan cong: frozen)

lemma no_exact_others:
  "list_all (\<lambda>(k, _). if starts_with k ''POST /api/bases/'' then k = ''POST /api/bases/auto-refill/settings'' else True) ROUTE_ACTIONS"
  "list_all (\<lambda>(k, _). \<not> starts_with k ''DELETE /api/players/'') ROUTE_ACTIONS"
  "list_all (\<lambda>(k, _). \<not> starts_with k ''POST /api/care-package/grant/'') ROUTE_ACTIONS"
  "list_all (\<lambda>(k, _). \<not> starts_with k ''POST /api/guilds/'') ROUTE_ACTIONS"
  "list_all (\<lambda>(k, _). \<not> starts_with k ''DELETE /api/guilds/'') ROUTE_ACTIONS"
  unfolding list_all_routes chunk_all by (simp_all add: route_scan cong: frozen)

lemma no_exact_shape:
  assumes "(pre, suf) \<in> set shapes"
  shows "list_all (\<lambda>(k, _). \<not> (starts_with k pre \<and> ends_with k suf)) ROUTE_ACTIONS"
proof -
  have "\<not> ends_with k suf" if "(k, a) \<in> set ROUTE_ACTIONS" "starts_with k pre" for k a
    using assms that no_exact_players no_exact_others
    by (fastforce simp: shapes_def list_all_iff ends_with_def)
  then show ?thesis by (auto simp: list_all_iff)
qed

lemma exact_shape: "(pre, suf) \<in> set shapes \<Longrightarrow> map_of ROUTE_ACTIONS (pre @ w @ suf) = None"
  by (rule exact_None [OF no_exact_shape])

lemma player_route_action:
  assumes "w \<noteq> []" and "CHR ''/'' \<notin> set w" and "CHR ''/'' \<notin> set verb" and "m = ''POST'' \<or> m = ''DELETE''"
    and "(m @ '' /api/players/'', ''/'' @ verb) \<in> set shapes" and "first_pattern m [[], ''api'', ''players'', w, verb] = Some a"
  shows "actionForRoute (''/api/players/'' @ w @ ''/'' @ verb) m = Some a"
proof (rule route_by_pattern [OF assms(4) _ _ _ assms(6)])
  show "map_of ROUTE_ACTIONS (m @ '' '' @ ''/api/players/'' @ w @ ''/'' @ verb) = None"
    using exact_shape [OF assms(5), of w] by simp
  show "path_segments (''/api/players/'' @ w @ ''/'' @ verb) = [[], ''api'', ''players'', w, verb]"
    using segments3 [of "''players''" w verb] assms(2,3) by simp
qed simp

lemma player_routes:
  assumes "w \<noteq> []" and "CHR ''/'' \<notin> set w"
  shows "actionForRoute (''/api/players/'' @ w @ ''/kick'') ''POST'' = Some ''players:moderate''"
    "actionForRoute (''/api/players/'' @ w @ ''/ban'') ''POST'' = Some ''players:moderate''"
    "actionForRoute (''/api/players/'' @ w @ ''/ban'') ''DELETE'' = Some ''players:moderate''"
    "actionForRoute (''/api/players/'' @ w @ ''/give-item'') ''POST'' = Some ''players:give-item''"
    "actionForRoute (''/api/players/'' @ w @ ''/clean-inventory'') ''POST'' = Some ''players:reset''"
    "actionForRoute (''/api/players/'' @ w @ ''/refill-water'') ''POST'' = Some ''players:repair''"
  using player_route_action [OF assms, of "''kick''" "''POST''"] player_route_action [OF assms, of "''ban''" "''POST''"]
    player_route_action [OF assms, of "''ban''" "''DELETE''"] player_route_action [OF assms, of "''give-item''" "''POST''"]
    player_route_action [OF assms, of "''clean-inventory''" "''POST''"] player_route_action [OF assms, of "''refill-water''" "''POST''"]
    id_patterns [OF assms(1)]
  by (simp_all add: shapes_def)

lemma later_tiers:
  "method_tier ''POST'' (''/api/bases/'' @ r) = Some ''bases:mutate''"
  "method_tier ''POST'' (''/api/care-package/grant/'' @ r) = None"
  "prefix_tier (''/api/care-package/grant/'' @ r) = Some ''carepackage:grant''"
  by (simp_all add: method_tier_def prefix_tier_def REGEX_ACTIONS_BY_METHOD_def REGEX_ACTIONS_def key_parts_def starts_with_def)

lemma base_route_action:
  assumes "w \<noteq> []" and "CHR ''/'' \<notin> set w" and "verb = ''refill-generators'' \<or> verb = ''refill-water''"
  shows "actionForRoute (''/api/bases/'' @ w @ ''/'' @ verb) ''POST'' = Some ''bases:mutate''"
proof -
  have "path_segments (''/api/bases/'' @ w @ ''/'' @ verb) = [[], ''api'', ''bases'', w, verb]"
    using segments3 [of "''bases''" w verb] assms(2,3) by auto
  moreover have "map_of ROUTE_ACTIONS (''POST /api/bases/'' @ w @ ''/'' @ verb) = None"
    using exact_shape [of "''POST /api/bases/''" "''/'' @ verb" w] assms(3) by (auto simp: shapes_def)
  moreover have "first_pattern ''POST'' [[], ''api'', ''bases'', w, verb] = None"
    using more_id_patterns(3,4) [OF assms(1,1)] assms(3) by auto
  ultimately show ?thesis
    using route_by_later_tier [of "''/api/bases/'' @ w @ ''/'' @ verb"] later_tiers(1) [of "w @ ''/'' @ verb"] by simp
qed

lemma care_package_route:
  assumes "w \<noteq> []" and "CHR ''/'' \<notin> set w"
  shows "actionForRoute (''/api/care-package/grant/'' @ w) ''POST'' = Some ''carepackage:grant''"
proof -
  have "''/api/care-package/grant/'' @ w = [] @ CHR ''/'' # ''api'' @ CHR ''/'' # ''care-package'' @ CHR ''/'' # ''grant'' @ CHR ''/'' # w"
    by simp
  then have "path_segments (''/api/care-package/grant/'' @ w) = [[], ''api'', ''care-package'', ''grant'', w]"
    using assms(2) path_segments_cons [of "[]"] path_segments_cons [of "''api''"] path_segments_cons [of "''care-package''"]
      path_segments_cons [of "''grant''"] by (simp add: path_segments_word)
  moreover have "map_of ROUTE_ACTIONS (''POST /api/care-package/grant/'' @ w) = None"
    using exact_shape [of "''POST /api/care-package/grant/''" "''''" w] by (simp add: shapes_def)
  ultimately show ?thesis
    using route_by_later_tier [of "''/api/care-package/grant/'' @ w"] id_patterns(7) [OF assms(1)] later_tiers(2,3) [of w] by simp
qed

lemma guild_routes:
  assumes "w \<noteq> []" and "CHR ''/'' \<notin> set w" and "v \<noteq> []" and "CHR ''/'' \<notin> set v"
  shows "actionForRoute (''/api/guilds/'' @ w @ ''/members'') ''POST'' = Some ''guilds:membership''"
    "actionForRoute (''/api/guilds/'' @ w @ ''/members/'' @ v) ''DELETE'' = Some ''guilds:membership''"
proof -
  have "map_of ROUTE_ACTIONS (''POST /api/guilds/'' @ w @ ''/members'') = None"
    using exact_shape [of "''POST /api/guilds/''" "''/members''" w] by (simp add: shapes_def)
  then show "actionForRoute (''/api/guilds/'' @ w @ ''/members'') ''POST'' = Some ''guilds:membership''"
    using more_id_patterns(1) [OF assms(1,3)] segments3 [of "''guilds''" w "''members''"] assms(2)
    by (intro route_by_pattern [where ss = "[[], ''api'', ''guilds'', w, ''members'']"]) simp_all
  have "map_of ROUTE_ACTIONS (''DELETE /api/guilds/'' @ w @ ''/members/'' @ v) = None"
    using exact_shape [of "''DELETE /api/guilds/''" "''''" "w @ ''/members/'' @ v"] by (simp add: shapes_def)
  then show "actionForRoute (''/api/guilds/'' @ w @ ''/members/'' @ v) ''DELETE'' = Some ''guilds:membership''"
    using more_id_patterns(2) [OF assms(1,3)] segments4 [of "''guilds''" w "''members''" v] assms(2,4)
    by (intro route_by_pattern [where ss = "[[], ''api'', ''guilds'', w, ''members'', v]"]) simp_all
qed

definition static_paths :: "(string \<times> string \<times> string) list" where
  "static_paths = [(''POST'', ''/api/admin/map-chat'', ''admin:map-chat''), (''POST'', ''/api/server/restart'', ''server:restart''),
     (''POST'', ''/api/server/stop'', ''server:stop''), (''POST'', ''/api/server/start'', ''server:start''),
     (''POST'', ''/api/server/restart-service'', ''server:restart-service''), (''POST'', ''/api/maps/spawn'', ''maps:spawn''),
     (''POST'', ''/api/maps/despawn'', ''maps:despawn''), (''POST'', ''/api/maps/respawn'', ''maps:restart''),
     (''POST'', ''/api/map/teleport-player'', ''maps:teleport''), (''POST'', ''/api/care-package/grant-eligible'', ''carepackage:grant-all''),
     (''POST'', ''/api/care-package/enable'', ''carepackage:write-config''), (''POST'', ''/api/care-package/disable'', ''carepackage:write-config''),
     (''POST'', ''/api/care-package/run'', ''carepackage:scan''), (''POST'', ''/api/care-package/history/clear'', ''carepackage:clear-history''),
     (''POST'', ''/api/backups/create'', ''backups:create''), (''POST'', ''/api/updates/apply-game'', ''updates:apply''),
     (''POST'', ''/api/updates/fix-steamcmd'', ''updates:fix'')]"

lemma static_exact:
  "map_of ROUTE_ACTIONS ''POST /api/admin/map-chat'' = Some ''admin:map-chat''"
  "map_of ROUTE_ACTIONS ''POST /api/server/restart'' = Some ''server:restart''"
  "map_of ROUTE_ACTIONS ''POST /api/server/stop'' = Some ''server:stop''"
  "map_of ROUTE_ACTIONS ''POST /api/server/start'' = Some ''server:start''"
  "map_of ROUTE_ACTIONS ''POST /api/server/restart-service'' = Some ''server:restart-service''"
  "map_of ROUTE_ACTIONS ''POST /api/maps/spawn'' = Some ''maps:spawn''"
  "map_of ROUTE_ACTIONS ''POST /api/maps/despawn'' = Some ''maps:despawn''"
  "map_of ROUTE_ACTIONS ''POST /api/maps/respawn'' = Some ''maps:restart''"
  "map_of ROUTE_ACTIONS ''POST /api/map/teleport-player'' = Some ''maps:teleport''"
  "map_of ROUTE_ACTIONS ''POST /api/care-package/grant-eligible'' = Some ''carepackage:grant-all''"
  "map_of ROUTE_ACTIONS ''POST /api/care-package/enable'' = Some ''carepackage:write-config''"
  "map_of ROUTE_ACTIONS ''POST /api/care-package/disable'' = Some ''carepackage:write-config''"
  "map_of ROUTE_ACTIONS ''POST /api/care-package/run'' = Some ''carepackage:scan''"
  "map_of ROUTE_ACTIONS ''POST /api/care-package/history/clear'' = Some ''carepackage:clear-history''"
  "map_of ROUTE_ACTIONS ''POST /api/backups/create'' = Some ''backups:create''"
  "map_of ROUTE_ACTIONS ''POST /api/updates/apply-game'' = Some ''updates:apply''"
  "map_of ROUTE_ACTIONS ''POST /api/updates/fix-steamcmd'' = Some ''updates:fix''"
  by (simp_all add: route_lookup cong: frozen)

lemma static_route: "(m, path, a) \<in> set static_paths \<Longrightarrow> actionForRoute path m = Some a"
proof -
  have "list_all (\<lambda>(m, path, a). m = ''POST'' \<and> path \<noteq> [] \<and> map_of ROUTE_ACTIONS (''POST '' @ path) = Some a) static_paths"
    by (simp add: static_paths_def static_exact)
  moreover assume "(m, path, a) \<in> set static_paths"
  ultimately have "m = ''POST'' \<and> path \<noteq> [] \<and> map_of ROUTE_ACTIONS (''POST '' @ path) = Some a" by (auto simp: list_all_iff)
  then show ?thesis using upper_methods by (simp add: actionForRoute_def Let_def)
qed

lemma encode_char_plain: "encode_char c \<noteq> []" "CHR ''/'' \<notin> set (encode_char c)" "c \<noteq> CHR ''.'' \<Longrightarrow> CHR ''.'' \<notin> set (encode_char c)"
proof -
  have hex: "upper_hex n \<noteq> CHR ''/'' \<and> upper_hex n \<noteq> CHR ''.''" if "n < 16" for n
  proof -
    have "list_all (\<lambda>n. upper_hex n \<noteq> CHR ''/'' \<and> upper_hex n \<noteq> CHR ''.'') [0..<16]" by code_simp
    then show ?thesis using that by (auto simp: list_all_iff)
  qed
  have small: "code c < 256" by (simp add: code_def)
  have p: "CHR ''/'' \<notin> set (percent n) \<and> CHR ''.'' \<notin> set (percent n)" if "n < 256" for n
    using hex [of "n div 16"] hex [of "n mod 16"] that by (simp add: percent_def less_mult_imp_div_less) metis
  show "encode_char c \<noteq> []" by (simp add: encode_char_def Let_def percent_def)
  have "192 + code c div 64 < 256" "128 + code c mod 64 < 256" using small by auto
  then have pp: "CHR ''/'' \<notin> set (percent (192 + code c div 64) @ percent (128 + code c mod 64))"
    "CHR ''.'' \<notin> set (percent (192 + code c div 64) @ percent (128 + code c mod 64))"
    using p [of "192 + code c div 64"] p [of "128 + code c mod 64"] by simp_all
  have slash: "\<not> is_alnum (CHR ''/'')" "code (CHR ''/'') = 47" by code_simp+
  show "CHR ''/'' \<notin> set (encode_char c)"
    using pp(1) p [of "code c"] small slash by (auto simp: encode_char_def Let_def simp del: set_append)
  show "CHR ''.'' \<notin> set (encode_char c)" if "c \<noteq> CHR ''.''"
    using pp(2) p [of "code c"] small that by (auto simp: encode_char_def Let_def simp del: set_append)
qed

lemma encoded_plain:
  "s \<noteq> [] \<Longrightarrow> encodeURIComponent s \<noteq> []" "CHR ''/'' \<notin> set (encodeURIComponent s)"
  "CHR ''.'' \<notin> set s \<Longrightarrow> CHR ''.'' \<notin> set (encodeURIComponent s)"
  using encode_char_plain by (induction s) (auto simp: encodeURIComponent_def)

lemma ids_have_no_dot: "\<not> player_id_char (CHR ''.'')" "\<not> is_alnum (CHR ''.'')" "\<not> is_digit (CHR ''.'')"
  by code_simp+

lemma valid_player: "validatePlayerId v = Some s \<Longrightarrow> s \<noteq> [] \<and> CHR ''.'' \<notin> set s"
  using ids_have_no_dot by (auto simp: validatePlayerId_def list_all_iff split: jsval.splits if_splits)

lemma valid_guild: "validateGuildId v = Some s \<Longrightarrow> s \<noteq> [] \<and> CHR ''.'' \<notin> set s"
  using ids_have_no_dot by (auto simp: validateGuildId_def list_all_iff split: jsval.splits if_splits)

lemma encode_digit: "is_digit c \<Longrightarrow> encode_char c = [c]"
  by (simp add: encode_char_def is_alnum_def Let_def)

lemma encode_digits: "list_all is_digit s \<Longrightarrow> encodeURIComponent s = s"
  by (induction s) (auto simp: encodeURIComponent_def encode_digit)

lemma valid_base: "validateBaseId v = Some s \<Longrightarrow> numeric_id s \<and> s \<noteq> [] \<and> CHR ''.'' \<notin> set s \<and> encodeURIComponent s = s"
  using ids_have_no_dot
  by (auto simp: validateBaseId_def numeric_id_def encode_digits list_all_iff split: jsval.splits if_splits)

lemma part_text_ok: "part_text p part = Some s \<Longrightarrow> part_ok part s"
  using encoded_plain(1,2) by (cases part) (auto dest!: valid_player valid_guild valid_base)

lemma pattern_append: "part_ok part s \<Longrightarrow> pattern_matches parts r \<Longrightarrow> pattern_matches (part # parts) (s @ r)"
  by (auto simp: list_ex_iff intro!: bexI [of _ "length s"])

lemma built_path_matches: "build_path parts p = Some path \<Longrightarrow> pattern_matches parts path"
proof (induction parts arbitrary: path)
  case (Cons part parts)
  then obtain s r where "part_text p part = Some s" "build_path parts p = Some r" "path = s @ r"
    by (auto split: option.splits)
  then show ?case using Cons.IH [of r] part_text_ok [of p part s] pattern_append by simp
qed simp

lemma part_no_dot:
  "part_text p part = Some s \<Longrightarrow> (case part of PathText t \<Rightarrow> CHR ''.'' \<notin> set t | _ \<Rightarrow> True) \<Longrightarrow> CHR ''.'' \<notin> set s"
  using encoded_plain(3) by (cases part) (auto dest!: valid_player valid_guild valid_base)

lemma path_no_dot:
  "build_path parts p = Some path \<Longrightarrow> list_all (\<lambda>part. case part of PathText t \<Rightarrow> CHR ''.'' \<notin> set t | _ \<Rightarrow> True) parts
   \<Longrightarrow> CHR ''.'' \<notin> set path"
proof (induction parts arbitrary: path)
  case (Cons part parts)
  then obtain s r where "part_text p part = Some s" "build_path parts p = Some r" "path = s @ r"
    by (auto split: option.splits)
  then show ?case using Cons part_no_dot [of p part s] by auto
qed simp

lemma no_dots: "CHR ''.'' \<notin> set s \<Longrightarrow> \<not> contains_text ''..'' s"
  by (induction s) (auto simp: starts_with_def)

lemma routes_without_dots:
  "list_all (\<lambda>(a, e). list_all (\<lambda>part. case part of PathText t \<Rightarrow> CHR ''.'' \<notin> set t | _ \<Rightarrow> True) (e_path e)) WRITE_ACTION_ROUTES"
  by code_simp

lemma route_names_distinct: "distinct (map fst WRITE_ACTION_ROUTES)"
  by code_simp

lemma built_target_recognised:
  assumes "(action, entry) \<in> set WRITE_ACTION_ROUTES" and "build_path (e_path entry) params = Some path"
  shows "matchesWriteActionTarget WRITE_ACTION_ROUTES action (e_method entry) path"
proof -
  have "map_of WRITE_ACTION_ROUTES action = Some entry"
    using assms(1) route_names_distinct by (rule map_of_is_SomeI [rotated])
  moreover have "CHR ''.'' \<notin> set path"
    using path_no_dot [OF assms(2)] routes_without_dots assms(1) by (auto simp: list_all_iff)
  ultimately show ?thesis
    using built_path_matches [OF assms(2)] no_dots by (simp add: matchesWriteActionTarget_def)
qed

lemma built_id: "part_text p part = Some s \<Longrightarrow> part \<in> {PlayerSeg, BaseSeg, GuildSeg} \<Longrightarrow> s \<noteq> [] \<and> CHR ''/'' \<notin> set s"
  using encoded_plain(1,2) by (auto dest!: valid_player valid_guild valid_base) (metis encoded_plain(2))

lemma base_routes:
  assumes "w \<noteq> []" and "CHR ''/'' \<notin> set w"
  shows "actionForRoute (''/api/bases/'' @ w @ ''/refill-generators'') ''POST'' = Some ''bases:mutate''"
    "actionForRoute (''/api/bases/'' @ w @ ''/refill-water'') ''POST'' = Some ''bases:mutate''"
  using base_route_action [OF assms, of "''refill-generators''"] base_route_action [OF assms, of "''refill-water''"] by simp_all

lemmas id_routes = player_routes [simplified] base_routes [simplified] care_package_route [simplified] guild_routes [simplified]

text \<open>The path of an entry, by the shape of its template.\<close>

lemma built_shapes:
  "build_path [PathText a] p = Some path \<longleftrightarrow> path = a"
  "build_path [PathText a, part, PathText b] p = Some path \<longleftrightarrow> (\<exists>s. part_text p part = Some s \<and> path = a @ s @ b)"
  "build_path [PathText a, part] p = Some path \<longleftrightarrow> (\<exists>s. part_text p part = Some s \<and> path = a @ s)"
  "build_path [PathText a, part, PathText b, part'] p = Some path \<longleftrightarrow>
     (\<exists>s s'. part_text p part = Some s \<and> part_text p part' = Some s' \<and> path = a @ s @ b @ s')"
  by (auto split: option.splits simp del: part_text.simps(2,3,4))

lemma built_action:
  assumes "(action, entry) \<in> set WRITE_ACTION_ROUTES" and "build_path (e_path entry) params = Some path"
  shows "actionForRoute path (e_method entry) = Some (e_policyAction entry)"
proof (cases "\<exists>t. e_path entry = [PathText t]")
  case True
  then obtain t where t: "e_path entry = [PathText t]" by blast
  have "list_all (\<lambda>(a, e). case e_path e of [PathText t] \<Rightarrow> (e_method e, t, e_policyAction e) \<in> set static_paths | _ \<Rightarrow> True)
      WRITE_ACTION_ROUTES" by code_simp
  with assms(1) t have "(e_method entry, t, e_policyAction entry) \<in> set static_paths" by (auto simp: list_all_iff)
  then show ?thesis using static_route assms(2) t by simp
next
  case False
  show ?thesis
    using assms False unfolding WRITE_ACTION_ROUTES_def list.set insert_iff prod.inject
    by (elim disjE conjE emptyE)
      (auto simp: write_route_def built_shapes simp del: build_path.simps part_text.simps(2,3,4)
        dest!: built_id intro: id_routes)
qed

section \<open>No two actions share a target\<close>

text \<open>The fixed texts at both ends of a template tell the actions apart.\<close>

fun agree :: "string \<Rightarrow> string \<Rightarrow> bool" where
  "agree [] s = True"
| "agree (c # cs) [] = True"
| "agree (c # cs) (d # ds) = (if c = d then agree cs ds else False)"

definition edges :: "path_part list \<Rightarrow> string \<times> string" where
  "edges parts = (case parts of PathText t # _ \<Rightarrow> t | _ \<Rightarrow> [], rev (case rev parts of PathText t # _ \<Rightarrow> t | _ \<Rightarrow> []))"

fun pairwise :: "('a \<Rightarrow> 'a \<Rightarrow> bool) \<Rightarrow> 'a list \<Rightarrow> bool" where
  "pairwise P [] = True"
| "pairwise P (x # xs) = (list_all (P x) xs \<and> pairwise P xs)"

definition apart :: "string \<times> string \<times> string \<Rightarrow> string \<times> string \<times> string \<Rightarrow> bool" where
  "apart x y = (if fst x \<noteq> fst y then True else if \<not> agree (fst (snd x)) (fst (snd y)) then True
     else \<not> agree (snd (snd x)) (snd (snd y)))"

lemma targets_apart: "pairwise apart (map (\<lambda>(a, e). (e_method e, edges (e_path e))) WRITE_ACTION_ROUTES)"
  by code_simp

lemma pairwise_map: "pairwise P (map f xs) \<Longrightarrow> x \<in> set xs \<Longrightarrow> y \<in> set xs \<Longrightarrow> x \<noteq> y \<Longrightarrow> P (f x) (f y) \<or> P (f y) (f x)"
  by (induction xs) (auto simp: list_all_iff)

lemma agree_prefixes: "agree t t' = ((\<exists>r. t' = t @ r) \<or> (\<exists>r. t = t' @ r))"
  by (induction t t' rule: agree.induct) auto

lemma agree_starts: "starts_with s t \<Longrightarrow> starts_with s t' \<Longrightarrow> agree t t'"
  unfolding agree_prefixes starts_with_iff by (metis append_eq_append_conv2)

lemma matches_first: "pattern_matches parts s \<Longrightarrow> starts_with s (fst (edges parts))"
  by (cases parts; cases "hd parts") (auto simp: edges_def list_ex_iff starts_with_def)

lemma matches_last: "pattern_matches (parts @ [PathText t]) s \<Longrightarrow> ends_with s t"
proof (induction parts arbitrary: s)
  case Nil
  then show ?case by (auto simp: list_ex_iff ends_with_iff)
next
  case (Cons part parts)
  then obtain n where "pattern_matches (parts @ [PathText t]) (drop n s)" by (auto simp: list_ex_iff simp del: upt_Suc)
  then obtain r where "drop n s = r @ t" using Cons.IH by (auto simp: ends_with_iff)
  then show ?case unfolding ends_with_iff by (metis append.assoc append_take_drop_id)
qed

lemma matches_edges: "pattern_matches parts s \<Longrightarrow> starts_with (rev s) (snd (edges parts))"
proof (cases parts rule: rev_cases)
  case (snoc init part)
  assume m: "pattern_matches parts s"
  show ?thesis
  proof (cases part)
    case (PathText t)
    then have "ends_with s t" using m snoc matches_last by simp
    then show ?thesis by (auto simp: edges_def snoc PathText ends_with_iff starts_with_iff)
  qed (simp_all add: edges_def snoc starts_with_def)
qed (simp add: edges_def starts_with_def)

text \<open>
  C16. A request target belongs to at most one write action: if a method and a path are recognised for two
  actions, they are the same action. Each path built from valid parameters is recognised for its own action
  and resolves, in the action catalog of the console, to the very action the table declares for it.
\<close>

theorem write_target_unique:
  "(matchesWriteActionTarget WRITE_ACTION_ROUTES action meth path \<and> matchesWriteActionTarget WRITE_ACTION_ROUTES action' meth path
      \<longrightarrow> action = action')
   \<and> (resolveWriteActionRoute WRITE_ACTION_ROUTES action params = Inr (Some r)
      \<longrightarrow> matchesWriteActionTarget WRITE_ACTION_ROUTES action (v_method r) (v_path r)
        \<and> actionForRoute (v_path r) (v_method r) = Some (v_policyAction r))"
proof (intro conjI impI)
  assume m: "matchesWriteActionTarget WRITE_ACTION_ROUTES action meth path
    \<and> matchesWriteActionTarget WRITE_ACTION_ROUTES action' meth path"
  obtain e e' where e: "(action, e) \<in> set WRITE_ACTION_ROUTES" "meth = e_method e" "pattern_matches (e_path e) path"
    and e': "(action', e') \<in> set WRITE_ACTION_ROUTES" "meth = e_method e'" "pattern_matches (e_path e') path"
    using m by (auto simp: matchesWriteActionTarget_def dest!: map_of_SomeD split: option.splits)
  show "action = action'"
  proof (rule ccontr)
    assume "action \<noteq> action'"
    then have "apart (e_method e, edges (e_path e)) (e_method e', edges (e_path e'))
        \<or> apart (e_method e', edges (e_path e')) (e_method e, edges (e_path e))"
      using pairwise_map [OF targets_apart e(1) e'(1)] by auto
    then show False
      using e e' agree_starts [OF matches_first matches_first] agree_starts [OF matches_edges matches_edges]
      by (auto simp: apart_def split: if_splits)
  qed
next
  assume "resolveWriteActionRoute WRITE_ACTION_ROUTES action params = Inr (Some r)"
  then obtain e path where e: "(action, e) \<in> set WRITE_ACTION_ROUTES" "build_path (e_path e) (js_or params (Obj [])) = Some path"
    "v_method r = e_method e" "v_path r = path" "v_policyAction r = e_policyAction e"
    by (auto simp: resolveWriteActionRoute_def dest!: map_of_SomeD split: option.splits)
  then show "matchesWriteActionTarget WRITE_ACTION_ROUTES action (v_method r) (v_path r)"
    and "actionForRoute (v_path r) (v_method r) = Some (v_policyAction r)"
    using built_target_recognised [OF e(1,2)] built_action [OF e(1,2)] by simp_all
qed

theorem write_target_unique_witness:
  "\<exists>r. resolveWriteActionRoute WRITE_ACTION_ROUTES ''player.kick'' REPRESENTATIVE_PARAMS = Inr (Some r)
     \<and> v_path r = ''/api/players/Server%234242/kick'' \<and> actionForRoute (v_path r) (v_method r) = Some (v_policyAction r)
     \<and> (\<forall>a. matchesWriteActionTarget WRITE_ACTION_ROUTES a (v_method r) (v_path r) \<longrightarrow> a = ''player.kick'')"
proof -
  define r where "r = \<lparr>v_method = ''POST'', v_path = ''/api/players/Server%234242/kick'', v_confirmPhrase = None,
    v_policyAction = ''players:moderate'', v_dual = False\<rparr>"
  have "resolveWriteActionRoute WRITE_ACTION_ROUTES ''player.kick'' REPRESENTATIVE_PARAMS = Inr (Some r)"
    unfolding r_def by code_simp
  then show ?thesis
    using write_target_unique [of "''player.kick''" "v_method r" "v_path r" _ REPRESENTATIVE_PARAMS r] by (auto simp: r_def)
qed

section \<open>The startup check passes\<close>

lemma routes_have_tiers: "list_all (\<lambda>(a, e). map_of WRITE_ACTION_MIN_TIER a \<noteq> None) WRITE_ACTION_ROUTES"
  by code_simp

lemma routes_representative: "list_all (\<lambda>(a, e). build_path (e_path e) REPRESENTATIVE_PARAMS \<noteq> None) WRITE_ACTION_ROUTES"
  by code_simp

lemma self_check_passes: "selfCheckWriteActionRoutes WRITE_ACTION_ROUTES = []"
proof -
  have "check_route (a, e) = []" if "(a, e) \<in> set WRITE_ACTION_ROUTES" for a e
  proof -
    have "build_path (e_path e) REPRESENTATIVE_PARAMS \<noteq> None" "map_of WRITE_ACTION_MIN_TIER a \<noteq> None"
      using bspec [OF routes_representative [unfolded list_all_iff] that] bspec [OF routes_have_tiers [unfolded list_all_iff] that]
      by simp_all
    then obtain path where "build_path (e_path e) REPRESENTATIVE_PARAMS = Some path" "map_of WRITE_ACTION_MIN_TIER a \<noteq> None"
      by blast
    then show ?thesis using built_action [OF that] by (simp add: check_route_def)
  qed
  then show ?thesis by (auto simp: selfCheckWriteActionRoutes_def)
qed

end
