(* ===== verification/WriteNonceStore.thy ===== *)
theory WriteNonceStore
  imports Js
begin

text \<open>
  The store of pending confirmations of the Discord write bridge:
  \<open>console/api/src/integrations/discord/writeNonceStore.js\<close>. The \<open>Map\<close> is an association list in insertion
  order; times are in milliseconds, a call reads the clock once, and \<open>randomUUID()\<close> is an argument. The
  timer that calls \<open>prune\<close> is a step of its own. The interface the two routes rely on is the locale
  \<open>confirmation_store\<close>.
\<close>

section \<open>The store\<close>

definition GENERAL_TTL_SECONDS :: int where "GENERAL_TTL_SECONDS = 60"

definition ACTION_TTL_OVERRIDES :: "(string \<times> int) list" where
  "ACTION_TTL_OVERRIDES = [(''server.restart'', 90)]"

definition MAX_ENTRIES_PER_ACTOR :: nat where "MAX_ENTRIES_PER_ACTOR = 20"

definition defaultTtlSecondsForAction :: "string \<Rightarrow> int" where
  "defaultTtlSecondsForAction action =
     (case map_of ACTION_TTL_OVERRIDES action of Some t \<Rightarrow> t | None \<Rightarrow> GENERAL_TTL_SECONDS)"

record nonce_entry =
  n_actor :: string
  n_action :: string
  n_params :: jsval
  n_expiresAt :: int
  n_secondRequired :: bool
  n_primaryAt :: "int option"

type_synonym nonce_store = "(string, nonce_entry) omap"

definition pending_at :: "int \<Rightarrow> nonce_entry \<Rightarrow> bool" where
  "pending_at tm e = (\<not> n_expiresAt e \<le> tm)"

definition countForActor :: "string \<Rightarrow> nonce_store \<Rightarrow> nat" where
  "countForActor actorUserId st = length (filter (\<lambda>p. n_actor (snd p) = actorUserId) st)"

definition prune_nonces :: "int \<Rightarrow> nonce_store \<Rightarrow> nonce_store" where
  "prune_nonces tm st = filter (\<lambda>p. pending_at tm (snd p)) st"

datatype create_error = NoActorId | NoAction | TooManyPending

definition create_nonce ::
  "string \<Rightarrow> string \<Rightarrow> string \<Rightarrow> jsval \<Rightarrow> int option \<Rightarrow> int \<Rightarrow> nonce_store \<Rightarrow> (create_error + string \<times> int) \<times> nonce_store" where
  "create_nonce uuid actorUserId action params ttlSeconds tm st0 =
     (if actorUserId = [] then (Inl NoActorId, st0)
      else if action = [] then (Inl NoAction, st0)
      else let st = prune_nonces tm st0 in
        if MAX_ENTRIES_PER_ACTOR \<le> countForActor actorUserId st then (Inl TooManyPending, st)
        else let ttl = (case ttlSeconds of Some t \<Rightarrow> t | None \<Rightarrow> defaultTtlSecondsForAction action);
                 expiresAt = tm + ttl * 1000
             in (Inr (uuid, expiresAt),
                 om_set uuid \<lparr>n_actor = actorUserId, n_action = action, n_params = js_or params (Obj []),
                   n_expiresAt = expiresAt, n_secondRequired = False, n_primaryAt = None\<rparr> st))"

definition consume_nonce :: "string \<Rightarrow> int \<Rightarrow> nonce_store \<Rightarrow> nonce_entry option \<times> nonce_store" where
  "consume_nonce nonce tm st = (case om_get st nonce of
     None \<Rightarrow> (None, st)
   | Some e \<Rightarrow> (if n_expiresAt e \<le> tm then (None, om_delete nonce st) else (Some e, om_delete nonce st)))"

definition peek_nonce :: "string \<Rightarrow> int \<Rightarrow> nonce_store \<Rightarrow> nonce_entry option \<times> nonce_store" where
  "peek_nonce nonce tm st = (case om_get st nonce of
     None \<Rightarrow> (None, st)
   | Some e \<Rightarrow> (if n_expiresAt e \<le> tm then (None, om_delete nonce st) else (Some e, st)))"

definition markPendingSecondConfirmation ::
  "string \<Rightarrow> int \<Rightarrow> int \<Rightarrow> nonce_store \<Rightarrow> nonce_entry option \<times> nonce_store" where
  "markPendingSecondConfirmation nonce extendedTtlSeconds tm st = (case om_get st nonce of
     None \<Rightarrow> (None, om_delete nonce st)
   | Some e \<Rightarrow>
      (if n_expiresAt e \<le> tm then (None, om_delete nonce st)
       else let e' = e\<lparr>n_secondRequired := True, n_primaryAt := Some tm, n_expiresAt := tm + extendedTtlSeconds * 1000\<rparr>
            in (Some e', om_set nonce e' st)))"

section \<open>The interface\<close>

text \<open>
  What the routes rely on, in terms of the pending entry of a nonce: a new nonce is the only entry an
  operation adds, a consumed one is gone, and the others are kept or dropped once expired.
\<close>

definition if_pending :: "int \<Rightarrow> nonce_entry option \<Rightarrow> nonce_entry option" where
  "if_pending tm x = (case x of Some e \<Rightarrow> if pending_at tm e then Some e else None | None \<Rightarrow> None)"

lemma if_pending_Some: "if_pending tm x = Some e \<longleftrightarrow> x = Some e \<and> pending_at tm e"
  by (auto simp: if_pending_def split: option.splits if_splits)

lemma if_pending_simps [simp]: "if_pending tm None = None" "pending_at tm e \<Longrightarrow> if_pending tm (Some e) = Some e"
  by (simp_all add: if_pending_def)

locale confirmation_store =
  fixes entry :: "'s \<Rightarrow> string \<Rightarrow> nonce_entry option"
    and create :: "string \<Rightarrow> string \<Rightarrow> string \<Rightarrow> jsval \<Rightarrow> int \<Rightarrow> 's \<Rightarrow> (create_error + string \<times> int) \<times> 's"
    and consume :: "string \<Rightarrow> int \<Rightarrow> 's \<Rightarrow> nonce_entry option \<times> 's"
    and peek :: "string \<Rightarrow> int \<Rightarrow> 's \<Rightarrow> nonce_entry option \<times> 's"
    and mark :: "string \<Rightarrow> int \<Rightarrow> int \<Rightarrow> 's \<Rightarrow> nonce_entry option \<times> 's"
    and prune :: "int \<Rightarrow> 's \<Rightarrow> 's"
    and inv :: "'s \<Rightarrow> bool"
    and count :: "string \<Rightarrow> 's \<Rightarrow> nat"
  assumes create_inv: "inv s \<Longrightarrow> inv (snd (create u a act p tm s))"
    and create_failed: "inv s \<Longrightarrow> create u a act p tm s = (Inl er, s') \<Longrightarrow> (entry s' n = entry s n \<or> entry s' n = if_pending tm (entry s n)) \<and> count b s' \<le> count b s"
    and create_ok: "inv s \<Longrightarrow> create u a act p tm s = (Inr (n', ex), s') \<Longrightarrow>
      n' = u \<and> ex = tm + defaultTtlSecondsForAction act * 1000
      \<and> entry s' n = (if n = u then Some \<lparr>n_actor = a, n_action = act, n_params = js_or p (Obj []), n_expiresAt = ex,
                                          n_secondRequired = False, n_primaryAt = None\<rparr>
                      else if_pending tm (entry s n))"
    and create_count: "inv s \<Longrightarrow> entry s u = None \<Longrightarrow> count b s \<le> MAX_ENTRIES_PER_ACTOR \<Longrightarrow>
      count b (snd (create u a act p tm s)) \<le> MAX_ENTRIES_PER_ACTOR"
    and consume_spec: "inv s \<Longrightarrow> consume n tm s = (x, s') \<Longrightarrow>
      inv s' \<and> x = if_pending tm (entry s n) \<and> entry s' m = (if m = n then None else entry s m) \<and> count b s' \<le> count b s"
    and peek_spec: "inv s \<Longrightarrow> peek n tm s = (x, s') \<Longrightarrow>
      inv s' \<and> x = if_pending tm (entry s n) \<and> entry s' m = (if m = n then x else entry s m) \<and> count b s' \<le> count b s"
    and mark_spec: "inv s \<Longrightarrow> mark n t tm s = (x, s') \<Longrightarrow>
      inv s' \<and> x = map_option (\<lambda>e. e\<lparr>n_secondRequired := True, n_primaryAt := Some tm, n_expiresAt := tm + t * 1000\<rparr>)
             (if_pending tm (entry s n))
      \<and> entry s' m = (if m = n then x else entry s m) \<and> count b s' \<le> count b s"
    and prune_spec: "inv s \<Longrightarrow> inv (prune tm s) \<and> entry (prune tm s) n = if_pending tm (entry s n) \<and> count b (prune tm s) \<le> count b s"
begin

lemma consumed_is_gone:
  assumes "inv s" and "consume n tm s = (x, s')"
  shows "fst (consume n tm' s') = None \<and> fst (peek n tm' s') = None"
proof -
  obtain y s1 where c: "consume n tm' s' = (y, s1)" by (cases "consume n tm' s'")
  obtain z s2 where k: "peek n tm' s' = (z, s2)" by (cases "peek n tm' s'")
  show ?thesis using consume_spec [OF assms, of n] consume_spec [OF _ c] peek_spec [OF _ k] c k
    by (simp add: if_pending_def)
qed

lemma peek_then_consume:
  assumes "inv s" and "peek n tm s = (Some e, s1)" and "consume n tm s1 = (x, s2)"
  shows "x = Some e \<and> inv s2 \<and> entry s n = Some e \<and> entry s2 m = (if m = n then None else entry s m)"
proof -
  have p: "inv s1" "if_pending tm (entry s n) = Some e" "entry s1 n = Some e" "entry s1 m = (if m = n then Some e else entry s m)"
    using peek_spec [OF assms(1,2), of m] peek_spec [OF assms(1,2), of n] by auto
  then have "entry s n = Some e" "pending_at tm e" by (simp_all add: if_pending_Some)
  with p consume_spec [OF p(1) assms(3), of m] show ?thesis by simp
qed

lemma peek_then_mark:
  assumes "inv s" and "peek n tm s = (Some e, s1)" and "mark n t tm s1 = (x, s2)"
  shows "x = Some (e\<lparr>n_secondRequired := True, n_primaryAt := Some tm, n_expiresAt := tm + t * 1000\<rparr>)
    \<and> inv s2 \<and> entry s n = Some e \<and> entry s2 m = (if m = n then x else entry s m)"
proof -
  have p: "inv s1" "if_pending tm (entry s n) = Some e" "entry s1 n = Some e" "entry s1 m = (if m = n then Some e else entry s m)"
    using peek_spec [OF assms(1,2), of m] peek_spec [OF assms(1,2), of n] by auto
  then have "entry s n = Some e" "pending_at tm e" by (simp_all add: if_pending_Some)
  with p mark_spec [OF p(1) assms(3), of m] show ?thesis by simp
qed

end

section \<open>The store provides it\<close>

lemma get_filter_snd: "om_inv m \<Longrightarrow> om_get (filter (\<lambda>p. P (snd p)) m) k = (case om_get m k of Some e \<Rightarrow> if P e then Some e else None | None \<Rightarrow> None)"
proof (induction m)
  case (Cons p m)
  then have "om_inv m" and "fst p \<notin> set (om_keys m)" by (auto simp: om_inv_def)
  moreover from this have "om_get (filter (\<lambda>p. P (snd p)) m) (fst p) = None" using Cons.IH by (auto simp: om_get_None_iff)
  ultimately show ?case using Cons.IH by (cases p) (auto simp: om_get_def)
qed simp

lemma inv_filter: "om_inv m \<Longrightarrow> om_inv (filter P m)"
  by (simp add: om_inv_def distinct_map_filter)

lemma get_prune: "om_inv st \<Longrightarrow> om_get (prune_nonces tm st) n = if_pending tm (om_get st n)"
  by (simp add: prune_nonces_def get_filter_snd if_pending_def split: option.splits)

lemma count_filter: "countForActor a (filter P st) \<le> countForActor a st"
  by (induction st) (auto simp: countForActor_def)

lemma count_delete: "countForActor a (om_delete n st) \<le> countForActor a st"
  unfolding om_delete_def by (rule count_filter)

lemma count_new: "om_get st n = None \<Longrightarrow> countForActor a (om_set n e st) = countForActor a st + (if n_actor e = a then 1 else 0)"
  by (induction st) (auto simp: countForActor_def om_get_def split: if_splits)

lemma count_same: "om_get st n = Some e \<Longrightarrow> n_actor e' = n_actor e \<Longrightarrow> countForActor a (om_set n e' st) = countForActor a st"
  by (induction st) (auto simp: countForActor_def om_get_def split: if_splits)

lemma pending_le: "pending_at tm e \<longleftrightarrow> \<not> n_expiresAt e \<le> tm"
  by (simp add: pending_at_def)

interpretation nonces: confirmation_store om_get "\<lambda>u a act p. create_nonce u a act p None" consume_nonce peek_nonce
    markPendingSecondConfirmation prune_nonces om_inv countForActor
proof (unfold_locales, goal_cases)
  case (1 s u a act p tm)
  then show ?case by (auto simp: create_nonce_def Let_def om_inv_set prune_nonces_def inv_filter)
next
  case (2 s u a act p tm e s' n b)
  moreover have "countForActor b (prune_nonces tm s) \<le> countForActor b s" unfolding prune_nonces_def by (rule count_filter)
  ultimately show ?case by (auto simp: create_nonce_def Let_def get_prune split: if_splits)
next
  case (3 s u a act p tm n' x s' n)
  then show ?case by (auto simp: create_nonce_def Let_def get_prune om_get_set split: if_splits)
next
  case (4 s u b a act p tm)
  let ?s = "prune_nonces tm s"
  have "countForActor b ?s \<le> countForActor b s" unfolding prune_nonces_def by (rule count_filter)
  moreover have "om_get ?s u = None" using 4 by (simp add: get_prune if_pending_def)
  ultimately show ?case using 4(3) by (auto simp: create_nonce_def Let_def count_new)
next
  case (5 s n tm x s' m b)
  then show ?case
    by (auto simp: consume_nonce_def if_pending_def pending_le om_get_delete om_inv_delete count_delete split: option.splits if_splits)
next
  case (6 s n tm x s' m b)
  then show ?case
    by (auto simp: peek_nonce_def if_pending_def pending_le om_get_delete om_inv_delete count_delete split: option.splits if_splits)
next
  case (7 s n t tm x s' m b)
  then show ?case
    by (auto simp: markPendingSecondConfirmation_def Let_def if_pending_def pending_le om_get_delete om_inv_delete om_get_set om_inv_set
        count_delete count_same split: option.splits if_splits)
next
  case (8 s tm n b)
  then show ?case using get_prune [of s tm n] by (simp add: prune_nonces_def inv_filter count_filter)
qed

end
