(* ===== verification/WriteBridge.thy ===== *)
theory WriteBridge
  imports ActorSignature WriteRoutes WriteNonceStore
begin

text \<open>
  The two routes of the Discord write bridge: \<open>writePreviewRoute\<close> and \<open>writeExecuteRoute\<close> of
  \<open>console/api/src/integrations/discord/routes.js\<close>, over the store of confirmations, the table of write
  actions, the signed body and the role policy. The table is an argument, because the second confirmation
  it can ask for is used by no entry of the real one. A request reads the clock once, in milliseconds. The
  internal request to the console is the value \<open>Dispatched\<close> of the execute route; its answer, the audit line
  and messages are not modelled.
\<close>

section \<open>Configuration and replies\<close>

record bridge_env =
  be_sig :: sig_env
  be_writes :: jsval
  be_mapping :: jsval
  be_table :: write_table
  be_roleAge :: jsval

definition WRITE_PREVIEW :: string where "WRITE_PREVIEW = ''/api/integrations/discord/write/preview''"
definition WRITE_EXECUTE :: string where "WRITE_EXECUTE = ''/api/integrations/discord/write/execute''"

definition DUAL_CONFIRMATION_EXTENDED_TTL_SECONDS :: int where "DUAL_CONFIRMATION_EXTENDED_TTL_SECONDS = 300"

text \<open>The value of the environment variable or, when it is not set, of the configuration.\<close>

definition discordWritesEnabled :: "jsval \<Rightarrow> bool" where
  "discordWritesEnabled value =
     (value = Bool True \<or> value = Number (Num 1)
      \<or> js_trim (to_str (js_or value (Str []))) = ''1'' \<or> js_lower (js_trim (to_str (js_or value (Str [])))) = ''true'')"

record preview_reply =
  p_nonce :: string
  p_expiresAt :: int
  p_action :: string
  p_confirmPhrase :: "string option"

record dispatch =
  d_method :: string
  d_path :: string
  d_action :: string
  d_tier :: string
  d_userId :: string
  d_username :: string
  d_body :: "(string \<times> jsval) list"

datatype execute_reply =
    SecondConfirmation string int
  | Dispatched dispatch

section \<open>The routes\<close>

text \<open>What both routes do first: the body, the actor and the capability.\<close>

definition write_actor ::
  "bridge_env \<Rightarrow> string \<Rightarrow> sig_headers \<Rightarrow> jsval \<Rightarrow> int \<Rightarrow> policy_error + jsval \<times> discord_actor" where
  "write_actor env route headers body0 tm =
     (if \<not> discordWritesEnabled (be_writes env) then Inl (''writes_disabled'', 403)
      else case readJsonWithActorSignature (be_sig env) body0 headers route True (tm div 1000) WRITE_BRIDGE_SIGNED_ACTOR_FIELDS of
        Inl e \<Rightarrow> Inl e
      | Inr body \<Rightarrow> (case normalizeDiscordActor (getp body ''actor'') of
          Inl e \<Rightarrow> Inl e
        | Inr actor \<Rightarrow> (case requireDiscordCapability actor (be_mapping env) ''write-bridge:access'' of
            Inl e \<Rightarrow> Inl e | Inr u \<Rightarrow> Inr (body, actor))))"

definition text_or_empty :: "jsval \<Rightarrow> string" where
  "text_or_empty v = to_str (js_or v (Str []))"

definition writePreviewRoute ::
  "bridge_env \<Rightarrow> sig_headers \<Rightarrow> jsval \<Rightarrow> int \<Rightarrow> string \<Rightarrow> nonce_store \<Rightarrow> (policy_error + preview_reply) \<times> nonce_store" where
  "writePreviewRoute env headers body0 tm uuid st =
     (case write_actor env WRITE_PREVIEW headers body0 tm of
        Inl e \<Rightarrow> (Inl e, st)
      | Inr (body, actor) \<Rightarrow>
         (let action = text_or_empty (getp body ''action'') in
          case resolveWriteActionRoute (be_table env) action (getp body ''params'') of
            Inl u \<Rightarrow> (Inl (''invalid_parameters'', 400), st)
          | Inr None \<Rightarrow> (Inl (''unknown_write_action'', 400), st)
          | Inr (Some resolved) \<Rightarrow>
             (case meetsMinTier (discordActorTier actor (be_mapping env)) action of
                None \<Rightarrow> (Inl (''write_action_misconfigured'', 500), st)
              | Some authorized \<Rightarrow>
                 (if \<not> authorized then (Inl (''not_authorized'', 403), st)
                  else case create_nonce uuid (a_userId actor) action (js_or (getp body ''params'') (Obj [])) None tm st of
                    (Inl e, st') \<Rightarrow> (Inl (''too_many_pending_confirmations'', 429), st')
                  | (Inr (nonce, expiresAt), st') \<Rightarrow>
                      (Inr \<lparr>p_nonce = nonce, p_expiresAt = expiresAt, p_action = action,
                            p_confirmPhrase = v_confirmPhrase resolved\<rparr>, st')))))"

definition max_role_age :: "bridge_env \<Rightarrow> int" where
  "max_role_age env = bounded_env_int (be_roleAge env) 30 5 300"

definition fresh_snapshot :: "bridge_env \<Rightarrow> int \<Rightarrow> jsval \<Rightarrow> policy_error + unit" where
  "fresh_snapshot env tm v =
     (case v of
        Number n \<Rightarrow>
          (if \<not> safe_integer n \<or> num_int n \<le> 0 then Inl (''invalid_actor_signature'', 403)
           else if max_role_age env < \<bar>tm div 1000 - num_int n\<bar> then Inl (''stale_actor_signature'', 403)
           else Inr ())
      | _ \<Rightarrow> Inl (''invalid_actor_signature'', 403))"

text \<open>A nonce belongs to the actor of the preview; the second confirmation must come from another one.\<close>

definition nonce_owner :: "resolved_route \<Rightarrow> nonce_entry \<Rightarrow> discord_actor \<Rightarrow> policy_error + unit" where
  "nonce_owner resolved peeked actor =
     (if v_dual resolved \<and> n_secondRequired peeked
      then (if n_actor peeked = a_userId actor then Inl (''second_confirmation_same_actor'', 403) else Inr ())
      else if n_actor peeked \<noteq> a_userId actor then Inl (''nonce_actor_mismatch'', 403) else Inr ())"

definition dispatch_of :: "resolved_route \<Rightarrow> string \<Rightarrow> string \<Rightarrow> discord_actor \<Rightarrow> jsval \<Rightarrow> dispatch" where
  "dispatch_of resolved action tier actor params =
     (let copied = own_props (js_or params (Obj []));
          request = (case v_confirmPhrase resolved of
                       Some phrase \<Rightarrow> if phrase = [] then copied else om_set ''confirmation'' (Str phrase) copied
                     | None \<Rightarrow> copied)
      in \<lparr>d_method = v_method resolved, d_path = v_path resolved, d_action = action, d_tier = tier,
          d_userId = a_userId actor, d_username = a_username actor, d_body = request\<rparr>)"

text \<open>The end of the route, once every gate has passed: the first of two confirmations, or the dispatch.\<close>

definition confirm_or_dispatch ::
  "string \<Rightarrow> string \<Rightarrow> resolved_route \<Rightarrow> string \<Rightarrow> discord_actor \<Rightarrow> nonce_entry \<Rightarrow> int \<Rightarrow> nonce_store
     \<Rightarrow> (policy_error + execute_reply) \<times> nonce_store" where
  "confirm_or_dispatch nonce action resolved tier actor peeked tm st =
     (if v_dual resolved \<and> \<not> n_secondRequired peeked
      then (case markPendingSecondConfirmation nonce DUAL_CONFIRMATION_EXTENDED_TTL_SECONDS tm st of
              (None, st') \<Rightarrow> (Inl (''nonce_not_found'', 410), st')
            | (Some marked, st') \<Rightarrow> (Inr (SecondConfirmation nonce (n_expiresAt marked)), st'))
      else (case consume_nonce nonce tm st of
              (None, st') \<Rightarrow> (Inl (''nonce_not_found'', 410), st')
            | (Some e, st') \<Rightarrow> (Inr (Dispatched (dispatch_of resolved action tier actor (n_params e))), st')))"

definition writeExecuteRoute ::
  "bridge_env \<Rightarrow> sig_headers \<Rightarrow> jsval \<Rightarrow> int \<Rightarrow> nonce_store \<Rightarrow> (policy_error + execute_reply) \<times> nonce_store" where
  "writeExecuteRoute env headers body0 tm st =
     (case write_actor env WRITE_EXECUTE headers body0 tm of
        Inl e \<Rightarrow> (Inl e, st)
      | Inr (body, actor) \<Rightarrow>
         (let nonce = text_or_empty (getp body ''nonce'') in
          if nonce = [] then (Inl (''missing_nonce'', 400), st)
          else case peek_nonce nonce tm st of
            (None, st1) \<Rightarrow> (Inl (''nonce_not_found'', 410), st1)
          | (Some peeked, st1) \<Rightarrow>
             (let action = text_or_empty (getp body ''action'') in
              if action \<noteq> n_action peeked then (Inl (''nonce_action_mismatch'', 409), st1)
              else case resolveWriteActionRoute (be_table env) action (n_params peeked) of
                Inl u \<Rightarrow> (Inl (''invalid_parameters'', 400), st1)
              | Inr None \<Rightarrow> (Inl (''unknown_write_action'', 400), st1)
              | Inr (Some resolved) \<Rightarrow>
                 (case nonce_owner resolved peeked actor of
                    Inl e \<Rightarrow> (Inl e, st1)
                  | Inr u \<Rightarrow>
                     (let tier = discordActorTier actor (be_mapping env) in
                      case meetsMinTier tier action of
                        None \<Rightarrow> (Inl (''write_action_misconfigured'', 500), st1)
                      | Some authorized \<Rightarrow>
                         (if \<not> authorized then (Inl (''not_authorized'', 403), st1)
                          else case fresh_snapshot env tm (a_roleSnapshotAt actor) of
                            Inl e \<Rightarrow> (Inl e, st1)
                          | Inr u' \<Rightarrow> confirm_or_dispatch nonce action resolved tier actor peeked tm st1))))))"

section \<open>What a reply of the execute route tells\<close>

text \<open>Every gate before the last step has been passed by this request for this pending entry.\<close>

definition execute_passes ::
  "bridge_env \<Rightarrow> sig_headers \<Rightarrow> jsval \<Rightarrow> int \<Rightarrow> discord_actor \<Rightarrow> string \<Rightarrow> nonce_entry \<Rightarrow> resolved_route \<Rightarrow> bool" where
  "execute_passes env headers body0 tm actor nonce e resolved =
     (\<exists>body. write_actor env WRITE_EXECUTE headers body0 tm = Inr (body, actor)
        \<and> nonce = text_or_empty (getp body ''nonce'') \<and> nonce \<noteq> []
        \<and> text_or_empty (getp body ''action'') = n_action e
        \<and> resolveWriteActionRoute (be_table env) (n_action e) (n_params e) = Inr (Some resolved)
        \<and> nonce_owner resolved e actor = Inr ()
        \<and> meetsMinTier (discordActorTier actor (be_mapping env)) (n_action e) = Some True
        \<and> fresh_snapshot env tm (a_roleSnapshotAt actor) = Inr ())"

lemma execute_reply:
  assumes "writeExecuteRoute env headers body0 tm st = (Inr r, st')"
  shows "\<exists>actor nonce e st1 resolved. execute_passes env headers body0 tm actor nonce e resolved
    \<and> peek_nonce nonce tm st = (Some e, st1)
    \<and> confirm_or_dispatch nonce (n_action e) resolved (discordActorTier actor (be_mapping env)) actor e tm st1 = (Inr r, st')"
  using assms unfolding writeExecuteRoute_def execute_passes_def
  by (fastforce simp: Let_def split: sum.splits prod.splits if_splits option.splits)

lemma execute_error:
  assumes "om_inv st" and "writeExecuteRoute env headers body0 tm st = (Inl x, st')"
  shows "om_inv st' \<and> (om_get st' m = om_get st m \<or> om_get st' m = None \<and> if_pending tm (om_get st m) = None)"
proof -
  have gone: "om_inv s2 \<and> (om_get s2 m = om_get st m \<or> om_get s2 m = None \<and> if_pending tm (om_get st m) = None)"
    if "peek_nonce n tm st = (y, s2)" for n y s2
    using nonces.peek_spec [OF assms(1) that, of m] by (auto split: if_splits simp: if_pending_def split: option.splits)
  have last: "om_inv s2 \<and> (om_get s2 m = om_get st m \<or> om_get s2 m = None \<and> if_pending tm (om_get st m) = None)"
    if p: "peek_nonce n tm st = (Some e, s1)" and c: "confirm_or_dispatch n act res tier actor e tm s1 = (Inl x, s2)" for n e s1 s2 act res tier actor
  proof (cases "v_dual res \<and> \<not> n_secondRequired e")
    case True
    then obtain s3 where "markPendingSecondConfirmation n DUAL_CONFIRMATION_EXTENDED_TTL_SECONDS tm s1 = (None, s3)"
      using c by (auto simp: confirm_or_dispatch_def split: prod.splits option.splits)
    from nonces.peek_then_mark [OF assms(1) p this] show ?thesis by simp
  next
    case False
    then obtain s3 where "consume_nonce n tm s1 = (None, s3)"
      using c by (auto simp: confirm_or_dispatch_def split: prod.splits option.splits)
    from nonces.peek_then_consume [OF assms(1) p this] show ?thesis by simp
  qed
  show ?thesis
    using assms gone last unfolding writeExecuteRoute_def
    by (auto simp: Let_def split: sum.splits prod.splits if_splits option.splits)
qed

lemma execute_dispatches:
  assumes "om_inv st" and "writeExecuteRoute env headers body0 tm st = (Inr (Dispatched d), st')"
  shows "\<exists>actor nonce e resolved. execute_passes env headers body0 tm actor nonce e resolved
    \<and> om_get st nonce = Some e \<and> tm < n_expiresAt e \<and> (v_dual resolved \<longrightarrow> n_secondRequired e)
    \<and> d = dispatch_of resolved (n_action e) (discordActorTier actor (be_mapping env)) actor (n_params e)
    \<and> om_inv st' \<and> (\<forall>m. om_get st' m = (if m = nonce then None else om_get st m))"
proof -
  obtain actor nonce e st1 resolved where p: "execute_passes env headers body0 tm actor nonce e resolved"
    "peek_nonce nonce tm st = (Some e, st1)"
    "confirm_or_dispatch nonce (n_action e) resolved (discordActorTier actor (be_mapping env)) actor e tm st1 = (Inr (Dispatched d), st')"
    using execute_reply [OF assms(2)] by blast
  then obtain e' where c: "consume_nonce nonce tm st1 = (Some e', st')" "v_dual resolved \<longrightarrow> n_secondRequired e"
    "d = dispatch_of resolved (n_action e) (discordActorTier actor (be_mapping env)) actor (n_params e')"
    by (auto simp: confirm_or_dispatch_def split: if_splits prod.splits option.splits)
  have "e' = e" "om_inv st'" "om_get st nonce = Some e" "\<forall>m. om_get st' m = (if m = nonce then None else om_get st m)"
    using nonces.peek_then_consume [OF assms(1) p(2) c(1)] by auto
  moreover have "if_pending tm (om_get st nonce) = Some e"
    using nonces.peek_spec [OF assms(1) p(2), of nonce] by metis
  then have "tm < n_expiresAt e" by (simp add: if_pending_Some pending_le)
  ultimately show ?thesis using p(1) c(2,3) by blast
qed

lemma execute_confirms:
  assumes "om_inv st" and "writeExecuteRoute env headers body0 tm st = (Inr (SecondConfirmation n x), st')"
  shows "\<exists>actor e resolved. execute_passes env headers body0 tm actor n e resolved
    \<and> om_get st n = Some e \<and> v_dual resolved \<and> \<not> n_secondRequired e \<and> x = tm + 300000 \<and> om_inv st'
    \<and> (\<forall>m. om_get st' m = (if m = n then Some (e\<lparr>n_secondRequired := True, n_primaryAt := Some tm, n_expiresAt := x\<rparr>) else om_get st m))"
proof -
  obtain actor nonce e st1 resolved where p: "execute_passes env headers body0 tm actor nonce e resolved"
    "peek_nonce nonce tm st = (Some e, st1)"
    "confirm_or_dispatch nonce (n_action e) resolved (discordActorTier actor (be_mapping env)) actor e tm st1 = (Inr (SecondConfirmation n x), st')"
    using execute_reply [OF assms(2)] by blast
  then obtain e' where c: "markPendingSecondConfirmation nonce DUAL_CONFIRMATION_EXTENDED_TTL_SECONDS tm st1 = (Some e', st')"
    "v_dual resolved" "\<not> n_secondRequired e" "n = nonce" "x = n_expiresAt e'"
    by (auto simp: confirm_or_dispatch_def split: if_splits prod.splits option.splits)
  have "e' = e\<lparr>n_secondRequired := True, n_primaryAt := Some tm, n_expiresAt := tm + 300000\<rparr>" "om_inv st'" "om_get st nonce = Some e"
    "\<forall>m. om_get st' m = (if m = nonce then Some e' else om_get st m)"
    using nonces.peek_then_mark [OF assms(1) p(2) c(1)] by (auto simp: DUAL_CONFIRMATION_EXTENDED_TTL_SECONDS_def)
  then show ?thesis using p(1) c(2-5) by auto
qed

lemma js_or_twice: "js_or (js_or v (Obj [])) (Obj []) = js_or v (Obj [])"
  by (simp add: js_or_def)

lemma preview_reply:
  assumes "om_inv st" and "writePreviewRoute env headers body0 tm uuid st = (Inr r, st')"
  shows "\<exists>body actor. write_actor env WRITE_PREVIEW headers body0 tm = Inr (body, actor)
    \<and> p_nonce r = uuid \<and> p_action r = text_or_empty (getp body ''action'')
    \<and> meetsMinTier (discordActorTier actor (be_mapping env)) (p_action r) = Some True
    \<and> p_expiresAt r = tm + defaultTtlSecondsForAction (p_action r) * 1000 \<and> om_inv st'
    \<and> (\<forall>m. om_get st' m = (if m = uuid then Some \<lparr>n_actor = a_userId actor, n_action = p_action r,
          n_params = js_or (getp body ''params'') (Obj []), n_expiresAt = p_expiresAt r, n_secondRequired = False, n_primaryAt = None\<rparr>
        else if_pending tm (om_get st m)))"
proof -
  obtain body actor st1 n x where w: "write_actor env WRITE_PREVIEW headers body0 tm = Inr (body, actor)"
    "create_nonce uuid (a_userId actor) (text_or_empty (getp body ''action'')) (js_or (getp body ''params'') (Obj [])) None tm st
       = (Inr (n, x), st')"
    "p_nonce r = n" "p_expiresAt r = x" "p_action r = text_or_empty (getp body ''action'')"
    "meetsMinTier (discordActorTier actor (be_mapping env)) (p_action r) = Some True"
    using assms(2) unfolding writePreviewRoute_def
    by (fastforce simp: Let_def split: sum.splits prod.splits if_splits option.splits)
  show ?thesis
    using js_or_twice w nonces.create_ok [OF assms(1) w(2)] nonces.create_inv [OF assms(1), of uuid "a_userId actor"] by (metis snd_conv)
qed

lemma preview_error:
  assumes "om_inv st" and "writePreviewRoute env headers body0 tm uuid st = (Inl x, st')"
  shows "om_inv st' \<and> (om_get st' m = om_get st m \<or> om_get st' m = if_pending tm (om_get st m))
    \<and> countForActor a st' \<le> countForActor a st"
proof -
  have "om_inv s2 \<and> (om_get s2 m = om_get st m \<or> om_get s2 m = if_pending tm (om_get st m)) \<and> countForActor a s2 \<le> countForActor a st"
    if c: "create_nonce uuid v act p None tm st = (Inl er, s2)" for v act p er s2
    using nonces.create_failed [OF assms(1) c, of m a] nonces.create_inv [OF assms(1), of uuid v act p tm] c by simp
  then show ?thesis using assms unfolding writePreviewRoute_def
    by (fastforce simp: Let_def split: sum.splits prod.splits if_splits option.splits)
qed

section \<open>Runs\<close>

text \<open>
  A run records what the bridge did: a nonce issued with its actor, action and parameters, a first
  confirmation, and a request sent to the console, the last two with the signed request that led to them.
\<close>

datatype bridge_event =
    Issued string string string jsval int
  | Confirmed string string int
  | Sent string sig_headers jsval int dispatch

record write_run =
  bs_store :: nonce_store
  bs_log :: "bridge_event list"

definition issued_nonces :: "bridge_event list \<Rightarrow> string set" where
  "issued_nonces es = {n. \<exists>a act p t. Issued n a act p t \<in> set es}"

definition sent_nonces :: "bridge_event list \<Rightarrow> string set" where
  "sent_nonces es = {n. \<exists>h b t d. Sent n h b t d \<in> set es}"

lemma issued_simps [simp]: "issued_nonces [] = {}" "issued_nonces (Issued n a act p t # es) = insert n (issued_nonces es)"
    "issued_nonces (Confirmed n a t # es) = issued_nonces es" "issued_nonces (Sent n h b t d # es) = issued_nonces es"
  by (auto simp: issued_nonces_def)

lemma sent_simps [simp]: "sent_nonces [] = {}" "sent_nonces (Sent n h b t d # es) = insert n (sent_nonces es)"
    "sent_nonces (Issued n a act p t' # es) = sent_nonces es" "sent_nonces (Confirmed n a t' # es) = sent_nonces es"
  by (auto simp: sent_nonces_def)

text \<open>Log entries are newest first; a UUID is not drawn twice.\<close>

inductive bridge_step :: "bridge_env \<Rightarrow> write_run \<Rightarrow> write_run \<Rightarrow> bool" for env where
  previewed: "writePreviewRoute env headers body0 tm uuid (bs_store s) = (Inr r, st') \<Longrightarrow> uuid \<notin> issued_nonces (bs_log s) \<Longrightarrow>
    write_actor env WRITE_PREVIEW headers body0 tm = Inr (body, actor) \<Longrightarrow>
    bridge_step env s \<lparr>bs_store = st',
      bs_log = Issued (p_nonce r) (a_userId actor) (p_action r) (js_or (getp body ''params'') (Obj [])) tm # bs_log s\<rparr>"
| preview_refused: "writePreviewRoute env headers body0 tm uuid (bs_store s) = (Inl x, st') \<Longrightarrow>
    bridge_step env s (s\<lparr>bs_store := st'\<rparr>)"
| confirmed: "writeExecuteRoute env headers body0 tm (bs_store s) = (Inr (SecondConfirmation n x), st') \<Longrightarrow>
    write_actor env WRITE_EXECUTE headers body0 tm = Inr (body, actor) \<Longrightarrow>
    bridge_step env s \<lparr>bs_store = st', bs_log = Confirmed n (a_userId actor) tm # bs_log s\<rparr>"
| sent: "writeExecuteRoute env headers body0 tm (bs_store s) = (Inr (Dispatched d), st') \<Longrightarrow>
    write_actor env WRITE_EXECUTE headers body0 tm = Inr (body, actor) \<Longrightarrow>
    bridge_step env s \<lparr>bs_store = st', bs_log = Sent (text_or_empty (getp body ''nonce'')) headers body0 tm d # bs_log s\<rparr>"
| execute_refused: "writeExecuteRoute env headers body0 tm (bs_store s) = (Inl x, st') \<Longrightarrow>
    bridge_step env s (s\<lparr>bs_store := st'\<rparr>)"
| pruned: "bridge_step env s (s\<lparr>bs_store := prune_nonces tm (bs_store s)\<rparr>)"

inductive bridge_reachable :: "bridge_env \<Rightarrow> write_run \<Rightarrow> bool" for env where
  start: "bridge_reachable env \<lparr>bs_store = [], bs_log = []\<rparr>"
| more: "bridge_reachable env s \<Longrightarrow> bridge_step env s s' \<Longrightarrow> bridge_reachable env s'"

inductive_cases sent_stepE: "bridge_step env s s'"

section \<open>Every request that is sent has been previewed\<close>

text \<open>
  What justifies a request sent for a nonce, in the log before it: the nonce was issued once and nothing was
  sent for it; the sender passed every gate now; and the sender is the actor of the preview and in time, or,
  for an action that needs two confirmations, a second actor within five minutes of the first confirmation.
\<close>

definition sent_justified ::
  "bridge_env \<Rightarrow> bridge_event list \<Rightarrow> string \<Rightarrow> sig_headers \<Rightarrow> jsval \<Rightarrow> int \<Rightarrow> dispatch \<Rightarrow> bool" where
  "sent_justified env before nonce headers body0 tm d =
     (nonce \<notin> sent_nonces before
      \<and> (\<exists>body actor a0 params t0 resolved.
          write_actor env WRITE_EXECUTE headers body0 tm = Inr (body, actor)
        \<and> Issued nonce a0 (d_action d) params t0 \<in> set before
        \<and> resolveWriteActionRoute (be_table env) (d_action d) params = Inr (Some resolved)
        \<and> d = dispatch_of resolved (d_action d) (discordActorTier actor (be_mapping env)) actor params
        \<and> meetsMinTier (d_tier d) (d_action d) = Some True
        \<and> fresh_snapshot env tm (a_roleSnapshotAt actor) = Inr ()
        \<and> (if v_dual resolved
           then a0 \<noteq> a_userId actor \<and> (\<exists>t1. Confirmed nonce a0 t1 \<in> set before \<and> tm < t1 + 300000)
           else a0 = a_userId actor \<and> tm < t0 + defaultTtlSecondsForAction (d_action d) * 1000)))"

fun log_ok :: "bridge_env \<Rightarrow> bridge_event list \<Rightarrow> bool" where
  "log_ok env [] = True"
| "log_ok env (Issued n a act p t # es) = (n \<notin> issued_nonces es \<and> log_ok env es)"
| "log_ok env (Confirmed n a t # es) = log_ok env es"
| "log_ok env (Sent n h b t d # es) = (sent_justified env es n h b t d \<and> log_ok env es)"

text \<open>What an entry of the store tells about the log.\<close>

definition entry_ok :: "bridge_env \<Rightarrow> bridge_event list \<Rightarrow> string \<Rightarrow> nonce_entry \<Rightarrow> bool" where
  "entry_ok env es n e =
     (n \<notin> sent_nonces es
      \<and> (\<exists>t0. Issued n (n_actor e) (n_action e) (n_params e) t0 \<in> set es
           \<and> (\<not> n_secondRequired e \<longrightarrow> n_expiresAt e = t0 + defaultTtlSecondsForAction (n_action e) * 1000))
      \<and> (n_secondRequired e \<longrightarrow> (\<exists>t1. Confirmed n (n_actor e) t1 \<in> set es \<and> n_expiresAt e = t1 + 300000)
           \<and> (\<exists>resolved. resolveWriteActionRoute (be_table env) (n_action e) (n_params e) = Inr (Some resolved) \<and> v_dual resolved)))"

definition bridge_ok :: "bridge_env \<Rightarrow> write_run \<Rightarrow> bool" where
  "bridge_ok env s = (om_inv (bs_store s) \<and> log_ok env (bs_log s)
     \<and> sent_nonces (bs_log s) \<subseteq> issued_nonces (bs_log s)
     \<and> (\<forall>n e. om_get (bs_store s) n = Some e \<longrightarrow> entry_ok env (bs_log s) n e))"

lemma entry_later:
  "entry_ok env es n e \<Longrightarrow> (\<forall>h b t d. x \<noteq> Sent n h b t d) \<Longrightarrow> entry_ok env (x # es) n e"
  by (cases x) (auto simp: entry_ok_def)

lemma entry_issued: "entry_ok env es n e \<Longrightarrow> n \<in> issued_nonces es"
  by (auto simp: entry_ok_def issued_nonces_def)

text \<open>An operation that only drops entries keeps the invariant.\<close>

lemma fewer_entries:
  assumes "bridge_ok env s" and "om_inv st'" and "\<And>m. om_get st' m = om_get (bs_store s) m \<or> om_get st' m = None
      \<or> om_get st' m = if_pending tm (om_get (bs_store s) m)"
  shows "bridge_ok env (s\<lparr>bs_store := st'\<rparr>)"
proof -
  have "om_get st' m = Some e \<Longrightarrow> om_get (bs_store s) m = Some e" for m e
    using assms(3) [of m] by (auto simp: if_pending_Some dest!: sym [of "Some e"])
  then show ?thesis using assms(1,2) by (simp add: bridge_ok_def)
qed

lemma sent_step:
  assumes ok: "bridge_ok env s" and x: "writeExecuteRoute env h b tm (bs_store s) = (Inr (Dispatched d), st')"
    and w: "write_actor env WRITE_EXECUTE h b tm = Inr (body, actor)"
  shows "bridge_ok env \<lparr>bs_store = st', bs_log = Sent (text_or_empty (getp body ''nonce'')) h b tm d # bs_log s\<rparr>"
proof -
  have inv: "om_inv (bs_store s)" using ok by (simp add: bridge_ok_def)
  obtain e resolved where p: "execute_passes env h b tm actor (text_or_empty (getp body ''nonce'')) e resolved"
    and e: "om_get (bs_store s) (text_or_empty (getp body ''nonce'')) = Some e" "tm < n_expiresAt e" "v_dual resolved \<longrightarrow> n_secondRequired e"
    and d: "d = dispatch_of resolved (n_action e) (discordActorTier actor (be_mapping env)) actor (n_params e)"
    and st': "om_inv st'" "\<forall>m. om_get st' m = (if m = text_or_empty (getp body ''nonce'') then None else om_get (bs_store s) m)"
    using execute_dispatches [OF inv x] w by (fastforce simp: execute_passes_def)
  let ?n = "text_or_empty (getp body ''nonce'')"
  have eo: "entry_ok env (bs_log s) ?n e" using ok e(1) by (simp add: bridge_ok_def)
  have da: "d_action d = n_action e" "d_tier d = discordActorTier actor (be_mapping env)" using d by (simp_all add: dispatch_of_def Let_def)
  have "\<exists>t0. Issued ?n (n_actor e) (d_action d) (n_params e) t0 \<in> set (bs_log s)
      \<and> (if v_dual resolved
         then n_actor e \<noteq> a_userId actor \<and> (\<exists>t1. Confirmed ?n (n_actor e) t1 \<in> set (bs_log s) \<and> tm < t1 + 300000)
         else n_actor e = a_userId actor \<and> tm < t0 + defaultTtlSecondsForAction (d_action d) * 1000)"
    using eo e(2,3) p da by (auto simp: entry_ok_def execute_passes_def nonce_owner_def split: if_splits)
  then have "sent_justified env (bs_log s) ?n h b tm d"
    using eo w p d da unfolding sent_justified_def execute_passes_def entry_ok_def by (metis (no_types, lifting))
  moreover have "entry_ok env (Sent ?n h b tm d # bs_log s) m e'" if "om_get st' m = Some e'" for m e'
    using that st'(2) ok by (intro entry_later) (auto simp: bridge_ok_def split: if_splits)
  ultimately show ?thesis
    using ok st'(1) entry_issued [OF eo] by (auto simp: bridge_ok_def)
qed

lemma confirmed_step:
  assumes ok: "bridge_ok env s" and x: "writeExecuteRoute env h b tm (bs_store s) = (Inr (SecondConfirmation n y), st')"
    and w: "write_actor env WRITE_EXECUTE h b tm = Inr (body, actor)"
  shows "bridge_ok env \<lparr>bs_store = st', bs_log = Confirmed n (a_userId actor) tm # bs_log s\<rparr>"
proof -
  have inv: "om_inv (bs_store s)" using ok by (simp add: bridge_ok_def)
  obtain e resolved where p: "execute_passes env h b tm actor n e resolved" "om_get (bs_store s) n = Some e" "v_dual resolved"
    "\<not> n_secondRequired e" "y = tm + 300000" "om_inv st'"
    "\<forall>m. om_get st' m = (if m = n then Some (e\<lparr>n_secondRequired := True, n_primaryAt := Some tm, n_expiresAt := y\<rparr>)
       else om_get (bs_store s) m)"
    using execute_confirms [OF inv x] w by (fastforce simp: execute_passes_def)
  have owner: "n_actor e = a_userId actor" "resolveWriteActionRoute (be_table env) (n_action e) (n_params e) = Inr (Some resolved)"
    using p(1,4) by (auto simp: execute_passes_def nonce_owner_def split: if_splits)
  have eo: "entry_ok env (bs_log s) n e" using ok p(2) by (simp add: bridge_ok_def)
  have "entry_ok env (Confirmed n (a_userId actor) tm # bs_log s) m e'" if "om_get st' m = Some e'" for m e'
  proof (cases "m = n")
    case True
    then show ?thesis using that p(3,5,7) owner eo by (auto simp: entry_ok_def)
  next
    case False
    then have "om_get (bs_store s) m = Some e'" using that p(7) by simp
    then show ?thesis using ok by (intro entry_later) (simp_all add: bridge_ok_def)
  qed
  then show ?thesis using ok p(6) by (auto simp: bridge_ok_def)
qed

lemma previewed_step:
  assumes ok: "bridge_ok env s" and x: "writePreviewRoute env h b tm uuid (bs_store s) = (Inr r, st')"
    and w: "write_actor env WRITE_PREVIEW h b tm = Inr (body, actor)" and new: "uuid \<notin> issued_nonces (bs_log s)"
  shows "bridge_ok env \<lparr>bs_store = st',
      bs_log = Issued (p_nonce r) (a_userId actor) (p_action r) (js_or (getp body ''params'') (Obj [])) tm # bs_log s\<rparr>"
proof -
  have inv: "om_inv (bs_store s)" using ok by (simp add: bridge_ok_def)
  have r: "p_nonce r = uuid" "p_expiresAt r = tm + defaultTtlSecondsForAction (p_action r) * 1000" "om_inv st'"
    "om_get st' m = (if m = uuid then Some \<lparr>n_actor = a_userId actor, n_action = p_action r,
          n_params = js_or (getp body ''params'') (Obj []), n_expiresAt = p_expiresAt r, n_secondRequired = False, n_primaryAt = None\<rparr>
        else if_pending tm (om_get (bs_store s) m))" for m
    using preview_reply [OF inv x] w by auto
  let ?i = "Issued (p_nonce r) (a_userId actor) (p_action r) (js_or (getp body ''params'') (Obj [])) tm"
  have unsent: "uuid \<notin> sent_nonces (bs_log s)" using ok new unfolding bridge_ok_def by blast
  have "entry_ok env (?i # bs_log s) m e'" if "om_get st' m = Some e'" for m e'
  proof (cases "m = uuid")
    case True
    then show ?thesis using that r unsent by (auto simp: entry_ok_def)
  next
    case False
    then have "om_get (bs_store s) m = Some e'" using that r(4) [of m] by (simp add: if_pending_Some)
    then show ?thesis using ok by (intro entry_later) (simp_all add: bridge_ok_def)
  qed
  then show ?thesis using ok r(1,3) new by (auto simp: bridge_ok_def)
qed

lemma bridge_step_ok: "bridge_step env s s' \<Longrightarrow> bridge_ok env s \<Longrightarrow> bridge_ok env s'"
proof (induction rule: bridge_step.induct)
  case (preview_refused h b tm uuid s x st')
  then show ?case using preview_error fewer_entries by (metis bridge_ok_def)
next
  case (execute_refused h b tm s x st')
  then show ?case using execute_error fewer_entries by (metis bridge_ok_def)
next
  case (pruned s tm)
  then show ?case using nonces.prune_spec fewer_entries by (metis bridge_ok_def)
next
  case (previewed h b tm uuid s r st' body actor)
  then show ?case by (intro previewed_step)
next
  case (confirmed h b tm s n x st' body actor)
  then show ?case by (intro confirmed_step)
next
  case (sent h b tm s d st' body actor)
  then show ?case by (intro sent_step)
qed

lemma reachable_ok: "bridge_reachable env s \<Longrightarrow> bridge_ok env s"
proof (induction rule: bridge_reachable.induct)
  case start
  then show ?case by (simp add: bridge_ok_def)
qed (use bridge_step_ok in blast)

lemma log_ok_split: "log_ok env (pre @ Sent n h b t d # es) \<Longrightarrow> sent_justified env es n h b t d"
proof (induction pre)
  case (Cons x pre)
  then show ?case by (cases x) auto
qed simp

text \<open>
  C2. A request reaches the console for a confirmation at most once, and only if it was earned: in any run of the
  bridge, over all actors and interleavings, a request that was sent for a nonce is the only one for it, and
  before it the nonce had been issued for the very action and parameters that are sent; the sender's signed
  roles, as fresh as demanded, meet the tier the action needs; and the sender is the actor of the preview, within
  the time granted to it, or, where the action asks for two confirmations, somebody else than the actor who
  previewed and confirmed it within the last five minutes.
\<close>

theorem sent_once_and_earned:
  assumes "bridge_reachable env s" and "bs_log s = later @ Sent nonce headers body0 tm d # before"
  shows "sent_justified env before nonce headers body0 tm d \<and> nonce \<notin> sent_nonces later"
proof
  have log: "log_ok env (later @ Sent nonce headers body0 tm d # before)"
    using reachable_ok [OF assms(1)] assms(2) by (simp add: bridge_ok_def)
  then show "sent_justified env before nonce headers body0 tm d" by (rule log_ok_split)
  show "nonce \<notin> sent_nonces later"
  proof
    assume "nonce \<in> sent_nonces later"
    then obtain h b t d' l1 l2 where "later = l1 @ Sent nonce h b t d' # l2"
      by (auto simp: sent_nonces_def dest: split_list)
    then have "sent_justified env (l2 @ Sent nonce headers body0 tm d # before) nonce h b t d'"
      using log log_ok_split [of env l1 nonce h b t d'] by simp
    then show False by (auto simp: sent_justified_def sent_nonces_def)
  qed
qed

section \<open>A run\<close>

definition sample_bridge_env :: bridge_env where
  "sample_bridge_env = \<lparr>be_sig = sample_sig_env, be_writes = Bool True, be_mapping = Obj [(''adminRoleIds'', Str ''11, 12'')],
     be_table = WRITE_ACTION_ROUTES, be_roleAge = Undef\<rparr>"

definition sample_actor :: jsval where
  "sample_actor = Obj [(''userId'', Str ''7''), (''username'', Str ''ann''), (''roleIds'', Arr [Str ''12'']),
     (''guildId'', Str ''9''), (''channelId'', Str ''4''), (''roleSnapshotAt'', Number (Num 990))]"

definition sample_body :: jsval where
  "sample_body = Obj [(''actor'', sample_actor), (''action'', Str ''player.kick''), (''nonce'', Str ''n1''),
     (''params'', Obj [(''playerId'', Str ''A'')])]"

definition sample_normal :: discord_actor where
  "sample_normal = \<lparr>a_guildId = ''9'', a_channelId = ''4'', a_userId = ''7'', a_username = ''ann'', a_roleIds = [''12''],
     a_interactionId = [], a_commandName = [], a_guildOwnerId = [], a_roleSnapshotAt = Number (Num 990)\<rparr>"

definition sample_resolved :: resolved_route where
  "sample_resolved = \<lparr>v_method = ''POST'', v_path = ''/api/players/A/kick'', v_confirmPhrase = None,
     v_policyAction = ''players:moderate'', v_dual = False\<rparr>"

definition sample_entry :: nonce_entry where
  "sample_entry = \<lparr>n_actor = ''7'', n_action = ''player.kick'', n_params = Obj [(''playerId'', Str ''A'')],
     n_expiresAt = 1055000, n_secondRequired = False, n_primaryAt = None\<rparr>"

lemma sample_write_actor:
  "tm div 1000 \<in> {995, 1020} \<Longrightarrow> write_actor sample_bridge_env route sample_headers sample_body tm = Inr (sample_body, sample_normal)"
proof -
  have "normalizeDiscordActor (getp sample_body ''actor'') = Inr sample_normal" "discordWritesEnabled (Bool True)"
    "requireDiscordCapability sample_normal (be_mapping sample_bridge_env) ''write-bridge:access'' = Inr ()"
    "without_owner_claim sample_body = sample_body" "actorSignatureRequired sample_sig_env"
    by code_simp+
  then show "tm div 1000 \<in> {995, 1020} \<Longrightarrow> ?thesis"
    using sample_verified [of "tm div 1000"]
    by (simp add: write_actor_def readJsonWithActorSignature_def sample_bridge_env_def)
qed

lemma sample_gates:
  "text_or_empty (getp sample_body ''action'') = ''player.kick''" "text_or_empty (getp sample_body ''nonce'') = ''n1''"
  "resolveWriteActionRoute (be_table sample_bridge_env) ''player.kick'' (Obj [(''playerId'', Str ''A'')]) = Inr (Some sample_resolved)"
  "getp sample_body ''params'' = Obj [(''playerId'', Str ''A'')]" "a_userId sample_normal = ''7''"
  "discordActorTier sample_normal (be_mapping sample_bridge_env) = ''admin''" "meetsMinTier ''admin'' ''player.kick'' = Some True"
  "fresh_snapshot sample_bridge_env 1020000 (a_roleSnapshotAt sample_normal) = Inr ()"
  "create_nonce ''n1'' ''7'' ''player.kick'' (Obj [(''playerId'', Str ''A'')]) None 995000 []
     = (Inr (''n1'', 1055000), [(''n1'', sample_entry)])"
  "peek_nonce ''n1'' 1020000 [(''n1'', sample_entry)] = (Some sample_entry, [(''n1'', sample_entry)])"
  "n_action sample_entry = ''player.kick''" "n_params sample_entry = Obj [(''playerId'', Str ''A'')]"
  "nonce_owner sample_resolved sample_entry sample_normal = Inr ()"
  by code_simp+

definition sample_dispatch :: dispatch where
  "sample_dispatch = \<lparr>d_method = ''POST'', d_path = ''/api/players/A/kick'', d_action = ''player.kick'', d_tier = ''admin'',
     d_userId = ''7'', d_username = ''ann'', d_body = [(''playerId'', Str ''A'')]\<rparr>"

lemma sample_last:
  "confirm_or_dispatch ''n1'' ''player.kick'' sample_resolved ''admin'' sample_normal sample_entry 1020000 [(''n1'', sample_entry)]
     = (Inr (Dispatched sample_dispatch), [])"
  "js_or (Obj [(''playerId'', Str ''A'')]) (Obj []) = Obj [(''playerId'', Str ''A'')]"
  by code_simp+

definition sample_reply :: preview_reply where
  "sample_reply = \<lparr>p_nonce = ''n1'', p_expiresAt = 1055000, p_action = ''player.kick'', p_confirmPhrase = None\<rparr>"

lemma sample_preview:
  "writePreviewRoute sample_bridge_env sample_headers sample_body 995000 ''n1'' []
     = (Inr sample_reply, [(''n1'', sample_entry)])"
  using sample_write_actor [of 995000] sample_gates sample_last
  by (simp add: writePreviewRoute_def Let_def) (simp add: sample_resolved_def sample_reply_def)

lemma sample_execute:
  "writeExecuteRoute sample_bridge_env sample_headers sample_body 1020000 [(''n1'', sample_entry)] = (Inr (Dispatched sample_dispatch), [])"
  using sample_write_actor [of 1020000] sample_gates sample_last
  by (simp add: writeExecuteRoute_def Let_def)

definition sample_state :: write_run where
  "sample_state = \<lparr>bs_store = [(''n1'', sample_entry)],
     bs_log = [Issued ''n1'' ''7'' ''player.kick'' (Obj [(''playerId'', Str ''A'')]) 995000]\<rparr>"

lemma sample_reached: "bridge_reachable sample_bridge_env sample_state"
proof -
  have "bridge_step sample_bridge_env \<lparr>bs_store = [], bs_log = []\<rparr> sample_state"
    using bridge_step.previewed [of sample_bridge_env sample_headers sample_body 995000 "''n1''" "\<lparr>bs_store = [], bs_log = []\<rparr>"
        sample_reply "[(''n1'', sample_entry)]" sample_body sample_normal]
      sample_preview sample_write_actor [of 995000] sample_gates sample_last by (simp add: sample_reply_def sample_state_def)
  then show ?thesis by (blast intro: bridge_reachable.intros)
qed

lemma sample_sent_reached:
  "bridge_reachable sample_bridge_env \<lparr>bs_store = [],
     bs_log = Sent ''n1'' sample_headers sample_body 1020000 sample_dispatch # bs_log sample_state\<rparr>"
proof -
  have "bridge_step sample_bridge_env sample_state
      \<lparr>bs_store = [], bs_log = Sent ''n1'' sample_headers sample_body 1020000 sample_dispatch # bs_log sample_state\<rparr>"
    using bridge_step.sent [of sample_bridge_env sample_headers sample_body 1020000 sample_state sample_dispatch "[]" sample_body sample_normal]
      sample_execute sample_write_actor [of 1020000] sample_gates by (simp add: sample_state_def)
  with sample_reached show ?thesis by (blast intro: bridge_reachable.intros)
qed

theorem sent_once_and_earned_witness:
  "\<exists>s before d. bridge_reachable sample_bridge_env s \<and> bs_log s = Sent ''n1'' sample_headers sample_body 1020000 d # before
     \<and> before = [Issued ''n1'' ''7'' ''player.kick'' (Obj [(''playerId'', Str ''A'')]) 995000]
     \<and> sent_justified sample_bridge_env before ''n1'' sample_headers sample_body 1020000 d \<and> d_path d = ''/api/players/A/kick''"
proof -
  have "sent_justified sample_bridge_env (bs_log sample_state) ''n1'' sample_headers sample_body 1020000 sample_dispatch"
    using sent_once_and_earned [OF sample_sent_reached, of "[]" "''n1''"] by simp
  moreover have "bs_log sample_state = [Issued ''n1'' ''7'' ''player.kick'' (Obj [(''playerId'', Str ''A'')]) 995000]"
    "d_path sample_dispatch = ''/api/players/A/kick''" by (simp_all add: sample_state_def sample_dispatch_def)
  ultimately show ?thesis using sample_sent_reached
    by (metis write_run.select_convs(2))
qed

section \<open>How many confirmations can be pending\<close>

lemma last_count:
  assumes "om_inv st" and "confirm_or_dispatch n act res tier actor e tm st = (r, st')"
  shows "countForActor a st' \<le> countForActor a st"
  using assms nonces.consume_spec [OF assms(1)] nonces.mark_spec [OF assms(1)]
  by (fastforce simp: confirm_or_dispatch_def split: if_splits prod.splits option.splits)

lemma execute_state:
  assumes "writeExecuteRoute env h b tm st = (r, st')"
  shows "st' = st \<or> (\<exists>n x s1. peek_nonce n tm st = (x, s1) \<and> (st' = s1
      \<or> (\<exists>act res tier actor e. confirm_or_dispatch n act res tier actor e tm s1 = (r, st'))))"
  using assms unfolding writeExecuteRoute_def
  by (auto simp: Let_def split: sum.splits prod.splits if_splits option.splits)

lemma execute_count:
  assumes "om_inv st" and "writeExecuteRoute env h b tm st = (r, st')"
  shows "countForActor a st' \<le> countForActor a st"
proof -
  have peeked: "om_inv s1 \<and> countForActor a s1 \<le> countForActor a st" if "peek_nonce n tm st = (x, s1)" for n x s1
    using nonces.peek_spec [OF assms(1) that] by blast
  show ?thesis using execute_state [OF assms(2)] peeked last_count by (metis order_refl order_trans)
qed

lemma preview_count:
  assumes "om_inv st" and "om_get st uuid = None" and "countForActor a st \<le> MAX_ENTRIES_PER_ACTOR"
    and "writePreviewRoute env h b tm uuid st = (Inr r, st')"
  shows "countForActor a st' \<le> MAX_ENTRIES_PER_ACTOR"
proof -
  have "countForActor a (snd (create_nonce uuid v act p None tm st)) \<le> MAX_ENTRIES_PER_ACTOR" for v act p
    by (rule nonces.create_count [OF assms(1-3)])
  moreover have "\<exists>v act p x. create_nonce uuid v act p None tm st = (x, st')"
    using assms(4) unfolding writePreviewRoute_def
    by (fastforce simp: Let_def split: sum.splits prod.splits if_splits option.splits)
  ultimately show ?thesis by (metis snd_conv)
qed

lemma bridge_step_count:
  assumes "bridge_step env s s'" and "bridge_ok env s" and "countForActor a (bs_store s) \<le> MAX_ENTRIES_PER_ACTOR"
  shows "countForActor a (bs_store s') \<le> MAX_ENTRIES_PER_ACTOR"
  using assms
proof (induction rule: bridge_step.induct)
  case (previewed h b tm uuid s r st' body actor)
  have "om_get (bs_store s) uuid = None"
    using previewed(2,4) entry_issued unfolding bridge_ok_def by (metis not_None_eq)
  then show ?case using preview_count [OF _ _ previewed(5,1)] previewed(4) by (simp add: bridge_ok_def)
next
  case (preview_refused h b tm uuid s x st')
  then show ?case using preview_error [OF _ preview_refused(1), of _ a] by (fastforce simp: bridge_ok_def)
next
  case (pruned s tm)
  then show ?case using nonces.prune_spec [of "bs_store s" tm _ a] by (fastforce simp: bridge_ok_def)
qed (use execute_count [of _ _ _ _ _ _ _ a] in \<open>fastforce simp: bridge_ok_def\<close>)+

text \<open>
  The store of confirmations stays small: however often an actor previews, in any run at most 20 of its
  confirmations are kept, and each of them was issued to it and is not yet used.
\<close>

theorem pending_confirmations_bounded:
  assumes "bridge_reachable env s"
  shows "countForActor a (bs_store s) \<le> 20
    \<and> (\<forall>n e. om_get (bs_store s) n = Some e \<longrightarrow> n \<notin> sent_nonces (bs_log s)
         \<and> (\<exists>t0. Issued n (n_actor e) (n_action e) (n_params e) t0 \<in> set (bs_log s)))"
proof
  have "countForActor a (bs_store s) \<le> MAX_ENTRIES_PER_ACTOR"
    using assms
  proof (induction rule: bridge_reachable.induct)
    case start
    then show ?case by (simp add: countForActor_def)
  next
    case (more s s')
    then show ?case using bridge_step_count reachable_ok by blast
  qed
  then show "countForActor a (bs_store s) \<le> 20" by (simp add: MAX_ENTRIES_PER_ACTOR_def)
  show "\<forall>n e. om_get (bs_store s) n = Some e \<longrightarrow> n \<notin> sent_nonces (bs_log s)
         \<and> (\<exists>t0. Issued n (n_actor e) (n_action e) (n_params e) t0 \<in> set (bs_log s))"
    using reachable_ok [OF assms] unfolding bridge_ok_def entry_ok_def by blast
qed

theorem pending_confirmations_bounded_witness:
  "\<exists>s. bridge_reachable sample_bridge_env s \<and> countForActor ''7'' (bs_store s) = 1 \<and> countForActor ''7'' (bs_store s) \<le> 20"
proof -
  have "countForActor ''7'' (bs_store sample_state) = 1" by (simp add: countForActor_def sample_state_def sample_entry_def)
  then show ?thesis using pending_confirmations_bounded [OF sample_reached, of "''7''"] sample_reached by blast
qed

section \<open>Who can use up a confirmation\<close>

lemma pending_again: "if_pending tm (if_pending tm x) = if_pending tm x"
  by (cases "if_pending tm x") (auto simp: if_pending_Some)

lemma preview_keeps:
  assumes "om_inv st" and "writePreviewRoute env h b tm uuid st = (r, st')" and "n \<noteq> uuid"
  shows "if_pending tm (om_get st' n) = if_pending tm (om_get st n)"
proof (cases r)
  case (Inl x)
  then show ?thesis using preview_error [OF assms(1), of env h b tm uuid x st' n] assms(2) pending_again by metis
next
  case (Inr x)
  then show ?thesis using preview_reply [OF assms(1), of env h b tm uuid x st'] assms(2,3) pending_again by metis
qed

text \<open>
  C14. Nobody else can spend a pending confirmation, and no failed attempt does: if after a request to either
  route a confirmation is no longer pending as it was, then the request was an execute that passed every gate
  for this very nonce, signed by the actor it was issued to or, once that actor has confirmed an action that
  needs two confirmations, by another authorised actor.
\<close>

theorem only_rightful_actor_spends:
  assumes "om_inv st" and "if_pending tm (om_get st n) = Some e"
  shows "(writePreviewRoute env h b tm uuid st = (r, st') \<and> uuid \<noteq> n \<longrightarrow> if_pending tm (om_get st' n) = Some e)
    \<and> (writeExecuteRoute env h b tm st = (r', st') \<and> if_pending tm (om_get st' n) \<noteq> Some e \<longrightarrow>
      (\<exists>actor resolved. execute_passes env h b tm actor n e resolved \<and> (\<exists>reply. r' = Inr reply)
        \<and> (if v_dual resolved \<and> n_secondRequired e then n_actor e \<noteq> a_userId actor else n_actor e = a_userId actor)))"
proof (intro conjI impI)
  show "if_pending tm (om_get st' n) = Some e" if "writePreviewRoute env h b tm uuid st = (r, st') \<and> uuid \<noteq> n"
    using preview_keeps [OF assms(1), of env h b tm uuid r st' n] assms(2) that by auto
next
  assume x: "writeExecuteRoute env h b tm st = (r', st') \<and> if_pending tm (om_get st' n) \<noteq> Some e"
  have owner: "if v_dual resolved \<and> n_secondRequired e then n_actor e \<noteq> a_userId actor else n_actor e = a_userId actor"
    if "execute_passes env h b tm actor n e resolved" for actor resolved
    using that by (auto simp: execute_passes_def nonce_owner_def split: if_splits)
  have e: "om_get st n = Some e" "pending_at tm e" using assms(2) by (auto simp: if_pending_Some)
  show "\<exists>actor resolved. execute_passes env h b tm actor n e resolved \<and> (\<exists>reply. r' = Inr reply)
        \<and> (if v_dual resolved \<and> n_secondRequired e then n_actor e \<noteq> a_userId actor else n_actor e = a_userId actor)"
  proof (cases r')
    case (Inl y)
    then have "om_get st' n = om_get st n" using execute_error [OF assms(1), of env h b tm y st' n] x assms(2) by auto
    then show ?thesis using x assms(2) by simp
  next
    case (Inr reply)
    have "\<exists>actor resolved. execute_passes env h b tm actor n e resolved"
    proof (cases reply)
      case (SecondConfirmation m y)
      then obtain actor e' resolved where "execute_passes env h b tm actor m e' resolved" "om_get st m = Some e'"
        "\<forall>k. k \<noteq> m \<longrightarrow> om_get st' k = om_get st k"
        using execute_confirms [OF assms(1), of env h b tm m y st'] x Inr by auto
      then show ?thesis using x e assms(2) by (cases "m = n") auto
    next
      case (Dispatched d)
      then obtain actor m e' resolved where "execute_passes env h b tm actor m e' resolved" "om_get st m = Some e'"
        "\<forall>k. k \<noteq> m \<longrightarrow> om_get st' k = om_get st k"
        using execute_dispatches [OF assms(1), of env h b tm d st'] x Inr by auto
      then show ?thesis using x e assms(2) by (cases "m = n") auto
    qed
    then show ?thesis using owner Inr by blast
  qed
qed

theorem only_rightful_actor_spends_witness:
  "\<exists>actor resolved. execute_passes sample_bridge_env sample_headers sample_body 1020000 actor ''n1'' sample_entry resolved
     \<and> a_userId actor = n_actor sample_entry"
proof -
  have "om_inv [(''n1'', sample_entry)]" "if_pending 1020000 (om_get [(''n1'', sample_entry)] ''n1'') = Some sample_entry"
    by (simp_all add: om_inv_def om_get_def pending_at_def sample_entry_def)
  from only_rightful_actor_spends [OF this, of sample_bridge_env sample_headers sample_body _ _ "[]"] sample_execute
  obtain actor resolved where p: "execute_passes sample_bridge_env sample_headers sample_body 1020000 actor ''n1'' sample_entry resolved"
    "n_actor sample_entry = a_userId actor" by (fastforce simp: sample_entry_def)
  then show ?thesis by metis
qed

section \<open>From the preview to the request\<close>

lemma single_confirmations: "resolveWriteActionRoute WRITE_ACTION_ROUTES action params = Inr (Some r) \<Longrightarrow> \<not> v_dual r"
proof -
  have "list_all (\<lambda>(a, e). \<not> e_dual e) WRITE_ACTION_ROUTES" by (simp add: WRITE_ACTION_ROUTES_def write_route_def)
  then show "resolveWriteActionRoute WRITE_ACTION_ROUTES action params = Inr (Some r) \<Longrightarrow> ?thesis"
    by (auto simp: resolveWriteActionRoute_def list_all_iff dest!: map_of_SomeD split: option.splits)
qed

lemma execute_sends:
  assumes "write_actor env WRITE_EXECUTE h b tm = Inr (body, actor)"
    and "text_or_empty (getp body ''nonce'') = n" and "n \<noteq> []" and "om_get st n = Some e" and "tm < n_expiresAt e"
    and "text_or_empty (getp body ''action'') = n_action e"
    and "resolveWriteActionRoute (be_table env) (n_action e) (n_params e) = Inr (Some resolved)" and "\<not> v_dual resolved"
    and "n_actor e = a_userId actor" and "meetsMinTier (discordActorTier actor (be_mapping env)) (n_action e) = Some True"
    and "fresh_snapshot env tm (a_roleSnapshotAt actor) = Inr ()"
  shows "writeExecuteRoute env h b tm st = (Inr (Dispatched (dispatch_of resolved (n_action e)
      (discordActorTier actor (be_mapping env)) actor (n_params e))), om_delete n st)"
  using assms by (simp add: writeExecuteRoute_def Let_def peek_nonce_def nonce_owner_def confirm_or_dispatch_def consume_nonce_def)

lemma execute_spent:
  assumes "write_actor env WRITE_EXECUTE h b tm = Inr (body, actor)"
    and "text_or_empty (getp body ''nonce'') = n" and "n \<noteq> []" and "om_get st n = None"
  shows "writeExecuteRoute env h b tm st = (Inl (''nonce_not_found'', 410), st)"
  using assms by (simp add: writeExecuteRoute_def Let_def peek_nonce_def)

lemma preview_resolves:
  assumes "writePreviewRoute env headers body0 tm uuid st = (Inr r, st')"
    and "write_actor env WRITE_PREVIEW headers body0 tm = Inr (body, actor)"
  shows "\<exists>resolved. resolveWriteActionRoute (be_table env) (p_action r) (getp body ''params'') = Inr (Some resolved)
    \<and> p_confirmPhrase r = v_confirmPhrase resolved"
  using assms unfolding writePreviewRoute_def
  by (auto simp: Let_def split: sum.splits prod.splits if_splits option.splits)

lemma resolve_default: "resolveWriteActionRoute table action (js_or params (Obj [])) = resolveWriteActionRoute table action params"
  by (cases "map_of table action") (simp_all add: resolveWriteActionRoute_def js_or_twice)

text \<open>
  C28. A confirmed action is carried out, and once: with the real table of write actions, right after an accepted preview
  the same user's signed execute for the returned nonce and action, before the expiry the preview announced and
  with a fresh role snapshot and a sufficient tier, is dispatched with the previewed parameters, the route they
  resolve to and the confirmation phrase the preview showed; the next execute for the nonce is answered 410.
\<close>

theorem previewed_action_is_sent_once:
  assumes "om_inv st" and "be_table env = WRITE_ACTION_ROUTES"
    and "writePreviewRoute env h b t0 uuid st = (Inr r, st1)" and "write_actor env WRITE_PREVIEW h b t0 = Inr (pbody, pactor)"
    and "write_actor env WRITE_EXECUTE h' b' tm = Inr (body, actor)"
    and "text_or_empty (getp body ''nonce'') = p_nonce r" and "p_nonce r \<noteq> []" and "tm < p_expiresAt r"
    and "text_or_empty (getp body ''action'') = p_action r" and "a_userId actor = a_userId pactor"
    and "meetsMinTier (discordActorTier actor (be_mapping env)) (p_action r) = Some True"
    and "fresh_snapshot env tm (a_roleSnapshotAt actor) = Inr ()"
    and "write_actor env WRITE_EXECUTE h2 b2 t2 = Inr (body2, actor2)" and "text_or_empty (getp body2 ''nonce'') = p_nonce r"
  shows "\<exists>resolved st2.
      resolveWriteActionRoute WRITE_ACTION_ROUTES (p_action r) (getp pbody ''params'') = Inr (Some resolved)
    \<and> p_confirmPhrase r = v_confirmPhrase resolved
    \<and> writeExecuteRoute env h' b' tm st1 = (Inr (Dispatched (dispatch_of resolved (p_action r)
        (discordActorTier actor (be_mapping env)) actor (js_or (getp pbody ''params'') (Obj [])))), st2)
    \<and> writeExecuteRoute env h2 b2 t2 st2 = (Inl (''nonce_not_found'', 410), st2)"
proof -
  obtain resolved where r: "resolveWriteActionRoute WRITE_ACTION_ROUTES (p_action r) (getp pbody ''params'') = Inr (Some resolved)"
    "p_confirmPhrase r = v_confirmPhrase resolved" using preview_resolves [OF assms(3,4)] assms(2) by auto
  let ?e = "\<lparr>n_actor = a_userId pactor, n_action = p_action r, n_params = js_or (getp pbody ''params'') (Obj []),
    n_expiresAt = p_expiresAt r, n_secondRequired = False, n_primaryAt = None\<rparr>"
  have e: "om_get st1 (p_nonce r) = Some ?e" using preview_reply [OF assms(1,3)] assms(4) by auto
  have "writeExecuteRoute env h' b' tm st1 = (Inr (Dispatched (dispatch_of resolved (n_action ?e)
        (discordActorTier actor (be_mapping env)) actor (n_params ?e))), om_delete (p_nonce r) st1)"
    by (rule execute_sends [OF assms(5,6,7) e])
      (use assms r single_confirmations [OF r(1)] in \<open>simp_all add: resolve_default\<close>)
  moreover have "writeExecuteRoute env h2 b2 t2 (om_delete (p_nonce r) st1) = (Inl (''nonce_not_found'', 410), om_delete (p_nonce r) st1)"
    by (rule execute_spent [OF assms(13,14,7)]) (simp add: om_get_delete)
  ultimately show ?thesis using r by auto
qed

theorem previewed_action_is_sent_once_witness:
  "\<exists>r st1 d st2. writePreviewRoute sample_bridge_env sample_headers sample_body 995000 ''n1'' [] = (Inr r, st1)
     \<and> writeExecuteRoute sample_bridge_env sample_headers sample_body 1020000 st1 = (Inr (Dispatched d), st2)
     \<and> writeExecuteRoute sample_bridge_env sample_headers sample_body 1020000 st2 = (Inl (''nonce_not_found'', 410), st2)"
proof -
  have "be_table sample_bridge_env = WRITE_ACTION_ROUTES" by (simp add: sample_bridge_env_def)
  moreover have "p_nonce sample_reply = ''n1''" "p_action sample_reply = ''player.kick''" "p_expiresAt sample_reply = 1055000"
    by (simp_all add: sample_reply_def)
  ultimately show ?thesis
    using previewed_action_is_sent_once [of "[]" sample_bridge_env sample_headers sample_body 995000 "''n1''" sample_reply "[(''n1'', sample_entry)]"
        sample_body sample_normal sample_headers sample_body 1020000 sample_body sample_normal sample_headers sample_body 1020000 sample_body
        sample_normal] sample_preview sample_write_actor [of 995000] sample_write_actor [of 1020000] sample_gates by auto
qed

section \<open>What the signature of an execute request leaves open\<close>

lemma read_obj_set: "getp (obj_set k x (Obj ps)) k' = (if k' = k then x else getp (Obj ps) k')"
  using om_get_set [of k x ps k'] by (simp add: obj_set_def om_get_def)

lemma without_owner_keeps: "k \<noteq> ''actor'' \<Longrightarrow> getp (without_owner_claim (Obj ps)) k = getp (Obj ps) k"
  using read_obj_set [of "''actor''" _ ps k] by (auto simp: without_owner_claim_def split: jsval.splits)

lemma without_owner_actor: "getp (without_owner_claim (Obj ps)) ''actor'' =
    (case getp (Obj ps) ''actor'' of Obj qs \<Rightarrow> Obj (om_delete ''guildOwnerId'' qs) | v \<Rightarrow> v)"
  using read_obj_set [of "''actor''" _ ps "''actor''"] by (auto simp: without_owner_claim_def split: jsval.splits)

lemma other_nonce_same_actor:
  assumes "write_actor env route h (Obj ps) tm = Inr (body, actor)"
  shows "\<exists>body'. write_actor env route h (obj_set ''nonce'' (Str n) (Obj ps)) tm = Inr (body', actor)
    \<and> getp body' ''nonce'' = Str n \<and> getp body' ''action'' = getp body ''action''"
proof -
  obtain qs where q: "obj_set ''nonce'' (Str n) (Obj ps) = Obj qs" by (simp add: obj_set_def)
  have g: "getp (Obj qs) k = (if k = ''nonce'' then Str n else getp (Obj ps) k)" for k
    using read_obj_set [of "''nonce''" "Str n" ps k] q by simp
  have "actor_payload (Obj qs) names = actor_payload (Obj ps) names" for names
    by (simp add: actor_payload_def add_field_def g del: getp.simps)
  then have v: "verifyActorSignature (be_sig env) (actor_payload (Obj qs) WRITE_BRIDGE_SIGNED_ACTOR_FIELDS) h route True (tm div 1000)
      WRITE_BRIDGE_SIGNED_ACTOR_FIELDS = verifyActorSignature (be_sig env) (actor_payload (Obj ps) WRITE_BRIDGE_SIGNED_ACTOR_FIELDS) h
      route True (tm div 1000) WRITE_BRIDGE_SIGNED_ACTOR_FIELDS" by simp
  have "getp (without_owner_claim (Obj qs)) ''actor'' = getp (without_owner_claim (Obj ps)) ''actor''"
    by (simp add: without_owner_actor g del: getp.simps)
  then show ?thesis using assms v
    by (auto simp: write_actor_def readJsonWithActorSignature_def q without_owner_keeps g simp del: getp.simps
        split: if_splits sum.splits)
qed

text \<open>
  C39. The signature of an execute request does not cover the nonce, and the signed parameters are not compared
  with those of the confirmation: an accepted execute request is also accepted, with the same headers and within
  the same time, when its nonce is replaced by another pending one of the same actor and action, and it then
  carries out the parameters of that other confirmation: path, body and phrase are built from them.
\<close>

theorem execute_signature_leaves_nonce_open:
  assumes "be_table env = WRITE_ACTION_ROUTES" and "om_inv st"
    and "writeExecuteRoute env h (Obj ps) tm st = (Inr (Dispatched d), st')"
    and "om_get st n = Some e" and "tm < n_expiresAt e" and "n \<noteq> []" and "n_actor e = d_userId d" and "n_action e = d_action d"
    and "resolveWriteActionRoute WRITE_ACTION_ROUTES (n_action e) (n_params e) = Inr (Some resolved)"
  shows "\<exists>d' st2. writeExecuteRoute env h (obj_set ''nonce'' (Str n) (Obj ps)) tm st = (Inr (Dispatched d'), st2)
    \<and> d_path d' = v_path resolved \<and> d_userId d' = d_userId d \<and> om_get st2 n = None
    \<and> (\<exists>tier actor. d' = dispatch_of resolved (n_action e) tier actor (n_params e))"
proof -
  obtain actor n0 e0 resolved0 where x: "execute_passes env h (Obj ps) tm actor n0 e0 resolved0"
    "d = dispatch_of resolved0 (n_action e0) (discordActorTier actor (be_mapping env)) actor (n_params e0)"
    using execute_dispatches [OF assms(2,3)] by blast
  then have d: "d_userId d = a_userId actor" "d_action d = n_action e0" by (simp_all add: dispatch_of_def Let_def)
  obtain body where w: "write_actor env WRITE_EXECUTE h (Obj ps) tm = Inr (body, actor)"
      and a: "text_or_empty (getp body ''action'') = n_action e0"
      and m: "meetsMinTier (discordActorTier actor (be_mapping env)) (n_action e0) = Some True"
      and f: "fresh_snapshot env tm (a_roleSnapshotAt actor) = Inr ()"
    using x(1) by (auto simp: execute_passes_def)
  obtain body' where w': "write_actor env WRITE_EXECUTE h (obj_set ''nonce'' (Str n) (Obj ps)) tm = Inr (body', actor)"
    and g: "getp body' ''nonce'' = Str n" "getp body' ''action'' = getp body ''action''"
    using other_nonce_same_actor [OF w, of n] by blast
  have n: "text_or_empty (getp body' ''nonce'') = n" using g(1) assms(6) by (simp add: text_or_empty_def js_or_def)
  have "writeExecuteRoute env h (obj_set ''nonce'' (Str n) (Obj ps)) tm st = (Inr (Dispatched (dispatch_of resolved (n_action e)
      (discordActorTier actor (be_mapping env)) actor (n_params e))), om_delete n st)"
    by (rule execute_sends [OF w' n assms(6,4,5)])
      (use assms d a m f g single_confirmations [OF assms(9)] in simp_all)
  moreover have "d_path (dispatch_of resolved (n_action e) tier actor (n_params e)) = v_path resolved"
      "d_userId (dispatch_of resolved (n_action e) tier actor (n_params e)) = a_userId actor" for tier actor
    by (simp_all add: dispatch_of_def Let_def)
  moreover have "om_get (om_delete n st) n = None" by (simp add: om_get_delete)
  ultimately show ?thesis using d by metis
qed

definition sample_other :: nonce_entry where
  "sample_other = sample_entry\<lparr>n_params := Obj [(''playerId'', Str ''B'')]\<rparr>"

theorem execute_signature_leaves_nonce_open_witness:
  "\<exists>d d' s1 s2. writeExecuteRoute sample_bridge_env sample_headers sample_body 1020000 [(''n1'', sample_entry), (''n2'', sample_other)]
       = (Inr (Dispatched d), s1)
     \<and> writeExecuteRoute sample_bridge_env sample_headers (obj_set ''nonce'' (Str ''n2'') sample_body) 1020000
         [(''n1'', sample_entry), (''n2'', sample_other)] = (Inr (Dispatched d'), s2)
     \<and> d_path d = ''/api/players/A/kick'' \<and> d_path d' = ''/api/players/B/kick''"
proof -
  let ?st = "[(''n1'', sample_entry), (''n2'', sample_other)]"
  let ?r2 = "sample_resolved\<lparr>v_path := ''/api/players/B/kick''\<rparr>"
  obtain ps where ps: "sample_body = Obj ps" by (simp add: sample_body_def)
  have st: "om_inv ?st" "om_get ?st ''n1'' = Some sample_entry" "om_get ?st ''n2'' = Some sample_other"
    by (simp_all add: om_inv_def om_get_def)
  have r2: "resolveWriteActionRoute WRITE_ACTION_ROUTES (n_action sample_other) (n_params sample_other) = Inr (Some ?r2)" by code_simp
  have x: "writeExecuteRoute sample_bridge_env sample_headers sample_body 1020000 ?st = (Inr (Dispatched (dispatch_of sample_resolved
      (n_action sample_entry) (discordActorTier sample_normal (be_mapping sample_bridge_env)) sample_normal (n_params sample_entry))),
      om_delete ''n1'' ?st)" (is "_ = (Inr (Dispatched ?d), _)")
    using sample_gates by (intro execute_sends [OF sample_write_actor _ _ st(2)])
      (simp_all add: sample_entry_def sample_resolved_def)
  have d: "d_userId ?d = ''7''" "d_action ?d = ''player.kick''" "d_path ?d = ''/api/players/A/kick''"
    using sample_gates by (simp_all add: dispatch_of_def Let_def sample_resolved_def)
  have e: "1020000 < n_expiresAt sample_other" "''n2'' \<noteq> ([] :: string)" "n_actor sample_other = d_userId ?d" "n_action sample_other = d_action ?d"
    using d by (simp_all add: sample_other_def sample_entry_def)
  have table: "be_table sample_bridge_env = WRITE_ACTION_ROUTES" by (simp add: sample_bridge_env_def)
  obtain d' s2 where "writeExecuteRoute sample_bridge_env sample_headers (obj_set ''nonce'' (Str ''n2'') (Obj ps)) 1020000 ?st
      = (Inr (Dispatched d'), s2)" "d_path d' = ''/api/players/B/kick''"
    using execute_signature_leaves_nonce_open [OF table st(1) x [unfolded ps] st(3) e r2] by auto
  with x d(3) ps show ?thesis by auto
qed

section \<open>Whose roles count\<close>

lemma access_tiers:
  assumes "requireDiscordCapability actor mapping ''write-bridge:access'' = Inr u"
  shows "discordActorTier actor mapping \<in> {''moderator'', ''admin'', ''owner''}"
proof -
  have "required_capability ''write-bridge:access'' = Inr ''write-bridge:access''" by code_simp
  then have "''write-bridge:access'' \<in> set (tier_capabilities (discordActorTier actor mapping))"
    using assms by (auto simp: requireDiscordCapability_def discordActorCan_def split: sum.splits if_splits)
  moreover have "''write-bridge:access'' \<notin> set (tier_capabilities ''observer'')" "''write-bridge:access'' \<notin> set (tier_capabilities ''public'')"
    by code_simp+
  moreover have "discordActorTier actor mapping \<in> {''owner'', ''admin'', ''moderator'', ''observer'', ''public''}"
    by (simp add: discordActorTier_def Let_def)
  ultimately show ?thesis by auto
qed

lemma tier_by_role:
  assumes "\<not> isRealGuildOwner actor" and "discordActorTier actor mapping \<in> {''moderator'', ''admin'', ''owner''}"
  shows "let roles = normalizeRoleMapping mapping; tier = discordActorTier actor mapping in
        tier = ''owner'' \<and> holds_role actor (ownerRoleIds roles)
        \<or> tier = ''admin'' \<and> holds_role actor (adminRoleIds roles)
        \<or> tier = ''moderator'' \<and> holds_role actor (moderatorRoleIds roles)"
  using assms by (auto simp: discordActorTier_def Let_def split: if_splits)

lemma required_verified:
  assumes "readJsonWithActorSignature env body h route True tm names = Inr body'"
  shows "verifyActorSignature env (actor_payload body names) h route True tm names = Inr True
    \<and> body' = without_owner_claim body"
proof -
  obtain v where v: "verifyActorSignature env (actor_payload body names) h route True tm names = Inr v"
    "body' = (if actorSignatureRequired env then without_owner_claim body else body)"
    using assms by (auto simp: readJsonWithActorSignature_def split: sum.splits if_splits)
  have "secret_of env \<noteq> []" and "v"
    using v(1) by (auto simp: verifyActorSignature_def Let_def split: if_splits)
  then show ?thesis using v by (simp add: actorSignatureRequired_def)
qed

lemma no_owner_claim:
  assumes "normalizeDiscordActor (getp (without_owner_claim b) ''actor'') = Inr actor"
  shows "a_guildOwnerId actor = []"
proof -
  obtain qs where q: "getp (without_owner_claim b) ''actor'' = Obj qs"
    using assms by (cases "getp (without_owner_claim b) ''actor''") (auto simp: normalizeDiscordActor_def)
  then obtain ps where b: "b = Obj ps" by (cases b) (auto simp: without_owner_claim_def)
  have "om_get qs ''guildOwnerId'' = None"
    using q unfolding b without_owner_actor by (auto simp: om_get_delete simp del: getp.simps split: jsval.splits)
  moreover have "a_guildOwnerId actor = optionalString (getp (Obj qs) ''guildOwnerId'')"
    using assms unfolding q by (auto simp: normalizeDiscordActor_def split: sum.splits if_splits)
  moreover have "optionalString Undef = []" by code_simp
  ultimately show ?thesis by (simp add: om_get_def)
qed

text \<open>
  The tier of a write request comes from signed roles alone: whoever passes the first gate of either route sent
  a verified signature, is not taken for the owner of the guild by a claim in the body, and has the tier of a
  mapped role he holds, which is moderator, admin or owner.
\<close>

theorem write_actor_has_signed_role:
  assumes "write_actor env route h b tm = Inr (body, actor)"
  shows "verifyActorSignature (be_sig env) (actor_payload b WRITE_BRIDGE_SIGNED_ACTOR_FIELDS) h route True (tm div 1000)
      WRITE_BRIDGE_SIGNED_ACTOR_FIELDS = Inr True
    \<and> \<not> isRealGuildOwner actor
    \<and> (let roles = normalizeRoleMapping (be_mapping env); tier = discordActorTier actor (be_mapping env) in
        tier = ''owner'' \<and> holds_role actor (ownerRoleIds roles)
        \<or> tier = ''admin'' \<and> holds_role actor (adminRoleIds roles)
        \<or> tier = ''moderator'' \<and> holds_role actor (moderatorRoleIds roles))"
proof -
  obtain body0 u where r: "readJsonWithActorSignature (be_sig env) b h route True (tm div 1000) WRITE_BRIDGE_SIGNED_ACTOR_FIELDS = Inr body0"
    "normalizeDiscordActor (getp body0 ''actor'') = Inr actor"
    "requireDiscordCapability actor (be_mapping env) ''write-bridge:access'' = Inr u"
    using assms by (auto simp: write_actor_def split: if_splits sum.splits)
  have "\<not> isRealGuildOwner actor"
    using no_owner_claim r(2) required_verified [OF r(1)] by (simp add: isRealGuildOwner_def)
  then show ?thesis using required_verified [OF r(1)] tier_by_role access_tiers [OF r(3)] by blast
qed

theorem write_actor_has_signed_role_witness:
  "\<exists>actor. write_actor sample_bridge_env WRITE_EXECUTE sample_headers sample_body 1020000 = Inr (sample_body, actor)
     \<and> \<not> isRealGuildOwner actor \<and> discordActorTier actor (be_mapping sample_bridge_env) = ''admin''
     \<and> holds_role actor (adminRoleIds (normalizeRoleMapping (be_mapping sample_bridge_env)))"
  using write_actor_has_signed_role [OF sample_write_actor, of 1020000 WRITE_EXECUTE] sample_write_actor [of 1020000 WRITE_EXECUTE] sample_gates
  by (auto simp: Let_def)

end
