(* ===== verification/PlayerScope.thy ===== *)
theory PlayerScope
  imports PolicyEngine
begin

text \<open>
  Whose data a session of the \<open>player\<close> tier may see: \<open>console/api/src/playerScope.js\<close>,
  \<open>playerOwnedScope.js\<close>, \<open>playerAccessParam.js\<close> and the gate \<open>enforcePlayerTier\<close> of
  \<open>server.js\<close>. The database queries of \<open>duneDb.js\<close> are arguments; \<open>None\<close> stands for a query that
  throws. A set of strings is the list of its elements in insertion order.
\<close>

section \<open>Scopes\<close>

record player_scope =
  is_scoped :: bool
  scope_ids :: "string list"

definition player_tier_name :: "jsval \<Rightarrow> bool" where
  "player_tier_name tier = (case tier of Str t \<Rightarrow> normalizeTier t = ''player'' | _ \<Rightarrow> False)"

text \<open>The linked ids that count: neither missing, empty nor the placeholder 0.\<close>

definition controller_ids :: "jsval list \<Rightarrow> string list" where
  "controller_ids chars =
     set_order (map to_str (filter (\<lambda>v. v \<noteq> Null \<and> v \<noteq> Undef \<and> to_str v \<noteq> [] \<and> to_str v \<noteq> ''0'')
       (map (\<lambda>c. getp c ''player_controller_id'') chars)))"

definition resolvePlayerScope :: "jsval \<Rightarrow> (jsval \<Rightarrow> jsval list option) \<Rightarrow> player_scope" where
  "resolvePlayerScope session getLinkedPlayers =
     (if \<not> truthy session then \<lparr>is_scoped = True, scope_ids = []\<rparr>
      else if \<not> player_tier_name (getp session ''tier'') then \<lparr>is_scoped = False, scope_ids = []\<rparr>
      else if \<not> truthy (getp session ''userId'') then \<lparr>is_scoped = True, scope_ids = []\<rparr>
      else case getLinkedPlayers (getp session ''userId'') of
          None \<Rightarrow> \<lparr>is_scoped = True, scope_ids = []\<rparr>
        | Some chars \<Rightarrow> \<lparr>is_scoped = True, scope_ids = controller_ids chars\<rparr>)"

definition filterForPlayerScope ::
  "jsval \<Rightarrow> (jsval \<Rightarrow> jsval list option) \<Rightarrow> 'a list \<Rightarrow> ('a \<Rightarrow> jsval) \<Rightarrow> 'a list" where
  "filterForPlayerScope session getLinkedPlayers data getter =
     (let scope = resolvePlayerScope session getLinkedPlayers in
      if \<not> is_scoped scope then data
      else filter (\<lambda>row. truthy (getter row) \<and> to_str (getter row) \<in> set (scope_ids scope)) data)"

text \<open>\<open>undefined\<close>, that is no restriction, is \<open>None\<close>.\<close>

definition playerScopeIds :: "jsval \<Rightarrow> (jsval \<Rightarrow> jsval list option) \<Rightarrow> string list option" where
  "playerScopeIds session getLinkedPlayers =
     (let scope = resolvePlayerScope session getLinkedPlayers in
      if is_scoped scope then Some (scope_ids scope) else None)"

definition playerGuildScopeIds ::
  "jsval \<Rightarrow> (jsval \<Rightarrow> jsval list option) \<Rightarrow> (string list \<Rightarrow> string list option) \<Rightarrow> string list option" where
  "playerGuildScopeIds session getLinkedPlayers guildIdsFor =
     (let scope = resolvePlayerScope session getLinkedPlayers in
      if \<not> is_scoped scope then None
      else case guildIdsFor (scope_ids scope) of None \<Rightarrow> Some [] | Some gs \<Rightarrow> Some gs)"

section \<open>The route list of the tier\<close>

definition PLAYER_EXACT_GET_ROUTES :: "string list" where
  "PLAYER_EXACT_GET_ROUTES = [''/api/server/status'', ''/api/bases'', ''/api/vehicles'', ''/api/storage'']"

definition PLAYER_TRANSLATION_SUGGESTION_PATH :: string where
  "PLAYER_TRANSLATION_SUGGESTION_PATH = ''/api/i18n/suggestions''"

definition playerMayCall :: "string \<Rightarrow> string \<Rightarrow> bool" where
  "playerMayCall meth path =
     (let verb = js_upper meth in
      if verb = ''POST'' \<and> path = PLAYER_TRANSLATION_SUGGESTION_PATH then True
      else verb = ''GET'' \<and> path \<in> set PLAYER_EXACT_GET_ROUTES)"

definition isPlayerSession :: "jsval \<Rightarrow> bool" where
  "isPlayerSession session = (resolveSessionTier session = ''player'')"

section \<open>The gate\<close>

datatype gate_answer = PassOn | Forbidden403 | NotFound404

text \<open>
  The id of an own route is a numeral (\<open>classifyPlayerTierRequest\<close> refuses every other), so
  \<open>decodeURIComponent\<close> returns it unchanged; the second test of the decoded id is kept.
\<close>

definition enforcePlayerTier ::
  "(jsval \<Rightarrow> jsval list option) \<Rightarrow> (string \<Rightarrow> jsval option) \<Rightarrow> (string list \<Rightarrow> string list option)
   \<Rightarrow> string \<Rightarrow> string \<Rightarrow> string \<Rightarrow> jsval \<Rightarrow> gate_answer" where
  "enforcePlayerTier getLinkedPlayers resolvePlayerTarget guildIdsFor path meth action session =
     (if action \<noteq> [] \<and> action \<notin> set PLAYER_TIER_ACTIONS then Forbidden403
      else case classifyPlayerTierRequest path meth of
        ScopedList \<Rightarrow> PassOn
      | GlobalRead \<Rightarrow> PassOn
      | RouteDeny \<Rightarrow> NotFound404
      | RouteOpen \<Rightarrow> (if action \<noteq> [] \<and> \<not> playerMayCall meth path then NotFound404 else PassOn)
      | OwnPlayer rawId \<Rightarrow>
          (let scope = resolvePlayerScope session getLinkedPlayers in
           if \<not> canonical_id rawId then NotFound404
           else case resolvePlayerTarget rawId of
               None \<Rightarrow> NotFound404
             | Some target \<Rightarrow>
                 (if truthy (getp target ''controllerId'')
                     \<and> to_str (getp target ''controllerId'') \<in> set (scope_ids scope)
                  then PassOn else NotFound404))
      | OwnGuild rawGuildId \<Rightarrow>
          (let scope = resolvePlayerScope session getLinkedPlayers in
           case guildIdsFor (scope_ids scope) of
             None \<Rightarrow> NotFound404
           | Some guildIds \<Rightarrow>
               (if \<not> canonical_id rawGuildId then NotFound404
                else if rawGuildId \<in> set guildIds then PassOn else NotFound404)))"

section \<open>The views\<close>

text \<open>\<open>{ ...v }\<close>: the own enumerable properties of a value.\<close>

definition spread :: "jsval \<Rightarrow> (string \<times> jsval) list" where
  "spread v = (case v of Obj ps \<Rightarrow> ps
     | Arr xs \<Rightarrow> map (\<lambda>i. (show_nat i, xs ! i)) [0..<length xs]
     | Str s \<Rightarrow> map (\<lambda>i. (show_nat i, Str [s ! i])) [0..<length s]
     | _ \<Rightarrow> [])"

definition set_if_present :: "string \<Rightarrow> jsval \<Rightarrow> (string \<times> jsval) list \<Rightarrow> (string \<times> jsval) list" where
  "set_if_present k v ps = (if om_has ps k then om_set k v ps else ps)"

definition redact_row :: "jsval \<Rightarrow> jsval" where
  "redact_row row = Obj (set_if_present ''owner_name'' (Str ''You'')
     (set_if_present ''owner'' (Str ''You'') (om_set ''shared_with'' (Arr []) (spread row))))"

definition redactSharedWith :: "jsval \<Rightarrow> jsval" where
  "redactSharedWith result =
     (if \<not> truthy result then result
      else let out = spread result;
               out = (case getp result ''rows'' of
                        Arr rows \<Rightarrow> om_set ''rows'' (Arr (map redact_row rows)) out
                      | _ \<Rightarrow> out);
               out = set_if_present ''totalVehicles''
                       (js_or (Number (to_num (getp (Obj out) ''totalCount''))) (Number (Num 0))) out
           in Obj (set_if_present ''reason'' (Str ''This list is unavailable right now.'') out))"

definition is_safe_integer :: "jsnum \<Rightarrow> bool" where
  "is_safe_integer n = (case n of Num q \<Rightarrow> rat_is_int q \<and> \<bar>q\<bar> \<le> 9007199254740991 | _ \<Rightarrow> False)"

definition ownPawnId :: "jsval \<Rightarrow> jsnum option" where
  "ownPawnId linked =
     (let n = to_num (getp linked ''player_pawn_id'') in
      if is_safe_integer n \<and> num_lt (Num 0) n then Some n else None)"

definition page_size :: "jsval \<Rightarrow> jsval" where
  "page_size v = (let size = to_num v in
     Number (if is_safe_integer size \<and> \<not> num_lt size (Num 1) \<and> \<not> num_lt (Num 200) size
       then size else Num 50))"

definition ownedListOptions :: "jsval \<Rightarrow> jsval \<Rightarrow> jsval option" where
  "ownedListOptions linked query =
     (case ownPawnId linked of
        None \<Rightarrow> None
      | Some playerId \<Rightarrow>
          Some (Obj ([(''playerId'', Number playerId),
            (''access'', Str ''owner''),
            (''rankOneOnly'', Bool True),
            (''q'', if is_str (getp query ''q'') then getp query ''q'' else Str []),
            (''page'', js_nullish (getp query ''page'') (Number (Num 0))),
            (''includeGenerators'', Bool False),
            (''pageSize'', page_size (getp query ''pageSize'')),
            (''sortColumn'', if truthy (getp query ''sortColumn'') \<and> getp query ''sortColumn'' \<noteq> Str ''shared_with''
               then getp query ''sortColumn'' else Str ''name''),
            (''sortDirection'', js_or (getp query ''sortDirection'') (Str ''asc''))]
           @ (if truthy (getp query ''status'') then [(''status'', getp query ''status'')] else []))))"

definition field_or_null :: "jsval \<Rightarrow> string \<Rightarrow> string \<times> jsval" where
  "field_or_null v k = (k, js_nullish (getp v k) Null)"

definition playerServerStatusView :: "jsval \<Rightarrow> jsval" where
  "playerServerStatusView body =
     (let data = js_or (getp body ''data'') (Obj []);
          summary = js_or (getp data ''summary'') (Obj [])
      in Obj [(''schemaVersion'', js_nullish (getp body ''schemaVersion'') (Number (Num 1))),
              (''ok'', Bool (getp body ''ok'' = Bool True)),
              (''data'', Obj [
                (''summary'', Obj (map (field_or_null summary)
                   [''overall'', ''title'', ''region'', ''mode'', ''population''])),
                (''gameServers'', Arr (case getp data ''gameServers'' of
                   Arr gs \<Rightarrow> map (\<lambda>g. Obj (map (field_or_null g) [''map'', ''status'', ''uptime''])) gs
                 | _ \<Rightarrow> []))])])"

text \<open>
  The body of the three owned lists. The queries are \<open>getLinkedPlayer\<close> (\<open>Null\<close> when unlinked),
  \<open>listOwnedStorage\<close>, \<open>listBases\<close> and \<open>listVehicles\<close>.
\<close>

definition playerOwnedAssetsBody ::
  "(jsval \<Rightarrow> jsval option) \<Rightarrow> (jsval \<Rightarrow> jsval option) \<Rightarrow> (jsval \<Rightarrow> jsval option) \<Rightarrow> (jsval \<Rightarrow> jsval option)
   \<Rightarrow> jsval \<Rightarrow> string \<Rightarrow> jsval \<Rightarrow> jsval \<Rightarrow> jsval option" where
  "playerOwnedAssetsBody getLinkedPlayer listOwnedStorage listBases listVehicles session path query linkInstructions =
     (case getLinkedPlayer (getp session ''userId'') of
        None \<Rightarrow> None
      | Some linked \<Rightarrow>
          (if \<not> truthy linked
           then Some (Obj [(''capabilities'', Obj []), (''totalCount'', Number (Num 0)), (''rows'', Arr []),
                  (''notLinked'', Bool True), (''reason'', getp linkInstructions ''reason''),
                  (''linkInstructions'', linkInstructions)])
           else case ownedListOptions linked query of
             None \<Rightarrow> Some (Obj [(''capabilities'', Obj []), (''totalCount'', Number (Num 0)), (''rows'', Arr []),
                  (''notSpawned'', Bool True),
                  (''reason'', Str ''Your character hasn't entered the world yet, so there is nothing to list.'')])
           | Some options \<Rightarrow>
               map_option redactSharedWith
                 (if path = ''/api/storage'' then listOwnedStorage (getp linked ''player_controller_id'')
                  else if path = ''/api/bases'' then listBases options else listVehicles options)))"

definition effectiveSortColumn :: "jsval \<Rightarrow> jsval \<Rightarrow> jsval" where
  "effectiveSortColumn session requested =
     (if isPlayerSession session \<and> requested = Str ''shared_with'' then Str ''name'' else requested)"

definition effectiveAccess :: "jsval \<Rightarrow> jsval \<Rightarrow> jsval" where
  "effectiveAccess session requested = (if isPlayerSession session then Str ''owner'' else requested)"

definition ownedViewForSession :: "jsval \<Rightarrow> jsval \<Rightarrow> jsval" where
  "ownedViewForSession session result = (if isPlayerSession session then redactSharedWith result else result)"

definition statusBodyForSession :: "jsval \<Rightarrow> jsval \<Rightarrow> jsval" where
  "statusBodyForSession session body = (if isPlayerSession session then playerServerStatusView body else body)"

text \<open>\<open>None\<close> is a missing \<open>access\<close> parameter.\<close>

definition playerAccessParam :: "string option \<Rightarrow> string" where
  "playerAccessParam access = (case access of
     Some v \<Rightarrow> if v = ''owner'' \<or> v = ''coowner'' then v else ''all'' | None \<Rightarrow> ''all'')"

section \<open>What passes the gate\<close>

lemma classify_open: "classifyPlayerTierRequest path meth = RouteOpen \<longleftrightarrow> \<not> guarded_path path"
  by (auto simp: classifyPlayerTierRequest_def split: if_splits option.splits)

lemma classify_listed:
  "classifyPlayerTierRequest path meth \<in> {ScopedList, GlobalRead} \<longleftrightarrow>
     guarded_path path \<and> meth = ''GET'' \<and> path \<in> set LIST_PATHS \<union> set GLOBAL_READ_PATHS"
  by (auto simp: classifyPlayerTierRequest_def split: if_splits option.splits)

lemma listed_guarded: "path \<in> set LIST_PATHS \<union> set GLOBAL_READ_PATHS \<Longrightarrow> guarded_path path"
proof -
  have "list_all guarded_path (LIST_PATHS @ GLOBAL_READ_PATHS)" by code_simp
  then show "path \<in> set LIST_PATHS \<union> set GLOBAL_READ_PATHS \<Longrightarrow> guarded_path path"
    unfolding list_all_iff set_append by blast
qed

lemma enforce_iff:
  "enforcePlayerTier links target guilds path meth action session = PassOn \<longleftrightarrow>
     (action = [] \<or> action \<in> set PLAYER_TIER_ACTIONS)
     \<and> (case classifyPlayerTierRequest path meth of
          RouteOpen \<Rightarrow> action = [] \<or> playerMayCall meth path
        | RouteDeny \<Rightarrow> False
        | OwnPlayer i \<Rightarrow> canonical_id i \<and> (\<exists>t. target i = Some t \<and> truthy (getp t ''controllerId'')
            \<and> to_str (getp t ''controllerId'') \<in> set (scope_ids (resolvePlayerScope session links)))
        | OwnGuild i \<Rightarrow> canonical_id i
            \<and> (\<exists>gs. guilds (scope_ids (resolvePlayerScope session links)) = Some gs \<and> i \<in> set gs)
        | _ \<Rightarrow> True)"
  by (auto simp: enforcePlayerTier_def Let_def split: player_route.splits option.splits)

text \<open>
  C9. The second gate lets a player's request reach its handler in exactly these cases: the action
  is within the cap, and the path is a listed world-data path, a list the handler scopes, a page of
  a character whose controller is linked to the caller, or the roster of a guild one of the caller's
  characters is in. A failed lookup never lets a request through.
\<close>

theorem player_tier_passes_exactly:
  "enforcePlayerTier links target guilds path meth action session = PassOn \<longleftrightarrow>
     (action = [] \<or> action \<in> set PLAYER_TIER_ACTIONS)
     \<and> (\<not> guarded_path path \<and> (action = [] \<or> playerMayCall meth path)
        \<or> meth = ''GET'' \<and> path \<in> set LIST_PATHS \<union> set GLOBAL_READ_PATHS
        \<or> meth = ''GET'' \<and> (\<exists>i t. canonical_id i \<and> own_player_path i path \<and> target i = Some t
             \<and> truthy (getp t ''controllerId'')
             \<and> to_str (getp t ''controllerId'') \<in> set (scope_ids (resolvePlayerScope session links)))
        \<or> meth = ''GET'' \<and> (\<exists>i gs. canonical_id i \<and> own_guild_path i path
             \<and> guilds (scope_ids (resolvePlayerScope session links)) = Some gs \<and> i \<in> set gs))"
  (is "?pass \<longleftrightarrow> ?cap \<and> (?open \<or> ?listed \<or> ?player \<or> ?guild)")
proof -
  let ?c = "classifyPlayerTierRequest path meth"
  have player: "meth = ''GET'' \<and> canonical_id i \<and> own_player_path i path \<longleftrightarrow> ?c = OwnPlayer i" for i
    using own_player_exact [of path meth i] by blast
  have guild: "meth = ''GET'' \<and> canonical_id i \<and> own_guild_path i path \<longleftrightarrow> ?c = OwnGuild i" for i
    using own_guild_exact [of path meth i] by blast
  have e1: "?player \<longleftrightarrow> (\<exists>i t. ?c = OwnPlayer i \<and> target i = Some t \<and> truthy (getp t ''controllerId'')
      \<and> to_str (getp t ''controllerId'') \<in> set (scope_ids (resolvePlayerScope session links)))"
    using player by blast
  have e2: "?guild \<longleftrightarrow> (\<exists>i gs. ?c = OwnGuild i
      \<and> guilds (scope_ids (resolvePlayerScope session links)) = Some gs \<and> i \<in> set gs)"
    using guild by blast
  have e3: "?listed \<longleftrightarrow> ?c \<in> {ScopedList, GlobalRead}"
    unfolding classify_listed using listed_guarded by blast
  have e4: "?open \<longleftrightarrow> ?c = RouteOpen \<and> (action = [] \<or> playerMayCall meth path)"
    unfolding classify_open ..
  have "?c = OwnPlayer i \<Longrightarrow> canonical_id i" "?c = OwnGuild i \<Longrightarrow> canonical_id i" for i
    using player [of i] guild [of i] by blast+
  then show ?thesis unfolding enforce_iff e1 e2 e3 e4 by (cases ?c) simp_all
qed

section \<open>What the views hide\<close>

lemma show_nat_digits: "list_all is_digit (show_nat n) \<and> show_nat n \<noteq> []"
proof (induction n rule: show_nat.induct)
  case (1 n)
  have d: "is_digit (digit_char k)" if "k < 10" for k
    using that by (auto simp: is_digit_def digit_char_def code_def)
  show ?case
    using 1 d [of n] d [of "n mod 10"] by (cases "n < 10") (simp_all add: show_nat.simps [of n])
qed

lemma om_get_set_if_present:
  "om_get (set_if_present k v ps) k' = (if k' = k \<and> om_has ps k then Some v else om_get ps k')"
  by (simp add: set_if_present_def om_get_set)

lemma getp_om_get: "getp (Obj ps) k = (case om_get ps k of None \<Rightarrow> Undef | Some v \<Rightarrow> v)"
  by (simp add: om_get_def)

lemma numeral_key: "list_all is_digit k' \<and> k' \<noteq> [] \<Longrightarrow> \<not> is_digit (hd k) \<Longrightarrow> k' \<noteq> k"
  by (cases k') auto

lemma spread_get: "\<not> is_digit (hd k) \<Longrightarrow> om_get (spread v) k = (case v of Obj ps \<Rightarrow> om_get ps k | _ \<Rightarrow> None)"
  using numeral_key [OF show_nat_digits, of k]
  by (cases v) (auto simp: spread_def om_get_None_iff)

lemma redact_row_get:
  "getp (redact_row row) ''shared_with'' = Arr []"
  "getp (redact_row row) ''owner'' \<in> {Undef, Str ''You''}"
  "getp (redact_row row) ''owner_name'' \<in> {Undef, Str ''You''}"
  by (simp_all add: redact_row_def getp_om_get om_get_set_if_present om_get_set om_has_get
      del: getp.simps split: option.splits)

lemma redact_rows:
  "arr_items (getp (redactSharedWith r) ''rows'') = map redact_row (arr_items (getp r ''rows''))"
proof (cases "truthy r")
  case False
  then show ?thesis by (cases r) (simp_all add: redactSharedWith_def arr_items_def)
next
  case True
  have k: "\<not> is_digit (hd ''rows'')" by code_simp
  have base: "om_get (spread r) ''rows'' = (case r of Obj ps \<Rightarrow> om_get ps ''rows'' | _ \<Rightarrow> None)"
    by (rule spread_get [OF k])
  have skip: "om_get (set_if_present ''reason'' v (set_if_present ''totalVehicles'' w out)) ''rows'' = om_get out ''rows''"
    for v w out by (simp add: om_get_set_if_present)
  show ?thesis
  proof (cases "getp r ''rows''")
    case (Arr rows)
    then show ?thesis
      using True by (simp add: redactSharedWith_def Let_def getp_om_get skip om_get_set arr_items_def del: getp.simps)
  next
    case other: Undef
    then show ?thesis
      using True base
      by (cases r) (auto simp: redactSharedWith_def Let_def getp_om_get skip arr_items_def
          simp del: getp.simps split: option.splits)
  qed (use True base in \<open>(cases r; auto simp: redactSharedWith_def Let_def getp_om_get skip arr_items_def
          simp del: getp.simps split: option.splits)+\<close>)
qed

text \<open>
  Whatever the database returns, the body of a player's bases, vehicles or storage list names
  nobody else: in every row the list of those it is shared with is empty, and the owner fields, where
  a row has them, say ``You''.
\<close>

theorem owned_assets_name_nobody:
  assumes "playerOwnedAssetsBody getLinked listStorage listBases listVehicles session path query instr = Some body"
    and "row \<in> set (arr_items (getp body ''rows''))"
  shows "getp row ''shared_with'' = Arr [] \<and> getp row ''owner'' \<in> {Undef, Str ''You''}
    \<and> getp row ''owner_name'' \<in> {Undef, Str ''You''}"
proof -
  have "arr_items (getp body ''rows'') = [] \<or> (\<exists>r. body = redactSharedWith r)"
    using assms(1) by (auto simp: playerOwnedAssetsBody_def arr_items_def split: option.splits if_splits)
  with assms(2) obtain r0 where "row = redact_row r0" by (auto simp: redact_rows)
  then show ?thesis using redact_row_get by simp
qed

definition linked_example :: jsval where
  "linked_example = Obj [(''player_pawn_id'', Str ''42''), (''player_controller_id'', Str ''7'')]"

definition bases_example :: jsval where
  "bases_example = Obj [(''rows'', Arr [Obj [(''owner'', Str ''Chani''), (''shared_with'', Arr [Str ''Stilgar''])]])]"

theorem owned_assets_name_nobody_witness:
  "\<exists>body row. playerOwnedAssetsBody (\<lambda>_. Some linked_example) Some (\<lambda>_. Some bases_example) Some
     (Obj [(''userId'', Str ''1'')]) ''/api/bases'' (Obj []) (Obj []) = Some body
     \<and> row \<in> set (arr_items (getp body ''rows'')) \<and> getp row ''shared_with'' = Arr []"
proof -
  let ?row = "Obj [(''owner'', Str ''You''), (''shared_with'', Arr [])]"
  have b: "playerOwnedAssetsBody (\<lambda>_. Some linked_example) Some (\<lambda>_. Some bases_example) Some
     (Obj [(''userId'', Str ''1'')]) ''/api/bases'' (Obj []) (Obj []) = Some (Obj [(''rows'', Arr [?row])])"
    by code_simp
  have r: "?row \<in> set (arr_items (getp (Obj [(''rows'', Arr [?row])]) ''rows''))" by code_simp
  show ?thesis using b r owned_assets_name_nobody [OF b r] by blast
qed

text \<open>
  Nothing a player's client sends widens the list: the options of the query carry the pawn of the
  linked character, owner access of rank one only, a page of at most 200 rows, and no ordering by the
  number of other players with access.
\<close>

theorem owned_options_fixed:
  assumes "ownedListOptions linked query = Some opts"
  shows "(\<exists>n. ownPawnId linked = Some n \<and> getp opts ''playerId'' = Number n)
    \<and> getp opts ''access'' = Str ''owner'' \<and> getp opts ''rankOneOnly'' = Bool True
    \<and> getp opts ''sortColumn'' \<noteq> Str ''shared_with''
    \<and> (\<exists>k. getp opts ''pageSize'' = Number (Num k) \<and> 1 \<le> k \<and> k \<le> 200)"
proof -
  obtain n where n: "ownPawnId linked = Some n"
    using assms by (cases "ownPawnId linked") (simp_all add: ownedListOptions_def)
  have size: "\<exists>k. page_size v = Number (Num k) \<and> 1 \<le> k \<and> k \<le> 200" for v
    by (cases "to_num v") (auto simp: page_size_def is_safe_integer_def Let_def)
  show ?thesis
    using assms n size [of "getp query ''pageSize''"] by (auto simp: ownedListOptions_def split: if_splits)
qed

theorem owned_options_fixed_witness:
  "getp (the (ownedListOptions linked_example (Obj [(''pageSize'', Str ''9999''), (''access'', Str ''all'')]))) ''access''
    = Str ''owner''"
proof -
  let ?q = "Obj [(''pageSize'', Str ''9999''), (''access'', Str ''all'')]"
  have "ownPawnId linked_example \<noteq> None" by code_simp
  then obtain o' where e: "ownedListOptions linked_example ?q = Some o'"
    by (auto simp: ownedListOptions_def)
  then show ?thesis using owned_options_fixed [OF e] by simp
qed

end
