(* ===== verification/ApiKeyScopes.thy ===== *)
theory ApiKeyScopes
  imports PolicyStore
begin

text \<open>
  The scope vocabulary of API keys, \<open>console/api/src/apiKeyScopes.js\<close>, and the authorization
  decision \<open>keyAllows\<close> of \<open>apiKeys.js\<close>. A scope map is the JSON object it is in the source: a level or
  a list of actions for each namespace. The cache of \<open>actionsByNamespace\<close> is not visible.
\<close>

section \<open>Vocabulary\<close>

definition KEY_DENIED_NAMESPACES :: "string list" where
  "KEY_DENIED_NAMESPACES = [''settings'', ''database'', ''setup'', ''community'']"

definition KEY_WRITE_DENIED_NAMESPACES :: "string list" where
  "KEY_WRITE_DENIED_NAMESPACES = [''updates'', ''addons'']"

definition LEVEL_EXCLUDED_ACTIONS :: "string list" where
  "LEVEL_EXCLUDED_ACTIONS = [''backups:download-system'', ''backups:import-system'', ''backups:restore-system'',
     ''bases:import-backup'', ''bases:edit-backup'', ''bases:export-backup'', ''bases:delete-backup'',
     ''vehicles:stored-delete'']"

definition EXTRA_READ_ACTIONS :: "string list" where
  "EXTRA_READ_ACTIONS = [''exchange:market'', ''updates:check'']"

definition SCOPE_LEVELS :: "string list" where
  "SCOPE_LEVELS = [''read'', ''write'']"

definition PREFERRED_ORDER :: "string list" where
  "PREFERRED_ORDER = [''players'', ''bases'', ''vehicles'', ''guilds'', ''storage'', ''blueprints'',
     ''exchange'', ''maps'', ''realtime'', ''sietches'', ''deepdesert'', ''landsraad'',
     ''server'', ''logs'', ''backups'', ''updates'', ''carepackage'', ''addons'', ''admin'']"

definition namespaceOf :: "string \<Rightarrow> string" where
  "namespaceOf action = (case index_of CHR '':'' action of
     Some i \<Rightarrow> if 0 < i then take i action else [] | None \<Rightarrow> [])"

definition isReadAction :: "string \<Rightarrow> bool" where
  "isReadAction action =
     (if action = [] then False
      else if action \<in> set EXTRA_READ_ACTIONS then True
      else case last_index_of CHR '':'' action of
          Some i \<Rightarrow> 0 < i \<and> drop (i + 1) action = ''read''
        | None \<Rightarrow> False)"

section \<open>The catalog\<close>

record ns_entry =
  read_actions :: "string list"
  write_actions :: "string list"

text \<open>One round of the grouping loop, with its two \<open>continue\<close>s.\<close>

definition group_action :: "(string, ns_entry) omap \<Rightarrow> string \<Rightarrow> (string, ns_entry) omap" where
  "group_action grouped action =
     (let namespace = namespaceOf action in
      if namespace = [] \<or> namespace \<in> set KEY_DENIED_NAMESPACES then grouped
      else if \<not> isReadAction action \<and> namespace \<in> set KEY_WRITE_DENIED_NAMESPACES then grouped
      else let e = (case om_get grouped namespace of
                      None \<Rightarrow> \<lparr>read_actions = [], write_actions = []\<rparr> | Some e \<Rightarrow> e)
           in om_set namespace
                (if isReadAction action then e\<lparr>read_actions := read_actions e @ [action]\<rparr>
                 else e\<lparr>write_actions := write_actions e @ [action]\<rparr>) grouped)"

definition sort_entry :: "ns_entry \<Rightarrow> ns_entry" where
  "sort_entry e = \<lparr>read_actions = sort (read_actions e), write_actions = sort (write_actions e)\<rparr>"

definition actionsByNamespace :: "(string, ns_entry) omap" where
  "actionsByNamespace = map (\<lambda>(ns, e). (ns, sort_entry e)) (foldl group_action [] allKnownActions)"

definition selectableNamespaces :: "string list" where
  "selectableNamespaces =
     filter (om_has actionsByNamespace) PREFERRED_ORDER
     @ sort (filter (\<lambda>ns. ns \<notin> set PREFERRED_ORDER) (om_keys actionsByNamespace))"

definition namespaceHasWriteActions :: "string \<Rightarrow> bool" where
  "namespaceHasWriteActions namespace = (case om_get actionsByNamespace namespace of
     None \<Rightarrow> False | Some e \<Rightarrow> write_actions e \<noteq> [])"

definition grantableActions :: "string \<Rightarrow> string list" where
  "grantableActions namespace = (case om_get actionsByNamespace namespace of
     None \<Rightarrow> [] | Some e \<Rightarrow> read_actions e @ write_actions e)"

text \<open>The rows of the scope grid: namespace, read actions, write actions, \<open>supportsWrite\<close>.\<close>

definition scopeCatalog :: "(string \<times> string list \<times> string list \<times> bool) list" where
  "scopeCatalog = concat (map (\<lambda>ns. case om_get actionsByNamespace ns of
       None \<Rightarrow> []
     | Some e \<Rightarrow> [(ns, read_actions e, write_actions e, 0 < length (write_actions e))]) selectableNamespaces)"

section \<open>Scopes\<close>

definition strings_of :: "jsval list \<Rightarrow> string list" where
  "strings_of vs = concat (map (\<lambda>v. case v of Str s \<Rightarrow> [s] | _ \<Rightarrow> []) vs)"

text \<open>What one entry of the input is stored as; \<open>None\<close> when it is dropped.\<close>

definition normalize_value :: "string \<Rightarrow> jsval \<Rightarrow> jsval option" where
  "normalize_value namespace value =
     (if namespace \<notin> set selectableNamespaces then None
      else case value of
        Arr vs \<Rightarrow>
          (let actions = sort (set_order (filter (\<lambda>a. a \<in> set (grantableActions namespace)) (strings_of vs)))
           in if actions \<noteq> [] then Some (Arr (map Str actions)) else None)
      | Str level \<Rightarrow>
          (if level \<notin> set SCOPE_LEVELS then None
           else if level = ''write'' \<and> \<not> namespaceHasWriteActions namespace then Some (Str ''read'')
           else Some (Str level))
      | _ \<Rightarrow> None)"

definition normalizeScopes :: "jsval \<Rightarrow> jsval" where
  "normalizeScopes input = (case input of
       Obj ps \<Rightarrow> Obj (concat (map (\<lambda>(ns, v). case normalize_value ns v of
          None \<Rightarrow> [] | Some v' \<Rightarrow> [(ns, v')]) ps))
     | _ \<Rightarrow> Obj [])"

definition scopeAllowsAction :: "string \<Rightarrow> jsval \<Rightarrow> string \<Rightarrow> bool" where
  "scopeAllowsAction namespace value action = (case value of
       Arr vs \<Rightarrow>
         (if Str action \<notin> set vs then False
          else namespace \<notin> set KEY_WRITE_DENIED_NAMESPACES \<or> isReadAction action)
     | _ \<Rightarrow>
         (if value \<noteq> Str ''read'' \<and> value \<noteq> Str ''write'' then False
          else if action \<in> set LEVEL_EXCLUDED_ACTIONS then False
          else if value = Str ''write'' \<and> namespace \<notin> set KEY_WRITE_DENIED_NAMESPACES then True
          else isReadAction action))"

definition scopesGrantAnything :: "jsval \<Rightarrow> bool" where
  "scopesGrantAnything scopes = (truthy scopes \<and> obj_keys scopes \<noteq> [])"

definition keyAllows :: "jsval \<Rightarrow> string \<Rightarrow> bool" where
  "keyAllows key action =
     (if \<not> truthy key \<or> action = [] then False
      else let namespace = namespaceOf action in
        if namespace = [] then False
        else if namespace \<in> set KEY_DENIED_NAMESPACES then False
        else let scopes = (if truthy (getp key ''scopes'') \<and> is_object (getp key ''scopes'')
                           then getp key ''scopes'' else Obj [])
             in scopeAllowsAction namespace (getp scopes namespace) action)"

section \<open>The catalog is the grantable part of the known actions\<close>

definition groupable :: "string \<Rightarrow> bool" where
  "groupable action = (namespaceOf action \<noteq> [] \<and> namespaceOf action \<notin> set KEY_DENIED_NAMESPACES
     \<and> (isReadAction action \<or> namespaceOf action \<notin> set KEY_WRITE_DENIED_NAMESPACES))"

definition reads_in :: "(string, ns_entry) omap \<Rightarrow> string \<Rightarrow> string list" where
  "reads_in g ns = (case om_get g ns of None \<Rightarrow> [] | Some e \<Rightarrow> read_actions e)"

definition writes_in :: "(string, ns_entry) omap \<Rightarrow> string \<Rightarrow> string list" where
  "writes_in g ns = (case om_get g ns of None \<Rightarrow> [] | Some e \<Rightarrow> write_actions e)"

lemma group_action_step:
  "reads_in (group_action g a) ns = reads_in g ns @ (if namespaceOf a = ns \<and> groupable a \<and> isReadAction a then [a] else [])"
  "writes_in (group_action g a) ns = writes_in g ns @ (if namespaceOf a = ns \<and> groupable a \<and> \<not> isReadAction a then [a] else [])"
  "om_get (group_action g a) ns = None \<longleftrightarrow> om_get g ns = None \<and> \<not> (namespaceOf a = ns \<and> groupable a)"
  by (auto simp: reads_in_def writes_in_def group_action_def groupable_def Let_def om_get_set split: option.splits)

lemma group_actions:
  "reads_in (foldl group_action g as) ns = reads_in g ns @ filter (\<lambda>a. namespaceOf a = ns \<and> groupable a \<and> isReadAction a) as
   \<and> writes_in (foldl group_action g as) ns = writes_in g ns @ filter (\<lambda>a. namespaceOf a = ns \<and> groupable a \<and> \<not> isReadAction a) as
   \<and> (om_get (foldl group_action g as) ns = None \<longleftrightarrow> om_get g ns = None \<and> \<not> (\<exists>a \<in> set as. namespaceOf a = ns \<and> groupable a))"
proof (induction as arbitrary: g)
  case Nil
  then show ?case by simp
next
  case (Cons a as)
  show ?case unfolding foldl.simps using Cons.IH [of "group_action g a"]
    by (simp add: group_action_step)
qed

lemma om_get_map_values: "om_get (map (\<lambda>(k, v). (k, f v)) m) k = map_option f (om_get m k)"
  by (simp add: om_get_def map_of_map)

lemma catalog_entry:
  "om_get actionsByNamespace ns =
     (if \<exists>a \<in> set allKnownActions. namespaceOf a = ns \<and> groupable a
      then Some \<lparr>read_actions = sort (filter (\<lambda>a. namespaceOf a = ns \<and> groupable a \<and> isReadAction a) allKnownActions),
        write_actions = sort (filter (\<lambda>a. namespaceOf a = ns \<and> groupable a \<and> \<not> isReadAction a) allKnownActions)\<rparr>
      else None)"
proof -
  let ?g = "foldl group_action [] allKnownActions"
  have g: "reads_in ?g ns = filter (\<lambda>a. namespaceOf a = ns \<and> groupable a \<and> isReadAction a) allKnownActions"
    "writes_in ?g ns = filter (\<lambda>a. namespaceOf a = ns \<and> groupable a \<and> \<not> isReadAction a) allKnownActions"
    "om_get ?g ns = None \<longleftrightarrow> \<not> (\<exists>a \<in> set allKnownActions. namespaceOf a = ns \<and> groupable a)"
    using group_actions [of "[]" allKnownActions ns] by (simp_all add: reads_in_def writes_in_def)
  show ?thesis
  proof (cases "om_get ?g ns")
    case None
    then show ?thesis using g(3) by (simp add: actionsByNamespace_def om_get_map_values)
  next
    case (Some e)
    then have "\<exists>a \<in> set allKnownActions. namespaceOf a = ns \<and> groupable a" using g(3) by simp
    with Some g(1,2) show ?thesis
      by (simp add: actionsByNamespace_def om_get_map_values reads_in_def writes_in_def sort_entry_def)
  qed
qed

lemma grantable_set:
  "a \<in> set (grantableActions ns) \<longleftrightarrow> a \<in> set allKnownActions \<and> namespaceOf a = ns \<and> groupable a"
  by (auto simp: grantableActions_def catalog_entry)

lemma selectable_iff:
  "ns \<in> set selectableNamespaces \<longleftrightarrow> (\<exists>a \<in> set allKnownActions. namespaceOf a = ns \<and> groupable a)"
proof -
  have "ns \<in> set selectableNamespaces \<longleftrightarrow> om_has actionsByNamespace ns"
    by (auto simp: selectableNamespaces_def om_has_def)
  then show ?thesis by (simp add: om_has_get catalog_entry)
qed

lemma sort_empty: "sort xs = [] \<longleftrightarrow> xs = []"
  by (metis set_empty set_sort)

lemma has_write_iff:
  "namespaceHasWriteActions ns \<longleftrightarrow>
     (\<exists>a \<in> set allKnownActions. namespaceOf a = ns \<and> groupable a \<and> \<not> isReadAction a)"
  by (auto simp: namespaceHasWriteActions_def catalog_entry sort_empty filter_empty_conv)

section \<open>Normalisation\<close>

lemma normalize_entries:
  "om_get (concat (map (\<lambda>(k, v). case f k v of None \<Rightarrow> [] | Some v' \<Rightarrow> [(k, v')]) ps)) k
     = (case om_get ps k of None \<Rightarrow> None | Some v \<Rightarrow> f k v)" if "om_inv ps"
  using that
proof (induction ps)
  case Nil
  then show ?case by simp
next
  case (Cons p ps)
  obtain k' v where p: "p = (k', v)" by (cases p)
  have inv: "om_inv ps" and new: "om_get ps k' = None"
    using Cons.prems by (auto simp: om_inv_def p om_get_None_iff)
  show ?case
    using Cons.IH [OF inv] new by (auto simp: p om_get_def split: option.splits)
qed

definition distinct_keys :: "jsval \<Rightarrow> bool" where
  "distinct_keys v = (case v of Obj ps \<Rightarrow> om_inv ps | _ \<Rightarrow> True)"

lemma getp_normalize:
  assumes "distinct_keys s"
  shows "getp (normalizeScopes s) ns = (case normalize_value ns (getp s ns) of None \<Rightarrow> Undef | Some v \<Rightarrow> v)"
proof (cases s)
  case (Obj ps)
  then have inv: "om_inv ps" using assms by (simp add: distinct_keys_def)
  have undef: "normalize_value ns Undef = None" by (simp add: normalize_value_def)
  show ?thesis
    unfolding Obj normalizeScopes_def jsval.case getp.simps om_get_def [symmetric]
    using normalize_entries [OF inv, of normalize_value ns] undef
    by (auto split: option.splits)
qed (simp_all add: normalizeScopes_def normalize_value_def)

lemma strings_of_set: "s \<in> set (strings_of vs) \<longleftrightarrow> Str s \<in> set vs"
  by (force simp: strings_of_def split: jsval.splits)

lemma normalize_value_allows:
  assumes a: "a \<in> set allKnownActions" and ns: "namespaceOf a = ns" "ns \<noteq> []" "ns \<notin> set KEY_DENIED_NAMESPACES"
  shows "scopeAllowsAction ns (case normalize_value ns v of None \<Rightarrow> Undef | Some v' \<Rightarrow> v') a
    \<longleftrightarrow> scopeAllowsAction ns v a"
proof (cases "groupable a")
  case False
  with ns have w: "\<not> isReadAction a" "ns \<in> set KEY_WRITE_DENIED_NAMESPACES" by (auto simp: groupable_def)
  then have "\<not> scopeAllowsAction ns x a" for x
    by (cases x) (auto simp: scopeAllowsAction_def split: if_splits)
  then show ?thesis by blast
next
  case True
  then have sel: "ns \<in> set selectableNamespaces" and gr: "a \<in> set (grantableActions ns)"
    using a ns by (auto simp: selectable_iff grantable_set)
  show ?thesis
  proof (cases v)
    case (Arr vs)
    show ?thesis
    proof (cases "Str a \<in> set vs")
      case True
      then have "a \<in> set (filter (\<lambda>a. a \<in> set (grantableActions ns)) (strings_of vs))"
        using gr by (simp add: strings_of_set)
      then have ne: "filter (\<lambda>a. a \<in> set (grantableActions ns)) (strings_of vs) \<noteq> []" by force
      then have "sort (set_order (filter (\<lambda>a. a \<in> set (grantableActions ns)) (strings_of vs))) \<noteq> []"
        by (metis set_empty set_set_order set_sort)
      then show ?thesis
        using True sel gr by (simp add: Arr normalize_value_def scopeAllowsAction_def strings_of_set Let_def image_iff)
    next
      case False
      then show ?thesis
        by (auto simp: Arr normalize_value_def scopeAllowsAction_def strings_of_set Let_def)
    qed
  next
    case (Str level)
    have "\<not> namespaceHasWriteActions ns \<Longrightarrow> isReadAction a"
      using a ns True by (auto simp: has_write_iff)
    then show ?thesis
      using sel True ns by (auto simp: Str normalize_value_def scopeAllowsAction_def SCOPE_LEVELS_def groupable_def)
  qed (auto simp: normalize_value_def scopeAllowsAction_def)
qed

text \<open>
  Saving a key's scopes changes nothing about what it may do: for every action of the catalog the
  normalised map grants it exactly if the map that was submitted does. So the clean-up neither
  widens a key nor, by dropping what it does not recognise, silently takes a listed action away.
\<close>

theorem normalize_keeps_authority:
  assumes "a \<in> set allKnownActions" and "is_plain s" and "distinct_keys s"
  shows "keyAllows (Obj [(''scopes'', normalizeScopes s)]) a \<longleftrightarrow> keyAllows (Obj [(''scopes'', s)]) a"
proof -
  have plain: "truthy s" "is_object s" "truthy (normalizeScopes s)" "is_object (normalizeScopes s)"
    using assms(2) by (auto simp: is_plain_def normalizeScopes_def split: jsval.splits)
  then show ?thesis
    using normalize_value_allows [OF assms(1) refl]
    by (simp add: keyAllows_def Let_def getp_normalize [OF assms(3)])
qed

lemma known_restore: "''backups:restore-system'' \<in> set allKnownActions"
  unfolding allKnownActions_def set_set_order by code_simp

theorem normalize_keeps_authority_witness:
  "\<not> keyAllows (Obj [(''scopes'', normalizeScopes (Obj [(''backups'', Str ''write'')]))]) ''backups:restore-system''"
proof -
  have "\<not> keyAllows (Obj [(''scopes'', Obj [(''backups'', Str ''write'')])]) ''backups:restore-system''"
    by code_simp
  then show ?thesis
    by (subst normalize_keeps_authority [OF known_restore]) (simp_all add: is_plain_def distinct_keys_def om_inv_def)
qed

section \<open>What no key can do\<close>

lemma allows_bounded:
  "scopeAllowsAction ns v a \<Longrightarrow>
     (ns \<in> set KEY_WRITE_DENIED_NAMESPACES \<longrightarrow> isReadAction a)
     \<and> (a \<in> set LEVEL_EXCLUDED_ACTIONS \<longrightarrow> Str a \<in> set (arr_items v))"
  by (cases v) (auto simp: scopeAllowsAction_def arr_items_def split: if_splits)

lemma key_bounded:
  assumes "keyAllows key a"
  shows "namespaceOf a \<noteq> [] \<and> namespaceOf a \<notin> set KEY_DENIED_NAMESPACES
    \<and> (namespaceOf a \<in> set KEY_WRITE_DENIED_NAMESPACES \<longrightarrow> isReadAction a)
    \<and> (a \<in> set LEVEL_EXCLUDED_ACTIONS \<longrightarrow> Str a \<in> set (arr_items (getp (getp key ''scopes'') (namespaceOf a))))"
proof -
  let ?ns = "namespaceOf a"
  let ?scopes = "if truthy (getp key ''scopes'') \<and> is_object (getp key ''scopes'') then getp key ''scopes'' else Obj []"
  have g: "?ns \<noteq> []" "?ns \<notin> set KEY_DENIED_NAMESPACES" and s: "scopeAllowsAction ?ns (getp ?scopes ?ns) a"
    using assms unfolding keyAllows_def Let_def by meson+
  have "scopeAllowsAction ?ns (getp (getp key ''scopes'') ?ns) a"
  proof (cases "truthy (getp key ''scopes'') \<and> is_object (getp key ''scopes'')")
    case True
    show ?thesis using s unfolding if_P [OF True] .
  next
    case False
    have "\<not> scopeAllowsAction ?ns Undef a" by (simp add: scopeAllowsAction_def)
    with s show ?thesis unfolding if_not_P [OF False] by simp
  qed
  then have "(?ns \<in> set KEY_WRITE_DENIED_NAMESPACES \<longrightarrow> isReadAction a)
    \<and> (a \<in> set LEVEL_EXCLUDED_ACTIONS \<longrightarrow> Str a \<in> set (arr_items (getp (getp key ''scopes'') ?ns)))"
    by (rule allows_bounded)
  then show ?thesis using g by blast
qed

text \<open>
  Whatever is written into the key file by hand: no key reaches the settings, database, setup or
  community namespaces; in the updates and addons namespaces it reaches reads only; and the actions
  that no level covers need the key to name them.
\<close>

theorem hand_edited_key_bounded:
  assumes "keyAllows key a"
  shows "namespaceOf a \<noteq> [] \<and> namespaceOf a \<notin> set KEY_DENIED_NAMESPACES
    \<and> (namespaceOf a \<in> set KEY_WRITE_DENIED_NAMESPACES \<longrightarrow> isReadAction a)
    \<and> (a \<in> set LEVEL_EXCLUDED_ACTIONS \<longrightarrow> Str a \<in> set (arr_items (getp (getp key ''scopes'') (namespaceOf a))))"
  using assms by (rule key_bounded)

theorem hand_edited_key_bounded_witness:
  "keyAllows (Obj [(''scopes'', Obj [(''addons'', Str ''write'')])]) ''addons:read''
   \<and> isReadAction ''addons:read''"
proof -
  have k: "keyAllows (Obj [(''scopes'', Obj [(''addons'', Str ''write'')])]) ''addons:read''" by code_simp
  have "namespaceOf ''addons:read'' \<in> set KEY_WRITE_DENIED_NAMESPACES" by code_simp
  then show ?thesis using k hand_edited_key_bounded [OF k] by blast
qed

text \<open>Normalising twice is normalising once, so a file that is loaded and saved again is unchanged.\<close>

lemma set_order_distinct: "distinct xs \<Longrightarrow> set_order xs = xs"
  by (simp add: set_order_def distinct_remdups_id)

lemma normalize_value_idem: "normalize_value ns v = Some w \<Longrightarrow> normalize_value ns w = Some w"
proof (cases v)
  case (Arr vs)
  let ?as = "sort (set_order (filter (\<lambda>a. a \<in> set (grantableActions ns)) (strings_of vs)))"
  assume n: "normalize_value ns v = Some w"
  then have w: "w = Arr (map Str ?as)" "?as \<noteq> []" "ns \<in> set selectableNamespaces"
    by (simp_all add: Arr normalize_value_def Let_def split: if_splits)
  have strs: "strings_of (map Str xs) = xs" for xs by (induction xs) (simp_all add: strings_of_def)
  have "filter (\<lambda>a. a \<in> set (grantableActions ns)) ?as = ?as" by (simp add: filter_id_conv)
  moreover have "set_order ?as = ?as" by (rule set_order_distinct) simp
  ultimately show ?thesis
    using w by (simp add: normalize_value_def strs Let_def sort_key_id_if_sorted)
next
  case (Str level)
  assume "normalize_value ns v = Some w"
  then show ?thesis by (auto simp: Str normalize_value_def SCOPE_LEVELS_def split: if_splits)
qed (simp_all add: normalize_value_def split: if_splits)

lemma normalizeScopes_idem: "normalizeScopes (normalizeScopes s) = normalizeScopes s"
proof (cases s)
  case (Obj ps)
  have "concat (map (\<lambda>(ns, v). case normalize_value ns v of None \<Rightarrow> [] | Some v' \<Rightarrow> [(ns, v')])
      (concat (map (\<lambda>(ns, v). case normalize_value ns v of None \<Rightarrow> [] | Some v' \<Rightarrow> [(ns, v')]) ps)))
    = concat (map (\<lambda>(ns, v). case normalize_value ns v of None \<Rightarrow> [] | Some v' \<Rightarrow> [(ns, v')]) ps)"
  proof (induction ps)
    case (Cons p ps)
    then show ?case
      using normalize_value_idem [of "fst p" "snd p"]
      by (cases "normalize_value (fst p) (snd p)") (simp_all add: split_def Let_def)
  qed simp
  then show ?thesis by (simp add: Obj normalizeScopes_def)
qed (simp_all add: normalizeScopes_def)

end
