(* ===== verification/JsonStore.thy ===== *)
theory JsonStore
  imports Js
begin

text \<open>
  \<open>console/api/src/jsonStore.js\<close>: the clamping of configured integers, and the atomic write that the
  stores of the console persist with. A file system is a map from paths to contents; every system
  call takes its outcome from an argument, so a theorem covers each way a write can fail, and the
  states a crash can leave behind are the trace of the run.
\<close>

section \<open>Clamping\<close>

definition clampInt :: "jsval \<Rightarrow> int \<Rightarrow> int \<Rightarrow> int \<Rightarrow> int" where
  "clampInt value fallback lo hi =
     (let n = js_floor (to_num value) in
      if \<not> is_finite n then min (max fallback lo) hi
      else min (max (num_int n) lo) hi)"

lemma clampInt_bounds: "lo \<le> hi \<Longrightarrow> lo \<le> clampInt v f lo hi \<and> clampInt v f lo hi \<le> hi"
  by (simp add: clampInt_def Let_def)

lemma clampInt_id: "lo \<le> i \<Longrightarrow> i \<le> hi \<Longrightarrow> clampInt (Number (num_of_int i)) f lo hi = i"
  by (simp add: clampInt_def Let_def num_of_int_def)

section \<open>Atomic writes\<close>

type_synonym path = string
type_synonym fs = "path \<Rightarrow> string option"

text \<open>
  The outcomes of the calls: a write that fails may have written any prefix, a synchronisation or a
  close may fail, and the clean-up of the temporary file may fail too.
\<close>

record outcomes =
  mkdir_ok :: bool
  open_ok :: bool
  written :: nat
  write_ok :: bool
  sync_ok :: bool
  close_ok :: bool
  rename_ok :: bool
  unlink_ok :: bool

definition rename_file :: "path \<Rightarrow> path \<Rightarrow> fs \<Rightarrow> fs" where
  "rename_file a b fs = fs(b := fs a, a := None)"

text \<open>
  The synchronous \<open>writeJsonAtomic\<close>: the temporary name is fixed per process, an existing file of that
  name is overwritten, and an error leaves it behind. The result is success, and the states of the
  file system in the order they are reached.
\<close>

definition writeJsonAtomic :: "outcomes \<Rightarrow> path \<Rightarrow> path \<Rightarrow> string \<Rightarrow> fs \<Rightarrow> bool \<times> fs list" where
  "writeJsonAtomic out tmp target json fs =
     (if \<not> mkdir_ok out then (False, [fs])
      else if \<not> open_ok out then (False, [fs])
      else let fs1 = fs(tmp \<mapsto> []) in
      if \<not> write_ok out then (False, [fs, fs1, fs(tmp \<mapsto> take (written out) json)])
      else let fs2 = fs(tmp \<mapsto> json) in
      if \<not> rename_ok out then (False, [fs, fs1, fs2])
      else (True, [fs, fs1, fs2, rename_file tmp target fs2]))"

text \<open>The asynchronous variant: exclusive creation, synchronisation, and removal of the temporary file on error.\<close>

definition drop_tmp :: "outcomes \<Rightarrow> path \<Rightarrow> fs \<Rightarrow> fs list" where
  "drop_tmp out tmp fs = (if unlink_ok out then [fs(tmp := None)] else [])"

definition writeJsonAtomicAsync :: "outcomes \<Rightarrow> path \<Rightarrow> path \<Rightarrow> string \<Rightarrow> fs \<Rightarrow> bool \<times> fs list" where
  "writeJsonAtomicAsync out tmp target json fs =
     (if \<not> mkdir_ok out then (False, [fs])
      else if fs tmp \<noteq> None \<or> \<not> open_ok out then (False, fs # drop_tmp out tmp fs)
      else let fs1 = fs(tmp \<mapsto> []) in
      if \<not> write_ok out
      then (let fsw = fs(tmp \<mapsto> take (written out) json) in (False, [fs, fs1, fsw] @ drop_tmp out tmp fsw))
      else let fs2 = fs(tmp \<mapsto> json) in
      if \<not> sync_ok out \<or> \<not> close_ok out \<or> \<not> rename_ok out
      then (False, [fs, fs1, fs2] @ drop_tmp out tmp fs2)
      else (True, [fs, fs1, fs2, rename_file tmp target fs2]))"

text \<open>
  A store file is replaced atomically. Wherever the process stops, the file holds its old content
  or the whole new one; a write that reports failure left the old content in place, one that succeeds
  the new; and no file but the temporary one is touched besides.
\<close>

theorem write_atomic:
  assumes "tmp \<noteq> target"
    and "writeJsonAtomicAsync out tmp target json fs = (ok, states)
       \<or> writeJsonAtomic out tmp target json fs = (ok, states)"
  shows "(\<forall>s \<in> set states. s target \<in> {fs target, Some json})
    \<and> (last states) target = (if ok then Some json else fs target)
    \<and> (\<forall>s \<in> set states. \<forall>p. p \<noteq> tmp \<longrightarrow> p \<noteq> target \<longrightarrow> s p = fs p)"
  using assms
  by (auto simp: writeJsonAtomicAsync_def writeJsonAtomic_def Let_def rename_file_def drop_tmp_def
      split: if_splits)

definition disk_full :: outcomes where
  "disk_full = \<lparr>mkdir_ok = True, open_ok = True, written = 3, write_ok = False, sync_ok = True,
     close_ok = True, rename_ok = True, unlink_ok = True\<rparr>"

theorem write_atomic_witness:
  "last (snd (writeJsonAtomicAsync disk_full ''k.tmp'' ''k'' ''new content'' [''k'' \<mapsto> ''old''])) ''k'' = Some ''old''"
  using write_atomic [of "''k.tmp''" "''k''" disk_full "''new content''" "[''k'' \<mapsto> ''old'']" False
      "snd (writeJsonAtomicAsync disk_full ''k.tmp'' ''k'' ''new content'' [''k'' \<mapsto> ''old''])"]
  by (simp add: writeJsonAtomicAsync_def disk_full_def Let_def)

end
