(* ===== verification/ApiKeys.thy ===== *)
theory ApiKeys
  imports ApiKeyScopes JsonStore
begin

text \<open>
  The API key store, \<open>console/api/src/apiKeys.js\<close>. A key record is the JSON object it is in the
  source, the store's state its list of records, the buffered last-used data and the file. Arguments
  of the model: \<open>sha\<close> (the hexadecimal SHA-256 of Node's crypto), the random draws, the readings of
  the clock, \<open>parse_date\<close> and \<open>to_iso\<close> (\<open>new Date(s).getTime()\<close>, \<open>None\<close> for \<open>NaN\<close>, and
  \<open>toISOString\<close>), and whether \<open>writeJsonAtomic\<close> succeeds. One operation reads the clock once.
  Mutations run one after the other, as the write chain of the source makes them.
\<close>

section \<open>Tokens\<close>

definition KEY_PREFIX :: string where "KEY_PREFIX = ''dak_''"
definition KEY_ID_LENGTH :: nat where "KEY_ID_LENGTH = 8"
definition HASH_DOMAIN :: string where "HASH_DOMAIN = ''dune-console-api-key-v1:''"
definition MAX_NAME_LENGTH :: nat where "MAX_NAME_LENGTH = 64"
definition DEFAULT_RATE_LIMIT_PER_MINUTE :: int where "DEFAULT_RATE_LIMIT_PER_MINUTE = 60"
definition MIN_RATE_LIMIT_PER_MINUTE :: int where "MIN_RATE_LIMIT_PER_MINUTE = 1"
definition MAX_RATE_LIMIT_PER_MINUTE :: int where "MAX_RATE_LIMIT_PER_MINUTE = 10000"
definition GLOBAL_RATE_LIMIT_PER_MINUTE :: int where
  "GLOBAL_RATE_LIMIT_PER_MINUTE = MAX_RATE_LIMIT_PER_MINUTE * 2"

definition hashSecret :: "(string \<Rightarrow> string) \<Rightarrow> string \<Rightarrow> string" where
  "hashSecret sha secret = sha (HASH_DOMAIN @ secret)"

definition formatKey :: "string \<Rightarrow> string \<Rightarrow> string" where
  "formatKey i secret = KEY_PREFIX @ i @ ''_'' @ secret"

text \<open>\<open>[A-Za-z0-9_-]\<close>\<close>

definition is_urlsafe :: "char \<Rightarrow> bool" where
  "is_urlsafe c = (is_word_char c \<or> c = CHR ''-'')"

definition parseKey :: "string \<Rightarrow> (string \<times> string) option" where
  "parseKey token =
     (if \<not> starts_with token KEY_PREFIX then None
      else let body = drop (length KEY_PREFIX) token in
      if length body < KEY_ID_LENGTH + 2 then None
      else let i = take KEY_ID_LENGTH body in
      if \<not> (i \<noteq> [] \<and> list_all is_lower_hex i) then None
      else if body ! KEY_ID_LENGTH \<noteq> CHR ''_'' then None
      else let secret = drop (KEY_ID_LENGTH + 1) body in
      if \<not> (secret \<noteq> [] \<and> list_all is_urlsafe secret) then None
      else Some (i, secret))"

text \<open>\<open>s.split(/\s+/)\<close>\<close>

function split_ws :: "string \<Rightarrow> string list" where
  "split_ws s = (case dropWhile (\<lambda>c. \<not> is_ws c) s of
     [] \<Rightarrow> [s]
   | c # r \<Rightarrow> takeWhile (\<lambda>c. \<not> is_ws c) s # split_ws (dropWhile is_ws r))"
  by auto
termination
proof (relation "measure length", simp, goal_cases)
  case (1 s c r)
  have "length (dropWhile is_ws r) \<le> length r" by (rule length_dropWhile_le)
  moreover have "length (dropWhile (\<lambda>c. \<not> is_ws c) s) \<le> length s" by (rule length_dropWhile_le)
  ultimately show ?case using 1 by simp
qed

declare split_ws.simps [simp del]

text \<open>The header value, the empty string when there is none.\<close>

definition bearerToken :: "string \<Rightarrow> string" where
  "bearerToken header =
     (let parts = split_ws header in
      if length parts = 2 \<and> js_lower (parts ! 0) = ''bearer'' then js_trim (parts ! 1) else [])"

definition constantTimeEqual :: "string \<Rightarrow> string \<Rightarrow> bool" where
  "constantTimeEqual a b = (0 < length a \<and> length a = length b \<and> a = b)"

section \<open>Validation\<close>

datatype key_error =
    NameMissing | NameTooLong
  | ExpiryNotString | ExpiryInvalid | ExpiryPast
  | EnabledNotBoolean
  | NoUniqueId
  | PersistError

definition validateName :: "jsval \<Rightarrow> key_error + string" where
  "validateName value =
     (let name = js_trim (if is_nullish value then [] else to_str value) in
      if name = [] then Inl NameMissing
      else if length name > MAX_NAME_LENGTH then Inl NameTooLong
      else Inr name)"

definition validateExpiry ::
  "(string \<Rightarrow> int option) \<Rightarrow> (int \<Rightarrow> string) \<Rightarrow> jsval \<Rightarrow> int \<Rightarrow> key_error + jsval" where
  "validateExpiry parse_date to_iso value tm =
     (if is_nullish value \<or> value = Str [] then Inr Null
      else case value of
        Str s \<Rightarrow>
          (case parse_date s of
             None \<Rightarrow> Inl ExpiryInvalid
           | Some t \<Rightarrow> if t \<le> tm then Inl ExpiryPast else Inr (Str (to_iso t)))
      | _ \<Rightarrow> Inl ExpiryNotString)"

definition validateRateLimit :: "jsval \<Rightarrow> int" where
  "validateRateLimit value =
     (if is_nullish value \<or> value = Str [] then DEFAULT_RATE_LIMIT_PER_MINUTE
      else clampInt value DEFAULT_RATE_LIMIT_PER_MINUTE MIN_RATE_LIMIT_PER_MINUTE MAX_RATE_LIMIT_PER_MINUTE)"

definition rate_value :: "int \<Rightarrow> jsval" where
  "rate_value i = Number (num_of_int i)"

section \<open>Records\<close>

definition validRecord :: "jsval \<Rightarrow> bool" where
  "validRecord record = (truthy record \<and> is_str (getp record ''id'') \<and> is_str (getp record ''hash''))"

definition not_false :: "jsval \<Rightarrow> jsval" where
  "not_false v = Bool (v \<noteq> Bool False)"

text \<open>Assigning a property of a record.\<close>

abbreviation assign :: "string \<Rightarrow> jsval \<Rightarrow> jsval \<Rightarrow> jsval" where
  "assign k x v \<equiv> obj_set k x v"

definition normalizeRecord :: "jsval \<Rightarrow> jsval" where
  "normalizeRecord record =
     assign ''rateLimitPerMinute'' (rate_value (validateRateLimit (getp record ''rateLimitPerMinute'')))
     (assign ''expiresAt'' (js_or (getp record ''expiresAt'') Null)
     (assign ''enabled'' (not_false (getp record ''enabled''))
     (assign ''scopes'' (normalizeScopes (getp record ''scopes'')) record)))"

definition publicKey :: "jsval \<Rightarrow> bool \<Rightarrow> jsval" where
  "publicKey record expired = Obj [
     (''expired'', Bool expired),
     (''id'', getp record ''id''),
     (''name'', getp record ''name''),
     (''prefix'', getp record ''prefix''),
     (''scopes'', js_or (getp record ''scopes'') (Obj [])),
     (''enabled'', not_false (getp record ''enabled'')),
     (''createdAt'', getp record ''createdAt''),
     (''expiresAt'', js_or (getp record ''expiresAt'') Null),
     (''lastUsedAt'', js_or (getp record ''lastUsedAt'') Null),
     (''lastUsedIp'', js_or (getp record ''lastUsedIp'') Null),
     (''rateLimitPerMinute'',
        js_or (getp record ''rateLimitPerMinute'') (rate_value DEFAULT_RATE_LIMIT_PER_MINUTE))]"

text \<open>\<open>new Date(v).getTime()\<close> of the stored value; a number is a time in milliseconds.\<close>

definition date_of :: "(string \<Rightarrow> int option) \<Rightarrow> jsval \<Rightarrow> int option" where
  "date_of parse_date v = (case v of
     Str s \<Rightarrow> parse_date s
   | Number n \<Rightarrow> if is_finite n \<and> \<bar>num_int n\<bar> \<le> 8640000000000000 then Some (num_int n) else None
   | Bool b \<Rightarrow> Some (if b then 1 else 0)
   | _ \<Rightarrow> parse_date (to_str v))"

definition isExpired :: "(string \<Rightarrow> int option) \<Rightarrow> jsval \<Rightarrow> int \<Rightarrow> bool" where
  "isExpired parse_date record tm =
     (if \<not> truthy (getp record ''expiresAt'') then False
      else case date_of parse_date (getp record ''expiresAt'') of
          None \<Rightarrow> True
        | Some expiresAt \<Rightarrow> expiresAt \<le> tm)"

section \<open>The state\<close>

record usage =
  used_at :: string
  used_ip :: jsval

datatype key_file = NoFile | Corrupt string | KeyFile jsval

record key_state =
  live_keys :: "jsval list"
  pending_use :: "(string, usage) omap"
  disk :: key_file

text \<open>\<open>JSON.stringify\<close> leaves out the properties that are \<open>undefined\<close>.\<close>

definition stringify_record :: "jsval \<Rightarrow> jsval" where
  "stringify_record r = (case r of Obj ps \<Rightarrow> Obj (filter (\<lambda>p. getp r (fst p) \<noteq> Undef) ps) | _ \<Rightarrow> r)"

definition file_of :: "jsval list \<Rightarrow> key_file" where
  "file_of ks = KeyFile (Obj [(''version'', Number (Num 1)), (''keys'', Arr (map stringify_record ks))])"

text \<open>
  \<open>load\<close> returns the records and the file left behind: an unreadable file is moved aside when the
  rename succeeds.
\<close>

definition load_keys :: "bool \<Rightarrow> key_file \<Rightarrow> jsval list \<times> key_file" where
  "load_keys rename_done f = (case f of
       NoFile \<Rightarrow> ([], NoFile)
     | Corrupt text \<Rightarrow> ([], if rename_done then NoFile else Corrupt text)
     | KeyFile parsed \<Rightarrow>
         (map normalizeRecord (filter validRecord (arr_items (getp parsed ''keys''))), KeyFile parsed))"

definition createApiKeyStore :: "bool \<Rightarrow> key_file \<Rightarrow> key_state" where
  "createApiKeyStore rename_done f = (case load_keys rename_done f of
     (ks, f') \<Rightarrow> \<lparr>live_keys = ks, pending_use = [], disk = f'\<rparr>)"

definition byId :: "jsval list \<Rightarrow> string \<Rightarrow> jsval option" where
  "byId ks i = find (\<lambda>r. getp r ''id'' = Str i) ks"

text \<open>Changing the first record of an id in place.\<close>

fun update_first :: "string \<Rightarrow> (jsval \<Rightarrow> jsval) \<Rightarrow> jsval list \<Rightarrow> jsval list" where
  "update_first i f [] = []"
| "update_first i f (r # rs) = (if getp r ''id'' = Str i then f r # rs else r # update_first i f rs)"

fun remove_first :: "string \<Rightarrow> jsval list \<Rightarrow> jsval list" where
  "remove_first i [] = []"
| "remove_first i (r # rs) = (if getp r ''id'' = Str i then rs else r # remove_first i rs)"

definition list_keys :: "(string \<Rightarrow> int option) \<Rightarrow> int \<Rightarrow> key_state \<Rightarrow> jsval list" where
  "list_keys parse_date tm st = map (\<lambda>r. publicKey r (isExpired parse_date r tm)) (live_keys st)"

definition get_key :: "(string \<Rightarrow> int option) \<Rightarrow> int \<Rightarrow> key_state \<Rightarrow> string \<Rightarrow> jsval option" where
  "get_key parse_date tm st i =
     map_option (\<lambda>r. publicKey r (isExpired parse_date r tm)) (byId (live_keys st) i)"

section \<open>Creating\<close>

text \<open>The first draw and up to eight more while the id is taken.\<close>

function pick_id :: "jsval list \<Rightarrow> (nat \<Rightarrow> string) \<Rightarrow> nat \<Rightarrow> string" where
  "pick_id ks draw attempt =
     (if byId ks (draw attempt) \<noteq> None \<and> attempt < 8 then pick_id ks draw (attempt + 1) else draw attempt)"
  by auto
termination
  by (relation "measure (\<lambda>(ks, draw, attempt). 8 - attempt)") auto

declare pick_id.simps [simp del]

definition new_record ::
  "(string \<Rightarrow> string) \<Rightarrow> (int \<Rightarrow> string) \<Rightarrow> string \<Rightarrow> string \<Rightarrow> int \<Rightarrow> string \<Rightarrow> jsval \<Rightarrow> jsval \<Rightarrow> jsval \<Rightarrow> jsval" where
  "new_record sha to_iso i secret tm name scopes expiresAt rate = Obj [
     (''id'', Str i), (''name'', Str name), (''scopes'', normalizeScopes scopes), (''enabled'', Bool True),
     (''createdAt'', Str (to_iso tm)), (''expiresAt'', expiresAt), (''lastUsedAt'', Null), (''lastUsedIp'', Null),
     (''rateLimitPerMinute'', rate_value (validateRateLimit rate)), (''prefix'', Str (KEY_PREFIX @ i)),
     (''hash'', Str (hashSecret sha secret))]"

text \<open>
  \<open>create\<close>: the pushed record is removed again when the file cannot be written. The filter of the
  source removes that one object, by identity.
\<close>

definition create_key ::
  "(string \<Rightarrow> string) \<Rightarrow> (string \<Rightarrow> int option) \<Rightarrow> (int \<Rightarrow> string) \<Rightarrow> key_state
   \<Rightarrow> (nat \<Rightarrow> string) \<Rightarrow> string \<Rightarrow> int \<Rightarrow> bool \<Rightarrow> jsval \<Rightarrow> (key_error + jsval \<times> string) \<times> key_state" where
  "create_key sha parse_date to_iso st draw secret tm persist_ok request =
     (let i = pick_id (live_keys st) draw 0 in
      if byId (live_keys st) i \<noteq> None then (Inl NoUniqueId, st)
      else case validateName (getp request ''name'') of
        Inl e \<Rightarrow> (Inl e, st)
      | Inr name \<Rightarrow>
          (case validateExpiry parse_date to_iso (getp request ''expiresAt'') tm of
             Inl e \<Rightarrow> (Inl e, st)
           | Inr expiresAt \<Rightarrow>
               (let r = new_record sha to_iso i secret tm name (getp request ''scopes'') expiresAt
                          (getp request ''rateLimitPerMinute'');
                    st1 = st\<lparr>live_keys := live_keys st @ [r]\<rparr>
                in if persist_ok
                   then (Inr (publicKey r (isExpired parse_date r tm), formatKey i secret),
                         st1\<lparr>disk := file_of (live_keys st1)\<rparr>)
                   else (Inl PersistError, st1\<lparr>live_keys := butlast (live_keys st1)\<rparr>))))"

section \<open>Updating\<close>

text \<open>The staged fields in the order they are assigned; the first invalid one decides the error.\<close>

definition stage_field ::
  "jsval \<Rightarrow> string \<Rightarrow> (jsval \<Rightarrow> key_error + jsval) \<Rightarrow> key_error + (string \<times> jsval) list \<Rightarrow> key_error + (string \<times> jsval) list" where
  "stage_field patch k f staged = (case staged of
     Inl e \<Rightarrow> Inl e
   | Inr ps \<Rightarrow>
       (if getp patch k = Undef then Inr ps
        else case f (getp patch k) of Inl e \<Rightarrow> Inl e | Inr v \<Rightarrow> Inr (ps @ [(k, v)])))"

definition stage_patch ::
  "(string \<Rightarrow> int option) \<Rightarrow> (int \<Rightarrow> string) \<Rightarrow> int \<Rightarrow> jsval \<Rightarrow> key_error + (string \<times> jsval) list" where
  "stage_patch parse_date to_iso tm patch =
     stage_field patch ''rateLimitPerMinute'' (\<lambda>v. Inr (rate_value (validateRateLimit v)))
     (stage_field patch ''expiresAt'' (\<lambda>v. validateExpiry parse_date to_iso v tm)
     (stage_field patch ''enabled'' (\<lambda>v. case v of Bool b \<Rightarrow> Inr (Bool b) | _ \<Rightarrow> Inl EnabledNotBoolean)
     (stage_field patch ''scopes'' (\<lambda>v. Inr (normalizeScopes v))
     (stage_field patch ''name'' (\<lambda>v. case validateName v of Inl e \<Rightarrow> Inl e | Inr n \<Rightarrow> Inr (Str n)) (Inr [])))))"

definition assign_all :: "(string \<times> jsval) list \<Rightarrow> jsval \<Rightarrow> jsval" where
  "assign_all ps r = foldl (\<lambda>r (k, v). assign k v r) r ps"

definition delete_all :: "string list \<Rightarrow> jsval \<Rightarrow> jsval" where
  "delete_all added r = (case r of Obj ps \<Rightarrow> Obj (foldl (\<lambda>ps k. om_delete k ps) ps added) | _ \<Rightarrow> r)"

definition entries_of :: "jsval \<Rightarrow> (string \<times> jsval) list" where
  "entries_of r = (case r of Obj ps \<Rightarrow> ps | _ \<Rightarrow> [])"

definition update_key ::
  "(string \<Rightarrow> int option) \<Rightarrow> (int \<Rightarrow> string) \<Rightarrow> key_state \<Rightarrow> string \<Rightarrow> jsval \<Rightarrow> int \<Rightarrow> bool
   \<Rightarrow> (key_error + jsval option) \<times> key_state" where
  "update_key parse_date to_iso st i patch tm persist_ok =
     (case byId (live_keys st) i of
        None \<Rightarrow> (Inr None, st)
      | Some r \<Rightarrow>
          (case stage_patch parse_date to_iso tm patch of
             Inl e \<Rightarrow> (Inl e, st)
           | Inr staged \<Rightarrow>
               (let before = entries_of r;
                    added = filter (\<lambda>k. k \<notin> set (obj_keys r)) (map fst staged);
                    st1 = st\<lparr>live_keys := update_first i (assign_all staged) (live_keys st)\<rparr>;
                    r1 = assign_all staged r
                in if persist_ok
                   then (Inr (Some (publicKey r1 (isExpired parse_date r1 tm))),
                         st1\<lparr>disk := file_of (live_keys st1)\<rparr>)
                   else (Inl PersistError,
                         st1\<lparr>live_keys := update_first i (\<lambda>r1. delete_all added (assign_all before r1))
                                           (live_keys st1)\<rparr>))))"

section \<open>Revoking\<close>

text \<open>The index of the record, for the splice that puts it back.\<close>

fun insert_at :: "nat \<Rightarrow> 'a \<Rightarrow> 'a list \<Rightarrow> 'a list" where
  "insert_at 0 x xs = x # xs"
| "insert_at (Suc n) x [] = [x]"
| "insert_at (Suc n) x (y # ys) = y # insert_at n x ys"

fun index_of_id :: "string \<Rightarrow> jsval list \<Rightarrow> nat option" where
  "index_of_id i [] = None"
| "index_of_id i (r # rs) = (if getp r ''id'' = Str i then Some 0 else map_option Suc (index_of_id i rs))"

definition revoke_key ::
  "(string \<Rightarrow> int option) \<Rightarrow> key_state \<Rightarrow> string \<Rightarrow> int \<Rightarrow> bool \<Rightarrow> (key_error + jsval option) \<times> key_state" where
  "revoke_key parse_date st i tm persist_ok =
     (case index_of_id i (live_keys st) of
        None \<Rightarrow> (Inr None, st)
      | Some n \<Rightarrow>
          (let removed = live_keys st ! n;
               bufferedUse = om_get (pending_use st) i;
               st1 = st\<lparr>live_keys := take n (live_keys st) @ drop (n + 1) (live_keys st),
                        pending_use := om_delete i (pending_use st)\<rparr>
           in if persist_ok
              then (Inr (Some (publicKey removed (isExpired parse_date removed tm))),
                    st1\<lparr>disk := file_of (live_keys st1)\<rparr>)
              else (Inl PersistError,
                    st1\<lparr>live_keys := insert_at n removed (live_keys st1),
                        pending_use := (case bufferedUse of None \<Rightarrow> pending_use st1
                          | Some u \<Rightarrow> om_set i u (pending_use st1))\<rparr>)))"

section \<open>Authentication\<close>

datatype key_auth =
    NoBearer
  | InvalidKey
  | DisabledKey
  | ExpiredKey
  | KeyAccepted jsval jsval

definition key_session :: "jsval \<Rightarrow> jsval" where
  "key_session r = Obj [(''id'', Str (''apikey:'' @ to_str (getp r ''id''))), (''tier'', Str ''owner''),
     (''apiKeyId'', getp r ''id''), (''csrf'', Str [])]"

definition authenticate ::
  "(string \<Rightarrow> string) \<Rightarrow> (string \<Rightarrow> int option) \<Rightarrow> key_state \<Rightarrow> string \<Rightarrow> int \<Rightarrow> key_auth" where
  "authenticate sha parse_date st header tm =
     (let token = bearerToken header in
      if token = [] then NoBearer
      else case parseKey token of
        None \<Rightarrow> InvalidKey
      | Some (i, secret) \<Rightarrow>
          (case byId (live_keys st) i of
             None \<Rightarrow> InvalidKey
           | Some r \<Rightarrow>
               (if \<not> constantTimeEqual (hashSecret sha secret) (to_str (js_or (getp r ''hash'') (Str []))) then InvalidKey
                else if getp r ''enabled'' = Bool False then DisabledKey
                else if isExpired parse_date r tm then ExpiredKey
                else KeyAccepted r (key_session r))))"

section \<open>Last use\<close>

definition recordUse :: "(int \<Rightarrow> string) \<Rightarrow> key_state \<Rightarrow> string \<Rightarrow> jsval \<Rightarrow> int \<Rightarrow> key_state" where
  "recordUse to_iso st i ip tm =
     (if byId (live_keys st) i = None then st
      else st\<lparr>pending_use := om_set i \<lparr>used_at = to_iso tm, used_ip = js_or ip Null\<rparr> (pending_use st)\<rparr>)"

definition apply_use :: "usage \<Rightarrow> jsval \<Rightarrow> jsval" where
  "apply_use u r = assign ''lastUsedIp'' (used_ip u) (assign ''lastUsedAt'' (Str (used_at u)) r)"

text \<open>The loop over the buffer, and its undoing with the remembered previous values.\<close>

fun apply_uses :: "(string \<times> usage) list \<Rightarrow> jsval list \<Rightarrow> jsval list \<times> (string \<times> jsval \<times> jsval) list" where
  "apply_uses [] ks = (ks, [])"
| "apply_uses ((i, u) # us) ks = (case byId ks i of
     None \<Rightarrow> apply_uses us ks
   | Some r \<Rightarrow> (case apply_uses us (update_first i (apply_use u) ks) of (ks', applied) \<Rightarrow>
       (ks', (i, getp r ''lastUsedAt'', getp r ''lastUsedIp'') # applied)))"

definition undo_use :: "jsval list \<Rightarrow> string \<times> jsval \<times> jsval \<Rightarrow> jsval list" where
  "undo_use ks p = (case p of (i, tm, ip) \<Rightarrow>
     update_first i (\<lambda>r. assign ''lastUsedIp'' ip (assign ''lastUsedAt'' tm r)) ks)"

definition flushLastUsed :: "key_state \<Rightarrow> bool \<Rightarrow> (key_error + bool) \<times> key_state" where
  "flushLastUsed st persist_ok =
     (if pending_use st = [] then (Inr False, st)
      else case apply_uses (pending_use st) (live_keys st) of (ks, applied) \<Rightarrow>
        (if applied = [] then (Inr False, st\<lparr>live_keys := ks, pending_use := []\<rparr>)
         else if persist_ok
         then (Inr True, st\<lparr>live_keys := ks, pending_use := [], disk := file_of ks\<rparr>)
         else (Inl PersistError, st\<lparr>live_keys := foldl undo_use ks applied\<rparr>)))"

section \<open>The shape of a token\<close>

lemma parsed_token:
  assumes "length i = 8" and "list_all is_lower_hex i" and "secret \<noteq> []" and "list_all is_urlsafe secret"
  shows "parseKey (formatKey i secret) = Some (i, secret)"
proof -
  have "i \<noteq> []" and "0 < length secret" using assms by auto
  with assms show ?thesis
    by (simp add: parseKey_def formatKey_def KEY_ID_LENGTH_def nth_append Let_def)
qed

text \<open>
  The token printed at creation is the only one that parses back to its id and secret: parsing
  inverts formatting, and accepts nothing else. In particular an underscore inside the secret never
  shifts the boundary.
\<close>

theorem parseKey_iff:
  "parseKey token = Some (i, secret) \<longleftrightarrow>
     token = formatKey i secret \<and> length i = 8 \<and> list_all is_lower_hex i
     \<and> secret \<noteq> [] \<and> list_all is_urlsafe secret"
proof
  assume p: "parseKey token = Some (i, secret)"
  let ?b = "drop (length KEY_PREFIX) token"
  have pre: "starts_with token KEY_PREFIX" and len: "10 \<le> length ?b" and i: "i = take 8 ?b"
    and hex: "list_all is_lower_hex i" and us: "?b ! 8 = CHR ''_''" and s: "secret = drop 9 ?b"
    and ok: "secret \<noteq> []" "list_all is_urlsafe secret"
    using p by (auto simp: parseKey_def KEY_ID_LENGTH_def Let_def split: if_splits)
  have "?b = take 8 ?b @ ?b ! 8 # drop 9 ?b"
    using len id_take_nth_drop [of 8 ?b] by simp
  then have "?b = i @ ''_'' @ secret" using i us s by simp
  moreover have "token = KEY_PREFIX @ ?b" using pre by (auto simp: starts_with_iff)
  ultimately show "token = formatKey i secret \<and> length i = 8 \<and> list_all is_lower_hex i
     \<and> secret \<noteq> [] \<and> list_all is_urlsafe secret"
    using i len hex ok by (simp add: formatKey_def)
qed (use parsed_token in blast)

section \<open>Records up to undefined properties\<close>

definition same_record :: "jsval \<Rightarrow> jsval \<Rightarrow> bool" where
  "same_record r r' = (\<forall>k. getp r k = getp r' k)"

lemma same_record_refl [simp]: "same_record r r"
  by (simp add: same_record_def)

lemma same_record_trans: "same_record a b \<Longrightarrow> same_record b c \<Longrightarrow> same_record a c"
  by (simp add: same_record_def)

lemma map_of_filter_key: "map_of (filter (\<lambda>p. P (fst p)) ps) k = (if P k then map_of ps k else None)"
  by (induction ps) auto

lemma stringify_same: "same_record (stringify_record r) r"
proof (cases r)
  case (Obj ps)
  show ?thesis
    unfolding same_record_def stringify_record_def Obj jsval.case
    using map_of_filter_key [of "\<lambda>k. getp (Obj ps) k \<noteq> Undef" ps]
    by (auto split: option.splits)
qed (simp_all add: stringify_record_def)

lemma stringify_plain [simp]: "is_plain (stringify_record r) = is_plain r"
  by (simp add: stringify_record_def is_plain_def split: jsval.splits)

lemma stringify_distinct: "distinct_keys r \<Longrightarrow> distinct_keys (stringify_record r)"
  by (auto simp: distinct_keys_def stringify_record_def om_inv_def distinct_map_filter split: jsval.splits)

lemma validRecord_plain: "validRecord r \<Longrightarrow> is_plain r"
  by (cases r) (simp_all add: validRecord_def is_plain_def)

lemma validRecord_iff: "validRecord r \<longleftrightarrow> is_plain r \<and> is_str (getp r ''id'') \<and> is_str (getp r ''hash'')"
  using validRecord_plain [of r] truthy_plain [of r] by (auto simp: validRecord_def)

text \<open>A record the store holds in memory: valid, and as \<open>normalizeRecord\<close> leaves it.\<close>

definition settled :: "jsval \<Rightarrow> bool" where
  "settled r = (validRecord r \<and> distinct_keys r
     \<and> normalizeScopes (getp r ''scopes'') = getp r ''scopes''
     \<and> not_false (getp r ''enabled'') = getp r ''enabled''
     \<and> js_or (getp r ''expiresAt'') Null = getp r ''expiresAt''
     \<and> rate_value (validateRateLimit (getp r ''rateLimitPerMinute'')) = getp r ''rateLimitPerMinute'')"

lemma normalize_get:
  assumes "is_plain r"
  shows "getp (normalizeRecord r) k =
    (if k = ''rateLimitPerMinute'' then rate_value (validateRateLimit (getp r ''rateLimitPerMinute''))
     else if k = ''expiresAt'' then js_or (getp r ''expiresAt'') Null
     else if k = ''enabled'' then not_false (getp r ''enabled'')
     else if k = ''scopes'' then normalizeScopes (getp r ''scopes'')
     else getp r k)"
  using assms by (simp add: normalizeRecord_def getp_obj_set)

lemma rate_value_idem: "rate_value (validateRateLimit (rate_value (validateRateLimit v))) = rate_value (validateRateLimit v)"
proof -
  have "1 \<le> validateRateLimit v \<and> validateRateLimit v \<le> 10000"
    using clampInt_bounds [of 1 10000 v 60]
    by (simp add: validateRateLimit_def DEFAULT_RATE_LIMIT_PER_MINUTE_def MIN_RATE_LIMIT_PER_MINUTE_def
        MAX_RATE_LIMIT_PER_MINUTE_def)
  then have "validateRateLimit (rate_value (validateRateLimit v)) = validateRateLimit v"
    unfolding rate_value_def
    by (simp add: validateRateLimit_def [of "Number _"] clampInt_id
        MIN_RATE_LIMIT_PER_MINUTE_def MAX_RATE_LIMIT_PER_MINUTE_def)
  then show ?thesis by simp
qed

lemma not_false_idem [simp]: "not_false (not_false v) = not_false v"
  by (simp add: not_false_def)

lemma js_or_Null_idem [simp]: "js_or (js_or v Null) Null = js_or v Null"
  by (simp add: js_or_def)

lemma distinct_obj_set [simp]: "distinct_keys r \<Longrightarrow> distinct_keys (obj_set k v r)"
  by (simp add: distinct_keys_def obj_set_def om_inv_set split: jsval.splits)

lemma normalized_settled: "validRecord r \<Longrightarrow> distinct_keys r \<Longrightarrow> settled (normalizeRecord r)"
  using validRecord_plain [of r]
  by (simp add: settled_def validRecord_iff normalize_get normalizeScopes_idem rate_value_idem)
    (simp add: normalizeRecord_def)

lemma settled_normalize: "settled r \<Longrightarrow> same_record (normalizeRecord r) r"
  by (simp add: settled_def same_record_def normalize_get validRecord_plain)

lemma settled_same: "same_record r r' \<Longrightarrow> is_plain r \<Longrightarrow> distinct_keys r \<Longrightarrow> settled r' \<Longrightarrow> settled r"
  by (simp add: settled_def same_record_def validRecord_iff)

text \<open>What is written reads back as the records in memory.\<close>

lemma load_file_of:
  assumes "list_all settled ks"
  shows "list_all2 same_record (fst (load_keys b (file_of ks))) ks"
proof -
  have "same_record (normalizeRecord (stringify_record r)) r \<and> validRecord (stringify_record r)"
    if "settled r" for r
  proof -
    have p: "is_plain (stringify_record r)" using that by (simp add: settled_def validRecord_plain)
    have d: "distinct_keys (stringify_record r)" using that by (simp add: settled_def stringify_distinct)
    have s: "settled (stringify_record r)" by (rule settled_same [OF stringify_same p d that])
    then show ?thesis
      using same_record_trans [OF settled_normalize [OF s] stringify_same] by (simp add: settled_def)
  qed
  with assms have "list_all2 same_record (map normalizeRecord (filter validRecord (map stringify_record ks))) ks"
    by (induction ks) auto
  then show ?thesis by (simp add: load_keys_def file_of_def arr_items_def)
qed

section \<open>Lists of records\<close>

abbreviation same_keys :: "jsval list \<Rightarrow> jsval list \<Rightarrow> bool" where
  "same_keys \<equiv> list_all2 same_record"

lemma same_keys_refl [simp]: "same_keys ks ks"
  by (simp add: list_all2_refl)

lemma same_keys_trans: "same_keys a b \<Longrightarrow> same_keys b c \<Longrightarrow> same_keys a c"
  by (rule list_all2_trans) (auto intro: same_record_trans)

lemma byId_update: "byId ks i = Some r \<Longrightarrow> update_first i f ks = update_first i (\<lambda>_. f r) ks"
  by (induction ks) (auto simp: byId_def)

lemma byId_valid: "byId ks i = Some r \<Longrightarrow> list_all P ks \<Longrightarrow> P r"
  using find_in_set [of _ ks r] by (auto simp: byId_def list_all_iff)

lemma byId_id: "byId ks i = Some r \<Longrightarrow> getp r ''id'' = Str i"
  using find_in_set [of _ ks r] by (auto simp: byId_def)

lemma update_first_twice:
  "(\<And>r. getp (f r) ''id'' = getp r ''id'') \<Longrightarrow> update_first i g (update_first i f ks) = update_first i (\<lambda>r. g (f r)) ks"
  by (induction ks) auto

lemma update_first_all: "list_all P ks \<Longrightarrow> (\<And>r. P r \<Longrightarrow> P (f r)) \<Longrightarrow> list_all P (update_first i f ks)"
  by (induction ks) auto

lemma update_first_same: "byId ks i = Some r \<Longrightarrow> same_record (f r) r \<Longrightarrow> same_keys (update_first i f ks) ks"
  by (induction ks) (auto simp: byId_def split: if_splits)

lemma update_first_absent: "byId ks i = None \<Longrightarrow> update_first i f ks = ks"
  by (induction ks) (auto simp: byId_def split: if_splits)

lemma update_first_cong:
  "same_keys ks ks' \<Longrightarrow> list_all is_plain ks \<Longrightarrow> list_all is_plain ks' \<Longrightarrow>
   (\<And>r r'. same_record r r' \<Longrightarrow> is_plain r \<Longrightarrow> is_plain r' \<Longrightarrow> same_record (f r) (f r'))
   \<Longrightarrow> same_keys (update_first i f ks) (update_first i f ks')"
proof (induction rule: list_all2_induct)
  case (Cons x xs y ys)
  then have "getp x ''id'' = getp y ''id''" by (simp add: same_record_def)
  with Cons show ?case by simp
qed simp

lemma same_keys_ids: "same_keys ks ks' \<Longrightarrow> map (\<lambda>r. getp r ''id'') ks = map (\<lambda>r. getp r ''id'') ks'"
  by (induction rule: list_all2_induct) (auto simp: same_record_def)

lemma update_first_ids:
  "(\<And>r. getp (f r) ''id'' = getp r ''id'') \<Longrightarrow> map (\<lambda>r. getp r ''id'') (update_first i f ks) = map (\<lambda>r. getp r ''id'') ks"
  by (induction ks) auto

section \<open>Fields of a patch\<close>

definition field_ok :: "string \<times> jsval \<Rightarrow> bool" where
  "field_ok p = (case p of (k, v) \<Rightarrow>
     k = ''name'' \<or> k = ''scopes'' \<and> normalizeScopes v = v \<or> k = ''enabled'' \<and> not_false v = v
     \<or> k = ''expiresAt'' \<and> js_or v Null = v
     \<or> k = ''rateLimitPerMinute'' \<and> rate_value (validateRateLimit v) = v)"

lemma assign_settled: "settled r \<Longrightarrow> field_ok (k, v) \<Longrightarrow> settled (assign k v r)"
  by (auto simp: settled_def field_ok_def validRecord_iff getp_obj_set)

lemma assign_all_settled: "list_all field_ok ps \<Longrightarrow> settled r \<Longrightarrow> settled (assign_all ps r)"
  by (induction ps arbitrary: r) (auto simp: assign_all_def assign_settled)

definition staged_ok :: "key_error + (string \<times> jsval) list \<Rightarrow> bool" where
  "staged_ok staged = (\<forall>ps. staged = Inr ps \<longrightarrow> list_all field_ok ps)"

lemma stage_field_ok:
  "staged_ok staged \<Longrightarrow> (\<And>x v. f x = Inr v \<Longrightarrow> field_ok (k, v)) \<Longrightarrow> staged_ok (stage_field patch k f staged)"
  by (auto simp: stage_field_def staged_ok_def split: sum.splits if_splits)

lemma expiry_ok: "validateExpiry parse_date to_iso v tm = Inr e \<Longrightarrow> \<forall>t. to_iso t \<noteq> [] \<Longrightarrow> js_or e Null = e"
  by (auto simp: validateExpiry_def js_or_def split: jsval.splits option.splits if_splits)

lemma stage_patch_ok:
  assumes "\<forall>t. to_iso t \<noteq> []"
  shows "staged_ok (stage_patch parse_date to_iso tm patch)"
  unfolding stage_patch_def
proof (intro stage_field_ok, goal_cases)
  case 1
  show ?case by (simp add: staged_ok_def)
next
  case (4 x v)
  then show ?case by (cases x) (auto simp: field_ok_def not_false_def)
next
  case (5 x v)
  then show ?case using expiry_ok [OF _ assms] by (simp add: field_ok_def)
qed (auto simp: field_ok_def rate_value_idem normalizeScopes_idem split: sum.splits)

section \<open>Rolling back\<close>

lemma assign_all_Nil [simp]: "assign_all [] r = r"
  by (simp add: assign_all_def)

lemma assign_all_Cons [simp]: "assign_all (p # ps) r = assign_all ps (assign (fst p) (snd p) r)"
  by (simp add: assign_all_def split_def)

lemma assign_all_plain [simp]: "is_plain (assign_all ps r) = is_plain r"
  by (induction ps arbitrary: r) simp_all

lemma getp_assign_all:
  "is_plain r \<Longrightarrow> getp (assign_all ps r) k = (case map_of (rev ps) k of None \<Rightarrow> getp r k | Some v \<Rightarrow> v)"
proof (induction ps arbitrary: r)
  case Nil
  then show ?case by simp
next
  case (Cons p ps)
  obtain k' v where p: "p = (k', v)" by (cases p)
  show ?case
    using Cons.IH [of "assign k' v r"] Cons.prems
    by (simp add: p getp_obj_set map_add_def split: option.splits)
qed

lemma delete_all_plain [simp]: "is_plain (delete_all ks r) = is_plain r"
  by (simp add: is_plain_def delete_all_def split: jsval.splits)

lemma om_get_delete_many: "om_get (foldl (\<lambda>ps k. om_delete k ps) ps ks) k = (if k \<in> set ks then None else om_get ps k)"
  by (induction ks arbitrary: ps) (auto simp: om_get_delete)

lemma getp_delete_all: "getp (delete_all ks r) k = (if k \<in> set ks then Undef else getp r k)"
  by (cases r) (simp_all add: delete_all_def om_get_delete_many [unfolded om_get_def])

lemma getp_entries: "is_plain r \<Longrightarrow> getp r k = (case map_of (entries_of r) k of None \<Rightarrow> Undef | Some v \<Rightarrow> v)"
  by (cases r) (simp_all add: is_plain_def entries_of_def)

lemma assign_all_distinct [simp]: "distinct_keys r \<Longrightarrow> distinct_keys (assign_all ps r)"
  by (induction ps arbitrary: r) simp_all

lemma om_inv_delete_many: "om_inv ps \<Longrightarrow> om_inv (foldl (\<lambda>ps k. om_delete k ps) ps ks)"
  by (induction ks arbitrary: ps) (simp_all add: om_inv_delete)

lemma delete_all_distinct [simp]: "distinct_keys r \<Longrightarrow> distinct_keys (delete_all ks r)"
  by (simp add: distinct_keys_def delete_all_def om_inv_delete_many split: jsval.splits)

lemma obj_keys_entries: "obj_keys r = map fst (entries_of r)"
  by (simp add: obj_keys_def entries_of_def split: jsval.splits)

lemma rollback_update:
  assumes "settled r"
  shows "same_record (delete_all (filter (\<lambda>k. k \<notin> set (obj_keys r)) (map fst staged))
      (assign_all (entries_of r) (assign_all staged r))) r"
proof -
  have plain: "is_plain r" and dist: "distinct (map fst (entries_of r))"
    using assms by (auto simp: settled_def validRecord_plain distinct_keys_def entries_of_def om_inv_def split: jsval.splits)
  have rev_map: "map_of (rev (entries_of r)) k = map_of (entries_of r) k" for k
    using dist by (metis distinct_rev map_of_inject_set rev_map set_rev)
  show ?thesis
    unfolding same_record_def
  proof
    fix k
    have none: "map_of (entries_of r) k = None \<longleftrightarrow> k \<notin> set (obj_keys r)"
      by (simp add: obj_keys_entries map_of_eq_None_iff)
    show "getp (delete_all (filter (\<lambda>k. k \<notin> set (obj_keys r)) (map fst staged))
      (assign_all (entries_of r) (assign_all staged r))) k = getp r k"
    proof (cases "map_of (entries_of r) k")
      case (Some v)
      then show ?thesis
        using none plain by (simp add: getp_delete_all getp_assign_all rev_map getp_entries [OF plain])
    next
      case None
      then have "k \<notin> set (map fst staged) \<Longrightarrow> map_of (rev staged) k = None"
        by (simp add: map_of_eq_None_iff)
      then show ?thesis
        using None none plain by (auto simp: getp_delete_all getp_assign_all rev_map getp_entries [OF plain])
    qed
  qed
qed

lemma insert_at_splice: "n < length ks \<Longrightarrow> insert_at n (ks ! n) (take n ks @ drop (Suc n) ks) = ks"
proof (induction n arbitrary: ks)
  case 0
  then show ?case by (cases ks) auto
next
  case (Suc n)
  then show ?case by (cases ks) auto
qed

lemma index_of_id_less: "index_of_id i ks = Some n \<Longrightarrow> n < length ks \<and> getp (ks ! n) ''id'' = Str i"
  by (induction ks arbitrary: n) (auto split: if_splits)

text \<open>Undoing a flush.\<close>

lemma update_first_commute:
  "i \<noteq> j \<Longrightarrow> (\<And>r. getp (f r) ''id'' = getp r ''id'') \<Longrightarrow> (\<And>r. getp (g r) ''id'' = getp r ''id'') \<Longrightarrow>
   update_first i f (update_first j g ks) = update_first j g (update_first i f ks)"
  by (induction ks) auto

definition restore_use :: "jsval \<Rightarrow> jsval \<Rightarrow> jsval \<Rightarrow> jsval" where
  "restore_use tm ip r = assign ''lastUsedIp'' ip (assign ''lastUsedAt'' tm r)"

lemma undo_use_eq: "undo_use ks (i, tm, ip) = update_first i (restore_use tm ip) ks"
  unfolding undo_use_def restore_use_def prod.case ..

lemma set_plain_get: "getp (obj_set k x r) k' = (if is_plain r then (if k' = k then x else getp r k') else getp r k')"
proof (cases "is_plain r")
  case False
  then have "obj_set k x r = r" by (simp add: is_plain_def obj_set_def split: jsval.splits)
  with False show ?thesis by simp
qed (simp add: getp_obj_set)

lemma restore_id: "getp (restore_use tm ip r) ''id'' = getp r ''id''"
  by (simp add: restore_use_def set_plain_get)

lemma apply_id: "getp (apply_use u r) ''id'' = getp r ''id''"
  by (simp add: apply_use_def set_plain_get)

lemma undo_commute: "fst p \<noteq> fst q \<Longrightarrow> undo_use (undo_use ks p) q = undo_use (undo_use ks q) p"
  by (cases p; cases q) (simp add: undo_use_eq update_first_commute restore_id)

lemma undo_foldl: "fst p \<notin> set (map fst ps) \<Longrightarrow> foldl undo_use (undo_use ks p) ps = undo_use (foldl undo_use ks ps) p"
proof (induction ps arbitrary: ks)
  case (Cons q ps)
  then show ?case using undo_commute [of p q ks] by simp
qed simp

lemma applied_ids: "set (map fst (snd (apply_uses us ks))) \<subseteq> set (map fst us)"
proof (induction us ks rule: apply_uses.induct)
  case (2 i u us ks)
  then show ?case by (cases "byId ks i") (force split: prod.splits)+
qed simp

lemma restore_cong: "same_record r r' \<Longrightarrow> is_plain r = is_plain r' \<Longrightarrow> same_record (restore_use tm ip r) (restore_use tm ip r')"
  by (simp add: same_record_def restore_use_def set_plain_get)

lemma restore_apply:
  "same_record (restore_use (getp r ''lastUsedAt'') (getp r ''lastUsedIp'') (apply_use u r)) r"
  by (simp add: same_record_def restore_use_def apply_use_def set_plain_get)

lemma settled_plain: "list_all settled ks \<Longrightarrow> list_all is_plain ks"
  by (induction ks) (auto simp: settled_def validRecord_plain)

lemma apply_use_settled: "settled r \<Longrightarrow> settled (apply_use u r)"
  by (simp add: settled_def apply_use_def validRecord_iff getp_obj_set)

lemma restore_settled: "settled r \<Longrightarrow> settled (restore_use tm ip r)"
  by (simp add: settled_def restore_use_def validRecord_iff getp_obj_set)

lemma apply_uses_settled: "list_all settled ks \<Longrightarrow> list_all settled (fst (apply_uses us ks))"
proof (induction us ks rule: apply_uses.induct)
  case (2 i u us ks)
  then show ?case
    by (cases "byId ks i") (auto simp: update_first_all apply_use_settled split: prod.splits)
qed simp

lemma undo_settled: "list_all settled ks \<Longrightarrow> list_all settled (foldl undo_use ks ps)"
proof (induction ps arbitrary: ks)
  case (Cons p ps)
  obtain i tm ip where "p = (i, tm, ip)" by (cases p)
  with Cons show ?case by (simp add: undo_use_eq update_first_all restore_settled)
qed simp

lemma undo_apply:
  "distinct (map fst us) \<Longrightarrow> list_all settled ks \<Longrightarrow>
   same_keys (case apply_uses us ks of (ks', applied) \<Rightarrow> foldl undo_use ks' applied) ks"
proof (induction us ks rule: apply_uses.induct)
  case (1 ks)
  then show ?case by simp
next
  case (2 i u us ks)
  show ?case
  proof (cases "byId ks i")
    case None
    then show ?thesis using 2 by simp
  next
    case (Some r)
    let ?ks1 = "update_first i (apply_use u) ks"
    let ?p = "(i, getp r ''lastUsedAt'', getp r ''lastUsedIp'')"
    obtain ks' ap where ap: "apply_uses us ?ks1 = (ks', ap)" by (cases "apply_uses us ?ks1")
    have ks1: "list_all settled ?ks1" using 2(4) by (rule update_first_all) (rule apply_use_settled)
    have "list_all settled (foldl undo_use ks' ap)"
      using apply_uses_settled [OF ks1, of us] ap by (simp add: undo_settled)
    moreover have "same_keys (foldl undo_use ks' ap) ?ks1"
      using 2(2) [OF Some] 2(3) ks1 ap by simp
    ultimately have "same_keys (undo_use (foldl undo_use ks' ap) ?p) (undo_use ?ks1 ?p)"
      unfolding undo_use_eq using ks1 by (intro update_first_cong settled_plain) (auto intro: restore_cong)
    moreover have "same_keys (undo_use ?ks1 ?p) ks"
      unfolding undo_use_eq using Some
      by (simp add: update_first_twice apply_id update_first_same [OF Some] restore_apply)
    moreover have "i \<notin> set (map fst ap)"
      using applied_ids [of us ?ks1] ap 2(3) by auto
    ultimately show ?thesis
      using Some ap same_keys_trans undo_foldl [of ?p ap ks'] by auto
  qed
qed

section \<open>Runs of the store\<close>

datatype key_op =
    OpCreate "nat \<Rightarrow> string" string int bool jsval
  | OpUpdate string jsval int bool
  | OpRevoke string int bool
  | OpUse string jsval int
  | OpFlush bool

text \<open>One operation: whether it was refused or failed, and the state after it.\<close>

fun run_op ::
  "(string \<Rightarrow> string) \<Rightarrow> (string \<Rightarrow> int option) \<Rightarrow> (int \<Rightarrow> string) \<Rightarrow> key_op \<Rightarrow> key_state \<Rightarrow> bool \<times> key_state" where
  "run_op sha parse_date to_iso (OpCreate draw secret tm ok request) st =
     (case create_key sha parse_date to_iso st draw secret tm ok request of (r, st') \<Rightarrow> (isl r, st'))"
| "run_op sha parse_date to_iso (OpUpdate i patch tm ok) st =
     (case update_key parse_date to_iso st i patch tm ok of (r, st') \<Rightarrow> (isl r, st'))"
| "run_op sha parse_date to_iso (OpRevoke i tm ok) st =
     (case revoke_key parse_date st i tm ok of (r, st') \<Rightarrow> (isl r, st'))"
| "run_op sha parse_date to_iso (OpUse i ip tm) st = (False, recordUse to_iso st i ip tm)"
| "run_op sha parse_date to_iso (OpFlush ok) st =
     (case flushLastUsed st ok of (r, st') \<Rightarrow> (isl r, st'))"

text \<open>\<open>JSON.parse\<close> yields objects whose keys are distinct.\<close>

definition parsed_file :: "key_file \<Rightarrow> bool" where
  "parsed_file f = (case f of KeyFile v \<Rightarrow> list_all distinct_keys (arr_items (getp v ''keys'')) | _ \<Rightarrow> True)"

inductive key_reachable ::
  "(string \<Rightarrow> string) \<Rightarrow> (string \<Rightarrow> int option) \<Rightarrow> (int \<Rightarrow> string) \<Rightarrow> key_state \<Rightarrow> bool" for sha parse_date to_iso where
  key_start: "parsed_file f \<Longrightarrow> key_reachable sha parse_date to_iso (createApiKeyStore b f)"
| key_step: "key_reachable sha parse_date to_iso st \<Longrightarrow>
     key_reachable sha parse_date to_iso (snd (run_op sha parse_date to_iso op st))"

definition key_inv :: "key_state \<Rightarrow> bool" where
  "key_inv st = (list_all settled (live_keys st) \<and> om_inv (pending_use st)
     \<and> (\<forall>b. same_keys (fst (load_keys b (disk st))) (live_keys st)))"

lemma key_inv_start:
  assumes "parsed_file f"
  shows "key_inv (createApiKeyStore b f)"
proof (cases f)
  case (KeyFile v)
  have "list_all settled (map normalizeRecord (filter validRecord (arr_items (getp v ''keys''))))"
    using assms by (auto simp: KeyFile parsed_file_def list_all_iff normalized_settled)
  then show ?thesis by (simp add: KeyFile key_inv_def createApiKeyStore_def load_keys_def)
qed (simp_all add: key_inv_def createApiKeyStore_def load_keys_def)

lemma create_result:
  "create_key sha parse_date to_iso st draw secret tm ok request = (res, st') \<Longrightarrow>
   (\<exists>e. res = Inl e) \<and> st' = st
   \<or> (\<exists>name expiry. ok \<and> byId (live_keys st) (pick_id (live_keys st) draw 0) = None
       \<and> validateName (getp request ''name'') = Inr name
       \<and> validateExpiry parse_date to_iso (getp request ''expiresAt'') tm = Inr expiry
       \<and> (let r = new_record sha to_iso (pick_id (live_keys st) draw 0) secret tm name (getp request ''scopes'')
                expiry (getp request ''rateLimitPerMinute'')
          in res = Inr (publicKey r (isExpired parse_date r tm), formatKey (pick_id (live_keys st) draw 0) secret)
             \<and> st' = st\<lparr>live_keys := live_keys st @ [r], disk := file_of (live_keys st @ [r])\<rparr>))"
  by (auto simp: create_key_def Let_def split: sum.splits if_splits)

lemma new_record_settled:
  "validateExpiry parse_date to_iso v tm = Inr e \<Longrightarrow> \<forall>t. to_iso t \<noteq> [] \<Longrightarrow>
   settled (new_record sha to_iso i secret tm name scopes e rate)"
  by (simp add: settled_def new_record_def validRecord_def distinct_keys_def om_inv_def normalizeScopes_idem
      rate_value_idem expiry_ok not_false_def)

lemma create_inv:
  assumes "key_inv st" and "\<forall>t. to_iso t \<noteq> []"
    and "create_key sha parse_date to_iso st draw secret tm ok request = (res, st')"
  shows "key_inv st'"
  using create_result [OF assms(3)] assms(1,2)
  by (auto simp: key_inv_def Let_def new_record_settled load_file_of)

lemma update_first_const:
  "getp r1 ''id'' = Str i \<Longrightarrow> update_first i g (update_first i (\<lambda>_. r1) ks) = update_first i (\<lambda>_. g r1) ks"
  by (induction ks) auto

lemma assign_all_id: "list_all field_ok ps \<Longrightarrow> getp (assign_all ps r) ''id'' = getp r ''id''"
proof (induction ps arbitrary: r)
  case (Cons p ps)
  then have "fst p \<noteq> ''id''" by (auto simp: field_ok_def split: prod.splits)
  with Cons show ?case by (simp add: set_plain_get)
qed simp

lemma update_result:
  assumes "update_key parse_date to_iso st i patch tm ok = (res, st')" and "list_all settled (live_keys st)"
    and "\<forall>t. to_iso t \<noteq> []"
  shows "list_all settled (live_keys st') \<and> pending_use st' = pending_use st
    \<and> (disk st' = disk st \<and> same_keys (live_keys st') (live_keys st) \<or> \<not> isl res \<and> disk st' = file_of (live_keys st'))"
proof (cases "byId (live_keys st) i")
  case None
  then show ?thesis using assms by (auto simp: update_key_def)
next
  case (Some r)
  show ?thesis
  proof (cases "stage_patch parse_date to_iso tm patch")
    case (Inl e)
    then show ?thesis using assms Some by (auto simp: update_key_def)
  next
    case (Inr staged)
    have fields: "list_all field_ok staged"
      using stage_patch_ok [OF assms(3), of parse_date tm patch] Inr by (simp add: staged_ok_def)
    let ?ks = "live_keys st"
    let ?ks1 = "update_first i (assign_all staged) ?ks"
    let ?undo = "\<lambda>r1. delete_all (filter (\<lambda>k. k \<notin> set (obj_keys r)) (map fst staged)) (assign_all (entries_of r) r1)"
    have s1: "list_all settled ?ks1"
      using assms(2) by (rule update_first_all) (rule assign_all_settled [OF fields])
    have r: "settled r" by (rule byId_valid [OF Some assms(2)])
    have eq: "update_first i ?undo ?ks1 = update_first i (\<lambda>_. ?undo (assign_all staged r)) ?ks"
      unfolding byId_update [OF Some, of "assign_all staged"]
      by (rule update_first_const) (simp add: assign_all_id [OF fields] byId_id [OF Some])
    have same: "same_record (?undo (assign_all staged r)) r" by (rule rollback_update [OF r])
    have "settled (?undo (assign_all staged r))"
      by (rule settled_same [OF same _ _ r]) (use r in \<open>simp_all add: settled_def validRecord_plain\<close>)
    then have s2: "list_all settled (update_first i (\<lambda>_. ?undo (assign_all staged r)) ?ks)"
      using assms(2) by (simp add: update_first_all)
    show ?thesis
      using assms(1) Some Inr s1 s2 eq update_first_same [OF Some, of "\<lambda>_. ?undo (assign_all staged r)", OF same]
      by (auto simp: update_key_def Let_def split: if_splits)
  qed
qed

lemma revoke_result:
  assumes "revoke_key parse_date st i tm ok = (res, st')"
  shows "live_keys st' = live_keys st \<and> disk st' = disk st \<and> om_get (pending_use st') = om_get (pending_use st)
      \<and> (om_inv (pending_use st) \<longrightarrow> om_inv (pending_use st'))
    \<or> (\<exists>n r. res = Inr (Some r) \<and> index_of_id i (live_keys st) = Some n \<and> ok
        \<and> live_keys st' = take n (live_keys st) @ drop (n + 1) (live_keys st)
        \<and> pending_use st' = om_delete i (pending_use st) \<and> disk st' = file_of (live_keys st'))"
proof (cases "index_of_id i (live_keys st)")
  case None
  then show ?thesis using assms by (auto simp: revoke_key_def)
next
  case (Some n)
  note splice = insert_at_splice [of n "live_keys st"]
  show ?thesis
  proof (cases ok)
    case True
    then show ?thesis using assms Some by (auto simp: revoke_key_def Let_def)
  next
    case False
    have "om_get (case om_get (pending_use st) i of None \<Rightarrow> om_delete i (pending_use st)
        | Some u \<Rightarrow> om_set i u (om_delete i (pending_use st))) = om_get (pending_use st)"
      by (rule ext) (auto simp: om_get_set om_get_delete split: option.splits)
    then show ?thesis
      using assms Some False splice index_of_id_less [OF Some]
      by (auto simp: revoke_key_def Let_def om_inv_set om_inv_delete split: option.splits)
  qed
qed

lemma flush_result:
  assumes "flushLastUsed st ok = (res, st')" and "list_all settled (live_keys st)" and "om_inv (pending_use st)"
  shows "list_all settled (live_keys st') \<and> om_inv (pending_use st')
    \<and> (disk st' = disk st \<and> same_keys (live_keys st') (live_keys st) \<and> (isl res \<longrightarrow> pending_use st' = pending_use st)
       \<or> \<not> isl res \<and> disk st' = file_of (live_keys st'))"
proof -
  let ?us = "pending_use st"
  obtain ks ap where ap: "apply_uses ?us (live_keys st) = (ks, ap)" by (cases "apply_uses ?us (live_keys st)")
  have s: "list_all settled ks" using apply_uses_settled [OF assms(2), of ?us] ap by simp
  have u: "same_keys (foldl undo_use ks ap) (live_keys st)"
    using undo_apply [OF _ assms(2), of ?us] ap assms(3) by (simp add: om_inv_def)
  from undo_settled [OF s] u s show ?thesis
    using assms ap by (auto simp: flushLastUsed_def split: if_splits)
qed

lemma key_inv_disk:
  assumes "key_inv st" and "list_all settled (live_keys st')" and "om_inv (pending_use st')"
    and "disk st' = disk st \<and> same_keys (live_keys st') (live_keys st) \<or> disk st' = file_of (live_keys st')"
  shows "key_inv st'"
proof -
  have sym: "same_keys a b \<Longrightarrow> same_keys b a" for a b
    by (auto simp: list_all2_conv_all_nth same_record_def)
  show ?thesis
    using assms load_file_of [OF assms(2)] sym same_keys_trans unfolding key_inv_def by metis
qed

lemma list_all_drop: "list_all P xs \<Longrightarrow> list_all P (drop n xs)"
  by (metis append_take_drop_id list_all_append)

lemma run_op_inv:
  assumes "key_inv st" and "\<forall>t. to_iso t \<noteq> []"
  shows "key_inv (snd (run_op sha parse_date to_iso op st))"
proof (cases op)
  case (OpCreate draw secret tm ok request)
  then show ?thesis
    using create_inv [OF assms] by (cases "create_key sha parse_date to_iso st draw secret tm ok request") auto
next
  case (OpUpdate i patch tm ok)
  obtain res st' where eq: "update_key parse_date to_iso st i patch tm ok = (res, st')" by fastforce
  show ?thesis
    using update_result [OF eq _ assms(2)] assms(1) key_inv_disk [OF assms(1), of st']
    by (auto simp: OpUpdate eq key_inv_def)
next
  case (OpRevoke i tm ok)
  obtain res st' where eq: "revoke_key parse_date st i tm ok = (res, st')" by fastforce
  have part: "list_all settled ks \<Longrightarrow> list_all settled (take n ks @ drop (n + 1) ks)" for n ks
    using list_all_drop [of settled ks "n + 1"] append_take_drop_id [of n ks] list_all_append [of settled "take n ks"]
    by metis
  have "list_all settled (live_keys st')"
    using revoke_result [OF eq] assms(1) part by (auto simp: key_inv_def)
  then show ?thesis
    using revoke_result [OF eq] assms(1) key_inv_disk [OF assms(1), of st']
    by (auto simp: OpRevoke eq key_inv_def om_inv_delete)
next
  case (OpUse i ip tm)
  then show ?thesis using assms(1) by (simp add: key_inv_def recordUse_def om_inv_set)
next
  case (OpFlush ok)
  obtain res st' where eq: "flushLastUsed st ok = (res, st')" by fastforce
  show ?thesis
    using flush_result [OF eq] assms(1) key_inv_disk [OF assms(1), of st']
    by (auto simp: OpFlush eq key_inv_def)
qed

lemma key_reachable_inv: "key_reachable sha parse_date to_iso st \<Longrightarrow> \<forall>t. to_iso t \<noteq> [] \<Longrightarrow> key_inv st"
  by (induction rule: key_reachable.induct) (auto intro: key_inv_start run_op_inv)

text \<open>
  C31. What authenticates from memory is what a restart would load: after any sequence of creations,
  updates, revocations, uses and flushes, with any of their writes failing, the records read back
  from the file are those in memory. So no key works until the next restart only, and none comes
  back with it.
\<close>

theorem restart_equals_memory:
  assumes "key_reachable sha parse_date to_iso st" and "\<forall>t. to_iso t \<noteq> []"
  shows "list_all2 same_record (live_keys (createApiKeyStore b (disk st))) (live_keys st)"
  using key_reachable_inv [OF assms] by (cases "load_keys b (disk st)") (auto simp: key_inv_def createApiKeyStore_def dest: spec [of _ b])

definition file_example :: jsval where
  "file_example = Obj [(''keys'', Arr [Obj [(''id'', Str ''0123abcd''), (''hash'', Str ''h''), (''enabled'', Null)]])]"

definition state_example :: key_state where
  "state_example = snd (run_op (\<lambda>s. s) (\<lambda>s. None) (\<lambda>t. ''T'') (OpUse ''0123abcd'' Null 5)
      (createApiKeyStore True (KeyFile file_example)))"

lemma state_example_reachable: "key_reachable (\<lambda>s. s) (\<lambda>s. None) (\<lambda>t. ''T'') state_example"
  unfolding state_example_def
  by (rule key_step, rule key_start)
    (simp add: parsed_file_def file_example_def arr_items_def distinct_keys_def om_inv_def)

theorem restart_equals_memory_witness:
  "live_keys state_example \<noteq> []
   \<and> list_all2 same_record (live_keys (createApiKeyStore True (disk state_example))) (live_keys state_example)"
proof
  show "live_keys state_example \<noteq> []"
    by (simp add: state_example_def recordUse_def createApiKeyStore_def load_keys_def file_example_def
        arr_items_def validRecord_def)
  show "list_all2 same_record (live_keys (createApiKeyStore True (disk state_example))) (live_keys state_example)"
    by (rule restart_equals_memory [OF state_example_reachable]) simp
qed

text \<open>
  An operation on the key store that is refused or fails changes nothing: neither the records in
  memory, nor the file, nor what is buffered for a key.
\<close>

theorem failed_operation_changes_nothing:
  assumes "key_reachable sha parse_date to_iso st" and "\<forall>t. to_iso t \<noteq> []"
    and "run_op sha parse_date to_iso op st = (True, st')"
  shows "list_all2 same_record (live_keys st') (live_keys st) \<and> disk st' = disk st
    \<and> om_get (pending_use st') = om_get (pending_use st)"
proof -
  have inv: "key_inv st" by (rule key_reachable_inv [OF assms(1,2)])
  show ?thesis
  proof (cases op)
    case (OpCreate draw secret tm ok request)
    obtain res where eq: "create_key sha parse_date to_iso st draw secret tm ok request = (res, st')" and "isl res"
      using assms(3) OpCreate by (auto split: prod.splits)
    then show ?thesis using create_result [OF eq] by (auto simp: Let_def)
  next
    case (OpUpdate i patch tm ok)
    obtain res where eq: "update_key parse_date to_iso st i patch tm ok = (res, st')" and "isl res"
      using assms(3) OpUpdate by (auto split: prod.splits)
    then show ?thesis using inv update_result [OF eq _ assms(2)] by (auto simp: key_inv_def)
  next
    case (OpRevoke i tm ok)
    obtain res where eq: "revoke_key parse_date st i tm ok = (res, st')" and "isl res"
      using assms(3) OpRevoke by (auto split: prod.splits)
    then show ?thesis using revoke_result [OF eq] by auto
  next
    case (OpUse i ip tm)
    then show ?thesis using assms(3) by simp
  next
    case (OpFlush ok)
    obtain res where eq: "flushLastUsed st ok = (res, st')" and "isl res"
      using assms(3) OpFlush by (auto split: prod.splits)
    then show ?thesis using inv flush_result [OF eq] by (auto simp: key_inv_def)
  qed
qed

theorem failed_operation_changes_nothing_witness:
  "disk (snd (run_op (\<lambda>s. s) (\<lambda>s. None) (\<lambda>t. ''T'') (OpRevoke ''0123abcd'' 5 False) state_example)) = disk state_example"
proof -
  have "fst (run_op (\<lambda>s. s) (\<lambda>s. None) (\<lambda>t. ''T'') (OpRevoke ''0123abcd'' 5 False) state_example) = True"
    by (simp add: revoke_key_def state_example_def recordUse_def createApiKeyStore_def load_keys_def
        file_example_def arr_items_def validRecord_def normalize_get is_plain_def Let_def)
  then have "run_op (\<lambda>s. s) (\<lambda>s. None) (\<lambda>t. ''T'') (OpRevoke ''0123abcd'' 5 False) state_example =
      (True, snd (run_op (\<lambda>s. s) (\<lambda>s. None) (\<lambda>t. ''T'') (OpRevoke ''0123abcd'' 5 False) state_example))"
    by (metis prod.collapse)
  from failed_operation_changes_nothing [OF state_example_reachable _ this] show ?thesis by simp
qed

section \<open>Ids\<close>

abbreviation ids_of :: "jsval list \<Rightarrow> jsval list" where
  "ids_of ks \<equiv> map (\<lambda>r. getp r ''id'') ks"

lemma byId_None_iff: "byId ks i = None \<longleftrightarrow> Str i \<notin> set (ids_of ks)"
  by (induction ks) (auto simp: byId_def)

lemma apply_uses_ids: "ids_of (fst (apply_uses us ks)) = ids_of ks"
proof (induction us ks rule: apply_uses.induct)
  case (2 i u us ks)
  then show ?case
    by (cases "byId ks i") (auto simp: update_first_ids apply_id split: prod.splits)
qed simp

lemma pick_id_draw: "\<exists>n. pick_id ks draw k = draw n"
proof (induction ks draw k rule: pick_id.induct)
  case (1 ks draw k)
  then show ?case by (subst pick_id.simps) auto
qed

text \<open>The drawn ids of an operation.\<close>

fun drawn_ids :: "key_op \<Rightarrow> string set" where
  "drawn_ids (OpCreate draw secret tm ok request) = range draw"
| "drawn_ids _ = {}"

lemma run_op_ids:
  assumes "key_inv st" and "\<forall>t. to_iso t \<noteq> []"
  shows "set (ids_of (live_keys (snd (run_op sha parse_date to_iso op st))))
    \<subseteq> set (ids_of (live_keys st)) \<union> Str ` drawn_ids op"
proof (cases op)
  case (OpCreate draw secret tm ok request)
  obtain res st' where eq: "create_key sha parse_date to_iso st draw secret tm ok request = (res, st')" by fastforce
  obtain n where "pick_id (live_keys st) draw 0 = draw n" using pick_id_draw by blast
  then show ?thesis
    using create_result [OF eq] by (auto simp: OpCreate eq Let_def new_record_def)
next
  case (OpUpdate i patch tm ok)
  obtain res st' where eq: "update_key parse_date to_iso st i patch tm ok = (res, st')" by fastforce
  have "ids_of (live_keys st') = ids_of (live_keys st)"
  proof (cases "isl res \<or> byId (live_keys st) i = None")
    case True
    then show ?thesis
      using update_result [OF eq _ assms(2)] assms(1) same_keys_ids eq
      by (auto simp: key_inv_def update_key_def)
  next
    case False
    then obtain r staged where "stage_patch parse_date to_iso tm patch = Inr staged"
      and ks: "live_keys st' = update_first i (assign_all staged) (live_keys st)"
      using eq by (auto simp: update_key_def Let_def split: sum.splits if_splits)
    then have "list_all field_ok staged"
      using stage_patch_ok [OF assms(2), of parse_date tm patch] by (simp add: staged_ok_def)
    then show ?thesis unfolding ks by (intro update_first_ids assign_all_id)
  qed
  then show ?thesis by (simp add: OpUpdate eq)
next
  case (OpRevoke i tm ok)
  obtain res st' where eq: "revoke_key parse_date st i tm ok = (res, st')" by fastforce
  from revoke_result [OF eq] consider "live_keys st' = live_keys st"
    | n where "live_keys st' = take n (live_keys st) @ drop (n + 1) (live_keys st)"
    by blast
  then have "set (live_keys st') \<subseteq> set (live_keys st)"
    by cases (simp_all add: set_take_subset set_drop_subset)
  then show ?thesis by (auto simp: OpRevoke eq)
next
  case (OpUse i ip tm)
  then show ?thesis by (simp add: recordUse_def)
next
  case (OpFlush ok)
  obtain res st' where eq: "flushLastUsed st ok = (res, st')" by fastforce
  obtain ks ap where ap: "apply_uses (pending_use st) (live_keys st) = (ks, ap)" by fastforce
  have "ids_of (live_keys st') = ids_of (live_keys st)"
  proof (cases "isl res")
    case True
    then show ?thesis
      using flush_result [OF eq] assms(1) same_keys_ids by (auto simp: key_inv_def)
  next
    case False
    have "live_keys st' = live_keys st \<or> live_keys st' = ks"
      using eq False ap by (auto simp: flushLastUsed_def split: if_splits)
    then show ?thesis using apply_uses_ids [of "pending_use st" "live_keys st"] ap by auto
  qed
  then show ?thesis by (simp add: OpFlush eq)
qed

definition run_ops ::
  "(string \<Rightarrow> string) \<Rightarrow> (string \<Rightarrow> int option) \<Rightarrow> (int \<Rightarrow> string) \<Rightarrow> key_op list \<Rightarrow> key_state \<Rightarrow> key_state" where
  "run_ops sha parse_date to_iso ops st = foldl (\<lambda>st op. snd (run_op sha parse_date to_iso op st)) st ops"

lemma run_ops_reachable:
  "key_reachable sha parse_date to_iso st \<Longrightarrow> key_reachable sha parse_date to_iso (run_ops sha parse_date to_iso ops st)"
  unfolding run_ops_def by (induction ops arbitrary: st) (auto intro: key_step)

lemma run_ops_gone:
  assumes "key_reachable sha parse_date to_iso st" and "\<forall>t. to_iso t \<noteq> []"
    and "byId (live_keys st) i = None" and "\<forall>op \<in> set ops. i \<notin> drawn_ids op"
  shows "byId (live_keys (run_ops sha parse_date to_iso ops st)) i = None"
  using assms
proof (induction ops arbitrary: st)
  case Nil
  then show ?case by (simp add: run_ops_def)
next
  case (Cons op ops)
  let ?st = "snd (run_op sha parse_date to_iso op st)"
  have "byId (live_keys ?st) i = None"
    using run_op_ids [OF key_reachable_inv [OF Cons.prems(1,2)] Cons.prems(2), of sha parse_date op] Cons.prems(3,4)
    by (auto simp: byId_None_iff)
  then show ?case
    using Cons.IH [of ?st] Cons.prems key_step [OF Cons.prems(1)] by (simp add: run_ops_def)
qed

lemma revoked_ids:
  assumes "revoke_key parse_date st i tm ok = (Inr (Some k), st')"
  shows "count_list (ids_of (live_keys st)) (Str i) = Suc (count_list (ids_of (live_keys st')) (Str i))"
proof -
  obtain n where n: "index_of_id i (live_keys st) = Some n"
    and ks: "live_keys st' = take n (live_keys st) @ drop (n + 1) (live_keys st)"
    using assms by (auto simp: revoke_key_def Let_def split: option.splits if_splits)
  have "ids_of (live_keys st) = ids_of (take n (live_keys st)) @ Str i # ids_of (drop (n + 1) (live_keys st))"
    using index_of_id_less [OF n] arg_cong [OF id_take_nth_drop [of n "live_keys st"], of ids_of] by simp
  then show ?thesis by (simp add: ks)
qed

lemma revoke_gone:
  assumes "revoke_key parse_date st i tm ok = (Inr (Some k), st')" and "count_list (ids_of (live_keys st)) (Str i) \<le> 1"
  shows "byId (live_keys st') i = None"
  using revoked_ids [OF assms(1)] assms(2) by (simp add: byId_None_iff count_list_0_iff)

text \<open>
  Revocation removes one record. When a file that was edited by hand gives two records the same id, which loading
  accepts, the other one is found by that id as before.
\<close>

theorem duplicate_survives_revocation:
  assumes "revoke_key parse_date st i tm ok = (Inr (Some k), st')" and "1 < count_list (ids_of (live_keys st)) (Str i)"
  shows "\<exists>r \<in> set (live_keys st'). byId (live_keys st') i = Some r \<and> getp r ''id'' = Str i"
proof -
  have "count_list (ids_of (live_keys st')) (Str i) \<noteq> 0" using revoked_ids [OF assms(1)] assms(2) by linarith
  then have "byId (live_keys st') i \<noteq> None" unfolding count_list_0_iff byId_None_iff by simp
  then obtain r where "byId (live_keys st') i = Some r" by blast
  then show ?thesis using find_in_set [of _ "live_keys st'" r] by (auto simp: byId_def)
qed

text \<open>
  C6. A revoked key never comes back. Once the revocation of an id that one live record has is confirmed, no later
  sequence of store operations, with writes failing wherever they may, lets a token with that id authenticate
  again, neither in this process nor in one that restarts from the file, as long as no new key draws the same id.
  (The console gives a new key an id no live one has; only a file edited by hand can hold an id twice.)
\<close>

theorem revoked_stays_revoked:
  assumes "key_reachable sha parse_date to_iso st" and "\<forall>t. to_iso t \<noteq> []"
    and "count_list (ids_of (live_keys st)) (Str i) \<le> 1"
    and "revoke_key parse_date st i tm ok = (Inr (Some k), st1)"
    and "\<forall>op \<in> set ops. i \<notin> drawn_ids op"
    and "parseKey (bearerToken header) = Some (i, secret)"
  shows "authenticate sha parse_date (run_ops sha parse_date to_iso ops st1) header tm2 = InvalidKey
    \<and> authenticate sha parse_date
        (createApiKeyStore b (disk (run_ops sha parse_date to_iso ops st1))) header tm2 = InvalidKey"
proof -
  let ?st = "run_ops sha parse_date to_iso ops st1"
  have "st1 = snd (run_op sha parse_date to_iso (OpRevoke i tm ok) st)" using assms(4) by simp
  then have st1: "key_reachable sha parse_date to_iso st1"
    using key_step [OF assms(1), of "OpRevoke i tm ok"] by (simp only:)
  then have gone: "byId (live_keys ?st) i = None"
    using run_ops_gone [OF _ assms(2) revoke_gone [OF assms(4,3)] assms(5)] by blast
  have "key_inv ?st" by (rule key_reachable_inv [OF run_ops_reachable [OF st1] assms(2)])
  then have "same_keys (live_keys (createApiKeyStore b (disk ?st))) (live_keys ?st)"
    by (cases "load_keys b (disk ?st)") (auto simp: key_inv_def createApiKeyStore_def dest: spec [of _ b])
  then have "byId (live_keys (createApiKeyStore b (disk ?st))) i = None"
    using gone same_keys_ids by (metis byId_None_iff)
  moreover have "bearerToken header \<noteq> []" using assms(6) by (auto simp: parseKey_def starts_with_def KEY_PREFIX_def)
  ultimately show ?thesis using gone assms(6) by (simp add: authenticate_def Let_def)
qed

definition state_revoked :: key_state where
  "state_revoked = snd (revoke_key (\<lambda>s. None) state_example ''0123abcd'' 6 True)"

theorem revoked_stays_revoked_witness:
  "authenticate (\<lambda>s. s) (\<lambda>s. None) (run_ops (\<lambda>s. s) (\<lambda>s. None) (\<lambda>t. ''T'') [OpUse ''0123abcd'' Null 7, OpFlush True]
     state_revoked) ''Bearer dak_0123abcd_s3cret'' 8 = InvalidKey"
proof -
  have "count_list (ids_of (live_keys state_example)) (Str ''0123abcd'') \<le> 1"
    by (simp add: state_example_def recordUse_def createApiKeyStore_def load_keys_def file_example_def
        arr_items_def validRecord_def)
  moreover have "index_of_id ''0123abcd'' (live_keys state_example) \<noteq> None"
    by (simp add: state_example_def recordUse_def createApiKeyStore_def load_keys_def
        file_example_def arr_items_def validRecord_def normalize_get is_plain_def)
  then obtain k where "revoke_key (\<lambda>s. None) state_example ''0123abcd'' 6 True = (Inr (Some k), state_revoked)"
    unfolding state_revoked_def by (fastforce simp: revoke_key_def Let_def)
  moreover have "parseKey (bearerToken ''Bearer dak_0123abcd_s3cret'') = Some (''0123abcd'', ''s3cret'')"
    by code_simp
  ultimately show ?thesis
    using revoked_stays_revoked [OF state_example_reachable, of "''0123abcd''" 6 True k state_revoked
        "[OpUse ''0123abcd'' Null 7, OpFlush True]" "''Bearer dak_0123abcd_s3cret''" "''s3cret''" 8 True]
    by simp
qed

section \<open>A new key works\<close>

lemma split_ws_word: "list_all (\<lambda>c. \<not> is_ws c) w \<Longrightarrow> split_ws w = [w]"
proof -
  assume "list_all (\<lambda>c. \<not> is_ws c) w"
  then have nil: "dropWhile (\<lambda>c. \<not> is_ws c) w = []" by (simp add: list_all_iff)
  show ?thesis unfolding split_ws.simps [of w] nil by simp
qed

lemma bearer_header:
  assumes "list_all (\<lambda>c. \<not> is_ws c) w" and "w \<noteq> []"
  shows "bearerToken (''Bearer '' @ w) = w"
proof -
  have ws: "is_ws CHR '' ''" "\<not> is_ws CHR ''B''" "\<not> is_ws CHR ''e''" "\<not> is_ws CHR ''a''" "\<not> is_ws CHR ''r''"
    by code_simp+
  have "\<not> is_ws (hd w)" "\<not> is_ws (last w)" using assms by (auto simp: list_all_iff)
  then have trim: "js_trim w = w" "dropWhile is_ws w = w"
    using assms(2) trim_left_id [of w] trim_left_id [of "rev w"]
    by (auto simp: js_trim_def hd_rev) (simp add: trim_left_def)
  have split: "split_ws (''Bearer '' @ w) = [''Bearer'', w]"
    by (subst split_ws.simps) (simp add: ws trim(2) split_ws_word [OF assms(1)])
  have "js_lower ''Bearer'' = ''bearer''" by code_simp
  then show ?thesis unfolding bearerToken_def split Let_def by (simp add: trim(1))
qed

lemma byId_append: "byId ks i = None \<Longrightarrow> byId (ks @ ks') i = byId ks' i"
  by (induction ks) (auto simp: byId_def split: if_splits)

lemma urlsafe_no_ws: "is_urlsafe c \<Longrightarrow> \<not> is_ws c"
  by (auto simp: is_urlsafe_def is_word_char_def is_digit_def is_ws_def code_def)

lemma hex_no_ws: "is_lower_hex c \<Longrightarrow> \<not> is_ws c"
  by (auto simp: is_lower_hex_def is_digit_def is_ws_def)

text \<open>
  C34. The key that creation prints authenticates at once, as its own record and with the scopes that
  were asked for, whatever other keys exist.
\<close>

theorem created_key_authenticates:
  assumes "create_key sha parse_date to_iso st draw secret tm ok request = (Inr (shown, token), st')"
    and "\<forall>n. length (draw n) = 8 \<and> list_all is_lower_hex (draw n)"
    and "secret \<noteq> []" and "list_all is_urlsafe secret"
    and "\<forall>s. sha s \<noteq> []" and "\<forall>t. parse_date (to_iso t) = Some t"
  shows "\<exists>r. authenticate sha parse_date st' (''Bearer '' @ token) tm = KeyAccepted r (key_session r)
    \<and> getp r ''scopes'' = normalizeScopes (getp request ''scopes'') \<and> r \<in> set (live_keys st')"
proof -
  let ?i = "pick_id (live_keys st) draw 0"
  obtain name expiry where fresh: "byId (live_keys st) ?i = None"
    and ex: "validateExpiry parse_date to_iso (getp request ''expiresAt'') tm = Inr expiry"
    and token: "token = formatKey ?i secret"
    and st': "live_keys st' = live_keys st @ [new_record sha to_iso ?i secret tm name (getp request ''scopes'')
                expiry (getp request ''rateLimitPerMinute'')]"
    using create_result [OF assms(1)] by (auto simp: Let_def)
  let ?r = "new_record sha to_iso ?i secret tm name (getp request ''scopes'') expiry (getp request ''rateLimitPerMinute'')"
  have hex: "length ?i = 8" "list_all is_lower_hex ?i" using pick_id_draw assms(2) by metis+
  have "list_all (\<lambda>c. \<not> is_ws c) token"
    unfolding token formatKey_def KEY_PREFIX_def
    using hex(2) assms(4) hex_no_ws urlsafe_no_ws by (auto simp: list_all_iff is_ws_def code_def)
  then have b: "bearerToken (''Bearer '' @ token) = token" and "token \<noteq> []"
    using bearer_header [of token] by (auto simp: token formatKey_def KEY_PREFIX_def)
  have p: "parseKey token = Some (?i, secret)"
    using parsed_token [OF hex assms(3,4)] token by simp
  have "byId (live_keys st') ?i = Some ?r"
    using fresh unfolding st' by (simp add: byId_append) (simp add: byId_def new_record_def)
  moreover have "getp ?r ''hash'' = Str (hashSecret sha secret)" "getp ?r ''enabled'' = Bool True"
    "getp ?r ''expiresAt'' = expiry" "getp ?r ''scopes'' = normalizeScopes (getp request ''scopes'')"
    by (simp_all add: new_record_def)
  moreover have "\<not> isExpired parse_date ?r tm"
    using ex assms(6) calculation(4)
    by (auto simp: isExpired_def date_of_def validateExpiry_def split: jsval.splits option.splits if_splits)
  ultimately show ?thesis
    using b \<open>token \<noteq> []\<close> p assms(5) st'
    by (simp add: authenticate_def Let_def constantTimeEqual_def js_or_def hashSecret_def)
qed

definition unary_iso :: "int \<Rightarrow> string" where
  "unary_iso t = (if 0 \<le> t then CHR ''+'' else CHR ''-'') # replicate (nat \<bar>t\<bar>) CHR ''1''"

definition unary_date :: "string \<Rightarrow> int option" where
  "unary_date s = Some (if hd s = CHR ''+'' then int (length s - 1) else - int (length s - 1))"

theorem created_key_authenticates_witness:
  "\<exists>st token r. authenticate (\<lambda>s. ''h'' @ s) unary_date st (''Bearer '' @ token) 5 = KeyAccepted r (key_session r)
     \<and> getp r ''scopes'' = normalizeScopes (Obj [])"
proof -
  let ?st = "\<lparr>live_keys = [], pending_use = [], disk = NoFile\<rparr>"
  let ?req = "Obj [(''name'', Str ''bot''), (''scopes'', Obj [])]"
  have name: "validateName (Str ''bot'') = Inr ''bot''" by code_simp
  obtain shown token st' where c: "create_key (\<lambda>s. ''h'' @ s) unary_date unary_iso ?st (\<lambda>n. ''0123abcd'') ''s3cret'' 5 True ?req
      = (Inr (shown, token), st')"
    using name by (simp add: create_key_def byId_def validateExpiry_def Let_def)
  have date: "\<forall>t. unary_date (unary_iso t) = Some t" by (simp add: unary_date_def unary_iso_def)
  have hex: "length ''0123abcd'' = 8 \<and> list_all is_lower_hex ''0123abcd''" by code_simp
  have safe: "list_all is_urlsafe ''s3cret''" by code_simp
  show ?thesis
    using created_key_authenticates [OF c _ _ safe _ date] hex by auto
qed

end
