(* ===== verification/Gate.thy ===== *)
theory Gate
  imports Login PlayerScope PolicyStore ApiKeys
begin

text \<open>
  The central gate of \<open>handleApi\<close> in \<open>console/api/src/server.js\<close>: what stands between a request and
  its route handler. It composes bearer authentication and its two limiters, the session check, the
  action of the route, the policy engine, the player gate and the scopes of the key. The principal of
  the write bridge, which the socket server has already resolved, is an argument. Audit lines are not
  modelled, nor the routes handled above the gate (they are in \<open>Login\<close> where they concern sessions).
\<close>

section \<open>State and requests\<close>

record gate_env =
  ge_console :: console_env
  ge_sha :: "string \<Rightarrow> string"
  ge_date :: "string \<Rightarrow> int option"
  ge_iso :: "int \<Rightarrow> string"
  ge_links :: "jsval \<Rightarrow> jsval list option"
  ge_target :: "string \<Rightarrow> jsval option"
  ge_guilds :: "string list \<Rightarrow> string list option"

record gate_state =
  gs_console :: console_state
  gs_keys :: key_state
  gs_key_rate :: requests
  gs_failures :: requests

record http_request =
  h_path :: string
  h_method :: string
  h_cookie :: string
  h_csrf :: "string option"
  h_authorization :: string
  h_remote :: jsval
  h_bridge :: "jsval option"

text \<open>An answer with its status, a 429 with its wait, an exception, or the request admitted to its handler.\<close>

datatype gate_result =
    Answer nat
  | Limited int
  | Crash
  | Admit jsval string "jsval option"

definition API_KEY_AUTH_FAILURES_PER_MINUTE :: int where "API_KEY_AUTH_FAILURES_PER_MINUTE = 30"

definition apiKeyRateLimiter :: apikey_options where
  "apiKeyRateLimiter = default_apikey_options\<lparr>k_globalMaxRequests := GLOBAL_RATE_LIMIT_PER_MINUTE\<rparr>"

definition apiKeyAuthFailureLimiter :: apikey_options where
  "apiKeyAuthFailureLimiter = default_apikey_options\<lparr>k_globalMaxRequests := API_KEY_AUTH_FAILURES_PER_MINUTE * 200\<rparr>"

section \<open>The gate\<close>

text \<open>After authentication: the session and, for a bearer request, the key record.\<close>

definition authorize_request ::
  "gate_env \<Rightarrow> jsval \<Rightarrow> http_request \<Rightarrow> int \<Rightarrow> jsval \<Rightarrow> jsval option \<Rightarrow> gate_state \<Rightarrow> gate_result \<times> gate_state" where
  "authorize_request env policy req tm session key st =
     (case actionForRoute (h_path req) (h_method req) of
        None \<Rightarrow> (Answer 403, st)
      | Some action \<Rightarrow>
          (if action = [] \<or> \<not> evaluate session action policy then (Answer 403, st)
           else case (if resolveSessionTier session = ''player''
                      then enforcePlayerTier (ge_links env) (ge_target env) (ge_guilds env) (h_path req) (h_method req)
                             action session
                      else PassOn) of
             Forbidden403 \<Rightarrow> (Answer 403, st)
           | NotFound404 \<Rightarrow> (Answer 404, st)
           | PassOn \<Rightarrow>
               (case key of
                  None \<Rightarrow> (Admit session action None, st)
                | Some r \<Rightarrow>
                    (if \<not> keyAllows r action then (Answer 403, st)
                     else (Admit session action (Some r),
                           st\<lparr>gs_keys := recordUse (ge_iso env) (gs_keys st) (to_str (getp r ''id'')) (h_remote req) tm\<rparr>)))))"

text \<open>A refused credential is counted by address.\<close>

definition refuse_key :: "http_request \<Rightarrow> int \<Rightarrow> gate_state \<Rightarrow> gate_result \<times> gate_state" where
  "refuse_key req tm st =
     (case apiKey_record apiKeyAuthFailureLimiter (gs_failures st)
             (''apikey-auth:'' @ to_str (js_or (h_remote req) (Str ''unknown'')))
             (Number (num_of_int API_KEY_AUTH_FAILURES_PER_MINUTE)) tm tm of
        (v, m) \<Rightarrow> (if \<not> allowed v then Limited (retryAfterSeconds v) else Answer 401, st\<lparr>gs_failures := m\<rparr>))"

definition key_gate ::
  "gate_env \<Rightarrow> jsval \<Rightarrow> http_request \<Rightarrow> int \<Rightarrow> jsval \<Rightarrow> jsval \<Rightarrow> gate_state \<Rightarrow> gate_result \<times> gate_state" where
  "key_gate env policy req tm r session st =
     (case apiKey_record apiKeyRateLimiter (gs_key_rate st) (to_str (getp r ''id'')) (getp r ''rateLimitPerMinute'') tm tm of
        (v, m) \<Rightarrow>
          (let st1 = st\<lparr>gs_key_rate := m\<rparr> in
           if \<not> allowed v then (Limited (retryAfterSeconds v), st1)
           else authorize_request env policy req tm session (Some r) st1))"

definition session_gate ::
  "gate_env \<Rightarrow> jsval \<Rightarrow> http_request \<Rightarrow> request_io \<Rightarrow> gate_state \<Rightarrow> gate_result \<times> gate_state" where
  "session_gate env policy req io st =
     (case h_bridge req of
        Some p \<Rightarrow> authorize_request env policy req (io_time io) p None st
      | None \<Rightarrow>
          (case require_auth (ge_console env) io (h_cookie req) (h_method req) (h_csrf req) (gs_console st) of
             (Inl (Refused status why), c) \<Rightarrow> (Answer status, st\<lparr>gs_console := c\<rparr>)
           | (Inl a, c) \<Rightarrow> (Crash, st\<lparr>gs_console := c\<rparr>)
           | (Inr s, c) \<Rightarrow>
               authorize_request env policy req (io_time io) (session_object s) None (st\<lparr>gs_console := c\<rparr>)))"

definition central_gate ::
  "gate_env \<Rightarrow> jsval \<Rightarrow> http_request \<Rightarrow> request_io \<Rightarrow> gate_state \<Rightarrow> gate_result \<times> gate_state" where
  "central_gate env policy req io st =
     (case authenticate (ge_sha env) (ge_date env) (gs_keys st) (h_authorization req) (io_time io) of
        NoBearer \<Rightarrow> session_gate env policy req io st
      | KeyAccepted r session \<Rightarrow> key_gate env policy req (io_time io) r session st
      | _ \<Rightarrow> refuse_key req (io_time io) st)"

text \<open>The guard of setup sessions stands before it.\<close>

definition handle_request ::
  "gate_env \<Rightarrow> jsval \<Rightarrow> http_request \<Rightarrow> request_io \<Rightarrow> gate_state \<Rightarrow> gate_result \<times> gate_state" where
  "handle_request env policy req io st =
     (case setup_guard (ge_console env) io (h_cookie req) (h_path req) (gs_console st) of
        (Inl (Refused status why), c) \<Rightarrow> (Answer status, st\<lparr>gs_console := c\<rparr>)
      | (Inl a, c) \<Rightarrow> (Crash, st\<lparr>gs_console := c\<rparr>)
      | (Inr u, c) \<Rightarrow> central_gate env policy req io (st\<lparr>gs_console := c\<rparr>))"

section \<open>What it takes to be admitted\<close>

lemma refuse_not_admit: "fst (refuse_key req tm st) \<noteq> Admit s a k"
  by (simp add: refuse_key_def split_beta)

lemma authorize_admit:
  assumes "authorize_request env policy req tm session key st = (Admit s a k, st')"
  shows "s = session \<and> k = key \<and> actionForRoute (h_path req) (h_method req) = Some a \<and> a \<noteq> []
    \<and> evaluate session a policy
    \<and> (resolveSessionTier session = ''player'' \<longrightarrow>
         enforcePlayerTier (ge_links env) (ge_target env) (ge_guilds env) (h_path req) (h_method req) a session = PassOn)
    \<and> (\<forall>r. key = Some r \<longrightarrow> keyAllows r a)"
  using assms
  by (auto simp: authorize_request_def split: option.splits if_splits gate_answer.splits)

lemma require_auth_session:
  assumes "require_auth env io header verb csrf st = (Inr s, st')" and "\<not> auth_disabled (v_cfg env)"
  shows "\<exists>i s0. cookie_id (v_sign env) header = Some (Some i) \<and> om_get (sessions (cs_auth st)) i = Some s0
    \<and> of_int (io_time io) \<le> s_expires s0 \<and> s_tier s = s_tier s0 \<and> s_user s = s_user s0 \<and> s_scope s = s_scope s0
    \<and> (verb \<in> {''GET'', ''HEAD'', ''OPTIONS''} \<or> csrf = Some (s_csrf s0))"
proof -
  obtain a where r: "requireAuth (v_mac env) (v_sign env) (v_cfg env) header verb csrf (io_time io) (io_session_write io) (cs_auth st)
      = Some (Inr s, a)"
    using assms(1) by (auto simp: require_auth_def split: option.splits prod.splits sum.splits)
  then have read: "readSession (v_mac env) (v_sign env) (v_cfg env) header (io_time io) (io_session_write io) (cs_auth st) = Some (Some s, a)"
    and c: "verb \<in> {''GET'', ''HEAD'', ''OPTIONS''} \<or> csrf = Some (s_csrf s)"
    using assms(2) by (auto simp: requireAuth_def split: option.splits prod.splits if_splits)
  from read_session_some [OF read] assms(2) c show ?thesis
    by (fastforce simp: renewed_def is_live_def)
qed

text \<open>The three ways in: a key, the bridge, a session.\<close>

lemma gate_cases:
  assumes "central_gate env policy req io st = (Admit s a k, st')"
  obtains (key) r st1 where "authenticate (ge_sha env) (ge_date env) (gs_keys st) (h_authorization req) (io_time io) = KeyAccepted r s"
      "k = Some r" "authorize_request env policy req (io_time io) s (Some r) st1 = (Admit s a k, st')"
      "allowed (fst (apiKey_record apiKeyRateLimiter (gs_key_rate st) (to_str (getp r ''id'')) (getp r ''rateLimitPerMinute'')
         (io_time io) (io_time io)))"
  | (bridge) "authenticate (ge_sha env) (ge_date env) (gs_keys st) (h_authorization req) (io_time io) = NoBearer"
      "h_bridge req = Some s" "k = None" "authorize_request env policy req (io_time io) s None st = (Admit s a k, st')"
  | (session) u c where "authenticate (ge_sha env) (ge_date env) (gs_keys st) (h_authorization req) (io_time io) = NoBearer"
      "h_bridge req = None" "k = None" "s = session_object u"
      "require_auth (ge_console env) io (h_cookie req) (h_method req) (h_csrf req) (gs_console st) = (Inr u, c)"
      "authorize_request env policy req (io_time io) s None (st\<lparr>gs_console := c\<rparr>) = (Admit s a k, st')"
proof (cases "authenticate (ge_sha env) (ge_date env) (gs_keys st) (h_authorization req) (io_time io)")
  case NoBearer
  show ?thesis
  proof (cases "h_bridge req")
    case (Some p)
    then have az: "authorize_request env policy req (io_time io) p None st = (Admit s a k, st')"
      using assms NoBearer by (simp add: central_gate_def session_gate_def)
    have "s = p \<and> k = None" using authorize_admit [OF az] by blast
    then show ?thesis using bridge [OF NoBearer] Some az by simp
  next
    case None
    then obtain u c where ra: "require_auth (ge_console env) io (h_cookie req) (h_method req) (h_csrf req) (gs_console st) = (Inr u, c)"
      and az: "authorize_request env policy req (io_time io) (session_object u) None (st\<lparr>gs_console := c\<rparr>) = (Admit s a k, st')"
      using assms NoBearer by (auto simp: central_gate_def session_gate_def split: prod.splits sum.splits auth_answer.splits)
    have "s = session_object u \<and> k = None" using authorize_admit [OF az] by blast
    then show ?thesis using session [OF NoBearer None _ _ ra] az by simp
  qed
next
  case (KeyAccepted r p)
  then obtain st1 where az: "authorize_request env policy req (io_time io) p (Some r) st1 = (Admit s a k, st')"
    and ok: "allowed (fst (apiKey_record apiKeyRateLimiter (gs_key_rate st) (to_str (getp r ''id'')) (getp r ''rateLimitPerMinute'')
         (io_time io) (io_time io)))"
    using assms by (auto simp: central_gate_def key_gate_def Let_def split: prod.splits if_splits)
  have "s = p \<and> k = Some r" using authorize_admit [OF az] by blast
  then show ?thesis using key [OF _ _ _ ok] KeyAccepted az by simp
qed (use assms refuse_not_admit [of req "io_time io" st s a k] in \<open>simp_all add: central_gate_def\<close>)

section \<open>A session that is let in\<close>

text \<open>A signed cookie of a live session with the given tier, outside setup, and its token.\<close>

definition signed_in :: "console_env \<Rightarrow> int \<Rightarrow> http_request \<Rightarrow> string \<Rightarrow> console_state \<Rightarrow> bool" where
  "signed_in env tm req tier st =
     (om_inv (sessions (cs_auth st)) \<and> (\<exists>i s. cookie_id (v_sign env) (h_cookie req) = Some (Some i)
        \<and> om_get (sessions (cs_auth st)) i = Some s \<and> is_live tm s \<and> s_tier s = Str tier
        \<and> \<not> has_setup_scope s \<and> h_csrf req = Some (s_csrf s)))"

lemma persist_keeps:
  assumes "om_inv (sessions st)" and "om_get (sessions st) i = Some s" and "is_live tm s"
  shows "om_get (sessions (persistSessions mac cfg f tm w st)) i = Some s"
  using persist_sessions [of mac cfg f tm w st] assms by (auto simp: om_get_filter_value)

lemma read_keeps:
  assumes "\<not> auth_disabled (v_cfg env)" and "signed_in env (io_time io) req tier st"
  shows "\<exists>s st'. read_session env io (h_cookie req) st = Some (Some s, st') \<and> s_tier s = Str tier \<and> \<not> has_setup_scope s
    \<and> h_csrf req = Some (s_csrf s) \<and> signed_in env (io_time io) req tier st'"
proof -
  obtain i s where inv: "om_inv (sessions (cs_auth st))" and i: "cookie_id (v_sign env) (h_cookie req) = Some (Some i)"
    and s: "om_get (sessions (cs_auth st)) i = Some s" "is_live (io_time io) s"
    and f: "s_tier s = Str tier" "\<not> has_setup_scope s" "h_csrf req = Some (s_csrf s)"
    using assms(2) by (auto simp: signed_in_def)
  show ?thesis
  proof (cases "s_renewable s")
    case True
    let ?s = "s\<lparr>s_expires := of_int (io_time io + SESSION_TTL_MS)\<rparr>"
    let ?a = "(cs_auth st)\<lparr>sessions := om_set i ?s (sessions (cs_auth st))\<rparr>"
    let ?a' = "persistSessions (v_mac env) (v_cfg env) False (io_time io) (io_session_write io) ?a"
    have live: "is_live (io_time io) ?s" by (simp add: is_live_def SESSION_TTL_MS_def)
    have a: "om_inv (sessions ?a)" "om_get (sessions ?a) i = Some ?s" using inv by (simp_all add: om_inv_set om_get_set)
    have g: "om_get (sessions ?a') i = Some ?s" by (rule persist_keeps [OF a live])
    have inv': "om_inv (sessions ?a')" by (rule persist_inv [OF a(1)])
    have f': "s_tier ?s = Str tier" "\<not> has_setup_scope ?s" "h_csrf req = Some (s_csrf ?s)"
      using f by (simp_all add: has_setup_scope_def)
    have r: "read_session env io (h_cookie req) st = Some (Some ?s, st\<lparr>cs_auth := ?a'\<rparr>)"
      using assms(1) i s True by (simp add: read_session_def readSession_def Let_def)
    have "signed_in env (io_time io) req tier (st\<lparr>cs_auth := ?a'\<rparr>)"
      unfolding signed_in_def using inv' g i live f' by auto
    with r f' show ?thesis by blast
  next
    case False
    then have "read_session env io (h_cookie req) st = Some (Some s, st)"
      using assms(1) i s by (simp add: read_session_def readSession_def)
    then show ?thesis using f assms(2) by blast
  qed
qed

lemma guard_lets_on:
  assumes "\<not> auth_disabled (v_cfg env)" and "signed_in env (io_time io) req tier st"
  shows "\<exists>st'. setup_guard env io (h_cookie req) path st = (Inr (), st') \<and> signed_in env (io_time io) req tier st'"
  using read_keeps [OF assms] assms(2) by (cases "totp_enabled (v_cfg env)") (auto simp: setup_guard_def)

lemma require_auth_admits:
  assumes "\<not> auth_disabled (v_cfg env)" and "signed_in env (io_time io) req tier st"
  shows "\<exists>s st'. require_auth env io (h_cookie req) verb (h_csrf req) st = (Inr s, st') \<and> s_tier s = Str tier"
proof -
  obtain s st' where "read_session env io (h_cookie req) st = Some (Some s, st')" "s_tier s = Str tier" "h_csrf req = Some (s_csrf s)"
    using read_keeps [OF assms] by blast
  then show ?thesis
    by (auto simp: require_auth_def requireAuth_def read_session_def split: option.splits prod.splits)
qed

lemma tier_of_object: "s_tier s = Str t \<Longrightarrow> evaluate (session_object s) a store = evaluate (mockSession t) a store
    \<and> resolveSessionTier (session_object s) = resolveSessionTier (mockSession t)"
  by (simp add: evaluate_def resolveSessionTier_def session_object_def mockSession_def)

lemma handle_admits:
  assumes "\<not> auth_disabled (v_cfg (ge_console env))" and "signed_in (ge_console env) (io_time io) req tier (gs_console st)"
    and "bearerToken (h_authorization req) = []" and "h_bridge req = None"
    and "actionForRoute (h_path req) (h_method req) = Some a" "a \<noteq> []" and "evaluate (mockSession tier) a policy"
    and "resolveSessionTier (mockSession tier) \<noteq> ''player''"
  shows "\<exists>s st'. handle_request env policy req io st = (Admit s a None, st')"
proof -
  obtain c where g: "setup_guard (ge_console env) io (h_cookie req) (h_path req) (gs_console st) = (Inr (), c)"
      "signed_in (ge_console env) (io_time io) req tier c" using guard_lets_on [OF assms(1,2)] by blast
  obtain s c' where r: "require_auth (ge_console env) io (h_cookie req) (h_method req) (h_csrf req) c = (Inr s, c')"
      and t: "s_tier s = Str tier" using require_auth_admits [OF assms(1) g(2)] by blast
  have "authenticate (ge_sha env) (ge_date env) (gs_keys st) (h_authorization req) (io_time io) = NoBearer"
    using assms(3) by (simp add: authenticate_def)
  then show ?thesis
    using g(1) r assms(4-8) tier_of_object [OF t]
    by (simp add: handle_request_def central_gate_def session_gate_def authorize_request_def)
qed

end
