(* ===== verification/BridgeCredential.thy ===== *)
theory BridgeCredential
  imports WriteBridge Gate
begin

text \<open>
  The second hop of the Discord write bridge: the headers of the internal request
  (\<open>writeBridgeInternalClient.js\<close>), the principal they resolve to (\<open>writeBridgeCredential.js\<close>) and what the
  central gate of the console makes of it, all under \<open>console/api/src/\<close>. The token of the process, 32 random
  bytes in hexadecimal, is an argument. The socket, its timeout and the answer of the handler are not modelled.
\<close>

section \<open>The internal request\<close>

record bridge_headers =
  bh_token :: string
  bh_action :: string
  bh_tier :: string
  bh_user :: string
  bh_name :: string

definition callWriteBridgeInternalRoute :: "string \<Rightarrow> dispatch \<Rightarrow> bridge_headers" where
  "callWriteBridgeInternalRoute token d = \<lparr>bh_token = token, bh_action = d_action d, bh_tier = d_tier d,
     bh_user = d_userId d, bh_name = encodeURIComponent (d_username d)\<rparr>"

text \<open>\<open>VALID_TIERS\<close>: the tiers from \<open>moderator\<close> up.\<close>

definition WRITE_BRIDGE_VALID_TIERS :: "string list" where
  "WRITE_BRIDGE_VALID_TIERS = dropWhile (\<lambda>t. t \<noteq> ''moderator'') DISCORD_ROLE_TIERS"

definition bridge_principal :: "string \<Rightarrow> string \<Rightarrow> string \<Rightarrow> jsval" where
  "bridge_principal tier user name = Obj [(''source'', Str ''discord-write-bridge''), (''tier'', Str tier), (''userId'', Str user),
     (''discordUserId'', Str user), (''discordUsername'', Str name), (''id'', Str (''discord:'' @ user)), (''csrf'', Null)]"

definition resolveWriteBridgePrincipal ::
  "string \<Rightarrow> write_table \<Rightarrow> bridge_headers \<Rightarrow> string \<Rightarrow> string \<Rightarrow> bool \<Rightarrow> jsval option" where
  "resolveWriteBridgePrincipal token table headers meth path viaSocket =
     (if \<not> viaSocket then None
      else if \<not> constantTimeHexEqual (bh_token headers) token then None
      else if \<not> matchesWriteActionTarget table (bh_action headers) meth path then None
      else if bh_tier headers \<notin> set WRITE_BRIDGE_VALID_TIERS then None
      else if meetsMinTier (bh_tier headers) (bh_action headers) \<noteq> Some True then None
      else let user = js_trim (bh_user headers) in
        if user = [] then None
        else let raw = js_trim (bh_name headers) in
          Some (bridge_principal (bh_tier headers) user (case decodeURIComponent raw of Some name \<Rightarrow> name | None \<Rightarrow> raw)))"

text \<open>The request as the central gate sees it.\<close>

definition internal_request :: "string \<Rightarrow> write_table \<Rightarrow> bridge_headers \<Rightarrow> string \<Rightarrow> string \<Rightarrow> http_request" where
  "internal_request token table headers meth path = \<lparr>h_path = path, h_method = meth, h_cookie = [], h_csrf = None,
     h_authorization = [], h_remote = Str [], h_bridge = resolveWriteBridgePrincipal token table headers meth path True\<rparr>"

section \<open>Names survive the header\<close>

lemma code_char: "char_of (code c) = c"
  by (simp add: code_def)

lemma code_256: "code c < 256"
  using of_char_of [of "code c"] by (simp add: code_def)

lemma code_upper_hex: "n < 16 \<Longrightarrow> code (upper_hex n) = (if n < 10 then 48 + n else 55 + n)"
  by (simp add: upper_hex_def code_def)

lemma hex_round: "n < 16 \<Longrightarrow> is_hex (upper_hex n) \<and> hex_val (upper_hex n) = n"
proof -
  assume n: "n < 16"
  have low: "code (lower_char (upper_hex n)) = (if n < 10 then 48 + n else 87 + n)"
    using n code_upper_hex [OF n] by (auto simp: lower_char_def) (simp_all add: code_def)
  show ?thesis
    using n low code_upper_hex [OF n]
    by (auto simp: is_hex_def is_lower_hex_def is_digit_def hex_val_def radix_digit_def Let_def)
qed

lemma decode_percent:
  "n < 128 \<Longrightarrow> decodeURIComponent (percent n @ r) = map_option (Cons (char_of n)) (decodeURIComponent r)"
  using hex_round [of "n div 16"] hex_round [of "n mod 16"] by (simp add: percent_def Let_def)

lemma decode_two:
  assumes "128 \<le> n" and "n < 256"
  shows "decodeURIComponent (percent (192 + n div 64) @ percent (128 + n mod 64) @ r) = map_option (Cons (char_of n)) (decodeURIComponent r)"
proof -
  have a: "192 + n div 64 = 194 \<or> 192 + n div 64 = 195" using assms by auto
  have b: "(192 + n div 64) div 16 < 16" "(128 + n mod 64) div 16 < 16" using assms by auto
  have n: "(n div 64) * 64 + n mod 64 = n" by simp
  show ?thesis
    using a n hex_round [OF b(1)] hex_round [OF b(2)] hex_round [of "(192 + n div 64) mod 16"] hex_round [of "(128 + n mod 64) mod 16"]
    by (simp add: percent_def Let_def)
qed

lemma decode_char: "decodeURIComponent (encode_char c @ r) = map_option (Cons c) (decodeURIComponent r)"
proof -
  have p: "code CHR ''%'' = 37" by (simp add: code_def)
  show ?thesis
  proof (cases "is_alnum c \<or> code c \<in> {45, 95, 46, 33, 126, 42, 39, 40, 41}")
    case True
    then have "c \<noteq> CHR ''%''" using p by (auto simp: is_alnum_def is_digit_def)
    then show ?thesis using True by (auto simp: encode_char_def Let_def)
  next
    case False
    then have e: "encode_char c = (if code c < 128 then percent (code c) else percent (192 + code c div 64) @ percent (128 + code c mod 64))"
      by (simp add: encode_char_def Let_def)
    show ?thesis using decode_percent [of "code c" r] decode_two [of "code c" r] code_256 [of c] unfolding e
      by (auto simp: code_char)
  qed
qed

lemma decode_encode: "decodeURIComponent (encodeURIComponent s) = Some s"
  by (induction s) (simp_all add: encodeURIComponent_def decode_char)

lemma encode_char_visible: "\<forall>x \<in> set (encode_char c). \<not> is_ws x"
proof -
  have "\<not> is_ws (upper_hex n)" if "n < 16" for n
    using that code_upper_hex [OF that] by (auto simp: is_ws_def)
  then have hexes: "\<forall>x \<in> set (percent n). \<not> is_ws x" if "n < 256" for n
    using that by (auto simp: percent_def is_ws_def code_def)
  show ?thesis
  proof (cases "is_alnum c \<or> code c \<in> {45, 95, 46, 33, 126, 42, 39, 40, 41}")
    case True
    then have "\<not> is_ws c" by (auto simp: is_ws_def is_alnum_def is_digit_def)
    with True show ?thesis by (simp add: encode_char_def Let_def)
  next
    case False
    have "192 + code c div 64 < 256" "128 + code c mod 64 < 256" using code_256 [of c] by auto
    from hexes [OF this(1)] hexes [OF this(2)] hexes [OF code_256 [of c]] False show ?thesis
      by (auto simp: encode_char_def Let_def)
  qed
qed

lemma trim_visible: "\<forall>x \<in> set s. \<not> is_ws x \<Longrightarrow> js_trim s = s"
proof -
  have "\<forall>x \<in> set s. \<not> is_ws x \<Longrightarrow> trim_left s = s" for s by (cases s) (simp_all add: trim_left_def)
  then show "\<forall>x \<in> set s. \<not> is_ws x \<Longrightarrow> js_trim s = s" by (simp add: js_trim_def)
qed

lemma trim_encoded: "js_trim (encodeURIComponent s) = encodeURIComponent s"
  by (rule trim_visible) (use encode_char_visible in \<open>auto simp: encodeURIComponent_def\<close>)

section \<open>The second hop accepts what the first one sends\<close>

definition bridge_token :: "string \<Rightarrow> bool" where
  "bridge_token token = (hex_buffer token \<noteq> [])"

lemma default_policy_owner: "evaluate (mockSession ''owner'') a DEFAULT_POLICIES"
  by (simp add: evaluate_def resolveSessionTier_def mockSession_def normalizeTier_def VALID_TIERS_def getPolicy_def DEFAULT_POLICIES_def
      default_owner_def js_or_def statementsOf_def arr_items_def patternsOf_def match_val_def matchAction_def)

lemma default_policy_admin:
  "list_all (\<lambda>(a, e). map_of WRITE_ACTION_MIN_TIER a = Some ''owner'' \<or> eval_statements (e_policyAction e) (statementsOf default_admin) False)
     WRITE_ACTION_ROUTES"
  by code_simp

lemma default_policy_moderator:
  "list_all (\<lambda>(a, e). map_of WRITE_ACTION_MIN_TIER a \<noteq> Some ''moderator'' \<or> eval_statements (e_policyAction e) (statementsOf default_moderator) False)
     WRITE_ACTION_ROUTES"
  by code_simp

lemma least_tiers: "list_all (\<lambda>(a, t). t \<in> {''moderator'', ''admin'', ''owner''}) WRITE_ACTION_MIN_TIER"
  by code_simp

lemma ranks: "map_of TIER_RANK ''moderator'' = Some 0" "map_of TIER_RANK ''admin'' = Some 1" "map_of TIER_RANK ''owner'' = Some 2"
    "set WRITE_BRIDGE_VALID_TIERS = {''moderator'', ''admin'', ''owner''}"
  by (code_simp, code_simp, code_simp, code_simp)

lemma tier_allowed:
  assumes "(a, e) \<in> set WRITE_ACTION_ROUTES" and "meetsMinTier tier a = Some True" and "tier \<in> set WRITE_BRIDGE_VALID_TIERS"
  shows "evaluate (mockSession tier) (e_policyAction e) DEFAULT_POLICIES"
proof -
  obtain least where l: "map_of WRITE_ACTION_MIN_TIER a = Some least" using assms(2) by (auto simp: meetsMinTier_def split: option.splits)
  then have "least \<in> {''moderator'', ''admin'', ''owner''}" using least_tiers by (auto simp: list_all_iff dest!: map_of_SomeD)
  moreover have "least = ''owner'' \<or> eval_statements (e_policyAction e) (statementsOf default_admin) False"
    using bspec [OF default_policy_admin [unfolded list_all_iff] assms(1)] l by simp
  moreover have "least \<noteq> ''moderator'' \<or> eval_statements (e_policyAction e) (statementsOf default_moderator) False"
    using bspec [OF default_policy_moderator [unfolded list_all_iff] assms(1)] l by simp
  moreover have "evaluate (mockSession ''admin'') x DEFAULT_POLICIES = (x = [] \<or> eval_statements x (statementsOf default_admin) False)"
      "evaluate (mockSession ''moderator'') x DEFAULT_POLICIES = (x = [] \<or> eval_statements x (statementsOf default_moderator) False)" for x
    by (simp_all add: evaluate_def resolveSessionTier_def mockSession_def normalizeTier_def VALID_TIERS_def getPolicy_def
        DEFAULT_POLICIES_def js_or_def default_admin_def default_moderator_def)
  ultimately show ?thesis
    using assms(2,3) l default_policy_owner ranks by (auto simp: meetsMinTier_def)
qed

lemma no_cookie: "cookie_id sign [] = Some None"
  by (simp add: cookie_id_def parseCookies_def index_of.simps)

lemma guard_without_cookie: "setup_guard env io [] path st = (Inr (), st)"
proof -
  have "\<not> has_setup_scope dev_session" by code_simp
  then show ?thesis by (simp add: setup_guard_def read_session_def readSession_def no_cookie)
qed

lemma empty_bearer: "bearerToken [] = []"
  by code_simp

lemma named_actions: "list_all (\<lambda>(a, e). e_policyAction e \<noteq> []) WRITE_ACTION_ROUTES"
  by (simp add: WRITE_ACTION_ROUTES_def write_route_def)

lemma principal_tier: "tier \<in> set WRITE_BRIDGE_VALID_TIERS \<Longrightarrow>
    resolveSessionTier (bridge_principal tier u n) = tier \<and> evaluate (bridge_principal tier u n) a store = evaluate (mockSession tier) a store"
  using ranks(4)
  by (auto simp: evaluate_def resolveSessionTier_def bridge_principal_def mockSession_def normalizeTier_def VALID_TIERS_def)

lemma normal_names:
  assumes "normalizeDiscordActor v = Inr actor"
  shows "js_trim (a_userId actor) = a_userId actor \<and> a_userId actor \<noteq> [] \<and> js_trim (a_username actor) = a_username actor"
  using assms by (auto simp: normalizeDiscordActor_def requiredString_def trimmed_text_def Let_def split: if_splits sum.splits)

lemma write_actor_names: "write_actor env route h b tm = Inr (body, actor) \<Longrightarrow>
    js_trim (a_userId actor) = a_userId actor \<and> a_userId actor \<noteq> [] \<and> discordActorTier actor (be_mapping env) \<in> {''moderator'', ''admin'', ''owner''}"
  using normal_names access_tiers by (auto simp: write_actor_def split: if_splits sum.splits)

text \<open>What the sent request carries, from the log.\<close>

lemma sent_request:
  assumes "bridge_reachable env s" and "be_table env = WRITE_ACTION_ROUTES" and "Sent nonce h b tm d \<in> set (bs_log s)"
  shows "\<exists>e p. (d_action d, e) \<in> set WRITE_ACTION_ROUTES \<and> build_path (e_path e) p = Some (d_path d) \<and> d_method d = e_method e
    \<and> d_tier d \<in> set WRITE_BRIDGE_VALID_TIERS \<and> meetsMinTier (d_tier d) (d_action d) = Some True
    \<and> js_trim (d_userId d) = d_userId d \<and> d_userId d \<noteq> []"
proof -
  obtain later before where "bs_log s = later @ Sent nonce h b tm d # before" using assms(3) by (blast dest: split_list)
  then have "sent_justified env before nonce h b tm d"
    using reachable_ok [OF assms(1)] log_ok_split by (auto simp: bridge_ok_def)
  then obtain body actor params resolved where j: "write_actor env WRITE_EXECUTE h b tm = Inr (body, actor)"
    "resolveWriteActionRoute WRITE_ACTION_ROUTES (d_action d) params = Inr (Some resolved)"
    "d = dispatch_of resolved (d_action d) (discordActorTier actor (be_mapping env)) actor params"
    "meetsMinTier (d_tier d) (d_action d) = Some True"
    unfolding sent_justified_def assms(2) by blast
  have d: "d_path d = v_path resolved" "d_method d = v_method resolved" "d_tier d = discordActorTier actor (be_mapping env)"
    "d_userId d = a_userId actor"
    by (subst j(3), simp add: dispatch_of_def Let_def)+
  obtain e where e: "(d_action d, e) \<in> set WRITE_ACTION_ROUTES" "build_path (e_path e) (js_or params (Obj [])) = Some (v_path resolved)"
    "v_method resolved = e_method e"
    using j(2) by (auto simp: resolveWriteActionRoute_def dest!: map_of_SomeD split: option.splits)
  show ?thesis using e d j(4) write_actor_names [OF j(1)] ranks(4) by auto
qed

text \<open>
  C3. The two hops fit together: every request the bridge sends for a confirmed action is accepted by the second
  hop with the token of the process, and the console, under the shipped policies and whatever its other state,
  admits it past the setup guard and the central gate to the handler of exactly the action the table names, as a
  principal with the tier and the user of the actor who executed it. With another token, or for a method or path
  that is not the action's own, the same headers give no principal.
\<close>

theorem sent_request_is_admitted:
  assumes "bridge_reachable env s" and "be_table env = WRITE_ACTION_ROUTES" and "Sent nonce h b tm d \<in> set (bs_log s)"
    and "hex_buffer token \<noteq> []"
  shows "(\<exists>e name. (d_action d, e) \<in> set WRITE_ACTION_ROUTES
      \<and> handle_request genv DEFAULT_POLICIES
          (internal_request token WRITE_ACTION_ROUTES (callWriteBridgeInternalRoute token d) (d_method d) (d_path d)) io st
        = (Admit (bridge_principal (d_tier d) (d_userId d) name) (e_policyAction e) None, st))
    \<and> (\<forall>token' meth path. resolveWriteBridgePrincipal token' WRITE_ACTION_ROUTES (callWriteBridgeInternalRoute token d) meth path True \<noteq> None
         \<longrightarrow> hex_buffer token' = hex_buffer token \<and> matchesWriteActionTarget WRITE_ACTION_ROUTES (d_action d) meth path)"
proof
  obtain e p where e: "(d_action d, e) \<in> set WRITE_ACTION_ROUTES" "build_path (e_path e) p = Some (d_path d)" "d_method d = e_method e"
    and t: "d_tier d \<in> set WRITE_BRIDGE_VALID_TIERS" "meetsMinTier (d_tier d) (d_action d) = Some True"
    and u: "js_trim (d_userId d) = d_userId d" "d_userId d \<noteq> []" using sent_request [OF assms(1-3)] by blast
  have target: "matchesWriteActionTarget WRITE_ACTION_ROUTES (d_action d) (d_method d) (d_path d)"
    using built_target_recognised [OF e(1,2)] e(3) by simp
  have route: "actionForRoute (d_path d) (d_method d) = Some (e_policyAction e)" using built_action [OF e(1,2)] e(3) by simp
  obtain name where p: "resolveWriteBridgePrincipal token WRITE_ACTION_ROUTES (callWriteBridgeInternalRoute token d) (d_method d) (d_path d) True
      = Some (bridge_principal (d_tier d) (d_userId d) name)"
    using assms(4) target t u
    by (simp add: resolveWriteBridgePrincipal_def callWriteBridgeInternalRoute_def constantTimeHexEqual_def Let_def)
  let ?req = "internal_request token WRITE_ACTION_ROUTES (callWriteBridgeInternalRoute token d) (d_method d) (d_path d)"
  let ?p = "bridge_principal (d_tier d) (d_userId d) name"
  have req: "h_cookie ?req = []" "h_authorization ?req = []" "h_bridge ?req = Some ?p" "h_path ?req = d_path d" "h_method ?req = d_method d"
    using p by (simp_all add: internal_request_def)
  have "evaluate ?p (e_policyAction e) DEFAULT_POLICIES" "resolveSessionTier ?p \<noteq> ''player''"
    using tier_allowed [OF e(1) t(2,1)] principal_tier [OF t(1)] t(1) ranks(4) by auto
  moreover have "e_policyAction e \<noteq> []" using bspec [OF named_actions [unfolded list_all_iff] e(1)] by simp
  ultimately have "authorize_request genv DEFAULT_POLICIES ?req (io_time io) ?p None st = (Admit ?p (e_policyAction e) None, st)"
    unfolding authorize_request_def req route by simp
  then have "handle_request genv DEFAULT_POLICIES ?req io st = (Admit ?p (e_policyAction e) None, st)"
    unfolding handle_request_def central_gate_def session_gate_def req
    by (simp add: guard_without_cookie authenticate_def empty_bearer)
  with e(1) show "\<exists>e name. (d_action d, e) \<in> set WRITE_ACTION_ROUTES \<and> handle_request genv DEFAULT_POLICIES
      (internal_request token WRITE_ACTION_ROUTES (callWriteBridgeInternalRoute token d) (d_method d) (d_path d)) io st
    = (Admit (bridge_principal (d_tier d) (d_userId d) name) (e_policyAction e) None, st)" by blast
  show "\<forall>token' meth path. resolveWriteBridgePrincipal token' WRITE_ACTION_ROUTES (callWriteBridgeInternalRoute token d) meth path True \<noteq> None
         \<longrightarrow> hex_buffer token' = hex_buffer token \<and> matchesWriteActionTarget WRITE_ACTION_ROUTES (d_action d) meth path"
    by (auto simp: resolveWriteBridgePrincipal_def callWriteBridgeInternalRoute_def constantTimeHexEqual_def split: if_splits)
qed

theorem sent_request_is_admitted_witness:
  "\<exists>e name. (''player.kick'', e) \<in> set WRITE_ACTION_ROUTES \<and> (\<forall>genv io st. \<exists>name.
     handle_request genv DEFAULT_POLICIES (internal_request ''c0de'' WRITE_ACTION_ROUTES
       (callWriteBridgeInternalRoute ''c0de'' sample_dispatch) ''POST'' ''/api/players/A/kick'') io st
     = (Admit (bridge_principal ''admin'' ''7'' name) ''players:moderate'' None, st))"
proof -
  let ?e = "write_route ''POST'' [PathText ''/api/players/'', PlayerSeg, PathText ''/kick''] None ''players:moderate'' (Some ''task.adminKick'')"
  have token: "hex_buffer ''c0de'' \<noteq> []" by code_simp
  have d: "d_action sample_dispatch = ''player.kick''" "d_method sample_dispatch = ''POST''" "d_path sample_dispatch = ''/api/players/A/kick''"
    "d_tier sample_dispatch = ''admin''" "d_userId sample_dispatch = ''7''" by (simp_all add: sample_dispatch_def)
  have in_table: "map_of WRITE_ACTION_ROUTES ''player.kick'' = Some ?e" by (simp add: WRITE_ACTION_ROUTES_def)
  have "be_table sample_bridge_env = WRITE_ACTION_ROUTES" by (simp add: sample_bridge_env_def)
  from sent_request_is_admitted [OF sample_sent_reached this _ token, of "''n1''" sample_headers sample_body 1020000 sample_dispatch]
  have "\<exists>e name. (''player.kick'', e) \<in> set WRITE_ACTION_ROUTES
      \<and> handle_request genv DEFAULT_POLICIES (internal_request ''c0de'' WRITE_ACTION_ROUTES
       (callWriteBridgeInternalRoute ''c0de'' sample_dispatch) ''POST'' ''/api/players/A/kick'') io st
     = (Admit (bridge_principal ''admin'' ''7'' name) (e_policyAction e) None, st)" for genv io st
    unfolding d by auto
  moreover have "(''player.kick'', e) \<in> set WRITE_ACTION_ROUTES \<Longrightarrow> e = ?e" for e
    using in_table map_of_is_SomeI [OF route_names_distinct] by fastforce
  moreover have "e_policyAction ?e = ''players:moderate''" by (simp add: write_route_def)
  ultimately show ?thesis using map_of_SomeD [OF in_table] by metis
qed

end
