(* ===== verification/RestartQueue.thy ===== *)
theory RestartQueue
  imports JsonStore
begin

text \<open>
  The restart queue: \<open>console/api/src/services/restartQueue.js\<close>, the validators of
  \<open>console/api/src/rmq.js\<close> it sends through, and the gate, the tick and the boot recovery that drive it
  in \<open>console/api/src/server.js\<close>. A file that is missing or not JSON is \<open>None\<close>. Random ids, times, the
  online counts and the outcomes of sending are arguments. A write of the queue's file that fails is an ending of
  \<open>executeRestartEntry\<close> or the event \<open>FileLost\<close>; a request or a boot whose write fails and leaves the file as it
  was changes nothing and has no event of its own. Audit lines, the administration history, the
  texts of refusals and the publication itself (a docker call) are not modelled.
\<close>

section \<open>Settings\<close>

record rq_message =
  title_of :: string
  body_of :: string

record rq_settings =
  rq_enabled :: bool
  defaultCountdownMinutes :: int
  broadcastCheckpoints :: "int list"
  broadcastDurationSec :: int
  recoveryGraceMinutes :: int
  battlegroup_message :: rq_message
  map_message :: rq_message

definition default_battlegroup_message :: rq_message where
  "default_battlegroup_message = \<lparr>title_of = ''Battlegroup Restart'',
     body_of = ''All servers will restart in {minutes}. Please get to a safe place.''\<rparr>"

definition default_map_message :: rq_message where
  "default_map_message = \<lparr>title_of = ''Map Restart'',
     body_of = ''{mapLabel} will restart in {minutes}. Please move to another map or get to a safe place.''\<rparr>"

definition MAX_COUNTDOWN_MINUTES :: int where "MAX_COUNTDOWN_MINUTES = 1440"
definition MAX_CHECKPOINTS :: nat where "MAX_CHECKPOINTS = 12"
definition MAX_TITLE_LENGTH :: nat where "MAX_TITLE_LENGTH = 80"
definition MAX_BODY_LENGTH :: nat where "MAX_BODY_LENGTH = 500"

definition default_rq_settings :: rq_settings where
  "default_rq_settings = \<lparr>rq_enabled = False, defaultCountdownMinutes = 15, broadcastCheckpoints = [15, 10, 5, 1],
     broadcastDurationSec = 30, recoveryGraceMinutes = 5, battlegroup_message = default_battlegroup_message,
     map_message = default_map_message\<rparr>"

definition object_or_empty :: "jsval \<Rightarrow> jsval" where
  "object_or_empty v = (if truthy v \<and> is_object v then v else Obj [])"

definition clampTemplateText :: "jsval \<Rightarrow> string \<Rightarrow> nat \<Rightarrow> string" where
  "clampTemplateText value fallback maxLength =
     (let raw = js_trim (to_str (js_nullish value (Str []))) in
      if 1 \<le> length raw \<and> length raw \<le> maxLength then raw else fallback)"

definition normalizeMessageTemplate :: "jsval \<Rightarrow> rq_message \<Rightarrow> rq_message" where
  "normalizeMessageTemplate value fallback = (let source = object_or_empty value in
     \<lparr>title_of = clampTemplateText (getp source ''title'') (title_of fallback) MAX_TITLE_LENGTH,
      body_of = clampTemplateText (getp source ''body'') (body_of fallback) MAX_BODY_LENGTH\<rparr>)"

text \<open>The loop over the marks, with its early end; splitting at runs of separators only loses empty marks.\<close>

definition mark_of :: "string \<Rightarrow> int option" where
  "mark_of item = (case string_to_num (js_trim item) of
     Num q \<Rightarrow> if rat_is_int q \<and> 1 \<le> floor q \<and> floor q \<le> MAX_COUNTDOWN_MINUTES then Some (floor q) else None
   | _ \<Rightarrow> None)"

fun collect_marks :: "string list \<Rightarrow> int list \<Rightarrow> int list" where
  "collect_marks [] out = out"
| "collect_marks (item # items) out = (case mark_of item of
     None \<Rightarrow> collect_marks items out
   | Some n \<Rightarrow>
       (if n \<in> set out then collect_marks items out
        else if MAX_CHECKPOINTS \<le> length out + 1 then out @ [n]
        else collect_marks items (out @ [n])))"

definition normalizeCheckpoints :: "jsval \<Rightarrow> int list" where
  "normalizeCheckpoints value =
     (let items = (case value of Arr vs \<Rightarrow> map to_str vs
                   | _ \<Rightarrow> split_at (\<lambda>c. is_ws c \<or> c = CHR '','') (to_str (js_nullish value (Str []))));
          out = collect_marks items []
      in if out = [] then broadcastCheckpoints default_rq_settings else rev (sort out))"

text \<open>\<open>input.settings\<close> when it is an object, otherwise the input itself.\<close>

definition settings_source :: "jsval \<Rightarrow> jsval" where
  "settings_source input =
     (if truthy input \<and> is_object input
      then (if truthy (getp input ''settings'') \<and> is_object (getp input ''settings'') then getp input ''settings'' else input)
      else Obj [])"

definition normalizeSettings :: "jsval \<Rightarrow> rq_settings" where
  "normalizeSettings input =
     (let source = settings_source input; messages = object_or_empty (getp source ''messages'') in
      \<lparr>rq_enabled = (getp source ''enabled'' = Bool True),
       defaultCountdownMinutes = clampInt (getp source ''defaultCountdownMinutes'')
         (defaultCountdownMinutes default_rq_settings) 1 MAX_COUNTDOWN_MINUTES,
       broadcastCheckpoints = normalizeCheckpoints (getp source ''broadcastCheckpoints''),
       broadcastDurationSec = clampInt (getp source ''broadcastDurationSec'') (broadcastDurationSec default_rq_settings) 1 3600,
       recoveryGraceMinutes = clampInt (getp source ''recoveryGraceMinutes'') (recoveryGraceMinutes default_rq_settings) 0 1440,
       battlegroup_message = normalizeMessageTemplate (getp messages ''battlegroup'') default_battlegroup_message,
       map_message = normalizeMessageTemplate (getp messages ''map'') default_map_message\<rparr>)"

definition message_json :: "rq_message \<Rightarrow> jsval" where
  "message_json msg = Obj [(''title'', Str (title_of msg)), (''body'', Str (body_of msg))]"

definition settings_fields :: "rq_settings \<Rightarrow> (string \<times> jsval) list" where
  "settings_fields s = [(''enabled'', Bool (rq_enabled s)),
     (''defaultCountdownMinutes'', Number (num_of_int (defaultCountdownMinutes s))),
     (''broadcastCheckpoints'', Arr (map (\<lambda>n. Number (num_of_int n)) (broadcastCheckpoints s))),
     (''broadcastDurationSec'', Number (num_of_int (broadcastDurationSec s))),
     (''recoveryGraceMinutes'', Number (num_of_int (recoveryGraceMinutes s))),
     (''messages'', Obj [(''battlegroup'', message_json (battlegroup_message s)), (''map'', message_json (map_message s))])]"

definition readSettings :: "jsval option \<Rightarrow> rq_settings" where
  "readSettings file = (case file of None \<Rightarrow> default_rq_settings | Some v \<Rightarrow> normalizeSettings v)"

text \<open>\<open>{ ...current, ...patch }\<close> of the settings; the patch is an object of named fields.\<close>

definition saveSettings :: "jsval option \<Rightarrow> jsval \<Rightarrow> rq_settings \<times> jsval option" where
  "saveSettings file body =
     (let current = readSettings file;
          patch = (case settings_source body of Obj ps \<Rightarrow> ps | _ \<Rightarrow> []);
          settings = normalizeSettings (Obj (foldl (\<lambda>m p. om_set (fst p) (snd p) m) (settings_fields current) patch))
      in (settings, Some (Obj (settings_fields settings))))"

section \<open>Warnings\<close>

text \<open>\<open>template.replace(/\\{(\\w+)\\}/g, ...)\<close>\<close>

function render :: "(string \<times> string) list \<Rightarrow> string \<Rightarrow> string" where
  "render vars [] = []"
| "render vars (c # cs) =
     (let key = takeWhile is_word_char cs; rest = dropWhile is_word_char cs in
      if c = CHR ''{'' \<and> key \<noteq> [] \<and> take 1 rest = ''}''
      then (case map_of vars key of None \<Rightarrow> c # key @ ''}'' | Some v \<Rightarrow> v) @ render vars (drop 1 rest)
      else c # render vars cs)"
  by pat_completeness auto

termination render
proof (relation "measure (\<lambda>(vars, s). length s)")
  fix vars :: "(string \<times> string) list" and c cs key rest
  assume "rest = dropWhile is_word_char cs"
  then show "((vars, drop 1 rest), (vars, c # cs)) \<in> measure (\<lambda>(vars, s). length s)"
    using length_dropWhile_le [of is_word_char cs] by simp
qed auto

definition renderTemplate :: "string \<Rightarrow> (string \<times> string) list \<Rightarrow> string" where
  "renderTemplate template vars = render vars template"

datatype rq_target = Battlegroup | MapTarget | ServiceTarget

definition buildWarning :: "rq_target \<Rightarrow> string \<Rightarrow> rat \<Rightarrow> rq_message \<Rightarrow> rq_message \<Rightarrow> rq_message" where
  "buildWarning target mapLabel minutesLeft battlegroup_msg map_msg =
     (let minutes = max 1 (js_round minutesLeft);
          unit = (if minutes = 1 then ''minute'' else ''minutes'');
          defaultLabel = (if target = Battlegroup then ''All servers'' else ''This map'');
          trimmed = js_trim (if mapLabel = [] then defaultLabel else mapLabel);
          label = (if trimmed = [] then defaultLabel else trimmed);
          template = (if target = Battlegroup then battlegroup_msg else map_msg);
          vars = [(''minutes'', show_int minutes @ '' '' @ unit), (''mapLabel'', label)]
      in \<lparr>title_of = (if target = ServiceTarget \<and> title_of template = title_of default_map_message
                      then label @ '' Restart'' else renderTemplate (title_of template) vars),
          body_of = renderTemplate (body_of template) vars\<rparr>)"

definition validateBroadcastMessage :: "string \<Rightarrow> string option" where
  "validateBroadcastMessage message =
     (let raw = js_trim message in
      if length raw < 1 \<or> 500 < length raw
         \<or> list_ex (\<lambda>c. code c \<le> 8 \<or> code c = 11 \<or> code c = 12 \<or> 14 \<le> code c \<and> code c \<le> 31) raw
      then None else Some raw)"

definition validateLocalizedTextField :: "string \<Rightarrow> nat \<Rightarrow> string option" where
  "validateLocalizedTextField value maxLength =
     (let raw = js_trim value in
      if length raw < 1 \<or> maxLength < length raw \<or> list_ex (\<lambda>c. code c \<le> 31) raw then None else Some raw)"

text \<open>The title, the body and the duration of a broadcast without localised texts; \<open>None\<close> is an error.\<close>

definition buildBroadcastCommand :: "rq_message \<Rightarrow> int \<Rightarrow> (string \<times> string \<times> int) option" where
  "buildBroadcastCommand msg durationSec =
     (case validateLocalizedTextField (if title_of msg = [] then ''Admin Broadcast'' else title_of msg) 80 of
        None \<Rightarrow> None
      | Some title \<Rightarrow>
          (case validateBroadcastMessage (body_of msg) of
             None \<Rightarrow> None
           | Some body \<Rightarrow>
               (if durationSec < 1 \<or> 3600 < durationSec then None else Some (title, body, durationSec))))"

section \<open>Entries\<close>

datatype rq_status = Counting | Restarting

record rq_entry =
  q_id :: string
  q_status :: rq_status
  q_target :: rq_target
  q_type :: string
  q_operation :: string
  q_payload :: jsval
  q_mapKey :: string
  q_mapLabel :: string
  q_partition :: int
  q_map :: string
  q_startedAt :: string
  q_restartAt :: jsnum
  q_minutes :: int
  q_sent :: "int list"
  q_requestedBy :: string

definition text_or :: "jsval \<Rightarrow> string \<Rightarrow> string" where
  "text_or v d = js_trim (to_str (js_or v (Str d)))"

definition or_text :: "string \<Rightarrow> string \<Rightarrow> string" where
  "or_text s d = (if s = [] then d else s)"

definition target_of :: "jsval \<Rightarrow> rq_target" where
  "target_of v = (if v = Str ''battlegroup'' then Battlegroup else if v = Str ''service'' then ServiceTarget else MapTarget)"

definition number_or_0 :: "jsval \<Rightarrow> jsnum" where
  "number_or_0 v = (if num_truthy (to_num v) then to_num v else Num 0)"

text \<open>The distinct integers among the numbers of a list, in the order of a \<open>Set\<close>.\<close>

definition int_marks :: "jsval \<Rightarrow> int list" where
  "int_marks v = (case v of
     Arr vs \<Rightarrow> rev (remdups (rev (map num_int (filter is_integer (map to_num vs))))) | _ \<Rightarrow> [])"

definition normalizeEntry :: "string \<Rightarrow> jsval \<Rightarrow> rq_entry option" where
  "normalizeEntry uuid e =
     (if \<not> truthy e \<or> \<not> is_object e then None
      else let target = target_of (getp e ''target'');
               operation = text_or (getp e ''operation'') [];
               scoped = (target \<noteq> Battlegroup)
        in if operation = [] then None
           else Some \<lparr>q_id = or_text (text_or (getp e ''id'') []) uuid,
             q_status = (if getp e ''status'' = Str ''restarting'' then Restarting else Counting),
             q_target = target, q_type = or_text (text_or (getp e ''type'') ''server'') ''server'',
             q_operation = operation, q_payload = object_or_empty (getp e ''payload''),
             q_mapKey = (if scoped then text_or (getp e ''mapKey'') [] else []),
             q_mapLabel = text_or (getp e ''mapLabel'') [],
             q_partition = (if scoped then clampInt (getp e ''partitionId'') 0 0 2147483647 else 0),
             q_map = (if scoped then text_or (getp e ''map'') [] else []),
             q_startedAt = text_or (getp e ''startedAt'') [],
             q_restartAt = number_or_0 (getp e ''restartAt''),
             q_minutes = clampInt (getp e ''countdownMinutes'') (defaultCountdownMinutes default_rq_settings) 1
               MAX_COUNTDOWN_MINUTES,
             q_sent = int_marks (getp e ''sentCheckpoints''),
             q_requestedBy = or_text (text_or (getp e ''requestedBy'') ''web-admin'') ''web-admin''\<rparr>)"

definition target_json :: "rq_target \<Rightarrow> jsval" where
  "target_json t = Str (case t of Battlegroup \<Rightarrow> ''battlegroup'' | ServiceTarget \<Rightarrow> ''service'' | MapTarget \<Rightarrow> ''map'')"

text \<open>\<open>JSON.stringify\<close> writes an infinite number as \<open>null\<close>.\<close>

definition number_json :: "jsnum \<Rightarrow> jsval" where
  "number_json n = (if is_finite n then Number n else Null)"

definition entry_json :: "rq_entry \<Rightarrow> jsval" where
  "entry_json e = Obj [(''id'', Str (q_id e)),
     (''status'', Str (case q_status e of Counting \<Rightarrow> ''counting'' | Restarting \<Rightarrow> ''restarting'')),
     (''target'', target_json (q_target e)), (''type'', Str (q_type e)), (''operation'', Str (q_operation e)),
     (''payload'', q_payload e), (''mapKey'', Str (q_mapKey e)), (''mapLabel'', Str (q_mapLabel e)),
     (''partitionId'', Number (num_of_int (q_partition e))), (''map'', Str (q_map e)), (''startedAt'', Str (q_startedAt e)),
     (''restartAt'', number_json (q_restartAt e)), (''countdownMinutes'', Number (num_of_int (q_minutes e))),
     (''sentCheckpoints'', Arr (map (\<lambda>n. Number (num_of_int n)) (q_sent e))), (''requestedBy'', Str (q_requestedBy e))]"

text \<open>\<open>uuids\<close> gives the fresh id of the entry at a position that has none.\<close>

definition normalize_all :: "(nat \<Rightarrow> string) \<Rightarrow> jsval list \<Rightarrow> rq_entry list" where
  "normalize_all uuids vs = List.map_filter (\<lambda>i. normalizeEntry (uuids i) (vs ! i)) [0..<length vs]"

definition readState :: "(nat \<Rightarrow> string) \<Rightarrow> jsval option \<Rightarrow> rq_entry list" where
  "readState uuids file = (case file of
     None \<Rightarrow> [] | Some parsed \<Rightarrow> (case getp parsed ''entries'' of Arr vs \<Rightarrow> normalize_all uuids vs | _ \<Rightarrow> []))"

definition writeState :: "(nat \<Rightarrow> string) \<Rightarrow> rq_entry list \<Rightarrow> jsval option" where
  "writeState uuids es =
     Some (Obj [(''entries'', Arr (map entry_json (normalize_all uuids (map entry_json es))))])"

section \<open>Classification and admission\<close>

definition RESTART_OPERATIONS :: "string list" where
  "RESTART_OPERATIONS = [''restartAll'', ''experimentalTanksApply'', ''restartService'', ''mapsRespawn'', ''sietchesRestart'',
     ''userSettingsSaveAndRestart'', ''userSettingsResetAndRestart'', ''userSettingsRawAndRestart'']"

record restart_class =
  k_target :: rq_target
  k_mapKey :: string
  k_mapLabel :: string
  k_partition :: int
  k_map :: string

definition isRestartOperation :: "string \<Rightarrow> bool" where
  "isRestartOperation operation = (operation \<in> set RESTART_OPERATIONS)"

definition restartMapKey :: "jsval \<Rightarrow> string" where
  "restartMapKey payload =
     (let partition = text_or (js_or (getp payload ''partitionId'') (getp payload ''target'')) [];
          map = js_lower (text_or (js_or (getp payload ''map'') (getp payload ''service'')) []) in
      if partition \<noteq> [] \<and> map \<noteq> [] then map @ '':'' @ partition
      else if partition \<noteq> [] then ''partition:'' @ partition
      else if map \<noteq> [] then ''map:'' @ map
      else ''label:'' @ js_lower (text_or (getp payload ''restartLabel'') []))"

definition battlegroup_class :: restart_class where
  "battlegroup_class = \<lparr>k_target = Battlegroup, k_mapKey = [], k_mapLabel = ''All servers'', k_partition = 0, k_map = []\<rparr>"

definition classify_service :: "jsval \<Rightarrow> restart_class" where
  "classify_service payload =
     (let service = js_lower (text_or (getp payload ''service'') []) in
      if service = ''overmap''
      then \<lparr>k_target = ServiceTarget, k_mapKey = ''overmap:2'', k_mapLabel = ''Overmap'', k_partition = 2, k_map = ''Overmap''\<rparr>
      else if service = ''survival'' \<or> service = ''survival-1''
      then \<lparr>k_target = ServiceTarget, k_mapKey = ''survival_1:1'', k_mapLabel = ''Survival 1'', k_partition = 1, k_map = ''Survival_1''\<rparr>
      else battlegroup_class)"

definition classify_map :: "jsval \<Rightarrow> restart_class" where
  "classify_map payload =
     (let label = or_text (text_or (js_or (getp payload ''restartLabel'') (js_or (getp payload ''map'') (getp payload ''service'')))
                    ''this map'') ''this map'';
          raw = to_num (js_or (getp payload ''partitionId'') (js_or (getp payload ''target'') (Number (Num 0))));
          partition = (if is_integer raw \<and> 0 < num_int raw then num_int raw else 0)
      in \<lparr>k_target = MapTarget, k_mapKey = restartMapKey payload, k_mapLabel = label, k_partition = partition,
          k_map = text_or (getp payload ''map'') []\<rparr>)"

definition classifyRestart :: "string \<Rightarrow> jsval \<Rightarrow> restart_class option" where
  "classifyRestart operation payload =
     (if operation \<notin> set RESTART_OPERATIONS then None
      else if operation = ''experimentalTanksApply''
      then Some \<lparr>k_target = MapTarget, k_mapKey = ''survival_1'', k_mapLabel = ''All Hagga Sietches'', k_partition = 0, k_map = ''Survival_1''\<rparr>
      else let restartMode = text_or (getp payload ''restartMode'') [] in
        if restartMode = ''none'' then None
        else if operation = ''restartAll'' \<or> restartMode = ''stack'' then Some battlegroup_class
        else if operation = ''restartService'' \<and> \<not> truthy (getp payload ''map'') \<and> \<not> truthy (getp payload ''partitionId'')
               \<and> \<not> truthy (getp payload ''target'')
        then Some (classify_service payload)
        else Some (classify_map payload))"

definition canQueue :: "rq_entry list \<Rightarrow> rq_target \<Rightarrow> string \<Rightarrow> bool" where
  "canQueue es target mapKey =
     (let hasBattlegroup = list_ex (\<lambda>e. q_target e = Battlegroup) es in
      if target = Battlegroup then \<not> hasBattlegroup \<and> es = []
      else \<not> hasBattlegroup \<and> \<not> list_ex (\<lambda>e. q_mapKey e \<noteq> [] \<and> q_mapKey e = mapKey) es)"

section \<open>Operations on the queue\<close>

text \<open>The operations on the list of entries, and around them the reading and writing of the file.\<close>

definition remove_entry :: "string \<Rightarrow> rq_entry list \<Rightarrow> rq_entry list" where
  "remove_entry i es = filter (\<lambda>e. q_id e \<noteq> i) es"

fun update_entry :: "string \<Rightarrow> (rq_entry \<Rightarrow> rq_entry) \<Rightarrow> rq_entry list \<Rightarrow> rq_entry list" where
  "update_entry i f [] = []"
| "update_entry i f (e # es) = (if q_id e = i then f e # es else e # update_entry i f es)"

definition mark_restarting :: "rq_entry \<Rightarrow> rq_entry" where
  "mark_restarting e = e\<lparr>q_status := Restarting\<rparr>"

definition record_mark :: "int \<Rightarrow> rq_entry \<Rightarrow> rq_entry" where
  "record_mark mark e = (if mark \<in> set (q_sent e) then e else e\<lparr>q_sent := q_sent e @ [mark]\<rparr>)"

definition rewrite ::
  "(nat \<Rightarrow> string) \<Rightarrow> (rq_entry list \<Rightarrow> rq_entry list) \<Rightarrow> jsval option \<Rightarrow> jsval option" where
  "rewrite uuids f file = writeState uuids (f (readState uuids file))"

definition removeEntry :: "(nat \<Rightarrow> string) \<Rightarrow> string \<Rightarrow> jsval option \<Rightarrow> jsval option" where
  "removeEntry uuids i = rewrite uuids (remove_entry i)"

definition markEntryRestarting :: "(nat \<Rightarrow> string) \<Rightarrow> string \<Rightarrow> jsval option \<Rightarrow> jsval option" where
  "markEntryRestarting uuids i = rewrite uuids (update_entry i mark_restarting)"

definition recordCheckpointSent :: "(nat \<Rightarrow> string) \<Rightarrow> string \<Rightarrow> int \<Rightarrow> jsval option \<Rightarrow> jsval option" where
  "recordCheckpointSent uuids i mark = rewrite uuids (update_entry i (record_mark mark))"

definition expediteEntry :: "(nat \<Rightarrow> string) \<Rightarrow> string \<Rightarrow> int \<Rightarrow> jsval option \<Rightarrow> jsval option" where
  "expediteEntry uuids i tm = rewrite uuids (update_entry i (\<lambda>e. e\<lparr>q_restartAt := num_of_int tm\<rparr>))"

definition new_entry ::
  "(int \<Rightarrow> string) \<Rightarrow> string \<Rightarrow> restart_class \<Rightarrow> string \<Rightarrow> string \<Rightarrow> jsval \<Rightarrow> int \<Rightarrow> int \<Rightarrow> rq_entry option" where
  "new_entry to_iso uuid cl type operation payload minutes0 tm =
     (let minutes = clampInt (Number (num_of_int minutes0)) (defaultCountdownMinutes default_rq_settings) 1 MAX_COUNTDOWN_MINUTES;
          scoped = (k_target cl \<noteq> Battlegroup)
      in normalizeEntry uuid (Obj [(''id'', Str uuid), (''status'', Str ''counting''), (''target'', target_json (k_target cl)),
           (''type'', Str type), (''operation'', Str operation), (''payload'', payload),
           (''mapKey'', Str (if scoped then k_mapKey cl else [])), (''mapLabel'', Str (k_mapLabel cl)),
           (''partitionId'', Number (num_of_int (if scoped then k_partition cl else 0))),
           (''map'', Str (if scoped then k_map cl else [])), (''startedAt'', Str (to_iso tm)),
           (''restartAt'', Number (num_of_int (tm + minutes * 60000))), (''countdownMinutes'', Number (num_of_int minutes)),
           (''sentCheckpoints'', Arr []), (''requestedBy'', Str ''web-admin'')]))"

definition appendEntry ::
  "(nat \<Rightarrow> string) \<Rightarrow> (int \<Rightarrow> string) \<Rightarrow> string \<Rightarrow> restart_class \<Rightarrow> string \<Rightarrow> string \<Rightarrow> jsval \<Rightarrow> int \<Rightarrow> int
   \<Rightarrow> jsval option \<Rightarrow> jsval option" where
  "appendEntry uuids to_iso uuid cl type operation payload minutes tm =
     rewrite uuids (\<lambda>es. case new_entry to_iso uuid cl type operation payload minutes tm of
       None \<Rightarrow> es | Some e \<Rightarrow> es @ [e])"

text \<open>The marks that are due, the highest first; \<open>restartAt - now\<close> in milliseconds.\<close>

definition checkpointsDue :: "rq_entry \<Rightarrow> int list \<Rightarrow> int \<Rightarrow> int list" where
  "checkpointsDue e checkpoints tm =
     (if q_status e \<noteq> Counting then []
      else case q_restartAt e of
        Num at_time \<Rightarrow>
          (if at_time \<le> of_int tm then []
           else rev (sort (filter (\<lambda>mark. mark \<notin> set (q_sent e) \<and> at_time - of_int tm \<le> of_int mark * 60000)
                      (filter (\<lambda>mark. 0 < mark) checkpoints))))
      | _ \<Rightarrow> [])"

definition reached :: "int \<Rightarrow> rq_entry \<Rightarrow> bool" where
  "reached tm e = (\<not> num_lt (Num (of_int tm)) (q_restartAt e))"

record recovery =
  keep :: "rq_entry list"
  executeNow :: "rq_entry list"
  resume :: "rq_entry list"
  cleared :: "rq_entry list"
  discarded :: "rq_entry list"

definition within_grace :: "int \<Rightarrow> int \<Rightarrow> rq_entry \<Rightarrow> bool" where
  "within_grace tm graceMinutes e = (case q_restartAt e of
     Num at_time \<Rightarrow> of_int tm - at_time \<le> of_int (max 0 graceMinutes * 60000)
   | NegInf \<Rightarrow> False | _ \<Rightarrow> True)"

fun recover :: "int \<Rightarrow> int \<Rightarrow> rq_entry list \<Rightarrow> recovery" where
  "recover tm graceMinutes [] = \<lparr>keep = [], executeNow = [], resume = [], cleared = [], discarded = []\<rparr>"
| "recover tm graceMinutes (e # es) =
     (let r = recover tm graceMinutes es in
      if q_status e = Restarting then r\<lparr>cleared := e # cleared r\<rparr>
      else if num_lt (Num (of_int tm)) (q_restartAt e) then r\<lparr>resume := e # resume r, keep := e # keep r\<rparr>
      else if within_grace tm graceMinutes e then r\<lparr>executeNow := e # executeNow r, keep := e # keep r\<rparr>
      else r\<lparr>discarded := e # discarded r\<rparr>)"

text \<open>The online count that decides: a failed query, one the schema does not support, or a number.\<close>

datatype online_query = QueryFailed | Unsupported | Online int

text \<open>\<open>scopedOnlineCount\<close>; the outer \<open>None\<close> is an exception.\<close>

definition scopedOnlineCount :: "rq_target \<Rightarrow> online_query \<Rightarrow> online_query \<Rightarrow> int option" where
  "scopedOnlineCount target battlegroup scoped =
     (if battlegroup = QueryFailed then None
      else let all = (case battlegroup of Online n \<Rightarrow> n | _ \<Rightarrow> 0) in
        if target = Battlegroup then Some all
        else case scoped of QueryFailed \<Rightarrow> None | Unsupported \<Rightarrow> Some all | Online n \<Rightarrow> Some n)"

datatype queue_answer = RunNow | Conflict409 | Queued202

definition maybeQueueRestart ::
  "(nat \<Rightarrow> string) \<Rightarrow> (int \<Rightarrow> string) \<Rightarrow> string \<Rightarrow> jsval option \<Rightarrow> bool \<Rightarrow> online_query \<Rightarrow> online_query
   \<Rightarrow> string \<Rightarrow> string \<Rightarrow> jsval \<Rightarrow> int \<Rightarrow> jsval option \<Rightarrow> queue_answer \<times> jsval option" where
  "maybeQueueRestart uuids to_iso uuid settings_file immediate battlegroup scoped type operation payload tm file =
     (case classifyRestart operation payload of
        None \<Rightarrow> (RunNow, file)
      | Some cl \<Rightarrow>
          (let settings = readSettings settings_file in
           if \<not> rq_enabled settings \<or> immediate then (RunNow, file)
           else case scopedOnlineCount (k_target cl) battlegroup scoped of
             None \<Rightarrow> (RunNow, file)
           | Some online \<Rightarrow>
               (if online \<le> 0 then (RunNow, file)
                else if \<not> canQueue (readState uuids file) (k_target cl) (k_mapKey cl) then (Conflict409, file)
                else (Queued202, appendEntry uuids to_iso uuid cl type operation payload
                        (defaultCountdownMinutes settings) tm file))))"

section \<open>The file holds the entries\<close>

text \<open>An entry as the module produces it.\<close>

definition normal_entry :: "rq_entry \<Rightarrow> bool" where
  "normal_entry e = (q_id e \<noteq> [] \<and> js_trim (q_id e) = q_id e \<and> q_type e \<noteq> [] \<and> js_trim (q_type e) = q_type e
     \<and> q_operation e \<noteq> [] \<and> js_trim (q_operation e) = q_operation e \<and> truthy (q_payload e) \<and> is_object (q_payload e)
     \<and> js_trim (q_mapKey e) = q_mapKey e \<and> js_trim (q_mapLabel e) = q_mapLabel e \<and> js_trim (q_map e) = q_map e
     \<and> js_trim (q_startedAt e) = q_startedAt e \<and> 0 \<le> q_partition e \<and> q_partition e \<le> 2147483647
     \<and> (q_target e = Battlegroup \<longrightarrow> q_mapKey e = [] \<and> q_map e = [] \<and> q_partition e = 0)
     \<and> is_finite (q_restartAt e) \<and> 1 \<le> q_minutes e \<and> q_minutes e \<le> MAX_COUNTDOWN_MINUTES \<and> distinct (q_sent e)
     \<and> q_requestedBy e \<noteq> [] \<and> js_trim (q_requestedBy e) = q_requestedBy e)"

lemma text_or_same: "js_trim s = s \<Longrightarrow> text_or (Str s) [] = s"
  by (auto simp: text_or_def js_or_def)

lemma text_or_default: "js_trim s = s \<Longrightarrow> s \<noteq> [] \<Longrightarrow> text_or (Str s) d = s"
  by (auto simp: text_or_def js_or_def)

lemma int_marks_json: "distinct ns \<Longrightarrow> int_marks (Arr (map (\<lambda>n. Number (num_of_int n)) ns)) = ns"
  by (simp add: int_marks_def comp_def distinct_remdups_id)

lemma number_json_back: "is_finite n \<Longrightarrow> number_or_0 (number_json n) = n"
  by (cases n) (auto simp: number_or_0_def number_json_def)

lemma target_back: "target_of (target_json t) = t"
  by (cases t) (simp_all add: target_of_def target_json_def)

lemma normalize_entry_json:
  assumes "normal_entry e"
  shows "normalizeEntry uuid (entry_json e) = Some e"
proof -
  have "(q_target e = Battlegroup \<longrightarrow> q_mapKey e = [] \<and> q_map e = [] \<and> q_partition e = 0)" using assms by (simp add: normal_entry_def)
  then show ?thesis
    using assms unfolding normal_entry_def
    by (cases e; cases "q_status e")
      (auto simp: normalizeEntry_def entry_json_def Let_def text_or_same text_or_default or_text_def target_back int_marks_json
        number_json_back object_or_empty_def clampInt_id)
qed

lemma js_trim_or_text: "js_trim u = u \<Longrightarrow> js_trim s = s \<Longrightarrow> js_trim (or_text s u) = or_text s u"
  by (simp add: or_text_def)

lemma text_or_trimmed [simp]: "js_trim (text_or v d) = text_or v d"
  by (simp add: text_or_def)

lemma or_text_nonempty: "u \<noteq> [] \<Longrightarrow> or_text s u \<noteq> []"
  by (simp add: or_text_def)

lemma int_marks_distinct: "distinct (int_marks v)"
  by (cases v) (simp_all add: int_marks_def)

lemma object_or_empty_object: "truthy (object_or_empty v) \<and> is_object (object_or_empty v)"
  by (simp add: object_or_empty_def)

lemma normal_server: "js_trim ''server'' = ''server''" "js_trim ''web-admin'' = ''web-admin''"
  by code_simp+

lemma js_trim_Nil: "js_trim [] = []"
  by code_simp

lemma normalize_gives_normal:
  assumes "normalizeEntry uuid v = Some e" and "uuid \<noteq> []" and "js_trim uuid = uuid" and "is_finite (q_restartAt e)"
  shows "normal_entry e"
  using assms clampInt_bounds [of 0 2147483647 "getp v ''partitionId''" 0]
    clampInt_bounds [of 1 MAX_COUNTDOWN_MINUTES "getp v ''countdownMinutes''" "defaultCountdownMinutes default_rq_settings"]
  by (auto simp: normalizeEntry_def normal_entry_def Let_def js_trim_or_text or_text_nonempty object_or_empty_object
      int_marks_distinct normal_server js_trim_Nil MAX_COUNTDOWN_MINUTES_def split: if_splits)

lemma normalize_all_json:
  assumes "list_all normal_entry es"
  shows "normalize_all uuids (map entry_json es) = es"
proof -
  have each: "normalizeEntry (uuids i) (entry_json (es ! i)) = Some (es ! i)" if "i < length es" for i
    using assms that by (simp add: list_all_length normalize_entry_json)
  have "List.map_filter (\<lambda>i. normalizeEntry (uuids i) (map entry_json es ! i)) [0..<length es]
      = List.map_filter (\<lambda>i. Some (es ! i)) [0..<length es]"
    unfolding List.map_filter_def by (intro map_cong filter_cong) (auto simp: each)
  then show ?thesis by (simp add: normalize_all_def List.map_filter_def comp_def map_nth)
qed

lemma read_written: "list_all normal_entry es \<Longrightarrow> readState uuids (writeState uuids' es) = es"
  by (simp add: readState_def writeState_def normalize_all_json)

lemma read_rewritten:
  "list_all normal_entry (f (readState uuids file)) \<Longrightarrow> readState uuids' (rewrite uuids f file) = f (readState uuids file)"
  by (simp add: rewrite_def read_written)

lemma update_entry_all:
  "list_all P es \<Longrightarrow> (\<And>e. P e \<Longrightarrow> P (f e)) \<Longrightarrow> list_all P (update_entry i f es)"
  by (induction es) auto

lemma update_entry_map: "(\<And>e. g (f e) = g e) \<Longrightarrow> map g (update_entry i f es) = map g es"
  by (induction es) auto

lemma normal_mark [simp]: "normal_entry e \<Longrightarrow> normal_entry (mark_restarting e)"
  by (simp add: normal_entry_def mark_restarting_def)

lemma normal_record [simp]: "normal_entry e \<Longrightarrow> normal_entry (record_mark m e)"
  by (simp add: normal_entry_def record_mark_def)

lemma normal_remove: "list_all normal_entry es \<Longrightarrow> list_all normal_entry (remove_entry i es)"
  by (auto simp: remove_entry_def list_all_iff)

section \<open>The queue, the tick and the requests together\<close>

text \<open>
  The steps of the process between two suspensions: a request handler that reads and writes the file runs
  in one step, the tick is suspended while it waits for the online counts and for each broadcast, so that
  requests come in between. \<open>w_queue\<close> holds the entries of the state file, \<open>w_dispatched\<close> the entries passed
  to \<open>tasks.create\<close>; \<open>w_cancelled\<close> and \<open>w_issued\<close> record the ids cancelled and generated so far.
\<close>

datatype rq_tick = Idle
  | Entries int "int list" "int option" "rq_entry list"
  | Warnings int "int list" "int option" rq_entry "int list" "rq_entry list"

record rq_world =
  w_queue :: "rq_entry list"
  w_dispatched :: "rq_entry list"
  w_tick :: rq_tick
  w_last_run :: int
  w_down :: bool
  w_cancelled :: "string list"
  w_issued :: "string list"

text \<open>
  How \<open>executeRestartEntry\<close> ends: completely, in an error of \<open>tasks.create\<close>, because the process stops after the
  marker is written or after the restart has been dispatched, or in an error of the write of the marker (nothing is
  dispatched) or of the removal (the restart is dispatched and its entry, marked, stays). A write that fails leaves
  the file as it was, or, since \<open>writeJson\<close> writes in place, unreadable, which \<open>readState\<close> takes for an empty queue:
  that is the event \<open>FileLost\<close>, which may follow any step, also while the process is down.
\<close>

datatype ending = Completes | CreateThrows | StopsMarked | StopsDispatched | MarkThrows | RemoveThrows

definition executeRestartEntry :: "ending \<Rightarrow> rq_entry \<Rightarrow> rq_world \<Rightarrow> rq_world" where
  "executeRestartEntry ending e w =
     (let marked = update_entry (q_id e) mark_restarting (w_queue w) in
      case ending of
        Completes \<Rightarrow> w\<lparr>w_queue := remove_entry (q_id e) marked, w_dispatched := w_dispatched w @ [e]\<rparr>
      | CreateThrows \<Rightarrow> w\<lparr>w_queue := marked\<rparr>
      | StopsMarked \<Rightarrow> w\<lparr>w_queue := marked, w_down := True\<rparr>
      | StopsDispatched \<Rightarrow> w\<lparr>w_queue := marked, w_dispatched := w_dispatched w @ [e], w_down := True\<rparr>
      | MarkThrows \<Rightarrow> w
      | RemoveThrows \<Rightarrow> w\<lparr>w_queue := marked, w_dispatched := w_dispatched w @ [e]\<rparr>)"

datatype rq_event =
    Enqueue string restart_class string string jsval int int
  | Cancel string
  | RestartNow string ending
  | TickStart int online_query "int list"
  | TickEntry online_query ending
  | TickWarn bool
  | TickDeadline int ending
  | TickEnd
  | Kill
  | FileLost
  | Boot int int "string \<Rightarrow> ending"

definition enqueue ::
  "(int \<Rightarrow> string) \<Rightarrow> string \<Rightarrow> restart_class \<Rightarrow> string \<Rightarrow> string \<Rightarrow> jsval \<Rightarrow> int \<Rightarrow> int \<Rightarrow> rq_world \<Rightarrow> rq_world option" where
  "enqueue to_iso uuid cl type operation payload minutes tm w =
     (if uuid = [] \<or> js_trim uuid \<noteq> uuid \<or> uuid \<in> set (w_issued w) \<or> classifyRestart operation payload \<noteq> Some cl
         \<or> \<not> canQueue (w_queue w) (k_target cl) (k_mapKey cl)
      then None
      else case new_entry to_iso uuid cl type operation payload minutes tm of
        None \<Rightarrow> None
      | Some e \<Rightarrow> Some (w\<lparr>w_queue := w_queue w @ [e], w_issued := uuid # w_issued w\<rparr>))"

definition restartQueueCancelRoute :: "string \<Rightarrow> rq_world \<Rightarrow> rq_world" where
  "restartQueueCancelRoute i w =
     w\<lparr>w_queue := remove_entry i (w_queue w),
       w_cancelled := (if i \<in> set (map q_id (w_queue w)) then i # w_cancelled w else w_cancelled w)\<rparr>"

definition restartQueueRestartNowRoute :: "string \<Rightarrow> ending \<Rightarrow> rq_world \<Rightarrow> rq_world" where
  "restartQueueRestartNowRoute i ending w = (case find (\<lambda>e. q_id e = i) (w_queue w) of
     None \<Rightarrow> w | Some e \<Rightarrow> executeRestartEntry ending e w)"

definition tick_start :: "int \<Rightarrow> online_query \<Rightarrow> int list \<Rightarrow> rq_world \<Rightarrow> rq_world option" where
  "tick_start tm battlegroup checkpoints w =
     (if w_tick w \<noteq> Idle \<or> tm - w_last_run w < 5000 \<or> w_queue w = [] then None
      else Some (w\<lparr>w_tick := Entries tm checkpoints (case battlegroup of Online n \<Rightarrow> Some n | _ \<Rightarrow> None) (w_queue w),
                   w_last_run := tm\<rparr>))"

definition tick_online :: "rq_target \<Rightarrow> int option \<Rightarrow> online_query \<Rightarrow> int option" where
  "tick_online target battlegroupOnline scoped =
     (if target = Battlegroup then battlegroupOnline
      else case scoped of Online n \<Rightarrow> Some n | _ \<Rightarrow> battlegroupOnline)"

definition tick_entry :: "online_query \<Rightarrow> ending \<Rightarrow> rq_world \<Rightarrow> rq_world option" where
  "tick_entry scoped ending w = (case w_tick w of
     Entries tm checkpoints bg (e # es) \<Rightarrow>
       Some (if q_status e \<noteq> Counting then w\<lparr>w_tick := Entries tm checkpoints bg es\<rparr>
             else if tick_online (q_target e) bg scoped = Some 0
             then (executeRestartEntry ending e w)\<lparr>w_tick := Entries tm checkpoints bg es\<rparr>
             else w\<lparr>w_tick := Warnings tm checkpoints bg e (checkpointsDue e checkpoints tm) es\<rparr>)
   | _ \<Rightarrow> None)"

definition tick_warn :: "bool \<Rightarrow> rq_world \<Rightarrow> rq_world option" where
  "tick_warn sent w = (case w_tick w of
     Warnings tm checkpoints bg e (mark # marks) es \<Rightarrow>
       Some (w\<lparr>w_queue := (if sent then update_entry (q_id e) (record_mark mark) (w_queue w) else w_queue w),
               w_tick := Warnings tm checkpoints bg e marks es\<rparr>)
   | _ \<Rightarrow> None)"

definition tick_deadline :: "int \<Rightarrow> ending \<Rightarrow> rq_world \<Rightarrow> rq_world option" where
  "tick_deadline tm' ending w = (case w_tick w of
     Warnings tm checkpoints bg e [] es \<Rightarrow>
       Some ((if reached tm' e then executeRestartEntry ending e w else w)\<lparr>w_tick := Entries tm checkpoints bg es\<rparr>)
   | _ \<Rightarrow> None)"

definition tick_end :: "rq_world \<Rightarrow> rq_world option" where
  "tick_end w = (case w_tick w of Entries tm checkpoints bg [] \<Rightarrow> Some (w\<lparr>w_tick := Idle\<rparr>) | _ \<Rightarrow> None)"

fun execute_all :: "(string \<Rightarrow> ending) \<Rightarrow> rq_entry list \<Rightarrow> rq_world \<Rightarrow> rq_world" where
  "execute_all endings [] w = w"
| "execute_all endings (e # es) w =
     (let w' = executeRestartEntry (endings (q_id e)) e w in if w_down w' then w' else execute_all endings es w')"

definition recoverRestartQueue :: "int \<Rightarrow> int \<Rightarrow> (string \<Rightarrow> ending) \<Rightarrow> rq_world \<Rightarrow> rq_world" where
  "recoverRestartQueue tm graceMinutes endings w =
     (let r = recover tm graceMinutes (w_queue w) in
      execute_all endings (executeNow r) (w\<lparr>w_queue := keep r, w_tick := Idle, w_last_run := 0, w_down := False\<rparr>))"

definition rq_step :: "(int \<Rightarrow> string) \<Rightarrow> rq_event \<Rightarrow> rq_world \<Rightarrow> rq_world option" where
  "rq_step to_iso ev w = (case ev of
     Boot tm graceMinutes endings \<Rightarrow>
       (if w_down w then Some (recoverRestartQueue tm graceMinutes endings w) else None)
   | FileLost \<Rightarrow> Some (w\<lparr>w_queue := []\<rparr>)
   | _ \<Rightarrow> if w_down w then None else (case ev of
       Enqueue uuid cl type operation payload minutes tm \<Rightarrow> enqueue to_iso uuid cl type operation payload minutes tm w
     | Cancel i \<Rightarrow> Some (restartQueueCancelRoute i w)
     | RestartNow i ending \<Rightarrow> Some (restartQueueRestartNowRoute i ending w)
     | TickStart tm bg checkpoints \<Rightarrow> tick_start tm bg checkpoints w
     | TickEntry scoped ending \<Rightarrow> tick_entry scoped ending w
     | TickWarn sent \<Rightarrow> tick_warn sent w
     | TickDeadline tm' ending \<Rightarrow> tick_deadline tm' ending w
     | TickEnd \<Rightarrow> tick_end w
     | _ \<Rightarrow> Some (w\<lparr>w_down := True\<rparr>)))"

fun rq_run :: "(int \<Rightarrow> string) \<Rightarrow> rq_event list \<Rightarrow> rq_world \<Rightarrow> rq_world option" where
  "rq_run to_iso [] w = Some w"
| "rq_run to_iso (ev # evs) w = (case rq_step to_iso ev w of None \<Rightarrow> None | Some w' \<Rightarrow> rq_run to_iso evs w')"

definition rq_init :: rq_world where
  "rq_init = \<lparr>w_queue = [], w_dispatched = [], w_tick = Idle, w_last_run = 0, w_down = False, w_cancelled = [], w_issued = []\<rparr>"

text \<open>The worlds reached by events that \<open>allowed\<close> permits.\<close>

inductive rq_reach :: "(int \<Rightarrow> string) \<Rightarrow> (rq_event \<Rightarrow> rq_world \<Rightarrow> bool) \<Rightarrow> rq_world \<Rightarrow> bool"
  for to_iso allowed where
  start: "rq_reach to_iso allowed rq_init"
| step: "rq_reach to_iso allowed w \<Longrightarrow> allowed ev w \<Longrightarrow> rq_step to_iso ev w = Some w' \<Longrightarrow> rq_reach to_iso allowed w'"

section \<open>The shape of the queue\<close>

text \<open>Either one battlegroup entry alone, or entries of distinct maps.\<close>

definition exclusive :: "rq_entry list \<Rightarrow> bool" where
  "exclusive es = (if list_ex (\<lambda>e. q_target e = Battlegroup) es then length es = 1
     else list_all (\<lambda>e. q_mapKey e \<noteq> []) es \<and> distinct (map q_mapKey es))"

definition queue_ok :: "rq_entry list \<Rightarrow> bool" where
  "queue_ok es = (distinct (map q_id es) \<and> list_all normal_entry es \<and> exclusive es)"

lemma exclusive_filter: "exclusive es \<Longrightarrow> exclusive (filter P es)"
proof (cases "list_ex (\<lambda>e. q_target e = Battlegroup) es")
  case True
  assume "exclusive es"
  with True obtain e where "es = [e]" by (auto simp: exclusive_def length_Suc_conv)
  with True show ?thesis by (auto simp: exclusive_def)
next
  case False
  assume "exclusive es"
  with False show ?thesis by (auto simp: exclusive_def list_ex_iff list_all_iff distinct_map_filter)
qed

lemma queue_ok_Nil [simp]: "queue_ok []"
  by (simp add: queue_ok_def exclusive_def)

lemma queue_ok_filter: "queue_ok es \<Longrightarrow> queue_ok (filter P es)"
  by (auto simp: queue_ok_def exclusive_filter distinct_map_filter list_all_iff)

lemma exclusive_cong:
  "map q_target es' = map q_target es \<Longrightarrow> map q_mapKey es' = map q_mapKey es \<Longrightarrow> exclusive es' = exclusive es"
proof -
  assume targets: "map q_target es' = map q_target es" and keys: "map q_mapKey es' = map q_mapKey es"
  have bg: "list_ex (\<lambda>e. q_target e = Battlegroup) xs = (Battlegroup \<in> set (map q_target xs))" for xs
    by (induction xs) auto
  have key: "list_all (\<lambda>e. q_mapKey e \<noteq> []) xs = ([] \<notin> set (map q_mapKey xs))" for xs
    by (induction xs) auto
  have "length es' = length es" using targets by (metis length_map)
  then show ?thesis using targets keys by (simp add: exclusive_def bg key)
qed

lemma queue_ok_update:
  assumes "queue_ok es" and "\<And>e. normal_entry e \<Longrightarrow> normal_entry (f e)" and "\<And>e. q_id (f e) = q_id e"
    and "\<And>e. q_target (f e) = q_target e" and "\<And>e. q_mapKey (f e) = q_mapKey e"
  shows "queue_ok (update_entry i f es)"
proof -
  have "exclusive (update_entry i f es) = exclusive es"
    by (rule exclusive_cong) (simp_all add: update_entry_map assms(4,5))
  moreover have "list_all normal_entry (update_entry i f es)"
    by (rule update_entry_all) (use assms(1,2) in \<open>simp_all add: queue_ok_def\<close>)
  ultimately show ?thesis using assms(1) by (simp add: queue_ok_def update_entry_map assms(3))
qed

lemma mark_fields [simp]: "q_id (mark_restarting e) = q_id e" "q_target (mark_restarting e) = q_target e"
  "q_mapKey (mark_restarting e) = q_mapKey e" "q_status (mark_restarting e) = Restarting"
  by (simp_all add: mark_restarting_def)

lemma record_fields [simp]: "q_id (record_mark m e) = q_id e" "q_target (record_mark m e) = q_target e"
  "q_mapKey (record_mark m e) = q_mapKey e" "q_status (record_mark m e) = q_status e"
  by (simp_all add: record_mark_def)

lemma queue_ok_mark: "queue_ok es \<Longrightarrow> queue_ok (update_entry i mark_restarting es)"
  by (rule queue_ok_update) auto

lemma queue_ok_record: "queue_ok es \<Longrightarrow> queue_ok (update_entry i (record_mark m) es)"
  by (rule queue_ok_update) auto

lemma queue_ok_remove: "queue_ok es \<Longrightarrow> queue_ok (remove_entry i es)"
  by (simp add: remove_entry_def queue_ok_filter)

lemma keep_filter: "keep (recover tm g es) = filter (\<lambda>e. q_status e = Counting
    \<and> (num_lt (Num (of_int tm)) (q_restartAt e) \<or> within_grace tm g e)) es"
  by (induction es) (auto simp: Let_def intro: rq_status.exhaust)

lemma executeNow_filter: "executeNow (recover tm g es) = filter (\<lambda>e. q_status e = Counting
    \<and> \<not> num_lt (Num (of_int tm)) (q_restartAt e) \<and> within_grace tm g e) es"
  by (induction es) (auto simp: Let_def intro: rq_status.exhaust)

lemma trimmedI: "s \<noteq> [] \<Longrightarrow> \<not> is_ws (hd s) \<Longrightarrow> \<not> is_ws (last s) \<Longrightarrow> js_trim s = s"
  by (simp add: js_trim_def trim_left_id hd_rev)

lemma trimmedE: "js_trim s = s \<Longrightarrow> s \<noteq> [] \<Longrightarrow> \<not> is_ws (hd s) \<and> \<not> is_ws (last s)"
  by (metis js_trim_hd js_trim_last)

lemma is_ws_lower [simp]: "is_ws (lower_char c) = is_ws c"
proof (cases "(65 \<le> code c \<and> code c \<le> 90) \<or> (192 \<le> code c \<and> code c \<le> 222 \<and> code c \<noteq> 215)")
  case True
  then have "code (lower_char c) = code c + 32" by (auto simp: lower_char_def code_def of_char_of)
  with True show ?thesis by (auto simp: is_ws_def)
next
  case False
  then show ?thesis by (auto simp: lower_char_def)
qed

lemma js_lower_trimmed: "js_trim s = s \<Longrightarrow> js_trim (js_lower s) = js_lower s"
  by (cases "s = []") (auto simp: js_lower_def js_trim_Nil hd_map last_map dest: trimmedE intro!: trimmedI)

lemma js_lower_Nil_iff: "js_lower s = [] \<longleftrightarrow> s = []"
  by (simp add: js_lower_def)

lemma trimmed_prefix:
  assumes "p \<noteq> []" and "\<not> is_ws (hd p)" and "\<not> is_ws (last p)" and "js_trim s = s"
  shows "js_trim (p @ s) = p @ s"
  using assms trimmedE [of s] by (cases "s = []") (auto intro!: trimmedI)

lemma prefix_letters: "\<not> is_ws (CHR ''p'')" "\<not> is_ws (CHR ''m'')" "\<not> is_ws (CHR ''l'')" "\<not> is_ws (CHR '':'')"
  by code_simp+

lemma restartMapKey_trimmed: "js_trim (restartMapKey payload) = restartMapKey payload"
proof -
  have "js_trim (js_lower (text_or v d) @ '':'' @ text_or v' d') = js_lower (text_or v d) @ '':'' @ text_or v' d'"
    if "js_lower (text_or v d) \<noteq> []" for v v' d d'
    using trimmed_prefix [of "js_lower (text_or v d) @ '':''" "text_or v' d'"] that
      trimmedE [of "js_lower (text_or v d)"] by (auto simp: js_lower_trimmed prefix_letters)
  then show ?thesis
    by (auto simp: restartMapKey_def Let_def prefix_letters js_lower_trimmed intro: trimmed_prefix [of "''partition:''", simplified]
        trimmed_prefix [of "''map:''", simplified] trimmed_prefix [of "''label:''", simplified])
qed

lemma restartMapKey_nonempty: "restartMapKey payload \<noteq> []"
  by (simp add: restartMapKey_def Let_def)

lemma fixed_keys: "js_trim ''overmap:2'' = ''overmap:2''" "js_trim ''survival_1:1'' = ''survival_1:1''"
  "js_trim ''survival_1'' = ''survival_1''"
  by code_simp+

lemma classified_key:
  "classifyRestart operation payload = Some cl \<Longrightarrow> js_trim (k_mapKey cl) = k_mapKey cl \<and> (k_target cl \<noteq> Battlegroup \<longrightarrow> k_mapKey cl \<noteq> [])"
  by (auto simp: classifyRestart_def classify_service_def classify_map_def battlegroup_class_def Let_def restartMapKey_trimmed
      restartMapKey_nonempty fixed_keys js_trim_Nil split: if_splits)

lemma new_entry_fields:
  assumes "new_entry to_iso uuid cl type operation payload minutes tm = Some e" and "uuid \<noteq> []" and "js_trim uuid = uuid"
    and "js_trim (k_mapKey cl) = k_mapKey cl"
  shows "q_id e = uuid \<and> q_target e = k_target cl \<and> q_mapKey e = (if k_target cl = Battlegroup then [] else k_mapKey cl)
    \<and> q_status e = Counting \<and> q_sent e = [] \<and> normal_entry e"
proof -
  have fields: "q_id e = uuid \<and> q_target e = k_target cl \<and> q_mapKey e = (if k_target cl = Battlegroup then [] else k_mapKey cl)
    \<and> q_status e = Counting \<and> q_sent e = [] \<and> is_finite (q_restartAt e)"
    using assms by (auto simp: new_entry_def normalizeEntry_def Let_def text_or_same or_text_def target_back number_or_0_def
        int_marks_def num_of_int_def split: if_splits)
  moreover have "normal_entry e"
    by (rule normalize_gives_normal [where uuid = uuid])
      (use assms fields in \<open>simp_all add: new_entry_def Let_def\<close>)
  ultimately show ?thesis by simp
qed

section \<open>Every reachable queue is well formed\<close>

definition world_ok :: "rq_world \<Rightarrow> bool" where
  "world_ok w = (queue_ok (w_queue w) \<and> set (map q_id (w_queue w)) \<subseteq> set (w_issued w))"

lemma ids_update [simp]: "map q_id (update_entry i mark_restarting es) = map q_id es"
  "map q_id (update_entry i (record_mark m) es) = map q_id es"
  by (simp_all add: update_entry_map)

lemma ids_remove: "set (map q_id (remove_entry i es)) = set (map q_id es) - {i}"
  by (auto simp: remove_entry_def)

lemma world_ok_execute: "world_ok w \<Longrightarrow> world_ok (executeRestartEntry ending e w)"
  by (cases ending) (auto simp: world_ok_def executeRestartEntry_def Let_def queue_ok_mark queue_ok_remove ids_remove
      simp del: set_map)

lemma world_ok_execute_all: "world_ok w \<Longrightarrow> world_ok (execute_all endings es w)"
  by (induction es arbitrary: w) (auto simp: Let_def world_ok_execute)

lemma world_ok_tick [simp]: "world_ok (w\<lparr>w_tick := t\<rparr>) = world_ok w"
  by (simp add: world_ok_def)

lemma world_ok_cancel: "world_ok w \<Longrightarrow> world_ok (restartQueueCancelRoute i w)"
  by (auto simp: world_ok_def restartQueueCancelRoute_def queue_ok_remove ids_remove simp del: set_map)

lemma world_ok_recover: "world_ok w \<Longrightarrow> world_ok (recoverRestartQueue tm g endings w)"
  unfolding recoverRestartQueue_def Let_def
  by (rule world_ok_execute_all) (auto simp: world_ok_def keep_filter queue_ok_filter)

lemma exclusive_append:
  assumes "exclusive es" and "canQueue es (q_target e) (q_mapKey e)" and "q_target e \<noteq> Battlegroup \<longrightarrow> q_mapKey e \<noteq> []"
  shows "exclusive (es @ [e])"
  using assms by (auto simp: exclusive_def canQueue_def Let_def list_ex_iff list_all_iff split: if_splits)

lemma world_ok_enqueue:
  assumes "enqueue to_iso uuid cl type operation payload minutes tm w = Some w'" and "world_ok w"
  shows "world_ok w'"
proof -
  obtain e where e: "new_entry to_iso uuid cl type operation payload minutes tm = Some e"
    and w': "w' = w\<lparr>w_queue := w_queue w @ [e], w_issued := uuid # w_issued w\<rparr>"
    and fresh: "uuid \<noteq> []" "js_trim uuid = uuid" "uuid \<notin> set (w_issued w)"
    and cl: "classifyRestart operation payload = Some cl" and can: "canQueue (w_queue w) (k_target cl) (k_mapKey cl)"
    using assms(1) by (auto simp: enqueue_def split: if_splits option.splits)
  note key = classified_key [OF cl]
  have fields: "q_id e = uuid" "q_target e = k_target cl" "normal_entry e"
    "q_mapKey e = (if k_target cl = Battlegroup then [] else k_mapKey cl)"
    using new_entry_fields [OF e fresh(1,2)] key by auto
  have "canQueue (w_queue w) (q_target e) (q_mapKey e)" using can fields by (auto simp: canQueue_def Let_def)
  moreover have "exclusive (w_queue w)" using assms(2) by (simp add: world_ok_def queue_ok_def)
  ultimately have "exclusive (w_queue w @ [e])" using exclusive_append key fields by simp
  then show ?thesis using assms(2) fresh fields by (auto simp: world_ok_def queue_ok_def w')
qed



section \<open>At most one dispatch\<close>

text \<open>
  Requests that act on an entry come while no tick is under way, and an immediate restart is asked for entries that
  are still counting.
\<close>

definition calm :: "rq_event \<Rightarrow> rq_world \<Rightarrow> bool" where
  "calm ev w = (case ev of Cancel i \<Rightarrow> w_tick w = Idle
     | RestartNow i ending \<Rightarrow> w_tick w = Idle \<and> list_all (\<lambda>e. q_id e = i \<longrightarrow> q_status e = Counting) (w_queue w)
     | _ \<Rightarrow> True)"

definition ids :: "rq_entry list \<Rightarrow> string set" where
  "ids es = set (map q_id es)"

fun pending :: "rq_tick \<Rightarrow> rq_entry list" where
  "pending Idle = []"
| "pending (Entries tm checkpoints bg es) = es"
| "pending (Warnings tm checkpoints bg e marks es) = e # es"

definition once :: "rq_world \<Rightarrow> bool" where
  "once w = (distinct (map q_id (w_dispatched w)) \<and> ids (w_dispatched w) \<subseteq> set (w_issued w)
     \<and> set (w_cancelled w) \<subseteq> set (w_issued w) \<and> set (w_cancelled w) \<inter> ids (w_queue w) = {}
     \<and> (\<forall>e \<in> set (w_queue w). q_id e \<in> ids (w_dispatched w) \<longrightarrow> q_status e = Restarting))"

text \<open>What a tick under way still holds: entries neither dispatched, if they count, nor cancelled.\<close>

fun warned_counts :: "rq_tick \<Rightarrow> bool" where
  "warned_counts (Warnings tm checkpoints bg e marks es) = (q_status e = Counting)"
| "warned_counts tick = True"

definition held_ok :: "rq_entry list \<Rightarrow> rq_world \<Rightarrow> bool" where
  "held_ok es w = (distinct (map q_id es) \<and> ids es \<subseteq> set (w_issued w) \<and> ids es \<inter> set (w_cancelled w) = {}
     \<and> (\<forall>e \<in> set es. q_status e = Counting \<longrightarrow> q_id e \<notin> ids (w_dispatched w)))"

definition snapshot_ok :: "rq_world \<Rightarrow> bool" where
  "snapshot_ok w = (w_down w \<or> held_ok (pending (w_tick w)) w \<and> warned_counts (w_tick w))"

lemma ids_list [simp]: "ids [] = {}" "ids (e # es) = insert (q_id e) (ids es)" "ids (es @ fs) = ids es \<union> ids fs"
  by (auto simp: ids_def)

lemma ids_queue [simp]: "ids (remove_entry i es) = ids es - {i}" "ids (update_entry i mark_restarting es) = ids es"
  "ids (update_entry i (record_mark m) es) = ids es"
  unfolding ids_def ids_update by (simp_all only: ids_remove)

lemma ids_in: "e \<in> set es \<Longrightarrow> q_id e \<in> ids es"
  by (simp add: ids_def)

lemma marked_or_old: "f \<in> set (update_entry i mark_restarting es) \<Longrightarrow> f \<in> set es \<or> q_status f = Restarting"
  by (induction es) (auto split: if_splits)

lemma recorded_old:
  "f \<in> set (update_entry i (record_mark m) es) \<Longrightarrow> \<exists>g \<in> set es. q_id g = q_id f \<and> q_status g = q_status f"
  by (induction es) (auto simp: record_mark_def split: if_splits)

lemma marked_status:
  "distinct (map q_id es) \<Longrightarrow> e \<in> set (update_entry i mark_restarting es) \<Longrightarrow> q_id e = i \<Longrightarrow> q_status e = Restarting"
proof (induction es)
  case (Cons a es)
  show ?case
  proof (cases "q_id a = i")
    case True
    then have "e = mark_restarting a \<or> e \<in> set es" using Cons.prems(2) by simp
    moreover have "e \<notin> set es" using Cons.prems True by auto
    ultimately show ?thesis by simp
  next
    case False
    then show ?thesis using Cons by auto
  qed
qed simp

lemma once_execute:
  assumes "once w" and "world_ok w" and new: "q_id e \<notin> ids (w_dispatched w)" and "q_id e \<in> set (w_issued w)"
  shows "once (executeRestartEntry ending e w)"
proof -
  have dist: "distinct (map q_id (w_queue w))" using assms(2) by (simp add: world_ok_def queue_ok_def)
  have o: "distinct (map q_id (w_dispatched w))" "ids (w_dispatched w) \<subseteq> set (w_issued w)"
    "set (w_cancelled w) \<subseteq> set (w_issued w)" "set (w_cancelled w) \<inter> ids (w_queue w) = {}"
    "\<forall>f \<in> set (w_queue w). q_id f \<in> ids (w_dispatched w) \<longrightarrow> q_status f = Restarting"
    using assms(1) by (simp_all add: once_def)
  have grown: "distinct (map q_id (w_dispatched w @ [e]))" using o(1) new by (simp add: ids_def)
  have marked: "q_status f = Restarting"
    if "f \<in> set (update_entry (q_id e) mark_restarting (w_queue w))" and "q_id f = q_id e \<or> q_id f \<in> ids (w_dispatched w)" for f
    using marked_or_old [OF that(1)] marked_status [OF dist that(1)] that(2) o(5) by blast
  have removed: "f \<in> set (update_entry (q_id e) mark_restarting (w_queue w)) \<and> q_id f \<noteq> q_id e"
    if "f \<in> set (remove_entry (q_id e) (update_entry (q_id e) mark_restarting (w_queue w)))" for f
    using that by (simp add: remove_entry_def)
  show ?thesis
    using o grown assms(4) marked removed assms(1)
    by (cases ending; simp add: once_def executeRestartEntry_def Let_def; blast)
qed

lemma execute_simps [simp]: "w_tick (executeRestartEntry ending e w) = w_tick w"
  "w_issued (executeRestartEntry ending e w) = w_issued w" "w_cancelled (executeRestartEntry ending e w) = w_cancelled w"
  by (cases ending; simp add: executeRestartEntry_def Let_def)+

lemma execute_dispatched:
  "\<exists>new. w_dispatched (executeRestartEntry ending e w) = w_dispatched w @ new \<and> set new \<subseteq> {e}"
  by (cases ending) (auto simp: executeRestartEntry_def Let_def)

lemma held_execute:
  assumes "held_ok (e # es) w"
  shows "held_ok es (executeRestartEntry ending e w)"
proof -
  obtain new where new: "w_dispatched (executeRestartEntry ending e w) = w_dispatched w @ new" "set new \<subseteq> {e}"
    using execute_dispatched by blast
  have "ids new \<subseteq> {q_id e}" using new(2) by (auto simp: ids_def)
  moreover have "q_id e \<notin> ids es" using assms by (simp add: held_ok_def ids_def)
  ultimately have "q_id g \<notin> ids new" if "g \<in> set es" for g using ids_in [OF that] by auto
  then show ?thesis using assms new(1) by (auto simp: held_ok_def)
qed

text \<open>Entries none of which is dispatched yet.\<close>

definition undispatched :: "rq_entry list \<Rightarrow> rq_world \<Rightarrow> bool" where
  "undispatched es w = (held_ok es w \<and> (\<forall>e \<in> set es. q_status e = Counting))"

lemma once_execute_all:
  "once w \<Longrightarrow> world_ok w \<Longrightarrow> undispatched es w \<Longrightarrow> once (execute_all endings es w)"
proof (induction es arbitrary: w)
  case (Cons e es)
  let ?w = "executeRestartEntry (endings (q_id e)) e w"
  have "once ?w" using Cons.prems by (intro once_execute) (auto simp: undispatched_def held_ok_def)
  moreover have "undispatched es ?w"
    using Cons.prems held_execute [of e es w "endings (q_id e)"] by (simp add: undispatched_def)
  ultimately show ?case using Cons.IH [of ?w] Cons.prems by (simp add: Let_def world_ok_execute)
qed simp

lemma execute_all_dispatched:
  "\<exists>new. w_dispatched (execute_all endings es w) = w_dispatched w @ new \<and> set new \<subseteq> set es"
proof (induction es arbitrary: w)
  case (Cons e es)
  let ?w = "executeRestartEntry (endings (q_id e)) e w"
  obtain a where a: "w_dispatched ?w = w_dispatched w @ a" "set a \<subseteq> {e}" using execute_dispatched by blast
  obtain b where "w_dispatched (execute_all endings es ?w) = w_dispatched ?w @ b" "set b \<subseteq> set es" using Cons.IH by blast
  then show ?case using a by (auto simp: Let_def)
qed simp

definition good :: "rq_world \<Rightarrow> bool" where
  "good w = (world_ok w \<and> once w \<and> snapshot_ok w)"

lemma once_tick [simp]: "once (w\<lparr>w_tick := t\<rparr>) = once w"
  by (simp add: once_def)

lemma held_cong:
  assumes "held_ok es w" and "w_dispatched v = w_dispatched w" and "w_cancelled v = w_cancelled w" and "w_issued v = w_issued w"
  shows "held_ok es v"
  using assms by (simp add: held_ok_def)

lemma held_tail: "held_ok (e # es) w \<Longrightarrow> held_ok es w"
  by (simp add: held_ok_def)

lemma good_enqueue:
  assumes "enqueue to_iso uuid cl type operation payload minutes tm w = Some w'" and "good w"
  shows "good w'"
proof -
  obtain e where e: "new_entry to_iso uuid cl type operation payload minutes tm = Some e"
    and w': "w' = w\<lparr>w_queue := w_queue w @ [e], w_issued := uuid # w_issued w\<rparr>"
    and fresh: "uuid \<noteq> []" "js_trim uuid = uuid" "uuid \<notin> set (w_issued w)"
    and cl: "classifyRestart operation payload = Some cl"
    using assms(1) by (auto simp: enqueue_def split: if_splits option.splits)
  have "q_id e = uuid" using new_entry_fields [OF e fresh(1,2)] classified_key [OF cl] by simp
  then have "once w'" using assms(2) fresh(3) by (auto simp: once_def good_def w')
  moreover have "snapshot_ok w'" using assms(2) by (auto simp: good_def snapshot_ok_def held_ok_def w')
  ultimately show ?thesis using assms(2) world_ok_enqueue [OF assms(1)] by (simp add: good_def)
qed

text \<open>An entry that a tick, an immediate restart or a boot may execute, and what its execution keeps.\<close>

lemma good_execute:
  assumes "good w" and "held_ok (e # es) w" and "q_status e = Counting" and "pending t = es" and "warned_counts t"
  shows "good ((executeRestartEntry ending e w)\<lparr>w_tick := t\<rparr>)"
proof -
  have "once (executeRestartEntry ending e w)"
    using assms by (intro once_execute) (auto simp: good_def held_ok_def)
  moreover have "held_ok es (executeRestartEntry ending e w)" by (rule held_execute [OF assms(2)])
  then have "held_ok es ((executeRestartEntry ending e w)\<lparr>w_tick := t\<rparr>)" by (rule held_cong) simp_all
  ultimately show ?thesis
    using assms by (simp add: good_def world_ok_execute snapshot_ok_def)
qed

lemma good_tick_entry: "tick_entry scoped ending w = Some w' \<Longrightarrow> good w \<Longrightarrow> \<not> w_down w \<Longrightarrow> good w'"
proof (cases "w_tick w")
  fix tm checkpoints bg es0
  assume step: "tick_entry scoped ending w = Some w'" and good: "good w" and up: "\<not> w_down w"
    and tick: "w_tick w = Entries tm checkpoints bg es0"
  then obtain e es where es: "es0 = e # es" by (cases es0) (auto simp: tick_entry_def)
  have held: "held_ok (e # es) w" using good up by (simp add: good_def snapshot_ok_def tick es)
  have same: "good (w\<lparr>w_tick := t\<rparr>)" if "held_ok (pending t) w" "warned_counts t" for t
    using good that held_cong [OF that(1), of "w\<lparr>w_tick := t\<rparr>"] by (simp add: good_def snapshot_ok_def)
  show ?thesis
    using step good_execute [OF good held] same held held_tail [OF held]
    by (auto simp: tick_entry_def tick es split: if_splits)
qed (auto simp: tick_entry_def)

lemma good_tick_deadline: "tick_deadline tm' ending w = Some w' \<Longrightarrow> good w \<Longrightarrow> \<not> w_down w \<Longrightarrow> good w'"
proof (cases "w_tick w")
  fix tm checkpoints bg e marks es
  assume step: "tick_deadline tm' ending w = Some w'" and good: "good w" and up: "\<not> w_down w"
    and tick: "w_tick w = Warnings tm checkpoints bg e marks es"
  have held: "held_ok (e # es) w" "q_status e = Counting" using good up by (simp_all add: good_def snapshot_ok_def tick)
  have "good (w\<lparr>w_tick := Entries tm checkpoints bg es\<rparr>)"
    using good held_cong [OF held_tail [OF held(1)], of "w\<lparr>w_tick := Entries tm checkpoints bg es\<rparr>"]
    by (simp add: good_def snapshot_ok_def)
  then show ?thesis
    using step good_execute [OF good held, of "Entries tm checkpoints bg es"]
    by (auto simp: tick_deadline_def tick split: if_splits list.splits)
qed (auto simp: tick_deadline_def)

lemma recovered_undispatched:
  assumes "once w" and "world_ok w"
  shows "undispatched (executeNow (recover tm g (w_queue w))) w"
proof -
  have "distinct (map q_id (executeNow (recover tm g (w_queue w))))"
    using assms(2) by (simp add: executeNow_filter world_ok_def queue_ok_def distinct_map_filter)
  moreover have "ids (executeNow (recover tm g (w_queue w))) \<subseteq> ids (w_queue w)" by (auto simp: executeNow_filter ids_def)
  moreover have "ids (w_queue w) \<subseteq> set (w_issued w)" using assms(2) by (simp add: world_ok_def ids_def)
  ultimately show ?thesis
    using assms(1) by (auto simp: undispatched_def held_ok_def once_def executeNow_filter)
qed

lemma once_recover:
  assumes "once w" and "world_ok w"
  shows "once (recoverRestartQueue tm g endings w)"
proof -
  let ?w = "w\<lparr>w_queue := keep (recover tm g (w_queue w)), w_tick := Idle, w_last_run := 0, w_down := False\<rparr>"
  have "ids (w_queue ?w) \<subseteq> ids (w_queue w)" by (auto simp: keep_filter ids_def)
  moreover have "q_status f = Restarting" if "f \<in> set (w_queue ?w)" "q_id f \<in> ids (w_dispatched w)" for f
    using assms(1) that by (auto simp: once_def keep_filter)
  ultimately have "once ?w" using assms(1) by (auto simp: once_def)
  moreover have "world_ok ?w" using assms(2) by (auto simp: world_ok_def keep_filter queue_ok_filter)
  moreover have "undispatched (executeNow (recover tm g (w_queue w))) ?w"
    using recovered_undispatched [OF assms, of tm g] by (simp add: undispatched_def held_ok_def)
  ultimately show ?thesis by (simp add: recoverRestartQueue_def Let_def once_execute_all)
qed

lemma execute_all_tick [simp]: "w_tick (execute_all endings es w) = w_tick w"
  by (induction es arbitrary: w) (auto simp: Let_def)

lemma snapshot_recover: "snapshot_ok (recoverRestartQueue tm g endings w)"
  by (simp add: snapshot_ok_def held_ok_def recoverRestartQueue_def Let_def)

lemma world_ok_alt: "world_ok w = (queue_ok (w_queue w) \<and> ids (w_queue w) \<subseteq> set (w_issued w))"
  by (simp add: world_ok_def ids_def)

lemma good_down: "good w \<Longrightarrow> good (w\<lparr>w_down := True\<rparr>)"
  by (auto simp: good_def world_ok_def once_def snapshot_ok_def)

lemma good_lost: "good w \<Longrightarrow> good (w\<lparr>w_queue := []\<rparr>)"
  by (auto simp: good_def world_ok_def queue_ok_def exclusive_def once_def snapshot_ok_def held_ok_def)

lemma queued_held:
  assumes "good w" and "e \<in> set (w_queue w)" and "q_status e = Counting"
  shows "held_ok [e] w"
  using assms ids_in [OF assms(2)] by (auto simp: good_def world_ok_alt once_def held_ok_def)

lemma good_restart_now:
  assumes "good w" and "calm (RestartNow i ending) w"
  shows "good (restartQueueRestartNowRoute i ending w)"
proof (cases "find (\<lambda>e. q_id e = i) (w_queue w)")
  case None
  then show ?thesis using assms by (simp add: restartQueueRestartNowRoute_def)
next
  case (Some e)
  have e: "e \<in> set (w_queue w)" "q_id e = i" using find_in_set [OF Some] by auto
  then have c: "q_status e = Counting" "w_tick w = Idle" using assms(2) by (auto simp: calm_def list_all_iff)
  have "good ((executeRestartEntry ending e w)\<lparr>w_tick := Idle\<rparr>)"
    using good_execute [OF assms(1) queued_held [OF assms(1) e(1) c(1)] c(1), of Idle] by simp
  moreover have "(executeRestartEntry ending e w)\<lparr>w_tick := Idle\<rparr> = executeRestartEntry ending e w" using c(2) by simp
  ultimately show ?thesis using Some by (simp add: restartQueueRestartNowRoute_def)
qed

lemma good_cancel:
  assumes "good w" and "w_tick w = Idle"
  shows "good (restartQueueCancelRoute i w)"
proof -
  have sub: "ids (w_queue w) \<subseteq> set (w_issued w)" using assms by (simp add: good_def world_ok_alt)
  have "restartQueueCancelRoute i w = w\<lparr>w_queue := remove_entry i (w_queue w),
      w_cancelled := (if i \<in> ids (w_queue w) then i # w_cancelled w else w_cancelled w)\<rparr>"
    by (simp add: restartQueueCancelRoute_def ids_def)
  moreover have "once w" using assms(1) by (simp add: good_def)
  ultimately have "once (restartQueueCancelRoute i w)"
    using sub by (cases "i \<in> ids (w_queue w)") (auto simp: once_def remove_entry_def ids_def)
  then show ?thesis
    using assms world_ok_cancel [of w i] by (simp add: good_def snapshot_ok_def held_ok_def restartQueueCancelRoute_def)
qed

lemma last_run_simps [simp]: "world_ok (w\<lparr>w_tick := t, w_last_run := tm\<rparr>) = world_ok w"
  "once (w\<lparr>w_tick := t, w_last_run := tm\<rparr>) = once w"
  by (simp_all add: world_ok_def once_def)

lemma queue_held:
  assumes "good w"
  shows "held_ok (w_queue w) w"
  using assms by (auto simp: good_def world_ok_alt queue_ok_def once_def held_ok_def)

lemma good_tick_start:
  assumes "tick_start tm bg checkpoints w = Some w'" and "good w"
  shows "good w'"
proof -
  obtain online where w': "w' = w\<lparr>w_tick := Entries tm checkpoints online (w_queue w), w_last_run := tm\<rparr>"
    using assms(1) by (auto simp: tick_start_def split: if_splits)
  have "held_ok (w_queue w) w'" by (rule held_cong [OF queue_held [OF assms(2)]]) (simp_all add: w')
  then show ?thesis using assms(2) by (simp add: w' good_def snapshot_ok_def)
qed

lemma good_tick_warn: "tick_warn sent w = Some w' \<Longrightarrow> good w \<Longrightarrow> \<not> w_down w \<Longrightarrow> good w'"
proof (cases "w_tick w")
  fix tm checkpoints bg e marks0 es
  assume step: "tick_warn sent w = Some w'" and good: "good w" and up: "\<not> w_down w"
    and tick: "w_tick w = Warnings tm checkpoints bg e marks0 es"
  then obtain mark marks where marks: "marks0 = mark # marks" by (cases marks0) (auto simp: tick_warn_def)
  define q where "q = (if sent then update_entry (q_id e) (record_mark mark) (w_queue w) else w_queue w)"
  have w': "w' = w\<lparr>w_queue := q, w_tick := Warnings tm checkpoints bg e marks es\<rparr>"
    using step by (simp add: tick_warn_def tick marks q_def)
  have q: "queue_ok q" "ids q = ids (w_queue w)"
    using good by (auto simp: q_def good_def world_ok_def queue_ok_record)
  have "\<exists>g \<in> set (w_queue w). q_id g = q_id f \<and> q_status g = q_status f" if "f \<in> set q" for f
    using that recorded_old by (auto simp: q_def split: if_splits)
  then have "q_status f = Restarting" if "f \<in> set q" "q_id f \<in> ids (w_dispatched w)" for f
    using that good by (metis good_def once_def)
  then have "once w'" using good q(2) by (simp add: w' once_def good_def)
  moreover have "world_ok w'" using good q by (simp add: w' world_ok_alt good_def)
  moreover have "held_ok (e # es) w" "q_status e = Counting" using good up by (simp_all add: good_def snapshot_ok_def tick)
  then have "snapshot_ok w'" using held_cong [of "e # es" w w'] by (simp add: w' snapshot_ok_def)
  ultimately show ?thesis by (simp add: good_def)
qed (auto simp: tick_warn_def)

lemma good_step:
  assumes "rq_step to_iso ev w = Some w'" and "calm ev w" and "good w"
  shows "good w'"
proof (cases "w_down w")
  case True
  then show ?thesis
    using assms good_lost [OF assms(3)]
    by (cases ev) (auto simp: rq_step_def good_def once_recover world_ok_recover snapshot_recover)
next
  case False
  note good = assms(3)
  have ended: "good v" if "tick_end w = Some v" for v
    using that good by (auto simp: tick_end_def good_def snapshot_ok_def held_ok_def split: rq_tick.splits list.splits)
  show ?thesis
    using assms(1,2) False good_down [OF good] good_lost [OF good] good_cancel [OF good] good_restart_now [OF good] ended
      good_tick_entry [OF _ good False] good_tick_deadline [OF _ good False] good_tick_warn [OF _ good False]
      good_tick_start [OF _ good] good_enqueue [OF _ good]
    by (cases ev) (simp_all add: rq_step_def, auto simp: calm_def)
qed

lemma reach_good: "rq_reach to_iso calm w \<Longrightarrow> good w"
proof (induction rule: rq_reach.induct)
  case start
  show ?case by (simp add: good_def world_ok_def once_def snapshot_ok_def held_ok_def rq_init_def queue_ok_def exclusive_def)
next
  case (step w ev w')
  then show ?case using good_step by blast
qed


text \<open>What one step dispatches: entries none of which was cancelled before.\<close>

lemma executed_not_cancelled:
  assumes "held_ok (e # es) w"
  shows "\<exists>new. w_dispatched (executeRestartEntry ending e w) = w_dispatched w @ new \<and> ids new \<inter> set (w_cancelled w) = {}"
proof -
  obtain new where new: "w_dispatched (executeRestartEntry ending e w) = w_dispatched w @ new" "set new \<subseteq> {e}"
    using execute_dispatched by blast
  then have "ids new \<subseteq> {q_id e}" by (auto simp: ids_def)
  then show ?thesis using new(1) assms by (intro exI [of _ new]) (auto simp: held_ok_def)
qed

lemma recovered_not_cancelled:
  assumes "good w"
  shows "\<exists>new. w_dispatched (recoverRestartQueue tm g endings w) = w_dispatched w @ new \<and> ids new \<inter> set (w_cancelled w) = {}"
proof -
  let ?now = "executeNow (recover tm g (w_queue w))"
  let ?w = "w\<lparr>w_queue := keep (recover tm g (w_queue w)), w_tick := Idle, w_last_run := 0, w_down := False\<rparr>"
  obtain new where new: "w_dispatched (execute_all endings ?now ?w) = w_dispatched ?w @ new" "set new \<subseteq> set ?now"
    using execute_all_dispatched by blast
  have "ids new \<subseteq> ids ?now" using new(2) by (auto simp: ids_def)
  then have "ids new \<inter> set (w_cancelled w) = {}"
    using recovered_undispatched [of w tm g] assms by (auto simp: good_def undispatched_def held_ok_def)
  then show ?thesis using new(1) by (auto simp: recoverRestartQueue_def Let_def)
qed

lemma step_not_cancelled:
  assumes "rq_step to_iso ev w = Some w'" and "calm ev w" and "good w"
  shows "\<exists>new. w_dispatched w' = w_dispatched w @ new \<and> ids new \<inter> set (w_cancelled w) = {}"
proof (cases ev)
  case (Boot tm g endings)
  then show ?thesis using assms recovered_not_cancelled [OF assms(3)] by (auto simp: rq_step_def split: if_splits)
next
  case (RestartNow i ending)
  show ?thesis
  proof (cases "find (\<lambda>e. q_id e = i) (w_queue w)")
    case None
    then show ?thesis using assms(1) RestartNow by (auto simp: rq_step_def restartQueueRestartNowRoute_def split: if_splits)
  next
    case (Some e)
    have "e \<in> set (w_queue w)" "q_id e = i" using find_in_set [OF Some] by auto
    then have "held_ok [e] w" using assms(2) RestartNow by (intro queued_held [OF assms(3)]) (auto simp: calm_def list_all_iff)
    from executed_not_cancelled [OF this, of ending] show ?thesis
      using assms(1) RestartNow Some by (auto simp: rq_step_def restartQueueRestartNowRoute_def split: if_splits)
  qed
next
  case (TickEntry scoped ending)
  then obtain tm checkpoints bg e es where tick: "w_tick w = Entries tm checkpoints bg (e # es)" and up: "\<not> w_down w"
    using assms(1) by (auto simp: rq_step_def tick_entry_def split: rq_tick.splits list.splits if_splits)
  have "held_ok (e # es) w" using assms(3) up by (simp add: good_def snapshot_ok_def tick)
  from executed_not_cancelled [OF this, of ending] show ?thesis
    using assms(1) TickEntry up by (auto simp: rq_step_def tick_entry_def tick split: if_splits)
next
  case (TickDeadline tm' ending)
  then obtain tm checkpoints bg e es where tick: "w_tick w = Warnings tm checkpoints bg e [] es" and up: "\<not> w_down w"
    using assms(1) by (auto simp: rq_step_def tick_deadline_def split: rq_tick.splits list.splits if_splits)
  have "held_ok (e # es) w" using assms(3) up by (simp add: good_def snapshot_ok_def tick)
  from executed_not_cancelled [OF this, of ending] show ?thesis
    using assms(1) TickDeadline up by (auto simp: rq_step_def tick_deadline_def tick split: if_splits)
qed (use assms(1) in \<open>auto simp: rq_step_def restartQueueCancelRoute_def tick_start_def tick_warn_def tick_end_def enqueue_def
      split: if_splits option.splits rq_tick.splits list.splits\<close>)

text \<open>
  C8. While cancellations and immediate restarts come between ticks, and immediate restarts only for entries that are
  still counting, no queued restart is dispatched twice, and a step dispatches none that was cancelled before it:
  also when the process stops between the marker, the dispatch and the removal, and when writes of the queue's file
  fail and leave it as it was or unreadable.
\<close>

theorem dispatched_at_most_once:
  assumes "rq_reach to_iso calm w"
  shows "distinct (map q_id (w_dispatched w))
    \<and> (calm ev w \<and> rq_step to_iso ev w = Some w' \<longrightarrow>
        (\<exists>new. w_dispatched w' = w_dispatched w @ new \<and> set (map q_id new) \<inter> set (w_cancelled w) = {}))"
  using reach_good [OF assms] step_not_cancelled [of to_iso ev w w'] by (auto simp: good_def once_def ids_def)

text \<open>
  Outside that condition a restart can be dispatched again: when the removal of its entry fails, the entry stays, marked,
  and an immediate restart, which does not look at the marker, dispatches it a second time.
\<close>

theorem leftover_dispatched_again:
  assumes "find (\<lambda>e. q_id e = i) (w_queue w) = Some e" and "\<not> w_down w"
  shows "map_option w_dispatched (rq_run to_iso [RestartNow i RemoveThrows, RestartNow i Completes] w)
    = Some (w_dispatched w @ [e, mark_restarting e])"
proof -
  have "find (\<lambda>e. q_id e = i) es = Some e \<Longrightarrow>
      find (\<lambda>e. q_id e = i) (update_entry i mark_restarting es) = Some (mark_restarting e)" for es
    by (induction es) (auto split: if_splits)
  moreover have "q_id e = i" using find_in_set [OF assms(1)] by simp
  ultimately show ?thesis
    using assms by (simp add: rq_step_def restartQueueRestartNowRoute_def executeRestartEntry_def Let_def)
qed

section \<open>Examples of worlds\<close>

definition example_iso :: "int \<Rightarrow> string" where
  "example_iso tm = ''2025''"

definition example_class :: restart_class where
  "example_class = \<lparr>k_target = MapTarget, k_mapKey = ''map:arrakeen'', k_mapLabel = ''Arrakeen'', k_partition = 0, k_map = ''Arrakeen''\<rparr>"

definition example_payload :: jsval where
  "example_payload = Obj [(''map'', Str ''Arrakeen'')]"

definition example_entry :: rq_entry where
  "example_entry = \<lparr>q_id = ''a'', q_status = Counting, q_target = MapTarget, q_type = ''server'', q_operation = ''mapsRespawn'',
     q_payload = example_payload, q_mapKey = ''map:arrakeen'', q_mapLabel = ''Arrakeen'', q_partition = 0, q_map = ''Arrakeen'',
     q_startedAt = ''2025'', q_restartAt = Num 900000, q_minutes = 15, q_sent = [], q_requestedBy = ''web-admin''\<rparr>"

definition example_request :: rq_event where
  "example_request = Enqueue ''a'' example_class ''server'' ''mapsRespawn'' example_payload 15 0"

definition queued_world :: rq_world where
  "queued_world = rq_init\<lparr>w_queue := [example_entry], w_issued := [''a'']\<rparr>"

definition ticking_world :: rq_world where
  "ticking_world = queued_world\<lparr>w_tick := Entries 10000 [15] (Some 1) [example_entry], w_last_run := 10000\<rparr>"

definition cancelled_world :: rq_world where
  "cancelled_world = queued_world\<lparr>w_queue := [], w_cancelled := [''a'']\<rparr>"

lemma example_classified: "classifyRestart ''mapsRespawn'' example_payload = Some example_class"
  by code_simp

lemma example_appended: "new_entry example_iso ''a'' example_class ''server'' ''mapsRespawn'' example_payload 15 0 = Some example_entry"
  by code_simp

lemma example_queued: "rq_step example_iso example_request rq_init = Some queued_world"
  by code_simp

lemma example_ticking: "rq_step example_iso (TickStart 10000 (Online 1) [15]) queued_world = Some ticking_world"
  by code_simp

lemma example_cancelled: "rq_step example_iso (Cancel ''a'') queued_world = Some cancelled_world"
  by code_simp

lemma reach_queued: "rq_reach example_iso calm queued_world"
  by (rule rq_reach.step [OF rq_reach.start _ example_queued]) (simp add: calm_def example_request_def)

lemma reach_ticking: "rq_reach example_iso calm ticking_world"
  by (rule rq_reach.step [OF reach_queued _ example_ticking]) (simp add: calm_def)

lemma reach_cancelled: "rq_reach example_iso calm cancelled_world"
  by (rule rq_reach.step [OF reach_queued _ example_cancelled]) (simp add: calm_def queued_world_def rq_init_def)


theorem dispatched_at_most_once_witness:
  "\<exists>w'. rq_step example_iso (TickEntry (Online 0) StopsDispatched) ticking_world = Some w' \<and> w_down w'
    \<and> (\<exists>new. w_dispatched w' = w_dispatched ticking_world @ new \<and> set (map q_id new) \<inter> set (w_cancelled ticking_world) = {})"
proof -
  obtain w' where w': "rq_step example_iso (TickEntry (Online 0) StopsDispatched) ticking_world = Some w'" "w_down w'"
    by (simp add: rq_step_def tick_entry_def ticking_world_def queued_world_def rq_init_def example_entry_def tick_online_def
        executeRestartEntry_def Let_def)
  have "calm (TickEntry (Online 0) StopsDispatched) ticking_world" by (simp add: calm_def)
  then show ?thesis using dispatched_at_most_once [OF reach_ticking, of "TickEntry (Online 0) StopsDispatched" w'] w' by blast
qed

theorem leftover_dispatched_again_witness:
  "map_option w_dispatched (rq_run example_iso [RestartNow ''a'' RemoveThrows, RestartNow ''a'' Completes] queued_world)
    = Some [example_entry, mark_restarting example_entry]"
  using leftover_dispatched_again [of "''a''" queued_world example_entry example_iso]
  by (simp add: queued_world_def rq_init_def example_entry_def)

section \<open>A request in the middle of a tick\<close>

text \<open>
  C38. The tick executes the entries of the snapshot it read at its start. When an entry is cancelled while
  the tick waits for the online count of its map, and nobody is online there, the restart is dispatched
  although it was cancelled; an entry restarted by hand in that moment is dispatched twice.
\<close>

theorem cancelled_in_tick_still_dispatched:
  assumes "w_tick w = Entries tm checkpoints bg (e # es)" and "\<not> w_down w" and "q_status e = Counting"
    and "q_target e \<noteq> Battlegroup" and "find (\<lambda>f. q_id f = q_id e) (w_queue w) = Some f"
  shows "map_option (\<lambda>w'. (q_id e \<in> set (w_cancelled w'), w_dispatched w'))
      (rq_run to_iso [Cancel (q_id e), TickEntry (Online 0) Completes] w) = Some (True, w_dispatched w @ [e])
    \<and> map_option w_dispatched (rq_run to_iso [RestartNow (q_id e) Completes, TickEntry (Online 0) Completes] w)
      = Some (w_dispatched w @ [f, e])"
proof (rule conjI)
  have "f \<in> set (w_queue w)" "q_id f = q_id e" using find_in_set [OF assms(5)] by auto
  then have "q_id e \<in> q_id ` set (w_queue w)" by (metis imageI)
  then show "map_option (\<lambda>w'. (q_id e \<in> set (w_cancelled w'), w_dispatched w'))
      (rq_run to_iso [Cancel (q_id e), TickEntry (Online 0) Completes] w) = Some (True, w_dispatched w @ [e])"
    using assms(1-4) by (simp add: rq_step_def restartQueueCancelRoute_def tick_entry_def tick_online_def
        executeRestartEntry_def Let_def)
  show "map_option w_dispatched (rq_run to_iso [RestartNow (q_id e) Completes, TickEntry (Online 0) Completes] w)
      = Some (w_dispatched w @ [f, e])"
    using assms by (simp add: rq_step_def restartQueueRestartNowRoute_def tick_entry_def tick_online_def
        executeRestartEntry_def Let_def)
qed

theorem cancelled_in_tick_still_dispatched_witness:
  "map_option (\<lambda>w'. (''a'' \<in> set (w_cancelled w'), w_dispatched w'))
     (rq_run example_iso [example_request, TickStart 10000 (Online 1) [15], Cancel ''a'', TickEntry (Online 0) Completes] rq_init)
   = Some (True, [example_entry])"
proof -
  have "rq_run example_iso [example_request, TickStart 10000 (Online 1) [15], Cancel ''a'', TickEntry (Online 0) Completes] rq_init
      = rq_run example_iso [Cancel ''a'', TickEntry (Online 0) Completes] ticking_world"
    using example_queued example_ticking by simp
  moreover have "q_id example_entry = ''a''" by (simp add: example_entry_def)
  ultimately show ?thesis
    using cancelled_in_tick_still_dispatched [of ticking_world 10000 "[15]" "Some 1" example_entry "[]" example_entry example_iso]
    by (simp add: ticking_world_def queued_world_def rq_init_def example_entry_def)
qed

section \<open>A tick ends, and serves what is due\<close>

definition tick_event :: "rq_event \<Rightarrow> bool" where
  "tick_event ev = (case ev of TickEntry scoped ending \<Rightarrow> True | TickWarn sent \<Rightarrow> True | TickDeadline tm' ending \<Rightarrow> True
     | TickEnd \<Rightarrow> True | _ \<Rightarrow> False)"

definition starts_tick :: "rq_event \<Rightarrow> bool" where
  "starts_tick ev = (case ev of TickStart tm bg checkpoints \<Rightarrow> True | _ \<Rightarrow> False)"

fun tick_work :: "rq_tick \<Rightarrow> nat" where
  "tick_work Idle = 0"
| "tick_work (Entries tm checkpoints bg es) = 1 + length es * (2 + length checkpoints)"
| "tick_work (Warnings tm checkpoints bg e marks es) = 2 + length marks + length es * (2 + length checkpoints)"

lemma checkpointsDue_length: "length (checkpointsDue e checkpoints tm) \<le> length checkpoints"
proof -
  have "length (filter P (filter Q checkpoints)) \<le> length checkpoints" for P Q
    by (meson le_trans length_filter_le)
  then show ?thesis by (simp add: checkpointsDue_def split: jsnum.splits)
qed

lemma tick_event_work:
  assumes "rq_step to_iso ev w = Some w'" and "tick_event ev"
  shows "tick_work (w_tick w') < tick_work (w_tick w)"
proof (cases ev)
  case (TickEntry scoped ending)
  then obtain tm checkpoints bg e es where tick: "w_tick w = Entries tm checkpoints bg (e # es)"
    using assms by (auto simp: rq_step_def tick_entry_def split: rq_tick.splits list.splits if_splits)
  show ?thesis using assms TickEntry checkpointsDue_length [of e checkpoints tm]
    by (auto simp: rq_step_def tick_entry_def tick split: if_splits)
qed (use assms in \<open>auto simp: rq_step_def tick_event_def tick_warn_def tick_deadline_def tick_end_def
      split: rq_tick.splits list.splits if_splits\<close>)

lemma enqueue_tick: "enqueue to_iso uuid cl type operation payload minutes tm w = Some w' \<Longrightarrow> w_tick w' = w_tick w"
  by (auto simp: enqueue_def split: if_splits option.splits)

lemma other_event_work:
  assumes "rq_step to_iso ev w = Some w'" and "\<not> tick_event ev" and "\<not> starts_tick ev"
  shows "tick_work (w_tick w') \<le> tick_work (w_tick w)"
  using assms by (cases ev) (auto simp: rq_step_def tick_event_def starts_tick_def enqueue_tick restartQueueCancelRoute_def
      restartQueueRestartNowRoute_def recoverRestartQueue_def Let_def split: if_splits option.splits)

lemma tick_steps_bounded:
  "rq_run to_iso evs w = Some w' \<Longrightarrow> \<forall>ev \<in> set evs. \<not> starts_tick ev
   \<Longrightarrow> length (filter tick_event evs) + tick_work (w_tick w') \<le> tick_work (w_tick w)"
proof (induction evs arbitrary: w)
  case (Cons ev evs)
  obtain v where v: "rq_step to_iso ev w = Some v" "rq_run to_iso evs v = Some w'"
    using Cons.prems(1) by (auto split: option.splits)
  have "length (filter tick_event evs) + tick_work (w_tick w') \<le> tick_work (w_tick v)"
    using Cons.IH [OF v(2)] Cons.prems(2) by simp
  then show ?case using tick_event_work [OF v(1)] other_event_work [OF v(1)] Cons.prems(2) by (cases "tick_event ev") auto
qed simp

lemma tick_never_stuck:
  assumes "\<not> w_down w" and "w_tick w \<noteq> Idle"
  shows "\<exists>ev w'. tick_event ev \<and> rq_step to_iso ev w = Some w'"
proof (cases "w_tick w")
  case (Entries tm checkpoints bg es)
  then show ?thesis
    by (cases es)
      (use assms in \<open>auto simp: rq_step_def tick_event_def tick_end_def tick_entry_def
        intro: exI [of _ TickEnd] exI [of _ "TickEntry QueryFailed Completes"]\<close>)
next
  case (Warnings tm checkpoints bg e marks es)
  then show ?thesis
    by (cases marks)
      (use assms in \<open>auto simp: rq_step_def tick_event_def tick_warn_def tick_deadline_def
        intro: exI [of _ "TickWarn True"] exI [of _ "TickDeadline 0 Completes"]\<close>)
qed (use assms in simp)

text \<open>
  C21. A tick ends: from any world, whatever requests, crashes and boots come in between, it makes at most
  \<open>1 + n * (2 + k)\<close> steps for \<open>n\<close> remaining entries and \<open>k\<close> marks, and until it has ended it can make one.
\<close>

theorem tick_terminates:
  "(rq_run to_iso evs w = Some w' \<and> (\<forall>ev \<in> set evs. \<not> starts_tick ev)
      \<longrightarrow> length (filter tick_event evs) \<le> tick_work (w_tick w))
   \<and> (\<not> w_down w \<and> w_tick w \<noteq> Idle \<longrightarrow> (\<exists>ev w'. tick_event ev \<and> rq_step to_iso ev w = Some w'))"
  using tick_steps_bounded [of to_iso evs w w'] tick_never_stuck [of w to_iso] by auto

theorem tick_terminates_witness:
  "length (filter tick_event [TickEntry (Online 0) Completes, TickEnd]) \<le> 4
   \<and> (\<exists>ev w'. tick_event ev \<and> rq_step example_iso ev ticking_world = Some w')"
proof -
  have "rq_run example_iso [TickEntry (Online 0) Completes, TickEnd] ticking_world \<noteq> None"
    by (simp add: rq_step_def tick_entry_def tick_end_def ticking_world_def queued_world_def rq_init_def example_entry_def
        tick_online_def executeRestartEntry_def Let_def)
  then obtain w' where run: "rq_run example_iso [TickEntry (Online 0) Completes, TickEnd] ticking_world = Some w'" by auto
  have "\<not> w_down ticking_world" "w_tick ticking_world \<noteq> Idle" "tick_work (w_tick ticking_world) = 4"
    by (simp_all add: ticking_world_def queued_world_def rq_init_def)
  then show ?thesis
    using tick_terminates [of example_iso "[TickEntry (Online 0) Completes, TickEnd]" ticking_world w'] run
    by (auto simp: starts_tick_def)
qed

text \<open>The events after which an entry that is due is not passed over: nothing fails and the clock has
  reached its time when the tick looks at it.\<close>

definition serves :: "rq_entry \<Rightarrow> rq_event \<Rightarrow> bool" where
  "serves e ev = (case ev of TickEntry scoped ending \<Rightarrow> ending = Completes
     | TickDeadline tm' ending \<Rightarrow> ending = Completes \<and> reached tm' e | Boot tm g endings \<Rightarrow> False | _ \<Rightarrow> True)"

lemma dispatched_grows: "set (w_dispatched w) \<subseteq> set (w_dispatched (executeRestartEntry ending e w))"
  by (cases ending) (auto simp: executeRestartEntry_def Let_def)

lemma dispatches: "e \<in> set (w_dispatched (executeRestartEntry Completes e w))"
  by (simp add: executeRestartEntry_def Let_def)

lemma enqueue_dispatched:
  "enqueue to_iso uuid cl type operation payload minutes tm w = Some w' \<Longrightarrow> w_dispatched w' = w_dispatched w"
  by (auto simp: enqueue_def split: if_splits option.splits)

definition served :: "rq_entry \<Rightarrow> rq_world \<Rightarrow> bool" where
  "served e w = (e \<in> set (w_dispatched w) \<or> e \<in> set (pending (w_tick w)))"

lemma served_execute: "served e w \<Longrightarrow> e = f \<or> e \<in> set (w_dispatched w) \<or> e \<in> set (pending t)
   \<Longrightarrow> served e ((executeRestartEntry Completes f w)\<lparr>w_tick := t\<rparr>)"
  using dispatched_grows [of w Completes f] dispatches [of f w] by (auto simp: served_def)

lemma served_tick_entry:
  assumes "tick_entry scoped Completes w = Some w'" and "q_status e = Counting" and "served e w"
  shows "served e w'"
proof -
  obtain tm checkpoints bg f es where tick: "w_tick w = Entries tm checkpoints bg (f # es)"
    using assms(1) by (auto simp: tick_entry_def split: rq_tick.splits list.splits)
  show ?thesis
    using assms served_execute [OF assms(3), of f "Entries tm checkpoints bg es"]
    by (auto simp: tick_entry_def tick served_def split: if_splits)
qed

lemma served_tick_deadline:
  assumes "tick_deadline tm' Completes w = Some w'" and "reached tm' e" and "served e w"
  shows "served e w'"
proof -
  obtain tm checkpoints bg f es where tick: "w_tick w = Warnings tm checkpoints bg f [] es"
    using assms(1) by (auto simp: tick_deadline_def split: rq_tick.splits list.splits)
  show ?thesis
    using assms served_execute [OF assms(3), of f "Entries tm checkpoints bg es"]
    by (auto simp: tick_deadline_def tick served_def split: if_splits)
qed

lemma served_step:
  assumes "rq_step to_iso ev w = Some w'" and "serves e ev" and "\<not> starts_tick ev" and "q_status e = Counting" and "served e w"
  shows "served e w'"
proof (cases ev)
  case (TickEntry scoped ending)
  then show ?thesis using assms served_tick_entry by (auto simp: rq_step_def serves_def split: if_splits)
next
  case (TickDeadline tm' ending)
  then show ?thesis using assms served_tick_deadline by (auto simp: rq_step_def serves_def split: if_splits)
next
  case (RestartNow i ending)
  then show ?thesis
    using assms dispatched_grows [of w ending]
    by (auto simp: rq_step_def served_def restartQueueRestartNowRoute_def split: if_splits option.splits)
qed (use assms in \<open>auto simp: rq_step_def served_def serves_def starts_tick_def enqueue_tick enqueue_dispatched
      restartQueueCancelRoute_def tick_warn_def tick_end_def split: rq_tick.splits list.splits if_splits\<close>)

lemma served_run:
  "rq_run to_iso evs w = Some w' \<Longrightarrow> \<forall>ev \<in> set evs. serves e ev \<and> \<not> starts_tick ev \<Longrightarrow> q_status e = Counting
   \<Longrightarrow> served e w \<Longrightarrow> served e w'"
proof (induction evs arbitrary: w)
  case (Cons ev evs)
  obtain v where v: "rq_step to_iso ev w = Some v" "rq_run to_iso evs v = Some w'"
    using Cons.prems(1) by (auto split: option.splits)
  have "served e v" using served_step [OF v(1)] Cons.prems by simp
  then show ?case using Cons.IH [OF v(2)] Cons.prems by simp
qed simp

text \<open>
  C20. A queued restart whose time has come is dispatched by the next tick that runs to its end, whatever
  requests come in between, whether or not the warnings could be sent and the online counts be read.
\<close>

theorem due_restart_dispatched:
  assumes "rq_run to_iso (TickStart tm bg checkpoints # evs) w = Some w'" and "w_tick w' = Idle"
    and "e \<in> set (w_queue w)" and "q_status e = Counting"
    and "\<forall>ev \<in> set evs. serves e ev \<and> \<not> starts_tick ev"
  shows "e \<in> set (w_dispatched w')"
proof -
  obtain v where v: "rq_step to_iso (TickStart tm bg checkpoints) w = Some v" "rq_run to_iso evs v = Some w'"
    using assms(1) by (auto split: option.splits)
  have "served e v" using v(1) assms(3) by (auto simp: rq_step_def tick_start_def served_def split: if_splits)
  then have "served e w'" using served_run [OF v(2)] assms by simp
  then show ?thesis using assms(2) by (simp add: served_def)
qed

definition due_events :: "rq_event list" where
  "due_events = [TickEntry QueryFailed Completes, TickWarn False, TickDeadline 900000 Completes, TickEnd]"

theorem due_restart_dispatched_witness:
  "map_option w_dispatched (rq_run example_iso (TickStart 890000 QueryFailed [15] # due_events) queued_world) = Some [example_entry]
   \<and> example_entry \<in> set (w_dispatched (the (rq_run example_iso (TickStart 890000 QueryFailed [15] # due_events) queued_world)))"
proof -
  have "map_option (\<lambda>w. (w_tick w, w_dispatched w))
      (rq_run example_iso (TickStart 890000 QueryFailed [15] # due_events) queued_world) = Some (Idle, [example_entry])"
    by code_simp
  then obtain w' where w': "rq_run example_iso (TickStart 890000 QueryFailed [15] # due_events) queued_world = Some w'"
    "w_tick w' = Idle" "w_dispatched w' = [example_entry]" by auto
  have "example_entry \<in> set (w_dispatched w')"
    by (rule due_restart_dispatched [OF w'(1,2)])
      (simp_all add: queued_world_def due_events_def serves_def starts_tick_def example_entry_def reached_def)
  with w' show ?thesis by simp
qed

section \<open>Settings and warnings\<close>

definition marks_ok :: "int list \<Rightarrow> bool" where
  "marks_ok ms = (ms \<noteq> [] \<and> length ms \<le> MAX_CHECKPOINTS \<and> distinct ms \<and> sorted (rev ms)
     \<and> list_all (\<lambda>n. 1 \<le> n \<and> n \<le> MAX_COUNTDOWN_MINUTES) ms)"

definition text_ok :: "nat \<Rightarrow> string \<Rightarrow> bool" where
  "text_ok n s = (1 \<le> length s \<and> length s \<le> n \<and> js_trim s = s)"

definition settings_ok :: "rq_settings \<Rightarrow> bool" where
  "settings_ok s = (1 \<le> defaultCountdownMinutes s \<and> defaultCountdownMinutes s \<le> MAX_COUNTDOWN_MINUTES
     \<and> marks_ok (broadcastCheckpoints s) \<and> 1 \<le> broadcastDurationSec s \<and> broadcastDurationSec s \<le> 3600
     \<and> 0 \<le> recoveryGraceMinutes s \<and> recoveryGraceMinutes s \<le> 1440
     \<and> text_ok MAX_TITLE_LENGTH (title_of (battlegroup_message s)) \<and> text_ok MAX_BODY_LENGTH (body_of (battlegroup_message s))
     \<and> text_ok MAX_TITLE_LENGTH (title_of (map_message s)) \<and> text_ok MAX_BODY_LENGTH (body_of (map_message s)))"

lemma mark_of_bounds: "mark_of item = Some n \<Longrightarrow> 1 \<le> n \<and> n \<le> MAX_COUNTDOWN_MINUTES"
  by (auto simp: mark_of_def split: jsnum.splits if_splits)

lemma collect_marks_ok:
  "distinct out \<Longrightarrow> length out < MAX_CHECKPOINTS \<Longrightarrow> list_all (\<lambda>n. 1 \<le> n \<and> n \<le> MAX_COUNTDOWN_MINUTES) out
   \<Longrightarrow> distinct (collect_marks items out) \<and> length (collect_marks items out) \<le> MAX_CHECKPOINTS
     \<and> list_all (\<lambda>n. 1 \<le> n \<and> n \<le> MAX_COUNTDOWN_MINUTES) (collect_marks items out)"
proof (induction items arbitrary: out)
  case (Cons item items)
  show ?case
  proof (cases "mark_of item")
    case None
    then show ?thesis using Cons by simp
  next
    case (Some n)
    then show ?thesis using Cons mark_of_bounds [OF Some] by auto
  qed
qed simp

lemma marks_ok_sorted:
  "out \<noteq> [] \<Longrightarrow> distinct out \<Longrightarrow> length out \<le> MAX_CHECKPOINTS \<Longrightarrow> list_all (\<lambda>n. 1 \<le> n \<and> n \<le> MAX_COUNTDOWN_MINUTES) out
   \<Longrightarrow> marks_ok (rev (sort out))"
  by (auto simp: marks_ok_def list_all_iff dest: arg_cong [where f = set])

lemma default_marks_ok: "marks_ok [15, 10, 5, 1]"
  by code_simp

lemma normalizeCheckpoints_ok: "marks_ok (normalizeCheckpoints v)"
  using collect_marks_ok [of "[]"] marks_ok_sorted default_marks_ok
  by (auto simp: normalizeCheckpoints_def Let_def default_rq_settings_def MAX_CHECKPOINTS_def)

lemma text_ok_clamp: "text_ok n d \<Longrightarrow> text_ok n (clampTemplateText v d n)"
  by (simp add: text_ok_def clampTemplateText_def Let_def)

lemma default_texts_ok: "text_ok MAX_TITLE_LENGTH (title_of default_battlegroup_message)"
  "text_ok MAX_BODY_LENGTH (body_of default_battlegroup_message)"
  "text_ok MAX_TITLE_LENGTH (title_of default_map_message)" "text_ok MAX_BODY_LENGTH (body_of default_map_message)"
  by code_simp+

lemma default_settings_ok: "settings_ok default_rq_settings"
  by (simp add: settings_ok_def default_texts_ok) (simp add: default_rq_settings_def default_texts_ok default_marks_ok
      MAX_COUNTDOWN_MINUTES_def)

lemma normalizeSettings_ok: "settings_ok (normalizeSettings v)"
  using clampInt_bounds [of 1 MAX_COUNTDOWN_MINUTES] clampInt_bounds [of 1 3600] clampInt_bounds [of 0 1440]
  by (simp add: settings_ok_def normalizeSettings_def Let_def normalizeCheckpoints_ok normalizeMessageTemplate_def
      text_ok_clamp default_texts_ok MAX_COUNTDOWN_MINUTES_def)

text \<open>
  C37. Whatever the settings file or a save contains, the settings in use are well formed: every number lies
  in its range, there are between 1 and 12 distinct marks in descending order, and every template is trimmed,
  not empty and not longer than its limit.
\<close>

theorem settings_always_ok:
  "settings_ok (readSettings file) \<and> settings_ok (fst (saveSettings file body))"
  by (simp add: readSettings_def saveSettings_def Let_def normalizeSettings_ok default_settings_ok split: option.split)

lemma render_plain: "CHR ''{'' \<notin> set p \<Longrightarrow> render vars (p @ s) = p @ render vars s"
  by (induction p) auto

lemma render_minutes: "render ((''minutes'', v) # vars) ''{minutes}'' = v"
proof -
  have "takeWhile is_word_char ''minutes}'' = ''minutes''" "dropWhile is_word_char ''minutes}'' = ''}''" by code_simp+
  then show ?thesis by simp
qed

lemma trimmed_minutes: "p \<noteq> [] \<Longrightarrow> \<not> is_ws (hd p) \<Longrightarrow> js_trim (p @ ''{minutes}'') = p @ ''{minutes}''"
  by (rule trimmedI) (simp_all add: is_ws_def code_def)

lemma show_int_two_digits: "10 \<le> n \<Longrightarrow> 2 \<le> length (show_int n)"
proof -
  assume n: "10 \<le> n"
  define m where "m = nat n"
  have "10 \<le> m" using n by (simp add: m_def)
  then have "show_nat m = show_nat (m div 10) @ [digit_char (m mod 10)]" by (subst show_nat.simps) simp
  moreover have "show_nat k \<noteq> []" for k by (subst show_nat.simps) simp
  ultimately show ?thesis using n by (cases "show_nat (m div 10)") (simp_all add: show_int_def m_def)
qed

lemma rendered_title_too_long:
  assumes "CHR ''{'' \<notin> set p" and "length p = 71" and "\<not> is_ws (hd p)" and "10 \<le> m"
  shows "validateLocalizedTextField (p @ show_int m @ '' minutes'') 80 = None"
proof -
  have ne: "p \<noteq> []" using assms(2) by auto
  have "js_trim (p @ show_int m @ '' minutes'') = p @ show_int m @ '' minutes''"
    by (rule trimmedI) (use ne assms(3) in \<open>simp_all add: is_ws_def code_def\<close>)
  then show ?thesis using show_int_two_digits [OF assms(4)] assms(2) by (simp add: validateLocalizedTextField_def)
qed

text \<open>
  A title template of the permitted 80 characters that ends in \<open>{minutes}\<close> is accepted and stored as it is,
  yet every warning of ten minutes or more that is built from it is refused by the validators of the
  broadcast: the rendered title is longer than the template.
\<close>

theorem saved_template_fails_at_send:
  assumes "CHR ''{'' \<notin> set p" and "length p = 71" and "\<not> is_ws (hd p)" and "10 \<le> m" and "target \<noteq> Battlegroup"
  shows "title_of (normalizeMessageTemplate (message_json \<lparr>title_of = p @ ''{minutes}'', body_of = b\<rparr>) default_map_message)
      = p @ ''{minutes}''
    \<and> buildBroadcastCommand (buildWarning target mapLabel (of_int m) battlegroup_msg \<lparr>title_of = p @ ''{minutes}'', body_of = b\<rparr>) d = None"
proof -
  have ne: "p \<noteq> []" using assms(2) by auto
  have "clampTemplateText (Str (p @ ''{minutes}'')) d 80 = p @ ''{minutes}''" for d
    using assms(2) trimmed_minutes [OF ne assms(3)] by (simp add: clampTemplateText_def js_nullish_def)
  moreover have other: "p @ ''{minutes}'' \<noteq> title_of default_map_message"
    using assms(2) by (auto simp: default_map_message_def dest: arg_cong [where f = length])
  moreover have rounded: "max 1 (js_round (of_int m)) = m"
  proof -
    have "js_round (of_int m) = m" by (simp add: js_round_def floor_unique)
    then show ?thesis using assms(4) by simp
  qed
  have "title_of (buildWarning target mapLabel (of_int m) battlegroup_msg \<lparr>title_of = p @ ''{minutes}'', body_of = b\<rparr>)
      = p @ show_int m @ '' minutes''"
    using assms(4,5) other by (simp add: buildWarning_def Let_def rounded renderTemplate_def render_plain [OF assms(1)] render_minutes
        del: render.simps)
  then have "buildBroadcastCommand (buildWarning target mapLabel (of_int m) battlegroup_msg
      \<lparr>title_of = p @ ''{minutes}'', body_of = b\<rparr>) d = None"
    using rendered_title_too_long [OF assms(1-4)] ne by (simp add: buildBroadcastCommand_def)
  ultimately show ?thesis
    by (simp add: normalizeMessageTemplate_def message_json_def object_or_empty_def MAX_TITLE_LENGTH_def)
qed

theorem saved_template_fails_at_send_witness:
  "buildBroadcastCommand (buildWarning MapTarget ''Arrakeen'' (of_int 15) default_battlegroup_message
     \<lparr>title_of = replicate 71 (CHR ''x'') @ ''{minutes}'', body_of = ''b''\<rparr>) 30 = None"
proof -
  have "CHR ''{'' \<notin> set (replicate 71 (CHR ''x''))" "\<not> is_ws (hd (replicate 71 (CHR ''x'')))"
    by (simp_all add: is_ws_def code_def)
  then show ?thesis
    using saved_template_fails_at_send [of "replicate 71 (CHR ''x'')" 15 MapTarget "''b''" "''Arrakeen''"
        default_battlegroup_message 30] by simp
qed

end
