(* ===== verification/Runner.thy ===== *)
theory Runner
  imports Js
begin

text \<open>
  The command lines of the console: \<open>console/api/src/runner.js\<close>. An operation and the payload of a request
  become the argument vector of the \<open>dune\<close> script; every value of the payload passes a validator on the way. An
  exception is \<open>None\<close>, its message is not modelled. An argument is a JavaScript value, since one case passes the
  payload's own value on; the operation is one of the names the callers write down, the payload is an object. The
  module also bounds the captured output, names the container of a service and decides which SQL text only reads.
  Spawning, timers and the redaction of output are not modelled. A fraction is printed with at most twenty digits.
\<close>

section \<open>Texts\<close>

definition text_of :: "jsval \<Rightarrow> string" where
  "text_of v = to_str (js_or v (Str []))"

definition trimmed :: "jsval \<Rightarrow> string" where
  "trimmed v = js_trim (text_of v)"

definition accept :: "(string \<Rightarrow> bool) \<Rightarrow> string \<Rightarrow> string option" where
  "accept ok s = (if ok s then Some s else None)"

definition one_line :: "string \<Rightarrow> bool" where
  "one_line s = list_all (\<lambda>c. code c \<noteq> 10 \<and> code c \<noteq> 13) s"

text \<open>\<open>[A-Za-z0-9_...]{1,n}\<close>.\<close>

definition id_text :: "string \<Rightarrow> nat \<Rightarrow> string \<Rightarrow> bool" where
  "id_text extra most s = (s \<noteq> [] \<and> length s \<le> most \<and> list_all (\<lambda>c. is_word_char c \<or> c \<in> set extra) s)"

definition slug_char :: "char \<Rightarrow> bool" where
  "slug_char c = (is_digit c \<or> 97 \<le> code c \<and> code c \<le> 122 \<or> code c = 45)"

definition server_slug :: "string \<Rightarrow> bool" where
  "server_slug s = (let r = js_lower s in
     starts_with r ''dune-server-'' \<and> drop 12 r \<noteq> [] \<and> list_all slug_char (drop 12 r))"

section \<open>Validators\<close>

definition serviceAliases :: "(string \<times> string) list" where
  "serviceAliases = [
    (''postgres'', ''postgres''),
    (''rmq-admin'', ''rmq-admin''),
    (''rmq-game'', ''rmq-game''),
    (''text-router'', ''text-router''),
    (''tr'', ''text-router''),
    (''director'', ''director''),
    (''bgd'', ''director''),
    (''gateway'', ''gateway''),
    (''sgw'', ''gateway''),
    (''survival'', ''survival''),
    (''survival-1'', ''survival-1''),
    (''overmap'', ''overmap''),
    (''orchestrator'', ''orchestrator''),
    (''autoscaler'', ''autoscaler''),
    (''coriolis'', ''coriolis'')]"

definition validateServiceName :: "jsval \<Rightarrow> string option" where
  "validateServiceName v = (let raw = trimmed v in
     if server_slug raw then Some raw else map_of serviceAliases raw)"

definition validateCommitSha :: "jsval \<Rightarrow> string option" where
  "validateCommitSha v = accept (\<lambda>s. length s = 40 \<and> list_all is_lower_hex s) (js_lower (trimmed v))"

definition SETTINGS_SCOPES :: "string list" where
  "SETTINGS_SCOPES = [''engine'', ''mapEngine'', ''partitionEngine'', ''global'', ''map'', ''partition'',
     ''serverCustomGlobal'', ''serverCustomMap'', ''serverCustomPartition'', ''profile'']"

definition validateSettingsScope :: "jsval \<Rightarrow> string option" where
  "validateSettingsScope v = accept (\<lambda>s. s \<in> set SETTINGS_SCOPES) (trimmed v)"

definition validateServerTitle :: "jsval \<Rightarrow> string option" where
  "validateServerTitle v = accept (\<lambda>s. s \<noteq> [] \<and> length s \<le> 80 \<and> one_line s) (trimmed v)"

definition validateServerMode :: "jsval \<Rightarrow> string option" where
  "validateServerMode v = accept (\<lambda>s. s = ''public'' \<or> s = ''local'') (js_lower (trimmed v))"

definition validateRunnerPlayerId :: "jsval \<Rightarrow> string option" where
  "validateRunnerPlayerId v = accept (\<lambda>s. s = ''*'' \<or> id_text '':#.-'' 128 s) (text_of v)"

definition validateOptionalFlag :: "jsval \<Rightarrow> string option" where
  "validateOptionalFlag v = (case v of Undef \<Rightarrow> Some ''0'' | Bool b \<Rightarrow> Some (if b then ''1'' else ''0'') | _ \<Rightarrow> None)"

definition validateInteger :: "jsval \<Rightarrow> int \<Rightarrow> int \<Rightarrow> int option" where
  "validateInteger v least most = (let n = to_num v in
     if \<not> is_integer n \<or> num_int n < least \<or> most < num_int n then None else Some (num_int n))"

definition int_text :: "jsval \<Rightarrow> int \<Rightarrow> int \<Rightarrow> string option" where
  "int_text v least most = map_option show_int (validateInteger v least most)"

definition strictly_falling :: "int list \<Rightarrow> bool" where
  "strictly_falling xs = list_all (\<lambda>i. xs ! Suc i < xs ! i) [0..<length xs - 1]"

fun all_some :: "'a option list \<Rightarrow> 'a list option" where
  "all_some [] = Some []"
| "all_some (x # xs) = (case x of None \<Rightarrow> None | Some a \<Rightarrow> map_option (\<lambda>r. a # r) (all_some xs))"

definition validateMinuteCheckpoints :: "jsval \<Rightarrow> string option" where
  "validateMinuteCheckpoints v = (let raw = (case v of Arr vs \<Rightarrow> vs
       | _ \<Rightarrow> map Str (filter (\<lambda>w. w \<noteq> []) (split_at (\<lambda>c. is_ws c \<or> c = CHR '','') (to_str (js_nullish v (Str [])))))) in
     if raw = [] \<or> 12 < length raw then None
     else case all_some (map (\<lambda>item. validateInteger item 1 1440) raw) of
       None \<Rightarrow> None
     | Some values \<Rightarrow> (if \<not> distinct values \<or> \<not> strictly_falling values then None
         else Some (join_with '','' (map show_int values))))"

definition validateNumber :: "jsval \<Rightarrow> int \<Rightarrow> int \<Rightarrow> jsnum option" where
  "validateNumber v least most = (let n = to_num v in
     if \<not> is_finite n \<or> num_lt n (num_of_int least) \<or> num_lt (num_of_int most) n then None else Some n)"

definition number_text :: "jsval \<Rightarrow> int \<Rightarrow> int \<Rightarrow> string option" where
  "number_text v least most = map_option show_num (validateNumber v least most)"

definition validateItemName :: "jsval \<Rightarrow> string option" where
  "validateItemName v = accept (\<lambda>s. s \<noteq> [] \<and> length s \<le> 200 \<and> one_line s) (trimmed v)"

definition validateItemId :: "jsval \<Rightarrow> string option" where
  "validateItemId v = accept (id_text ''./:-'' 240) (trimmed v)"

definition validateItemQuality :: "jsval \<Rightarrow> jsnum option" where
  "validateItemQuality v = (case validateNumber v 0 5 of
     Some n \<Rightarrow> if is_integer n then Some n else None | None \<Rightarrow> None)"

definition quality_text :: "jsval \<Rightarrow> string option" where
  "quality_text v = map_option show_num (validateItemQuality v)"

definition validateTemplateName :: "jsval \<Rightarrow> string option" where
  "validateTemplateName v = accept (\<lambda>s. s = ''scout-ornithopter-mk6'') (js_lower (trimmed v))"

definition validateSkillModule :: "jsval \<Rightarrow> string option" where
  "validateSkillModule v = accept (\<lambda>s. id_text ''./:-'' 200 s \<or> 0 < length s \<and> length s \<le> 120 \<and> one_line s) (trimmed v)"

definition validateVehicleId :: "jsval \<Rightarrow> string option" where
  "validateVehicleId v = accept (id_text ''./:-'' 160) (trimmed v)"

definition validateVehicleTemplate :: "jsval \<Rightarrow> string option" where
  "validateVehicleTemplate v = accept (id_text ''./:-'' 160) (trimmed v)"

definition validateMapName :: "jsval \<Rightarrow> string option" where
  "validateMapName v = accept (id_text '':-'' 80) (trimmed v)"

definition validateMapMode :: "jsval \<Rightarrow> string option" where
  "validateMapMode v = accept (\<lambda>s. s \<in> set [''dynamic'', ''always-on'', ''overmap-active'', ''disabled'']) (trimmed v)"

definition validateMapOrPartition :: "jsval \<Rightarrow> string option" where
  "validateMapOrPartition v = accept (id_text '':-'' 80) (trimmed v)"

definition validateAutoscalerAction :: "jsval \<Rightarrow> string option" where
  "validateAutoscalerAction v = accept (\<lambda>s. s \<in> set [''status'', ''start'', ''stop'', ''restart'', ''logs'']) (trimmed v)"

definition validateMemoryTarget :: "jsval \<Rightarrow> string option" where
  "validateMemoryTarget v = accept (\<lambda>s. s = ''default'' \<or> id_text '':-'' 80 s) (trimmed v)"

definition validatePartitionId :: "jsval \<Rightarrow> string option" where
  "validatePartitionId v = int_text v 1 1000000"

definition memoryTarget :: "jsval \<Rightarrow> string option" where
  "memoryTarget payload = (let partitionId = trimmed (getp payload ''partitionId'') in
     if partitionId \<noteq> [] then map_option (\<lambda>i. ''partition:'' @ i) (validatePartitionId (Str partitionId))
     else Some (text_of (getp payload ''map'')))"

definition memory_size :: "string \<Rightarrow> bool" where
  "memory_size s = (let whole = takeWhile is_digit s; r = dropWhile is_digit s in
     whole \<noteq> [] \<and> hd whole \<noteq> CHR ''0''
       \<and> (r = [] \<or> hd r = CHR ''.'' \<and> tl r \<noteq> [] \<and> list_all is_digit (tl r))
     \<or> whole = ''0'' \<and> r \<noteq> [] \<and> hd r = CHR ''.'' \<and> list_all is_digit (tl r) \<and> list_ex (\<lambda>c. c \<noteq> CHR ''0'') (tl r))"

definition validateMemoryValue :: "jsval \<Rightarrow> string option" where
  "validateMemoryValue v = accept (\<lambda>s. s \<noteq> [] \<and> last s \<in> set ''mMgG'' \<and> memory_size (butlast s)) (trimmed v)"

definition validateDisplayName :: "jsval \<Rightarrow> string option" where
  "validateDisplayName v = accept (\<lambda>s. s = []
     \<or> list_all (\<lambda>c. code c \<notin> {13, 10, 9, 39, 124}) s \<and> length s \<le> 80) (trimmed v)"

definition validateSietchPassword :: "jsval \<Rightarrow> string option" where
  "validateSietchPassword v = accept (\<lambda>s. length s \<le> 80 \<and> list_all (\<lambda>c. code c \<notin> {13, 10, 9}) s) (text_of v)"

definition validateDeepDesertAction :: "jsval \<Rightarrow> string option" where
  "validateDeepDesertAction v = accept (\<lambda>s. s \<in> set [''enable'', ''disable'', ''bootstrap'', ''repair'']) (trimmed v)"

definition clock_time :: "string \<Rightarrow> bool" where
  "clock_time s = (case s of [a, b, c, d, e] \<Rightarrow>
       (a \<in> set ''01'' \<and> is_digit b \<or> a = CHR ''2'' \<and> b \<in> set ''0123'') \<and> c = CHR '':'' \<and> d \<in> set ''012345'' \<and> is_digit e
     | _ \<Rightarrow> False)"

definition validateUpdateTime :: "jsval \<Rightarrow> string option" where
  "validateUpdateTime v = accept clock_time (trimmed v)"

definition validateSearchQuery :: "jsval \<Rightarrow> string option" where
  "validateSearchQuery v = accept (\<lambda>s. 2 \<le> length s \<and> length s \<le> 120 \<and> one_line s) (trimmed v)"

definition validateCatalogQuery :: "jsval \<Rightarrow> string option" where
  "validateCatalogQuery v = accept (\<lambda>s. s = [] \<or> length s \<le> 120 \<and> one_line s) (trimmed v)"

definition sql_name :: "string \<Rightarrow> bool" where
  "sql_name s = (s \<noteq> [] \<and> list_all is_word_char s \<and> \<not> is_digit (hd s))"

definition validateTableName :: "jsval \<Rightarrow> string option" where
  "validateTableName v = accept (\<lambda>s. case split_at (\<lambda>c. c = CHR ''.'') s of [a, b] \<Rightarrow> sql_name a \<and> sql_name b | _ \<Rightarrow> False)
     (text_of v)"

fun double_dot :: "string \<Rightarrow> bool" where
  "double_dot (a # b # s) = (a = CHR ''.'' \<and> b = CHR ''.'' \<or> double_dot (b # s))"
| "double_dot _ = False"

definition validateBackupName :: "jsval \<Rightarrow> string option" where
  "validateBackupName v = accept (\<lambda>s. s \<noteq> [] \<and> list_all (\<lambda>c. is_word_char c \<or> c \<in> set ''.-'') s \<and> \<not> double_dot s) (text_of v)"

text \<open>The elements of a \<open>Set\<close>, in the order of their first occurrence.\<close>

fun set_elements :: "'a list \<Rightarrow> 'a list" where
  "set_elements [] = []"
| "set_elements (x # xs) = x # filter (\<lambda>y. y \<noteq> x) (set_elements xs)"

definition validateBackupNames :: "jsval \<Rightarrow> string list option" where
  "validateBackupNames v = (case v of
     Arr vs \<Rightarrow> if vs = [] \<or> 100 < length vs then None else map_option set_elements (all_some (map validateBackupName vs))
   | _ \<Rightarrow> None)"

section \<open>SQL that only reads\<close>

definition word_end :: "string \<Rightarrow> bool" where
  "word_end r = (r = [] \<or> \<not> is_word_char (hd r))"

definition READ_KEYWORDS :: "string list" where
  "READ_KEYWORDS = [''select'', ''with'', ''show'', ''explain'']"

definition WRITE_KEYWORDS :: "string list" where
  "WRITE_KEYWORDS = [''insert'', ''update'', ''delete'', ''drop'', ''alter'', ''truncate'', ''create'', ''grant'', ''revoke'']"

definition keyword_first :: "string list \<Rightarrow> string \<Rightarrow> bool" where
  "keyword_first words s = list_ex (\<lambda>w. starts_with s w \<and> word_end (drop (length w) s)) words"

text \<open>\<open>copy\s+.*\s+from\b\<close> at the start of a lower-case text.\<close>

definition copy_from :: "string \<Rightarrow> bool" where
  "copy_from s = (starts_with s ''copy'' \<and> (let r = drop 4 s in
     list_ex (\<lambda>j. starts_with (drop j r) ''from'' \<and> word_end (drop (j + 4) r) \<and> is_ws (r ! 0) \<and> is_ws (r ! (j - 1))
       \<and> one_line (js_trim (take j r))) [2..<length r]))"

text \<open>A forbidden word that begins at a word boundary; the flag says whether the character before belongs to a word.\<close>

fun write_word :: "bool \<Rightarrow> string \<Rightarrow> bool" where
  "write_word inside [] = False"
| "write_word inside (c # s) =
     (\<not> inside \<and> (keyword_first WRITE_KEYWORDS (c # s) \<or> copy_from (c # s)) \<or> write_word (is_word_char c) s)"

definition isReadOnlySql :: "jsval \<Rightarrow> bool" where
  "isReadOnlySql query = (let raw = js_lower (trimmed query) in
     keyword_first READ_KEYWORDS raw \<and> \<not> write_word False raw)"

definition validateSql :: "jsval \<Rightarrow> bool \<Rightarrow> string option" where
  "validateSql query allowDestructive = (let raw = trimmed query in
     if raw = [] \<or> 100000 < length raw then None
     else if \<not> allowDestructive \<and> \<not> isReadOnlySql (Str raw) then None else Some raw)"

section \<open>Encoded arguments\<close>

text \<open>The UTF-8 bytes of a text, and their base64 form.\<close>

definition utf8_bytes :: "string \<Rightarrow> nat list" where
  "utf8_bytes s = concat (map (\<lambda>c. let k = code c in if k < 128 then [k] else [192 + k div 64, 128 + k mod 64]) s)"

definition b64_char :: "nat \<Rightarrow> char" where
  "b64_char n = char_of (if n < 26 then 65 + n else if n < 52 then 71 + n else if n < 62 then n - 4 else if n = 62 then 43 else 47)"

fun base64_text :: "nat list \<Rightarrow> string" where
  "base64_text [] = []"
| "base64_text [a] = [b64_char (a div 4), b64_char (a mod 4 * 16), CHR ''='', CHR ''='']"
| "base64_text [a, b] = [b64_char (a div 4), b64_char (a mod 4 * 16 + b div 16), b64_char (b mod 16 * 4), CHR ''='']"
| "base64_text (a # b # c # bytes) = [b64_char (a div 4), b64_char (a mod 4 * 16 + b div 16),
     b64_char (b mod 16 * 4 + c div 64), b64_char (c mod 64)] @ base64_text bytes"

definition hex_digit :: "nat \<Rightarrow> char" where
  "hex_digit n = char_of (if n < 10 then 48 + n else 87 + n)"

definition json_char :: "char \<Rightarrow> string" where
  "json_char c = (let k = code c; escape = CHR 0x5C in
     if k = 34 \<or> k = 92 then [escape, c]
     else if k = 8 then [escape, CHR ''b''] else if k = 9 then [escape, CHR ''t''] else if k = 10 then [escape, CHR ''n'']
     else if k = 12 then [escape, CHR ''f''] else if k = 13 then [escape, CHR ''r'']
     else if k < 32 then [escape, CHR ''u'', CHR ''0'', CHR ''0'', hex_digit (k div 16), hex_digit (k mod 16)]
     else [c])"

definition json_string :: "string \<Rightarrow> string" where
  "json_string s = [CHR 0x22] @ concat (map json_char s) @ [CHR 0x22]"

text \<open>\<open>JSON.stringify\<close> of a value that is not \<open>undefined\<close>; properties that are \<open>undefined\<close> are left out.\<close>

fun json_text :: "jsval \<Rightarrow> string" where
  "json_text Undef = ''null''"
| "json_text Null = ''null''"
| "json_text (Bool b) = (if b then ''true'' else ''false'')"
| "json_text (Number n) = (if is_finite n then show_num n else ''null'')"
| "json_text (Str s) = json_string s"
| "json_text (Arr vs) = ''['' @ join_with '','' (map json_text vs) @ '']''"
| "json_text (Obj ps) = ''{'' @ join_with '',''
     (concat (map (\<lambda>(k, v). if v = Undef then [] else [json_string k @ '':'' @ json_text v]) ps)) @ ''}''"

definition encodeTextArg :: "jsval \<Rightarrow> string" where
  "encodeTextArg v = base64_text (utf8_bytes (to_str v))"

definition encodeJsonArg :: "jsval \<Rightarrow> string" where
  "encodeJsonArg v = base64_text (utf8_bytes (json_text v))"

section \<open>Operations\<close>

definition simpleOperations :: "(string \<times> string list) list" where
  "simpleOperations = [
    (''status'', [''status'']),
    (''readiness'', [''ready'']),
    (''services'', [''ps'']),
    (''ports'', [''ports'']),
    (''doctor'', [''doctor'']),
    (''networkBindFix'', [''network'', ''fix'']),
    (''storageCleanupImages'', [''storage'', ''cleanup'', ''--unused-images'']),
    (''storageCleanupBuildCache'', [''storage'', ''cleanup'', ''--build-cache'']),
    (''start'', [''start'']),
    (''stop'', [''stop'']),
    (''updateCheck'', [''update'', ''check'']),
    (''updateApply'', [''update'', ''--yes'']),
    (''updateFixSteamcmd'', [''update'', ''fix-steamcmd'']),
    (''updateInstallAssets'', [''update'', ''install-assets'']),
    (''consoleReload'', [''console'', ''reload'']),
    (''updateAutoStatus'', [''update'', ''auto'', ''status'']),
    (''updateAutoDisable'', [''update'', ''auto'', ''disable'']),
    (''selfUpdateCheck'', [''self-update'', ''check'']),
    (''selfUpdateApply'', [''self-update'', ''install'', ''latest'']),
    (''backupCreate'', [''db'', ''backup'']),
    (''backupList'', [''db'', ''list'']),
    (''backupDeleteAll'', [''db'', ''delete'', ''--all'']),
    (''backupAutoStatus'', [''db'', ''auto'', ''status'']),
    (''backupSystemCreate'', [''db'', ''backup-system'']),
    (''backupSystemDeleteAll'', [''db'', ''delete-system'', ''--all'']),
    (''backupAutoDisable'', [''db'', ''auto'', ''disable'']),
    (''init'', [''init'']),
    (''restartScheduleStatus'', [''restart-schedule'', ''status'']),
    (''restartScheduleDisable'', [''restart-schedule'', ''disable'']),
    (''ipChangeRestartStatus'', [''ip-change-restart'', ''status'']),
    (''ipChangeRestartDisable'', [''ip-change-restart'', ''disable'']),
    (''ipChangeRestartCheckNow'', [''ip-change-restart'', ''check-now'']),
    (''shutdownProtectionStatus'', [''shutdown-protection'', ''status'']),
    (''shutdownProtectionDisable'', [''shutdown-protection'', ''disable'']),
    (''shutdownProtectionRemove'', [''shutdown-protection'', ''remove'']),
    (''dbStatus'', [''database'', ''status'']),
    (''servers'', [''servers'']),
    (''mapsList'', [''maps'', ''list'']),
    (''sietchesList'', [''sietches'', ''list'']),
    (''deepdesertStatus'', [''deepdesert'', ''layout'', ''status'']),
    (''players'', [''admin'', ''players'', ''--show-full-ids'']),
    (''adminHistory'', [''admin'', ''history'']),
    (''adminItemList'', [''admin'', ''item-list'']),
    (''adminVehicleList'', [''admin'', ''vehicle-list'']),
    (''experimentalTanksStatus'', [''experimental-tanks'', ''status'']),
    (''adminSkillModules'', [''admin'', ''skill-modules''])]"

text \<open>An argument vector: fixed words, then values that have to be valid.\<close>

type_synonym argv = "jsval list"

type_synonym dune_case = "string \<times> (jsval \<Rightarrow> argv option)"

definition command :: "string list \<Rightarrow> string option list \<Rightarrow> argv option" where
  "command words values = map_option (\<lambda>xs. map Str (words @ xs)) (all_some values)"

abbreviation pay :: "jsval \<Rightarrow> string \<Rightarrow> jsval" where
  "pay p k \<equiv> getp p k"

abbreviation num :: "int \<Rightarrow> jsval" where
  "num i \<equiv> Number (num_of_int i)"

definition flag :: "bool \<Rightarrow> string" where
  "flag b = (if b then ''1'' else ''0'')"

definition flag_if :: "bool \<Rightarrow> string \<Rightarrow> string option list" where
  "flag_if b w = (if b then [Some w] else [])"

definition DUNE_CASES_1 :: "dune_case list" where
  "DUNE_CASES_1 = [
    (''experimentalTanksApply'', \<lambda>p. case pay p ''enabled'' of
        Bool b \<Rightarrow> if pay p ''confirmRestart'' \<noteq> Bool True then None
          else command [''experimental-tanks'', ''apply''] [Some (to_str (Bool b))]
      | _ \<Rightarrow> None),
    (''selfUpdateQaApply'', \<lambda>p. command [''self-update'', ''install-qa''] [validateCommitSha (pay p ''sha'')]),
    (''restartService'', \<lambda>p. command [''restart''] [validateServiceName (pay p ''service'')]),
    (''restartServiceStop'', \<lambda>p. command [''stop-service''] [validateServiceName (pay p ''service'')]),
    (''restartServiceStart'', \<lambda>p. command [''restart''] [validateServiceName (pay p ''service'')]),
    (''stopGameServersForDbWrites'', \<lambda>p. command [''stop-game-servers-for-db-writes''] []),
    (''serverTitle'', \<lambda>p. command [''config'', ''title''] [validateServerTitle (pay p ''title''), Some ''--yes'']),
    (''serverConfig'', \<lambda>p. let title = pay p ''title''; mode = pay p ''mode'';
         args = (if title \<noteq> Undef then [Some ''--title'', validateServerTitle title] else [])
           @ (if mode \<noteq> Undef then [Some ''--mode'', validateServerMode mode] else [])
       in if args = [] then None else command [''config'', ''server-settings''] (args @ [Some ''--yes''])),
    (''restartScheduleEnable'', \<lambda>p. command [''restart-schedule'', ''enable'']
       [validateUpdateTime (js_or (pay p ''time'') (Str ''05:00'')), int_text (js_nullish (pay p ''notifyMinutes'') (num 15)) 1 1440]),
    (''ipChangeRestartEnable'', \<lambda>p. command [''ip-change-restart'', ''enable'']
       [int_text (js_nullish (pay p ''intervalMinutes'') (num 5)) 1 1440, int_text (js_nullish (pay p ''notifyMinutes'') (num 1)) 0 60]),
    (''shutdownProtectionEnable'', \<lambda>p. command [''shutdown-protection'', ''enable''] []),
    (''restartAll'', \<lambda>p. command [''restart'', ''gateway''] []),
    (''logs'', \<lambda>p. command [''logs''] [validateServiceName (pay p ''service'')]),
    (''backupRestore'', \<lambda>p. let mode = pay p ''identityMode'' in
       if mode \<noteq> Undef \<and> mode \<noteq> Str ''adopt-backup'' \<and> mode \<noteq> Str ''keep-current'' then None
       else command [''db'', ''restore''] ([validateBackupName (pay p ''backup''), Some ''--no-safety-backup'']
         @ flag_if (mode = Str ''adopt-backup'') ''--adopt-backup-battlegroup''
         @ flag_if (mode = Str ''keep-current'') ''--keep-current-battlegroup'')),
    (''backupDelete'', \<lambda>p. command [''db'', ''delete''] [validateBackupName (pay p ''backup'')]),
    (''backupDeleteSelected'', \<lambda>p. case validateBackupNames (pay p ''backups'') of
        None \<Rightarrow> None | Some names \<Rightarrow> command [''db'', ''delete''] (map Some names)),
    (''backupSystemDelete'', \<lambda>p. command [''db'', ''delete-system''] [validateBackupName (pay p ''backup'')]),
    (''backupSystemDeleteSelected'', \<lambda>p. case validateBackupNames (pay p ''backups'') of
        None \<Rightarrow> None | Some names \<Rightarrow> command [''db'', ''delete-system''] (map Some names)),
    (''backupSystemRestore'', \<lambda>p. command [''db'', ''restore-system''] ([validateBackupName (pay p ''backup'')]
         @ flag_if (\<not> truthy (pay p ''apply'')) ''--dry-run''
         @ flag_if (pay p ''identityMode'' = Str ''adopt-backup'') ''--adopt-backup-battlegroup''
         @ flag_if (pay p ''identityMode'' = Str ''keep-current'') ''--keep-current-battlegroup''
         @ flag_if (pay p ''auditLogMode'' = Str ''adopt-backup'') ''--adopt-backup-audit-log''
         @ flag_if (pay p ''auditLogMode'' = Str ''keep-current'') ''--keep-current-audit-log'')),
    (''backupAutoEnable'', \<lambda>p. command [''db'', ''auto'', ''enable'']
       [validateUpdateTime (js_or (pay p ''time'') (Str ''05:00'')), int_text (js_nullish (pay p ''retentionDays'') (num 0)) 0 3650,
        int_text (js_nullish (pay p ''intervalHours'') (num 24)) 1 168]),
    (''backupAutoRetention'', \<lambda>p. command [''db'', ''auto'', ''retention''] [int_text (pay p ''retentionDays'') 0 3650]),
    (''updateAutoEnable'', \<lambda>p. command [''update'', ''auto'', ''enable'']
       [int_text (js_nullish (pay p ''intervalMinutes'') (num 60)) 5 1440,
        Some (flag (pay p ''applyEnabled'' \<noteq> Bool False)),
        Some (flag (pay p ''notifyEnabled'' \<noteq> Bool False)),
        validateMinuteCheckpoints (js_nullish (pay p ''notifyMinutes'') (Str ''15,10,5,1'')),
        Some (flag (truthy (pay p ''waitUntilEmpty''))),
        int_text (js_nullish (pay p ''maxWaitMinutes'') (num 360)) 0 10080,
        validateOptionalFlag (pay p ''updateConsole''),
        validateOptionalFlag (pay p ''manageTanks'')])]"

definition DUNE_CASES_2 :: "dune_case list" where
  "DUNE_CASES_2 = [
    (''databaseTables'', \<lambda>p. Some [Str ''database'', Str ''tables'', js_or (pay p ''schema'') (Str ''dune'')]),
    (''databasePreview'', \<lambda>p. command [''database'', ''preview''] [validateTableName (pay p ''table''),
       Some (to_str (js_or (pay p ''limit'') (num 50))), Some (to_str (js_or (pay p ''offset'') (num 0)))]),
    (''databaseQuery'', \<lambda>p. command [''database'', ''sql''] [validateSql (pay p ''query'') (truthy (pay p ''allowDestructive''))]),
    (''databaseExport'', \<lambda>p. command [''database'', ''export''] [validateSql (pay p ''query'') False]),
    (''adminGiveItem'', \<lambda>p. command [''admin'', ''grant-item''] [validateRunnerPlayerId (pay p ''playerId''),
       validateItemName (pay p ''itemName''), int_text (js_nullish (pay p ''quantity'') (num 1)) 1 1000000, number_text (num 1) 0 1,
       quality_text (js_nullish (js_nullish (pay p ''quality'') (pay p ''grade'')) (num 0))]),
    (''adminGiveItems'', \<lambda>p. command [''admin'', ''grant-template''] [validateRunnerPlayerId (pay p ''playerId''),
       validateTemplateName (js_or (pay p ''template'') (Str ''scout-ornithopter-mk6''))]),
    (''adminGiveItemId'', \<lambda>p. command [''admin'', ''grant-item-id''] [validateRunnerPlayerId (pay p ''playerId''),
       validateItemId (pay p ''itemId''), int_text (js_nullish (pay p ''quantity'') (num 1)) 1 1000000, number_text (num 1) 0 1,
       quality_text (js_nullish (js_nullish (pay p ''quality'') (pay p ''grade'')) (num 0))]),
    (''adminAddXp'', \<lambda>p. command [''admin'', ''award-xp''] [validateRunnerPlayerId (pay p ''playerId''), int_text (pay p ''amount'') 1 100000000]),
    (''adminSetSkillPoints'', \<lambda>p. command [''admin'', ''skill-points'']
       [validateRunnerPlayerId (pay p ''playerId''), int_text (pay p ''points'') 0 100000]),
    (''adminSetSkillModule'', \<lambda>p. command [''admin'', ''skill-module'']
       [validateRunnerPlayerId (pay p ''playerId''), validateSkillModule (pay p ''module''), int_text (pay p ''level'') 0 100]),
    (''adminRefillWater'', \<lambda>p. command [''admin'', ''refill-water'']
       [validateRunnerPlayerId (pay p ''playerId''), int_text (js_nullish (pay p ''amount'') (num 1000000)) 1 1000000000]),
    (''adminKick'', \<lambda>p. command [''admin'', ''kick''] [validateRunnerPlayerId (pay p ''playerId''), Some ''--yes'', Some ''--force'']),
    (''adminKickAllOnline'', \<lambda>p. command [''admin'', ''kick'', ''--all-online'', ''--yes''] []),
    (''adminRepairLoginQueue'', \<lambda>p. command [''admin'', ''repair-login-queue'']
       [validateRunnerPlayerId (pay p ''playerId''), Some ''--yes'', Some ''--force'']),
    (''adminTeleport'', \<lambda>p. command [''admin'', ''teleport''] [validateRunnerPlayerId (pay p ''playerId''),
       number_text (pay p ''x'') (- 100000000) 100000000, number_text (pay p ''y'') (- 100000000) 100000000,
       number_text (pay p ''z'') (- 100000000) 100000000, number_text (js_or (pay p ''yaw'') (num 0)) (- 360) 360]),
    (''adminSpawnVehicle'', \<lambda>p. command [''admin'', ''spawn-vehicle''] [validateRunnerPlayerId (pay p ''playerId''),
       validateVehicleId (pay p ''vehicleId''), validateVehicleTemplate (pay p ''template''),
       number_text (js_nullish (pay p ''offset'') (num 1000)) 0 100000]),
    (''adminCleanInventory'', \<lambda>p. command [''admin'', ''clean-inventory''] [validateRunnerPlayerId (pay p ''playerId'')]),
    (''adminResetProgression'', \<lambda>p. command [''admin'', ''reset-progression''] [validateRunnerPlayerId (pay p ''playerId'')]),
    (''adminItemSearch'', \<lambda>p. command [''admin'', ''item-search''] [validateSearchQuery (pay p ''q'')]),
    (''adminItemListCategory'', \<lambda>p. command [''admin'', ''item-list''] [validateCatalogQuery (pay p ''category'')]),
    (''adminVehicleSearch'', \<lambda>p. command [''admin'', ''vehicle-list''] [validateCatalogQuery (pay p ''q'')]),
    (''adminSkillModulesSearch'', \<lambda>p. command [''admin'', ''skill-modules''] [validateCatalogQuery (pay p ''q'')]),
    (''adminSpecializationMax'', \<lambda>p. command [''admin'', ''specialization-max'']
       [Some (text_of (pay p ''character'')), Some ''--grant-keystones'', Some ''--yes''])]"

definition DUNE_CASES_3 :: "dune_case list" where
  "DUNE_CASES_3 = [
    (''mapsMode'', \<lambda>p. if truthy (pay p ''map'') then command [''maps'', ''mode''] [validateMapName (pay p ''map'')]
       else command [''maps'', ''mode''] []),
    (''mapsSetMode'', \<lambda>p. command [''maps'', ''set''] [validateMapName (pay p ''map''), validateMapMode (pay p ''mode'')]),
    (''mapsApplySettings'', \<lambda>p. command [''true''] []),
    (''mapsReconcile'', \<lambda>p. command [''maps'', ''reconcile''] []),
    (''mapsRespawn'', \<lambda>p. case validateMapOrPartition (pay p ''target'') of None \<Rightarrow> None | Some t \<Rightarrow> command [''true''] []),
    (''mapsSpawn'', \<lambda>p. command [''spawn''] [validateMapOrPartition (pay p ''target'')]),
    (''mapsDespawn'', \<lambda>p. command [''despawn''] [validateMapOrPartition (pay p ''target''), Some ''--force'']),
    (''autoscalerStatus'', \<lambda>p. command [''autoscaler'', ''status''] []),
    (''autoscalerAction'', \<lambda>p. command [''autoscaler''] [validateAutoscalerAction (pay p ''action'')]),
    (''memoryStatus'', \<lambda>p. command [''memory'', ''status''] []),
    (''memorySwapStatus'', \<lambda>p. command [''memory-swap'', ''status''] []),
    (''memorySet'', \<lambda>p. command [''memory'', ''set''] [case memoryTarget p of None \<Rightarrow> None | Some t \<Rightarrow> validateMemoryTarget (Str t),
       validateMemoryValue (pay p ''memory'')]),
    (''memorySetNoRestart'', \<lambda>p. command [''memory'', ''set-no-restart'']
       [case memoryTarget p of None \<Rightarrow> None | Some t \<Rightarrow> validateMemoryTarget (Str t), validateMemoryValue (pay p ''memory'')]),
    (''memoryUnset'', \<lambda>p. command [''memory'', ''unset''] [case memoryTarget p of None \<Rightarrow> None | Some t \<Rightarrow> validateMemoryTarget (Str t)]),
    (''memorySwapEnable'', \<lambda>p. command [''memory-swap'', ''enable''] [int_text (js_nullish (pay p ''perServerGiB'') (num 2)) 1 16,
       int_text (pay p ''poolGiB'') 0 32, int_text (js_nullish (pay p ''swappiness'') (num 10)) 0 100]),
    (''memorySwapDisable'', \<lambda>p. command [''memory-swap'', ''disable''] []),
    (''sietchesShow'', \<lambda>p. command [''sietches'', ''show''] [validateMapName (pay p ''map'')]),
    (''sietchesDimensions'', \<lambda>p. command [''sietches'', ''dimensions''] [validateMapName (pay p ''map''), Some ''--active-only'']),
    (''sietchesDimensionIds'', \<lambda>p. command [''sietches'', ''dimensions'']
       [validateMapName (pay p ''map''), Some ''--active-only'', Some ''--ids'']),
    (''sietchesSetMax'', \<lambda>p. command [''sietches'', ''set-max''] [validateMapName (pay p ''map''), int_text (pay p ''count'') 1 64]),
    (''sietchesSetActive'', \<lambda>p. command [''sietches'', ''set-active''] [validateMapName (pay p ''map''), int_text (pay p ''count'') 1 64]),
    (''sietchesSetDisplay'', \<lambda>p. command [''sietches'', ''set-display'']
       [validatePartitionId (pay p ''partitionId''), validateDisplayName (pay p ''displayName'')]),
    (''sietchesSetPassword'', \<lambda>p. command [''sietches'', ''set-password'']
       [validatePartitionId (pay p ''partitionId''), validateSietchPassword (js_nullish (pay p ''password'') (Str []))]),
    (''sietchesSetSettings'', \<lambda>p. command [''sietches'', ''set-settings''] [validatePartitionId (pay p ''partitionId''),
       validateDisplayName (pay p ''displayName''), validateSietchPassword (js_nullish (pay p ''password'') (Str []))]),
    (''sietchesRestart'', \<lambda>p. command [''sietches'', ''restart''] [validatePartitionId (pay p ''partitionId'')]),
    (''sietchesRestartStop'', \<lambda>p. command [''sietches'', ''stop-partition''] [validatePartitionId (pay p ''partitionId'')]),
    (''sietchesRestartStart'', \<lambda>p. command [''sietches'', ''start-partition''] [validatePartitionId (pay p ''partitionId'')]),
    (''sietchesSync'', \<lambda>p. command [''sietches'', ''sync''] []),
    (''sietchesValidate'', \<lambda>p. command [''sietches'', ''validate''] []),
    (''sietchesReconcile'', \<lambda>p. command [''sietches'', ''reconcile''] [validateMapName (pay p ''map'')]),
    (''deepdesertAction'', \<lambda>p. if pay p ''instances'' \<noteq> Undef
       then (let thirdRole = js_lower (to_str (js_or (pay p ''thirdRole'') (Str ''pve''))) in
         command [''deepdesert'', ''layout'', ''set''] [int_text (pay p ''instances'') 1 3, Some ''--third-role'',
           accept (\<lambda>s. s \<in> set [''pve'', ''pvp'']) thirdRole, Some ''--yes'', Some ''--force''])
       else command [''deepdesert'', ''dual''] ([validateDeepDesertAction (pay p ''action''), Some ''--yes'']
         @ flag_if (pay p ''action'' = Str ''disable'') ''--force''))]"

text \<open>The arguments of the cases that read a configuration for one map, one partition or everywhere.\<close>

definition client_ini :: "string \<Rightarrow> jsval \<Rightarrow> argv option" where
  "client_ini w p = (if truthy (pay p ''map'')
     then if truthy (pay p ''partitionId'')
       then command [''usersettings'', w] [validateMapName (pay p ''map''), validatePartitionId (pay p ''partitionId'')]
       else command [''usersettings'', w] [validateMapName (pay p ''map'')]
     else command [''usersettings'', w] [])"

definition optional_partition :: "jsval \<Rightarrow> string option" where
  "optional_partition p = (if truthy (pay p ''partitionId'') then validatePartitionId (pay p ''partitionId'') else Some [])"

definition map_or_survival :: "jsval \<Rightarrow> string option" where
  "map_or_survival p = validateMapName (js_or (pay p ''map'') (Str ''Survival_1''))"

definition DUNE_CASES_4 :: "dune_case list" where
  "DUNE_CASES_4 = [
    (''userSettingsEngineValues'', \<lambda>p. command [''usersettings'', ''engine-values''] []),
    (''userSettingsMapEngineValues'', \<lambda>p. command [''usersettings'', ''map-engine-values''] [validateMapName (pay p ''map'')]),
    (''userSettingsPartitionEngineValues'', \<lambda>p. command [''usersettings'', ''partition-engine-values'']
       [validateMapName (pay p ''map''), validatePartitionId (pay p ''partitionId'')]),
    (''userSettingsMetadata'', \<lambda>p. command [''usersettings'', ''metadata''] []),
    (''userSettingsProfileRaw'', \<lambda>p. command [''usersettings'', ''profile-raw''] []),
    (''userSettingsProfileWrite'', \<lambda>p. command [''usersettings'', ''profile-write-b64''] [Some (encodeTextArg (js_or (pay p ''content'') (Str [])))]),
    (''userSettingsProfileGameRaw'', \<lambda>p. command [''usersettings'', ''profile-game-raw''] []),
    (''userSettingsClientGameIni'', client_ini ''client-game-ini''),
    (''userSettingsClientEngineIni'', client_ini ''client-engine-ini''),
    (''userSettingsProfileGameWrite'', \<lambda>p. command [''usersettings'', ''profile-game-write-b64'']
       [Some (encodeTextArg (js_or (pay p ''content'') (Str [])))]),
    (''userSettingsProfileEngineRaw'', \<lambda>p. command [''usersettings'', ''profile-engine-raw''] []),
    (''userSettingsProfileEngineWrite'', \<lambda>p. command [''usersettings'', ''profile-engine-write-b64'']
       [Some (encodeTextArg (js_or (pay p ''content'') (Str [])))]),
    (''userSettingsMapValues'', \<lambda>p. command [''usersettings'', ''map-values''] [validateMapName (pay p ''map'')]),
    (''userSettingsGlobalValues'', \<lambda>p. command [''usersettings'', ''global-values''] []),
    (''userSettingsPartitionValues'', \<lambda>p. command [''usersettings'', ''partition-values'']
       [validateMapName (pay p ''map''), validatePartitionId (pay p ''partitionId'')]),
    (''userSettingsServerCustomValues'', \<lambda>p. command [''usersettings'', ''server-custom-values'']
       [Some (if pay p ''scope'' = Str ''serverCustomGlobal'' then ''global''
          else if pay p ''scope'' = Str ''serverCustomPartition'' then ''partition'' else ''map''),
        map_or_survival p, optional_partition p]),
    (''userSettingsSave'', \<lambda>p. command [''usersettings'', ''bulk-save''] [validateSettingsScope (pay p ''scope''), map_or_survival p,
       optional_partition p, Some (encodeJsonArg (js_or (pay p ''values'') (Obj [])))]),
    (''userSettingsMigrateCoriolisRegionFields'', \<lambda>p. command [''usersettings'', ''migrate-coriolis-region-fields'']
       [Some (text_of (pay p ''region''))]),
    (''userSettingsResetEngineGameplay'', \<lambda>p. command [''usersettings'', ''reset-engine-gameplay''] []),
    (''userSettingsResetMapEngine'', \<lambda>p. command [''usersettings'', ''reset-map-engine''] [validateMapName (pay p ''map'')]),
    (''userSettingsResetPartitionEngine'', \<lambda>p. command [''usersettings'', ''reset-partition-engine'']
       [validateMapName (pay p ''map''), validatePartitionId (pay p ''partitionId'')]),
    (''userSettingsResetGlobalGame'', \<lambda>p. command [''usersettings'', ''reset-global-game''] []),
    (''userSettingsResetGame'', \<lambda>p. if truthy (pay p ''partitionId'')
       then command [''usersettings'', ''reset-game''] [validateMapName (pay p ''map''), validatePartitionId (pay p ''partitionId'')]
       else command [''usersettings'', ''reset-game''] [validateMapName (pay p ''map'')]),
    (''userSettingsResetAll'', \<lambda>p. command [''usersettings'', ''reset-all''] []),
    (''userSettingsMaterializeCurrent'', \<lambda>p. command [''usersettings'', ''materialize-current''] [])]"

definition DUNE_CASES :: "dune_case list" where
  "DUNE_CASES = DUNE_CASES_1 @ DUNE_CASES_2 @ DUNE_CASES_3 @ DUNE_CASES_4"

text \<open>The cases that call \<open>buildDuneArgs\<close> again with another operation.\<close>

definition resetOperation :: "jsval \<Rightarrow> string" where
  "resetOperation p = (let scope = pay p ''scope'' in
     if scope = Str ''engine'' then ''userSettingsResetEngineGameplay''
     else if scope = Str ''mapEngine'' then ''userSettingsResetMapEngine''
     else if scope = Str ''partitionEngine'' then ''userSettingsResetPartitionEngine''
     else if scope = Str ''global'' then ''userSettingsResetGlobalGame'' else ''userSettingsResetGame'')"

definition rawOperation :: "jsval \<Rightarrow> string" where
  "rawOperation p = (let scope = pay p ''scope'' in
     if scope = Str ''profile'' then ''userSettingsProfileWrite''
     else if scope = Str ''engine'' then ''userSettingsRawEngineWrite'' else ''userSettingsRawGameWrite'')"

definition DELEGATED :: "(string \<times> (jsval \<Rightarrow> string)) list" where
  "DELEGATED = [
    (''userSettingsSaveAndRestart'', \<lambda>p. ''userSettingsSave''),
    (''userSettingsResetAndRestart'', resetOperation),
    (''userSettingsRawEngine'', \<lambda>p. ''userSettingsProfileEngineRaw''),
    (''userSettingsRawGame'', \<lambda>p. ''userSettingsProfileGameRaw''),
    (''userSettingsRawEngineWrite'', \<lambda>p. ''userSettingsProfileEngineWrite''),
    (''userSettingsRawGameWrite'', \<lambda>p. ''userSettingsProfileGameWrite''),
    (''userSettingsRawAndRestart'', rawOperation)]"

definition delegation_rank :: "string \<Rightarrow> nat" where
  "delegation_rank op = (if op = ''userSettingsRawAndRestart'' then 2 else if op \<in> set (map fst DELEGATED) then 1 else 0)"

lemma delegation_falls: "map_of DELEGATED op = Some g \<Longrightarrow> delegation_rank (g p) < delegation_rank op"
  by (auto simp: DELEGATED_def delegation_rank_def resetOperation_def rawOperation_def Let_def split: if_splits)

function buildDuneArgs :: "string \<Rightarrow> jsval \<Rightarrow> argv option" where
  "buildDuneArgs operation payload = (case map_of simpleOperations operation of
     Some words \<Rightarrow> Some (map Str words)
   | None \<Rightarrow> (case map_of DELEGATED operation of
       Some target \<Rightarrow> buildDuneArgs (target payload) payload
     | None \<Rightarrow> (case map_of DUNE_CASES operation of Some f \<Rightarrow> f payload | None \<Rightarrow> None)))"
  by pat_completeness auto

termination by (relation "measure (\<lambda>(op, p). delegation_rank op)") (simp_all add: delegation_falls)

declare buildDuneArgs.simps [simp del]

text \<open>What \<open>runDune\<close> starts: the script, or the Python program of the user settings. Which exit codes are a success.\<close>

definition run_program :: "string \<Rightarrow> string \<Rightarrow> argv \<Rightarrow> string \<times> argv" where
  "run_program duneScript repoRoot args = (if args \<noteq> [] \<and> hd args = Str ''usersettings''
     then (''python3'', Str (repoRoot @ ''/runtime/scripts/usersettings.py'') # tl args) else (duneScript, args))"

definition run_succeeds :: "int list option \<Rightarrow> int \<Rightarrow> bool" where
  "run_succeeds allowedExitCodes exit = (exit \<in> set (case allowedExitCodes of Some cs \<Rightarrow> cs | None \<Rightarrow> [0]))"

section \<open>Captured output\<close>

definition MAX_CAPTURED_OUTPUT_CHARS :: nat where
  "MAX_CAPTURED_OUTPUT_CHARS = 4 * 1024 * 1024"

definition OUTPUT_TRUNCATED_MARKER :: string where
  "OUTPUT_TRUNCATED_MARKER = [CHR 0x0A] @ ''[... earlier output truncated ...]'' @ [CHR 0x0A]"

text \<open>\<open>s.slice(-n)\<close>: the last characters, but everything for \<open>n = 0\<close>, since \<open>-0\<close> is \<open>0\<close>.\<close>

definition slice_end :: "nat \<Rightarrow> string \<Rightarrow> string" where
  "slice_end n s = (if n = 0 then s else drop (length s - n) s)"

definition appendBoundedOutput :: "nat \<Rightarrow> string \<Rightarrow> string \<Rightarrow> string" where
  "appendBoundedOutput maxChars current chunk = (let after = current @ chunk in
     if length after \<le> maxChars then after
     else OUTPUT_TRUNCATED_MARKER @ slice_end (maxChars - length OUTPUT_TRUNCATED_MARKER) after)"

definition capture :: "nat \<Rightarrow> string list \<Rightarrow> string" where
  "capture maxChars chunks = foldl (appendBoundedOutput maxChars) [] chunks"

section \<open>Logs of a container\<close>

definition isDynamicServerService :: "jsval \<Rightarrow> bool" where
  "isDynamicServerService service = server_slug (text_of service)"

definition LOG_CONTAINERS :: "(string \<times> string) list" where
  "LOG_CONTAINERS = [
    (''postgres'', ''dune-postgres''),
    (''rmq-admin'', ''dune-rmq-admin''),
    (''rmq-game'', ''dune-rmq-game''),
    (''text-router'', ''dune-text-router''),
    (''director'', ''dune-director''),
    (''gateway'', ''dune-server-gateway''),
    (''survival'', ''dune-server-survival-1''),
    (''survival-1'', ''dune-server-survival-1''),
    (''overmap'', ''dune-server-overmap''),
    (''orchestrator'', ''dune-orchestrator''),
    (''autoscaler'', ''dune-autoscaler''),
    (''coriolis'', ''dune-coriolis-coordinator'')]"

definition dockerContainerForLogService :: "jsval \<Rightarrow> string option" where
  "dockerContainerForLogService service = (case validateServiceName (Str (trimmed service)) of
     None \<Rightarrow> None
   | Some normalized \<Rightarrow> (case map_of LOG_CONTAINERS normalized of
       Some container \<Rightarrow> Some container
     | None \<Rightarrow> (if server_slug normalized then Some normalized else None)))"

record log_options =
  lo_tail :: jsval
  lo_since :: jsval
  lo_follow :: jsval

definition runDockerLogs_args :: "jsval \<Rightarrow> log_options \<Rightarrow> string list option" where
  "runDockerLogs_args service opts = (case validateServiceName service of
     None \<Rightarrow> None
   | Some normalized \<Rightarrow> (let useComposeService = (normalized = ''orchestrator'');
         container = (if useComposeService then Some ''orchestrator'' else dockerContainerForLogService (Str normalized));
         tail = to_str (js_or (lo_tail opts) (num 400));
         args = (if useComposeService then [''compose'', ''logs'', ''--tail'', tail] else [''logs'', ''--tail'', tail])
           @ (if truthy (lo_since opts) then [''--since'', to_str (lo_since opts)] else [])
           @ (if truthy (lo_follow opts) then [''-f''] else [])
       in map_option (\<lambda>c. args @ [c]) container))"

text \<open>
  \<open>Number.parseInt(s, 10)\<close>; \<open>None\<close> is \<open>NaN\<close>, and also a number too large for a double, which is not finite either.
\<close>

definition parse_int10 :: "string \<Rightarrow> int option" where
  "parse_int10 s0 = (let s = trim_left s0;
       neg = (s \<noteq> [] \<and> hd s = CHR ''-'');
       digits = takeWhile is_digit (if s \<noteq> [] \<and> (hd s = CHR ''-'' \<or> hd s = CHR ''+'') then tl s else s);
       value = int (digits_val digits)
     in if digits = [] \<or> 2 ^ 1024 - 2 ^ 970 \<le> value then None else Some (if neg then - value else value))"

text \<open>The shell script that is run in the container is fixed; it is an argument here.\<close>

definition current_log_tail :: "jsval \<Rightarrow> int" where
  "current_log_tail tail = (case parse_int10 (to_str (js_or tail (num 10000))) of
     Some requested \<Rightarrow> max 1 (min 100000 requested) | None \<Rightarrow> 10000)"

definition runDockerCurrentGameLog_args :: "string \<Rightarrow> jsval \<Rightarrow> jsval \<Rightarrow> string list option" where
  "runDockerCurrentGameLog_args script service tail = (case dockerContainerForLogService service of
     None \<Rightarrow> None
   | Some container \<Rightarrow> Some [''exec'', container, ''sh'', ''-c'', script, ''dune-current-game-log'', show_int (current_log_tail tail)])"

section \<open>The list of vehicles\<close>

record vehicle =
  ve_id :: string
  ve_name :: string
  ve_actor :: string
  ve_templates :: "string list"

definition update_last :: "('a \<Rightarrow> 'a) \<Rightarrow> 'a list \<Rightarrow> 'a list" where
  "update_last f xs = (if xs = [] then [] else butlast xs @ [f (last xs)])"

definition vehicle_name :: "string \<Rightarrow> bool" where
  "vehicle_name s = (2 \<le> length s \<and> list_all (\<lambda>c. is_word_char c \<or> c = CHR ''-'') s
     \<and> is_word_char (hd s) \<and> \<not> is_digit (hd s) \<and> hd s \<noteq> CHR ''_'')"

text \<open>One line of the listing; the vehicle a detail belongs to is the last one pushed.\<close>

definition vehicle_line :: "vehicle list \<Rightarrow> string \<Rightarrow> vehicle list" where
  "vehicle_line vehicles rawLine = (let line = js_trim rawLine;
       actor = trim_left (drop 6 line);
       templates = trim_left (drop 10 line)
     in if line = [] then vehicles
        else if starts_with (js_lower line) ''actor:'' \<and> actor \<noteq> [] \<and> one_line actor \<and> vehicles \<noteq> []
        then update_last (ve_actor_update (\<lambda>_. js_trim actor)) vehicles
        else if starts_with (js_lower line) ''templates:'' \<and> one_line templates \<and> vehicles \<noteq> []
        then update_last (ve_templates_update (\<lambda>_. filter (\<lambda>part. part \<noteq> [])
               (map js_trim (split_at (\<lambda>c. c = CHR '','') templates)))) vehicles
        else if vehicle_name line
        then vehicles @ [\<lparr>ve_id = line, ve_name = line, ve_actor = [], ve_templates = []\<rparr>]
        else vehicles)"

definition parseVehicleList :: "string \<Rightarrow> vehicle list" where
  "parseVehicleList stdout = foldl vehicle_line [] (split_at (\<lambda>c. code c = 10) stdout)"

section \<open>Facts on texts and validators\<close>

lemma accept_Some [simp]: "accept ok s = Some t \<longleftrightarrow> ok s \<and> t = s"
  by (auto simp: accept_def)

lemma one_line_simps [simp]:
  "one_line []" "one_line (c # s) \<longleftrightarrow> c \<noteq> CHR 0x0A \<and> c \<noteq> CHR 0x0D \<and> one_line s"
  "one_line (s @ t) \<longleftrightarrow> one_line s \<and> one_line t"
proof -
  have "code c = 10 \<longleftrightarrow> c = CHR 0x0A" "code c = 13 \<longleftrightarrow> c = CHR 0x0D"
    using of_char_eq_iff [where 'a = nat, of c "CHR 0x0A"] of_char_eq_iff [where 'a = nat, of c "CHR 0x0D"] by (simp_all add: code_def)
  then show "one_line (c # s) \<longleftrightarrow> c \<noteq> CHR 0x0A \<and> c \<noteq> CHR 0x0D \<and> one_line s" by (simp add: one_line_def)
qed (simp_all add: one_line_def)

lemma one_line_if: "list_all P s \<Longrightarrow> (\<And>c. P c \<Longrightarrow> code c \<noteq> 10 \<and> code c \<noteq> 13) \<Longrightarrow> one_line s"
  unfolding one_line_def by (auto simp: list_all_iff)

lemma line_chars:
  "is_digit c \<Longrightarrow> code c \<noteq> 10 \<and> code c \<noteq> 13" "is_word_char c \<Longrightarrow> code c \<noteq> 10 \<and> code c \<noteq> 13"
  "is_lower_hex c \<Longrightarrow> code c \<noteq> 10 \<and> code c \<noteq> 13"
  by (auto simp: is_digit_def is_word_char_def is_lower_hex_def)

lemma id_text_line: "id_text extra most s \<Longrightarrow> one_line extra \<Longrightarrow> one_line s"
  unfolding id_text_def one_line_def using line_chars(2) by (auto simp: list_all_iff)

lemma digit_char_line: "d < 10 \<Longrightarrow> code (digit_char d) \<noteq> 10 \<and> code (digit_char d) \<noteq> 13"
  by (simp add: digit_char_def code_def)

lemma show_nat_line [simp]: "one_line (show_nat n)"
proof (induction n rule: show_nat.induct)
  case (1 n)
  then show ?case using digit_char_line [of n] digit_char_line [of "n mod 10"]
    by (subst show_nat.simps) (auto simp: one_line_def)
qed

lemma show_int_line [simp]: "one_line (show_int i)"
  by (simp add: show_int_def)

lemma frac_digits_line: "0 \<le> q \<Longrightarrow> q < 1 \<Longrightarrow> one_line (frac_digits k q)"
proof (induction k arbitrary: q)
  case (Suc k)
  have "floor (10 * q) < 10" using Suc.prems(2) by (simp add: floor_less_iff)
  then have "nat (floor (10 * q)) < 10" by arith
  then have "one_line [digit_char (nat (floor (10 * q)))]" using digit_char_line by (simp add: one_line_def)
  moreover have "one_line (frac_digits k (10 * q - of_int (floor (10 * q))))"
    by (rule Suc.IH) linarith+
  ultimately show ?case by simp
qed simp

lemma show_num_line [simp]: "one_line (show_num n)"
proof (cases n)
  case (Num q)
  have "one_line (frac_digits 20 (\<bar>q\<bar> - of_int (floor \<bar>q\<bar>)))" by (rule frac_digits_line) linarith+
  then show ?thesis by (simp add: Num show_rat_def)
qed simp_all

lemma b64_char_line: "n < 64 \<Longrightarrow> code (b64_char n) \<noteq> 10 \<and> code (b64_char n) \<noteq> 13"
  by (auto simp: b64_char_def code_def)

lemma sextets:
  fixes a b c :: nat
  shows "a < 256 \<Longrightarrow> a div 4 < 64" "b < 256 \<Longrightarrow> a mod 4 * 16 + b div 16 < 64" "c < 256 \<Longrightarrow> b mod 16 * 4 + c div 64 < 64"
    "a mod 4 * 16 < 64" "b mod 16 * 4 < 64"
proof -
  have m: "a mod 4 < 4" "b mod 16 < 16" by simp_all
  show "a < 256 \<Longrightarrow> a div 4 < 64" by (simp add: less_mult_imp_div_less)
  show "a mod 4 * 16 + b div 16 < 64" if "b < 256"
    using m(1) less_mult_imp_div_less [of b 16 16] that by linarith
  show "b mod 16 * 4 + c div 64 < 64" if "c < 256"
    using m(2) less_mult_imp_div_less [of c 4 64] that by linarith
  show "a mod 4 * 16 < 64" "b mod 16 * 4 < 64" using m by linarith+
qed

lemma base64_line: "list_all (\<lambda>b. b < 256) bytes \<Longrightarrow> one_line (base64_text bytes)"
proof (induction bytes rule: base64_text.induct)
  case (2 a)
  then show ?case using b64_char_line [of "a div 4"] b64_char_line [of "a mod 4 * 16"] by (simp add: one_line_def code_def sextets)
next
  case (3 a b)
  then show ?case using b64_char_line [of "a div 4"] b64_char_line [of "a mod 4 * 16 + b div 16"] b64_char_line [of "b mod 16 * 4"]
    by (simp add: one_line_def code_def sextets)
next
  case (4 a b c bytes)
  then show ?case
    using b64_char_line [of "a div 4"] b64_char_line [of "a mod 4 * 16 + b div 16"] b64_char_line [of "b mod 16 * 4 + c div 64"]
      b64_char_line [of "c mod 64"] by (simp add: one_line_def sextets)
qed simp

lemma utf8_small: "list_all (\<lambda>b. b < 256) (utf8_bytes s)"
proof -
  have "code c < 256" for c by (simp add: code_def)
  then have "code c div 64 < 4" "code c mod 64 < 64" for c using less_mult_imp_div_less [of "code c" 4 64] by simp_all
  then have "192 + code c div 64 < 256 \<and> 128 + code c mod 64 < 256" for c
    using \<open>\<And>c. code c div 64 < 4\<close> [of c] \<open>\<And>c. code c mod 64 < 64\<close> [of c] by linarith
  then show ?thesis by (auto simp: utf8_bytes_def list_all_iff Let_def split: if_splits)
qed

lemma encoded_line [simp]: "one_line (encodeTextArg v)" "one_line (encodeJsonArg v)"
  by (simp_all add: encodeTextArg_def encodeJsonArg_def base64_line utf8_small)

definition line_opt :: "string option \<Rightarrow> bool" where
  "line_opt x = (\<forall>s. x = Some s \<longrightarrow> one_line s)"

lemma line_opt_simps [simp]: "line_opt None" "line_opt (Some s) = one_line s"
  by (auto simp: line_opt_def)

lemma line_opt_map: "(\<And>a. one_line (f a)) \<Longrightarrow> line_opt (map_option f x)"
  by (auto simp: line_opt_def)

lemma line_opt_accept: "(\<And>s. ok s \<Longrightarrow> one_line s) \<Longrightarrow> line_opt (accept ok s)"
  by (auto simp: line_opt_def)

lemma line_numbers [simp]: "line_opt (int_text v a b)" "line_opt (number_text v a b)" "line_opt (quality_text v)"
  "line_opt (validatePartitionId v)"
  by (simp_all add: int_text_def number_text_def quality_text_def validatePartitionId_def line_opt_map)

lemma line_ids [simp]: "line_opt (validateRunnerPlayerId v)" "line_opt (validateItemId v)" "line_opt (validateSkillModule v)"
  "line_opt (validateVehicleId v)" "line_opt (validateVehicleTemplate v)" "line_opt (validateMapName v)"
  "line_opt (validateMapOrPartition v)" "line_opt (validateMemoryTarget v)"
  by (auto simp: validateRunnerPlayerId_def validateItemId_def validateSkillModule_def validateVehicleId_def
      validateVehicleTemplate_def validateMapName_def validateMapOrPartition_def validateMemoryTarget_def
      intro!: line_opt_accept dest: id_text_line)

lemma line_choices [simp]: "line_opt (validateSettingsScope v)" "line_opt (validateServerMode v)" "line_opt (validateTemplateName v)"
  "line_opt (validateMapMode v)" "line_opt (validateAutoscalerAction v)" "line_opt (validateDeepDesertAction v)"
  "line_opt (accept (\<lambda>s. s = ''pve'' \<or> s = ''pvp'') t)" "line_opt (validateOptionalFlag v)"
  by (auto simp: validateSettingsScope_def SETTINGS_SCOPES_def validateServerMode_def validateTemplateName_def validateMapMode_def
      validateAutoscalerAction_def validateDeepDesertAction_def validateOptionalFlag_def intro!: line_opt_accept split: jsval.splits)

lemma line_texts [simp]: "line_opt (validateServerTitle v)" "line_opt (validateItemName v)" "line_opt (validateSearchQuery v)"
  "line_opt (validateCatalogQuery v)" "line_opt (validateDisplayName v)" "line_opt (validateSietchPassword v)"
  by (auto simp: validateServerTitle_def validateItemName_def validateSearchQuery_def validateCatalogQuery_def validateDisplayName_def
      validateSietchPassword_def one_line_def list_all_iff intro!: line_opt_accept)

lemma line_commit [simp]: "line_opt (validateCommitSha v)"
  unfolding validateCommitSha_def using line_chars(3) by (auto intro!: line_opt_accept one_line_if [of is_lower_hex])

lemma slug_line: "server_slug s \<Longrightarrow> one_line s"
proof -
  assume s: "server_slug s"
  have r: "js_lower s = ''dune-server-'' @ drop 12 (js_lower s)" using s
    by (auto simp: server_slug_def Let_def starts_with_iff)
  have "one_line (drop 12 (js_lower s))"
    using s by (auto simp: server_slug_def Let_def slug_char_def is_digit_def intro: one_line_if)
  then have "one_line (js_lower s)" by (subst r) simp
  moreover have "one_line (js_lower s) \<Longrightarrow> one_line s"
    by (auto simp: one_line_def js_lower_def list_all_iff lower_char_def)
  ultimately show "one_line s" by simp
qed

lemma alias_slugs: "list_all (\<lambda>(k, v). one_line v) serviceAliases"
  by (simp add: serviceAliases_def)

lemma line_service [simp]: "line_opt (validateServiceName v)"
  using alias_slugs slug_line by (auto simp: validateServiceName_def Let_def line_opt_def list_all_iff dest!: map_of_SomeD split: if_splits)

lemma line_memory [simp]: "line_opt (validateMemoryValue v)"
proof -
  have body: "one_line t" if "memory_size t" for t
  proof -
    obtain r where t: "t = takeWhile is_digit t @ r" "r = dropWhile is_digit t" by simp
    have "one_line (takeWhile is_digit t)" using line_chars(1) by (auto simp: one_line_def list_all_iff dest: set_takeWhileD)
    moreover have "one_line r"
    proof (cases r)
      case (Cons c u)
      then have "list_all is_digit u \<and> c = CHR ''.''" using that t(2) by (auto simp: memory_size_def Let_def)
      then show ?thesis using one_line_if [of is_digit u] line_chars(1) Cons by simp
    qed simp
    ultimately show ?thesis by (subst t(1)) simp
  qed
  show ?thesis unfolding validateMemoryValue_def
  proof (rule line_opt_accept)
    fix s assume s: "s \<noteq> [] \<and> last s \<in> set ''mMgG'' \<and> memory_size (butlast s)"
    then have "one_line (butlast s)" "one_line [last s]" using body [of "butlast s"] by auto
    then show "one_line s" using s one_line_simps(3) [of "butlast s" "[last s]"] by simp
  qed
qed

lemma clock_line: "clock_time s \<Longrightarrow> one_line s"
proof -
  assume "clock_time s"
  then obtain a b c d e where s: "s = [a, b, c, d, e]" and h: "a \<in> set ''01'' \<and> is_digit b \<or> a = CHR ''2'' \<and> b \<in> set ''0123''"
    "c = CHR '':''" "d \<in> set ''012345''" "is_digit e"
    unfolding clock_time_def by (auto simp del: list.set split: list.splits)
  have digits: "x \<in> set ''0123456789'' \<Longrightarrow> is_digit x" for x by (auto simp: is_digit_def code_def)
  have "is_digit a \<and> is_digit b" using h(1) digits [of a] digits [of b] by auto
  moreover have "is_digit d" using h(3) digits [of d] by auto
  ultimately show "one_line s" using h(2,4) line_chars(1) by (simp add: s one_line_def code_def)
qed

lemma line_time [simp]: "line_opt (validateUpdateTime v)"
  unfolding validateUpdateTime_def using clock_line by (rule line_opt_accept)

lemma backup_line: "list_all (\<lambda>c. is_word_char c \<or> c \<in> set ''.-'') s \<Longrightarrow> one_line s"
  by (rule one_line_if, assumption) (use line_chars(2) in \<open>auto simp: code_def\<close>)

lemma line_backup [simp]: "line_opt (validateBackupName v)"
  unfolding validateBackupName_def by (rule line_opt_accept) (blast intro: backup_line)

lemma one_line_join: "one_line sep \<Longrightarrow> list_all one_line ws \<Longrightarrow> one_line (join_with sep ws)"
  by (induction sep ws rule: join_with.induct) auto

lemma line_checkpoints [simp]: "line_opt (validateMinuteCheckpoints v)"
  by (auto simp: validateMinuteCheckpoints_def Let_def line_opt_def list_all_iff intro!: one_line_join split: option.splits if_splits)

lemma all_some_set: "all_some os = Some xs \<Longrightarrow> x \<in> set xs \<Longrightarrow> Some x \<in> set os"
  by (induction os arbitrary: xs) (auto split: option.splits)

lemma set_elements_set [simp]: "set (set_elements xs) = set xs"
  by (induction xs) auto

lemma line_backups: "validateBackupNames v = Some names \<Longrightarrow> list_all one_line names"
proof -
  assume "validateBackupNames v = Some names"
  then obtain vs xs where "all_some (map validateBackupName vs) = Some xs" "names = set_elements xs"
    by (auto simp: validateBackupNames_def split: jsval.splits if_splits)
  then show ?thesis using all_some_set [of "map validateBackupName vs" xs] line_backup
    by (fastforce simp: list_all_iff line_opt_def)
qed

section \<open>The shape of a command line\<close>

text \<open>The first word is fixed by the case, and every argument is a text of one line.\<close>

definition leads :: "string \<Rightarrow> (jsval \<Rightarrow> argv option) \<Rightarrow> bool" where
  "leads w f = (\<forall>p args. f p = Some args \<longrightarrow> (\<exists>r. args = Str w # r))"

definition line_arg :: "jsval \<Rightarrow> bool" where
  "line_arg a = (case a of Str s \<Rightarrow> one_line s | _ \<Rightarrow> False)"

definition single_line :: "(jsval \<Rightarrow> argv option) \<Rightarrow> bool" where
  "single_line f = (\<forall>p args. f p = Some args \<longrightarrow> list_all line_arg args)"

lemma leads_command: "leads w (\<lambda>p. command (w # ws) (os p))"
  by (auto simp: leads_def command_def)

lemma leads_cases:
  "leads w f \<Longrightarrow> leads w g \<Longrightarrow> leads w (\<lambda>p. if c p then f p else g p)" "leads w (\<lambda>p. None)"
  "leads w f \<Longrightarrow> (\<And>y. leads w (h y)) \<Longrightarrow> leads w (\<lambda>p. case m p of None \<Rightarrow> f p | Some y \<Rightarrow> h y p)"
  by (auto simp: leads_def split: option.splits)

lemma leads_bool: "(\<And>b. leads w (f b)) \<Longrightarrow> leads w (\<lambda>p. case v p of Bool b \<Rightarrow> f b p | _ \<Rightarrow> None)"
  by (auto simp: leads_def split: jsval.splits)

lemma leads_tables: "leads ''database'' (\<lambda>p. Some [Str ''database'', Str w, v p])"
  by (simp add: leads_def)

lemmas leads_intros = leads_command leads_cases leads_bool leads_tables

lemma each_case: "list_all P (x # xs) \<longleftrightarrow> P x \<and> list_all P xs" "list_all P [] \<longleftrightarrow> True"
  by simp_all

lemma leads_1: "list_all (\<lambda>(op, f). \<exists>w. leads w f \<and> w \<noteq> ''usersettings'') DUNE_CASES_1"
  unfolding DUNE_CASES_1_def Let_def each_case prod.case simp_thms by (intro conjI; rule exI, rule conjI, (rule leads_intros)+) simp_all

lemma leads_2: "list_all (\<lambda>(op, f). \<exists>w. leads w f \<and> w \<noteq> ''usersettings'') DUNE_CASES_2"
  unfolding DUNE_CASES_2_def Let_def each_case prod.case simp_thms by (intro conjI; rule exI, rule conjI, (rule leads_intros)+) simp_all

lemma leads_3: "list_all (\<lambda>(op, f). \<exists>w. leads w f \<and> w \<noteq> ''usersettings'') DUNE_CASES_3"
  unfolding DUNE_CASES_3_def Let_def each_case prod.case simp_thms by (intro conjI; rule exI, rule conjI, (rule leads_intros)+) simp_all

lemma leads_4: "list_all (\<lambda>(op, f). leads ''usersettings'' f) DUNE_CASES_4"
  unfolding DUNE_CASES_4_def Let_def each_case prod.case simp_thms client_ini_def by (intro conjI; (rule leads_intros)+)

lemma other_names: "list_all (\<lambda>(op, f). \<not> starts_with op ''userSettings'') (DUNE_CASES_1 @ DUNE_CASES_2 @ DUNE_CASES_3)"
  by (simp add: DUNE_CASES_1_def DUNE_CASES_2_def DUNE_CASES_3_def starts_with_def)

lemma single_command: "list_all one_line words \<Longrightarrow> (\<And>p. list_all line_opt (os p)) \<Longrightarrow> single_line (\<lambda>p. command words (os p))"
proof -
  assume w: "list_all one_line words" and o: "\<And>p. list_all line_opt (os p)"
  have "list_all one_line xs" if "all_some (os p) = Some xs" for p xs
    using all_some_set [OF that] o [of p] by (auto simp: list_all_iff line_opt_def)
  then show ?thesis using w by (auto simp: single_line_def command_def line_arg_def list_all_iff)
qed

lemma single_cases:
  "single_line f \<Longrightarrow> single_line g \<Longrightarrow> single_line (\<lambda>p. if c p then f p else g p)" "single_line (\<lambda>p. None)"
  "single_line f \<Longrightarrow> (\<And>y. single_line (h y)) \<Longrightarrow> single_line (\<lambda>p. case m p of None \<Rightarrow> f p | Some y \<Rightarrow> h y p)"
  by (auto simp: single_line_def split: option.splits)

lemma single_bool: "(\<And>b. single_line (f b)) \<Longrightarrow> single_line (\<lambda>p. case v p of Bool b \<Rightarrow> f b p | _ \<Rightarrow> None)"
  by (auto simp: single_line_def split: jsval.splits)

lemma all_some_map [simp]: "all_some (map Some xs) = Some xs"
  by (induction xs) auto

lemma single_names:
  assumes "one_line w" and "one_line u"
  shows "single_line (\<lambda>p. case validateBackupNames (v p) of None \<Rightarrow> None | Some names \<Rightarrow> command [w, u] (map Some names))"
  unfolding single_line_def
proof (intro allI impI)
  fix p args assume "(case validateBackupNames (v p) of None \<Rightarrow> None | Some names \<Rightarrow> command [w, u] (map Some names)) = Some args"
  then obtain names where "validateBackupNames (v p) = Some names" "args = map Str ([w, u] @ names)"
    by (auto simp: command_def split: option.splits)
  then show "list_all line_arg args" using line_backups [of "v p" names] assms by (simp add: list.pred_map comp_def line_arg_def)
qed

lemmas single_intros = single_names single_cases single_bool single_command

text \<open>The cases that pass a text of the payload on as it is.\<close>

definition RAW_OPERATIONS :: "string list" where
  "RAW_OPERATIONS = [''databaseTables'', ''databasePreview'', ''databaseQuery'', ''databaseExport'', ''adminSpecializationMax'',
     ''userSettingsMigrateCoriolisRegionFields'']"

lemma line_flags [simp]: "list_all line_opt (flag_if b w) \<longleftrightarrow> (b \<longrightarrow> one_line w)" "one_line (flag b)"
  by (simp_all add: flag_if_def flag_def)

lemma line_more [simp]: "line_opt (optional_partition p)" "line_opt (map_or_survival p)"
  "line_opt (case t of None \<Rightarrow> None | Some m \<Rightarrow> validateMemoryTarget (Str m))"
  by (simp_all add: optional_partition_def map_or_survival_def split: option.splits)

lemma one_line_bool: "one_line (to_str (Bool b))"
  by simp

lemma single_1: "list_all (\<lambda>(op, f). single_line f) DUNE_CASES_1"
  unfolding DUNE_CASES_1_def Let_def each_case prod.case simp_thms by (intro conjI; (rule single_intros)+) simp_all

lemma single_2: "list_all (\<lambda>(op, f). op \<notin> set RAW_OPERATIONS \<longrightarrow> single_line f) DUNE_CASES_2"
proof -
  have "list_all (\<lambda>(op, f). single_line f) (filter (\<lambda>(op, f). op \<notin> set RAW_OPERATIONS) DUNE_CASES_2)"
    unfolding DUNE_CASES_2_def RAW_OPERATIONS_def
    by simp (intro conjI; (rule single_intros)+; simp)
  then show ?thesis by (auto simp: list_all_iff)
qed

lemma single_3: "list_all (\<lambda>(op, f). single_line f) DUNE_CASES_3"
  unfolding DUNE_CASES_3_def Let_def each_case prod.case simp_thms by (intro conjI single_cases single_command) simp_all

lemma single_4: "list_all (\<lambda>(op, f). op \<notin> set RAW_OPERATIONS \<longrightarrow> single_line f) DUNE_CASES_4"
proof -
  have "list_all (\<lambda>(op, f). single_line f) (filter (\<lambda>(op, f). op \<notin> set RAW_OPERATIONS) DUNE_CASES_4)"
    unfolding DUNE_CASES_4_def RAW_OPERATIONS_def client_ini_def
    by simp (intro conjI single_cases single_command; simp)
  then show ?thesis by (auto simp: list_all_iff)
qed

lemma simple_words:
  "list_all (\<lambda>(op, ws). ws \<noteq> [] \<and> hd ws \<noteq> ''usersettings'' \<and> list_all one_line ws \<and> \<not> starts_with op ''userSettings'') simpleOperations"
  by (simp add: simpleOperations_def starts_with_def)

lemma delegated_names: "list_all (\<lambda>(op, g). starts_with op ''userSettings'') DELEGATED"
  by (simp add: DELEGATED_def starts_with_def)

lemma delegated_targets: "map_of DELEGATED op = Some g \<Longrightarrow> starts_with (g p) ''userSettings'' \<and> g p \<notin> set RAW_OPERATIONS"
  by (auto simp: DELEGATED_def resetOperation_def rawOperation_def RAW_OPERATIONS_def Let_def starts_with_def split: if_splits)

lemma case_names: "list_all (\<lambda>(op, f). starts_with op ''userSettings'') DUNE_CASES_4"
  by (simp add: DUNE_CASES_4_def starts_with_def)

lemma case_leads:
  assumes "map_of DUNE_CASES op = Some f"
  shows "\<exists>w. leads w f \<and> (w = ''usersettings'' \<longleftrightarrow> starts_with op ''userSettings'')"
proof (cases "(op, f) \<in> set DUNE_CASES_4")
  case True
  then show ?thesis using leads_4 case_names by (auto simp: list_all_iff)
next
  case False
  then have "(op, f) \<in> set (DUNE_CASES_1 @ DUNE_CASES_2 @ DUNE_CASES_3)"
    using map_of_SomeD [OF assms] by (auto simp: DUNE_CASES_def)
  then show ?thesis using leads_1 leads_2 leads_3 other_names by (fastforce simp: list_all_iff)
qed

lemma operation_leads: "\<exists>w. leads w (buildDuneArgs op) \<and> (w = ''usersettings'' \<longleftrightarrow> starts_with op ''userSettings'')"
proof (induction "delegation_rank op" arbitrary: op rule: less_induct)
  case less
  show ?case
  proof (cases "map_of simpleOperations op")
    case (Some ws)
    have "ws \<noteq> [] \<and> hd ws \<noteq> ''usersettings'' \<and> \<not> starts_with op ''userSettings''"
      using bspec [OF simple_words [unfolded list_all_iff] map_of_SomeD [OF Some]] by simp
    then show ?thesis using Some
      by (intro exI [of _ "hd ws"]) (cases ws; auto simp: leads_def buildDuneArgs.simps [of op])
  next
    case simple: None
    show ?thesis
    proof (cases "map_of DELEGATED op")
      case (Some g)
      have "leads ''usersettings'' (buildDuneArgs (g p))" for p
        using less [OF delegation_falls [OF Some, of p]] delegated_targets [OF Some, of p] by auto
      then have "leads ''usersettings'' (buildDuneArgs op)" by (auto simp: leads_def buildDuneArgs.simps [of op] simple Some)
      moreover have "starts_with op ''userSettings''"
        using bspec [OF delegated_names [unfolded list_all_iff] map_of_SomeD [OF Some]] by simp
      ultimately show ?thesis by blast
    next
      case direct: None
      show ?thesis
      proof (cases "map_of DUNE_CASES op")
        case None
        then show ?thesis
          by (intro exI [of _ "if starts_with op ''userSettings'' then ''usersettings'' else []"])
            (simp add: leads_def buildDuneArgs.simps [of op] simple direct)
      next
        case (Some f)
        then have "buildDuneArgs op = f" by (intro ext) (simp add: buildDuneArgs.simps [of op] simple direct)
        then show ?thesis using case_leads [OF Some] by simp
      qed
    qed
  qed
qed

lemma case_single: "map_of DUNE_CASES op = Some f \<Longrightarrow> op \<notin> set RAW_OPERATIONS \<Longrightarrow> single_line f"
  using single_1 single_2 single_3 single_4 by (fastforce simp: DUNE_CASES_def list_all_iff dest!: map_of_SomeD)

text \<open>
  The operations whose second word comes from the payload, with the words it can be: a service, a map or a partition
  after a command of one word, or one of a few words the case compares it with.
\<close>

definition SECOND_WORDS :: "(string \<times> (string \<Rightarrow> bool)) list" where
  "SECOND_WORDS = [
    (''restartService'', \<lambda>s. server_slug s \<or> s \<in> set (map snd serviceAliases)),
    (''restartServiceStop'', \<lambda>s. server_slug s \<or> s \<in> set (map snd serviceAliases)),
    (''restartServiceStart'', \<lambda>s. server_slug s \<or> s \<in> set (map snd serviceAliases)),
    (''logs'', \<lambda>s. server_slug s \<or> s \<in> set (map snd serviceAliases)),
    (''mapsSpawn'', id_text '':-'' 80),
    (''mapsDespawn'', id_text '':-'' 80),
    (''autoscalerAction'', \<lambda>s. s \<in> set [''status'', ''start'', ''stop'', ''restart'', ''logs'']),
    (''deepdesertAction'', \<lambda>s. s \<in> set [''layout'', ''dual'']),
    (''userSettingsResetAndRestart'', \<lambda>s. s \<in> set [''reset-engine-gameplay'', ''reset-map-engine'', ''reset-partition-engine'',
       ''reset-global-game'', ''reset-game'']),
    (''userSettingsRawAndRestart'', \<lambda>s. s \<in> set [''profile-write-b64'', ''profile-engine-write-b64'', ''profile-game-write-b64''])]"

definition two_fixed :: "(jsval \<Rightarrow> argv option) \<Rightarrow> bool" where
  "two_fixed f = (\<exists>ws. \<forall>p args. f p = Some args \<longrightarrow> take 2 args = ws)"

definition second_in :: "(string \<Rightarrow> bool) \<Rightarrow> (jsval \<Rightarrow> argv option) \<Rightarrow> bool" where
  "second_in ok f = (\<forall>p args. f p = Some args \<longrightarrow> (\<exists>w s r. args = Str w # Str s # r \<and> ok s))"

definition begins_with :: "jsval list \<Rightarrow> (jsval \<Rightarrow> argv option) \<Rightarrow> bool" where
  "begins_with ws f = (\<forall>p args. f p = Some args \<longrightarrow> take 2 args = ws)"

lemma begins_fixed: "begins_with ws f \<Longrightarrow> two_fixed f"
  by (auto simp: begins_with_def two_fixed_def)

lemma begins_command: "begins_with [Str w, Str u] (\<lambda>p. command (w # u # ws) (os p))" "begins_with [Str w] (\<lambda>p. command [w] [])"
  by (auto simp: begins_with_def command_def)

lemma begins_cases:
  "begins_with w f \<Longrightarrow> begins_with w g \<Longrightarrow> begins_with w (\<lambda>p. if c p then f p else g p)" "begins_with w (\<lambda>p. None)"
  "begins_with w f \<Longrightarrow> (\<And>y. begins_with w (h y)) \<Longrightarrow> begins_with w (\<lambda>p. case m p of None \<Rightarrow> f p | Some y \<Rightarrow> h y p)"
  "(\<And>b. begins_with w (k b)) \<Longrightarrow> begins_with w (\<lambda>p. case v p of Bool b \<Rightarrow> k b p | _ \<Rightarrow> None)"
  by (auto simp: begins_with_def split: option.splits jsval.splits)

lemma begins_tables: "begins_with [Str ''database'', Str w] (\<lambda>p. Some [Str ''database'', Str w, v p])"
  by (simp add: begins_with_def)

lemmas begins_intros = begins_command begins_cases begins_tables

definition fixed_cases :: "dune_case list \<Rightarrow> dune_case list" where
  "fixed_cases cs = filter (\<lambda>(op, f). op \<notin> set (map fst SECOND_WORDS)) cs"

lemma fixed_1: "list_all (\<lambda>(op, f). \<exists>ws. begins_with ws f) (fixed_cases DUNE_CASES_1)"
  unfolding fixed_cases_def DUNE_CASES_1_def SECOND_WORDS_def Let_def
  by simp (intro conjI; rule exI; (rule begins_intros)+)

lemma fixed_2: "list_all (\<lambda>(op, f). \<exists>ws. begins_with ws f) (fixed_cases DUNE_CASES_2)"
  unfolding fixed_cases_def DUNE_CASES_2_def SECOND_WORDS_def Let_def
  by simp (intro conjI; rule exI; (rule begins_intros)+)

lemma fixed_3: "list_all (\<lambda>(op, f). \<exists>ws. begins_with ws f) (fixed_cases DUNE_CASES_3)"
  unfolding fixed_cases_def DUNE_CASES_3_def SECOND_WORDS_def Let_def
  by simp (intro conjI; rule exI; (rule begins_intros)+)

lemma fixed_4: "list_all (\<lambda>(op, f). \<exists>ws. begins_with ws f) (fixed_cases DUNE_CASES_4)"
  unfolding fixed_cases_def DUNE_CASES_4_def SECOND_WORDS_def Let_def client_ini_def
  by simp (intro conjI; rule exI; (rule begins_intros)+)


lemma fixed_append: "fixed_cases (xs @ ys) = fixed_cases xs @ fixed_cases ys"
  by (simp add: fixed_cases_def)

lemma case_fixed:
  assumes "map_of DUNE_CASES op = Some f" and "map_of SECOND_WORDS op = None"
  shows "\<exists>ws. begins_with ws f"
proof -
  have "(op, f) \<in> set (fixed_cases (DUNE_CASES_1 @ DUNE_CASES_2 @ DUNE_CASES_3 @ DUNE_CASES_4))"
    using map_of_SomeD [OF assms(1)] assms(2) by (auto simp: fixed_cases_def DUNE_CASES_def map_of_eq_None_iff)
  then have "(op, f) \<in> set (fixed_cases DUNE_CASES_1) \<or> (op, f) \<in> set (fixed_cases DUNE_CASES_2)
      \<or> (op, f) \<in> set (fixed_cases DUNE_CASES_3) \<or> (op, f) \<in> set (fixed_cases DUNE_CASES_4)"
    unfolding fixed_append set_append Un_iff .
  then show ?thesis
    using bspec [OF fixed_1 [unfolded list_all_iff]] bspec [OF fixed_2 [unfolded list_all_iff]]
      bspec [OF fixed_3 [unfolded list_all_iff]] bspec [OF fixed_4 [unfolded list_all_iff]] by (elim disjE) auto
qed

lemma delegated_constant:
  "list_all (\<lambda>(op, g). op \<notin> set (map fst SECOND_WORDS) \<longrightarrow> (\<exists>t. g = (\<lambda>p. t) \<and> t \<notin> set (map fst SECOND_WORDS))) DELEGATED"
  unfolding DELEGATED_def SECOND_WORDS_def by simp (intro conjI; rule exI, rule conjI, rule refl, simp)

lemma delegated_fixed:
  assumes "map_of DELEGATED op = Some g" and "map_of SECOND_WORDS op = None"
  shows "\<exists>target. g = (\<lambda>p. target) \<and> map_of SECOND_WORDS target = None"
  using bspec [OF delegated_constant [unfolded list_all_iff] map_of_SomeD [OF assms(1)]] assms(2)
  by (simp add: map_of_eq_None_iff)

lemma operation_fixed: "map_of SECOND_WORDS op = None \<Longrightarrow> \<exists>ws. begins_with ws (buildDuneArgs op)"
proof (induction "delegation_rank op" arbitrary: op rule: less_induct)
  case less
  show ?case
  proof (cases "map_of simpleOperations op")
    case (Some ws)
    then show ?thesis by (intro exI [of _ "take 2 (map Str ws)"]) (simp add: begins_with_def buildDuneArgs.simps [of op])
  next
    case simple: None
    show ?thesis
    proof (cases "map_of DELEGATED op")
      case (Some g)
      then obtain target where g: "g = (\<lambda>p. target)" "map_of SECOND_WORDS target = None" using delegated_fixed less.prems by blast
      have "buildDuneArgs op = buildDuneArgs target" by (intro ext) (simp add: buildDuneArgs.simps [of op] simple Some g(1))
      then show ?thesis using less.hyps [OF _ g(2)] delegation_falls [OF Some] g(1) by simp
    next
      case direct: None
      show ?thesis
      proof (cases "map_of DUNE_CASES op")
        case None
        then show ?thesis by (simp add: begins_with_def buildDuneArgs.simps [of op] simple direct)
      next
        case (Some f)
        then have "buildDuneArgs op = f" by (intro ext) (simp add: buildDuneArgs.simps [of op] simple direct)
        then show ?thesis using case_fixed [OF Some less.prems] by simp
      qed
    qed
  qed
qed

lemma second_service: "second_in (\<lambda>s. server_slug s \<or> s \<in> set (map snd serviceAliases)) (\<lambda>p. command [w] [validateServiceName (v p)])"
proof -
  have "server_slug s \<or> s \<in> set (map snd serviceAliases)" if "validateServiceName x = Some s" for x s
  proof (cases "server_slug (trimmed x)")
    case False
    then have "(trimmed x, s) \<in> set serviceAliases" using that by (simp add: validateServiceName_def Let_def map_of_SomeD)
    then show ?thesis by force
  qed (use that in \<open>simp add: validateServiceName_def Let_def\<close>)
  then show ?thesis by (auto simp: second_in_def command_def split: option.splits)
qed

lemma second_accept: "second_in ok (\<lambda>p. command [w] (accept ok (t p) # os p))"
  by (auto simp: second_in_def command_def split: option.splits)

lemma second_literal: "begins_with [Str w, Str u] f \<Longrightarrow> ok u \<Longrightarrow> second_in ok f"
proof -
  assume f: "begins_with [Str w, Str u] f" and u: "ok u"
  have "\<exists>r. args = Str w # Str u # r" if "f p = Some args" for p args
  proof -
    have "take 2 args = [Str w, Str u]" using f that by (simp add: begins_with_def)
    then show ?thesis by (metis append_Cons append_Nil append_take_drop_id)
  qed
  with u show ?thesis unfolding second_in_def by blast
qed


definition second_ok :: "dune_case \<Rightarrow> bool" where
  "second_ok c = (case map_of SECOND_WORDS (fst c) of None \<Rightarrow> True | Some ok \<Rightarrow> second_in ok (snd c))"

lemma second_cases_1: "list_all second_ok DUNE_CASES_1"
  unfolding DUNE_CASES_1_def each_case second_ok_def SECOND_WORDS_def by (simp add: second_service [simplified set_map])

lemma second_cases_2: "list_all second_ok DUNE_CASES_2"
  unfolding DUNE_CASES_2_def each_case second_ok_def SECOND_WORDS_def by simp

lemma second_desert:
  "begins_with [Str ''deepdesert'', Str ''layout''] f \<Longrightarrow> begins_with [Str ''deepdesert'', Str ''dual''] g
    \<Longrightarrow> second_in (\<lambda>s. s = ''layout'' \<or> s = ''dual'') (\<lambda>p. if c p then f p else g p)"
  using second_literal [of _ _ f "\<lambda>s. s = ''layout'' \<or> s = ''dual''"] second_literal [of _ _ g "\<lambda>s. s = ''layout'' \<or> s = ''dual''"]
  by (simp add: second_in_def)

lemma second_cases_3: "list_all second_ok DUNE_CASES_3"
  unfolding DUNE_CASES_3_def each_case second_ok_def SECOND_WORDS_def Let_def validateMapOrPartition_def validateAutoscalerAction_def
  by (simp add: second_accept, rule second_desert; rule begins_command)

lemma second_cases_4: "list_all second_ok DUNE_CASES_4"
  unfolding DUNE_CASES_4_def each_case second_ok_def SECOND_WORDS_def by simp

lemma case_second: "map_of DUNE_CASES op = Some f \<Longrightarrow> map_of SECOND_WORDS op = Some ok \<Longrightarrow> second_in ok f"
proof -
  assume f: "map_of DUNE_CASES op = Some f" and ok: "map_of SECOND_WORDS op = Some ok"
  have "list_all second_ok DUNE_CASES"
    unfolding DUNE_CASES_def list_all_append by (intro conjI second_cases_1 second_cases_2 second_cases_3 second_cases_4)
  then have "second_ok (op, f)" using map_of_SomeD [OF f] unfolding list_all_iff by blast
  then show ?thesis using ok by (simp add: second_ok_def)
qed


lemma settings_lookup:
  assumes "starts_with op ''userSettings''"
  shows "map_of simpleOperations op = None" and "map_of DUNE_CASES op = map_of DUNE_CASES_4 op"
proof -
  show "map_of simpleOperations op = None"
    using assms simple_words by (auto simp: map_of_eq_None_iff list_all_iff)
  have "map_of (DUNE_CASES_1 @ DUNE_CASES_2 @ DUNE_CASES_3) op = None"
  proof (rule ccontr)
    assume "map_of (DUNE_CASES_1 @ DUNE_CASES_2 @ DUNE_CASES_3) op \<noteq> None"
    then obtain f where "(op, f) \<in> set (DUNE_CASES_1 @ DUNE_CASES_2 @ DUNE_CASES_3)" by (meson not_Some_eq map_of_SomeD)
    from bspec [OF other_names [unfolded list_all_iff] this] assms show False by simp
  qed
  then show "map_of DUNE_CASES op = map_of DUNE_CASES_4 op" by (simp add: DUNE_CASES_def map_add_def split: option.splits)
qed

lemma settings_begin:
  assumes "map_of DUNE_CASES_4 op = Some f" and "map_of DELEGATED op = None" and "starts_with op ''userSettings''"
    and "begins_with ws f"
  shows "begins_with ws (buildDuneArgs op)"
  using assms settings_lookup [OF assms(3)] by (simp add: begins_with_def buildDuneArgs.simps [of op])

lemma settings_commands:
  "begins_with [Str ''usersettings'', Str ''reset-engine-gameplay''] (buildDuneArgs ''userSettingsResetEngineGameplay'')"
  "begins_with [Str ''usersettings'', Str ''reset-map-engine''] (buildDuneArgs ''userSettingsResetMapEngine'')"
  "begins_with [Str ''usersettings'', Str ''reset-partition-engine''] (buildDuneArgs ''userSettingsResetPartitionEngine'')"
  "begins_with [Str ''usersettings'', Str ''reset-global-game''] (buildDuneArgs ''userSettingsResetGlobalGame'')"
  "begins_with [Str ''usersettings'', Str ''reset-game''] (buildDuneArgs ''userSettingsResetGame'')"
  "begins_with [Str ''usersettings'', Str ''profile-write-b64''] (buildDuneArgs ''userSettingsProfileWrite'')"
  "begins_with [Str ''usersettings'', Str ''profile-engine-write-b64''] (buildDuneArgs ''userSettingsProfileEngineWrite'')"
  "begins_with [Str ''usersettings'', Str ''profile-game-write-b64''] (buildDuneArgs ''userSettingsProfileGameWrite'')"
  by (rule settings_begin, simp add: DUNE_CASES_4_def, simp add: DELEGATED_def, simp add: starts_with_def, (rule begins_intros)+)+

lemma second_of: "begins_with [Str w, Str u] f \<Longrightarrow> f p = Some args \<Longrightarrow> \<exists>r. args = Str w # Str u # r"
  by (metis append_Cons append_Nil append_take_drop_id begins_with_def)

lemma raw_write_commands:
  "buildDuneArgs ''userSettingsRawEngineWrite'' = buildDuneArgs ''userSettingsProfileEngineWrite''"
  "buildDuneArgs ''userSettingsRawGameWrite'' = buildDuneArgs ''userSettingsProfileGameWrite''"
  by (intro ext; subst buildDuneArgs.simps; simp add: simpleOperations_def DELEGATED_def)+

lemma second_reset:
  assumes "buildDuneArgs (resetOperation p) p = Some args"
  shows "\<exists>s r. args = Str ''usersettings'' # Str s # r \<and> s \<in> set [''reset-engine-gameplay'', ''reset-map-engine'',
    ''reset-partition-engine'', ''reset-global-game'', ''reset-game'']"
proof -
  have "resetOperation p \<in> set [''userSettingsResetEngineGameplay'', ''userSettingsResetMapEngine'',
      ''userSettingsResetPartitionEngine'', ''userSettingsResetGlobalGame'', ''userSettingsResetGame'']"
    by (simp add: resetOperation_def Let_def)
  then show ?thesis
    using assms settings_commands(1-5) [THEN second_of, of p args] by fastforce
qed

lemma second_raw:
  assumes "buildDuneArgs (rawOperation p) p = Some args"
  shows "\<exists>s r. args = Str ''usersettings'' # Str s # r
    \<and> s \<in> set [''profile-write-b64'', ''profile-engine-write-b64'', ''profile-game-write-b64'']"
proof -
  have "rawOperation p \<in> set [''userSettingsProfileWrite'', ''userSettingsRawEngineWrite'', ''userSettingsRawGameWrite'']"
    by (simp add: rawOperation_def Let_def)
  then show ?thesis
    using assms settings_commands(6-8) [THEN second_of, of p args] by (fastforce simp: raw_write_commands)
qed

lemma delegated_second:
  "second_in (\<lambda>s. s \<in> set [''reset-engine-gameplay'', ''reset-map-engine'', ''reset-partition-engine'', ''reset-global-game'',
     ''reset-game'']) (buildDuneArgs ''userSettingsResetAndRestart'')"
  "second_in (\<lambda>s. s \<in> set [''profile-write-b64'', ''profile-engine-write-b64'', ''profile-game-write-b64''])
     (buildDuneArgs ''userSettingsRawAndRestart'')"
proof -
  have r: "buildDuneArgs ''userSettingsResetAndRestart'' = (\<lambda>p. buildDuneArgs (resetOperation p) p)"
      "buildDuneArgs ''userSettingsRawAndRestart'' = (\<lambda>p. buildDuneArgs (rawOperation p) p)"
    by (intro ext; subst buildDuneArgs.simps; simp add: simpleOperations_def DELEGATED_def)+
  show "second_in (\<lambda>s. s \<in> set [''reset-engine-gameplay'', ''reset-map-engine'', ''reset-partition-engine'', ''reset-global-game'',
     ''reset-game'']) (buildDuneArgs ''userSettingsResetAndRestart'')"
    unfolding second_in_def r using second_reset by blast
  show "second_in (\<lambda>s. s \<in> set [''profile-write-b64'', ''profile-engine-write-b64'', ''profile-game-write-b64''])
     (buildDuneArgs ''userSettingsRawAndRestart'')"
    unfolding second_in_def r using second_raw by blast
qed

lemma second_delegates: "list_all (\<lambda>(op, ok). op \<in> set (map fst DELEGATED) \<longrightarrow> second_in ok (buildDuneArgs op)) SECOND_WORDS"
  unfolding SECOND_WORDS_def DELEGATED_def each_case prod.case by (simp del: list.set) (intro conjI impI; (rule delegated_second | simp))


lemma operation_second:
  assumes "map_of SECOND_WORDS op = Some ok"
  shows "second_in ok (buildDuneArgs op)"
proof -
  have names: "list_all (\<lambda>(op, ok). map_of simpleOperations op = None) SECOND_WORDS"
    by (simp add: SECOND_WORDS_def simpleOperations_def)
  have simple: "map_of simpleOperations op = None"
    using bspec [OF names [unfolded list_all_iff] map_of_SomeD [OF assms]] by simp
  show ?thesis
  proof (cases "map_of DELEGATED op")
    case (Some g)
    then have "op \<in> set (map fst DELEGATED)" using map_of_SomeD by force
    then show ?thesis using bspec [OF second_delegates [unfolded list_all_iff] map_of_SomeD [OF assms]] by simp
  next
    case direct: None
    show ?thesis
    proof (cases "map_of DUNE_CASES op")
      case None
      then show ?thesis by (simp add: second_in_def buildDuneArgs.simps [of op] simple direct)
    next
      case (Some f)
      then have "buildDuneArgs op = f" by (intro ext) (simp add: buildDuneArgs.simps [of op] simple direct)
      then show ?thesis using case_second [OF Some assms] by simp
    qed
  qed
qed

text \<open>
  C23. A request never chooses the program or the subcommand: whatever the payload, an operation always runs with the
  same first word, and the Python program that edits the settings is run for the \<open>userSettings\<close> operations and for no
  other. The second word does not depend on the payload either, except for the ten operations of \<open>SECOND_WORDS\<close>: there it
  is one of a few fixed words (the autoscaler, the Deep Desert, a reset, a raw write), or the service, map or partition
  that a command of one word takes, in the form its validator accepts.
\<close>

theorem payload_never_picks_command:
  assumes "buildDuneArgs op p = Some a" and "buildDuneArgs op q = Some b"
  shows "a \<noteq> [] \<and> hd a = hd b \<and> (fst (run_program script dir a) = ''python3'' \<longleftrightarrow> starts_with op ''userSettings'' \<or> script = ''python3'')
    \<and> (case map_of SECOND_WORDS op of None \<Rightarrow> take 2 a = take 2 b
       | Some ok \<Rightarrow> \<exists>s r. a = hd a # Str s # r \<and> ok s)"
proof -
  obtain w where w: "leads w (buildDuneArgs op)" "w = ''usersettings'' \<longleftrightarrow> starts_with op ''userSettings''" using operation_leads by blast
  then obtain r r' where ab: "a = Str w # r" "b = Str w # r'" using assms unfolding leads_def by blast
  have "case map_of SECOND_WORDS op of None \<Rightarrow> take 2 a = take 2 b | Some ok \<Rightarrow> \<exists>s r. a = hd a # Str s # r \<and> ok s"
  proof (cases "map_of SECOND_WORDS op")
    case None
    then show ?thesis using operation_fixed [OF None] assms by (auto simp: begins_with_def)
  next
    case (Some ok)
    then show ?thesis using operation_second [OF Some] assms(1) by (fastforce simp: second_in_def)
  qed
  with ab w(2) show ?thesis by (auto simp: run_program_def)
qed

text \<open>
  C24. No operation but the six that pass raw text on lets a line break of a request into a command line: every
  argument is a text without carriage return and line feed, for every payload.
\<close>

theorem arguments_are_single_lines:
  assumes "op \<notin> set RAW_OPERATIONS" and "buildDuneArgs op p = Some args" and "a \<in> set args"
  shows "\<exists>s. a = Str s \<and> one_line s"
proof -
  have "list_all line_arg args" using assms(1,2)
  proof (induction op p arbitrary: args rule: buildDuneArgs.induct)
    case (1 op p)
    show ?case
    proof (cases "map_of simpleOperations op")
      case (Some ws)
      then have "list_all one_line ws" using bspec [OF simple_words [unfolded list_all_iff] map_of_SomeD [OF Some]] by (simp add: list_all_iff)
      then show ?thesis using "1.prems" Some by (auto simp: buildDuneArgs.simps [of op] list_all_iff line_arg_def)
    next
      case simple: None
      show ?thesis
      proof (cases "map_of DELEGATED op")
        case (Some g)
        then show ?thesis using "1.IH" [OF simple Some] "1.prems" delegated_targets [OF Some] simple
          by (simp add: buildDuneArgs.simps [of op])
      next
        case None
        then show ?thesis using "1.prems" simple case_single
          by (auto simp: buildDuneArgs.simps [of op] single_line_def split: option.splits)
      qed
    qed
  qed
  then have "line_arg a" using assms(3) by (simp add: list_all_iff)
  then show ?thesis by (cases a) (simp_all add: line_arg_def)
qed

theorem payload_never_picks_command_witness:
  "buildDuneArgs ''adminKick'' (Obj [(''playerId'', Str ''db'')]) = Some (map Str [''admin'', ''kick'', ''db'', ''--yes'', ''--force''])
   \<and> fst (run_program ''dune'' ''/srv'' (map Str [''admin'', ''kick'', ''db'', ''--yes'', ''--force''])) = ''dune''"
proof -
  let ?a = "map Str [''admin'', ''kick'', ''db'', ''--yes'', ''--force'']"
  have "buildDuneArgs ''adminKick'' (Obj [(''playerId'', Str ''db'')]) = Some ?a" by code_simp
  moreover from payload_never_picks_command [OF this this, of "''dune''" "''/srv''"]
  have "fst (run_program ''dune'' ''/srv'' ?a) = ''dune''" by (simp add: starts_with_def run_program_def)
  ultimately show ?thesis by simp
qed

theorem arguments_are_single_lines_witness:
  "\<exists>s. Str ''Arrakis'' = Str s \<and> one_line s \<and> buildDuneArgs ''serverTitle'' (Obj [(''title'', Str ''Arrakis'')])
     = Some (map Str [''config'', ''title'', ''Arrakis'', ''--yes''])"
proof -
  have args: "buildDuneArgs ''serverTitle'' (Obj [(''title'', Str ''Arrakis'')]) = Some (map Str [''config'', ''title'', ''Arrakis'', ''--yes''])"
    by code_simp
  have "''serverTitle'' \<notin> set RAW_OPERATIONS" by (simp add: RAW_OPERATIONS_def)
  from arguments_are_single_lines [OF this args, of "Str ''Arrakis''"] args show ?thesis by simp
qed

text \<open>
  A name that looks like an option passes the validator of backup names: deleting one backup of that name is the
  command line that deletes all of them.
\<close>

theorem one_backup_named_all:
  "buildDuneArgs ''backupDelete'' (Obj [(''backup'', Str ''--all'')]) = buildDuneArgs ''backupDeleteAll'' (Obj [])
   \<and> buildDuneArgs ''backupDelete'' (Obj [(''backup'', Str ''--all'')]) = Some (map Str [''db'', ''delete'', ''--all''])"
  by code_simp

section \<open>Captured output\<close>

text \<open>The tail that is kept is the tail of everything written so far, and the marker stands in front of it once.\<close>

definition bounded_tail :: "nat \<Rightarrow> string \<Rightarrow> string" where
  "bounded_tail maxChars whole = (if length whole \<le> maxChars then whole
     else OUTPUT_TRUNCATED_MARKER @ drop (length whole - (maxChars - length OUTPUT_TRUNCATED_MARKER)) whole)"

lemma append_bounded_tail:
  assumes "length OUTPUT_TRUNCATED_MARKER < n"
  shows "appendBoundedOutput n (bounded_tail n whole) chunk = bounded_tail n (whole @ chunk)"
proof (cases "length whole \<le> n \<or> chunk = []")
  case True
  then show ?thesis using assms by (auto simp: appendBoundedOutput_def bounded_tail_def slice_end_def Let_def)
next
  case False
  then obtain d where "length whole = n + d" "0 < d" "0 < length chunk" by (metis le_add_diff_inverse length_greater_0_conv not_less zero_less_diff
    order.strict_implies_order)
  with assms show ?thesis by (simp add: appendBoundedOutput_def bounded_tail_def slice_end_def Let_def ac_simps)
qed

text \<open>
  C25. Bounding the captured output chunk by chunk equals bounding it once at the end: however the output of a
  command is cut into chunks, what is kept is the whole of it, or the marker and its last characters, never more
  than the limit.
\<close>

theorem capture_is_bounded_tail:
  assumes "length OUTPUT_TRUNCATED_MARKER < n"
  shows "capture n chunks = bounded_tail n (concat chunks) \<and> length (capture n chunks) \<le> n"
proof -
  have "foldl (appendBoundedOutput n) (bounded_tail n whole) chunks = bounded_tail n (whole @ concat chunks)" for whole
    by (induction chunks arbitrary: whole) (simp_all add: append_bounded_tail [OF assms])
  from this [of "[]"] have "capture n chunks = bounded_tail n (concat chunks)"
    by (simp add: capture_def bounded_tail_def [of n "[]"])
  moreover have "length (bounded_tail n whole) \<le> n" for whole using assms by (auto simp: bounded_tail_def)
  ultimately show ?thesis by simp
qed

theorem capture_is_bounded_tail_witness:
  "capture 40 [''0123456789012345678901234'', ''5678901234567890''] = OUTPUT_TRUNCATED_MARKER @ ''7890''
   \<and> length OUTPUT_TRUNCATED_MARKER < 40 \<and> length OUTPUT_TRUNCATED_MARKER < MAX_CAPTURED_OUTPUT_CHARS"
proof -
  have "length OUTPUT_TRUNCATED_MARKER < 40" "length OUTPUT_TRUNCATED_MARKER < MAX_CAPTURED_OUTPUT_CHARS"
    by (simp_all add: OUTPUT_TRUNCATED_MARKER_def MAX_CAPTURED_OUTPUT_CHARS_def)
  then show ?thesis using capture_is_bounded_tail [of 40 "[''0123456789012345678901234'', ''5678901234567890'']"]
    by (simp add: bounded_tail_def OUTPUT_TRUNCATED_MARKER_def)
qed

section \<open>Names of containers\<close>

lemma text_of_Str [simp]: "text_of (Str s) = s"
  by (simp add: text_of_def js_or_def)

lemma trimmed_again [simp]: "trimmed (Str (trimmed v)) = trimmed v"
  by (simp add: trimmed_def)

lemma service_twice: "validateServiceName (Str (trimmed v)) = validateServiceName v"
  by (simp add: validateServiceName_def)

lemma alias_targets:
  "list_all (\<lambda>(k, s). map_of LOG_CONTAINERS s \<noteq> None \<and> map_of serviceAliases s = Some s \<and> js_trim s = s \<and> \<not> server_slug s) serviceAliases"
  by code_simp

lemma container_names: "list_all (\<lambda>(k, c). starts_with c ''dune-'' \<and> list_all slug_char c) LOG_CONTAINERS"
  by code_simp

lemma trimmed_trim: "js_trim (trimmed v) = trimmed v"
  by (simp add: trimmed_def)

lemma service_normalized:
  assumes "validateServiceName v = Some s"
  shows "validateServiceName (Str s) = Some s \<and> js_trim s = s"
proof (cases "server_slug (trimmed v)")
  case True
  then show ?thesis using assms trimmed_trim [of v] by (simp add: validateServiceName_def Let_def trimmed_def [of "Str _"])
next
  case False
  then have "(trimmed v, s) \<in> set serviceAliases" using assms by (auto simp: validateServiceName_def Let_def dest: map_of_SomeD)
  then show ?thesis using bspec [OF alias_targets [unfolded list_all_iff]] by (fastforce simp: validateServiceName_def trimmed_def)
qed

lemma container_of:
  assumes "validateServiceName v = Some s"
  shows "\<exists>c. dockerContainerForLogService v = Some c \<and> dockerContainerForLogService (Str s) = Some c
    \<and> (c \<in> set (map snd LOG_CONTAINERS) \<or> server_slug c)"
proof -
  have s: "validateServiceName (Str (trimmed (Str s))) = Some s" using service_normalized [OF assms] by (simp add: trimmed_def)
  have "\<exists>c. map_of LOG_CONTAINERS s = Some c \<or> map_of LOG_CONTAINERS s = None \<and> server_slug s \<and> c = s"
  proof (cases "server_slug (trimmed v)")
    case True
    then show ?thesis using assms by (cases "map_of LOG_CONTAINERS s") (auto simp: validateServiceName_def Let_def)
  next
    case False
    then have "(trimmed v, s) \<in> set serviceAliases" using assms by (auto simp: validateServiceName_def Let_def dest: map_of_SomeD)
    then show ?thesis using bspec [OF alias_targets [unfolded list_all_iff]] by fastforce
  qed
  then obtain c where c: "map_of LOG_CONTAINERS s = Some c \<or> map_of LOG_CONTAINERS s = None \<and> server_slug s \<and> c = s" by blast
  moreover have "c \<in> set (map snd LOG_CONTAINERS) \<or> server_slug c" using c by (force dest: map_of_SomeD)
  ultimately show ?thesis using assms s
    by (intro exI [of _ c]) (auto simp: dockerContainerForLogService_def service_twice simp del: set_map)
qed

text \<open>
  Logs are read from containers of the game only: a service is refused by the container lookup exactly when the
  validator refuses it, and the last word of a \<open>docker logs\<close> command is \<open>orchestrator\<close>, one of the listed containers
  or a name of the form \<open>dune-server-...\<close>, whatever the other options are.
\<close>

theorem logs_of_known_containers:
  "(dockerContainerForLogService v = None \<longleftrightarrow> validateServiceName v = None)
   \<and> (runDockerLogs_args v opts = None \<longleftrightarrow> validateServiceName v = None)
   \<and> (runDockerLogs_args v opts = Some args \<longrightarrow>
        last args = ''orchestrator'' \<or> last args \<in> set (map snd LOG_CONTAINERS) \<or> server_slug (last args))"
proof (cases "validateServiceName v")
  case None
  then show ?thesis by (simp add: dockerContainerForLogService_def runDockerLogs_args_def service_twice)
next
  case (Some s)
  then obtain c where c: "dockerContainerForLogService v = Some c" "dockerContainerForLogService (Str s) = Some c"
    "c \<in> set (map snd LOG_CONTAINERS) \<or> server_slug c" using container_of [OF Some] by blast
  have "\<exists>as c'. runDockerLogs_args v opts = Some (as @ [c']) \<and> (c' = ''orchestrator'' \<or> c' = c)"
    by (simp add: runDockerLogs_args_def Some c(2) Let_def)
  then show ?thesis using c(1,3) Some by (auto simp del: set_map)
qed

theorem logs_of_known_containers_witness:
  "runDockerLogs_args (Str '' sgw '') \<lparr>lo_tail = Undef, lo_since = Undef, lo_follow = Bool True\<rparr>
     = Some [''logs'', ''--tail'', ''400'', ''-f'', ''dune-server-gateway'']
   \<and> (last [''logs'', ''--tail'', ''400'', ''-f'', ''dune-server-gateway''] = ''orchestrator''
      \<or> ''dune-server-gateway'' \<in> set (map snd LOG_CONTAINERS) \<or> server_slug ''dune-server-gateway'')"
proof -
  have "runDockerLogs_args (Str '' sgw '') \<lparr>lo_tail = Undef, lo_since = Undef, lo_follow = Bool True\<rparr>
     = Some [''logs'', ''--tail'', ''400'', ''-f'', ''dune-server-gateway'']" by code_simp
  with logs_of_known_containers [of "Str '' sgw ''" "\<lparr>lo_tail = Undef, lo_since = Undef, lo_follow = Bool True\<rparr>"
      "[''logs'', ''--tail'', ''400'', ''-f'', ''dune-server-gateway'']"] show ?thesis by simp
qed

section \<open>The encoded text comes back\<close>

text \<open>
  What the Python program reads with \<open>base64.b64decode\<close> and UTF-8, for texts the encoder makes: base64 with its padding,
  then sequences of one or two bytes.
\<close>

definition b64_value :: "char \<Rightarrow> nat" where
  "b64_value c = (let k = code c in if 65 \<le> k \<and> k \<le> 90 then k - 65 else if 97 \<le> k \<and> k \<le> 122 then k - 71
     else if 48 \<le> k \<and> k \<le> 57 then k + 4 else if k = 43 then 62 else 63)"

fun base64_bytes :: "string \<Rightarrow> nat list" where
  "base64_bytes (p # q # r # s # rest) = (let w = b64_value p; x = b64_value q; y = b64_value r; z = b64_value s in
     if r = CHR ''='' then [w * 4 + x div 16]
     else if s = CHR ''='' then [w * 4 + x div 16, x mod 16 * 16 + y div 4]
     else [w * 4 + x div 16, x mod 16 * 16 + y div 4, y mod 4 * 64 + z] @ base64_bytes rest)"
| "base64_bytes _ = []"

fun utf8_text :: "nat list \<Rightarrow> string" where
  "utf8_text [] = []"
| "utf8_text [b] = [char_of b]"
| "utf8_text (b # c # bs) = (if b < 128 then char_of b # utf8_text (c # bs)
     else char_of ((b - 192) * 64 + (c - 128)) # utf8_text bs)"

lemma b64_back: "n < 64 \<Longrightarrow> b64_value (b64_char n) = n \<and> b64_char n \<noteq> CHR ''=''"
proof -
  assume "n < 64"
  then have "code (b64_char n) = (if n < 26 then 65 + n else if n < 52 then 71 + n else if n < 62 then n - 4 else if n = 62 then 43 else 47)"
    by (simp add: b64_char_def code_def)
  then show ?thesis using \<open>n < 64\<close> by (auto simp: b64_value_def Let_def code_def split: if_splits)
qed

lemma base64_back: "list_all (\<lambda>b. b < 256) bytes \<Longrightarrow> base64_bytes (base64_text bytes) = bytes"
proof (induction bytes rule: base64_text.induct)
  case (3 a b)
  then have "b div 16 < 16" using less_mult_imp_div_less [of b 16 16] by simp
  with 3 show ?case by (simp add: Let_def b64_back sextets div_mult_mod_eq)
next
  case (4 a b c bytes)
  then have "b div 16 < 16" "c div 64 < 4" using less_mult_imp_div_less [of b 16 16] less_mult_imp_div_less [of c 4 64] by simp_all
  with 4 show ?case by (simp add: Let_def b64_back sextets div_mult_mod_eq)
qed (simp_all add: Let_def b64_back sextets)

lemma utf8_back: "utf8_text (utf8_bytes s) = s"
proof (induction s)
  case (Cons c s)
  have small: "code c < 256" by (simp add: code_def)
  have char: "char_of (code c) = c" by (simp add: code_def)
  have tail: "utf8_text (b # utf8_bytes s) = char_of b # utf8_text (utf8_bytes s)" if "b < 128" for b
    using that by (cases "utf8_bytes s") simp_all
  show ?case
  proof (cases "code c < 128")
    case True
    then show ?thesis using Cons tail [OF True] char by (simp add: utf8_bytes_def Let_def)
  next
    case False
    then show ?thesis using Cons char by (simp add: utf8_bytes_def Let_def div_mult_mod_eq mult.commute)
  qed
qed (simp add: utf8_bytes_def)

text \<open>The operations whose payload carries the text of a settings file.\<close>

definition TEXT_OPERATIONS :: "string list" where
  "TEXT_OPERATIONS = [''userSettingsProfileWrite'', ''userSettingsProfileGameWrite'', ''userSettingsProfileEngineWrite'',
     ''userSettingsRawEngineWrite'', ''userSettingsRawGameWrite'', ''userSettingsRawAndRestart'']"

definition writes_text :: "string \<Rightarrow> (jsval \<Rightarrow> argv option) \<Rightarrow> bool" where
  "writes_text w f = (\<forall>p. f p = command [''usersettings'', w] [Some (encodeTextArg (js_or (pay p ''content'') (Str [])))])"

lemma text_begin:
  assumes "map_of DUNE_CASES_4 op = Some f" and "map_of DELEGATED op = None" and "starts_with op ''userSettings''"
    and "writes_text w f"
  shows "writes_text w (buildDuneArgs op)"
  using assms settings_lookup [OF assms(3)] by (simp add: writes_text_def buildDuneArgs.simps [of op])

lemma text_commands:
  "writes_text ''profile-write-b64'' (buildDuneArgs ''userSettingsProfileWrite'')"
  "writes_text ''profile-game-write-b64'' (buildDuneArgs ''userSettingsProfileGameWrite'')"
  "writes_text ''profile-engine-write-b64'' (buildDuneArgs ''userSettingsProfileEngineWrite'')"
  by (rule text_begin, simp add: DUNE_CASES_4_def, simp add: DELEGATED_def, simp add: starts_with_def, simp add: writes_text_def)+

lemma raw_and_restart: "buildDuneArgs ''userSettingsRawAndRestart'' = (\<lambda>p. buildDuneArgs (rawOperation p) p)"
  by (intro ext; subst buildDuneArgs.simps; simp add: simpleOperations_def DELEGATED_def)

lemma text_operation:
  assumes "op \<in> set TEXT_OPERATIONS"
  shows "\<exists>w. buildDuneArgs op p = command [''usersettings'', w] [Some (encodeTextArg (js_or (pay p ''content'') (Str [])))]"
proof -
  note texts = text_commands [unfolded writes_text_def, THEN spec, of p]
  have raw: "rawOperation p = ''userSettingsProfileWrite'' \<or> rawOperation p = ''userSettingsRawEngineWrite''
      \<or> rawOperation p = ''userSettingsRawGameWrite''" by (simp add: rawOperation_def Let_def)
  from assms have "op = ''userSettingsProfileWrite'' \<or> op = ''userSettingsProfileGameWrite'' \<or> op = ''userSettingsProfileEngineWrite''
      \<or> op = ''userSettingsRawEngineWrite'' \<or> op = ''userSettingsRawGameWrite'' \<or> op = ''userSettingsRawAndRestart''"
    by (simp add: TEXT_OPERATIONS_def)
  then show ?thesis using raw by (elim disjE) (simp_all add: raw_and_restart raw_write_commands texts, blast+)
qed

text \<open>
  C27. A settings file survives the command line: whatever text of characters below 256 an operator saves through any of
  the six operations that write one, quotes, line breaks and option characters included, the argument it becomes is one
  line, and decoding it, base64 and then UTF-8 as the settings program does, gives back the text.
\<close>

theorem saved_text_comes_back:
  assumes "op \<in> set TEXT_OPERATIONS" and "getp p ''content'' = Str s"
  shows "\<exists>w t. buildDuneArgs op p = Some [Str ''usersettings'', Str w, Str t] \<and> one_line t \<and> utf8_text (base64_bytes t) = s"
proof -
  obtain w where w: "buildDuneArgs op p = command [''usersettings'', w] [Some (encodeTextArg (js_or (pay p ''content'') (Str [])))]"
    using text_operation [OF assms(1)] by blast
  have "js_or (Str s) (Str []) = Str s" by (simp add: js_or_def)
  then have "buildDuneArgs op p = Some [Str ''usersettings'', Str w, Str (encodeTextArg (Str s))]"
    using w assms(2) by (simp add: command_def)
  moreover have "utf8_text (base64_bytes (encodeTextArg (Str s))) = s"
    by (simp add: encodeTextArg_def base64_back utf8_small utf8_back)
  ultimately show ?thesis by (intro exI [of _ w] exI [of _ "encodeTextArg (Str s)"]) simp
qed

theorem saved_text_comes_back_witness:
  "\<exists>w t. buildDuneArgs ''userSettingsRawAndRestart'' (Obj [(''scope'', Str ''engine''), (''content'', Str [CHR 0x0A, CHR 0xE9])])
      = Some [Str ''usersettings'', Str w, Str t] \<and> one_line t \<and> utf8_text (base64_bytes t) = [CHR 0x0A, CHR 0xE9]"
  by (rule saved_text_comes_back) (simp_all add: TEXT_OPERATIONS_def)

end
