(* ===== verification/Tasks.thy ===== *)
theory Tasks
  imports Runner JsonStore
begin

text \<open>
  The tasks of the console: \<open>console/api/src/tasks.js\<close>. A task expands to a list of operations that run one after
  the other; the manager keeps the tasks, hands out what a hook of the caller is told on success, and trims the list.
  The module also quotes the command of the update helper for the shell, removes helpers that were left behind, and
  keeps the log of a task. The commands themselves, the update check caches, the flush of queued writes and the
  subscribers are the environment: a step says how an operation ended. Time stamps of log lines are not modelled.
\<close>

section \<open>Operations of a task\<close>

definition MAP_DOWN_OPERATIONS :: "string list" where
  "MAP_DOWN_OPERATIONS = [''mapsDespawn'', ''restartService'', ''restartServiceStop'', ''sietchesRestartStop'', ''stopGameServersForDbWrites'']"

definition restartServiceOperations :: "jsval \<Rightarrow> string list option" where
  "restartServiceOperations payload = map_option (\<lambda>service.
     if service = ''survival'' \<or> service = ''survival-1'' then [''restartServiceStop'', ''restartServiceStart'']
     else [''restartService'']) (validateServiceName (getp payload ''service''))"

definition restartOperations :: "jsval \<Rightarrow> string list option" where
  "restartOperations payload = (let restartMode = getp payload ''restartMode'' in
     if restartMode = Str ''none'' then Some []
     else if restartMode = Str ''stack'' then Some [''stop'', ''start'']
     else if restartMode = Str ''service'' then restartServiceOperations payload
     else if restartMode = Str ''respawn'' \<and> getp payload ''mode'' = Str ''disabled'' then Some []
     else if restartMode = Str ''respawn'' then Some [''mapsDespawn'', ''mapsSpawn'']
     else Some [])"

definition taskOperations :: "string \<Rightarrow> jsval \<Rightarrow> string list option" where
  "taskOperations operation payload =
     (if operation = ''restartAll'' then Some [''stopGameServersForDbWrites'', ''stop'', ''start'']
      else if operation = ''restartService'' then restartServiceOperations payload
      else if operation = ''sietchesRestart'' then Some [''sietchesRestartStop'', ''sietchesRestartStart'']
      else if operation = ''mapsRespawn''
      then restartOperations (Obj [(''restartMode'', Str ''respawn''), (''target'', getp payload ''target'')])
      else if operation = ''mapsApplySettings''
      then map_option (\<lambda>restart. (if truthy (getp payload ''memoryChanged'') then [''memorySetNoRestart''] else [])
             @ (if truthy (getp payload ''modeChanged'') then [''mapsSetMode''] else []) @ restart)
           (if truthy (getp payload ''modeChanged'') then restartOperations payload else Some [])
      else if operation = ''userSettingsSaveAndRestart''
      then map_option (\<lambda>restart. [''userSettingsSave'', ''userSettingsMaterializeCurrent''] @ restart) (restartOperations payload)
      else if operation = ''userSettingsResetAndRestart''
      then map_option (\<lambda>restart. [resetOperation payload, ''userSettingsMaterializeCurrent''] @ restart) (restartOperations payload)
      else if operation = ''userSettingsRawAndRestart''
      then map_option (\<lambda>restart. [rawOperation payload, ''userSettingsMaterializeCurrent''] @ restart) (restartOperations payload)
      else Some [operation])"

definition isSelfUpdateApplyOperation :: "string \<Rightarrow> bool" where
  "isSelfUpdateApplyOperation operation = (operation = ''selfUpdateApply'' \<or> operation = ''selfUpdateQaApply'')"

definition isDiscordAdapterApplyOperation :: "string \<Rightarrow> bool" where
  "isDiscordAdapterApplyOperation operation = (operation = ''discordAdapterApply'')"

section \<open>Time limits\<close>

text \<open>The environment variables are arguments; times are in milliseconds.\<close>

definition mapWriteFlushTimeoutMs :: "jsval \<Rightarrow> int" where
  "mapWriteFlushTimeoutMs setting = clampInt setting 300000 1000 1800000"

definition assetDownloadTimeoutMs :: "jsval \<Rightarrow> int" where
  "assetDownloadTimeoutMs setting = clampInt setting (4 * 60 * 60 * 1000) (30 * 60 * 1000) (24 * 60 * 60 * 1000)"

definition boundedBuildTimeoutSeconds :: "jsval \<Rightarrow> int" where
  "boundedBuildTimeoutSeconds v = (let n = to_num (js_or v (num 1800)) in
     if is_integer n \<and> 60 \<le> num_int n \<and> num_int n \<le> 7200 then num_int n else 1800)"

definition LONG_OPERATIONS :: "string list" where
  "LONG_OPERATIONS = [''backupSystemCreate'', ''backupSystemRestore'', ''start'', ''stop'', ''restartAll'',
     ''stopGameServersForDbWrites'', ''restartService'', ''restartServiceStop'', ''restartServiceStart'', ''serverTitle'',
     ''serverConfig'', ''updateFixSteamcmd'', ''selfUpdateApply'', ''backupRestore'', ''storageCleanupImages'',
     ''storageCleanupBuildCache'', ''userSettingsSaveAndRestart'', ''userSettingsResetAndRestart'', ''userSettingsRawAndRestart'',
     ''mapsApplySettings'', ''mapsRespawn'', ''sietchesSetActive'', ''sietchesRestart'', ''sietchesRestartStop'',
     ''sietchesRestartStart'', ''sietchesReconcile'', ''deepdesertAction'']"

definition taskTimeoutMs :: "int \<Rightarrow> jsval \<Rightarrow> string \<Rightarrow> int" where
  "taskTimeoutMs commandTimeoutMs setting operation =
     (if operation = ''selfUpdateCheck'' then min commandTimeoutMs 120000
      else if operation = ''adminSpawnVehicle'' then max commandTimeoutMs (5 * 60 * 1000)
      else if operation = ''experimentalTanksApply'' then max commandTimeoutMs (45 * 60 * 1000)
      else if operation \<in> set [''init'', ''updateApply'', ''updateInstallAssets'']
      then max commandTimeoutMs (assetDownloadTimeoutMs setting)
      else if operation \<in> set LONG_OPERATIONS then max commandTimeoutMs (30 * 60 * 1000)
      else commandTimeoutMs)"

section \<open>The log of a task\<close>

record log_line =
  ll_stream :: string
  ll_line :: string

definition USERSETTINGS_WARNING_PREFIX :: string where
  "USERSETTINGS_WARNING_PREFIX = ''USERSETTINGS_WARNING: ''"

definition QUEUED_WRITE_WARNING_PREFIX :: string where
  "QUEUED_WRITE_WARNING_PREFIX = ''QUEUED_WRITE_WARNING: ''"

definition WARNING_PREFIXES :: "string list" where
  "WARNING_PREFIXES = [USERSETTINGS_WARNING_PREFIX, QUEUED_WRITE_WARNING_PREFIX]"

definition stripQueuedWriteWarningPrefix :: "string \<Rightarrow> string" where
  "stripQueuedWriteWarningPrefix line = (if starts_with line QUEUED_WRITE_WARNING_PREFIX
     then drop (length QUEUED_WRITE_WARNING_PREFIX) line else line)"

text \<open>Splitting at a line feed with an optional carriage return before it.\<close>

definition drop_cr :: "string \<Rightarrow> string" where
  "drop_cr s = (if s \<noteq> [] \<and> code (last s) = 13 then butlast s else s)"

definition split_lines :: "string \<Rightarrow> string list" where
  "split_lines s = (let pieces = split_at (\<lambda>c. code c = 10) s in map drop_cr (butlast pieces) @ [last pieces])"

definition keep_last :: "nat \<Rightarrow> 'a list \<Rightarrow> 'a list" where
  "keep_last n xs = drop (length xs - n) xs"

definition append_log :: "bool \<Rightarrow> string \<Rightarrow> string \<Rightarrow> log_line list \<Rightarrow> log_line list" where
  "append_log internal text stream logLines = keep_last 1000 (logLines
     @ map (\<lambda>line. \<lparr>ll_stream = stream, ll_line = (if internal then line else stripQueuedWriteWarningPrefix line)\<rparr>)
         (filter (\<lambda>line. line \<noteq> []) (split_lines text)))"

definition appendQueuedWriteWarning :: "string \<Rightarrow> log_line list \<Rightarrow> log_line list" where
  "appendQueuedWriteWarning text = append_log True (QUEUED_WRITE_WARNING_PREFIX @ stripQueuedWriteWarningPrefix text) ''stderr''"

definition withoutWarningPrefix :: "log_line \<Rightarrow> log_line" where
  "withoutWarningPrefix entry = (case find (\<lambda>candidate. starts_with (ll_line entry) candidate) WARNING_PREFIXES of
     Some prefix \<Rightarrow> entry\<lparr>ll_line := drop (length prefix) (ll_line entry)\<rparr> | None \<Rightarrow> entry)"

definition taskWarnings :: "log_line list \<Rightarrow> string list" where
  "taskWarnings logLines = filter (\<lambda>text. text \<noteq> []) (map (\<lambda>entry.
     case find (\<lambda>candidate. starts_with (ll_line entry) candidate) WARNING_PREFIXES of
       Some prefix \<Rightarrow> drop (length prefix) (ll_line entry) | None \<Rightarrow> []) logLines)"

section \<open>The update helper\<close>

definition shellQuote :: "string \<Rightarrow> string" where
  "shellQuote v = CHR 0x27 # concat (map (\<lambda>c. if c = CHR 0x27 then [CHR 0x27, CHR 0x5C, CHR 0x27, CHR 0x27] else [c]) v) @ [CHR 0x27]"

definition update_command :: "string list \<Rightarrow> string" where
  "update_command args = ''DUNE_WEB_SELF_UPDATE_HELPER=1 runtime/scripts/dune '' @ join_with '' '' (map shellQuote args)"

definition update_log :: string where
  "update_log = ''runtime/generated/web-self-update.log''"

definition helper_script :: "string list \<Rightarrow> string" where
  "helper_script args = join_with [CHR 0x0A] [''set -eu'', ''mkdir -p runtime/generated'',
     ''echo \"[$(date -Is)]\" '' @ shellQuote (''Starting Web UI stack update: runtime/scripts/dune '' @ join_with '' '' args)
       @ '' > '' @ shellQuote update_log,
     update_command args @ '' >> '' @ shellQuote update_log @ '' 2>&1'',
     ''echo \"[$(date -Is)] Web UI stack update finished\" >> '' @ shellQuote update_log]"

record helper_config =
  hc_helperName :: string
  hc_hostRepoRoot :: string
  hc_composeProjectName :: string
  hc_helperImage :: string
  hc_hostUid :: string
  hc_hostGid :: string
  hc_dockerSocketGid :: string
  hc_extraEnv :: "string list"
  hc_command :: string

definition buildSelfUpdateHelperDockerArgs :: "helper_config \<Rightarrow> string list" where
  "buildSelfUpdateHelperDockerArgs h = [''run'', ''--rm'', ''-d'', ''--name'', hc_helperName h,
     ''--label'', ''io.github.red-blink.dune-selfhost.role=self-update-helper'',
     ''--user'', hc_hostUid h @ '':'' @ hc_hostGid h, ''--group-add'', hc_dockerSocketGid h, ''--network'', ''host'',
     ''-v'', hc_hostRepoRoot h @ '':/repo'', ''-v'', ''/var/run/docker.sock:/var/run/docker.sock'',
     ''-e'', ''DUNE_HOST_REPO_ROOT='' @ hc_hostRepoRoot h, ''-e'', ''COMPOSE_PROJECT_NAME='' @ hc_composeProjectName h,
     ''-e'', ''DUNE_COMPOSE_PROJECT_NAME='' @ hc_composeProjectName h, ''-e'', ''DUNE_HOST_UID='' @ hc_hostUid h,
     ''-e'', ''DUNE_HOST_GID='' @ hc_hostGid h, ''-e'', ''DOCKER_SOCKET_GID='' @ hc_dockerSocketGid h]
     @ concat (map (\<lambda>v. [''-e'', v]) (hc_extraEnv h))
     @ [''-w'', ''/repo'', ''--entrypoint'', ''/bin/sh'', hc_helperImage h, ''-lc'', hc_command h]"

text \<open>The number after a prefix, when the rest of the name is digits only; \<open>n\<close> of them, or any number for \<open>None\<close>.\<close>

definition numbered :: "string \<Rightarrow> nat option \<Rightarrow> string \<Rightarrow> int option" where
  "numbered prefix n name = (let ds = drop (length prefix) name in
     if starts_with name prefix \<and> ds \<noteq> [] \<and> list_all is_digit ds \<and> (case n of None \<Rightarrow> True | Some k \<Rightarrow> length ds = k)
     then Some (int (digits_val ds)) else None)"

definition first_number :: "string list \<Rightarrow> nat option \<Rightarrow> string \<Rightarrow> int option" where
  "first_number prefixes n name = (case filter (\<lambda>x. x \<noteq> None) (map (\<lambda>p. numbered p n name) prefixes) of [] \<Rightarrow> None | x # _ \<Rightarrow> x)"

definition selfUpdateHelperAgeMs :: "string \<Rightarrow> int \<Rightarrow> int" where
  "selfUpdateHelperAgeMs name now =
     (case first_number [''dune-web-self-update-'', ''dune-discord-adapter-apply-''] (Some 13) name of
        Some milliseconds \<Rightarrow> max 0 (now - milliseconds)
      | None \<Rightarrow> (case first_number [''dune-console-self-update-''] (Some 10) name of
          Some seconds \<Rightarrow> max 0 (now - seconds * 1000) | None \<Rightarrow> 0))"

definition helper_of_line :: "string \<Rightarrow> string \<times> string" where
  "helper_of_line line = (case filter (\<lambda>w. w \<noteq> []) (split_at is_ws (js_trim line)) of
     [] \<Rightarrow> ([], []) | [name] \<Rightarrow> (name, []) | name # state # _ \<Rightarrow> (name, state))"

definition is_helper :: "string \<Rightarrow> bool" where
  "is_helper name = (first_number [''dune-web-self-update-'', ''dune-console-self-update-'', ''dune-discord-adapter-apply-''] None name \<noteq> None)"

text \<open>The helpers to remove, and whether another one still runs, which refuses the update.\<close>

definition cleanupStaleSelfUpdateHelpers :: "string \<Rightarrow> jsval \<Rightarrow> int \<Rightarrow> string list \<times> bool" where
  "cleanupStaleSelfUpdateHelpers stdout buildTimeout now =
     (let helpers = filter (\<lambda>h. is_helper (fst h)) (map helper_of_line (split_lines stdout));
          staleAfterMs = (boundedBuildTimeoutSeconds buildTimeout + 300) * 1000;
          stale = (\<lambda>h. snd h \<noteq> ''running'' \<or> staleAfterMs < selfUpdateHelperAgeMs (fst h) now)
      in (map fst (filter stale helpers), filter (\<lambda>h. \<not> stale h) helpers \<noteq> []))"

section \<open>The manager\<close>

text \<open>
  A task object lives on after it was trimmed from the list, while it runs. \<open>tk_todo\<close> is what a running task still has to
  run, in the order of the loop; \<open>None\<close> is a task whose helper was started, which stays running. The hooks of the callers
  are values: what they do belongs to the callers.
\<close>

datatype task_status = Queued | Running | TaskSucceeded | TaskFailed

record task_obj =
  tk_operation :: string
  tk_payload :: jsval
  tk_status :: task_status
  tk_step :: string
  tk_message :: string
  tk_lines :: "log_line list"
  tk_exit :: "int option"
  tk_started :: int
  tk_todo :: "string list option"

record 'h manager =
  tm_objects :: "string \<rightharpoonup> task_obj"
  tm_listed :: "string list"
  tm_hooks :: "string \<rightharpoonup> 'h"

definition started_at :: "'h manager \<Rightarrow> string \<Rightarrow> int" where
  "started_at m i = (case tm_objects m i of Some t \<Rightarrow> tk_started t | None \<Rightarrow> 0)"

text \<open>\<open>list\<close>: the newest first, in the order of insertion where the times are equal.\<close>

definition list_tasks :: "'h manager \<Rightarrow> string list" where
  "list_tasks m = sort_key (\<lambda>i. - started_at m i) (tm_listed m)"

definition trim :: "nat \<Rightarrow> 'h manager \<Rightarrow> 'h manager" where
  "trim retention m = (let gone = drop retention (list_tasks m) in m\<lparr>tm_listed := filter (\<lambda>i. i \<notin> set gone) (tm_listed m)\<rparr>)"

definition new_task :: "string \<Rightarrow> jsval \<Rightarrow> int \<Rightarrow> task_obj" where
  "new_task operation payload tm = \<lparr>tk_operation = operation, tk_payload = payload, tk_status = Queued, tk_step = ''Queued'',
     tk_message = [], tk_lines = [], tk_exit = None, tk_started = tm, tk_todo = None\<rparr>"

definition completeTaskSucceeded :: "string \<Rightarrow> int \<Rightarrow> 'h manager \<Rightarrow> 'h manager" where
  "completeTaskSucceeded i exit m = (case tm_objects m i of None \<Rightarrow> m
     | Some t \<Rightarrow> m\<lparr>tm_objects := (tm_objects m)(i \<mapsto> t\<lparr>tk_status := TaskSucceeded, tk_exit := Some exit, tk_step := ''Finished'',
           tk_message := ''Task succeeded''\<rparr>),
         tm_hooks := (tm_hooks m)(i := None)\<rparr>)"

definition fail_task :: "string \<Rightarrow> int option \<Rightarrow> string \<Rightarrow> 'h manager \<Rightarrow> 'h manager" where
  "fail_task i exit message m = (case tm_objects m i of None \<Rightarrow> m
     | Some t \<Rightarrow> m\<lparr>tm_objects := (tm_objects m)(i \<mapsto> t\<lparr>tk_status := TaskFailed, tk_exit := exit, tk_step := ''Failed'', tk_message := message\<rparr>),
         tm_hooks := (tm_hooks m)(i := None)\<rparr>)"

definition register_hook :: "string \<Rightarrow> 'h option \<Rightarrow> 'h manager \<Rightarrow> 'h manager" where
  "register_hook i hook m = (case hook of None \<Rightarrow> m | Some h \<Rightarrow> m\<lparr>tm_hooks := (tm_hooks m)(i \<mapsto> h)\<rparr>)"

definition create_task :: "nat \<Rightarrow> string \<Rightarrow> string \<Rightarrow> jsval \<Rightarrow> 'h option \<Rightarrow> int \<Rightarrow> 'h manager \<Rightarrow> 'h manager" where
  "create_task retention i operation payload hook tm m = (let m1 = register_hook i hook m in
     trim retention (m1\<lparr>tm_objects := (tm_objects m1)(i \<mapsto> new_task operation payload tm), tm_listed := tm_listed m1 @ [i]\<rparr>))"

text \<open>A cached result of an update check completes the task before it is listed.\<close>

definition cacheable :: "string \<Rightarrow> jsval \<Rightarrow> bool" where
  "cacheable operation payload = (operation = ''updateCheck'' \<and> getp payload ''fresh'' \<noteq> Bool True \<or> operation = ''selfUpdateCheck'')"

definition create_cached :: "nat \<Rightarrow> string \<Rightarrow> string \<Rightarrow> jsval \<Rightarrow> 'h option \<Rightarrow> int \<Rightarrow> int \<Rightarrow> log_line list \<Rightarrow> 'h manager \<Rightarrow> 'h manager" where
  "create_cached retention i operation payload hook tm exit lines m = (let m1 = register_hook i hook m;
       m2 = completeTaskSucceeded i exit (m1\<lparr>tm_objects := (tm_objects m1)(i \<mapsto> (new_task operation payload tm)\<lparr>tk_lines := lines\<rparr>)\<rparr>)
     in trim retention (m2\<lparr>tm_listed := tm_listed m2 @ [i]\<rparr>))"

definition begin_task :: "string \<Rightarrow> task_obj \<Rightarrow> string list option \<Rightarrow> 'h manager \<Rightarrow> 'h manager" where
  "begin_task i t todo m = m\<lparr>tm_objects := (tm_objects m)(i \<mapsto> t\<lparr>tk_status := Running, tk_step := ''Running'',
     tk_message := ''Task started'', tk_todo := todo\<rparr>)\<rparr>"

definition operation_done :: "string \<Rightarrow> task_obj \<Rightarrow> string \<Rightarrow> string list \<Rightarrow> int \<Rightarrow> log_line list \<Rightarrow> 'h manager \<Rightarrow> 'h manager" where
  "operation_done i t operation rest exit lines m = m\<lparr>tm_objects := (tm_objects m)(i \<mapsto> t\<lparr>tk_step := operation,
     tk_message := ''Running '' @ operation, tk_exit := tk_exit t, tk_lines := keep_last 1000 (tk_lines t @ lines), tk_todo := Some rest\<rparr>)\<rparr>"

text \<open>What happens is logged; a finished task says whether it had a hook, which is called then.\<close>

datatype 'h task_event =
    Created string string jsval "'h option"
  | Ran string string
  | Finished string "'h option"
  | GaveUp string

definition runnable :: "string \<Rightarrow> jsval \<Rightarrow> bool" where
  "runnable operation payload = (operation = ''updateCheck'' \<or> operation = ''selfUpdateCheck'' \<or> buildDuneArgs operation payload \<noteq> None)"

inductive task_step :: "nat \<Rightarrow> 'h manager \<Rightarrow> 'h task_event list \<Rightarrow> 'h manager \<Rightarrow> bool" where
  create: "tm_objects m i = None \<Longrightarrow> task_step r m [Created i op p hook] (create_task r i op p hook tm m)"
| cached: "tm_objects m i = None \<Longrightarrow> cacheable op p
   \<Longrightarrow> task_step r m [Created i op p hook, Finished i hook] (create_cached r i op p hook tm exit lines m)"
| begin_loop: "tm_objects m i = Some t \<Longrightarrow> tk_status t = Queued \<Longrightarrow> \<not> isSelfUpdateApplyOperation (tk_operation t)
   \<Longrightarrow> \<not> isDiscordAdapterApplyOperation (tk_operation t) \<Longrightarrow> tk_operation t \<noteq> ''consoleReload''
   \<Longrightarrow> taskOperations (tk_operation t) (tk_payload t) = Some ops \<Longrightarrow> task_step r m [] (begin_task i t (Some ops) m)"
| begin_throws: "tm_objects m i = Some t \<Longrightarrow> tk_status t = Queued \<Longrightarrow> taskOperations (tk_operation t) (tk_payload t) = None
   \<Longrightarrow> task_step r m [GaveUp i] (fail_task i exit msg m)"
| helper_started: "tm_objects m i = Some t \<Longrightarrow> tk_status t = Queued
   \<Longrightarrow> isSelfUpdateApplyOperation (tk_operation t) \<or> isDiscordAdapterApplyOperation (tk_operation t)
   \<Longrightarrow> task_step r m [] (begin_task i t None m)"
| helper_failed: "tm_objects m i = Some t \<Longrightarrow> tk_status t = Queued
   \<Longrightarrow> isSelfUpdateApplyOperation (tk_operation t) \<or> isDiscordAdapterApplyOperation (tk_operation t) \<or> tk_operation t = ''consoleReload''
   \<Longrightarrow> task_step r m [GaveUp i] (fail_task i exit msg m)"
| reload: "tm_objects m i = Some t \<Longrightarrow> tk_status t = Queued \<Longrightarrow> tk_operation t = ''consoleReload''
   \<Longrightarrow> task_step r m [Finished i (tm_hooks m i)] (completeTaskSucceeded i 0 m)"
| ran: "tm_objects m i = Some t \<Longrightarrow> tk_status t = Running \<Longrightarrow> tk_todo t = Some (op # ops) \<Longrightarrow> runnable op (tk_payload t)
   \<Longrightarrow> task_step r m [Ran i op] (operation_done i t op ops exit lines m)"
| operation_failed: "tm_objects m i = Some t \<Longrightarrow> tk_status t = Running \<Longrightarrow> tk_todo t = Some (op # ops)
   \<Longrightarrow> task_step r m [GaveUp i] (fail_task i exit msg m)"
| finished: "tm_objects m i = Some t \<Longrightarrow> tk_status t = Running \<Longrightarrow> tk_todo t = Some []
   \<Longrightarrow> task_step r m [Finished i (tm_hooks m i)] (completeTaskSucceeded i exit m)"

definition initial_manager :: "'h manager" where
  "initial_manager = \<lparr>tm_objects = Map.empty, tm_listed = [], tm_hooks = Map.empty\<rparr>"

inductive task_run :: "nat \<Rightarrow> 'h manager \<Rightarrow> 'h task_event list \<Rightarrow> bool" where
  start: "task_run r initial_manager []"
| step: "task_run r m events \<Longrightarrow> task_step r m new m' \<Longrightarrow> task_run r m' (events @ new)"

section \<open>The shell reads back what was quoted\<close>

text \<open>
  The words of a POSIX shell command, for commands of plain characters, backslashes, blanks and single quotes; every
  other character outside of quotes ends the reading.
\<close>

definition plain_char :: "char \<Rightarrow> bool" where
  "plain_char c = (is_word_char c \<or> c \<in> set ''-./=:,@'')"

definition word_so_far :: "string option \<Rightarrow> string" where
  "word_so_far w = (case w of None \<Rightarrow> [] | Some s \<Rightarrow> s)"

fun shell_words :: "bool \<Rightarrow> string option \<Rightarrow> string \<Rightarrow> string list option" where
  "shell_words True w [] = None"
| "shell_words False w [] = Some (case w of None \<Rightarrow> [] | Some s \<Rightarrow> [s])"
| "shell_words True w (c # s) = (if c = CHR 0x27 then shell_words False w s else shell_words True (Some (word_so_far w @ [c])) s)"
| "shell_words False w (c # s) =
     (if c = CHR 0x27 then shell_words True (Some (word_so_far w)) s
      else if c = CHR 0x5C then (case s of [] \<Rightarrow> None
        | d # r \<Rightarrow> if d = CHR 0x0A then None else shell_words False (Some (word_so_far w @ [d])) r)
      else if c = CHR '' '' then (case w of None \<Rightarrow> shell_words False None s
        | Some v \<Rightarrow> map_option (\<lambda>r. v # r) (shell_words False None s))
      else if plain_char c then shell_words False (Some (word_so_far w @ [c])) s else None)"

abbreviation quote_body :: "string \<Rightarrow> string" where
  "quote_body s \<equiv> concat (map (\<lambda>c. if c = CHR 0x27 then [CHR 0x27, CHR 0x5C, CHR 0x27, CHR 0x27] else [c]) s)"

lemma shell_body: "shell_words True (Some w) (quote_body s @ CHR 0x27 # r) = shell_words False (Some (w @ s)) r"
  by (induction s arbitrary: w) (auto simp: word_so_far_def)

lemma shell_quoted: "shell_words False None (shellQuote v @ r) = shell_words False (Some v) r"
  by (simp add: shellQuote_def shell_body word_so_far_def)

lemma shell_quoted_list: "shell_words False None (join_with '' '' (map shellQuote args)) = Some args"
proof (induction args)
  case (Cons a args)
  show ?case
  proof (cases args)
    case Nil
    then show ?thesis using shell_quoted [of a "[]"] by simp
  next
    case (Cons b bs)
    then show ?thesis using Cons.IH shell_quoted [of a "CHR '' '' # join_with '' '' (map shellQuote args)"] by simp
  qed
qed simp

definition plain_word :: "string \<Rightarrow> bool" where
  "plain_word u = list_all (\<lambda>c. plain_char c \<and> c \<noteq> CHR 0x27 \<and> c \<noteq> CHR 0x5C \<and> c \<noteq> CHR '' '') u"

lemma shell_plain: "plain_word u \<Longrightarrow> shell_words False (Some v) (u @ r) = shell_words False (Some (v @ u)) r"
  by (induction u arbitrary: v) (simp_all add: plain_word_def word_so_far_def)

lemma shell_plain_word:
  assumes "plain_word (c # u)"
  shows "shell_words False None (c # u @ CHR '' '' # r) = map_option (\<lambda>x. (c # u) # x) (shell_words False None r)"
proof -
  have "shell_words False None (c # u @ CHR '' '' # r) = shell_words False (Some [c]) (u @ CHR '' '' # r)"
    using assms by (simp add: plain_word_def word_so_far_def)
  then show ?thesis using assms shell_plain [of u "[c]"] by (simp add: plain_word_def)
qed

text \<open>
  C26. The update helper's shell gets the words the console meant: whatever the arguments contain, quotes, blanks,
  dollar signs or line breaks, a POSIX shell reads the command line of the helper as the variable, the script and
  exactly the list of arguments.
\<close>

theorem helper_arguments_survive_shell:
  "shell_words False None (update_command args)
     = Some ([''DUNE_WEB_SELF_UPDATE_HELPER=1'', ''runtime/scripts/dune''] @ args)"
proof -
  have "plain_word ''DUNE_WEB_SELF_UPDATE_HELPER=1''" "plain_word ''runtime/scripts/dune''" by code_simp+
  then show ?thesis
    using shell_plain_word [of "CHR ''D''" "''UNE_WEB_SELF_UPDATE_HELPER=1''"] shell_plain_word [of "CHR ''r''" "''untime/scripts/dune''"]
    by (simp add: update_command_def shell_quoted_list)
qed

section \<open>Runs of the manager\<close>

definition ran_ops :: "string \<Rightarrow> 'h task_event list \<Rightarrow> string list" where
  "ran_ops i es = concat (map (\<lambda>e. case e of Ran j op \<Rightarrow> if j = i then [op] else [] | _ \<Rightarrow> []) es)"

definition is_end :: "string \<Rightarrow> 'h task_event \<Rightarrow> bool" where
  "is_end i e = (case e of Finished j h \<Rightarrow> j = i | GaveUp j \<Rightarrow> j = i | _ \<Rightarrow> False)"

definition is_birth :: "string \<Rightarrow> 'h task_event \<Rightarrow> bool" where
  "is_birth i e = (case e of Created j op p h \<Rightarrow> j = i | _ \<Rightarrow> False)"

definition task_ok :: "'h manager \<Rightarrow> 'h task_event list \<Rightarrow> string \<Rightarrow> bool" where
  "task_ok m es i = (case tm_objects m i of
     None \<Rightarrow> tm_hooks m i = None \<and> ran_ops i es = [] \<and> filter (is_end i) es = [] \<and> filter (is_birth i) es = []
   | Some t \<Rightarrow> (\<exists>hook. filter (is_birth i) es = [Created i (tk_operation t) (tk_payload t) hook] \<and> (case tk_status t of
       Queued \<Rightarrow> ran_ops i es = [] \<and> filter (is_end i) es = [] \<and> tm_hooks m i = hook
     | Running \<Rightarrow> filter (is_end i) es = [] \<and> tm_hooks m i = hook \<and> (case tk_todo t of None \<Rightarrow> True
         | Some ops \<Rightarrow> taskOperations (tk_operation t) (tk_payload t) = Some (ran_ops i es @ ops))
     | TaskSucceeded \<Rightarrow> filter (is_end i) es = [Finished i hook] \<and> tm_hooks m i = None
     | TaskFailed \<Rightarrow> filter (is_end i) es = [GaveUp i] \<and> tm_hooks m i = None)))"

lemma event_simps [simp]:
  "ran_ops i (es @ fs) = ran_ops i es @ ran_ops i fs" "ran_ops i [] = []"
  "ran_ops i (Created j op p h # es) = ran_ops i es" "ran_ops i (Finished j h # es) = ran_ops i es" "ran_ops i (GaveUp j # es) = ran_ops i es"
  "ran_ops i (Ran j op # es) = (if j = i then [op] else []) @ ran_ops i es"
  "is_end i (Created j op p h) = False" "is_end i (Ran j op) = False" "is_end i (Finished j h) = (j = i)" "is_end i (GaveUp j) = (j = i)"
  "is_birth i (Created j op p h) = (j = i)" "is_birth i (Ran j op) = False" "is_birth i (Finished j h) = False" "is_birth i (GaveUp j) = False"
  by (simp_all add: ran_ops_def is_end_def is_birth_def)

lemma manager_simps [simp]:
  "tm_objects (trim r m) = tm_objects m" "tm_hooks (trim r m) = tm_hooks m"
  "tm_objects (register_hook i h m) = tm_objects m" "tm_listed (register_hook i h m) = tm_listed m"
  "tm_hooks (register_hook i h m) j = (if j = i \<and> h \<noteq> None then h else tm_hooks m j)"
  by (auto simp: trim_def Let_def register_hook_def split: option.splits)

lemma hooks_registered: "tm_hooks m i = None \<Longrightarrow> tm_hooks (register_hook i h m) = (tm_hooks m)(i := h)"
  by (auto simp: fun_eq_iff)

lemmas task_ops = create_task_def create_cached_def completeTaskSucceeded_def fail_task_def begin_task_def operation_done_def new_task_def Let_def

lemma task_ok_other:
  "task_ok m es i \<Longrightarrow> tm_objects m' i = tm_objects m i \<Longrightarrow> tm_hooks m' i = tm_hooks m i \<Longrightarrow> ran_ops i new = []
   \<Longrightarrow> filter (is_end i) new = [] \<Longrightarrow> filter (is_birth i) new = [] \<Longrightarrow> task_ok m' (es @ new) i"
  by (cases "tm_objects m i") (auto simp: task_ok_def split: task_status.splits option.splits)

text \<open>A step concerns one task, and leaves every other as it was.\<close>

lemma task_step_local:
  assumes "task_step r m new m'"
  shows "\<exists>j. (\<forall>i. i \<noteq> j \<longrightarrow> tm_objects m' i = tm_objects m i \<and> tm_hooks m' i = tm_hooks m i \<and> ran_ops i new = []
      \<and> filter (is_end i) new = [] \<and> filter (is_birth i) new = []) \<and> (task_ok m es j \<longrightarrow> task_ok m' (es @ new) j)"
  using assms
proof cases
  case (create j op p hook tm)
  then show ?thesis by (intro exI [of _ j]) (auto simp: task_ok_def task_ops hooks_registered)
next
  case (cached j op p hook tm exit lines)
  then show ?thesis by (intro exI [of _ j]) (auto simp: task_ok_def task_ops hooks_registered)
next
  case (begin_loop j t ops)
  then show ?thesis by (intro exI [of _ j]) (auto simp: task_ok_def task_ops hooks_registered)
next
  case (begin_throws j t exit msg)
  then show ?thesis by (intro exI [of _ j]) (auto simp: task_ok_def task_ops hooks_registered)
next
  case (helper_started j t)
  then show ?thesis by (intro exI [of _ j]) (auto simp: task_ok_def task_ops hooks_registered)
next
  case (helper_failed j t exit msg)
  then show ?thesis by (intro exI [of _ j]) (auto simp: task_ok_def task_ops hooks_registered)
next
  case (reload j t)
  then show ?thesis by (intro exI [of _ j]) (auto simp: task_ok_def task_ops hooks_registered)
next
  case (ran j t op ops exit lines)
  then show ?thesis by (intro exI [of _ j]) (auto simp: task_ok_def task_ops hooks_registered)
next
  case (operation_failed j t op ops exit msg)
  then show ?thesis by (intro exI [of _ j]) (auto simp: task_ok_def task_ops hooks_registered)
next
  case (finished j t exit)
  then show ?thesis by (intro exI [of _ j]) (auto simp: task_ok_def task_ops hooks_registered)
qed

lemma task_step_ok: "task_step r m new m' \<Longrightarrow> (\<And>i. task_ok m es i) \<Longrightarrow> task_ok m' (es @ new) i"
  using task_step_local [of r m new m' es] task_ok_other by metis

lemma task_run_ok: "task_run r m es \<Longrightarrow> task_ok m es i"
proof (induction arbitrary: i rule: task_run.induct)
  case (start r)
  then show ?case by (simp add: task_ok_def initial_manager_def)
next
  case (step r m es new m')
  then show ?case using task_step_ok by blast
qed
definition earned :: "'h task_event list \<Rightarrow> string \<Rightarrow> 'h option \<Rightarrow> bool" where
  "earned before i h = (\<exists>op p. filter (is_birth i) before = [Created i op p h] \<and> filter (is_end i) before = []
     \<and> (taskOperations op p = Some (ran_ops i before) \<or> op = ''consoleReload'' \<or> cacheable op p \<and> ran_ops i before = []))"

lemma step_earned:
  assumes "task_step r m new m'" and "\<And>i. task_ok m es i" and "new = before @ Finished i h # after"
  shows "earned (es @ before) i h"
  using assms(1)
proof cases
  case (cached j op p hook tm exit lines)
  then have "before = [Created i op p h]" "j = i" "h = hook" using assms(3) by (auto simp: append_eq_Cons_conv)
  then show ?thesis using cached assms(2) [of i] by (auto simp: earned_def task_ok_def)
next
  case (reload j t)
  then have "before = []" "j = i" "h = tm_hooks m i" using assms(3) by (auto simp: append_eq_Cons_conv)
  then show ?thesis using reload assms(2) [of i] by (auto simp: earned_def task_ok_def)
next
  case (finished j t exit)
  then have "before = []" "j = i" "h = tm_hooks m i" using assms(3) by (auto simp: append_eq_Cons_conv)
  then show ?thesis using finished assms(2) [of i] by (auto simp: earned_def task_ok_def)
qed (use assms(3) in \<open>auto simp: append_eq_Cons_conv\<close>)

lemma run_earned: "task_run r m es \<Longrightarrow> es = before @ Finished i h # after \<Longrightarrow> earned before i h"
proof (induction arbitrary: before after rule: task_run.induct)
  case (step r m es new m')
  from step.prems consider (old) us where "es = before @ Finished i h # us"
    | (new) us where "before = es @ us" "new = us @ Finished i h # after"
    by (auto simp: append_eq_append_conv2 append_eq_Cons_conv Cons_eq_append_conv)
  then show ?case
  proof cases
    case old
    then show ?thesis using step.IH by blast
  next
    case new
    then show ?thesis using step_earned [OF step.hyps(2) task_run_ok [OF step.hyps(1)]] by simp
  qed
qed simp

text \<open>
  C12. A success hook is called for success only: in any interleaving of tasks, when a task finishes with the hook it
  was created with, every operation it expands to has run to success before, in order; a task ends once, and one
  that failed never finishes. (A reload of the console has no operation, and a cached update check runs none.)
\<close>

theorem hook_only_after_success:
  assumes "task_run r m es" and "es = before @ Finished i h # after"
  shows "\<exists>op p. Created i op p h \<in> set before
    \<and> (taskOperations op p = Some (ran_ops i before) \<or> op = ''consoleReload'' \<or> cacheable op p \<and> ran_ops i before = [])
    \<and> (\<forall>e \<in> set (before @ after). \<not> is_end i e)"
proof -
  have e: "earned before i h" using run_earned [OF assms] .
  have "length (filter (is_end i) es) \<le> 1"
  proof (cases "tm_objects m i")
    case (Some t)
    then show ?thesis using task_run_ok [OF assms(1), of i] by (cases "tk_status t") (auto simp: task_ok_def)
  qed (use task_run_ok [OF assms(1), of i] in \<open>simp add: task_ok_def\<close>)
  then have "filter (is_end i) (before @ after) = []" using assms(2) by simp
  then have "\<forall>e \<in> set (before @ after). \<not> is_end i e" by (simp only: filter_empty_conv)
  moreover have "filter (is_birth i) before = [Created i op p h] \<Longrightarrow> Created i op p h \<in> set before" for op p
    by (auto dest!: filter_eq_ConsD)
  ultimately show ?thesis using e unfolding earned_def by blast
qed

definition listed_ok :: "nat \<Rightarrow> 'h manager \<Rightarrow> bool" where
  "listed_ok r m = (distinct (tm_listed m) \<and> set (tm_listed m) \<subseteq> dom (tm_objects m) \<and> length (tm_listed m) \<le> r)"

lemma trim_listed:
  assumes "distinct (tm_listed m)" and "set (tm_listed m) \<subseteq> dom (tm_objects m)"
  shows "listed_ok r (trim r m)"
proof -
  have d: "distinct (list_tasks m)" "set (list_tasks m) = set (tm_listed m)" "length (list_tasks m) = length (tm_listed m)"
    using assms(1) by (simp_all add: list_tasks_def)
  have "set (filter (\<lambda>i. i \<notin> set (drop r (list_tasks m))) (tm_listed m)) = set (take r (list_tasks m))"
    using d(1,2) set_take_disj_set_drop_if_distinct [OF d(1), of r r] by (auto simp flip: d(2) dest: in_set_takeD)
      (metis UnE append_take_drop_id set_append)
  then have "length (filter (\<lambda>i. i \<notin> set (drop r (list_tasks m))) (tm_listed m)) = length (take r (list_tasks m))"
    using assms(1) d(1) by (metis distinct_card distinct_filter distinct_take)
  then show ?thesis using assms by (auto simp: listed_ok_def trim_def Let_def)
qed

lemma same_listed: "listed_ok r m \<Longrightarrow> tm_listed m' = tm_listed m \<Longrightarrow> dom (tm_objects m) \<subseteq> dom (tm_objects m') \<Longrightarrow> listed_ok r m'"
  unfolding listed_ok_def by (metis subset_trans)

lemma new_listed:
  assumes "listed_ok r m" and "tm_objects m i = None" and "tm_listed m' = tm_listed m @ [i]" and "tm_objects m' = (tm_objects m)(i \<mapsto> t)"
  shows "listed_ok r (trim r m')"
proof (rule trim_listed)
  show "distinct (tm_listed m')" using assms by (auto simp: listed_ok_def)
  show "set (tm_listed m') \<subseteq> dom (tm_objects m')" using assms(1) unfolding listed_ok_def assms(3,4) by auto
qed

lemma task_step_listed: "task_step r m new m' \<Longrightarrow> listed_ok r m \<Longrightarrow> listed_ok r m'"
proof (induction rule: task_step.induct)
  case (create m i r op p hook tm)
  then show ?case unfolding create_task_def Let_def by (intro new_listed [of r m i]) simp_all
next
  case (cached m i op p r hook tm exit lines)
  then show ?case unfolding create_cached_def Let_def completeTaskSucceeded_def by (intro new_listed [of r m i]) simp_all
qed (simp_all add: task_ops, (erule same_listed; auto)+)

text \<open>C?. The list of tasks is bounded: whatever is created, no more than the configured number of tasks is kept, without repetition.\<close>

theorem task_list_bounded:
  assumes "task_run r m es"
  shows "length (tm_listed m) \<le> r \<and> distinct (tm_listed m)"
proof -
  have "listed_ok r m" using assms
  proof induction
    case (start r)
    then show ?case by (simp add: listed_ok_def initial_manager_def)
  next
    case (step r m es new m')
    then show ?case using task_step_listed by blast
  qed
  then show ?thesis by (simp add: listed_ok_def)
qed

section \<open>The warnings of a task\<close>

text \<open>
  Output of a script that carries the marker twice is stored with the marker once, and shown as a warning of the
  console; the stripping is meant to prevent that.
\<close>

theorem doubled_marker_forges_warning:
  "taskWarnings (append_log False (QUEUED_WRITE_WARNING_PREFIX @ QUEUED_WRITE_WARNING_PREFIX @ ''forged'') ''stdout'' []) = [''forged'']
   \<and> taskWarnings (append_log False (QUEUED_WRITE_WARNING_PREFIX @ ''forged'') ''stdout'' []) = []"
  by code_simp

text \<open>A task that makes a backup and has a hook, from its creation to the call of the hook.\<close>

definition backup_done :: "string manager" where
  "backup_done = completeTaskSucceeded ''t1'' 0 (operation_done ''t1''
     ((new_task ''backupCreate'' (Obj []) 5)\<lparr>tk_status := Running, tk_step := ''Running'', tk_message := ''Task started'', tk_todo := Some [''backupCreate'']\<rparr>)
     ''backupCreate'' [] 0 [] (begin_task ''t1'' (new_task ''backupCreate'' (Obj []) 5) (Some [''backupCreate''])
       (create_task 3 ''t1'' ''backupCreate'' (Obj []) (Some ''done'') 5 initial_manager)))"

definition backup_events :: "string task_event list" where
  "backup_events = [Created ''t1'' ''backupCreate'' (Obj []) (Some ''done''), Ran ''t1'' ''backupCreate'', Finished ''t1'' (Some ''done'')]"

lemma backup_run: "task_run 3 backup_done backup_events"
proof -
  let ?t = "new_task ''backupCreate'' (Obj []) 5"
  let ?m1 = "create_task 3 ''t1'' ''backupCreate'' (Obj []) (Some ''done'') 5 (initial_manager :: string manager)"
  let ?m2 = "begin_task ''t1'' ?t (Some [''backupCreate'']) ?m1"
  let ?u = "?t\<lparr>tk_status := Running, tk_step := ''Running'', tk_message := ''Task started'', tk_todo := Some [''backupCreate'']\<rparr>"
  let ?m3 = "operation_done ''t1'' ?u ''backupCreate'' [] 0 [] ?m2"
  have ops: "taskOperations ''backupCreate'' (Obj []) = Some [''backupCreate'']" by (simp add: taskOperations_def)
  have runs: "runnable ''backupCreate'' (Obj [])" by code_simp
  have 1: "task_run 3 ?m1 ([] @ [Created ''t1'' ''backupCreate'' (Obj []) (Some ''done'')])"
    by (rule task_run.step [OF task_run.start]) (rule task_step.create, simp add: initial_manager_def)
  have "task_step 3 ?m1 [] ?m2"
    by (rule task_step.begin_loop) (simp_all add: task_ops initial_manager_def ops isSelfUpdateApplyOperation_def isDiscordAdapterApplyOperation_def)
  from task_run.step [OF 1 this] have 2: "task_run 3 ?m2 [Created ''t1'' ''backupCreate'' (Obj []) (Some ''done'')]" by simp
  have "task_step 3 ?m2 [Ran ''t1'' ''backupCreate''] ?m3"
    by (rule task_step.ran) (simp_all add: task_ops runs)
  from task_run.step [OF 2 this] have 3: "task_run 3 ?m3 [Created ''t1'' ''backupCreate'' (Obj []) (Some ''done''), Ran ''t1'' ''backupCreate'']" by simp
  have hook: "tm_hooks ?m3 ''t1'' = Some ''done''" by (simp add: task_ops initial_manager_def)
  have "task_step 3 ?m3 [Finished ''t1'' (tm_hooks ?m3 ''t1'')] (completeTaskSucceeded ''t1'' 0 ?m3)"
    by (rule task_step.finished, simp add: task_ops) simp_all
  from task_run.step [OF 3 this] show ?thesis by (simp add: backup_done_def backup_events_def hook)
qed

theorem hook_only_after_success_witness:
  "\<exists>op p. Created ''t1'' op p (Some ''done'') \<in> set (take 2 backup_events)
    \<and> (taskOperations op p = Some [''backupCreate''] \<or> op = ''consoleReload'')"
  using hook_only_after_success [OF backup_run, of "take 2 backup_events" "''t1''" "Some ''done''" "[]"]
  by (auto simp: backup_events_def cacheable_def)

theorem task_list_bounded_witness: "length (tm_listed backup_done) \<le> 3 \<and> tm_listed backup_done = [''t1'']"
  using task_list_bounded [OF backup_run]
  by (simp add: backup_done_def task_ops initial_manager_def register_hook_def trim_def list_tasks_def)

end
