(* ===== verification/SystemRestore.thy ===== *)
theory SystemRestore
  imports Tasks
begin

text \<open>
  Restoring the whole host from a system archive: \<open>services/restorePreviewReceipts.js\<close>, the name check of
  \<open>services/systemBackups.js\<close> and \<open>systemBackupRestoreRoute\<close> of \<open>server.js\<close>, over the task manager. A dry run that
  succeeded leaves a receipt; an apply is let through only against one. The SHA-256 of the archive when the request
  came, the rate limiter's verdict, the clock and the principal's session are arguments; the audit log, messages and
  the passphrase in the environment of the command are not modelled.
\<close>

section \<open>Receipts\<close>

record receipt =
  rc_principal :: string
  rc_archiveName :: string
  rc_archiveHash :: string
  rc_identityMode :: string
  rc_auditLogMode :: string
  rc_previewedAt :: int
  rc_expiresAt :: int

type_synonym receipts = "(string, receipt) omap"

definition DEFAULT_MAX_ENTRIES :: nat where
  "DEFAULT_MAX_ENTRIES = 64"

definition receiptKey :: "string \<Rightarrow> string \<Rightarrow> string" where
  "receiptKey who archiveName = who @ [CHR 0x00] @ archiveName"

definition modeCompatible :: "string \<Rightarrow> string \<Rightarrow> bool" where
  "modeCompatible previewed applied = (previewed = [] \<or> previewed = applied)"

definition dropExpired :: "int \<Rightarrow> receipts \<Rightarrow> receipts" where
  "dropExpired tm rs = filter (\<lambda>(key, rc). \<not> rc_expiresAt rc \<le> tm) rs"

text \<open>The loop deletes the first key until the bound holds.\<close>

definition enforceBound :: "nat \<Rightarrow> receipts \<Rightarrow> receipts" where
  "enforceBound maxEntries rs = drop (length rs - maxEntries) rs"

record restore_hook =
  hk_apply :: bool
  hk_principal :: string
  hk_archiveName :: string
  hk_archiveHash :: string
  hk_identityMode :: string
  hk_auditLogMode :: string

definition hook_key :: "restore_hook \<Rightarrow> string" where
  "hook_key h = receiptKey (hk_principal h) (hk_archiveName h)"

definition receipt_of :: "int \<Rightarrow> int \<Rightarrow> restore_hook \<Rightarrow> receipt" where
  "receipt_of ttl tm h = \<lparr>rc_principal = hk_principal h, rc_archiveName = hk_archiveName h, rc_archiveHash = hk_archiveHash h,
     rc_identityMode = hk_identityMode h, rc_auditLogMode = hk_auditLogMode h, rc_previewedAt = tm, rc_expiresAt = tm + ttl\<rparr>"

definition record_receipt :: "int \<Rightarrow> nat \<Rightarrow> int \<Rightarrow> restore_hook \<Rightarrow> receipts \<Rightarrow> receipts" where
  "record_receipt ttl maxEntries tm h rs =
     enforceBound maxEntries (om_set (hook_key h) (receipt_of ttl tm h) (om_delete (hook_key h) (dropExpired tm rs)))"

datatype verdict = Verified receipt | NotPreviewed | Expired | ArchiveChanged | OptionsChanged

definition verify_receipt :: "int \<Rightarrow> restore_hook \<Rightarrow> receipts \<Rightarrow> verdict \<times> receipts" where
  "verify_receipt tm h rs = (let receipt = om_get rs (hook_key h); rs1 = dropExpired tm rs in
     case receipt of
       None \<Rightarrow> (NotPreviewed, rs1)
     | Some rc \<Rightarrow>
         if rc_expiresAt rc \<le> tm then (Expired, om_delete (hook_key h) rs1)
         else if rc_archiveHash rc \<noteq> hk_archiveHash h then (ArchiveChanged, rs1)
         else if \<not> modeCompatible (rc_identityMode rc) (hk_identityMode h) then (OptionsChanged, rs1)
         else if \<not> modeCompatible (rc_auditLogMode rc) (hk_auditLogMode h) then (OptionsChanged, rs1)
         else (Verified rc, rs1))"

definition consume_receipt :: "restore_hook \<Rightarrow> receipts \<Rightarrow> receipts" where
  "consume_receipt h rs = om_delete (hook_key h) rs"

section \<open>The route\<close>

definition validSystemArchiveName :: "string \<Rightarrow> bool" where
  "validSystemArchiveName name = (starts_with name ''dune-system-'' \<and> ends_with name ''.tar.gz.enc'' \<and>
     (case split_at (\<lambda>c. c = CHR ''-'') (take (length name - 23) (drop 12 name)) of
        [day, clock, a, b] \<Rightarrow> length day = 8 \<and> length clock = 6 \<and> a \<noteq> [] \<and> b \<noteq> [] \<and> list_all is_digit (day @ clock @ a @ b)
      | _ \<Rightarrow> False))"

definition restore_mode :: "jsval \<Rightarrow> string" where
  "restore_mode v = (if v = Str ''adopt-backup'' then ''adopt-backup'' else if v = Str ''keep-current'' then ''keep-current'' else [])"

definition apply_recognized :: "jsval \<Rightarrow> bool" where
  "apply_recognized v = (v \<in> set [Undef, Null, Bool True, Bool False, num 1, num 0, Str ''1'', Str ''0'', Str []])"

definition apply_requested :: "jsval \<Rightarrow> bool" where
  "apply_requested v = (v = Bool True \<or> v = num 1 \<or> text_of v = ''1'')"

definition passphrase_ok :: "string \<Rightarrow> bool" where
  "passphrase_ok p = (12 \<le> length p \<and> length p \<le> 1024 \<and> 5 \<le> length (remdups p))"

definition restorePrincipalOf :: "jsval \<Rightarrow> string" where
  "restorePrincipalOf session = (if truthy (getp session ''apiKeyId'') then ''key:'' @ to_str (getp session ''apiKeyId'')
     else ''session:'' @ to_str (js_or (getp session ''id'') (Str ''unknown'')))"

record restore_request =
  rr_limited :: bool
  rr_name :: string
  rr_body :: jsval
  rr_session :: jsval
  rr_hash :: string

definition hook_of_request :: "restore_request \<Rightarrow> restore_hook" where
  "hook_of_request r = \<lparr>hk_apply = apply_requested (getp (rr_body r) ''apply''), hk_principal = restorePrincipalOf (rr_session r),
     hk_archiveName = rr_name r, hk_archiveHash = rr_hash r, hk_identityMode = restore_mode (getp (rr_body r) ''identityMode''),
     hk_auditLogMode = restore_mode (getp (rr_body r) ''auditLogMode'')\<rparr>"

definition restore_payload :: "restore_hook \<Rightarrow> jsval" where
  "restore_payload h = Obj [(''backup'', Str (hk_archiveName h)), (''apply'', Bool (hk_apply h)),
     (''identityMode'', Str (hk_identityMode h)), (''auditLogMode'', Str (hk_auditLogMode h))]"

datatype restore_reply = TooMany | BadRequest | Refused verdict | Submit restore_hook

definition systemBackupRestoreRoute :: "int \<Rightarrow> restore_request \<Rightarrow> receipts \<Rightarrow> restore_reply \<times> receipts" where
  "systemBackupRestoreRoute tm r rs =
     (if rr_limited r then (TooMany, rs)
      else if \<not> validSystemArchiveName (rr_name r) then (BadRequest, rs)
      else if \<not> passphrase_ok (text_of (getp (rr_body r) ''passphrase'')) then (BadRequest, rs)
      else if \<not> apply_recognized (getp (rr_body r) ''apply'') then (BadRequest, rs)
      else let h = hook_of_request r in
        if hk_apply h
        then (case verify_receipt tm h rs of
            (Verified rc, rs') \<Rightarrow> (Submit h, rs')
          | (v, rs') \<Rightarrow> (Refused v, rs'))
        else (Submit h, rs))"

section \<open>The console while restores run\<close>

text \<open>
  The log pairs every event of the task manager with the clock. A request that is submitted may still be refused by
  the limiter of the task dispatch; other tasks have no hook.
\<close>

record restore_world =
  rw_tasks :: "restore_hook manager"
  rw_receipts :: receipts
  rw_log :: "(int \<times> restore_hook task_event) list"

definition run_hook :: "int \<Rightarrow> nat \<Rightarrow> int \<Rightarrow> restore_hook task_event \<Rightarrow> receipts \<Rightarrow> receipts" where
  "run_hook ttl maxEntries tm e rs = (case e of
     Finished i (Some h) \<Rightarrow> if hk_apply h then consume_receipt h rs else record_receipt ttl maxEntries tm h rs
   | _ \<Rightarrow> rs)"

definition hookless :: "'h task_event \<Rightarrow> bool" where
  "hookless e = (case e of Created i op p h \<Rightarrow> h = None | _ \<Rightarrow> True)"

definition initial_world :: restore_world where
  "initial_world = \<lparr>rw_tasks = initial_manager, rw_receipts = [], rw_log = []\<rparr>"

inductive restore_run :: "nat \<Rightarrow> int \<Rightarrow> nat \<Rightarrow> restore_world \<Rightarrow> bool" for retention ttl maxEntries where
  begins: "restore_run retention ttl maxEntries initial_world"
| submitted: "restore_run retention ttl maxEntries w \<Longrightarrow> systemBackupRestoreRoute tm r (rw_receipts w) = (Submit h, rs)
    \<Longrightarrow> tm_objects (rw_tasks w) i = None
    \<Longrightarrow> restore_run retention ttl maxEntries
      \<lparr>rw_tasks = create_task retention i ''backupSystemRestore'' (restore_payload h) (Some h) tm (rw_tasks w),
       rw_receipts = rs, rw_log = rw_log w @ [(tm, Created i ''backupSystemRestore'' (restore_payload h) (Some h))]\<rparr>"
| refused: "restore_run retention ttl maxEntries w \<Longrightarrow> systemBackupRestoreRoute tm r (rw_receipts w) = (reply, rs)
    \<Longrightarrow> restore_run retention ttl maxEntries (w\<lparr>rw_receipts := rs\<rparr>)"
| other: "restore_run retention ttl maxEntries w \<Longrightarrow> task_step retention (rw_tasks w) new tasks' \<Longrightarrow> list_all hookless new
    \<Longrightarrow> restore_run retention ttl maxEntries \<lparr>rw_tasks = tasks',
       rw_receipts = fold (run_hook ttl maxEntries tm) new (rw_receipts w), rw_log = rw_log w @ map (Pair tm) new\<rparr>"

section \<open>Receipts are earned\<close>

text \<open>A receipt stems from a finished dry run of the same key, and no restore of that key finished since.\<close>

definition proved :: "int \<Rightarrow> (int \<times> restore_hook task_event) list \<Rightarrow> string \<Rightarrow> receipt \<Rightarrow> bool" where
  "proved ttl es key rc = (\<exists>pre i t0 h post. es = pre @ (t0, Finished i (Some h)) # post \<and> \<not> hk_apply h \<and> key = hook_key h
     \<and> rc = receipt_of ttl t0 h \<and> (\<forall>(t, e) \<in> set post. \<forall>k h'. e = Finished k (Some h') \<longrightarrow> hook_key h' \<noteq> key))"

definition receipts_ok :: "int \<Rightarrow> (int \<times> restore_hook task_event) list \<Rightarrow> receipts \<Rightarrow> bool" where
  "receipts_ok ttl es rs = (\<forall>(key, rc) \<in> set rs. proved ttl es key rc)"

lemma proved_more: "proved ttl es key rc \<Longrightarrow> (\<And>k h'. e = Finished k (Some h') \<Longrightarrow> hook_key h' \<noteq> key) \<Longrightarrow> proved ttl (es @ [(t, e)]) key rc"
  unfolding proved_def by (elim exE conjE) (rule exI, rule exI, rule exI, rule exI, rule exI [of _ "post @ [(t, e)]" for post], auto)

lemma fewer_receipts: "set rs' \<subseteq> set rs \<Longrightarrow> receipts_ok ttl es rs \<Longrightarrow> receipts_ok ttl es rs'"
  by (auto simp: receipts_ok_def)

lemma receipt_sets:
  "set (dropExpired tm rs) \<subseteq> set rs" "set (enforceBound n rs) \<subseteq> set rs" "set (om_delete k rs) \<subseteq> {(k', rc) \<in> set rs. k' \<noteq> k}"
  by (auto simp: dropExpired_def enforceBound_def om_delete_def dest: in_set_dropD)

lemma recorded_set: "set (record_receipt ttl n tm h rs) \<subseteq> insert (hook_key h, receipt_of ttl tm h) {(k, rc) \<in> set rs. k \<noteq> hook_key h}"
proof
  fix x assume "x \<in> set (record_receipt ttl n tm h rs)"
  then have "x \<in> set (om_set (hook_key h) (receipt_of ttl tm h) (om_delete (hook_key h) (dropExpired tm rs)))"
    using receipt_sets(2) by (auto simp: record_receipt_def)
  then show "x \<in> insert (hook_key h, receipt_of ttl tm h) {(k, rc) \<in> set rs. k \<noteq> hook_key h}"
    using om_set_values receipt_sets(1,3) by fastforce
qed

lemma hook_keeps_receipts:
  assumes "receipts_ok ttl es rs"
  shows "receipts_ok ttl (es @ [(tm, e)]) (run_hook ttl n tm e rs)"
proof (cases "\<exists>i h. e = Finished i (Some h)")
  case True
  then obtain i h where e: "e = Finished i (Some h)" by blast
  have old: "proved ttl (es @ [(tm, e)]) k rc" if "(k, rc) \<in> set rs" "k \<noteq> hook_key h" for k rc
    using assms that e by (intro proved_more) (auto simp: receipts_ok_def)
  have new: "proved ttl (es @ [(tm, e)]) (hook_key h) (receipt_of ttl tm h)" if "\<not> hk_apply h"
    using that e unfolding proved_def by (intro exI [of _ es] exI [of _ i] exI [of _ tm] exI [of _ h] exI [of _ "[]"]) simp
  show ?thesis
  proof (cases "hk_apply h")
    case True
    then show ?thesis using old receipt_sets(3) by (fastforce simp: receipts_ok_def run_hook_def e consume_receipt_def)
  next
    case False
    then show ?thesis using old new recorded_set [of ttl n tm h rs] by (fastforce simp: receipts_ok_def run_hook_def e)
  qed
next
  case False
  then have "run_hook ttl n tm e rs = rs" by (auto simp: run_hook_def split: task_event.splits option.splits)
  then show ?thesis using assms False proved_more by (fastforce simp: receipts_ok_def)
qed

lemma hooks_keep_receipts: "receipts_ok ttl es rs \<Longrightarrow> receipts_ok ttl (es @ map (Pair tm) new) (fold (run_hook ttl n tm) new rs)"
proof (induction new arbitrary: es rs)
  case (Cons e new)
  then show ?case using Cons.IH [OF hook_keeps_receipts [OF Cons.prems]] by simp
qed simp

lemma verify_set: "verify_receipt tm h rs = (v, rs') \<Longrightarrow> set rs' \<subseteq> set rs"
  using receipt_sets(1,3) by (fastforce simp: verify_receipt_def Let_def split: option.splits if_splits)

lemma route_set: "systemBackupRestoreRoute tm r rs = (reply, rs') \<Longrightarrow> set rs' \<subseteq> set rs"
  using verify_set by (fastforce simp: systemBackupRestoreRoute_def Let_def split: if_splits prod.splits verdict.splits)

definition verified_by :: "int \<Rightarrow> restore_hook \<Rightarrow> receipts \<Rightarrow> bool" where
  "verified_by tm h rs = (\<exists>rc. (hook_key h, rc) \<in> set rs \<and> tm < rc_expiresAt rc \<and> rc_archiveHash rc = hk_archiveHash h
     \<and> modeCompatible (rc_identityMode rc) (hk_identityMode h) \<and> modeCompatible (rc_auditLogMode rc) (hk_auditLogMode h))"

lemma submit_verified:
  "systemBackupRestoreRoute tm r rs = (Submit h, rs') \<Longrightarrow> validSystemArchiveName (hk_archiveName h) \<and> (hk_apply h \<longrightarrow> verified_by tm h rs)"
  by (auto simp: systemBackupRestoreRoute_def verify_receipt_def verified_by_def hook_of_request_def Let_def dest: om_get_in_set
      split: if_splits prod.splits verdict.splits option.splits)

definition births_ok :: "(int \<times> restore_hook task_event) list \<Rightarrow> bool" where
  "births_ok es = (\<forall>(t, e) \<in> set es. \<forall>i op p h. e = Created i op p (Some h)
     \<longrightarrow> op = ''backupSystemRestore'' \<and> p = restore_payload h \<and> validSystemArchiveName (hk_archiveName h))"

lemma world_ok:
  "restore_run retention ttl n w \<Longrightarrow> task_run retention (rw_tasks w) (map snd (rw_log w)) \<and> receipts_ok ttl (rw_log w) (rw_receipts w)
     \<and> births_ok (rw_log w)"
proof (induction rule: restore_run.induct)
  case begins
  then show ?case using task_run.start by (simp add: initial_world_def receipts_ok_def births_ok_def)
next
  case (submitted w tm r h rs i)
  let ?e = "Created i ''backupSystemRestore'' (restore_payload h) (Some h)"
  have "task_run retention (create_task retention i ''backupSystemRestore'' (restore_payload h) (Some h) tm (rw_tasks w)) (map snd (rw_log w) @ [?e])"
    using submitted by (intro task_run.step [OF _ task_step.create]) auto
  moreover have "receipts_ok ttl (rw_log w @ [(tm, ?e)]) rs"
    using hook_keeps_receipts [of ttl "rw_log w" rs tm ?e n] fewer_receipts [OF route_set] submitted by (auto simp: run_hook_def)
  ultimately show ?case using submitted submit_verified by (auto simp: births_ok_def)
next
  case (refused w tm r reply rs)
  then show ?case using fewer_receipts [OF route_set] by auto
next
  case (other w new tasks' tm)
  then have "task_run retention tasks' (map snd (rw_log w) @ new)" by (intro task_run.step) auto
  moreover have "births_ok (rw_log w @ map (Pair tm) new)"
    using other by (fastforce simp: births_ok_def list_all_iff hookless_def)
  ultimately show ?case using other hooks_keep_receipts by (simp add: comp_def)
qed

section \<open>Names and command lines\<close>

lemma drop_front: "k < length r \<Longrightarrow> drop (length (u @ r) - k) (u @ r) = drop (length r - k) r"
  by simp

lemma archive_name:
  assumes "validSystemArchiveName name"
  shows "\<exists>mid. name = ''dune-system-'' @ mid @ ''.tar.gz.enc'' \<and> list_all (\<lambda>c. is_digit c \<or> c = CHR ''-'') mid"
proof -
  let ?mid = "take (length name - 23) (drop 12 name)"
  obtain a b c d where parts: "split_at (\<lambda>c. c = CHR ''-'') ?mid = [a, b, c, d]" "list_all is_digit (a @ b @ c @ d)" "c \<noteq> []"
    using assms by (auto simp: validSystemArchiveName_def split: list.splits)
  have mid: "?mid = join_with ''-'' [a, b, c, d]" using join_split [of "CHR ''-''" ?mid] parts(1) by simp
  then have "?mid \<noteq> []" using parts(3) by auto
  then have len: "23 < length name" by auto
  obtain r where r: "name = ''dune-system-'' @ r" using assms by (auto simp: validSystemArchiveName_def starts_with_iff)
  have "drop (length name - 11) name = ''.tar.gz.enc''" using assms by (auto simp: validSystemArchiveName_def ends_with_def numeral_eq_Suc)
  moreover have "11 < length r" using len by (simp add: r)
  ultimately have "drop (length r - 11) r = ''.tar.gz.enc''" using drop_front [of 11 r "''dune-system-''"] by (simp only: r)
  moreover have "?mid = take (length r - 11) r" by (simp add: r)
  ultimately have "r = ?mid @ ''.tar.gz.enc''" by (metis append_take_drop_id)
  then have "name = ''dune-system-'' @ ?mid @ ''.tar.gz.enc''" using r by simp
  moreover have "list_all (\<lambda>c. is_digit c \<or> c = CHR ''-'') ?mid" using parts(2) mid by (auto simp: list_all_iff)
  ultimately show ?thesis by blast
qed

lemma archive_plain: "validSystemArchiveName name \<Longrightarrow> CHR 0x00 \<notin> set name \<and> name \<noteq> ''--dry-run''"
proof -
  assume "validSystemArchiveName name"
  then obtain mid where n: "name = ''dune-system-'' @ mid @ ''.tar.gz.enc''" "list_all (\<lambda>c. is_digit c \<or> c = CHR ''-'') mid"
    using archive_name by blast
  moreover have "\<not> is_digit (CHR 0x00)" by code_simp
  ultimately show ?thesis by (auto simp: list_all_iff)
qed

lemma same_key:
  assumes "hook_key h = hook_key h'" and "CHR 0x00 \<notin> set (hk_archiveName h)" and "CHR 0x00 \<notin> set (hk_archiveName h')"
  shows "hk_principal h = hk_principal h' \<and> hk_archiveName h = hk_archiveName h'"
proof -
  have k: "rev (hk_archiveName h) @ CHR 0x00 # rev (hk_principal h) = rev (hk_archiveName h') @ CHR 0x00 # rev (hk_principal h')"
    using arg_cong [OF assms(1), of rev] by (simp add: hook_key_def receiptKey_def)
  have "takeWhile (\<lambda>c. c \<noteq> CHR 0x00) (rev n @ CHR 0x00 # p) = rev n" if "CHR 0x00 \<notin> set n" for n p
    using that by (subst takeWhile_append2) auto
  from this [OF assms(2), of "rev (hk_principal h)"] this [OF assms(3), of "rev (hk_principal h')"] k
  have "rev (hk_archiveName h) = rev (hk_archiveName h')" by simp
  with k show ?thesis by simp
qed

lemma restore_case: "buildDuneArgs ''backupSystemRestore'' p = command [''db'', ''restore-system''] ([validateBackupName (pay p ''backup'')]
         @ flag_if (\<not> truthy (pay p ''apply'')) ''--dry-run''
         @ flag_if (pay p ''identityMode'' = Str ''adopt-backup'') ''--adopt-backup-battlegroup''
         @ flag_if (pay p ''identityMode'' = Str ''keep-current'') ''--keep-current-battlegroup''
         @ flag_if (pay p ''auditLogMode'' = Str ''adopt-backup'') ''--adopt-backup-audit-log''
         @ flag_if (pay p ''auditLogMode'' = Str ''keep-current'') ''--keep-current-audit-log'')"
  by (simp add: buildDuneArgs.simps simpleOperations_def DELEGATED_def DUNE_CASES_def DUNE_CASES_1_def)

lemma dry_run_flag:
  assumes "validSystemArchiveName (hk_archiveName h)" and "buildDuneArgs ''backupSystemRestore'' (restore_payload h) = Some args"
  shows "Str ''--dry-run'' \<in> set args \<longleftrightarrow> \<not> hk_apply h"
proof -
  have "validateBackupName (Str (hk_archiveName h)) = None \<or> validateBackupName (Str (hk_archiveName h)) = Some (hk_archiveName h)"
    by (auto simp: validateBackupName_def accept_def)
  then show ?thesis using assms(2) archive_plain [OF assms(1)]
    by (auto simp: restore_case command_def restore_payload_def flag_if_def split: if_splits)
qed

text \<open>
  C11. The host is replaced only after its own preview: whenever an apply of a system archive becomes a task, a dry run
  of it has finished before, asked for by the same principal, for the same archive and the same SHA-256, less than the
  time to live ago, with options the apply does not contradict; no restore of it finished since; the restore command
  really ran for the preview; and every command line of the preview has the dry-run flag while the apply's has not.
\<close>

theorem restore_needs_preview:
  assumes "restore_run retention ttl n w"
    and "rw_log w = before @ (tm, Created i op p (Some h)) # after" and "hk_apply h"
  shows "\<exists>pre j t0 h0 post. before = pre @ (t0, Finished j (Some h0)) # post \<and> \<not> hk_apply h0
    \<and> hk_principal h0 = hk_principal h \<and> hk_archiveName h0 = hk_archiveName h \<and> hk_archiveHash h0 = hk_archiveHash h
    \<and> tm < t0 + ttl \<and> modeCompatible (hk_identityMode h0) (hk_identityMode h) \<and> modeCompatible (hk_auditLogMode h0) (hk_auditLogMode h)
    \<and> (\<forall>(t, e) \<in> set post. \<forall>k h'. e = Finished k (Some h') \<longrightarrow> hook_key h' \<noteq> hook_key h)
    \<and> Created j op (restore_payload h0) (Some h0) \<in> snd ` set pre \<and> ran_ops j (map snd pre) = [op]
    \<and> op = ''backupSystemRestore'' \<and> p = restore_payload h
    \<and> (\<forall>args. buildDuneArgs op (restore_payload h0) = Some args \<longrightarrow> Str ''--dry-run'' \<in> set args)
    \<and> (\<forall>args. buildDuneArgs op p = Some args \<longrightarrow> Str ''--dry-run'' \<notin> set args)"
  using assms
proof (induction arbitrary: before after rule: restore_run.induct)
  case begins
  then show ?case by (simp add: initial_world_def)
next
  case (submitted w tm' r h' rs i')
  show ?case
  proof (cases "after = []")
    case False
    then obtain us where "after = us @ [(tm', Created i' ''backupSystemRestore'' (restore_payload h') (Some h'))]"
      "rw_log w = before @ (tm, Created i op p (Some h)) # us"
      using submitted.prems(1) by (cases after rule: rev_cases) auto
    then show ?thesis using submitted.IH submitted.prems(2) by blast
  next
    case True
    then have now: "before = rw_log w" "tm' = tm" "h' = h" "op = ''backupSystemRestore''" "p = restore_payload h"
      using submitted.prems(1) by auto
    have v: "validSystemArchiveName (hk_archiveName h)" "verified_by tm h (rw_receipts w)"
      using submit_verified [OF submitted.hyps(2)] submitted.prems(2) now by auto
    have ok: "task_run retention (rw_tasks w) (map snd (rw_log w))" "receipts_ok ttl (rw_log w) (rw_receipts w)" "births_ok (rw_log w)"
      using world_ok [OF submitted.hyps(1)] by auto
    obtain rc where rc: "(hook_key h, rc) \<in> set (rw_receipts w)" "tm < rc_expiresAt rc" "rc_archiveHash rc = hk_archiveHash h"
      "modeCompatible (rc_identityMode rc) (hk_identityMode h)" "modeCompatible (rc_auditLogMode rc) (hk_auditLogMode h)"
      using v(2) by (auto simp: verified_by_def)
    then obtain pre j t0 h0 post where d: "rw_log w = pre @ (t0, Finished j (Some h0)) # post" "\<not> hk_apply h0" "hook_key h = hook_key h0"
      "rc = receipt_of ttl t0 h0" "\<forall>(t, e) \<in> set post. \<forall>k h'. e = Finished k (Some h') \<longrightarrow> hook_key h' \<noteq> hook_key h"
      using ok(2) by (fastforce simp: receipts_ok_def proved_def)
    have "earned (map snd pre) j (Some h0)" by (rule run_earned [OF ok(1)]) (simp add: d(1))
    then obtain op0 p0 where born: "filter (is_birth j) (map snd pre) = [Created j op0 p0 (Some h0)]"
      and ran: "taskOperations op0 p0 = Some (ran_ops j (map snd pre)) \<or> op0 = ''consoleReload'' \<or> cacheable op0 p0"
      by (auto simp: earned_def)
    have "Created j op0 p0 (Some h0) \<in> set (filter (is_birth j) (map snd pre))" unfolding born by simp
    then have mem: "Created j op0 p0 (Some h0) \<in> snd ` set pre" by simp
    then have b: "op0 = ''backupSystemRestore''" "p0 = restore_payload h0" "validSystemArchiveName (hk_archiveName h0)"
      using ok(3) d(1) by (fastforce simp: births_ok_def)+
    have names: "hk_principal h0 = hk_principal h \<and> hk_archiveName h0 = hk_archiveName h"
      using same_key [OF d(3)] archive_plain [OF v(1)] archive_plain [OF b(3)] by auto
    have "ran_ops j (map snd pre) = [op]" using ran b(1) now(4) by (simp add: taskOperations_def cacheable_def)
    moreover have "buildDuneArgs op (restore_payload h0) = Some args \<Longrightarrow> Str ''--dry-run'' \<in> set args" for args
      using dry_run_flag [OF b(3), of args] d(2) now(4) by simp
    moreover have "buildDuneArgs op p = Some args \<Longrightarrow> Str ''--dry-run'' \<notin> set args" for args
      using dry_run_flag [OF v(1), of args] submitted.prems(2) now(4,5) by simp
    ultimately show ?thesis using d(1,2,5) names rc(2-5) mem b(1,2) now unfolding d(4)
      by (intro exI [of _ pre] exI [of _ j] exI [of _ t0] exI [of _ h0] exI [of _ post]) (simp add: receipt_of_def)
  qed
next
  case (refused w tm' r reply rs)
  then show ?case by simp
next
  case (other w new tasks' tm')
  have "(tm, Created i op p (Some h)) \<notin> set (map (Pair tm') new)" using other.hyps by (auto simp: list_all_iff hookless_def)
  moreover obtain us where "rw_log w = before @ us \<and> us @ map (Pair tm') new = (tm, Created i op p (Some h)) # after
      \<or> map (Pair tm') new = us @ (tm, Created i op p (Some h)) # after"
    using other.prems(1) by (simp add: append_eq_append_conv2) blast
  ultimately have "rw_log w = before @ us \<and> us @ map (Pair tm') new = (tm, Created i op p (Some h)) # after"
    by (metis in_set_conv_decomp)
  moreover from this \<open>_ \<notin> set _\<close> have "us \<noteq> []" by (metis append_Nil list.set_intros(1))
  ultimately obtain ys where "rw_log w = before @ (tm, Created i op p (Some h)) # ys" by (cases us) auto
  then show ?case using other.IH other.prems(2) by blast
qed

text \<open>A preview, its task and the apply it allows.\<close>

definition sample_restore :: "jsval \<Rightarrow> restore_request" where
  "sample_restore wanted = \<lparr>rr_limited = False, rr_name = ''dune-system-20260101-120000-77-4711.tar.gz.enc'',
     rr_body = Obj [(''passphrase'', Str ''correct horse''), (''apply'', wanted)], rr_session = Obj [(''id'', Str ''s1'')], rr_hash = ''ab12''\<rparr>"

abbreviation "preview_hook \<equiv> hook_of_request (sample_restore (Bool False))"
abbreviation "apply_hook \<equiv> hook_of_request (sample_restore (Bool True))"
abbreviation "the_restore \<equiv> ''backupSystemRestore''"

lemma sample_routes:
  "systemBackupRestoreRoute 1000 (sample_restore (Bool False)) [] = (Submit preview_hook, [])"
  "systemBackupRestoreRoute 9000 (sample_restore (Bool True)) [(hook_key preview_hook, receipt_of 60000 5000 preview_hook)]
    = (Submit apply_hook, [(hook_key preview_hook, receipt_of 60000 5000 preview_hook)])"
  by code_simp+

lemma sample_recorded: "record_receipt 60000 64 5000 preview_hook [] = [(hook_key preview_hook, receipt_of 60000 5000 preview_hook)]"
  by code_simp

lemma sample_kinds: "\<not> hk_apply preview_hook" "hk_apply apply_hook" "runnable the_restore (restore_payload preview_hook)"
  "taskOperations the_restore (restore_payload preview_hook) = Some [the_restore]"
  by code_simp+

definition sample_log :: "(int \<times> restore_hook task_event) list" where
  "sample_log = [(1000, Created ''p1'' the_restore (restore_payload preview_hook) (Some preview_hook)), (2000, Ran ''p1'' the_restore),
     (5000, Finished ''p1'' (Some preview_hook))]"

lemma sample_run: "\<exists>w. restore_run 200 60000 64 w
    \<and> rw_log w = sample_log @ [(9000, Created ''a1'' the_restore (restore_payload apply_hook) (Some apply_hook))]"
proof -
  let ?p = "restore_payload preview_hook"
  let ?t = "new_task the_restore ?p 1000"
  let ?m1 = "create_task 200 ''p1'' the_restore ?p (Some preview_hook) 1000 initial_manager"
  let ?m2 = "begin_task ''p1'' ?t (Some [the_restore]) ?m1"
  let ?u = "?t\<lparr>tk_status := Running, tk_step := ''Running'', tk_message := ''Task started'', tk_todo := Some [the_restore]\<rparr>"
  let ?m3 = "operation_done ''p1'' ?u the_restore [] 0 [] ?m2"
  let ?m4 = "completeTaskSucceeded ''p1'' 0 ?m3"
  let ?l1 = "[(1000, Created ''p1'' the_restore ?p (Some preview_hook))]"
  have 1: "restore_run 200 60000 64 \<lparr>rw_tasks = ?m1, rw_receipts = [], rw_log = ?l1\<rparr>"
    using restore_run.submitted [OF restore_run.begins, of 1000 "sample_restore (Bool False)" preview_hook "[]" "''p1''" 200 60000 64]
      sample_routes(1) by (simp add: initial_world_def initial_manager_def)
  have "task_step 200 ?m1 [] ?m2"
    by (rule task_step.begin_loop)
      (simp_all add: task_ops initial_manager_def sample_kinds isSelfUpdateApplyOperation_def isDiscordAdapterApplyOperation_def)
  from restore_run.other [OF 1, of "[]" ?m2 1000] this
  have 2: "restore_run 200 60000 64 \<lparr>rw_tasks = ?m2, rw_receipts = [], rw_log = ?l1\<rparr>" by simp
  have "task_step 200 ?m2 [Ran ''p1'' the_restore] ?m3" by (rule task_step.ran) (simp_all add: task_ops sample_kinds)
  from restore_run.other [OF 2, of "[Ran ''p1'' the_restore]" ?m3 2000] this
  have 3: "restore_run 200 60000 64 \<lparr>rw_tasks = ?m3, rw_receipts = [], rw_log = ?l1 @ [(2000, Ran ''p1'' the_restore)]\<rparr>"
    by (simp add: hookless_def run_hook_def)
  have hook: "tm_hooks ?m3 ''p1'' = Some preview_hook" by (simp add: task_ops initial_manager_def)
  have "task_step 200 ?m3 [Finished ''p1'' (tm_hooks ?m3 ''p1'')] ?m4" by (rule task_step.finished, simp add: task_ops) simp_all
  from restore_run.other [OF 3, of "[Finished ''p1'' (tm_hooks ?m3 ''p1'')]" ?m4 5000] this
  have 4: "restore_run 200 60000 64 \<lparr>rw_tasks = ?m4, rw_receipts = [(hook_key preview_hook, receipt_of 60000 5000 preview_hook)], rw_log = sample_log\<rparr>"
    by (simp add: hookless_def run_hook_def hook sample_kinds sample_recorded sample_log_def)
  have "tm_objects ?m4 ''a1'' = None" by (simp add: task_ops initial_manager_def)
  then have "restore_run 200 60000 64 \<lparr>rw_tasks = create_task 200 ''a1'' the_restore (restore_payload apply_hook) (Some apply_hook) 9000 ?m4,
      rw_receipts = [(hook_key preview_hook, receipt_of 60000 5000 preview_hook)],
      rw_log = sample_log @ [(9000, Created ''a1'' the_restore (restore_payload apply_hook) (Some apply_hook))]\<rparr>"
    using restore_run.submitted [OF 4, of 9000 "sample_restore (Bool True)" apply_hook _ "''a1''"] sample_routes(2)
    by (simp only: restore_world.select_convs simp_thms)
  then show ?thesis by (rule exI [where x = "\<lparr>rw_tasks = _, rw_receipts = _, rw_log = _\<rparr>", OF conjI]) (simp only: restore_world.select_convs)
qed

theorem restore_needs_preview_witness:
  "\<exists>pre t0 h0 post. sample_log = pre @ (t0, Finished ''p1'' (Some h0)) # post \<and> \<not> hk_apply h0 \<and> hk_archiveHash h0 = ''ab12'' \<and> 9000 < t0 + 60000"
proof -
  obtain w where w: "restore_run 200 60000 64 w"
    "rw_log w = sample_log @ (9000, Created ''a1'' the_restore (restore_payload apply_hook) (Some apply_hook)) # []"
    using sample_run by auto
  have "hk_archiveHash apply_hook = ''ab12''" by code_simp
  with restore_needs_preview [OF w sample_kinds(2)] obtain pre j t0 h0 post where
    "sample_log = pre @ (t0, Finished j (Some h0)) # post" "\<not> hk_apply h0" "hk_archiveHash h0 = ''ab12''" "9000 < t0 + 60000" by auto
  moreover from this(1) have "j = ''p1''" unfolding sample_log_def by (auto simp: Cons_eq_append_conv)
  ultimately show ?thesis by blast
qed

text \<open>
  The empty hash of an archive that could not be read is recorded like any other, and matches an archive that cannot be
  read when the apply comes.
\<close>

theorem unreadable_archive_matches:
  "fst (verify_receipt 9000 (apply_hook\<lparr>hk_archiveHash := []\<rparr>) (record_receipt 60000 64 5000 (preview_hook\<lparr>hk_archiveHash := []\<rparr>) []))
     = Verified (receipt_of 60000 5000 (preview_hook\<lparr>hk_archiveHash := []\<rparr>))"
  by code_simp

section \<open>The bound on receipts\<close>

text \<open>
  Recording a preview never fails to bound the store: it keeps at most the given number of receipts, the newest
  preview is among them, and the ones dropped for it are expired or the oldest.
\<close>

theorem receipts_bounded:
  assumes "0 < n"
  shows "length (record_receipt ttl n tm h rs) \<le> n
    \<and> om_get (record_receipt ttl n tm h rs) (hook_key h) = Some (receipt_of ttl tm h)
    \<and> (\<exists>k. record_receipt ttl n tm h rs = drop k (om_delete (hook_key h) (dropExpired tm rs) @ [(hook_key h, receipt_of ttl tm h)]))"
proof -
  have set: "om_set k v (om_delete k rs) = om_delete k rs @ [(k, v)]" for k v and rs :: receipts
    by (induction rs) (auto simp: om_delete_def)
  let ?rs = "om_delete (hook_key h) (dropExpired tm rs)"
  have r: "record_receipt ttl n tm h rs = drop (Suc (length ?rs) - n) (?rs @ [(hook_key h, receipt_of ttl tm h)])"
    by (simp add: record_receipt_def enforceBound_def set)
  have "om_get (drop j (?rs @ [(hook_key h, receipt_of ttl tm h)])) (hook_key h) = Some (receipt_of ttl tm h)" if "j \<le> length ?rs" for j
  proof -
    have "hook_key h \<notin> fst ` set (drop j ?rs)" by (auto simp: om_delete_def dest: in_set_dropD)
    then have "map_of (drop j ?rs) (hook_key h) = None" by (simp add: map_of_eq_None_iff)
    then show ?thesis using that by (simp add: om_get_def map_add_def)
  qed
  from this [of "Suc (length ?rs) - n"] have "om_get (record_receipt ttl n tm h rs) (hook_key h) = Some (receipt_of ttl tm h)"
    using assms by (simp add: r)
  moreover have "length (record_receipt ttl n tm h rs) \<le> n" by (simp add: r)
  ultimately show ?thesis using r by blast
qed

theorem receipts_bounded_witness: "length (record_receipt 60000 64 5000 preview_hook []) \<le> 64 \<and> (0::nat) < 64"
  using receipts_bounded [of 64 60000 5000 preview_hook "[]"] by simp

end
