(* ===== verification/AddonDeliveries.thy ===== *)
theory AddonDeliveries
  imports Js "HOL-Library.List_Lexorder" "HOL-Library.Char_ord"
begin

text \<open>
  Deliveries of rewards and messages that addons ask for: \<open>console/api/src/addonDeliveries.js\<close>. One file per
  delivery, keyed by addon and request id, carries the delivery through its states; the operations on one key are
  chained, and a background tick retries what is pending. The \<open>deliver\<close> and \<open>canRun\<close> functions the service is
  built with, the hash behind the fingerprint, the outcome of every file write and the clock are the environment.
  A step is what runs between two awaits; one clock reading serves a step. A file that is not JSON, or that fails the
  checks on the version, the status and the types of a record, is \<open>Unreadable\<close>.
\<close>

section \<open>What is delivered\<close>

record reward =
  rw_type :: string
  rw_player :: string
  rw_amount :: int
  rw_item :: "string option"
  rw_quality :: "int option"
  rw_currency :: "int option"

datatype payload = Reward reward | Message string string

definition REWARD_TYPES :: "string list" where
  "REWARD_TYPES = [''item'', ''xp'', ''intel'', ''currency'', ''building-unlock'']"

definition matches_pattern :: "string \<Rightarrow> nat \<Rightarrow> string \<Rightarrow> bool" where
  "matches_pattern punctuation longest s = (1 \<le> length s \<and> length s \<le> longest
     \<and> list_all (\<lambda>c. is_word_char c \<or> c \<in> set punctuation) s)"

definition trimmed_value :: "jsval \<Rightarrow> string" where
  "trimmed_value v = js_trim (to_str (js_or v (Str [])))"

definition validRequestId :: "jsval \<Rightarrow> string option" where
  "validRequestId v = (if matches_pattern ''.:-'' 128 (trimmed_value v) then Some (trimmed_value v) else None)"

definition validPlayerId :: "jsval \<Rightarrow> string option" where
  "validPlayerId v = (if matches_pattern '':#.-'' 128 (trimmed_value v) \<and> trimmed_value v \<noteq> ''*'' then Some (trimmed_value v) else None)"

definition validItemId :: "jsval \<Rightarrow> string option" where
  "validItemId v = (if matches_pattern ''./:-'' 240 (trimmed_value v) then Some (trimmed_value v) else None)"

definition integer_in :: "jsval \<Rightarrow> int \<Rightarrow> int \<Rightarrow> int option" where
  "integer_in v lo hi = (case to_num v of
     Num q \<Rightarrow> if rat_is_int q \<and> lo \<le> \<lfloor>q\<rfloor> \<and> \<lfloor>q\<rfloor> \<le> hi then Some \<lfloor>q\<rfloor> else None
   | _ \<Rightarrow> None)"

definition positiveInteger :: "jsval \<Rightarrow> int \<Rightarrow> int option" where
  "positiveInteger v hi = integer_in v 1 hi"

definition int_value :: "int \<Rightarrow> jsval" where
  "int_value i = Number (num_of_int i)"

text \<open>An optional property of the reward: absent, or read by its validator, which may refuse.\<close>

definition wanted :: "bool \<Rightarrow> 'a option \<Rightarrow> 'a option option" where
  "wanted needed v = (if needed then map_option Some v else Some None)"

definition normalizeAddonReward :: "jsval \<Rightarrow> reward option" where
  "normalizeAddonReward input = (let type = js_lower (trimmed_value (getp input ''type'')) in
     if type \<notin> set REWARD_TYPES then None
     else case (validPlayerId (getp input ''playerId''),
                positiveInteger (js_nullish (js_nullish (getp input ''amount'') (getp input ''quantity'')) (int_value 1))
                  (if type = ''item'' then 1000 else 1000000000),
                wanted (type = ''item'' \<or> type = ''building-unlock'')
                  (validItemId (js_nullish (getp input ''itemId'') (getp input ''blueprintId''))),
                wanted (type = ''item'')
                  (integer_in (js_nullish (js_nullish (getp input ''quality'') (getp input ''grade'')) (int_value 0)) 0 5),
                wanted (type = ''currency'') (integer_in (getp input ''currencyId'') 0 32767)) of
       (Some player, Some amount, Some item, Some quality, Some currency) \<Rightarrow>
         if type = ''building-unlock'' \<and> amount \<noteq> 1 then None
         else Some \<lparr>rw_type = type, rw_player = player, rw_amount = amount, rw_item = item, rw_quality = quality,
                    rw_currency = currency\<rparr>
     | _ \<Rightarrow> None)"

definition control_char :: "char \<Rightarrow> bool" where
  "control_char c = (code c \<le> 8 \<or> code c = 11 \<or> code c = 12 \<or> (14 \<le> code c \<and> code c \<le> 31))"

definition normalizeAddonMessage :: "jsval \<Rightarrow> payload option" where
  "normalizeAddonMessage input = (let text = trimmed_value (getp input ''message'') in
     if text = [] \<or> 500 < length text \<or> list_ex control_char text then None
     else map_option (\<lambda>player. Message player text) (validPlayerId (getp input ''playerId'')))"

section \<open>The record of a delivery\<close>

datatype status = Pending | Processing | Delivered | Failed | Uncertain

record delivery =
  dl_request :: string
  dl_permission :: string
  dl_fingerprint :: string
  dl_payload :: payload
  dl_status :: status
  dl_attempts :: nat
  dl_created :: int
  dl_updated :: int
  dl_deliveredAt :: "int option"
  dl_next :: "int option"
  dl_error :: string
  dl_result :: jsval

datatype stored = Unreadable | Readable delivery

type_synonym key = "string \<times> string"

datatype delivery_error = BadInput | BadState | ReusedId | HistoryFull | WriteFailed

record public_delivery =
  pd_request :: string
  pd_status :: status
  pd_duplicate :: bool
  pd_queued :: bool
  pd_attempts :: nat
  pd_created :: int
  pd_updated :: int
  pd_deliveredAt :: "int option"
  pd_next :: "int option"
  pd_error :: string
  pd_delivery :: payload
  pd_result :: jsval

definition publicDelivery :: "delivery \<Rightarrow> bool \<Rightarrow> public_delivery" where
  "publicDelivery r duplicate = \<lparr>pd_request = dl_request r, pd_status = dl_status r, pd_duplicate = duplicate,
     pd_queued = (dl_status r = Pending), pd_attempts = dl_attempts r, pd_created = dl_created r,
     pd_updated = dl_updated r, pd_deliveredAt = dl_deliveredAt r, pd_next = dl_next r, pd_error = dl_error r,
     pd_delivery = dl_payload r, pd_result = (if dl_status r = Delivered then dl_result r else Null)\<rparr>"

definition MAX_TICK_DELIVERIES :: nat where "MAX_TICK_DELIVERIES = 50"
definition MAX_DELIVERIES_PER_ADDON :: int where "MAX_DELIVERIES_PER_ADDON = 100000"
definition DEFERRED_RETRY_MS :: int where "DEFERRED_RETRY_MS = 30000"

type_synonym fingerprinter = "string \<Rightarrow> payload \<Rightarrow> string"
type_synonym disk = "(key, stored) omap"

definition readDelivery :: "fingerprinter \<Rightarrow> disk \<Rightarrow> key \<Rightarrow> delivery_error + delivery option" where
  "readDelivery fp d k = (case om_get d k of
     None \<Rightarrow> Inr None
   | Some Unreadable \<Rightarrow> Inl BadState
   | Some (Readable r) \<Rightarrow>
       if \<not> matches_pattern ''.:-'' 128 (dl_request r) \<or> dl_fingerprint r \<noteq> fp (dl_permission r) (dl_payload r)
       then Inl BadState else Inr (Some r))"

text \<open>\<open>listDeliveryRecords\<close>: all files of the addon, in the order of the directory; an unreadable one throws.\<close>

fun read_all :: "fingerprinter \<Rightarrow> disk \<Rightarrow> key list \<Rightarrow> delivery list option" where
  "read_all fp d [] = Some []"
| "read_all fp d (k # ks) = (case readDelivery fp d k of
     Inl _ \<Rightarrow> None
   | Inr None \<Rightarrow> read_all fp d ks
   | Inr (Some r) \<Rightarrow> map_option (Cons r) (read_all fp d ks))"

definition files_of :: "disk \<Rightarrow> string \<Rightarrow> key list" where
  "files_of d addon = filter (\<lambda>k. fst k = addon) (om_keys d)"

definition listDeliveryRecords :: "fingerprinter \<Rightarrow> disk \<Rightarrow> string \<Rightarrow> delivery list option" where
  "listDeliveryRecords fp d addon = read_all fp d (files_of d addon)"

fun squash_newlines :: "string \<Rightarrow> string" where
  "squash_newlines [] = []"
| "squash_newlines (c # cs) =
     (if code c = 10 \<or> code c = 13
      then (case cs of x # _ \<Rightarrow> if code x = 10 \<or> code x = 13 then squash_newlines cs else CHR 0x20 # squash_newlines cs
            | [] \<Rightarrow> [CHR 0x20])
      else c # squash_newlines cs)"

definition cleanError :: "string \<Rightarrow> string" where
  "cleanError message = take 500 (squash_newlines (if message = [] then ''Delivery failed.'' else message))"

section \<open>The service\<close>

text \<open>
  \<open>queues\<close> holds, per key, the operations chained on it, the first of which may be waiting for \<open>deliver\<close>
  (\<open>w_active\<close>, with the record it wrote before). A tick is a thread: it keeps the keys it has not visited, and
  waits while an attempt it chained has not ended. The log lists the calls of \<open>deliver\<close>, how they ended, and what
  was answered.
\<close>

datatype operation = ReqOp string payload string | AttOp delivery nat

datatype outcome = Done jsval | Deferred string | Broken string

datatype log_entry =
    Called key string payload
  | Ended key outcome
  | Answered key "delivery_error + public_delivery"

record tick_thread =
  tk_keys :: "key list"
  tk_attempted :: nat
  tk_runnable :: "(string \<times> string, bool) omap"
  tk_wait :: bool

record world =
  w_disk :: disk
  w_pending :: "key list"
  w_loaded :: bool
  w_counts :: "(string, nat) omap"
  w_queues :: "(key, operation list) omap"
  w_active :: "(key, delivery) omap"
  w_ticks :: "(nat, tick_thread) omap"
  w_log :: "log_entry list"

definition add_pending :: "key \<Rightarrow> key list \<Rightarrow> key list" where
  "add_pending k ks = (if k \<in> set ks then ks else ks @ [k])"

definition drop_pending :: "key \<Rightarrow> world \<Rightarrow> world" where
  "drop_pending k w = w\<lparr>w_pending := filter (\<lambda>x. x \<noteq> k) (w_pending w)\<rparr>"

definition write_record :: "key \<Rightarrow> delivery \<Rightarrow> world \<Rightarrow> world" where
  "write_record k r w = w\<lparr>w_disk := om_set k (Readable r) (w_disk w)\<rparr>"

definition note_log :: "log_entry \<Rightarrow> world \<Rightarrow> world" where
  "note_log e w = w\<lparr>w_log := w_log w @ [e]\<rparr>"

text \<open>The chain of a key: an operation is added at its end, and leaves it when it has settled.\<close>

definition serialize :: "key \<Rightarrow> operation \<Rightarrow> world \<Rightarrow> world" where
  "serialize k operation w = w\<lparr>w_queues := om_set k
     ((case om_get (w_queues w) k of None \<Rightarrow> [] | Some ops \<Rightarrow> ops) @ [operation]) (w_queues w)\<rparr>"

definition unchain :: "key \<Rightarrow> operation list \<Rightarrow> world \<Rightarrow> world" where
  "unchain k ops w = w\<lparr>w_queues := (if ops = [] then om_delete k (w_queues w) else om_set k ops (w_queues w))\<rparr>"

text \<open>What waits for an operation: the caller of a request, or a tick, which an error ends.\<close>

definition wake :: "nat \<Rightarrow> delivery_error + public_delivery \<Rightarrow> world \<Rightarrow> world" where
  "wake i res w = (case om_get (w_ticks w) i of
     None \<Rightarrow> w
   | Some tk \<Rightarrow> w\<lparr>w_ticks := (case res of
         Inl _ \<Rightarrow> om_delete i (w_ticks w)
       | Inr _ \<Rightarrow> om_set i (tk\<lparr>tk_wait := False\<rparr>) (w_ticks w))\<rparr>)"

definition finish :: "key \<Rightarrow> delivery_error + public_delivery \<Rightarrow> world \<Rightarrow> world" where
  "finish k res w = (case om_get (w_queues w) k of
     Some (ReqOp _ _ _ # ops) \<Rightarrow> note_log (Answered k res) (unchain k ops w)
   | Some (AttOp _ i # ops) \<Rightarrow> wake i res (unchain k ops w)
   | _ \<Rightarrow> w)"

text \<open>\<open>attempt\<close> up to the call of \<open>deliver\<close>.\<close>

definition processing_of :: "int \<Rightarrow> delivery \<Rightarrow> delivery" where
  "processing_of now r = r\<lparr>dl_status := Processing, dl_attempts := dl_attempts r + 1, dl_updated := now, dl_error := []\<rparr>"

definition attempt_delivery :: "(string \<Rightarrow> string \<Rightarrow> bool) \<Rightarrow> int \<Rightarrow> bool \<Rightarrow> key \<Rightarrow> delivery \<Rightarrow> world \<Rightarrow> world" where
  "attempt_delivery canRun now wrote k r w =
     (if \<not> canRun (fst k) (dl_permission r) then finish k (Inr (publicDelivery r False)) w
      else if \<not> wrote then finish k (Inl WriteFailed) w
      else let p = processing_of now r in
        note_log (Called k (dl_permission p) (dl_payload p))
          ((write_record k p w)\<lparr>w_active := om_set k p (w_active w)\<rparr>))"

text \<open>The operation of a request, and the one of a tick.\<close>

definition not_due :: "delivery \<Rightarrow> int \<Rightarrow> bool" where
  "not_due r now = (case dl_next r of None \<Rightarrow> False | Some t \<Rightarrow> now < t)"

text \<open>
  An addon has a directory once it has a file: only the removal of the addon, which is not modelled, deletes one.
\<close>

definition deliveryCount :: "string \<Rightarrow> world \<Rightarrow> nat \<times> world" where
  "deliveryCount addon w =
     (let n = (if files_of (w_disk w) addon = [] then 0
               else case om_get (w_counts w) addon of Some n \<Rightarrow> n | None \<Rightarrow> length (files_of (w_disk w) addon))
      in (n, w\<lparr>w_counts := om_set addon n (w_counts w)\<rparr>))"

definition new_delivery :: "int \<Rightarrow> key \<Rightarrow> string \<Rightarrow> payload \<Rightarrow> string \<Rightarrow> delivery" where
  "new_delivery now k permission payload print = \<lparr>dl_request = snd k, dl_permission = permission, dl_fingerprint = print,
     dl_payload = payload, dl_status = Pending, dl_attempts = 0, dl_created = now, dl_updated = now,
     dl_deliveredAt = None, dl_next = None, dl_error = [], dl_result = Null\<rparr>"

definition accept_new :: "(string \<Rightarrow> string \<Rightarrow> bool) \<Rightarrow> int \<Rightarrow> bool \<Rightarrow> bool \<Rightarrow> key \<Rightarrow> delivery \<Rightarrow> world \<Rightarrow> world" where
  "accept_new canRun now wrote1 wrote2 k r w = (case deliveryCount (fst k) w of (count, w1) \<Rightarrow>
     if MAX_DELIVERIES_PER_ADDON \<le> int count then finish k (Inl HistoryFull) w1
     else if \<not> wrote1 then finish k (Inl WriteFailed) w1
     else attempt_delivery canRun now wrote2 k r ((write_record k r w1)\<lparr>w_counts := om_set (fst k) (count + 1) (w_counts w1),
            w_pending := add_pending k (w_pending w1)\<rparr>))"

definition request_op :: "fingerprinter \<Rightarrow> (string \<Rightarrow> string \<Rightarrow> bool) \<Rightarrow> int \<Rightarrow> bool \<Rightarrow> bool \<Rightarrow> key \<Rightarrow> string \<Rightarrow> payload
    \<Rightarrow> string \<Rightarrow> world \<Rightarrow> world" where
  "request_op fp canRun now wrote1 wrote2 k permission payload print w = (case readDelivery fp (w_disk w) k of
     Inl e \<Rightarrow> finish k (Inl e) w
   | Inr (Some existing) \<Rightarrow>
       if dl_fingerprint existing \<noteq> print then finish k (Inl ReusedId) w
       else if dl_status existing = Delivered then finish k (Inr (publicDelivery existing True)) w
       else if dl_status existing \<noteq> Pending then finish k (Inr (publicDelivery existing False)) w
       else if not_due existing now then finish k (Inr (publicDelivery existing True)) w
       else attempt_delivery canRun now wrote1 k existing w
   | Inr None \<Rightarrow> accept_new canRun now wrote1 wrote2 k (new_delivery now k permission payload print) w)"

definition attempt_op :: "fingerprinter \<Rightarrow> (string \<Rightarrow> string \<Rightarrow> bool) \<Rightarrow> int \<Rightarrow> bool \<Rightarrow> key \<Rightarrow> delivery \<Rightarrow> world \<Rightarrow> world" where
  "attempt_op fp canRun now wrote k fallback w = (case readDelivery fp (w_disk w) k of
     Inl e \<Rightarrow> finish k (Inl e) w
   | Inr r \<Rightarrow> attempt_delivery canRun now wrote k (case r of None \<Rightarrow> fallback | Some x \<Rightarrow> x) w)"

definition start_op :: "fingerprinter \<Rightarrow> (string \<Rightarrow> string \<Rightarrow> bool) \<Rightarrow> int \<Rightarrow> bool \<Rightarrow> bool \<Rightarrow> key \<Rightarrow> world \<Rightarrow> world option" where
  "start_op fp canRun now wrote1 wrote2 k w =
     (if om_get (w_active w) k \<noteq> None then None
      else case om_get (w_queues w) k of
        Some (ReqOp permission payload print # _) \<Rightarrow>
          Some (request_op fp canRun now wrote1 wrote2 k permission payload print w)
      | Some (AttOp fallback _ # _) \<Rightarrow> Some (attempt_op fp canRun now wrote1 k fallback w)
      | _ \<Rightarrow> None)"

text \<open>
  \<open>attempt\<close> from the end of \<open>deliver\<close>. A delivered record that cannot be written is caught like an error of
  \<open>deliver\<close>, with the text of that error.
\<close>

definition settle_broken :: "int \<Rightarrow> bool \<Rightarrow> key \<Rightarrow> delivery \<Rightarrow> string \<Rightarrow> world \<Rightarrow> world" where
  "settle_broken now wrote k p message w =
     (let failed = p\<lparr>dl_status := Failed, dl_updated := now, dl_error := cleanError message\<rparr> in
      if wrote then finish k (Inr (publicDelivery failed False)) (drop_pending k (write_record k failed w))
      else finish k (Inl WriteFailed) w)"

definition settle_deferred :: "int \<Rightarrow> bool \<Rightarrow> key \<Rightarrow> delivery \<Rightarrow> string \<Rightarrow> world \<Rightarrow> world" where
  "settle_deferred now wrote k p message w =
     (let pending = p\<lparr>dl_status := Pending, dl_updated := now, dl_next := Some (now + DEFERRED_RETRY_MS),
                      dl_error := cleanError message\<rparr> in
      if wrote then finish k (Inr (publicDelivery pending False)) (write_record k pending w)
      else finish k (Inl WriteFailed) w)"

definition settle_done :: "int \<Rightarrow> bool \<Rightarrow> bool \<Rightarrow> string \<Rightarrow> key \<Rightarrow> delivery \<Rightarrow> jsval \<Rightarrow> world \<Rightarrow> world" where
  "settle_done now wrote1 wrote2 trouble k p result w =
     (let delivered = p\<lparr>dl_status := Delivered, dl_updated := now, dl_deliveredAt := Some now,
                        dl_result := js_nullish result (Obj [(''ok'', Bool True)])\<rparr> in
      if wrote1 then finish k (Inr (publicDelivery delivered False)) (drop_pending k (write_record k delivered w))
      else settle_broken now wrote2 k p trouble w)"

definition settle :: "int \<Rightarrow> bool \<Rightarrow> bool \<Rightarrow> string \<Rightarrow> outcome \<Rightarrow> key \<Rightarrow> world \<Rightarrow> world option" where
  "settle now wrote1 wrote2 trouble out k w = (case om_get (w_active w) k of
     None \<Rightarrow> None
   | Some p \<Rightarrow> Some (let w' = note_log (Ended k out) (w\<lparr>w_active := om_delete k (w_active w)\<rparr>) in
       case out of
         Done result \<Rightarrow> settle_done now wrote1 wrote2 trouble k p result w'
       | Deferred message \<Rightarrow> settle_deferred now wrote1 k p message w'
       | Broken message \<Rightarrow> settle_broken now wrote1 k p message w'))"

section \<open>Requests and ticks\<close>

definition request_input :: "string \<Rightarrow> bool \<Rightarrow> jsval \<Rightarrow> (key \<times> payload) option" where
  "request_input addon message input = (case (validRequestId (getp input ''requestId''),
       if message then normalizeAddonMessage input else map_option Reward (normalizeAddonReward input)) of
     (Some rid, Some payload) \<Rightarrow> Some ((addon, rid), payload)
   | _ \<Rightarrow> None)"

definition request_delivery :: "fingerprinter \<Rightarrow> string \<Rightarrow> string \<Rightarrow> bool \<Rightarrow> jsval \<Rightarrow> world \<Rightarrow> world option" where
  "request_delivery fp addon permission message input w = map_option (\<lambda>(k, payload).
     serialize k (ReqOp permission payload (fp permission payload)) w) (request_input addon message input)"

text \<open>
  Loading what a previous process left: the addons in the order of their directories. The flag is set first, so an
  unreadable record ends the loading for good.
\<close>

fun load_addons :: "fingerprinter \<Rightarrow> disk \<Rightarrow> string list \<Rightarrow> key list \<Rightarrow> key list \<times> bool" where
  "load_addons fp d [] pending = (pending, True)"
| "load_addons fp d (addon # addons) pending = (case listDeliveryRecords fp d addon of
     None \<Rightarrow> (pending, False)
   | Some rs \<Rightarrow> load_addons fp d addons (foldl (\<lambda>ks r.
       if dl_status r = Pending \<or> dl_status r = Processing then add_pending (addon, dl_request r) ks else ks) pending rs))"

definition addon_directories :: "disk \<Rightarrow> string list" where
  "addon_directories d = remdups (map fst (om_keys d))"

definition loadPendingKeys :: "fingerprinter \<Rightarrow> world \<Rightarrow> world \<times> bool" where
  "loadPendingKeys fp w = (if w_loaded w then (w, True)
     else case load_addons fp (w_disk w) (addon_directories (w_disk w)) (w_pending w) of
       (pending, ok) \<Rightarrow> (w\<lparr>w_loaded := True, w_pending := pending\<rparr>, ok))"

definition pendingKey :: "key \<Rightarrow> string" where
  "pendingKey k = fst k @ [CHR 0x00] @ snd k"

definition tick_begin :: "fingerprinter \<Rightarrow> nat \<Rightarrow> world \<Rightarrow> world option" where
  "tick_begin fp i w = (if om_has (w_ticks w) i then None
     else Some (case loadPendingKeys fp w of (w', ok) \<Rightarrow>
       if ok then w'\<lparr>w_ticks := om_set i \<lparr>tk_keys = sort_key pendingKey (w_pending w'), tk_attempted = 0,
                       tk_runnable = [], tk_wait = False\<rparr> (w_ticks w')\<rparr>
       else w'))"

text \<open>One turn of the loop of a tick. \<open>tk_runnable\<close> keeps what \<open>canRun\<close> said of an addon and a permission.\<close>

definition runnable_delivery :: "(string \<Rightarrow> string \<Rightarrow> bool) \<Rightarrow> string \<Rightarrow> string \<Rightarrow> tick_thread \<Rightarrow> bool \<times> tick_thread" where
  "runnable_delivery canRun addon permission tk = (case om_get (tk_runnable tk) (addon, permission) of
     Some b \<Rightarrow> (b, tk)
   | None \<Rightarrow> (canRun addon permission,
       tk\<lparr>tk_runnable := om_set (addon, permission) (canRun addon permission) (tk_runnable tk)\<rparr>))"

definition interrupted :: "int \<Rightarrow> delivery \<Rightarrow> delivery" where
  "interrupted now r = r\<lparr>dl_status := Uncertain, dl_updated := now,
     dl_error := ''Delivery was interrupted while in progress. It was not retried to avoid a duplicate reward.''\<rparr>"

definition set_tick :: "nat \<Rightarrow> tick_thread \<Rightarrow> world \<Rightarrow> world" where
  "set_tick i tk w = w\<lparr>w_ticks := om_set i tk (w_ticks w)\<rparr>"

definition end_tick :: "nat \<Rightarrow> world \<Rightarrow> world" where
  "end_tick i w = w\<lparr>w_ticks := om_delete i (w_ticks w)\<rparr>"

definition visit_record :: "(string \<Rightarrow> string \<Rightarrow> bool) \<Rightarrow> int \<Rightarrow> bool \<Rightarrow> nat \<Rightarrow> tick_thread \<Rightarrow> key \<Rightarrow> delivery \<Rightarrow> world \<Rightarrow> world" where
  "visit_record canRun now wrote i tk k r w =
     (if dl_status r = Processing
      then if om_has (w_queues w) k then set_tick i tk w
           else if \<not> wrote then end_tick i w
           else set_tick i tk (drop_pending k (write_record k (interrupted now r) w))
      else if dl_status r \<noteq> Pending then set_tick i tk (drop_pending k w)
      else if not_due r now then set_tick i tk w
      else case runnable_delivery canRun (fst k) (dl_permission r) tk of (ok, tk') \<Rightarrow>
        if \<not> ok then set_tick i tk' w
        else serialize k (AttOp r i)
               (set_tick i (tk'\<lparr>tk_attempted := tk_attempted tk' + 1, tk_wait := True\<rparr>) w))"

definition tick_visit :: "fingerprinter \<Rightarrow> (string \<Rightarrow> string \<Rightarrow> bool) \<Rightarrow> int \<Rightarrow> bool \<Rightarrow> nat \<Rightarrow> world \<Rightarrow> world option" where
  "tick_visit fp canRun now wrote i w = (case om_get (w_ticks w) i of
     None \<Rightarrow> None
   | Some tk \<Rightarrow> if tk_wait tk then None else Some (case tk_keys tk of
       [] \<Rightarrow> end_tick i w
     | k # ks \<Rightarrow> if MAX_TICK_DELIVERIES \<le> tk_attempted tk then end_tick i w
         else case readDelivery fp (w_disk w) k of
           Inl _ \<Rightarrow> end_tick i w
         | Inr None \<Rightarrow> set_tick i (tk\<lparr>tk_keys := ks\<rparr>) (drop_pending k w)
         | Inr (Some r) \<Rightarrow> visit_record canRun now wrote i (tk\<lparr>tk_keys := ks\<rparr>) k r w))"

section \<open>Reading\<close>

definition get_delivery :: "fingerprinter \<Rightarrow> string \<Rightarrow> jsval \<Rightarrow> world \<Rightarrow> delivery_error + public_delivery option" where
  "get_delivery fp addon requestId w = (case validRequestId requestId of
     None \<Rightarrow> Inl BadInput
   | Some rid \<Rightarrow> (case readDelivery fp (w_disk w) (addon, rid) of
       Inl e \<Rightarrow> Inl e
     | Inr r \<Rightarrow> Inr (map_option (\<lambda>r. publicDelivery r False) r)))"

definition status_name :: "status \<Rightarrow> string" where
  "status_name s = (case s of Pending \<Rightarrow> ''pending'' | Processing \<Rightarrow> ''processing'' | Delivered \<Rightarrow> ''delivered''
     | Failed \<Rightarrow> ''failed'' | Uncertain \<Rightarrow> ''uncertain'')"

definition is_message :: "payload \<Rightarrow> bool" where
  "is_message p = (case p of Message _ _ \<Rightarrow> True | Reward _ \<Rightarrow> False)"

definition list_deliveries :: "fingerprinter \<Rightarrow> string \<Rightarrow> jsval \<Rightarrow> jsval \<Rightarrow> string \<Rightarrow> world
    \<Rightarrow> delivery_error + public_delivery list" where
  "list_deliveries fp addon status limit kind w = (let wantedStatus = js_lower (trimmed_value status) in
     if wantedStatus \<noteq> [] \<and> wantedStatus \<notin> set [''pending'', ''processing'', ''delivered'', ''failed'', ''uncertain'']
     then Inl BadInput
     else case integer_in (case limit of Undef \<Rightarrow> int_value 100 | _ \<Rightarrow> limit) 1 500 of
       None \<Rightarrow> Inl BadInput
     | Some safeLimit \<Rightarrow> (case listDeliveryRecords fp (w_disk w) addon of
         None \<Rightarrow> Inl BadState
       | Some rs \<Rightarrow> Inr (map (\<lambda>r. publicDelivery r False) (take (nat safeLimit) (sort_key (\<lambda>r. - dl_updated r)
           (filter (\<lambda>r. (wantedStatus = [] \<or> status_name (dl_status r) = wantedStatus)
               \<and> (kind \<noteq> ''message'' \<or> is_message (dl_payload r))
               \<and> (kind \<noteq> ''reward'' \<or> \<not> is_message (dl_payload r))) rs))))))"

section \<open>Runs\<close>

text \<open>The process may die between two awaits; only the files survive.\<close>

definition fresh_service :: "disk \<Rightarrow> world" where
  "fresh_service d = \<lparr>w_disk = d, w_pending = [], w_loaded = False, w_counts = [], w_queues = [], w_active = [],
     w_ticks = [], w_log = []\<rparr>"

definition crash :: "world \<Rightarrow> world" where
  "crash w = (fresh_service (w_disk w))\<lparr>w_log := w_log w\<rparr>"

datatype event =
    Request string string bool jsval
  | Start "string \<Rightarrow> string \<Rightarrow> bool" int bool bool key
  | Settle int bool bool string outcome key
  | TickBegin nat
  | TickVisit "string \<Rightarrow> string \<Rightarrow> bool" int bool nat
  | Crash

fun delivery_step :: "fingerprinter \<Rightarrow> event \<Rightarrow> world \<Rightarrow> world option" where
  "delivery_step fp (Request addon permission message input) w = request_delivery fp addon permission message input w"
| "delivery_step fp (Start canRun now wrote1 wrote2 k) w = start_op fp canRun now wrote1 wrote2 k w"
| "delivery_step fp (Settle now wrote1 wrote2 trouble out k) w = settle now wrote1 wrote2 trouble out k w"
| "delivery_step fp (TickBegin i) w = tick_begin fp i w"
| "delivery_step fp (TickVisit canRun now wrote i) w = tick_visit fp canRun now wrote i w"
| "delivery_step fp Crash w = Some (crash w)"

text \<open>
  A visit is late when it chains its attempt behind operations of the same key that were chained before it and have
  not started yet: requests, or the attempt of another tick.
\<close>

definition late_visit :: "event \<Rightarrow> world \<Rightarrow> world \<Rightarrow> key list" where
  "late_visit e w w' = (case e of
     TickVisit _ _ _ i \<Rightarrow> (case om_get (w_ticks w) i of
       Some tk \<Rightarrow> (case tk_keys tk of
         k # _ \<Rightarrow> if om_get (w_queues w) k \<noteq> None \<and> om_get (w_queues w') k \<noteq> om_get (w_queues w) k then [k] else []
       | [] \<Rightarrow> [])
     | None \<Rightarrow> [])
   | _ \<Rightarrow> [])"

text \<open>The worlds a world leads to, with the keys of the late visits on the way.\<close>

inductive deliveries :: "fingerprinter \<Rightarrow> world \<Rightarrow> key list \<Rightarrow> world \<Rightarrow> bool" for fp w0 where
  deliveries_start: "deliveries fp w0 [] w0"
| deliveries_step: "deliveries fp w0 late w \<Longrightarrow> delivery_step fp e w = Some w'
    \<Longrightarrow> deliveries fp w0 (late @ late_visit e w w') w'"

section \<open>What a step changes\<close>

definition is_call :: "key \<Rightarrow> log_entry \<Rightarrow> bool" where
  "is_call k e = (case e of Called k' _ _ \<Rightarrow> k' = k | _ \<Rightarrow> False)"

definition is_deferral :: "key \<Rightarrow> log_entry \<Rightarrow> bool" where
  "is_deferral k e = (case e of Ended k' (Deferred _) \<Rightarrow> k' = k | _ \<Rightarrow> False)"

definition calls :: "key \<Rightarrow> world \<Rightarrow> nat" where
  "calls k w = length (filter (is_call k) (w_log w))"

definition deferrals :: "key \<Rightarrow> world \<Rightarrow> nat" where
  "deferrals k w = length (filter (is_deferral k) (w_log w))"

definition called_with :: "key \<Rightarrow> world \<Rightarrow> (string \<times> payload) set" where
  "called_with k w = {(a, p). Called k a p \<in> set (w_log w)}"

fun pop :: "operation list option \<Rightarrow> operation list option" where
  "pop (Some (x # y # ops)) = Some (y # ops)"
| "pop (Some [x]) = None"
| "pop q = q"

named_theorems world_simps

lemma note_log_world [world_simps]:
  "w_disk (note_log e w) = w_disk w" "w_active (note_log e w) = w_active w" "w_queues (note_log e w) = w_queues w"
  "w_counts (note_log e w) = w_counts w" "w_log (note_log e w) = w_log w @ [e]"
  by (simp_all add: note_log_def)

lemma unchain_world [world_simps]:
  "w_disk (unchain k ops w) = w_disk w" "w_active (unchain k ops w) = w_active w"
  "w_counts (unchain k ops w) = w_counts w" "w_log (unchain k ops w) = w_log w"
  by (simp_all add: unchain_def)

lemma unchain_queues [world_simps]:
  "om_get (w_queues (unchain k ops w)) j
     = (if j = k then (if ops = [] then None else Some ops) else om_get (w_queues w) j)"
  by (simp add: unchain_def omap_simps)

lemma wake_world [world_simps]:
  "w_disk (wake i res w) = w_disk w" "w_active (wake i res w) = w_active w" "w_queues (wake i res w) = w_queues w"
  "w_counts (wake i res w) = w_counts w" "w_log (wake i res w) = w_log w"
  by (simp_all add: wake_def split: option.splits)

lemma write_record_world [world_simps]:
  "om_get (w_disk (write_record k r w)) j = (if j = k then Some (Readable r) else om_get (w_disk w) j)"
  "w_active (write_record k r w) = w_active w" "w_queues (write_record k r w) = w_queues w"
  "w_counts (write_record k r w) = w_counts w" "w_log (write_record k r w) = w_log w"
  by (simp_all add: write_record_def omap_simps)

lemma drop_pending_world [world_simps]:
  "w_disk (drop_pending k w) = w_disk w" "w_active (drop_pending k w) = w_active w"
  "w_queues (drop_pending k w) = w_queues w" "w_counts (drop_pending k w) = w_counts w" "w_log (drop_pending k w) = w_log w"
  by (simp_all add: drop_pending_def)

lemma set_tick_world [world_simps]:
  "w_disk (set_tick i tk w) = w_disk w" "w_active (set_tick i tk w) = w_active w"
  "w_queues (set_tick i tk w) = w_queues w" "w_counts (set_tick i tk w) = w_counts w" "w_log (set_tick i tk w) = w_log w"
  by (simp_all add: set_tick_def)

lemma end_tick_world [world_simps]:
  "w_disk (end_tick i w) = w_disk w" "w_active (end_tick i w) = w_active w"
  "w_queues (end_tick i w) = w_queues w" "w_counts (end_tick i w) = w_counts w" "w_log (end_tick i w) = w_log w"
  by (simp_all add: end_tick_def)

lemma serialize_world [world_simps]:
  "w_disk (serialize k x w) = w_disk w" "w_active (serialize k x w) = w_active w"
  "w_counts (serialize k x w) = w_counts w" "w_log (serialize k x w) = w_log w"
  "om_get (w_queues (serialize k x w)) j
     = (if j = k then Some ((case om_get (w_queues w) k of None \<Rightarrow> [] | Some ops \<Rightarrow> ops) @ [x]) else om_get (w_queues w) j)"
  by (simp_all add: serialize_def omap_simps)

lemma finish_world [world_simps]:
  "w_disk (finish k res w) = w_disk w" "w_active (finish k res w) = w_active w" "w_counts (finish k res w) = w_counts w"
  by (simp_all add: finish_def world_simps split: option.splits list.splits operation.splits)

lemma finish_queues [world_simps]:
  "om_get (w_queues (finish k res w)) j = (if j = k then pop (om_get (w_queues w) k) else om_get (w_queues w) j)"
proof (cases "om_get (w_queues w) k")
  case None
  then show ?thesis by (simp add: finish_def)
next
  case (Some q)
  show ?thesis
  proof (cases q)
    case Nil
    then show ?thesis by (simp add: finish_def Some)
  next
    case (Cons x ops)
    have "pop (Some (x # ops)) = (if ops = [] then None else Some ops)" by (cases ops) auto
    then show ?thesis by (cases x) (simp_all add: finish_def Some Cons world_simps)
  qed
qed

lemma finish_log: "w_log (finish k res w) = w_log w \<or> w_log (finish k res w) = w_log w @ [Answered k res]"
  by (auto simp: finish_def world_simps split: option.splits list.splits operation.splits)

lemma finish_traffic [world_simps]:
  "calls j (finish k res w) = calls j w" "deferrals j (finish k res w) = deferrals j w"
  "called_with j (finish k res w) = called_with j w"
  using finish_log [of k res w] by (auto simp: calls_def deferrals_def called_with_def is_call_def is_deferral_def)

lemma traffic_of_log:
  "w_log v = w_log w \<Longrightarrow> calls j v = calls j w" "w_log v = w_log w \<Longrightarrow> deferrals j v = deferrals j w"
  "w_log v = w_log w \<Longrightarrow> called_with j v = called_with j w"
  by (simp_all add: calls_def deferrals_def called_with_def)

lemma traffic_note [world_simps]:
  "calls j (note_log e w) = calls j w + (if is_call j e then 1 else 0)"
  "deferrals j (note_log e w) = deferrals j w + (if is_deferral j e then 1 else 0)"
  "called_with j (note_log e w) = (case e of Called k a p \<Rightarrow> if k = j then insert (a, p) (called_with j w) else called_with j w
     | _ \<Rightarrow> called_with j w)"
  by (auto simp: calls_def deferrals_def called_with_def note_log_def is_call_def split: log_entry.splits)

lemma traffic_same [world_simps]:
  "calls j (write_record k r w) = calls j w" "deferrals j (write_record k r w) = deferrals j w"
  "called_with j (write_record k r w) = called_with j w"
  "calls j (drop_pending k w) = calls j w" "deferrals j (drop_pending k w) = deferrals j w"
  "called_with j (drop_pending k w) = called_with j w"
  "calls j (set_tick i tk w) = calls j w" "deferrals j (set_tick i tk w) = deferrals j w"
  "called_with j (set_tick i tk w) = called_with j w"
  "calls j (end_tick i w) = calls j w" "deferrals j (end_tick i w) = deferrals j w"
  "called_with j (end_tick i w) = called_with j w"
  "calls j (serialize k x w) = calls j w" "deferrals j (serialize k x w) = deferrals j w"
  "called_with j (serialize k x w) = called_with j w"
  by (rule traffic_of_log; simp add: world_simps)+

lemma traffic_updates [world_simps]:
  "calls j (w\<lparr>w_active := a\<rparr>) = calls j w" "deferrals j (w\<lparr>w_active := a\<rparr>) = deferrals j w"
  "called_with j (w\<lparr>w_active := a\<rparr>) = called_with j w"
  "calls j (w\<lparr>w_counts := c\<rparr>) = calls j w" "deferrals j (w\<lparr>w_counts := c\<rparr>) = deferrals j w"
  "called_with j (w\<lparr>w_counts := c\<rparr>) = called_with j w"
  "calls j (w\<lparr>w_pending := p\<rparr>) = calls j w" "deferrals j (w\<lparr>w_pending := p\<rparr>) = deferrals j w"
  "called_with j (w\<lparr>w_pending := p\<rparr>) = called_with j w"
  by (rule traffic_of_log; simp)+

section \<open>One call that is not deferred\<close>

text \<open>
  Of a key with a number of late visits: the calls, and the attempts that wait in its chain for another call, are at
  most one more than the deferrals and the late visits, and no more than them while its file is pending; an operation
  that has not ended its call has a file that is not pending; the file carries the permission and the payload of every
  call; and the attempts that ticks chained have a file.
\<close>

definition pending_file :: "stored option \<Rightarrow> bool" where
  "pending_file s = (case s of Some (Readable r) \<Rightarrow> dl_status r = Pending | _ \<Rightarrow> False)"

definition carries :: "stored option \<Rightarrow> string \<times> payload \<Rightarrow> bool" where
  "carries s c = (case s of Some (Readable r) \<Rightarrow> c = (dl_permission r, dl_payload r) | _ \<Rightarrow> False)"

definition is_request :: "operation \<Rightarrow> bool" where
  "is_request x = (case x of ReqOp _ _ _ \<Rightarrow> True | AttOp _ _ \<Rightarrow> False)"

definition chain_ok :: "bool \<Rightarrow> stored option \<Rightarrow> operation list option \<Rightarrow> bool" where
  "chain_ok started s q = (case q of
     None \<Rightarrow> \<not> started
   | Some ops \<Rightarrow> ops \<noteq> [] \<and> (s = None \<longrightarrow> list_all is_request ops))"

text \<open>The attempts behind the first operation, and the first one if its file is not pending and it has not started.\<close>

definition waiting :: "bool \<Rightarrow> stored option \<Rightarrow> operation list option \<Rightarrow> nat" where
  "waiting started s q = (case q of
     Some (x # ops) \<Rightarrow> length (filter (\<lambda>y. \<not> is_request y) ops)
       + (if is_request x \<or> started \<or> pending_file s then 0 else 1)
   | _ \<Rightarrow> 0)"

definition within_calls :: "nat \<Rightarrow> nat \<Rightarrow> key \<Rightarrow> world \<Rightarrow> bool" where
  "within_calls n waits k w = (calls k w + waits \<le> Suc (deferrals k w + n)
     \<and> (pending_file (om_get (w_disk w) k) \<longrightarrow> calls k w + waits \<le> deferrals k w + n)
     \<and> (\<forall>c \<in> called_with k w. carries (om_get (w_disk w) k) c))"

definition delivery_inv :: "nat \<Rightarrow> key \<Rightarrow> world \<Rightarrow> bool" where
  "delivery_inv n k w = (let s = om_get (w_disk w) k; started = om_get (w_active w) k \<noteq> None; q = om_get (w_queues w) k in
     within_calls n (waiting started s q) k w
     \<and> (\<forall>p. om_get (w_active w) k = Some p \<longrightarrow> carries s (dl_permission p, dl_payload p) \<and> \<not> pending_file s)
     \<and> chain_ok started s q)"

lemma within_calls_same:
  "within_calls n u k w \<Longrightarrow> om_get (w_disk v) k = om_get (w_disk w) k \<Longrightarrow> calls k v = calls k w
    \<Longrightarrow> deferrals k v = deferrals k w \<Longrightarrow> called_with k v = called_with k w \<Longrightarrow> within_calls n u k v"
  by (simp add: within_calls_def)

lemma delivery_inv_same:
  "delivery_inv n k w \<Longrightarrow> om_get (w_disk v) k = om_get (w_disk w) k \<Longrightarrow> om_get (w_active v) k = om_get (w_active w) k
    \<Longrightarrow> om_get (w_queues v) k = om_get (w_queues w) k \<Longrightarrow> calls k v = calls k w \<Longrightarrow> deferrals k v = deferrals k w
    \<Longrightarrow> called_with k v = called_with k w \<Longrightarrow> delivery_inv n k v"
  by (simp add: delivery_inv_def Let_def within_calls_def)

lemma within_calls_fewer: "within_calls n u k w \<Longrightarrow> u' \<le> u \<Longrightarrow> within_calls n u' k w"
  by (auto simp: within_calls_def)

lemma calls_zero: "called_with k w = {} \<Longrightarrow> calls k w = 0"
  by (auto simp: called_with_def calls_def is_call_def filter_empty_conv split: log_entry.splits)

lemma no_file_no_call: "delivery_inv n k w \<Longrightarrow> om_get (w_disk w) k = None \<Longrightarrow> calls k w = 0"
  by (rule calls_zero) (auto simp: delivery_inv_def within_calls_def carries_def Let_def)

lemma chain_ok_pop: "chain_ok b s q \<Longrightarrow> q \<noteq> None \<Longrightarrow> (s' = None \<Longrightarrow> s = None) \<Longrightarrow> chain_ok False s' (pop q)"
  by (cases q rule: pop.cases) (auto simp: chain_ok_def)

lemma waiting_pop: "waiting False s' (pop q) \<le> waiting b s q"
  by (cases q rule: pop.cases) (auto simp: waiting_def)

lemma finish_other: "j \<noteq> k \<Longrightarrow> delivery_inv n j w \<Longrightarrow> delivery_inv n j (finish k res w)"
  by (rule delivery_inv_same) (simp_all add: world_simps)

text \<open>The end of an operation: \<open>s\<close> is the file its chain was judged by, before the operation wrote it.\<close>

lemma finish_chain:
  assumes "chain_ok b s (om_get (w_queues w) k)" and "within_calls n (waiting b s (om_get (w_queues w) k)) k w"
    and "om_get (w_queues w) k \<noteq> None" and "om_get (w_active w) k = None" and "om_get (w_disk w) k = None \<Longrightarrow> s = None"
  shows "delivery_inv n k (finish k res w)"
proof -
  have "within_calls n (waiting False (om_get (w_disk w) k) (pop (om_get (w_queues w) k))) k (finish k res w)"
    by (rule within_calls_same [OF within_calls_fewer [OF assms(2) waiting_pop]]) (simp_all add: world_simps)
  moreover have "chain_ok False (om_get (w_disk w) k) (pop (om_get (w_queues w) k))"
    by (rule chain_ok_pop [OF assms(1,3,5)])
  ultimately show ?thesis using assms(4) by (simp add: delivery_inv_def Let_def world_simps)
qed

lemma finish_inv:
  assumes "delivery_inv n k w" and "om_get (w_queues w) k \<noteq> None" and "om_get (w_active w) k = None"
  shows "delivery_inv n k (finish k res w)"
  by (rule finish_chain [where b = False and s = "om_get (w_disk w) k"])
    (use assms in \<open>auto simp: delivery_inv_def Let_def\<close>)

lemma finish_any:
  assumes "\<And>j. delivery_inv (n j) j w" and "om_get (w_queues w) k \<noteq> None" and "om_get (w_active w) k = None"
  shows "delivery_inv (n j) j (finish k res w)"
  using finish_inv [OF assms(1-3)] finish_other [OF _ assms(1)] by (cases "j = k") auto

text \<open>A call for a pending record, or for the record a late visit finds, uses up a call that was allowed.\<close>

lemma attempt_inv:
  assumes inv: "\<And>j. delivery_inv (n j) j w" and q: "om_get (w_queues w) k = Some (x # ops)" and a: "om_get (w_active w) k = None"
    and d: "om_get (w_disk w) k = Some (Readable r)" "dl_status r = Pending \<or> \<not> is_request x"
  shows "delivery_inv (n j) j (attempt_delivery canRun now wrote k r w)"
proof (cases "canRun (fst k) (dl_permission r) \<and> wrote")
  case False
  then have "attempt_delivery canRun now wrote k r w = finish k (if canRun (fst k) (dl_permission r) then Inl WriteFailed
      else Inr (publicDelivery r False)) w" by (simp add: attempt_delivery_def)
  then show ?thesis using finish_any [where n = n, OF inv _ a] q by simp
next
  case True
  let ?v = "attempt_delivery canRun now wrote k r w"
  let ?p = "processing_of now r"
  have v: "?v = note_log (Called k (dl_permission r) (dl_payload r))
      ((write_record k ?p w)\<lparr>w_active := om_set k ?p (w_active w)\<rparr>)"
    using True by (simp add: attempt_delivery_def processing_of_def Let_def)
  show ?thesis
  proof (cases "j = k")
    case True
    have old: "within_calls (n k) (waiting False (om_get (w_disk w) k) (Some (x # ops))) k w"
        "chain_ok False (om_get (w_disk w) k) (Some (x # ops))"
      using inv [of k] q a by (simp_all add: delivery_inv_def Let_def)
    have p: "\<not> pending_file (Some (Readable ?p))" "dl_permission ?p = dl_permission r" "dl_payload ?p = dl_payload r"
      by (simp_all add: pending_file_def processing_of_def)
    have "calls k w + length (filter (\<lambda>y. \<not> is_request y) ops) \<le> deferrals k w + n k"
    proof (cases "dl_status r = Pending")
      case True
      then show ?thesis using old(1) d(1) by (simp add: within_calls_def waiting_def pending_file_def)
    next
      case False
      then show ?thesis using old(1) d by (simp add: within_calls_def waiting_def pending_file_def)
    qed
    then have "within_calls (n k) (waiting True (Some (Readable ?p)) (Some (x # ops))) k ?v"
      using old(1) d(1) p
      by (simp add: within_calls_def waiting_def v world_simps is_call_def is_deferral_def carries_def)
    then show ?thesis using True q p by (simp add: delivery_inv_def Let_def v world_simps omap_simps carries_def chain_ok_def)
  next
    case False
    then show ?thesis
      by (intro delivery_inv_same [OF inv [of j]])
        (simp_all add: v world_simps omap_simps is_call_def is_deferral_def)
  qed
qed

lemma accept_new_inv:
  assumes inv: "\<And>j. delivery_inv (n j) j w" and q: "om_get (w_queues w) k = Some (x # ops)" and a: "om_get (w_active w) k = None"
    and d: "om_get (w_disk w) k = None" and r: "dl_status r = Pending"
  shows "delivery_inv (n j) j (accept_new canRun now wrote1 wrote2 k r w)"
proof -
  obtain c where c: "deliveryCount (fst k) w = (c, w\<lparr>w_counts := om_set (fst k) c (w_counts w)\<rparr>)"
    by (simp add: deliveryCount_def Let_def)
  let ?w = "w\<lparr>w_counts := om_set (fst k) c (w_counts w)\<rparr>"
  have w: "delivery_inv (n i) i ?w" for i by (rule delivery_inv_same [OF inv]) (simp_all add: world_simps)
  let ?v = "(write_record k r ?w)\<lparr>w_counts := om_set (fst k) (c + 1) (w_counts ?w), w_pending := add_pending k (w_pending ?w)\<rparr>"
  have v: "delivery_inv (n i) i ?v" for i
  proof (cases "i = k")
    case True
    have "called_with k w = {}" "calls k w = 0" "list_all is_request (x # ops)"
      using no_file_no_call [OF inv d] inv [of k] a d q
      by (auto simp: delivery_inv_def within_calls_def carries_def chain_ok_def Let_def)
    moreover from this(3) have "filter (\<lambda>y. \<not> is_request y) ops = []" by (auto simp: list_all_iff filter_empty_conv)
    ultimately show ?thesis using True a q
      by (simp add: delivery_inv_def Let_def within_calls_def waiting_def chain_ok_def world_simps)
  next
    case False
    then show ?thesis by (intro delivery_inv_same [OF inv [of i]]) (simp_all add: world_simps)
  qed
  have "delivery_inv (n j) j (attempt_delivery canRun now wrote2 k r ?v)"
    by (rule attempt_inv [OF v]) (use q a r in \<open>simp_all add: world_simps\<close>)
  moreover have "delivery_inv (n j) j (finish k res ?w)" for res
    using finish_any [where n = n, OF w] q a by simp
  ultimately show ?thesis by (simp add: accept_new_def c)
qed

lemma readDelivery_found: "readDelivery fp d k = Inr (Some r) \<Longrightarrow> om_get d k = Some (Readable r)"
  by (simp add: readDelivery_def split: option.splits stored.splits if_splits)

lemma readDelivery_none: "readDelivery fp d k = Inr None \<longleftrightarrow> om_get d k = None"
  by (simp add: readDelivery_def split: option.splits stored.splits)

lemma request_op_inv:
  assumes inv: "\<And>j. delivery_inv (n j) j w" and q: "om_get (w_queues w) k = Some (x # ops)" and a: "om_get (w_active w) k = None"
  shows "delivery_inv (n j) j (request_op fp canRun now wrote1 wrote2 k permission payload print w)"
proof -
  have f: "delivery_inv (n j) j (finish k res w)" for res
    using finish_any [where n = n, OF inv _ a] q by simp
  show ?thesis
  proof (cases "readDelivery fp (w_disk w) k")
    case (Inl e)
    with f show ?thesis by (simp add: request_op_def)
  next
    case (Inr found)
    show ?thesis
    proof (cases found)
      case None
      then have "om_get (w_disk w) k = None" using Inr by (simp add: readDelivery_none)
      from accept_new_inv [where n = n, OF inv q a this] show ?thesis using Inr None by (simp add: request_op_def new_delivery_def)
    next
      case (Some r)
      then have "om_get (w_disk w) k = Some (Readable r)" using Inr by (simp add: readDelivery_found)
      with f attempt_inv [where n = n, OF inv q a, of r] show ?thesis using Inr Some by (simp add: request_op_def)
    qed
  qed
qed

lemma start_op_inv:
  assumes inv: "\<And>j. delivery_inv (n j) j w" and s: "start_op fp canRun now wrote1 wrote2 k w = Some v"
  shows "delivery_inv (n j) j v"
proof -
  have a: "om_get (w_active w) k = None" using s by (simp add: start_op_def split: if_splits)
  obtain x ops where q: "om_get (w_queues w) k = Some (x # ops)"
    using s by (auto simp: start_op_def split: if_splits option.splits list.splits)
  show ?thesis
  proof (cases x)
    case (ReqOp permission payload print)
    then have "v = request_op fp canRun now wrote1 wrote2 k permission payload print w" using s q a by (simp add: start_op_def)
    then show ?thesis using request_op_inv [where n = n, OF inv q a] by simp
  next
    case (AttOp fallback i)
    then have v: "v = attempt_op fp canRun now wrote1 k fallback w" using s q a by (simp add: start_op_def)
    have x: "\<not> is_request x" using AttOp by (simp add: is_request_def)
    then have there: "om_get (w_disk w) k \<noteq> None" using inv [of k] q by (auto simp: delivery_inv_def chain_ok_def Let_def)
    have f: "delivery_inv (n j) j (finish k res w)" for res using finish_any [where n = n, OF inv _ a] q by simp
    show ?thesis
    proof (cases "readDelivery fp (w_disk w) k")
      case (Inl e)
      then show ?thesis using f by (simp add: v attempt_op_def)
    next
      case (Inr found)
      then obtain r where r: "found = Some r" using there by (cases found) (auto simp: readDelivery_none)
      have "delivery_inv (n j) j (attempt_delivery canRun now wrote1 k r w)"
        by (rule attempt_inv [where n = n, OF inv q a]) (use Inr r x in \<open>simp_all add: readDelivery_found\<close>)
      then show ?thesis by (simp add: v attempt_op_def Inr r)
    qed
  qed
qed

lemma ended_inv:
  assumes inv: "\<And>j. delivery_inv (n j) j w" and p: "om_get (w_active w) k = Some p"
    and v: "v = note_log (Ended k out) (w\<lparr>w_active := om_delete k (w_active w)\<rparr>)"
    and r: "dl_permission r = dl_permission p" "dl_payload r = dl_payload p"
    and pend: "dl_status r = Pending \<Longrightarrow> is_deferral k (Ended k out)"
  shows "delivery_inv (n j) j (finish k res (write_record k r v))"
    "delivery_inv (n j) j (finish k res (drop_pending k (write_record k r v)))"
    "delivery_inv (n j) j (finish k res v)"
proof -
  let ?s = "om_get (w_disk w) k" and ?q = "om_get (w_queues w) k"
  have k: "within_calls (n k) (waiting True ?s ?q) k w" "chain_ok True ?s ?q" "\<not> pending_file ?s"
      "carries ?s (dl_permission p, dl_payload p)" "?q \<noteq> None"
    using inv [of k] p by (auto simp: delivery_inv_def chain_ok_def Let_def split: option.splits)
  have c: "c \<in> called_with k w \<Longrightarrow> c = (dl_permission p, dl_payload p)" for c
    using k(1,4) by (auto simp: within_calls_def carries_def split: option.splits stored.splits)
  have q: "om_get (w_queues v) k = ?q" "om_get (w_active v) k = None" "om_get (w_disk v) k = ?s"
    by (simp_all add: v world_simps omap_simps)
  have same: "delivery_inv (n i) i u" if "i \<noteq> k" "u = v \<or> u = write_record k r v \<or> u = drop_pending k (write_record k r v)" for i u
    using that by (intro delivery_inv_same [OF inv [of i]])
      (auto simp: v world_simps omap_simps is_call_def is_deferral_def split: outcome.splits)
  have d: "deferrals k w \<le> deferrals k v" "calls k v = calls k w" "called_with k v = called_with k w"
    by (simp_all add: v world_simps is_call_def)
  have pd: "dl_status r = Pending \<Longrightarrow> Suc (deferrals k w) = deferrals k v" using pend by (simp add: v world_simps)
  have there: "?s \<noteq> None" using k(4) by (cases ?s) (simp_all add: carries_def)
  have w: "delivery_inv (n k) k (finish k res (write_record k r v))"
    by (rule finish_chain [where b = True and s = ?s])
      (use k c d pd r q in \<open>auto simp: within_calls_def world_simps pending_file_def carries_def\<close>)
  moreover have dr: "delivery_inv (n k) k (finish k res (drop_pending k (write_record k r v)))"
    by (rule finish_chain [where b = True and s = ?s])
      (use k c d pd r q in \<open>auto simp: within_calls_def world_simps pending_file_def carries_def\<close>)
  moreover have nw: "delivery_inv (n k) k (finish k res v)"
    by (rule finish_chain [where b = True and s = ?s]) (use k d q there in \<open>auto simp: within_calls_def\<close>)
  ultimately show "delivery_inv (n j) j (finish k res (write_record k r v))"
      "delivery_inv (n j) j (finish k res (drop_pending k (write_record k r v)))" "delivery_inv (n j) j (finish k res v)"
    using finish_other [OF _ same] by (cases "j = k"; simp)+
qed

lemma settle_inv:
  assumes inv: "\<And>j. delivery_inv (n j) j w" and s: "settle now wrote1 wrote2 trouble out k w = Some v"
  shows "delivery_inv (n j) j v"
proof -
  obtain p where p: "om_get (w_active w) k = Some p" using s by (auto simp: settle_def split: option.splits)
  let ?w = "note_log (Ended k out) (w\<lparr>w_active := om_delete k (w_active w)\<rparr>)"
  note e1 = ended_inv(1) [where n = n, OF inv p refl] and e2 = ended_inv(2) [where n = n, OF inv p refl]
  have e3: "delivery_inv (n j) j (finish k res ?w)" for res
    by (rule ended_inv(3) [where n = n and r = "p\<lparr>dl_status := Failed\<rparr>", OF inv p refl]) simp_all
  have b: "delivery_inv (n j) j (settle_broken now wrote k p message ?w)" for wrote message
    by (cases wrote) (auto simp: settle_broken_def Let_def intro!: e2 e3)
  show ?thesis
  proof (cases out)
    case (Done result)
    then have "v = settle_done now wrote1 wrote2 trouble k p result ?w" using s p by (simp add: settle_def Let_def)
    then show ?thesis using b by (cases wrote1) (auto simp: settle_done_def Let_def intro!: e2)
  next
    case (Deferred message)
    then have "v = settle_deferred now wrote1 k p message ?w" using s p by (simp add: settle_def Let_def)
    then show ?thesis using Deferred e3 [of "Inl WriteFailed"]
      by (cases wrote1) (auto simp: settle_deferred_def Let_def is_deferral_def intro!: e1)
  next
    case (Broken message)
    then have "v = settle_broken now wrote1 k p message ?w" using s p by (simp add: settle_def Let_def)
    then show ?thesis using b by simp
  qed
qed

text \<open>A request may join any chain; the attempt of a tick one that is empty, or, as a late visit, any other.\<close>

lemma serialize_inv:
  assumes inv: "\<And>j. delivery_inv (n j) j w"
    and x: "is_request x \<or> pending_file (om_get (w_disk w) k)"
    and m: "\<And>j. m j = n j + (if j = k \<and> \<not> is_request x \<and> om_get (w_queues w) k \<noteq> None then 1 else 0)"
  shows "delivery_inv (m j) j (serialize k x w)"
proof (cases "j = k")
  case True
  let ?s = "om_get (w_disk w) k" and ?b = "om_get (w_active w) k \<noteq> None"
  have old: "delivery_inv (n k) k w" by (rule inv)
  show ?thesis
  proof (cases "om_get (w_queues w) k")
    case None
    then have a: "om_get (w_active w) k = None" using old by (simp add: delivery_inv_def chain_ok_def Let_def)
    have "chain_ok False ?s (Some [x])" "waiting False ?s (Some [x]) = 0"
      using x by (auto simp: chain_ok_def waiting_def pending_file_def)
    moreover have "within_calls (n k) 0 k w" using old None by (simp add: delivery_inv_def Let_def waiting_def)
    then have "within_calls (m k) 0 k (serialize k x w)" using m [of k] None by (simp add: within_calls_def world_simps)
    ultimately show ?thesis using True a None by (simp add: delivery_inv_def Let_def world_simps)
  next
    case (Some q)
    then obtain y ops where q: "q = y # ops" using old by (cases q) (auto simp: delivery_inv_def chain_ok_def Let_def)
    have "waiting ?b ?s (Some (q @ [x])) = waiting ?b ?s (Some q) + (if is_request x then 0 else 1)"
      by (simp add: q waiting_def)
    moreover have "chain_ok ?b ?s (Some (q @ [x]))"
      using old x by (auto simp: Some delivery_inv_def chain_ok_def Let_def pending_file_def)
    moreover have "within_calls (n k) (waiting ?b ?s (Some q)) k w" using old Some by (simp add: delivery_inv_def Let_def)
    then have "within_calls (m k) (waiting ?b ?s (Some q) + (if is_request x then 0 else 1)) k (serialize k x w)"
      using m [of k] Some by (simp add: within_calls_def world_simps)
    ultimately show ?thesis
      using old Some True by (simp add: delivery_inv_def Let_def world_simps)
  qed
next
  case False
  then have "m j = n j" by (simp add: m)
  then have "delivery_inv (m j) j w" using inv [of j] by (simp only:)
  then show ?thesis by (rule delivery_inv_same) (simp_all add: False world_simps)
qed

lemma tick_same_inv: "delivery_inv n j w \<Longrightarrow> delivery_inv n j (set_tick i tk w)" "delivery_inv n j w \<Longrightarrow> delivery_inv n j (end_tick i w)"
  "delivery_inv n j w \<Longrightarrow> delivery_inv n j (drop_pending k w)"
  by (rule delivery_inv_same; simp add: world_simps)+

lemma interrupted_inv:
  assumes inv: "\<And>j. delivery_inv (n j) j w" and d: "om_get (w_disk w) k = Some (Readable r)" and q: "om_get (w_queues w) k = None"
  shows "delivery_inv (n j) j (write_record k (interrupted now r) w)"
proof (cases "j = k")
  case True
  have "om_get (w_active w) k = None" using inv [of k] q by (simp add: delivery_inv_def chain_ok_def Let_def)
  moreover have "\<not> pending_file (Some (Readable (interrupted now r)))"
      "carries (Some (Readable (interrupted now r))) c = carries (Some (Readable r)) c" for c
    by (simp_all add: pending_file_def carries_def interrupted_def)
  ultimately show ?thesis using inv [of k] d q True
    by (simp add: delivery_inv_def Let_def within_calls_def waiting_def world_simps chain_ok_def)
next
  case False
  then show ?thesis by (intro delivery_inv_same [OF inv [of j]]) (simp_all add: world_simps)
qed

text \<open>What a visit does to the chains: nothing, or one attempt chained for a pending record.\<close>

lemma visit_record_inv:
  assumes inv: "\<And>j. delivery_inv (n j) j w" and d: "om_get (w_disk w) k = Some (Readable r)"
    and v: "v = visit_record canRun now wrote i tk k r w"
    and m: "\<And>j. m j = n j + (if j = k \<and> om_get (w_queues w) k \<noteq> None \<and> om_get (w_queues v) k \<noteq> om_get (w_queues w) k then 1 else 0)"
  shows "delivery_inv (m j) j v"
proof (cases "\<exists>tk'. v = serialize k (AttOp r i) (set_tick i tk' w) \<and> dl_status r = Pending")
  case True
  then obtain tk' where s: "v = serialize k (AttOp r i) (set_tick i tk' w)" "dl_status r = Pending" by blast
  have "delivery_inv (m j) j (serialize k (AttOp r i) (set_tick i tk' w))"
  proof (rule serialize_inv [where n = n])
    show "delivery_inv (n i') i' (set_tick i tk' w)" for i' by (rule tick_same_inv [OF inv])
    show "is_request (AttOp r i) \<or> pending_file (om_get (w_disk (set_tick i tk' w)) k)"
      using d s(2) by (simp add: world_simps pending_file_def)
    show "m i' = n i' + (if i' = k \<and> \<not> is_request (AttOp r i) \<and> om_get (w_queues (set_tick i tk' w)) k \<noteq> None then 1 else 0)" for i'
      unfolding m s(1) by (cases "om_get (w_queues w) k") (simp_all add: world_simps is_request_def)
  qed
  then show ?thesis by (simp add: s)
next
  case False
  then have plain: "\<exists>tk'. v = set_tick i tk' w \<or> v = end_tick i w \<or> v = set_tick i tk' (drop_pending k w)
      \<or> v = set_tick i tk' (drop_pending k (write_record k (interrupted now r) w)) \<and> om_get (w_queues w) k = None"
    unfolding v visit_record_def by (auto simp: om_has_get split: prod.splits if_splits)
  then have "om_get (w_queues v) k = om_get (w_queues w) k" by (auto simp: world_simps)
  then have "m j = n j" by (simp add: m)
  moreover have iv: "delivery_inv (n j) j (write_record k (interrupted now r) w)" if "om_get (w_queues w) k = None"
    by (rule interrupted_inv [where n = n, OF inv d that])
  moreover have "delivery_inv (n j) j v"
    using plain inv [of j] iv by (auto intro!: tick_same_inv)
  ultimately show ?thesis by simp
qed

lemma tick_visit_inv:
  assumes inv: "\<And>j. delivery_inv (n j) j w" and s: "tick_visit fp canRun now wrote i w = Some v"
  shows "delivery_inv (n j + count_list (late_visit (TickVisit canRun now wrote i) w v) j) j v"
proof -
  obtain tk where tk: "om_get (w_ticks w) i = Some tk" "\<not> tk_wait tk"
    using s by (auto simp: tick_visit_def split: option.splits if_splits)
  have same: ?thesis if "\<exists>tk'. v = set_tick i tk' w \<or> v = end_tick i w \<or> v = set_tick i tk' (drop_pending k w)" for k
  proof -
    have "w_queues v = w_queues w" using that by (auto simp: world_simps)
    then have "late_visit (TickVisit canRun now wrote i) w v = []" by (simp add: late_visit_def split: option.splits list.splits)
    then show ?thesis using that inv [of j] by (auto intro!: tick_same_inv)
  qed
  show ?thesis
  proof (cases "\<exists>k ks r tk'. tk_keys tk = k # ks \<and> readDelivery fp (w_disk w) k = Inr (Some r) \<and> v = visit_record canRun now wrote i tk' k r w")
    case True
    then obtain k ks r tk' where k: "tk_keys tk = k # ks" and r: "readDelivery fp (w_disk w) k = Inr (Some r)"
      and v: "v = visit_record canRun now wrote i tk' k r w" by blast
    show ?thesis
      by (rule visit_record_inv [where n = n, OF inv readDelivery_found [OF r] v])
        (simp add: late_visit_def tk k)
  next
    case False
    then show ?thesis using s tk same
      by (auto simp: tick_visit_def split: list.splits if_splits sum.splits option.splits)
  qed
qed

lemma delivery_step_inv:
  assumes inv: "\<And>j. delivery_inv (n j) j w" and s: "delivery_step fp e w = Some v"
  shows "delivery_inv (n j + count_list (late_visit e w v) j) j v"
proof (cases e)
  case (Request addon permission message input)
  then obtain k payload where "v = serialize k (ReqOp permission payload (fp permission payload)) w"
    using s by (auto simp: request_delivery_def)
  then show ?thesis using serialize_inv [where n = n and m = n, OF inv] Request by (simp add: is_request_def late_visit_def)
next
  case (Start canRun now wrote1 wrote2 k)
  then show ?thesis using s start_op_inv [where n = n, OF inv] by (simp add: late_visit_def)
next
  case (Settle now wrote1 wrote2 trouble out k)
  then show ?thesis using s settle_inv [where n = n, OF inv] by (simp add: late_visit_def)
next
  case (TickBegin i)
  have "delivery_inv (n j) j v" using s TickBegin
    by (intro delivery_inv_same [OF inv [of j]] traffic_of_log)
      (auto simp: tick_begin_def loadPendingKeys_def split: if_splits prod.splits)
  then show ?thesis using TickBegin by (simp add: late_visit_def)
next
  case (TickVisit canRun now wrote i)
  then show ?thesis using s tick_visit_inv [where n = n, OF inv] by simp
next
  case Crash
  have "calls j v = calls j w" "deferrals j v = deferrals j w" "called_with j v = called_with j w"
    using s Crash by (auto simp: crash_def fresh_service_def intro!: traffic_of_log)
  then have "delivery_inv (n j) j v" using s Crash inv [of j]
    by (auto simp: delivery_inv_def Let_def within_calls_def waiting_def crash_def fresh_service_def chain_ok_def)
  then show ?thesis using Crash by (simp add: late_visit_def)
qed

lemma deliveries_inv: "deliveries fp (fresh_service d) late w \<Longrightarrow> delivery_inv (count_list late j) j w"
proof (induction arbitrary: j rule: deliveries.induct)
  case deliveries_start
  show ?case
    by (simp add: delivery_inv_def Let_def within_calls_def waiting_def fresh_service_def chain_ok_def calls_def called_with_def)
next
  case (deliveries_step late w e w')
  show ?case using delivery_step_inv [OF deliveries_step.IH deliveries_step.hyps(2)] by (simp add: count_list_append)
qed

section \<open>The number of records\<close>

text \<open>The cached numbers are exact, and an operation that writes without counting finds its file.\<close>

definition counts_ok :: "world \<Rightarrow> bool" where
  "counts_ok w = (\<forall>a. int (length (files_of (w_disk w) a)) \<le> MAX_DELIVERIES_PER_ADDON
     \<and> (\<forall>n. om_get (w_counts w) a = Some n \<longrightarrow> n = length (files_of (w_disk w) a)))"

definition needs_file :: "key \<Rightarrow> world \<Rightarrow> bool" where
  "needs_file k w = (om_get (w_active w) k \<noteq> None
     \<or> (case om_get (w_queues w) k of None \<Rightarrow> False | Some ops \<Rightarrow> \<not> list_all is_request ops))"

definition books :: "world \<Rightarrow> bool" where
  "books w = (counts_ok w \<and> (\<forall>k. needs_file k w \<longrightarrow> om_has (w_disk w) k))"

lemma has_file_write [world_simps]: "om_has (w_disk (write_record k r w)) j \<longleftrightarrow> j = k \<or> om_has (w_disk w) j"
  by (auto simp: om_has_get world_simps)

lemma keys_write [world_simps]: "om_has (w_disk w) k \<Longrightarrow> om_keys (w_disk (write_record k r w)) = om_keys (w_disk w)"
  by (simp add: write_record_def om_keys_set om_has_def del: set_map)

lemma has_file_keys: "om_keys d' = om_keys d \<Longrightarrow> om_has d' k = om_has d k"
  by (simp add: om_has_def)

lemma books_file: "books w \<Longrightarrow> needs_file k w \<Longrightarrow> om_has (w_disk w) k"
  by (simp only: books_def)

lemma books_same:
  "books w \<Longrightarrow> om_keys (w_disk v) = om_keys (w_disk w) \<Longrightarrow> w_counts v = w_counts w
    \<Longrightarrow> (\<And>k. needs_file k v \<Longrightarrow> needs_file k w \<or> om_has (w_disk w) k) \<Longrightarrow> books v"
  unfolding books_def counts_ok_def files_of_def by (metis has_file_keys)

lemma pop_requests: "pop q = Some ops \<Longrightarrow> \<not> list_all is_request ops \<Longrightarrow> \<exists>all. q = Some all \<and> \<not> list_all is_request all"
  by (cases q rule: pop.cases) auto

lemma books_finish: "books w \<Longrightarrow> books (finish k res w)"
  by (rule books_same [of w])
    (auto simp: needs_file_def world_simps split: if_splits option.splits dest: pop_requests)

lemma books_tick: "books w \<Longrightarrow> books (set_tick i tk w)" "books w \<Longrightarrow> books (end_tick i w)" "books w \<Longrightarrow> books (drop_pending k w)"
  "books w \<Longrightarrow> books (note_log x w)"
  by (rule books_same [of w]; simp add: needs_file_def world_simps)+

lemma books_write: "books w \<Longrightarrow> om_has (w_disk w) k \<Longrightarrow> books (write_record k r w)"
  by (rule books_same [of w]) (simp_all add: needs_file_def world_simps)

lemma books_serialize: "books w \<Longrightarrow> is_request x \<or> om_has (w_disk w) k \<Longrightarrow> books (serialize k x w)"
  by (rule books_same [of w]) (auto simp: needs_file_def world_simps split: if_splits option.splits)

lemma books_activate: "books w \<Longrightarrow> om_has (w_disk w) k \<Longrightarrow> books (w\<lparr>w_active := om_set k p (w_active w)\<rparr>)"
  by (rule books_same [of w]) (auto simp: needs_file_def omap_simps split: if_splits)

lemma books_attempt: "books w \<Longrightarrow> om_has (w_disk w) k \<Longrightarrow> books (attempt_delivery canRun now wrote k r w)"
  using books_activate [OF books_write, of w k "processing_of now r" k "processing_of now r"]
  by (simp add: attempt_delivery_def Let_def books_finish books_tick(4) world_simps)

lemma file_on_disk: "om_get d k = Some s \<Longrightarrow> om_has d k"
  by (simp add: om_has_get)

lemma books_accept_new:
  assumes b: "books w" and d: "om_get (w_disk w) k = None"
  shows "books (accept_new canRun now wrote1 wrote2 k r w)"
proof -
  define n where "n = length (files_of (w_disk w) (fst k))"
  have "deliveryCount (fst k) w = (n, w\<lparr>w_counts := om_set (fst k) n (w_counts w)\<rparr>)"
    using b by (auto simp: deliveryCount_def n_def books_def counts_ok_def Let_def split: option.splits)
  moreover define u where "u = w\<lparr>w_counts := om_set (fst k) n (w_counts w)\<rparr>"
  ultimately have n: "deliveryCount (fst k) w = (n, u)" by simp
  have u: "books u" using b by (auto simp: books_def counts_ok_def u_def omap_simps n_def needs_file_def)
  define v where "v = (write_record k r u)\<lparr>w_counts := om_set (fst k) (n + 1) (w_counts u), w_pending := add_pending k (w_pending u)\<rparr>"
  have keys: "om_keys (w_disk v) = om_keys (w_disk w) @ [k]"
    using d by (simp add: v_def u_def write_record_def om_keys_set om_get_None_iff del: set_map)
  then have has: "om_has (w_disk v) j \<longleftrightarrow> j = k \<or> om_has (w_disk w) j" for j
    unfolding om_has_def by auto
  have "books v" if "int n < MAX_DELIVERIES_PER_ADDON"
  proof -
    have "files_of (w_disk v) a = files_of (w_disk w) a @ (if a = fst k then [k] else [])" for a
      by (simp add: files_of_def keys)
    moreover have "needs_file j v \<Longrightarrow> om_has (w_disk v) j" for j
      using books_file [OF b, of j] has by (auto simp: needs_file_def v_def u_def world_simps)
    ultimately show ?thesis using that b
      by (auto simp: books_def counts_ok_def v_def u_def n_def omap_simps)
  qed
  then have "books (attempt_delivery canRun now wrote2 k r v)" if "int n < MAX_DELIVERIES_PER_ADDON"
    using that has by (intro books_attempt) auto
  then show ?thesis using u by (auto simp: accept_new_def n v_def intro: books_finish)
qed

lemma books_start:
  assumes b: "books w" and s: "start_op fp canRun now wrote1 wrote2 k w = Some v"
  shows "books v"
proof -
  have r: "books (request_op fp canRun now wrote1 wrote2 k permission payload print w)" for permission payload print
  proof (cases "readDelivery fp (w_disk w) k")
    case (Inl e)
    then show ?thesis using b by (simp add: request_op_def books_finish)
  next
    case (Inr found)
    show ?thesis
    proof (cases found)
      case None
      then have "om_get (w_disk w) k = None" using Inr by (simp add: readDelivery_none)
      then show ?thesis using Inr None b by (simp add: request_op_def books_accept_new)
    next
      case (Some r)
      then have "om_has (w_disk w) k" using Inr by (simp add: readDelivery_found file_on_disk)
      then show ?thesis using Inr Some b by (simp add: request_op_def books_finish books_attempt)
    qed
  qed
  have a: "books (attempt_op fp canRun now wrote1 k fallback w)" if "om_has (w_disk w) k" for fallback
    using b that by (auto simp: attempt_op_def intro: books_finish books_attempt split: sum.splits)
  have "om_get (w_queues w) k = Some (AttOp fallback i # ops) \<Longrightarrow> om_has (w_disk w) k" for fallback i ops
    by (rule books_file [OF b]) (simp add: needs_file_def is_request_def)
  with r a show ?thesis using s by (auto simp: start_op_def split: if_splits option.splits list.splits operation.splits)
qed

lemma books_settle:
  assumes b: "books w" and s: "settle now wrote1 wrote2 trouble out k w = Some v"
  shows "books v"
proof -
  define u where "u = note_log (Ended k out) (w\<lparr>w_active := om_delete k (w_active w)\<rparr>)"
  obtain p where p: "om_get (w_active w) k = Some p" using s by (auto simp: settle_def split: option.splits)
  then have k: "om_has (w_disk w) k" by (intro books_file [OF b]) (simp add: needs_file_def)
  have u: "books u" unfolding u_def
    by (intro books_tick(4) books_same [OF b]) (auto simp: needs_file_def omap_simps split: if_splits)
  then have "books (finish k res u)" "books (finish k res (write_record k r u))"
      "books (finish k res (drop_pending k (write_record k r u)))" for res r
    using k by (auto simp: u_def world_simps intro!: books_finish books_tick(3) books_write)
  then show ?thesis using s p
    by (auto simp: settle_def Let_def u_def [symmetric] settle_done_def settle_deferred_def settle_broken_def
        split: outcome.splits if_splits)
qed

lemma books_visit:
  assumes b: "books w" and s: "tick_visit fp canRun now wrote i w = Some v"
  shows "books v"
proof -
  have "books (visit_record canRun now wrote i tk k r w)" if "om_has (w_disk w) k" for tk k r
    using b that by (auto simp: visit_record_def world_simps split: prod.splits
        intro!: books_tick books_write books_serialize)
  then show ?thesis using s b
    by (auto simp: tick_visit_def split: option.splits if_splits list.splits sum.splits intro!: books_tick
        dest!: readDelivery_found file_on_disk)
qed

lemma books_step:
  assumes b: "books w" and s: "delivery_step fp e w = Some v"
  shows "books v"
proof (cases e)
  case (Request addon permission message input)
  then show ?thesis using s b by (auto simp: request_delivery_def is_request_def intro!: books_serialize)
next
  case (TickBegin i)
  then show ?thesis using s
    by (intro books_same [OF b]) (auto simp: tick_begin_def loadPendingKeys_def needs_file_def split: if_splits prod.splits)
next
  case Crash
  then show ?thesis using s b by (auto simp: books_def counts_ok_def needs_file_def crash_def fresh_service_def)
next
  case (Start canRun now wrote1 wrote2 k)
  then show ?thesis using s books_start [OF b] by simp
next
  case (Settle now wrote1 wrote2 trouble out k)
  then show ?thesis using s books_settle [OF b] by simp
next
  case (TickVisit canRun now wrote i)
  then show ?thesis using s books_visit [OF b] by simp
qed

lemma deliveries_books: "deliveries fp w0 late w \<Longrightarrow> books w0 \<Longrightarrow> books w"
  by (induction rule: deliveries.induct) (auto intro: books_step)

lemma carries_unique: "carries s c1 \<Longrightarrow> carries s c2 \<Longrightarrow> c1 = c2"
  by (auto simp: carries_def split: option.splits stored.splits)

section \<open>Runs given by their events\<close>

fun run_deliveries :: "fingerprinter \<Rightarrow> event list \<Rightarrow> key list \<times> world \<Rightarrow> (key list \<times> world) option" where
  "run_deliveries fp [] p = Some p"
| "run_deliveries fp (e # es) p = (case delivery_step fp e (snd p) of
     None \<Rightarrow> None | Some v \<Rightarrow> run_deliveries fp es (fst p @ late_visit e (snd p) v, v))"

lemma run_is_deliveries:
  "run_deliveries fp es p = Some p' \<Longrightarrow> deliveries fp w0 (fst p) (snd p) \<Longrightarrow> deliveries fp w0 (fst p') (snd p')"
proof (induction es arbitrary: p)
  case (Cons e es)
  then obtain v where v: "delivery_step fp e (snd p) = Some v" "run_deliveries fp es (fst p @ late_visit e (snd p) v, v) = Some p'"
    by (auto split: option.splits)
  from Cons.IH [OF v(2)] deliveries_step [OF Cons.prems(2) v(1)] show ?case by simp
qed simp

definition demo_fp :: fingerprinter where
  "demo_fp a p = (case p of Message player text \<Rightarrow> a @ player @ text | Reward r \<Rightarrow> a @ rw_player r)"

definition demo_input :: "string \<Rightarrow> jsval" where
  "demo_input text = Obj [(''requestId'', Str ''r1''), (''playerId'', Str ''p''), (''message'', Str text)]"

definition demo_events :: "event list" where
  "demo_events = [Request ''a'' ''players:message'' True (demo_input ''hi''), Start (\<lambda>_ _. True) 100 True True (''a'', ''r1''),
     Request ''a'' ''players:message'' True (demo_input ''hi''), Settle 200 True True [] (Deferred ''offline'') (''a'', ''r1''),
     Start (\<lambda>_ _. True) 300 True True (''a'', ''r1''), TickBegin 0, TickVisit (\<lambda>_ _. True) 40000 True 0,
     Start (\<lambda>_ _. True) 40000 True True (''a'', ''r1''), Settle 40100 True True [] (Done Null) (''a'', ''r1''), Crash,
     Request ''a'' ''players:message'' True (demo_input ''hi''), Start (\<lambda>_ _. True) 50000 True True (''a'', ''r1'')]"

definition demo_end :: "key list \<times> world" where
  "demo_end = the (run_deliveries demo_fp demo_events ([], fresh_service []))"

lemma demo_deliveries: "deliveries demo_fp (fresh_service []) (fst demo_end) (snd demo_end)"
proof -
  have "run_deliveries demo_fp demo_events ([], fresh_service []) \<noteq> None" by code_simp
  then have "run_deliveries demo_fp demo_events ([], fresh_service []) = Some demo_end" by (auto simp: demo_end_def)
  from run_is_deliveries [OF this] deliveries_start show ?thesis by simp
qed

section \<open>Properties\<close>

text \<open>
  C13. How often a reward is handed over: whatever requests, retries, ticks, outcomes, failed writes and deaths of
  the process come, in whatever order, a request id of an addon is passed to the deliver function at most once more
  often than the function put it off and ticks visited it late, that is, chained an attempt behind operations of the
  same key; and every call for it carries the same permission and the same payload. The files are those the service
  writes, and the addon stays installed: removing an addon removes its deliveries.
\<close>

theorem delivered_at_most_once:
  assumes "deliveries fp (fresh_service d) late w"
  shows "calls k w \<le> Suc (deferrals k w + count_list late k)
    \<and> (\<forall>c1 c2. c1 \<in> called_with k w \<and> c2 \<in> called_with k w \<longrightarrow> c1 = c2)"
proof
  have inv: "delivery_inv (count_list late k) k w" by (rule deliveries_inv [OF assms])
  then show "calls k w \<le> Suc (deferrals k w + count_list late k)" by (simp add: delivery_inv_def within_calls_def Let_def)
  have "c \<in> called_with k w \<Longrightarrow> carries (om_get (w_disk w) k) c" for c using inv by (simp add: delivery_inv_def within_calls_def Let_def)
  then show "\<forall>c1 c2. c1 \<in> called_with k w \<and> c2 \<in> called_with k w \<longrightarrow> c1 = c2" using carries_unique by blast
qed

lemma delivered_at_most_once_witness:
  "calls (''a'', ''r1'') (snd demo_end) \<le> Suc (deferrals (''a'', ''r1'') (snd demo_end))
    \<and> calls (''a'', ''r1'') (snd demo_end) = 2 \<and> fst demo_end = []"
proof -
  have "calls (''a'', ''r1'') (snd demo_end) = 2 \<and> fst demo_end = []" unfolding demo_end_def by code_simp
  then show ?thesis using delivered_at_most_once [OF demo_deliveries, of "(''a'', ''r1'')"] by simp
qed

text \<open>
  C40. While an addon stays installed it never has more records than the limit, if it did not before, whatever is
  requested and whenever the process dies; the cached number the check reads is the number of files.
\<close>

theorem records_bounded:
  assumes "deliveries fp (fresh_service d) late w" and "\<And>a. int (length (files_of d a)) \<le> MAX_DELIVERIES_PER_ADDON"
  shows "int (length (files_of (w_disk w) a)) \<le> MAX_DELIVERIES_PER_ADDON
    \<and> (\<forall>n. om_get (w_counts w) a = Some n \<longrightarrow> n = length (files_of (w_disk w) a))"
proof -
  have "books (fresh_service d)" using assms(2) by (simp add: books_def counts_ok_def fresh_service_def needs_file_def)
  from deliveries_books [OF assms(1) this] show ?thesis by (auto simp: books_def counts_ok_def)
qed

lemma records_bounded_witness: "int (length (files_of (w_disk (snd demo_end)) ''a'')) \<le> MAX_DELIVERIES_PER_ADDON"
  using records_bounded [OF demo_deliveries] by (simp add: files_of_def MAX_DELIVERIES_PER_ADDON_def)

text \<open>
  Why the late visits count: an attempt that was chained by a tick behind a request of the same key does not look
  at the status of the record it reads again, and hands the delivered reward over a second time.
\<close>

definition race_events :: "event list" where
  "race_events = [Request ''a'' ''players:message'' True (demo_input ''hi''), Start (\<lambda>_ _. False) 100 True True (''a'', ''r1''),
     TickBegin 0, Request ''a'' ''players:message'' True (demo_input ''hi''), TickVisit (\<lambda>_ _. True) 200 True 0,
     Start (\<lambda>_ _. True) 200 True True (''a'', ''r1''), Settle 300 True True [] (Done Null) (''a'', ''r1''),
     Start (\<lambda>_ _. True) 300 True True (''a'', ''r1'')]"

lemma queued_attempt_repeats_delivery:
  "map_option (\<lambda>p. (calls (''a'', ''r1'') (snd p), deferrals (''a'', ''r1'') (snd p), fst p))
     (run_deliveries demo_fp race_events ([], fresh_service [])) = Some (2, 0, [(''a'', ''r1'')])"
  by code_simp

text \<open>
  An unreadable record in the first directory ends the loading of what the last process left: the first tick fails,
  and every later tick of the process has nothing to do, whatever is pending on the disk.
\<close>

lemma unreadable_record_strands_pending:
  assumes "addon_directories d = a # rest" and "listDeliveryRecords fp d a = None"
  shows "\<exists>w. tick_begin fp i (fresh_service d) = Some w \<and> w_pending w = [] \<and> w_ticks w = []
    \<and> (\<exists>v tk. tick_begin fp j w = Some v \<and> om_get (w_ticks v) j = Some tk \<and> tk_keys tk = [])"
  using assms by (simp add: tick_begin_def loadPendingKeys_def fresh_service_def om_has_def omap_simps om_get_def)

text \<open>
  A reward that was handed over is recorded as failed when the record of its delivery cannot be written at the first
  attempt; nothing marks it as uncertain.
\<close>

lemma delivered_recorded_as_failed:
  assumes "om_get (w_active w) k = Some p"
  shows "\<exists>v r. settle now False True trouble (Done result) k w = Some v
    \<and> om_get (w_disk v) k = Some (Readable r) \<and> dl_status r = Failed"
  using assms by (simp add: settle_def settle_done_def settle_broken_def Let_def world_simps)

end
