(* ===== verification/MemoryBalancer.thy ===== *)
theory MemoryBalancer
  imports Tasks
begin

text \<open>
  The memory balancer: \<open>console/api/src/services/memoryBalancer.js\<close>, with the part of
  \<open>console/api/src/statusParsers.js\<close> that reads the configured limits. What docker and the status command print,
  the JSON parser, the files and the clock are arguments; the outcome of every docker call is part of a step. The
  balancer moves one GiB at a time from a container with room to one that is nearly full, and puts the configured
  limits back when it is turned off. Percentages are exact rationals.
\<close>

section \<open>Numbers that docker prints\<close>

text \<open>\<open>Number.parseFloat\<close>: the longest prefix that is a decimal literal.\<close>

definition exponent_prefix :: "string \<Rightarrow> int" where
  "exponent_prefix s = (case s of
     c # cs \<Rightarrow> (let sgn = (cs \<noteq> [] \<and> (hd cs = CHR ''-'' \<or> hd cs = CHR ''+'')); ds = takeWhile is_digit (if sgn then tl cs else cs) in
       if (c = CHR ''e'' \<or> c = CHR ''E'') \<and> ds \<noteq> []
       then (if sgn \<and> hd cs = CHR ''-'' then - int (digits_val ds) else int (digits_val ds)) else 0)
   | [] \<Rightarrow> 0)"

definition parse_float_unsigned :: "string \<Rightarrow> jsnum" where
  "parse_float_unsigned s =
     (if starts_with s ''Infinity'' then PosInf
      else let ip = takeWhile is_digit s; r1 = dropWhile is_digit s; dot = (r1 \<noteq> [] \<and> hd r1 = CHR ''.'');
               fp = (if dot then takeWhile is_digit (tl r1) else []);
               rest = (if dot then dropWhile is_digit (tl r1) else r1)
           in if ip = [] \<and> fp = [] then NaN
              else Num ((of_nat (digits_val (ip @ fp)) / 10 ^ length fp) * pow10 (exponent_prefix rest)))"

definition parseFloat :: "string \<Rightarrow> jsnum" where
  "parseFloat s0 = (let s = trim_left s0 in
     if s \<noteq> [] \<and> hd s = CHR ''-'' then num_neg (parse_float_unsigned (tl s))
     else if s \<noteq> [] \<and> hd s = CHR ''+'' then parse_float_unsigned (tl s)
     else parse_float_unsigned s)"

text \<open>\<open>x || y\<close> for a number and its fallback; infinities cannot come from what docker prints and count as 0 here.\<close>

definition num_or :: "jsnum \<Rightarrow> rat \<Rightarrow> rat" where
  "num_or x y = (case x of Num q \<Rightarrow> if q = 0 then y else q | NaN \<Rightarrow> y | _ \<Rightarrow> 0)"

definition is_amount :: "char \<Rightarrow> bool" where
  "is_amount c = (is_digit c \<or> c = CHR ''.'')"

definition byte_unit :: "string \<Rightarrow> string option" where
  "byte_unit s = (let u = js_lower s; v = (if u \<noteq> [] \<and> hd u \<in> set ''kmgtpe'' then tl u else u) in
     if u = [] then Some ''b''
     else if v = ''b'' \<or> v = ''ib'' then Some u else None)"

definition byte_multiplier :: "string \<Rightarrow> rat" where
  "byte_multiplier u = (if u = ''kb'' then 1000 else if u = ''kib'' then 1024 else if u = ''mb'' then 1000 ^ 2
     else if u = ''mib'' then 1024 ^ 2 else if u = ''gb'' then 1000 ^ 3 else if u = ''gib'' then 1024 ^ 3
     else if u = ''tb'' then 1000 ^ 4 else if u = ''tib'' then 1024 ^ 4 else 1)"

definition parseDockerBytes :: "string \<Rightarrow> int" where
  "parseDockerBytes value = (if takeWhile is_amount value = [] then 0
     else case byte_unit (trim_left (dropWhile is_amount value)) of
       None \<Rightarrow> 0
     | Some u \<Rightarrow> js_round (num_or (parseFloat (filter is_amount value)) 0 * byte_multiplier u))"

definition roundPercent :: "rat \<Rightarrow> rat" where
  "roundPercent v = of_int (js_round (v * 10)) / 10"

text \<open>The parts of \<open>value.split("/")\<close>, trimmed; only the first two are used.\<close>

definition parseMemoryUsage :: "string \<Rightarrow> int \<times> int \<times> rat" where
  "parseMemoryUsage value =
     (let parts = map js_trim (split_at (\<lambda>c. c = CHR 0x2F) value); used = parseDockerBytes (hd parts);
          limit = (case tl parts of [] \<Rightarrow> 0 | p # _ \<Rightarrow> parseDockerBytes p)
      in (used, limit, if 0 < limit then roundPercent (of_int used / of_int limit * 100) else 0))"

section \<open>Containers and maps\<close>

definition survival_partition :: "string \<Rightarrow> string option" where
  "survival_partition name = (let p = ''dune-server-survival-1-''; r = drop (length p) name in
     if starts_with name p \<and> r \<noteq> [] \<and> list_all is_digit r then Some r else None)"

definition deep_desert :: "string \<Rightarrow> bool" where
  "deep_desert name = (let p = ''dune-server-deepdesert-1''; r = drop (length p) name in
     starts_with name p \<and> (r = [] \<or> (hd r = CHR ''-'' \<and> tl r \<noteq> [] \<and> list_all is_digit (tl r))))"

definition mapFromContainerName :: "string \<Rightarrow> string" where
  "mapFromContainerName name =
     (if name = ''dune-server-survival-1'' then ''Survival_1''
      else case survival_partition name of
        Some r \<Rightarrow> ''Survival_1 partition '' @ r
      | None \<Rightarrow> if name = ''dune-server-overmap'' then ''Overmap''
          else if deep_desert name then ''DeepDesert_1''
          else if starts_with name ''dune-server-'' then drop (length ''dune-server-'') name else name)"

definition memoryTargetForContainer :: "string \<Rightarrow> string" where
  "memoryTargetForContainer container =
     (if container = ''dune-server-survival-1'' then ''Survival_1''
      else case survival_partition container of
        Some r \<Rightarrow> ''Survival_1:'' @ r
      | None \<Rightarrow> if container = ''dune-server-overmap'' then ''Overmap'' else mapFromContainerName container)"

definition no_newline :: "string \<Rightarrow> bool" where
  "no_newline s = list_all (\<lambda>c. code c \<noteq> 10 \<and> code c \<noteq> 13) s"

definition partitionIdFromContainer :: "string \<Rightarrow> string" where
  "partitionIdFromContainer container = (case last_index_of (CHR ''-'') container of
     None \<Rightarrow> []
   | Some i \<Rightarrow> (let digits = drop (i + 1) container; front = take i container; p = ''dune-server-'' in
       if digits \<noteq> [] \<and> list_all is_digit digits \<and> starts_with front p \<and> length p < length front
          \<and> no_newline (drop (length p) front)
       then digits else []))"

section \<open>Rows of docker stats\<close>

record swap_stats =
  sw_supported :: bool
  sw_version :: int
  sw_used :: int
  sw_limit :: int

record memory_row =
  mb_container :: string
  mb_map :: string
  mb_used :: int
  mb_limit :: int
  mb_percent :: rat
  mb_swap_used :: int
  mb_swap_limit :: int
  mb_swap :: bool

definition parseDockerStatsRow :: "(string \<Rightarrow> jsval option) \<Rightarrow> string \<Rightarrow> memory_row option" where
  "parseDockerStatsRow parse_json line = (case parse_json line of
     None \<Rightarrow> None
   | Some row \<Rightarrow> (let name = to_str (js_or (js_or (getp row ''Name'') (getp row ''Container'')) (Str [])) in
       if \<not> starts_with name ''dune-server-'' then None
       else case parseMemoryUsage (to_str (js_or (js_or (getp row ''MemUsage'') (getp row ''MemUsageBytes'')) (Str []))) of
         (used, limit, percent) \<Rightarrow> Some \<lparr>mb_container = name, mb_map = mapFromContainerName name, mb_used = used,
           mb_limit = limit,
           mb_percent = num_or (parseFloat (filter (\<lambda>c. c \<noteq> CHR ''%'') (to_str (js_or (getp row ''MemPerc'') (Str []))))) percent,
           mb_swap_used = 0, mb_swap_limit = 0, mb_swap = False\<rparr>))"

definition collect_rows :: "(string \<Rightarrow> jsval option) \<Rightarrow> string \<Rightarrow> memory_row list" where
  "collect_rows parse_json stdout =
     List.map_filter (parseDockerStatsRow parse_json) (filter (\<lambda>line. line \<noteq> []) (map js_trim (split_lines stdout)))"

subsection \<open>Swap\<close>

definition MAX_SAFE_INTEGER :: int where "MAX_SAFE_INTEGER = 9007199254740991"

definition parseCgroupByteCounter :: "bool \<Rightarrow> string \<Rightarrow> int option" where
  "parseCgroupByteCounter allowMax value = (let text = js_trim value in
     if allowMax \<and> text = ''max'' then Some 0
     else if text = [] \<or> \<not> list_all is_digit text then None
     else if int (digits_val text) \<le> MAX_SAFE_INTEGER then Some (int (digits_val text)) else None)"

definition unsupportedSwapStats :: swap_stats where
  "unsupportedSwapStats = \<lparr>sw_supported = False, sw_version = 0, sw_used = 0, sw_limit = 0\<rparr>"

definition parseContainerSwapStats :: "string \<Rightarrow> swap_stats" where
  "parseContainerSwapStats value = (case split_at (\<lambda>c. c = CHR ''|'') (js_trim value) of
     [version, a, b] \<Rightarrow> (if version \<noteq> ''v2'' then unsupportedSwapStats
       else case (parseCgroupByteCounter False a, parseCgroupByteCounter True b) of
         (Some used, Some limit) \<Rightarrow> \<lparr>sw_supported = True, sw_version = 2, sw_used = used, sw_limit = limit\<rparr>
       | _ \<Rightarrow> unsupportedSwapStats)
   | [version, a, b, c, d] \<Rightarrow> (if version \<noteq> ''v1'' then unsupportedSwapStats
       else case (parseCgroupByteCounter False a, parseCgroupByteCounter False b, parseCgroupByteCounter False c,
                  parseCgroupByteCounter True d) of
         (Some memoryUsed, Some combinedUsed, Some memoryLimit, Some combinedLimit) \<Rightarrow>
           \<lparr>sw_supported = True, sw_version = 1, sw_used = max 0 (combinedUsed - memoryUsed),
            sw_limit = max 0 (combinedLimit - memoryLimit)\<rparr>
       | _ \<Rightarrow> unsupportedSwapStats)
   | _ \<Rightarrow> unsupportedSwapStats)"

text \<open>The names of the environment file and their values; a later line of the same name wins.\<close>

definition env_values :: "string \<Rightarrow> (string \<times> string) list" where
  "env_values text = rev (List.map_filter (\<lambda>line. case split_at (\<lambda>c. c = CHR ''='') line of
       k # v # _ \<Rightarrow> if k = [] then None else Some (k, v) | _ \<Rightarrow> None) (split_lines text))"

definition GIB :: int where "GIB = 1024 ^ 3"

definition readMemorySwapAllowanceBytes :: "string option \<Rightarrow> int" where
  "readMemorySwapAllowanceBytes env = (case env of
     None \<Rightarrow> 0
   | Some text \<Rightarrow> if map_of (env_values text) ''DUNE_MEMORY_SWAP_ENABLED'' \<noteq> Some ''1'' then 0
       else case (case map_of (env_values text) ''DUNE_MEMORY_SWAP_PER_SERVER_GIB'' of
                    None \<Rightarrow> Num 0 | Some v \<Rightarrow> if v = [] then Num 0 else string_to_num v) of
         Num q \<Rightarrow> if rat_is_int q \<and> 1 \<le> \<lfloor>q\<rfloor> \<and> \<lfloor>q\<rfloor> \<le> 16 then \<lfloor>q\<rfloor> * GIB else 0
       | _ \<Rightarrow> 0)"

definition sampled_container :: "string \<Rightarrow> bool" where
  "sampled_container name = (let r = drop (length ''dune-server-'') name in
     js_lower (take (length ''dune-server-'') name) = ''dune-server-'' \<and> r \<noteq> []
     \<and> list_all (\<lambda>c. (is_word_char c \<and> c \<noteq> CHR ''_'') \<or> c = CHR ''-'') r)"

definition add_swap :: "(string \<Rightarrow> string option) \<Rightarrow> string \<Rightarrow> (string, swap_stats) omap \<Rightarrow> (string, swap_stats) omap" where
  "add_swap run container found = (case run container of
     None \<Rightarrow> found
   | Some output \<Rightarrow> if sw_supported (parseContainerSwapStats output)
       then om_set container (parseContainerSwapStats output) found else found)"

definition collectContainerSwapStats :: "string option \<Rightarrow> (string \<Rightarrow> string option) \<Rightarrow> memory_row list \<Rightarrow> (string, swap_stats) omap" where
  "collectContainerSwapStats env run rows = (if readMemorySwapAllowanceBytes env \<le> 0 then []
     else fold (add_swap run) (rev (remdups (rev (filter sampled_container (map mb_container rows))))) [])"

definition applyContainerSwapStats :: "memory_row list \<Rightarrow> (string, swap_stats) omap \<Rightarrow> memory_row list" where
  "applyContainerSwapStats rows swaps = map (\<lambda>row. case om_get swaps (mb_container row) of
       Some s \<Rightarrow> if sw_supported s then row\<lparr>mb_swap_used := sw_used s, mb_swap_limit := sw_limit s, mb_swap := True\<rparr>
                 else row\<lparr>mb_swap_used := 0, mb_swap_limit := 0, mb_swap := False\<rparr>
     | None \<Rightarrow> row\<lparr>mb_swap_used := 0, mb_swap_limit := 0, mb_swap := False\<rparr>) rows"

section \<open>The configured limits\<close>

text \<open>\<open>statusParsers.js\<close>: a number with an optional fraction, and what follows it.\<close>

definition number_prefix :: "string \<Rightarrow> (string \<times> string) option" where
  "number_prefix s = (let ip = takeWhile is_digit s; r = dropWhile is_digit s in
     if ip = [] then None
     else if r \<noteq> [] \<and> hd r = CHR ''.'' \<and> takeWhile is_digit (tl r) \<noteq> []
     then Some (ip @ ''.'' @ takeWhile is_digit (tl r), dropWhile is_digit (tl r))
     else Some (ip, r))"

definition default_suffix :: "string \<Rightarrow> bool" where
  "default_suffix s = (s = [] \<or> (is_ws (hd s) \<and> js_lower (trim_left s) \<in> set [''default'', ''(default'', ''default)'', ''(default)'']))"

definition memory_text :: "string \<Rightarrow> bool" where
  "memory_text s = (case number_prefix s of
     None \<Rightarrow> False
   | Some (_, r0) \<Rightarrow> (case js_lower (trim_left r0) of
       c # r \<Rightarrow> c \<in> set ''kmgt''
         \<and> (let r1 = (if r \<noteq> [] \<and> hd r = CHR ''i'' then tl r else r); r2 = (if r1 \<noteq> [] \<and> hd r1 = CHR ''b'' then tl r1 else r1)
            in default_suffix r \<or> default_suffix r1 \<or> default_suffix r2)
     | [] \<Rightarrow> False))"

text \<open>The shortest name before white space and a memory text that ends the line.\<close>

fun split_row :: "string \<Rightarrow> string \<Rightarrow> (string \<times> string) option" where
  "split_row name [] = None"
| "split_row name (c # cs) =
     (if name \<noteq> [] \<and> is_ws c \<and> memory_text (trim_left cs) then Some (js_trim name, trim_left cs)
      else split_row (name @ [c]) cs)"

definition two_digits :: "nat \<Rightarrow> string" where
  "two_digits n = [digit_char (n div 10), digit_char (n mod 10)]"

definition toFixed2 :: "rat \<Rightarrow> string" where
  "toFixed2 q = (let n = nat (js_round (q * 100)) in show_nat (n div 100) @ ''.'' @ two_digits (n mod 100))"

fun from_first_digit :: "string \<Rightarrow> string" where
  "from_first_digit [] = []"
| "from_first_digit (c # cs) = (if is_digit c then c # cs else from_first_digit cs)"

definition word_at :: "string \<Rightarrow> string \<Rightarrow> nat \<Rightarrow> bool" where
  "word_at w s i = (take (length w) (drop i s) = w \<and> (i = 0 \<or> \<not> is_word_char (s ! (i - 1)))
     \<and> (length s \<le> i + length w \<or> \<not> is_word_char (s ! (i + length w))))"

definition formatMemoryValue :: "string \<Rightarrow> string" where
  "formatMemoryValue value = (let text = js_trim value; tail = from_first_digit text in
     case number_prefix tail of
       None \<Rightarrow> if text = [] then ''Not Available'' else text
     | Some (n, r) \<Rightarrow>
         toFixed2 (num_or (string_to_num n) 0)
           @ (if trim_left r \<noteq> [] \<and> lower_char (hd (trim_left r)) = CHR ''m'' then '' MB'' else '' GB'')
           @ (if list_ex (word_at ''default'' (js_lower text)) [0..<length text] then '' (Default)'' else []))"

definition memory_heading :: "string \<Rightarrow> bool" where
  "memory_heading line = (let l = js_lower line in starts_with l ''==='' \<or> starts_with l ''default memory''
     \<or> (starts_with l ''map'' \<and> drop 3 l \<noteq> [] \<and> is_ws (hd (drop 3 l)) \<and> starts_with (trim_left (drop 3 l)) ''memory''))"

definition parseMemoryStatusRows :: "string \<Rightarrow> (string \<times> string) list" where
  "parseMemoryStatusRows text = map (\<lambda>(name, memory). (name, formatMemoryValue (js_trim memory)))
     (List.map_filter (split_row [])
       (filter (\<lambda>line. line \<noteq> [] \<and> \<not> memory_heading line) (map js_trim (split_lines text))))"

text \<open>\<open>memoryBalancer.js\<close>: the first number of the text that is followed by a unit, whose case matters.\<close>

definition setting_unit :: "string \<Rightarrow> string option" where
  "setting_unit s = (case s of
     [] \<Rightarrow> None
   | c # r \<Rightarrow>
       if c \<in> set ''KMGT'' then Some (c # (if starts_with r ''iB'' then ''iB'' else if starts_with r ''B'' then ''B'' else []))
       else if c \<in> set ''kmgt'' then Some (c # (if starts_with r ''ib'' then ''ib'' else if starts_with r ''b'' then ''b'' else []))
       else None)"

fun setting_text :: "string \<Rightarrow> string option" where
  "setting_text [] = None"
| "setting_text (c # cs) = (case number_prefix (c # cs) of
     None \<Rightarrow> setting_text cs
   | Some (n, r) \<Rightarrow> (case setting_unit (trim_left r) of
       Some u \<Rightarrow> Some (n @ u)
     | None \<Rightarrow> setting_text cs))"

definition parseMemorySettingBytes :: "string \<Rightarrow> int" where
  "parseMemorySettingBytes value = (case setting_text value of None \<Rightarrow> 0 | Some t \<Rightarrow> parseDockerBytes t)"

definition configured_limits :: "string \<Rightarrow> (string, int) omap" where
  "configured_limits stdout = fold (\<lambda>(name, memory) m. let bytes = parseMemorySettingBytes memory in
     if 0 < bytes then om_set name bytes m else m) (parseMemoryStatusRows stdout) []"

definition configuredMemoryForPartition :: "(string, int) omap \<Rightarrow> string \<Rightarrow> int" where
  "configuredMemoryForPartition byMap pid =
     (case find (\<lambda>(name, bytes). ends_with name ('':'' @ pid) \<and> 0 < bytes) byMap of
        None \<Rightarrow> 0 | Some (_, bytes) \<Rightarrow> bytes)"

definition configured_for :: "(string, int) omap \<Rightarrow> string \<Rightarrow> int" where
  "configured_for byMap container = (case om_get byMap (memoryTargetForContainer container) of
     Some bytes \<Rightarrow> bytes
   | None \<Rightarrow> let pid = partitionIdFromContainer container in
       if pid \<noteq> [] then configuredMemoryForPartition byMap pid else 0)"

definition configuredMemoryLimitsByContainer :: "string \<Rightarrow> memory_row list \<Rightarrow> (string, int) omap" where
  "configuredMemoryLimitsByContainer stdout rows = fold (\<lambda>row m.
     let bytes = configured_for (configured_limits stdout) (mb_container row) in
     if 0 < bytes then om_set (mb_container row) bytes m else m) rows []"

section \<open>Updating a limit\<close>

definition dockerMemoryMib :: "int \<Rightarrow> int" where
  "dockerMemoryMib bytes = max 256 (js_round (of_int bytes / 1024 ^ 2))"

definition dockerMemoryArg :: "int \<Rightarrow> string" where
  "dockerMemoryArg bytes = show_int (dockerMemoryMib bytes) @ ''m''"

definition dockerMemoryUpdateArgs :: "string \<Rightarrow> int \<Rightarrow> int \<Rightarrow> string list" where
  "dockerMemoryUpdateArgs container limit swapAllowance =
     (let memory = dockerMemoryArg limit;
          memorySwap = dockerMemoryArg (limit + (if 0 < swapAllowance then swapAllowance else limit))
      in [''update'', ''--memory'', memory, ''--memory-swap'', memorySwap, ''--memory-reservation'', memory, container])"

section \<open>Choosing a transfer\<close>

definition HIGH_WATERMARK :: rat where "HIGH_WATERMARK = 90"
definition DONOR_MAX_PERCENT :: rat where "DONOR_MAX_PERCENT = 55"
definition EMERGENCY_DONOR_MAX_PERCENT :: rat where "EMERGENCY_DONOR_MAX_PERCENT = 70"
definition DONOR_POST_TRANSFER_MAX_PERCENT :: rat where "DONOR_POST_TRANSFER_MAX_PERCENT = 80"
definition CHUNK_BYTES :: int where "CHUNK_BYTES = 1024 ^ 3"
definition MIN_HEADROOM_BYTES :: int where "MIN_HEADROOM_BYTES = 1024 ^ 3"

definition percentAfterMemoryDonation :: "memory_row \<Rightarrow> rat" where
  "percentAfterMemoryDonation row = (let nextLimit = mb_limit row - CHUNK_BYTES in
     if 0 < nextLimit then of_int (mb_used row) / of_int nextLimit * 100 else 100)"

definition minimumBalancerLimit :: "memory_row \<Rightarrow> int" where
  "minimumBalancerLimit row =
     max (max (mb_used row + MIN_HEADROOM_BYTES) \<lceil>of_int (mb_used row) * (5/4) :: rat\<rceil>) CHUNK_BYTES"

text \<open>Ordering by ascending percentage, and by descending limit where it is equal; both sorts are stable.\<close>

definition by_room :: "memory_row list \<Rightarrow> memory_row list" where
  "by_room rows = sort_key mb_percent (sort_key (\<lambda>r. - mb_limit r) rows)"

definition first_of :: "'a list \<Rightarrow> 'a option" where
  "first_of xs = (case xs of [] \<Rightarrow> None | x # _ \<Rightarrow> Some x)"

definition donor_candidates :: "memory_row list \<Rightarrow> memory_row \<Rightarrow> memory_row list" where
  "donor_candidates rows target = filter (\<lambda>r. mb_container r \<noteq> mb_container target
     \<and> minimumBalancerLimit r \<le> mb_limit r - CHUNK_BYTES
     \<and> percentAfterMemoryDonation r \<le> DONOR_POST_TRANSFER_MAX_PERCENT) rows"

definition selectMemoryBalancerDonor :: "memory_row list \<Rightarrow> memory_row \<Rightarrow> memory_row option" where
  "selectMemoryBalancerDonor rows target = (let candidates = donor_candidates rows target in
     case first_of (by_room (filter (\<lambda>r. mb_percent r \<le> DONOR_MAX_PERCENT) candidates)) of
       Some r \<Rightarrow> Some r
     | None \<Rightarrow> first_of (by_room (filter (\<lambda>r. mb_percent r \<le> EMERGENCY_DONOR_MAX_PERCENT) candidates)))"

definition usable_rows :: "memory_row list \<Rightarrow> memory_row list" where
  "usable_rows rows = filter (\<lambda>r. 0 < mb_used r \<and> 0 < mb_limit r) rows"

definition select_target :: "memory_row list \<Rightarrow> memory_row option" where
  "select_target rows = first_of (sort_key (\<lambda>r. - mb_percent r) (filter (\<lambda>r. HIGH_WATERMARK \<le> mb_percent r) rows))"

section \<open>The balancer\<close>

text \<open>
  A tick samples, raises the limit of the target and lowers the one of the donor; turning the balancer on samples the
  limits to come back to, turning it off reads the configured limits and applies them one after the other. Each of
  these waits, and the steps of a tick and of any number of switches may interleave. \<open>bw_limits\<close> is what docker
  enforces, in MiB. An update is applied, refused, or applied but reported as failed (the call timed out). The texts
  of errors are arguments, redacted.
\<close>

datatype update = Applied | Refused string | TimedOut string

datatype tick_phase = NoTick | Sampling | RaiseTarget memory_row memory_row | LowerDonor memory_row memory_row

datatype switch = Capturing | ReadingConfigured | Restoring "(string \<times> int) list"

record balancer =
  bw_enabled :: bool
  bw_running :: bool
  bw_baseline :: "(string, int) omap"
  bw_message :: string
  bw_action :: string
  bw_error :: string
  bw_setting :: bool
  bw_tick :: tick_phase
  bw_switches :: "(nat, switch) omap"
  bw_limits :: "(string, int) omap"

definition update_limit :: "string \<Rightarrow> int \<Rightarrow> update \<Rightarrow> balancer \<Rightarrow> balancer" where
  "update_limit container bytes u w = (case u of
     Refused _ \<Rightarrow> w
   | _ \<Rightarrow> w\<lparr>bw_limits := om_set container (dockerMemoryMib bytes) (bw_limits w)\<rparr>)"

definition update_error :: "update \<Rightarrow> string option" where
  "update_error u = (case u of Applied \<Rightarrow> None | Refused e \<Rightarrow> Some e | TimedOut e \<Rightarrow> Some e)"

definition add_baseline :: "memory_row \<Rightarrow> (string, int) omap \<Rightarrow> (string, int) omap" where
  "add_baseline row baseline = (if om_has baseline (mb_container row) then baseline
     else om_set (mb_container row) (mb_limit row) baseline)"

definition monitoring :: string where
  "monitoring = ''Memory Balancer is monitoring running maps''"

definition report :: "string \<Rightarrow> string \<Rightarrow> balancer \<Rightarrow> balancer" where
  "report message action w = w\<lparr>bw_message := message, bw_action := action, bw_error := []\<rparr>"

definition end_balancing :: "balancer \<Rightarrow> balancer" where
  "end_balancing w = w\<lparr>bw_running := False, bw_tick := NoTick\<rparr>"

definition balancing_failed :: "string \<Rightarrow> balancer \<Rightarrow> balancer" where
  "balancing_failed e w = end_balancing (w\<lparr>bw_error := e, bw_message := ''Memory Balancer could not rebalance memory.''\<rparr>)"

definition balancer_tick :: "balancer \<Rightarrow> balancer" where
  "balancer_tick w = (if \<not> bw_enabled w \<or> bw_running w then w else w\<lparr>bw_running := True, bw_tick := Sampling\<rparr>)"

definition plan_transfer :: "memory_row list \<Rightarrow> balancer \<Rightarrow> balancer" where
  "plan_transfer sampled w =
     (let rows = usable_rows sampled; w1 = w\<lparr>bw_baseline := fold add_baseline rows (bw_baseline w)\<rparr> in
      case select_target rows of
        None \<Rightarrow> end_balancing (report monitoring [] w1)
      | Some target \<Rightarrow> (case selectMemoryBalancerDonor rows target of
          None \<Rightarrow> end_balancing (report (mb_map target
            @ '' is above 90% memory, but no running map has enough spare memory to donate safely'') [] w1)
        | Some donor \<Rightarrow> w1\<lparr>bw_tick := RaiseTarget target donor\<rparr>))"

definition tick_sampled :: "string + memory_row list \<Rightarrow> balancer \<Rightarrow> balancer option" where
  "tick_sampled sample w = (case bw_tick w of
     Sampling \<Rightarrow> Some (case sample of Inl e \<Rightarrow> balancing_failed e w | Inr rows \<Rightarrow> plan_transfer rows w)
   | _ \<Rightarrow> None)"

definition tick_raised :: "update \<Rightarrow> balancer \<Rightarrow> balancer option" where
  "tick_raised u w = (case bw_tick w of
     RaiseTarget target donor \<Rightarrow> Some (let v = update_limit (mb_container target) (mb_limit target + CHUNK_BYTES) u w in
       case update_error u of None \<Rightarrow> v\<lparr>bw_tick := LowerDonor target donor\<rparr> | Some e \<Rightarrow> balancing_failed e v)
   | _ \<Rightarrow> None)"

definition tick_lowered :: "update \<Rightarrow> balancer \<Rightarrow> balancer option" where
  "tick_lowered u w = (case bw_tick w of
     LowerDonor target donor \<Rightarrow> Some (let v = update_limit (mb_container donor) (mb_limit donor - CHUNK_BYTES) u w in
       case update_error u of
         None \<Rightarrow> end_balancing (report (''Moved 1 GB from '' @ mb_map donor @ '' to '' @ mb_map target)
           (mb_container donor @ '' -> '' @ mb_container target) v)
       | Some e \<Rightarrow> balancing_failed e v)
   | _ \<Rightarrow> None)"

subsection \<open>Turning it on and off\<close>

definition setEnabled :: "nat \<Rightarrow> bool \<Rightarrow> balancer \<Rightarrow> balancer option" where
  "setEnabled i enabled w = (if om_has (bw_switches w) i then None
     else Some (let v = w\<lparr>bw_enabled := enabled, bw_error := [], bw_setting := enabled\<rparr> in
       if enabled then v\<lparr>bw_baseline := [], bw_message := monitoring, bw_switches := om_set i Capturing (bw_switches w)\<rparr>
       else v\<lparr>bw_message := ''Restoring configured memory limits.'',
              bw_switches := om_set i ReadingConfigured (bw_switches w)\<rparr>))"

definition switch_captured :: "nat \<Rightarrow> memory_row list option \<Rightarrow> balancer \<Rightarrow> balancer option" where
  "switch_captured i sample w = (case om_get (bw_switches w) i of
     Some Capturing \<Rightarrow> Some (balancer_tick (w\<lparr>bw_switches := om_delete i (bw_switches w),
       bw_baseline := fold (\<lambda>row b. if 0 < mb_limit row then add_baseline row b else b)
         (case sample of None \<Rightarrow> [] | Some rows \<Rightarrow> rows) (bw_baseline w)\<rparr>))
   | _ \<Rightarrow> None)"

definition restore_targets :: "(string, int) omap \<Rightarrow> (string, int) omap \<Rightarrow> (string \<times> int) list" where
  "restore_targets baseline configured =
     filter (\<lambda>(container, bytes). 0 < bytes) (fold (\<lambda>(container, bytes) m. om_set container bytes m) configured baseline)"

definition switch_configured :: "nat \<Rightarrow> (string, int) omap option \<Rightarrow> balancer \<Rightarrow> balancer option" where
  "switch_configured i configured w = (case om_get (bw_switches w) i of
     Some ReadingConfigured \<Rightarrow> Some (w\<lparr>bw_switches := om_set i
       (Restoring (restore_targets (bw_baseline w) (case configured of None \<Rightarrow> [] | Some m \<Rightarrow> m))) (bw_switches w)\<rparr>)
   | _ \<Rightarrow> None)"

definition switch_restored :: "nat \<Rightarrow> update \<Rightarrow> balancer \<Rightarrow> balancer option" where
  "switch_restored i u w = (case om_get (bw_switches w) i of
     Some (Restoring ((container, bytes) # rest)) \<Rightarrow> Some (let v = update_limit container bytes u w in
       (case update_error u of None \<Rightarrow> v | Some e \<Rightarrow> v\<lparr>bw_error := e\<rparr>)
         \<lparr>bw_switches := om_set i (Restoring rest) (bw_switches w)\<rparr>)
   | Some (Restoring []) \<Rightarrow> Some (w\<lparr>bw_switches := om_delete i (bw_switches w), bw_baseline := [],
       bw_message := ''Memory Balancer is off. Configured memory limits are active.''\<rparr>)
   | _ \<Rightarrow> None)"

definition new_balancer :: "bool \<Rightarrow> (string, int) omap \<Rightarrow> balancer" where
  "new_balancer persisted limits = \<lparr>bw_enabled = persisted, bw_running = False, bw_baseline = [],
     bw_message = (if persisted then monitoring else ''Memory Balancer is off.''), bw_action = [], bw_error = [],
     bw_setting = persisted, bw_tick = NoTick, bw_switches = [], bw_limits = limits\<rparr>"

definition memoryBalancerRoute :: "nat \<Rightarrow> jsval \<Rightarrow> balancer \<Rightarrow> balancer option" where
  "memoryBalancerRoute i body w = (let enabled = truthy (getp body ''enabled'') in
     if enabled = bw_enabled w then Some w else setEnabled i enabled w)"

section \<open>What a transfer keeps\<close>

lemma first_of_in: "first_of xs = Some x \<Longrightarrow> x \<in> set xs"
  by (cases xs) (auto simp: first_of_def)

lemma first_of_sorted: "sorted (map f xs) \<Longrightarrow> first_of xs = Some x \<Longrightarrow> y \<in> set xs \<Longrightarrow> f x \<le> f y"
  by (cases xs) (auto simp: first_of_def)

lemma set_by_room [simp]: "set (by_room rows) = set rows"
  by (simp add: by_room_def)

lemma first_by_room: "first_of (by_room rows) = Some r \<Longrightarrow> r \<in> set rows \<and> (\<forall>s \<in> set rows. mb_percent r \<le> mb_percent s)"
  using first_of_in [of "by_room rows" r] first_of_sorted [of mb_percent "by_room rows" r]
  by (auto simp: by_room_def)

lemma donor_chosen:
  assumes "selectMemoryBalancerDonor rows target = Some donor"
  shows "donor \<in> set (donor_candidates rows target) \<and> mb_percent donor \<le> EMERGENCY_DONOR_MAX_PERCENT
    \<and> (\<forall>r \<in> set (donor_candidates rows target). mb_percent donor \<le> mb_percent r)"
proof (cases "first_of (by_room (filter (\<lambda>r. mb_percent r \<le> DONOR_MAX_PERCENT) (donor_candidates rows target)))")
  case None
  then have d: "first_of (by_room (filter (\<lambda>r. mb_percent r \<le> EMERGENCY_DONOR_MAX_PERCENT) (donor_candidates rows target))) = Some donor"
    using assms by (simp add: selectMemoryBalancerDonor_def Let_def)
  from first_by_room [OF d] show ?thesis by force
next
  case (Some r)
  then have "r = donor" using assms by (simp add: selectMemoryBalancerDonor_def Let_def)
  with first_by_room [OF Some] show ?thesis
    by (force simp: DONOR_MAX_PERCENT_def EMERGENCY_DONOR_MAX_PERCENT_def)
qed

lemma target_chosen:
  assumes "select_target rows = Some target"
  shows "target \<in> set rows \<and> HIGH_WATERMARK \<le> mb_percent target \<and> (\<forall>r \<in> set rows. mb_percent r \<le> mb_percent target)"
proof -
  let ?f = "filter (\<lambda>r. HIGH_WATERMARK \<le> mb_percent r) rows"
  have f: "first_of (sort_key (\<lambda>r. - mb_percent r) ?f) = Some target" using assms by (simp add: select_target_def)
  have "r \<in> set ?f \<Longrightarrow> mb_percent r \<le> mb_percent target" for r
    using first_of_sorted [OF sorted_sort_key f, of r] by simp
  then show ?thesis using first_of_in [OF f] by force
qed

lemma js_round_shift: "js_round (q + of_int n) = js_round q + n"
proof -
  have "q + of_int n + 1/2 = (q + 1/2) + of_int n" by simp
  then show ?thesis by (simp only: js_round_def floor_add_int)
qed

lemma mib_shift:
  assumes "256 \<le> js_round (of_int a / 1024 ^ 2)" and "256 \<le> js_round (of_int a / 1024 ^ 2) + n"
  shows "dockerMemoryMib (a + n * 1024 ^ 2) = dockerMemoryMib a + n"
proof -
  have e: "of_int (a + n * 1024 ^ 2) / (1024 ^ 2 :: rat) = of_int a / 1024 ^ 2 + of_int n" by (simp add: field_simps)
  show ?thesis unfolding dockerMemoryMib_def e js_round_shift using assms by simp
qed

lemma mib_large: "n * 1024 ^ 2 \<le> a \<Longrightarrow> n \<le> js_round (of_int a / 1024 ^ 2)"
proof -
  assume "n * 1024 ^ 2 \<le> a"
  then have "of_int (n * 1024 ^ 2) \<le> (of_int a :: rat)" by (simp only: of_int_le_iff)
  then have "of_int n \<le> of_int a / (1024 ^ 2 :: rat)" by (simp add: field_simps)
  then show ?thesis by (simp add: js_round_def le_floor_iff)
qed

lemma target_above_donor:
  assumes d: "donor \<in> set (donor_candidates rows target)"
  shows "mb_container donor \<noteq> mb_container target"
    and "mb_used donor + MIN_HEADROOM_BYTES \<le> mb_limit donor - CHUNK_BYTES"
    and "of_int (mb_used donor) \<le> (of_int (mb_limit donor - CHUNK_BYTES) * (4/5) :: rat)"
    and "CHUNK_BYTES \<le> mb_limit donor - CHUNK_BYTES"
proof -
  have m: "minimumBalancerLimit donor \<le> mb_limit donor - CHUNK_BYTES" and c: "mb_container donor \<noteq> mb_container target"
    using d by (auto simp: donor_candidates_def)
  show "mb_container donor \<noteq> mb_container target" by (fact c)
  show "mb_used donor + MIN_HEADROOM_BYTES \<le> mb_limit donor - CHUNK_BYTES" "CHUNK_BYTES \<le> mb_limit donor - CHUNK_BYTES"
    using m by (simp_all add: minimumBalancerLimit_def)
  have "\<lceil>of_int (mb_used donor) * (5/4) :: rat\<rceil> \<le> mb_limit donor - CHUNK_BYTES"
    using m by (simp add: minimumBalancerLimit_def)
  then have "of_int (mb_used donor) * (5/4) \<le> (of_int (mb_limit donor - CHUNK_BYTES) :: rat)" by (simp only: ceiling_le_iff)
  then show "of_int (mb_used donor) \<le> (of_int (mb_limit donor - CHUNK_BYTES) * (4/5) :: rat)" by simp
qed

lemma transfer_mib:
  assumes "target \<in> set (usable_rows rows)" and "donor \<in> set (donor_candidates (usable_rows rows) target)"
    and "256 * 1024 ^ 2 \<le> mb_limit target"
  shows "dockerMemoryMib (mb_limit target + CHUNK_BYTES) = dockerMemoryMib (mb_limit target) + 1024"
    and "dockerMemoryMib (mb_limit donor - CHUNK_BYTES) = dockerMemoryMib (mb_limit donor) - 1024"
proof -
  have t: "256 \<le> js_round (of_int (mb_limit target) / 1024 ^ 2)" by (rule mib_large [OF assms(3)])
  show "dockerMemoryMib (mb_limit target + CHUNK_BYTES) = dockerMemoryMib (mb_limit target) + 1024"
    using mib_shift [of "mb_limit target" 1024] t by (simp add: CHUNK_BYTES_def)
  have "2048 \<le> js_round (of_int (mb_limit donor) / 1024 ^ 2)"
    by (rule mib_large) (use target_above_donor(4) [OF assms(2)] in \<open>simp add: CHUNK_BYTES_def\<close>)
  then show "dockerMemoryMib (mb_limit donor - CHUNK_BYTES) = dockerMemoryMib (mb_limit donor) - 1024"
    using mib_shift [of "mb_limit donor" "- 1024"] by (simp add: CHUNK_BYTES_def)
qed

text \<open>
  A whole tick that nothing else interleaves with, with what the sample gives and how docker ends the two updates; an
  update that fails ends the tick.
\<close>

definition whole_tick :: "string + memory_row list \<Rightarrow> update \<Rightarrow> update \<Rightarrow> balancer \<Rightarrow> balancer option" where
  "whole_tick sample u1 u2 w = (case tick_sampled sample w of
     None \<Rightarrow> None
   | Some w1 \<Rightarrow> if bw_tick w1 = NoTick then Some w1
       else case tick_raised u1 w1 of
         None \<Rightarrow> None
       | Some w2 \<Rightarrow> if bw_tick w2 = NoTick then Some w2 else tick_lowered u2 w2)"

text \<open>The updates that change the limit docker enforces.\<close>

definition takes_effect :: "update \<Rightarrow> bool" where
  "takes_effect u = (case u of Refused e \<Rightarrow> False | _ \<Rightarrow> True)"

lemma plan_transfer_move:
  "bw_tick (plan_transfer rows w) = RaiseTarget target donor \<Longrightarrow>
    select_target (usable_rows rows) = Some target \<and> selectMemoryBalancerDonor (usable_rows rows) target = Some donor
    \<and> bw_limits (plan_transfer rows w) = bw_limits w"
  by (auto simp: plan_transfer_def Let_def end_balancing_def split: option.splits)

lemma plan_transfer_phase: "bw_tick (plan_transfer rows w) = NoTick \<or> (\<exists>t d. bw_tick (plan_transfer rows w) = RaiseTarget t d)"
  by (simp add: plan_transfer_def Let_def end_balancing_def split: option.splits)

text \<open>The three ways a planned transfer ends, by what docker did with its updates.\<close>

lemma transfer_limits:
  assumes p: "bw_tick w1 = RaiseTarget target donor" and apart: "mb_container donor \<noteq> mb_container target"
    and v: "(case tick_raised u1 w1 of None \<Rightarrow> None
       | Some w2 \<Rightarrow> if bw_tick w2 = NoTick then Some w2 else tick_lowered u2 w2) = Some v"
  shows "bw_tick v = NoTick \<and> \<not> bw_running v \<and> bw_enabled v = bw_enabled w1
    \<and> (\<forall>c. om_get (bw_limits v) c =
        (if c = mb_container target \<and> takes_effect u1 then Some (dockerMemoryMib (mb_limit target + CHUNK_BYTES))
         else if c = mb_container donor \<and> u1 = Applied \<and> takes_effect u2 then Some (dockerMemoryMib (mb_limit donor - CHUNK_BYTES))
         else om_get (bw_limits w1) c))"
  using v p apart
  by (cases u1; cases u2)
    (auto simp: tick_raised_def tick_lowered_def update_limit_def update_error_def takes_effect_def Let_def
      balancing_failed_def end_balancing_def report_def omap_simps)

text \<open>
  C22. A tick of the balancer that nothing interleaves with moves at most one GiB. When it moves one, it goes to the
  fullest of the running containers, which is at least at 90 percent, from another one that is at most at 70 percent and,
  of those that can afford it, the emptiest; and the donor would keep a GiB above what it uses and be at most at 80
  percent of its new limit. If the limits docker enforces are those of the sample, none below 256 MiB, the least docker is ever
  asked for, then whatever docker does with the two updates, the limit of the target is raised by 1024 MiB if the first one took effect, the one of the donor lowered by as
  much only if the first one succeeded and the second took effect, and every other limit stays: the total stays what it
  was, or is a GiB higher when the donor was not lowered.
\<close>

theorem transfer_is_safe:
  assumes "bw_tick w = Sampling" and "whole_tick sample u1 u2 w = Some v"
    and "\<And>rows r. sample = Inr rows \<Longrightarrow> r \<in> set (usable_rows rows) \<Longrightarrow>
        256 * 1024 ^ 2 \<le> mb_limit r \<and> om_get (bw_limits w) (mb_container r) = Some (dockerMemoryMib (mb_limit r))"
  shows "bw_tick v = NoTick \<and> \<not> bw_running v \<and> bw_enabled v = bw_enabled w \<and>
    (bw_limits v = bw_limits w \<or> (\<exists>rows target donor. sample = Inr rows
       \<and> target \<in> set (usable_rows rows) \<and> donor \<in> set (usable_rows rows) \<and> mb_container donor \<noteq> mb_container target
       \<and> 90 \<le> mb_percent target \<and> (\<forall>r \<in> set (usable_rows rows). mb_percent r \<le> mb_percent target)
       \<and> mb_percent donor \<le> 70 \<and> (\<forall>r \<in> set (donor_candidates (usable_rows rows) target). mb_percent donor \<le> mb_percent r)
       \<and> mb_used donor + 1024 ^ 3 \<le> mb_limit donor - 1024 ^ 3
       \<and> of_int (mb_used donor) \<le> (of_int (mb_limit donor - 1024 ^ 3) * (80/100) :: rat)
       \<and> (\<forall>c. om_get (bw_limits v) c =
            (if c = mb_container target \<and> takes_effect u1 then map_option (\<lambda>m. m + 1024) (om_get (bw_limits w) c)
             else if c = mb_container donor \<and> u1 = Applied \<and> takes_effect u2 then map_option (\<lambda>m. m - 1024) (om_get (bw_limits w) c)
             else om_get (bw_limits w) c))))"
proof (cases sample)
  case (Inl e)
  then have "v = balancing_failed e w" using assms(1,2) by (simp add: whole_tick_def tick_sampled_def balancing_failed_def end_balancing_def)
  then show ?thesis by (simp add: balancing_failed_def end_balancing_def)
next
  case (Inr rows)
  let ?w1 = "plan_transfer rows w"
  have step: "tick_sampled sample w = Some ?w1" using assms(1) Inr by (simp add: tick_sampled_def)
  show ?thesis
  proof (cases "bw_tick ?w1 = NoTick")
    case True
    then have "v = ?w1" using assms(2) step by (simp add: whole_tick_def)
    then show ?thesis using True assms(1)
      by (auto simp: plan_transfer_def Let_def end_balancing_def report_def split: option.splits)
  next
    case False
    then obtain target donor where p: "bw_tick ?w1 = RaiseTarget target donor" using plan_transfer_phase by blast
    note m = plan_transfer_move [OF p]
    have t: "target \<in> set (usable_rows rows)" "90 \<le> mb_percent target" "\<forall>r \<in> set (usable_rows rows). mb_percent r \<le> mb_percent target"
      using target_chosen [of "usable_rows rows" target] m by (auto simp: HIGH_WATERMARK_def)
    have d: "donor \<in> set (donor_candidates (usable_rows rows) target)" "mb_percent donor \<le> 70"
        "\<forall>r \<in> set (donor_candidates (usable_rows rows) target). mb_percent donor \<le> mb_percent r"
      using donor_chosen [of "usable_rows rows" target donor] m by (auto simp: EMERGENCY_DONOR_MAX_PERCENT_def)
    have dr: "donor \<in> set (usable_rows rows)" using d(1) by (simp add: donor_candidates_def)
    note k = target_above_donor [OF d(1)] and b = transfer_mib [OF t(1) d(1)]
    note ended = transfer_limits [OF p k(1), of u2 u1 v]
    have moved: "(case tick_raised u1 ?w1 of None \<Rightarrow> None
        | Some w2 \<Rightarrow> if bw_tick w2 = NoTick then Some w2 else tick_lowered u2 w2) = Some v"
      using assms(2) step False by (simp add: whole_tick_def)
    have e: "bw_enabled ?w1 = bw_enabled w"
      by (simp add: plan_transfer_def Let_def end_balancing_def report_def split: option.splits)
    have l: "om_get (bw_limits v) c =
        (if c = mb_container target \<and> takes_effect u1 then map_option (\<lambda>m. m + 1024) (om_get (bw_limits w) c)
         else if c = mb_container donor \<and> u1 = Applied \<and> takes_effect u2 then map_option (\<lambda>m. m - 1024) (om_get (bw_limits w) c)
         else om_get (bw_limits w) c)" for c
      using ended [OF moved] assms(3) [OF Inr t(1)] assms(3) [OF Inr dr] b m by simp
    have safe: "mb_used donor + 1024 ^ 3 \<le> mb_limit donor - 1024 ^ 3"
        "of_int (mb_used donor) \<le> (of_int (mb_limit donor - 1024 ^ 3) * (80/100) :: rat)"
      using k by (simp_all add: MIN_HEADROOM_BYTES_def CHUNK_BYTES_def)
    from ended [OF moved] e have idle: "bw_tick v = NoTick" "\<not> bw_running v" "bw_enabled v = bw_enabled w" by simp_all
    show ?thesis
      by (intro conjI disjI2 exI [of _ rows] exI [of _ target] exI [of _ donor] idle Inr t d(2,3) dr k(1) safe allI l)
  qed
qed

definition demo_rows :: "memory_row list" where
  "demo_rows = map (\<lambda>(c, used, limit, percent). \<lparr>mb_container = c, mb_map = mapFromContainerName c, mb_used = used * GIB,
     mb_limit = limit * GIB, mb_percent = percent, mb_swap_used = 0, mb_swap_limit = 0, mb_swap = False\<rparr>)
     [(''dune-server-overmap'', 1, 8, 12), (''dune-server-survival-1'', 15, 16, 94)]"

definition demo_balancer :: balancer where
  "demo_balancer = (new_balancer True [(''dune-server-overmap'', 8192), (''dune-server-survival-1'', 16384)])
     \<lparr>bw_running := True, bw_tick := Sampling\<rparr>"

lemma transfer_is_safe_witness:
  "map_option bw_limits (whole_tick (Inr demo_rows) Applied Applied demo_balancer)
     = Some [(''dune-server-overmap'', 7168), (''dune-server-survival-1'', 17408)]
   \<and> map_option bw_limits (whole_tick (Inr demo_rows) Applied (Refused ''no'') demo_balancer)
     = Some [(''dune-server-overmap'', 8192), (''dune-server-survival-1'', 17408)]
   \<and> map_option bw_tick (whole_tick (Inr demo_rows) Applied (Refused ''no'') demo_balancer) = Some NoTick"
proof -
  have r: "map_option bw_limits (whole_tick (Inr demo_rows) Applied Applied demo_balancer)
      = Some [(''dune-server-overmap'', 7168), (''dune-server-survival-1'', 17408)]" by code_simp
  have q: "map_option bw_limits (whole_tick (Inr demo_rows) Applied (Refused ''no'') demo_balancer)
      = Some [(''dune-server-overmap'', 8192), (''dune-server-survival-1'', 17408)]" by code_simp
  then obtain v where v: "whole_tick (Inr demo_rows) Applied (Refused ''no'') demo_balancer = Some v" by auto
  have s: "bw_tick demo_balancer = Sampling" by (simp add: demo_balancer_def)
  have h: "list_all (\<lambda>r. 256 * 1024 ^ 2 \<le> mb_limit r
      \<and> om_get (bw_limits demo_balancer) (mb_container r) = Some (dockerMemoryMib (mb_limit r))) (usable_rows demo_rows)"
    by code_simp
  from transfer_is_safe [OF s v] h have "bw_tick v = NoTick" unfolding list_all_iff by blast
  then show ?thesis using r q v by simp
qed

section \<open>What a transfer does not keep\<close>

text \<open>
  Turned off while a tick waits for its first update: the restored limits are changed again by the tick, which does not
  look at \<open>enabled\<close> after its start, and nothing restores them later.
\<close>

lemma off_during_tick_leaves_transfer:
  assumes "bw_tick w = RaiseTarget target donor" and "om_get (bw_switches w) i = Some (Restoring [])"
    and "\<not> bw_enabled w" and "mb_container donor \<noteq> mb_container target"
  shows "\<exists>w1 w2 w3. switch_restored i Applied w = Some w1 \<and> tick_raised Applied w1 = Some w2 \<and> tick_lowered Applied w2 = Some w3
    \<and> \<not> bw_enabled w3 \<and> \<not> bw_running w3 \<and> bw_switches w3 = om_delete i (bw_switches w) \<and> bw_baseline w3 = []
    \<and> om_get (bw_limits w3) (mb_container target) = Some (dockerMemoryMib (mb_limit target + CHUNK_BYTES))
    \<and> om_get (bw_limits w3) (mb_container donor) = Some (dockerMemoryMib (mb_limit donor - CHUNK_BYTES))"
  using assms by (simp add: switch_restored_def tick_raised_def tick_lowered_def update_limit_def update_error_def
      Let_def end_balancing_def report_def omap_simps)

text \<open>
  The target is raised before the donor is lowered: when docker refuses to lower the donor, the target keeps the GiB, and
  the next tick may give it another one.
\<close>

lemma refused_donor_keeps_raise:
  assumes "bw_tick w = RaiseTarget target donor"
  shows "\<exists>w1 w2. tick_raised Applied w = Some w1 \<and> tick_lowered (Refused e) w1 = Some w2
    \<and> bw_limits w2 = om_set (mb_container target) (dockerMemoryMib (mb_limit target + CHUNK_BYTES)) (bw_limits w)
    \<and> bw_tick w2 = NoTick \<and> bw_running (balancer_tick w2) = bw_enabled w"
  using assms by (simp add: tick_raised_def tick_lowered_def update_limit_def update_error_def Let_def balancing_failed_def
      end_balancing_def balancer_tick_def)

text \<open>The status line of the default setting, read step by step.\<close>

lemma mib_decimal: "dockerMemoryMib 16000000000 = 15259"
  by (simp add: dockerMemoryMib_def js_round_def floor_eq_iff)

lemma mib_binary: "dockerMemoryMib (16 * GIB) = 16384"
  by (simp add: dockerMemoryMib_def js_round_def GIB_def floor_eq_iff)

lemma show_15259: "show_int 15259 = ''15259''"
  by (simp add: show_int_def show_nat.simps [of 15259] show_nat.simps [of 1525] show_nat.simps [of 152] show_nat.simps [of 15] show_nat.simps [of "Suc 0"] digit_char_def char_of_def bit_0)

lemma show_16384: "show_int 16384 = ''16384''"
  by (simp add: show_int_def show_nat.simps [of 16384] show_nat.simps [of 1638] show_nat.simps [of 163] show_nat.simps [of 16] show_nat.simps [of "Suc 0"] digit_char_def char_of_def bit_0)

lemma demo_chars: "is_digit CHR ''1'' = True" "is_digit CHR ''6'' = True" "is_digit CHR ''0'' = True" "is_digit CHR ''.'' = False"
  "is_ws CHR ''1'' = False"
  by code_simp+

lemma demo_digits: "digits_val ''1600'' = 1600"
  by (simp add: digits_val_def digit_val_def code_def)

lemma demo_float: "parseFloat ''16.00'' = Num 16"
  by (simp add: parseFloat_def parse_float_unsigned_def demo_chars demo_digits exponent_prefix_def pow10_def Let_def starts_with_def trim_left_def)

lemma demo_amount: "filter is_amount ''16.00GB'' = ''16.00''"
  by code_simp

lemma demo_amount_prefix: "takeWhile is_amount ''16.00GB'' = ''16.00''"
  by code_simp

lemma demo_unit: "byte_unit (trim_left (dropWhile is_amount ''16.00GB'')) = Some ''gb''"
  by code_simp

lemma demo_multiplier: "byte_multiplier ''gb'' = 1000 ^ 3"
  by (simp add: byte_multiplier_def)

lemma demo_bytes: "parseDockerBytes ''16.00GB'' = 16000000000"
  unfolding parseDockerBytes_def demo_float demo_amount demo_amount_prefix demo_unit by (simp add: demo_multiplier num_or_def js_round_def floor_eq_iff)

lemma demo_lines: "split_lines ''Survival_1                   16g default'' = [''Survival_1                   16g default'']"
  by code_simp

lemma demo_row: "split_row [] ''Survival_1                   16g default'' = Some (''Survival_1'', ''16g default'')"
  by code_simp

lemma demo_memory: "formatMemoryValue (js_trim ''16g default'') = ''16.00 GB (Default)''"
  by code_simp

lemma demo_setting: "setting_text ''16.00 GB (Default)'' = Some ''16.00GB''"
  by code_simp

lemma demo_kept: "filter (\<lambda>line. line \<noteq> [] \<and> \<not> memory_heading line) (map js_trim [''Survival_1                   16g default'']) = [''Survival_1                   16g default'']"
  by code_simp

lemma demo_status: "parseMemoryStatusRows ''Survival_1                   16g default'' = [(''Survival_1'', ''16.00 GB (Default)'')]"
  unfolding parseMemoryStatusRows_def demo_lines demo_kept by (simp only: map_filter_simps demo_row demo_memory list.map option.case prod.case)

lemma demo_setting_bytes: "parseMemorySettingBytes ''16.00 GB (Default)'' = 16000000000"
  unfolding parseMemorySettingBytes_def demo_setting by (simp only: option.case demo_bytes)

lemma demo_configured: "configured_limits ''Survival_1                   16g default'' = [(''Survival_1'', 16000000000)]"
  unfolding configured_limits_def demo_status by (simp only: fold.simps o_apply id_apply prod.case Let_def demo_setting_bytes om_set.simps if_True zero_less_numeral)

lemma demo_target: "memoryTargetForContainer ''dune-server-survival-1'' = ''Survival_1''"
  by code_simp

text \<open>
  The limits that are put back are not the configured ones: the status line of the default setting, which docker is given
  as \<open>16g\<close> when the container starts, is formatted with the unit GB and read back in powers of ten.
\<close>

lemma restored_limit_is_decimal:
  "configuredMemoryLimitsByContainer ''Survival_1                   16g default''
     [row\<lparr>mb_container := ''dune-server-survival-1''\<rparr>] = [(''dune-server-survival-1'', 16000000000)]"
  "dockerMemoryArg 16000000000 = ''15259m''" "dockerMemoryArg (16 * GIB) = ''16384m''"
  by (simp_all add: configuredMemoryLimitsByContainer_def configured_for_def demo_configured demo_target om_get_def
      dockerMemoryArg_def mib_decimal mib_binary show_15259 show_16384)

section \<open>The sampler\<close>

text \<open>
  \<open>createDockerStatsSampler\<close>: a sample is shared while it is taken, and kept for a while. \<open>sm_cached\<close> has the rows and
  the time of the sample.
\<close>

datatype reading = FromCache "memory_row list" | Joined | Started

record sampler =
  sm_cached :: "(memory_row list \<times> int) option"
  sm_inFlight :: bool

definition LIVE_MEMORY_CACHE_MS :: int where "LIVE_MEMORY_CACHE_MS = 10000"

definition read_sample :: "int \<Rightarrow> int \<Rightarrow> bool \<Rightarrow> sampler \<Rightarrow> reading \<times> sampler" where
  "read_sample cacheMs now fresh s = (case sm_cached s of
     Some (rows, sampledAt) \<Rightarrow>
       if \<not> fresh \<and> now - sampledAt < max 0 cacheMs then (FromCache rows, s)
       else if sm_inFlight s then (Joined, s) else (Started, s\<lparr>sm_inFlight := True\<rparr>)
   | None \<Rightarrow> if sm_inFlight s then (Joined, s) else (Started, s\<lparr>sm_inFlight := True\<rparr>))"

definition sample_taken :: "int \<Rightarrow> (memory_row list \<times> (string, swap_stats) omap) option \<Rightarrow> sampler \<Rightarrow> sampler" where
  "sample_taken now result s = (case result of
     None \<Rightarrow> s\<lparr>sm_inFlight := False\<rparr>
   | Some (rows, swaps) \<Rightarrow> \<lparr>sm_cached = Some (applyContainerSwapStats rows swaps, now), sm_inFlight = False\<rparr>)"

lemma fresh_reading_never_cached: "fst (read_sample cacheMs now True s) \<noteq> FromCache rows"
  by (simp add: read_sample_def split: option.splits prod.splits)

end
