(* ===== verification/Spec2Isabelle.thy ===== *)
theory Spec2Isabelle
  imports LoginSteps BridgeRateLimit BridgeCredential RestartQueue SystemRestore AddonDeliveries MemoryBalancer
begin

text \<open>
  The verification development of the API server of the Dune Awakening self-host console, the Node.js program under
  \<open>console/api/src\<close>. Administrators, players, addons and a Discord bot drive a game server stack through it; most of
  what it has to get right is who may do what, that a thing is done at most once, and that what is stored survives a
  restart. The development models that part of the server, one theory per component.

  The parts and how they interact. A request to \<open>handleApi\<close> in \<open>server.js\<close> passes the central gate (\<open>Gate\<close>): the
  action of its route (\<open>Actions\<close>), the session of its cookie (\<open>Auth\<close>) or the key of its bearer token (\<open>ApiKeys\<close> with
  \<open>ApiKeyScopes\<close>), the policy in force (\<open>PolicyEngine\<close>, kept by \<open>PolicyStore\<close>), for a player the ownership gate
  (\<open>PlayerTierGate\<close> over \<open>PlayerScope\<close>), and the rate limiters (\<open>RateLimit\<close>, \<open>BridgeRateLimit\<close>). Sessions are issued
  by \<open>Login\<close>, which checks the password and the second factor (\<open>SecondFactor\<close> over \<open>Totp\<close> and \<open>RecoveryCodes\<close>);
  \<open>LoginSteps\<close> takes the login route apart at its awaits, for sign-ins that overlap. The Discord bot comes in over a
  bridge of its own: the policy of its roles (\<open>DiscordPolicy\<close>), the signature that names the person behind a request
  (\<open>ActorSignature\<close>), the table of what it may ask for (\<open>WriteRoutes\<close>), the confirmations it must get first
  (\<open>WriteNonceStore\<close>), the two routes that preview and execute (\<open>WriteBridge\<close>) and the credential of the request it
  then sends to the gate (\<open>BridgeCredential\<close>). Admitted requests run command lines (\<open>Runner\<close>) as tasks (\<open>Tasks\<close>),
  restore the host (\<open>SystemRestore\<close>), queue restarts (\<open>RestartQueue\<close>), hand over rewards of addons (\<open>AddonDeliveries\<close>)
  or switch the memory balancer (\<open>MemoryBalancer\<close>). The policy, the keys, the sessions and the second factor are files
  that \<open>writeJsonAtomic\<close> replaces as a whole (\<open>JsonStore\<close>); the restart queue, the setting of the balancer and the
  password are written in place, and the deliveries by a rename of their own.

  Theories and sources, in the order of the imports. \<open>Prelude\<close> holds the insertion-ordered map (the interface \<open>js_map\<close>
  and its interpretation \<open>om\<close>), rounding and list facts; \<open>Js\<close> the JavaScript values, numbers and strings the code
  uses. \<open>RateLimit\<close>: \<open>rateLimit.js\<close> and the limits in \<open>server.js\<close>. \<open>BridgeRateLimit\<close>: \<open>bridgeRateLimit.js\<close>. \<open>Actions\<close>:
  \<open>actions.js\<close>. \<open>PlayerTierGate\<close>: \<open>playerTierGate.js\<close>. \<open>PolicyEngine\<close> and \<open>PolicyStore\<close>: \<open>policy.js\<close>. \<open>PlayerScope\<close>:
  \<open>playerScope.js\<close>, \<open>playerOwnedScope.js\<close>, \<open>playerAccessParam.js\<close>. \<open>JsonStore\<close>: \<open>jsonStore.js\<close>. \<open>ApiKeyScopes\<close> and
  \<open>ApiKeys\<close>: \<open>apiKeyScopes.js\<close>, \<open>apiKeys.js\<close>. \<open>Auth\<close>: \<open>auth.js\<close>. \<open>Totp\<close>, \<open>RecoveryCodes\<close>, \<open>SecondFactor\<close>:
  \<open>auth/totp.js\<close>, \<open>auth/recoveryCodes.js\<close>, \<open>auth/secondFactorStore.js\<close>. \<open>Login\<close>: \<open>passwordHash.js\<close> and the
  authentication routes of \<open>server.js\<close>. \<open>LoginSteps\<close>: the login route of \<open>server.js\<close> again, await by await. \<open>Gate\<close>:
  \<open>handleApi\<close> of \<open>server.js\<close>. \<open>DiscordPolicy\<close>, \<open>ActorSignature\<close>, \<open>WriteNonceStore\<close>, \<open>WriteRoutes\<close>, \<open>WriteBridge\<close>,
  \<open>BridgeCredential\<close>: \<open>integrations/discord\<close>. \<open>RestartQueue\<close>: \<open>services/restartQueue.js\<close>, validators of \<open>rmq.js\<close>, the
  tick and the recovery in \<open>server.js\<close>. \<open>Runner\<close>: \<open>runner.js\<close>. \<open>Tasks\<close>: \<open>tasks.js\<close>. \<open>SystemRestore\<close>:
  \<open>services/restorePreviewReceipts.js\<close>, the name check of \<open>services/systemBackups.js\<close>, the restore route.
  \<open>AddonDeliveries\<close>: \<open>addonDeliveries.js\<close>. \<open>MemoryBalancer\<close>: \<open>services/memoryBalancer.js\<close> and the memory rows of
  \<open>statusParsers.js\<close>.

  How the code is rendered. A class or a closure with its variables is a record; a method is a function from the
  record (and what it read from its surroundings) to its result and the new record. A function that may throw, refuse
  or return early gives an option, a sum, or a datatype with one constructor per answer. Objects that come from a
  request or a file are values of \<open>jsval\<close>. A \<open>Map\<close> or an object used as one is an association list in insertion order.
  What runs between two awaits is one step; where operations interleave (sign-ins, the tick of the restart queue,
  tasks, restore previews, deliveries, the balancer, the write bridge) the steps are functions on a state that also
  holds what is suspended, and a run is a list of events or an inductive reachability relation. A crash is a step that
  keeps only the files.

  What the model abstracts. A string is a list of code units below 256. A number is an exact rational, or \<open>NaN\<close> or an
  infinity. Hashes, HMAC, scrypt, constant-time comparison, random bytes, JSON printing and parsing, date parsing and
  the docker and shell programs are arguments of the functions that use them, with what the code relies on as
  hypotheses (for instance that parsing reads back what was printed, or that a signature determines the message).
  Clock readings are arguments; a step reads the clock once. The writes of the policy, the keys, the sessions, the
  second factor, the password and the deliveries take their outcome as an argument. A write of the queue file may fail
  where a restart is executed, and may lose the file at any time; a request or a boot whose write fails and leaves the
  file as it was changes nothing and has no step of its own. The write of the queue's settings succeeds, and the
  settings file of the balancer is not part of the model. The texts of messages are modelled only where the code reads
  them again.

  What the lemmas show. For the gate and its parts: what exactly a request needs to be admitted, that the policy
  engine lets a denial win, that a player sees only what is the player's, that a key never reaches beyond its scopes.
  For sessions and the second factor: a full session needs both factors, a spent code, step or key never works again,
  also over a restart and a failed write; \<open>SecondFactor\<close> has an abstract account of steps and codes that the store
  refines. A login that runs alone is the route of \<open>Login\<close> (\<open>login_alone_is_route\<close>), and also among overlapping ones a
  session needs the password (\<open>interleaved_session_needs_password\<close>). For the write bridge: what is sent was previewed,
  confirmed, signed and is sent once, and it is admitted by the gate. For the restart queue: the queue excludes
  doubles, its tick terminates, a due restart is dispatched, and at most once while cancellations and immediate
  restarts keep away from a running tick. For the command lines and tasks: the payload never picks the command nor,
  apart from the listed operations, its second word, arguments survive the shell, the captured output is the bounded
  tail, a hook runs only after success. For restores: an apply needs a finished preview of the same archive. For
  deliveries: a reward is handed over at most once more than it was deferred or visited late, and the number of
  records is bounded. For the balancer: a transfer moves at most a GiB, from a container that can spare it, and keeps
  the total when docker does both updates. The bounds lemmas of the limiters count admissions in every window of a
  run.

  Termination and bounds. No definition bounds its recursion artificially. Recursion is structural, or has a measure
  next to it: the delegation of operations in \<open>Runner\<close> goes down in \<open>delegation_rank\<close>, drawing a key id stops after
  eight draws as in the code, the printers of canonical JSON and of the templates shrink their value. Loops that wait
  are runs of steps; the tick of the restart queue is shown to end. The limits of the code are constants with their
  values (entries of the limiters, pending confirmations, receipts, deliveries per addon and per tick, captured
  output).

  Where the code does not do what it says, a lemma next to the component shows it: a restart cancelled while the tick
  waits is still dispatched, a saved message template can fail when it is sent, and an entry whose removal failed is
  dispatched again on request (\<open>leftover_dispatched_again\<close>, all \<open>RestartQueue\<close>); a password with blanks around it is
  accepted and locks its owner out (\<open>Login\<close>); sign-ins that overlap pass the limit on guesses (\<open>LoginSteps\<close>); a key
  whose id the file holds twice survives its revocation (\<open>duplicate_survives_revocation\<close>, \<open>ApiKeys\<close>); codes issued
  again after the state file was removed are refused (\<open>SecondFactor\<close>); the signature of an execution does not cover
  the confirmation it spends (\<open>WriteBridge\<close>); \<open>one_backup_named_all\<close> (\<open>Runner\<close>); \<open>doubled_marker_forges_warning\<close>
  (\<open>Tasks\<close>); \<open>unreadable_archive_matches\<close> (\<open>SystemRestore\<close>); \<open>queued_attempt_repeats_delivery\<close>,
  \<open>unreadable_record_strands_pending\<close> and \<open>delivered_recorded_as_failed\<close> (\<open>AddonDeliveries\<close>);
  \<open>restored_limit_is_decimal\<close>, \<open>off_during_tick_leaves_transfer\<close> and \<open>refused_donor_keeps_raise\<close> (\<open>MemoryBalancer\<close>).

  Not modelled. The web interface under \<open>console/web\<close> and the shell scripts under \<open>runtime/scripts\<close> are other
  programs. \<open>duneDb.js\<close> and \<open>duneDb/\<close>, \<open>db.js\<close>, the market, base, blueprint and map services build SQL for the game's
  database and shape its rows; what they do is decided by that database, which is not part of the repository. The
  remaining routes of \<open>server.js\<close> read a body, call one of these and answer; they are reached only through the gate
  modelled here. The rest of the Discord integration (OAuth, adapter settings, links, read-only providers) formats
  what other parts give it. Audit lines, redaction, translation, HTTP and static file serving, sockets, child
  processes and timers are effects the model leaves to the environment.
\<close>

section \<open>Properties of the composed gate\<close>

lemma policy_route: "actionForRoute ''/api/settings/iam/policy'' ''PUT'' = Some ''settings:write''"
  by code_simp

text \<open>
  C1. Who gets past the gate, on a console with authentication on: a request that reaches its handler has an
  action, the policy in force allows that action to the tier of its principal, and a player was passed by the
  player gate. There are three ways in and no other. A request with a bearer token is judged by its key alone:
  the key authenticates, and its scopes allow the action, which is never one of the settings, database, setup or
  community namespaces, and of the updates and addons namespaces only a reading one. A request without one is
  either admitted as the principal of the write bridge, which was resolved from the headers of the second hop,
  or it carries the signed cookie of a live session, whose tier and user are those of the principal, and, unless its
  method is exactly GET, HEAD or OPTIONS, the token of that session.
\<close>

theorem only_authorised_requests_pass:
  assumes "\<not> auth_disabled (v_cfg (ge_console env))"
    and "central_gate env policy req io st = (Admit s a k, st')"
  shows "actionForRoute (h_path req) (h_method req) = Some a \<and> a \<noteq> [] \<and> evaluate s a policy
    \<and> (resolveSessionTier s = ''player'' \<longrightarrow>
         enforcePlayerTier (ge_links env) (ge_target env) (ge_guilds env) (h_path req) (h_method req) a s = PassOn)
    \<and> (case k of
         Some r \<Rightarrow> authenticate (ge_sha env) (ge_date env) (gs_keys st) (h_authorization req) (io_time io) = KeyAccepted r s
           \<and> keyAllows r a \<and> namespaceOf a \<notin> set KEY_DENIED_NAMESPACES
           \<and> (namespaceOf a \<in> set KEY_WRITE_DENIED_NAMESPACES \<longrightarrow> isReadAction a)
       | None \<Rightarrow> bearerToken (h_authorization req) = []
           \<and> (h_bridge req = Some s
              \<or> (\<exists>i s0. cookie_id (v_sign (ge_console env)) (h_cookie req) = Some (Some i)
                   \<and> om_get (sessions (cs_auth (gs_console st))) i = Some s0 \<and> of_int (io_time io) \<le> s_expires s0
                   \<and> getp s ''tier'' = s_tier s0 \<and> getp s ''userId'' = s_user s0
                   \<and> (h_method req \<in> {''GET'', ''HEAD'', ''OPTIONS''} \<or> h_csrf req = Some (s_csrf s0)))))"
proof -
  have no: "bearerToken (h_authorization req) = []"
    if "authenticate (ge_sha env) (ge_date env) (gs_keys st) (h_authorization req) (io_time io) = NoBearer"
    using that by (auto simp: authenticate_def Let_def split: if_splits option.splits)
  from assms(2) show ?thesis
  proof (cases rule: gate_cases)
    case (key r st1)
    then have "keyAllows r a" using authorize_admit [OF key(3)] by blast
    then show ?thesis using key(1,2) authorize_admit [OF key(3)] key_bounded [of r a] by simp
  next
    case bridge
    then show ?thesis using no authorize_admit [OF bridge(4)] by simp
  next
    case (session u c)
    obtain i s0 where c: "cookie_id (v_sign (ge_console env)) (h_cookie req) = Some (Some i)"
        "om_get (sessions (cs_auth (gs_console st))) i = Some s0" "of_int (io_time io) \<le> s_expires s0"
        "s_tier u = s_tier s0" "s_user u = s_user s0"
        "h_method req \<in> {''GET'', ''HEAD'', ''OPTIONS''} \<or> h_csrf req = Some (s_csrf s0)"
      using require_auth_session [OF session(5) assms(1)] by blast
    then have "getp s ''tier'' = s_tier s0 \<and> getp s ''userId'' = s_user s0"
      by (simp add: session(4) session_object_def)
    then show ?thesis using no session(1,3) c(1,2,3,6) authorize_admit [OF session(6)] by auto
  qed
qed

definition gate_env_example :: gate_env where
  "gate_env_example = \<lparr>ge_console = env_example, ge_sha = (\<lambda>s. s), ge_date = (\<lambda>s. None), ge_iso = (\<lambda>t. ''T''),
     ge_links = (\<lambda>u. None), ge_target = (\<lambda>i. None), ge_guilds = (\<lambda>is. None)\<rparr>"

definition gate_state_example :: gate_state where
  "gate_state_example = \<lparr>gs_console = state_signed, gs_keys = \<lparr>live_keys = [], pending_use = [], disk = NoFile\<rparr>,
     gs_key_rate = [], gs_failures = []\<rparr>"

definition request_example :: http_request where
  "request_example = \<lparr>h_path = ''/api/settings/iam/policy'', h_method = ''PUT'', h_cookie = ''asc_session=i.i'',
     h_csrf = Some ''c'', h_authorization = [], h_remote = Null, h_bridge = None\<rparr>"

lemma signed_example: "signed_in env_example 5 request_example ''owner'' state_signed"
  by (simp add: signed_in_def state_signed_def request_example_def example_cookie om_get_def om_inv_def signed_session_def
      pending_session_def is_live_def has_setup_scope_def SETUP_SCOPES_def)

lemma no_bearer_example: "bearerToken [] = []"
  by code_simp

text \<open>
  C7. The owner is never locked out of the policy editor: in every reachable state of the policy module,
  whatever was saved, edited by hand or loaded, the request that replaces the policy reaches its handler
  when it comes with the cookie and the token of a live owner session.
\<close>

theorem owner_reaches_policy_editor:
  assumes "policy_reachable sha p" and "\<not> auth_disabled (v_cfg (ge_console env))"
    and "signed_in (ge_console env) (io_time io) req ''owner'' (gs_console st)"
    and "bearerToken (h_authorization req) = []" and "h_bridge req = None"
    and "h_path req = ''/api/settings/iam/policy''" and "h_method req = ''PUT''"
  shows "\<exists>s st'. handle_request env (current_store p) req io st = (Admit s ''settings:write'' None, st')"
proof (rule handle_admits [OF assms(2-5)])
  show "actionForRoute (h_path req) (h_method req) = Some ''settings:write''" using policy_route assms(6,7) by simp
  show "evaluate (mockSession ''owner'') ''settings:write'' (current_store p)"
    using policy_reachable_inv [OF assms(1)] by (simp add: policy_inv_def store_inv_def)
  show "resolveSessionTier (mockSession ''owner'') \<noteq> ''player''"
    by (simp add: tier_of_mock VALID_TIERS_def)
qed simp

theorem owner_reaches_policy_editor_witness:
  "\<exists>s st'. handle_request gate_env_example (current_store (snd (loadPolicies (initial_state (Parsed (Obj []))))))
     request_example (io_example 5) gate_state_example = (Admit s ''settings:write'' None, st')"
proof (rule owner_reaches_policy_editor)
  show "policy_reachable (\<lambda>s. s) (snd (loadPolicies (initial_state (Parsed (Obj [])))))"
    by (rule reach_step, rule reach_init, rule step_load)
  show "bearerToken (h_authorization request_example) = []" using no_bearer_example by (simp add: request_example_def)
qed (simp_all add: gate_env_example_def gate_state_example_def signed_example, simp_all add: request_example_def)

theorem only_authorised_requests_pass_witness:
  "actionForRoute (h_path request_example) (h_method request_example) = Some ''settings:write''
   \<and> (\<exists>i s0. cookie_id (v_sign (ge_console gate_env_example)) (h_cookie request_example) = Some (Some i)
        \<and> om_get (sessions (cs_auth (gs_console gate_state_example))) i = Some s0)"
proof -
  have "signed_in (ge_console gate_env_example) (io_time (io_example 5)) request_example ''owner'' (gs_console gate_state_example)"
    using signed_example by (simp add: gate_env_example_def gate_state_example_def)
  then obtain s c where r: "require_auth (ge_console gate_env_example) (io_example 5) (h_cookie request_example) (h_method request_example)
      (h_csrf request_example) (gs_console gate_state_example) = (Inr s, c)" and t: "s_tier s = Str ''owner''"
    using require_auth_admits [of "ge_console gate_env_example" "io_example 5" request_example "''owner''" "gs_console gate_state_example"
        "h_method request_example"] by (auto simp: gate_env_example_def)
  have e: "evaluate (mockSession ''owner'') ''settings:write'' DEFAULT_POLICIES"
    using default_store_inv by (simp add: store_inv_def)
  have sel: "h_authorization request_example = []" "h_bridge request_example = None"
      "h_path request_example = ''/api/settings/iam/policy''" "h_method request_example = ''PUT''"
    by (simp_all add: request_example_def)
  have tier: "resolveSessionTier (mockSession ''owner'') = ''owner''" by (rule tier_of_mock) (simp add: VALID_TIERS_def)
  obtain st' where g: "central_gate gate_env_example DEFAULT_POLICIES request_example (io_example 5) gate_state_example
      = (Admit (session_object s) ''settings:write'' None, st')"
    using r e tier_of_object [OF t] policy_route no_bearer_example tier
    by (simp add: central_gate_def authenticate_def session_gate_def authorize_request_def sel)
  have "\<not> auth_disabled (v_cfg (ge_console gate_env_example))" by (simp add: gate_env_example_def)
  from only_authorised_requests_pass [OF this g] sel show ?thesis by auto
qed

end
